(* ===== verification/Prelude.thy ===== *)
theory Prelude
  imports Main "HOL-Library.Word" "HOL-Library.List_Lexorder" "HOL-Library.Char_ord"
begin

text \<open>
  Shared vocabulary of the development: byte strings (\<open>std::string\<close> is a list of bytes, here
  \<^typ>\<open>string\<close>), the C character classes in the "C" locale, the members of
  \<open>std::string\<close> the sources use (\<open>find\<close>, \<open>substr\<close>, \<open>getline\<close> on a string stream), decimal
  printing and reading (\<open>std::to_string\<close>, \<open>std::stoul\<close>), and the collections of rewrite rules
  the component theories add to.
\<close>

named_theorems str_simps \<open>facts on the string operations\<close>
named_theorems guards \<open>definitions of small predicates that guard the operations\<close>
named_theorems inv_defs \<open>definitions of the well-formedness invariants\<close>
named_theorems step_defs \<open>definitions of the state-changing operations of a component\<close>

type_synonym u8 = "8 word"
type_synonym u32 = "32 word"
type_synonym u64 = "64 word"
type_synonym i32 = "32 word"
type_synonym byte = "8 word"

section \<open>C character classes\<close>

definition isdigit :: "char \<Rightarrow> bool" where
  "isdigit c \<longleftrightarrow> CHR ''0'' \<le> c \<and> c \<le> CHR ''9''"

definition isspace :: "char \<Rightarrow> bool" where
  "isspace c \<longleftrightarrow> c = CHR '' '' \<or> (CHR 0x09 \<le> c \<and> c \<le> CHR 0x0D)"

definition toupper :: "char \<Rightarrow> char" where
  "toupper c = (if CHR ''a'' \<le> c \<and> c \<le> CHR ''z'' then char_of (of_char c - 32 :: nat) else c)"

definition tolower :: "char \<Rightarrow> char" where
  "tolower c = (if CHR ''A'' \<le> c \<and> c \<le> CHR ''Z'' then char_of (of_char c + 32 :: nat) else c)"

abbreviation code_of :: "char \<Rightarrow> nat" where
  "code_of c \<equiv> of_char c"

lemma char_le_iff: "(c :: char) \<le> d \<longleftrightarrow> code_of c \<le> code_of d"
  by (simp add: less_eq_char_def)

lemma char_less_iff: "(c :: char) < d \<longleftrightarrow> code_of c < code_of d"
  by (simp add: less_char_def)

lemma code_of_less_256 [simp]: "code_of c < 256"
  using of_char_mod_256 [of c, where 'a = nat] by (metis mod_less_divisor zero_less_numeral)

lemma isdigit_code: "isdigit c \<longleftrightarrow> 48 \<le> code_of c \<and> code_of c \<le> 57"
  by (simp add: isdigit_def char_le_iff)

section \<open>Members of std::string\<close>

text \<open>\<open>s.find(c, pos)\<close>: the first index at or after \<open>pos\<close> that holds \<open>c\<close>; None is \<open>npos\<close>.\<close>

definition str_find :: "string \<Rightarrow> char \<Rightarrow> nat \<Rightarrow> nat option" where
  "str_find s c pos =
     (let skipped = length (takeWhile (\<lambda>x. x \<noteq> c) (drop pos s))
      in if pos + skipped < length s then Some (pos + skipped) else None)"

text \<open>\<open>s.find_last_of(c)\<close> for one character.\<close>

definition str_rfind :: "string \<Rightarrow> char \<Rightarrow> nat option" where
  "str_rfind s c = map_option (\<lambda>i. length s - 1 - i) (str_find (rev s) c 0)"

text \<open>\<open>s.substr(pos, len)\<close> and \<open>s.substr(pos)\<close>, for \<open>pos\<close> at most the length.\<close>

definition substr :: "string \<Rightarrow> nat \<Rightarrow> nat \<Rightarrow> string" where
  "substr s pos len = take len (drop pos s)"

lemma takeWhile_delim [simp]: "d \<notin> set a \<Longrightarrow> takeWhile (\<lambda>x. x \<noteq> d) (a @ d # b) = a"
  by (induction a) auto

lemma dropWhile_delim [simp]: "d \<notin> set a \<Longrightarrow> dropWhile (\<lambda>x. x \<noteq> d) (a @ d # b) = d # b"
  by (induction a) auto

lemma takeWhile_absent [simp]: "d \<notin> set a \<Longrightarrow> takeWhile (\<lambda>x. x \<noteq> d) a = a"
  by (induction a) auto

lemma dropWhile_absent [simp]: "d \<notin> set a \<Longrightarrow> dropWhile (\<lambda>x. x \<noteq> d) a = []"
  by (induction a) auto

lemma str_find_0: "str_find s c 0 =
    (if c \<in> set s then Some (length (takeWhile (\<lambda>x. x \<noteq> c) s)) else None)"
proof (cases "c \<in> set s")
  case True
  then have "length (takeWhile (\<lambda>x. x \<noteq> c) s) < length s"
    by (induction s) auto
  with True show ?thesis by (simp add: str_find_def)
next
  case False
  then show ?thesis by (simp add: str_find_def)
qed

lemma str_find_None [str_simps]: "c \<notin> set s \<Longrightarrow> str_find s c 0 = None"
  by (simp add: str_find_0)

lemma str_find_append [str_simps]: "c \<notin> set a \<Longrightarrow> str_find (a @ c # b) c 0 = Some (length a)"
  by (simp add: str_find_0)

lemma str_find_Some_less: "str_find s c pos = Some i \<Longrightarrow> pos \<le> i \<and> i < length s \<and> s ! i = c"
proof -
  assume a: "str_find s c pos = Some i"
  let ?n = "length (takeWhile (\<lambda>x. x \<noteq> c) (drop pos s))"
  from a have i: "i = pos + ?n" and l: "pos + ?n < length s"
    by (auto simp: str_find_def Let_def split: if_splits)
  then have "?n < length (drop pos s)" by simp
  then have "\<not> (drop pos s) ! ?n \<noteq> c"
    using nth_length_takeWhile [of "\<lambda>x. x \<noteq> c" "drop pos s"] by blast
  then show ?thesis using i l by simp
qed

text \<open>\<open>std::getline(ss, piece, d)\<close> in a loop: the pieces between delimiters; a trailing delimiter
  does not start a further piece and the empty stream has none.\<close>

function getlines :: "char \<Rightarrow> string \<Rightarrow> string list" where
  "getlines d s =
     (if s = [] then []
      else (case dropWhile (\<lambda>x. x \<noteq> d) s of
              [] \<Rightarrow> [s]
            | _ # rest \<Rightarrow> takeWhile (\<lambda>x. x \<noteq> d) s # getlines d rest))"
  by pat_completeness auto
termination
proof (relation "measure (\<lambda>(d, s). length s)", goal_cases)
  case 1
  show ?case by simp
next
  case (2 d s x rest)
  then have "length (x # rest) \<le> length s"
    using length_dropWhile_le [of "\<lambda>y. y \<noteq> d" s] by simp
  then show ?case by simp
qed

declare getlines.simps [simp del]

lemma getlines_Nil [simp]: "getlines d [] = []"
  by (simp add: getlines.simps)

lemma getlines_single [str_simps]: "s \<noteq> [] \<Longrightarrow> d \<notin> set s \<Longrightarrow> getlines d s = [s]"
  by (subst getlines.simps) simp

lemma getlines_Cons [str_simps]: "d \<notin> set a \<Longrightarrow> getlines d (a @ d # b) = a # getlines d b"
  by (subst getlines.simps) simp

text \<open>What the pieces are: joining them with the delimiter gives the text back, up to one
  delimiter at the end.\<close>

fun join_with :: "char \<Rightarrow> string list \<Rightarrow> string" where
  "join_with d [] = []"
| "join_with d [x] = x"
| "join_with d (x # y # xs) = x @ d # join_with d (y # xs)"

lemma getlines_no_delim: "\<forall>p \<in> set (getlines d s). d \<notin> set p"
proof (induction d s rule: getlines.induct)
  case (1 d s)
  show ?case
  proof (cases "s = []")
    case True
    then show ?thesis by simp
  next
    case ne: False
    show ?thesis
    proof (cases "dropWhile (\<lambda>x. x \<noteq> d) s")
      case Nil
      then have "d \<notin> set s" by (auto simp: dropWhile_eq_Nil_conv)
      with ne show ?thesis by (simp add: getlines_single)
    next
      case (Cons x rest)
      then have "getlines d s = takeWhile (\<lambda>x. x \<noteq> d) s # getlines d rest"
        using ne by (simp add: getlines.simps [of d s])
      moreover have "d \<notin> set (takeWhile (\<lambda>x. x \<noteq> d) s)"
        by (auto dest: set_takeWhileD)
      ultimately show ?thesis using "1.IH" [OF ne Cons] by simp
    qed
  qed
qed

lemma getlines_join: "ps \<noteq> [] \<Longrightarrow> last ps \<noteq> [] \<Longrightarrow> \<forall>p \<in> set ps. d \<notin> set p \<Longrightarrow>
    getlines d (join_with d ps) = ps"
proof (induction d ps rule: join_with.induct)
  case (3 d x y xs)
  then show ?case by (simp add: getlines_Cons)
qed (auto simp: getlines_single)

section \<open>Decimal numbers\<close>

definition digit_char :: "nat \<Rightarrow> char" where
  "digit_char d = char_of (48 + d)"

definition digit_val :: "char \<Rightarrow> nat" where
  "digit_val c = code_of c - 48"

text \<open>\<open>std::to_string\<close> of an unsigned value.\<close>

fun to_string :: "nat \<Rightarrow> string" where
  "to_string n = (if n < 10 then [digit_char n] else to_string (n div 10) @ [digit_char (n mod 10)])"

declare to_string.simps [simp del]

text \<open>The value of a string of decimal digits, most significant first.\<close>

definition dec_value :: "string \<Rightarrow> nat" where
  "dec_value s = foldl (\<lambda>n c. 10 * n + digit_val c) 0 s"

lemma code_of_digit_char: "d < 10 \<Longrightarrow> code_of (digit_char d) = 48 + d"
  by (simp add: digit_char_def of_char_of)

lemma isdigit_digit_char [simp]: "d < 10 \<Longrightarrow> isdigit (digit_char d)"
  by (simp add: isdigit_code code_of_digit_char)

lemma digit_val_digit_char [simp]: "d < 10 \<Longrightarrow> digit_val (digit_char d) = d"
  by (simp add: digit_val_def code_of_digit_char)

lemma to_string_digits: "\<forall>c \<in> set (to_string n). isdigit c"
proof (induction n rule: to_string.induct)
  case (1 n)
  then show ?case by (subst to_string.simps) auto
qed

lemma to_string_nonempty [simp]: "to_string n \<noteq> []"
  by (subst to_string.simps) simp

lemma dec_value_snoc: "dec_value (s @ [c]) = 10 * dec_value s + digit_val c"
  by (simp add: dec_value_def)

lemma dec_value_to_string [simp]: "dec_value (to_string n) = n"
proof (induction n rule: to_string.induct)
  case (1 n)
  show ?case
  proof (cases "n < 10")
    case True
    then show ?thesis by (subst to_string.simps) (simp add: dec_value_def)
  next
    case False
    with 1 show ?thesis by (subst to_string.simps) (simp add: dec_value_snoc)
  qed
qed

lemma to_string_inject: "to_string m = to_string n \<Longrightarrow> m = n"
  by (metis dec_value_to_string)

text \<open>\<open>std::stoul\<close> and \<open>std::stoull\<close> on a string of digits (LP64): \<open>std::invalid_argument\<close> on the
  empty string, \<open>std::out_of_range\<close> above the largest 64-bit value.\<close>

datatype std_error = Invalid_argument | Out_of_range | Length_error | Std_exception

definition stoul :: "string \<Rightarrow> std_error + nat" where
  "stoul s =
     (if s = [] then Inl Invalid_argument
      else if 2 ^ 64 \<le> dec_value s then Inl Out_of_range
      else Inr (dec_value s))"

lemma stoul_to_string: "n < 2 ^ 64 \<Longrightarrow> stoul (to_string n) = Inr n"
  by (simp add: stoul_def)

text \<open>Both on any text: leading blanks, a sign, the digits that follow; a negative value is taken modulo
  2 ^ 64.\<close>

fun split_sign :: "string \<Rightarrow> bool \<times> string" where
  "split_sign [] = (False, [])"
| "split_sign (c # s) = (if c = CHR ''-'' then (True, s) else if c = CHR ''+'' then (False, s) else (False, c # s))"

definition std_stoul :: "string \<Rightarrow> std_error + nat" where
  "std_stoul s =
     (let (neg, t) = split_sign (dropWhile isspace s); digits = takeWhile isdigit t
      in if digits = [] then Inl Invalid_argument
         else if 2 ^ 64 \<le> dec_value digits then Inl Out_of_range
         else Inr (if neg then (2 ^ 64 - dec_value digits) mod 2 ^ 64 else dec_value digits))"

section \<open>Traversals with a callback\<close>

text \<open>Several containers hand their entries to a callback until it answers false.\<close>

fun traverse :: "('h \<Rightarrow> 's \<Rightarrow> bool \<times> 's) \<Rightarrow> 'h list \<Rightarrow> 's \<Rightarrow> 's" where
  "traverse func [] s = s"
| "traverse func (h # hs) s = (let (go, s') = func h s in if go then traverse func hs s' else s')"

lemma traverse_collect:
  "traverse (\<lambda>h acc. (True, if P h then acc @ [f h] else acc)) hs acc = acc @ map f (filter P hs)"
  by (induction hs arbitrary: acc) simp_all

lemma traverse_find:
  "traverse (\<lambda>h s. if P h then (False, g h s) else (True, s)) hs s =
     (case find P hs of Some h \<Rightarrow> g h s | None \<Rightarrow> s)"
  by (induction hs) simp_all

section \<open>Machine words\<close>

lemma sint_small [str_simps]: "unat (w :: 32 word) < 2 ^ 31 \<Longrightarrow> sint w = int (unat w)"
proof -
  assume "unat w < 2 ^ 31"
  then have "uint w < 2 ^ 31"
    by (metis nat_less_numeral_power_cancel_iff unat_eq_nat_uint)
  moreover have "- (2 ^ 31) \<le> uint w"
    by (rule order_trans [of _ 0]) simp_all
  ultimately have "signed_take_bit 31 (uint w) = uint w"
    by (intro signed_take_bit_int_eq_self) simp_all
  then show ?thesis by (simp add: sint_uint)
qed

lemma unat_sub_le [str_simps]: "(r :: 'a::len word) \<le> w \<Longrightarrow> unat (w - r) = unat w - unat r"
  by (simp add: unat_sub)

lemma unat_of_nat_small [str_simps]: "n < 2 ^ 32 \<Longrightarrow> unat (word_of_nat n :: 32 word) = n"
  by (simp add: unat_of_nat)

lemma unat_add_small:
  "unat a + unat b < 2 ^ 32 \<Longrightarrow> unat (a + b :: 32 word) = unat a + unat b"
  by (simp add: unat_word_ariths)

text \<open>Two control characters and the line end of HTTP.\<close>

abbreviation CR :: char where "CR \<equiv> CHR 0x0D"
abbreviation LF :: char where "LF \<equiv> CHR 0x0A"
abbreviation NUL :: char where "NUL \<equiv> CHR 0x00"
abbreviation CRLF :: string where "CRLF \<equiv> [CR, LF]"

end
