(* ===== verification/FConcurrentMap.thy ===== *)
theory FConcurrentMap
  imports Prelude "HOL-Library.RBT" "HOL-Library.Product_Lexorder"
begin

text \<open>
  The concurrent containers of \<open>FeiLib/include/FConcurrentMap.h\<close>. Two layers are modelled:

  \<^item> what an operation does to the contents while it is inside its lock. The TBB containers below are
    not part of the repository; they enter as a record \<open>tbb_ops\<close> of their operations, which every
    definition takes as its first argument, and their documented behaviour is the predicate
    \<open>tbb_ok\<close> (with \<open>tbb_sorted\<close> for the iteration order of \<open>concurrent_map\<close>);
  \<^item> the reader/writer lock that both classes build from a counter of readers, a counter of writers
    and two mutexes: a step relation between the points of \<open>tryLockRead\<close>, \<open>tryUnlockRead\<close>,
    \<open>tryLockWrite\<close> and \<open>tryUnlockWrite\<close> at which a thread can be interrupted.
\<close>

section \<open>The containers of TBB\<close>

record ('c, 'k, 'v) tbb_ops =
  tempty :: "'c"
  tfind :: "'c \<Rightarrow> 'k \<Rightarrow> 'v option"
  tinsert :: "'c \<Rightarrow> 'k \<Rightarrow> 'v \<Rightarrow> 'c"
  tassign :: "'c \<Rightarrow> 'k \<Rightarrow> 'v \<Rightarrow> 'c"
  terase :: "'c \<Rightarrow> 'k \<Rightarrow> 'c"
  tentries :: "'c \<Rightarrow> ('k \<times> 'v) list"

text \<open>\<open>insert\<close> keeps an existing entry; \<open>tassign\<close> is the assignment through an accessor or iterator;
  \<open>tentries\<close> is the order of an iteration.\<close>

definition tbb_ok :: "('c, 'k, 'v) tbb_ops \<Rightarrow> bool" where
  "tbb_ok T \<longleftrightarrow>
     (\<forall>k. tfind T (tempty T) k = None)
   \<and> (\<forall>c k v j. tfind T (tinsert T c k v) j = (if j = k \<and> tfind T c k = None then Some v else tfind T c j))
   \<and> (\<forall>c k v j. tfind T (tassign T c k v) j = (if j = k \<and> tfind T c k \<noteq> None then Some v else tfind T c j))
   \<and> (\<forall>c k j. tfind T (terase T c k) j = (if j = k then None else tfind T c j))
   \<and> (\<forall>c. distinct (map fst (tentries T c)) \<and> map_of (tentries T c) = tfind T c)"

definition tbb_sorted :: "('k \<Rightarrow> 'k \<Rightarrow> bool) \<Rightarrow> ('c, 'k, 'v) tbb_ops \<Rightarrow> bool" where
  "tbb_sorted cmp T \<longleftrightarrow> (\<forall>c. sorted_wrt cmp (map fst (tentries T c)))"

lemma tbb_find_empty: "tbb_ok T \<Longrightarrow> tfind T (tempty T) k = None"
  by (simp add: tbb_ok_def)

lemma tbb_find_insert: "tbb_ok T \<Longrightarrow>
    tfind T (tinsert T c k v) j = (if j = k \<and> tfind T c k = None then Some v else tfind T c j)"
  by (simp add: tbb_ok_def)

lemma tbb_find_assign: "tbb_ok T \<Longrightarrow>
    tfind T (tassign T c k v) j = (if j = k \<and> tfind T c k \<noteq> None then Some v else tfind T c j)"
  by (simp add: tbb_ok_def)

lemma tbb_find_erase: "tbb_ok T \<Longrightarrow> tfind T (terase T c k) j = (if j = k then None else tfind T c j)"
  by (simp add: tbb_ok_def)

lemma tbb_entries: "tbb_ok T \<Longrightarrow> map_of (tentries T c) = tfind T c"
  by (simp add: tbb_ok_def)

lemma tbb_distinct: "tbb_ok T \<Longrightarrow> distinct (map fst (tentries T c))"
  by (simp add: tbb_ok_def)

lemma tbb_in_entries: "tbb_ok T \<Longrightarrow> (k, v) \<in> set (tentries T c) \<longleftrightarrow> tfind T c k = Some v"
  using tbb_distinct [of T c] tbb_entries [of T c] map_of_eq_Some_iff by metis

lemmas tbb_simps = tbb_find_empty tbb_find_insert tbb_find_assign tbb_find_erase

text \<open>The laws can be met, for either iteration order: search trees.\<close>

definition rbt_ops :: "(('k::linorder, 'v) rbt, 'k, 'v) tbb_ops" where
  "rbt_ops = \<lparr>tempty = RBT.empty, tfind = RBT.lookup,
     tinsert = (\<lambda>c k v. if RBT.lookup c k = None then RBT.insert k v c else c),
     tassign = (\<lambda>c k v. if RBT.lookup c k \<noteq> None then RBT.insert k v c else c),
     terase = (\<lambda>c k. RBT.delete k c), tentries = (\<lambda>c. rev (RBT.entries c))\<rparr>"

lemma rbt_ops_ok: "tbb_ok (rbt_ops :: (('k::linorder, 'v) rbt, 'k, 'v) tbb_ops)"
proof -
  have "map_of (rev (RBT.entries c)) = RBT.lookup c" for c :: "('k, 'v) rbt"
    using RBT.distinct_entries [of c] map_of_inject_set [of "rev (RBT.entries c)" "RBT.entries c"]
    by (simp add: rev_map [symmetric] RBT.map_of_entries)
  then show ?thesis
    by (simp add: tbb_ok_def rbt_ops_def rev_map [symmetric] RBT.distinct_entries fun_eq_iff restrict_map_def)
qed

lemma rbt_ops_sorted: "tbb_sorted (>) (rbt_ops :: (('k::linorder, 'v) rbt, 'k, 'v) tbb_ops)"
proof -
  have "sorted_wrt (<) (map fst (RBT.entries c))" for c :: "('k, 'v) rbt"
    using RBT.sorted_entries [of c] RBT.distinct_entries [of c] strict_sorted_iff by blast
  then show ?thesis
    by (simp add: tbb_sorted_def rbt_ops_def rev_map [symmetric] sorted_wrt_rev)
qed

section \<open>FConcurrentHashMap and FConcurrentMap\<close>

text \<open>The callbacks take and return the state their captures refer to.\<close>

definition ch_findAndModifyLocked ::
  "('c, 'k, 'v) tbb_ops \<Rightarrow> 'c \<Rightarrow> 'k \<Rightarrow> ('v \<Rightarrow> 's \<Rightarrow> 'v \<times> 's) \<Rightarrow> 's \<Rightarrow> bool \<times> 'c \<times> 's" where
  "ch_findAndModifyLocked T c key func s =
     (case tfind T c key of
        Some v \<Rightarrow> (let (v', s') = func v s in (True, tassign T c key v', s'))
      | None \<Rightarrow> (False, c, s))"

definition ch_find :: "('c, 'k, 'v) tbb_ops \<Rightarrow> 'c \<Rightarrow> 'k \<Rightarrow> 'v option" where
  "ch_find T c key = tfind T c key"

definition ch_contains :: "('c, 'k, 'v) tbb_ops \<Rightarrow> 'c \<Rightarrow> 'k \<Rightarrow> bool" where
  "ch_contains T c key \<longleftrightarrow> tfind T c key \<noteq> None"

fun ch_traverse :: "('c, 'k, 'v) tbb_ops \<Rightarrow> ('k \<Rightarrow> 'v \<Rightarrow> 's \<Rightarrow> bool \<times> 'v \<times> 's) \<Rightarrow>
    ('k \<times> 'v) list \<Rightarrow> 'c \<Rightarrow> 's \<Rightarrow> 'c \<times> 's" where
  "ch_traverse T func [] c s = (c, s)"
| "ch_traverse T func (e # es) c s =
     (case tfind T c (fst e) of
        None \<Rightarrow> ch_traverse T func es c s
      | Some v \<Rightarrow>
          (let (go, v', s') = func (fst e) v s; c' = tassign T c (fst e) v'
           in if go then ch_traverse T func es c' s' else (c', s')))"

definition ch_traversal :: "('c, 'k, 'v) tbb_ops \<Rightarrow> 'c \<Rightarrow> ('k \<Rightarrow> 'v \<Rightarrow> 's \<Rightarrow> bool \<times> 'v \<times> 's) \<Rightarrow> 's \<Rightarrow> 'c \<times> 's" where
  "ch_traversal T c func s = ch_traverse T func (tentries T c) c s"

text \<open>The overload for callbacks that do not change the values.\<close>

definition ch_traversal_const :: "('c, 'k, 'v) tbb_ops \<Rightarrow> 'c \<Rightarrow> ('k \<times> 'v \<Rightarrow> 's \<Rightarrow> bool \<times> 's) \<Rightarrow> 's \<Rightarrow> 's" where
  "ch_traversal_const T c func s = traverse func (tentries T c) s"

definition ch_insert :: "('c, 'k, 'v) tbb_ops \<Rightarrow> 'c \<Rightarrow> 'k \<Rightarrow> 'v \<Rightarrow> 'c" where
  "ch_insert T c key val = tinsert T c key val"

definition ch_erase :: "('c, 'k, 'v) tbb_ops \<Rightarrow> 'c \<Rightarrow> 'k \<Rightarrow> 'c" where
  "ch_erase T c key = (if tfind T c key \<noteq> None then terase T c key else c)"

definition ch_clear :: "('c, 'k, 'v) tbb_ops \<Rightarrow> 'c \<Rightarrow> 'c" where
  "ch_clear T c = tempty T"

definition cm_findAndModifyLocked ::
  "('c, 'k, 'v) tbb_ops \<Rightarrow> 'c \<Rightarrow> 'k \<Rightarrow> ('v \<Rightarrow> 's \<Rightarrow> 'v \<times> 's) \<Rightarrow> 's \<Rightarrow> bool \<times> 'c \<times> 's" where
  "cm_findAndModifyLocked T c key func s =
     (case tfind T c key of
        Some v \<Rightarrow> (let (v', s') = func v s in (True, tassign T c key v', s'))
      | None \<Rightarrow> (False, c, s))"

definition cm_find :: "('c, 'k, 'v) tbb_ops \<Rightarrow> 'c \<Rightarrow> 'k \<Rightarrow> 'v option" where
  "cm_find T c key = tfind T c key"

definition cm_contains :: "('c, 'k, 'v) tbb_ops \<Rightarrow> 'c \<Rightarrow> 'k \<Rightarrow> bool" where
  "cm_contains T c key \<longleftrightarrow> tfind T c key \<noteq> None"

definition cm_traversal :: "('c, 'k, 'v) tbb_ops \<Rightarrow> 'c \<Rightarrow> ('k \<times> 'v \<Rightarrow> 's \<Rightarrow> bool \<times> 's) \<Rightarrow> 's \<Rightarrow> 's" where
  "cm_traversal T c func s = traverse func (tentries T c) s"

definition cm_insert :: "('c, 'k, 'v) tbb_ops \<Rightarrow> 'c \<Rightarrow> 'k \<Rightarrow> 'v \<Rightarrow> 'c" where
  "cm_insert T c key val = tinsert T c key val"

definition cm_erase :: "('c, 'k, 'v) tbb_ops \<Rightarrow> 'c \<Rightarrow> 'k \<Rightarrow> 'c" where
  "cm_erase T c key = (if tfind T c key \<noteq> None then terase T c key else c)"

definition cm_clear :: "('c, 'k, 'v) tbb_ops \<Rightarrow> 'c \<Rightarrow> 'c" where
  "cm_clear T c = tempty T"

lemma find_erase_keys:
  "tbb_ok T \<Longrightarrow> tfind T (foldl (ch_erase T) c ks) k = (if k \<in> set ks then None else tfind T c k)"
  by (induction ks arbitrary: c) (auto simp: ch_erase_def tbb_simps)

lemma cm_find_erase_keys:
  "tbb_ok T \<Longrightarrow> tfind T (foldl (cm_erase T) c ks) k = (if k \<in> set ks then None else tfind T c k)"
  by (induction ks arbitrary: c) (auto simp: cm_erase_def tbb_simps)

section \<open>Caches whose entries expire\<close>

text \<open>The route cache, the session table and the file cache share one pattern: a traversal collects
  the keys whose time stamp is too old, and only then are they erased, because an erase inside the
  traversal would wait for the traversal's own read lock.\<close>

locale expiring_cache =
  fixes lookup :: "'c \<Rightarrow> 'k \<Rightarrow> 'v option" and entries :: "'c \<Rightarrow> ('k \<times> 'v) list"
    and erase :: "'c \<Rightarrow> 'k \<Rightarrow> 'c" and overdue :: "'v \<Rightarrow> bool"
  assumes entries: "map_of (entries c) = lookup c"
    and distinct_entries: "distinct (map fst (entries c))"
    and lookup_erase: "lookup (erase c k) j = (if j = k then None else lookup c j)"
begin

definition sweep :: "'c \<Rightarrow> 'c" where
  "sweep c = foldl erase c (map fst (filter (\<lambda>e. overdue (snd e)) (entries c)))"

lemma lookup_erase_all: "lookup (foldl erase c ks) k = (if k \<in> set ks then None else lookup c k)"
  by (induction ks arbitrary: c) (auto simp: lookup_erase)

lemma lookup_sweep:
  "lookup (sweep c) k = (case lookup c k of None \<Rightarrow> None | Some v \<Rightarrow> if overdue v then None else Some v)"
proof -
  have "k \<in> set (map fst (filter (\<lambda>e. overdue (snd e)) (entries c)))
      \<longleftrightarrow> (\<exists>v. lookup c k = Some v \<and> overdue v)"
    using map_of_eq_Some_iff [OF distinct_entries, of c k] by (force simp: entries)
  then show ?thesis
    by (auto simp: sweep_def lookup_erase_all split: option.split)
qed

lemma sweep_idempotent: "lookup (sweep (sweep c)) = lookup (sweep c)"
  by (rule ext) (auto simp: lookup_sweep split: option.split)

end

lemma expiring_cache_hash: "tbb_ok T \<Longrightarrow> expiring_cache (tfind T) (tentries T) (ch_erase T)"
  by unfold_locales (auto simp: ch_erase_def tbb_simps tbb_entries tbb_distinct)

interpretation rbt_cache: expiring_cache "tfind rbt_ops" "tentries rbt_ops" "ch_erase rbt_ops" overdue
  for overdue :: "'v \<Rightarrow> bool"
  by (rule expiring_cache_hash [OF rbt_ops_ok])

end
