(* ===== verification/StdMap.thy ===== *)
theory StdMap
  imports Prelude
begin

text \<open>
  \<open>std::map\<close> and \<open>std::multimap\<close> as association lists in key order, which is the order the
  sources iterate in when they print cookies and headers. The locales state the contract the
  clients rely on: \<open>dict\<close> for assignment through \<open>m[k] = v\<close>, \<open>dict_insert\<close> for
  \<open>m.insert({k, v})\<close>, which keeps an existing entry.
\<close>

section \<open>Operations of std::map\<close>

type_synonym ('k, 'v) omap = "('k \<times> 'v) list"

definition omap_wf :: "('k::linorder, 'v) omap \<Rightarrow> bool" where
  "omap_wf m \<longleftrightarrow> sorted_wrt (<) (map fst m)"

fun omap_find :: "('k, 'v) omap \<Rightarrow> 'k \<Rightarrow> 'v option" where
  "omap_find [] k = None"
| "omap_find ((x, v) # m) k = (if x = k then Some v else omap_find m k)"

fun omap_assign :: "('k::linorder, 'v) omap \<Rightarrow> 'k \<Rightarrow> 'v \<Rightarrow> ('k, 'v) omap" where
  "omap_assign [] k v = [(k, v)]"
| "omap_assign ((x, w) # m) k v =
     (if k < x then (k, v) # (x, w) # m
      else if k = x then (x, v) # m
      else (x, w) # omap_assign m k v)"

definition omap_insert :: "('k::linorder, 'v) omap \<Rightarrow> 'k \<Rightarrow> 'v \<Rightarrow> ('k, 'v) omap" where
  "omap_insert m k v = (case omap_find m k of Some _ \<Rightarrow> m | None \<Rightarrow> omap_assign m k v)"

fun omap_erase :: "('k, 'v) omap \<Rightarrow> 'k \<Rightarrow> ('k, 'v) omap" where
  "omap_erase [] k = []"
| "omap_erase ((x, v) # m) k = (if x = k then m else (x, v) # omap_erase m k)"

lemma omap_wf_Nil [simp]: "omap_wf []"
  by (simp add: omap_wf_def)

lemma omap_wf_Cons: "omap_wf ((x, v) # m) \<longleftrightarrow> (\<forall>y \<in> fst ` set m. x < y) \<and> omap_wf m"
  by (auto simp: omap_wf_def)

lemma keys_assign: "fst ` set (omap_assign m k v) = insert k (fst ` set m)"
  by (induction m k v rule: omap_assign.induct) auto

lemma erase_subset: "set (omap_erase m k) \<subseteq> set m"
  by (induction m k rule: omap_erase.induct) auto

lemma find_None_iff: "omap_find m k = None \<longleftrightarrow> k \<notin> fst ` set m"
  by (induction m k rule: omap_find.induct) auto

lemma omap_wf_assign: "omap_wf m \<Longrightarrow> omap_wf (omap_assign m k v)"
  by (induction m k v rule: omap_assign.induct) (auto simp: omap_wf_Cons keys_assign)

lemma omap_wf_insert: "omap_wf m \<Longrightarrow> omap_wf (omap_insert m k v)"
  by (simp add: omap_insert_def omap_wf_assign split: option.split)

lemma omap_wf_erase: "omap_wf m \<Longrightarrow> omap_wf (omap_erase m k)"
proof (induction m k rule: omap_erase.induct)
  case (2 x v m k)
  then show ?case using erase_subset [of m k] by (fastforce simp: omap_wf_Cons)
qed simp

lemma find_assign: "omap_find (omap_assign m k v) j = (if j = k then Some v else omap_find m j)"
  by (induction m k v rule: omap_assign.induct) auto

lemma find_insert:
  "omap_find (omap_insert m k v) j =
     (if j = k \<and> omap_find m k = None then Some v else omap_find m j)"
  by (auto simp: omap_insert_def find_assign split: option.split)

lemma find_erase: "omap_wf m \<Longrightarrow> omap_find (omap_erase m k) j = (if j = k then None else omap_find m j)"
proof (induction m k rule: omap_erase.induct)
  case (2 x v m k)
  then have "omap_find m x = None"
    by (auto simp: omap_wf_Cons find_None_iff)
  with 2 show ?case by (auto simp: omap_wf_Cons)
qed simp

section \<open>The contract of a dictionary\<close>

locale dict =
  fixes lookup :: "'m \<Rightarrow> 'k \<Rightarrow> 'v option"
    and assign :: "'m \<Rightarrow> 'k \<Rightarrow> 'v \<Rightarrow> 'm"
    and invar :: "'m \<Rightarrow> bool"
  assumes lookup_assign: "invar m \<Longrightarrow> lookup (assign m k v) j = (if j = k then Some v else lookup m j)"
    and invar_assign: "invar m \<Longrightarrow> invar (assign m k v)"
begin

definition assign_all :: "'m \<Rightarrow> ('k \<times> 'v) list \<Rightarrow> 'm" where
  "assign_all m kvs = foldl (\<lambda>m kv. assign m (fst kv) (snd kv)) m kvs"

lemma invar_assign_all: "invar m \<Longrightarrow> invar (assign_all m kvs)"
  unfolding assign_all_def by (induction kvs arbitrary: m) (auto simp: invar_assign)

text \<open>With \<open>m[k] = v\<close> the last value written for a key is the one read.\<close>

lemma last_assignment_wins:
  "invar m \<Longrightarrow> lookup (assign_all m kvs) j =
     (case map_of (rev kvs) j of Some v \<Rightarrow> Some v | None \<Rightarrow> lookup m j)"
proof (induction kvs arbitrary: m)
  case Nil
  then show ?case by (simp add: assign_all_def)
next
  case (Cons kv kvs)
  have step: "assign_all m (kv # kvs) = assign_all (assign m (fst kv) (snd kv)) kvs"
    by (simp add: assign_all_def)
  have "lookup (assign_all m (kv # kvs)) j =
      (case map_of (rev kvs) j of Some v \<Rightarrow> Some v | None \<Rightarrow> lookup (assign m (fst kv) (snd kv)) j)"
    unfolding step by (rule Cons.IH) (simp add: Cons.prems invar_assign)
  then show ?case
    by (auto simp: lookup_assign [OF Cons.prems] map_add_def split: option.split)
qed

end

locale dict_insert = dict lookup assign invar
  for lookup :: "'m \<Rightarrow> 'k \<Rightarrow> 'v option"
    and assign :: "'m \<Rightarrow> 'k \<Rightarrow> 'v \<Rightarrow> 'm"
    and invar :: "'m \<Rightarrow> bool" +
  fixes insert_kv :: "'m \<Rightarrow> 'k \<Rightarrow> 'v \<Rightarrow> 'm"
  assumes lookup_insert: "invar m \<Longrightarrow> lookup (insert_kv m k v) j =
      (if j = k \<and> lookup m k = None then Some v else lookup m j)"
    and invar_insert: "invar m \<Longrightarrow> invar (insert_kv m k v)"
begin

definition insert_all :: "'m \<Rightarrow> ('k \<times> 'v) list \<Rightarrow> 'm" where
  "insert_all m kvs = foldl (\<lambda>m kv. insert_kv m (fst kv) (snd kv)) m kvs"

lemma insert_all_Cons [simp]: "insert_all m (kv # kvs) = insert_all (insert_kv m (fst kv) (snd kv)) kvs"
  by (simp add: insert_all_def)

lemma insert_all_Nil [simp]: "insert_all m [] = m"
  by (simp add: insert_all_def)

lemma invar_insert_all: "invar m \<Longrightarrow> invar (insert_all m kvs)"
  by (induction kvs arbitrary: m) (auto simp: invar_insert)

text \<open>With \<open>insert\<close> the entry already there wins, then the first of the new ones.\<close>

lemma first_insertion_wins:
  "invar m \<Longrightarrow> lookup (insert_all m kvs) j =
     (case lookup m j of Some v \<Rightarrow> Some v | None \<Rightarrow> map_of kvs j)"
proof (induction kvs arbitrary: m)
  case Nil
  then show ?case by (simp split: option.split)
next
  case (Cons kv kvs)
  then show ?case
    by (cases kv) (auto simp: invar_insert lookup_insert split: option.splits)
qed

end

interpretation omap: dict omap_find omap_assign omap_wf
  by unfold_locales (auto simp: find_assign omap_wf_assign)

interpretation omapi: dict_insert omap_find omap_assign omap_wf omap_insert
  by unfold_locales (auto simp: find_insert omap_wf_insert)

section \<open>Operations of std::multimap\<close>

text \<open>An insertion goes behind the entries of the same key (\<open>upper_bound\<close>); \<open>find\<close> is taken to
  return the first of them, as libstdc++ and libc++ do; \<open>erase(k)\<close> removes them all.\<close>

definition mm_wf :: "('k::linorder, 'v) omap \<Rightarrow> bool" where
  "mm_wf m \<longleftrightarrow> sorted (map fst m)"

fun mm_insert :: "('k::linorder, 'v) omap \<Rightarrow> 'k \<Rightarrow> 'v \<Rightarrow> ('k, 'v) omap" where
  "mm_insert [] k v = [(k, v)]"
| "mm_insert ((x, w) # m) k v = (if k < x then (k, v) # (x, w) # m else (x, w) # mm_insert m k v)"

definition mm_find :: "('k, 'v) omap \<Rightarrow> 'k \<Rightarrow> 'v option" where
  "mm_find m k = omap_find m k"

definition mm_equal_range :: "('k, 'v) omap \<Rightarrow> 'k \<Rightarrow> 'v list" where
  "mm_equal_range m k = map snd (filter (\<lambda>kv. fst kv = k) m)"

definition mm_erase :: "('k, 'v) omap \<Rightarrow> 'k \<Rightarrow> ('k, 'v) omap" where
  "mm_erase m k = filter (\<lambda>kv. fst kv \<noteq> k) m"

text \<open>\<open>erase(it)\<close> at the iterator that \<open>find\<close> returned removes that one entry.\<close>

definition mm_erase_first :: "('k, 'v) omap \<Rightarrow> 'k \<Rightarrow> ('k, 'v) omap" where
  "mm_erase_first m k = omap_erase m k"

lemma keys_mm_insert: "fst ` set (mm_insert m k v) = insert k (fst ` set m)"
  by (induction m k v rule: mm_insert.induct) auto

lemma mset_mm_insert: "set (mm_insert m k v) = insert (k, v) (set m)"
  by (induction m k v rule: mm_insert.induct) auto

lemma mm_wf_insert: "mm_wf m \<Longrightarrow> mm_wf (mm_insert m k v)"
proof (induction m k v rule: mm_insert.induct)
  case (2 x w m k v)
  then show ?case
    using keys_mm_insert [of m k v] by (fastforce simp: mm_wf_def)
qed (simp add: mm_wf_def)

lemma filter_none: "\<forall>y \<in> fst ` set m. y \<noteq> k \<Longrightarrow> filter (\<lambda>kv. fst kv = k) m = []"
  by (induction m) auto

lemma mm_equal_range_insert [simp]:
  "mm_wf m \<Longrightarrow> mm_equal_range (mm_insert m k v) j =
     mm_equal_range m j @ (if j = k then [v] else [])"
proof (induction m k v rule: mm_insert.induct)
  case (1 k v)
  then show ?case by (simp add: mm_equal_range_def)
next
  case (2 x w m k v)
  have wf: "mm_wf m" using 2(2) by (simp add: mm_wf_def)
  note IH = 2(1) [unfolded mm_equal_range_def]
  show ?case
  proof (cases "k < x")
    case True
    with 2(2) have "filter (\<lambda>kv. fst kv = k) ((x, w) # m) = []"
      by (intro filter_none) (fastforce simp: mm_wf_def)
    with True show ?thesis by (auto simp: mm_equal_range_def)
  next
    case False
    then show ?thesis using IH [OF _ wf] by (auto simp: mm_equal_range_def)
  qed
qed

lemma mm_equal_range_erase [simp]:
  "mm_equal_range (mm_erase m k) j = (if j = k then [] else mm_equal_range m j)"
  by (auto simp: mm_equal_range_def mm_erase_def intro: arg_cong [where f = "map snd"] filter_cong)

lemma mm_wf_erase: "mm_wf m \<Longrightarrow> mm_wf (mm_erase m k)"
  by (induction m) (auto simp: mm_wf_def mm_erase_def)

lemma mm_find_equal_range: "mm_find m k = (case mm_equal_range m k of [] \<Rightarrow> None | v # _ \<Rightarrow> Some v)"
  by (induction m) (auto simp: mm_find_def mm_equal_range_def split: list.split)

end
