(* ===== verification/FConfig.thy ===== *)
theory FConfig
  imports StdMap
begin

text \<open>
  The configuration file (\<open>FeiLib/src/FConfigReader.cpp\<close>, \<open>FeiLib/include/FConfigReader.h\<close>): lines
  \<open>name: value\<close> in sections \<open>[[test]]\<close> and \<open>[[prod]]\<close>, of which the line \<open>env: ...\<close> chooses one.
  The content of the file is the argument, None when it cannot be opened.
\<close>

section \<open>Lines\<close>

definition trim :: "string \<Rightarrow> string" where
  "trim str =
     (let s = dropWhile isspace str
      in if s = [] then [] else rev (dropWhile isspace (rev s)))"

datatype cfg_env = Test | Prod | Invalid

definition toEnv :: "string \<Rightarrow> cfg_env" where
  "toEnv str = (if str = ''test'' then Test else if str = ''prod'' then Prod else Invalid)"

definition isBlank :: "string \<Rightarrow> bool" where
  "isBlank line \<longleftrightarrow> list_all isspace line"

definition readCfgTerm :: "string \<Rightarrow> (string \<times> string) option" where
  "readCfgTerm line =
     (case str_find line (CHR '':'') 0 of
        None \<Rightarrow> None
      | Some i \<Rightarrow>
          (let name = substr line 0 i
           in if length line \<le> i + 1 then Some (name, [])
              else Some (trim name, trim (substr line (i + 1) (length line - i - 1)))))"

definition findCfgEnv :: "string \<Rightarrow> string option" where
  "findCfgEnv line = (if length line < 4 then None else Some (substr line 2 (length line - 2 - 2)))"

section \<open>The reader\<close>

record cfg_reader =
  mCurEnv :: cfg_env
  mCfgMap :: "(string, string) omap"
  mUsedConfigs :: "string set"

text \<open>The locals of the constructor's loop and the member it writes.\<close>

record cfg_loop =
  l_curEnv :: cfg_env
  l_env :: string
  curReadingEnv :: string
  envSettingFound :: bool
  mEnvCfgMap :: "(string, (string, string) omap) omap"

text \<open>\<open>m[section][name] = value\<close> and the reading of such an entry.\<close>

definition cfg_assign :: "(string, (string, string) omap) omap \<Rightarrow> string \<times> string \<Rightarrow> string \<Rightarrow>
    (string, (string, string) omap) omap" where
  "cfg_assign m sk v =
     omap_assign m (fst sk) (omap_assign (case omap_find m (fst sk) of Some s \<Rightarrow> s | None \<Rightarrow> []) (snd sk) v)"

definition cfg_read :: "(string, (string, string) omap) omap \<Rightarrow> string \<times> string \<Rightarrow> string option" where
  "cfg_read m sk = (case omap_find m (fst sk) of Some s \<Rightarrow> omap_find s (snd sk) | None \<Rightarrow> None)"

definition cfg_line :: "cfg_loop \<Rightarrow> string \<Rightarrow> cfg_loop" where
  "cfg_line st line =
     (if isBlank line then st
      else (let noSpaceLine = trim line
            in case readCfgTerm noSpaceLine of
                 Some (name, val) \<Rightarrow>
                   (if \<not> envSettingFound st
                    then (if name = ''env'' \<and> toEnv val \<noteq> Invalid
                          then st\<lparr>envSettingFound := True, l_env := val, l_curEnv := toEnv val\<rparr>
                          else st)
                    else st\<lparr>mEnvCfgMap := cfg_assign (mEnvCfgMap st) (curReadingEnv st, name) val\<rparr>)
               | None \<Rightarrow>
                   (case findCfgEnv noSpaceLine of
                      Some e \<Rightarrow> if toEnv e \<noteq> Invalid then st\<lparr>curReadingEnv := e\<rparr> else st
                    | None \<Rightarrow> st)))"

definition cfg_start :: cfg_loop where
  "cfg_start = \<lparr>l_curEnv = Test, l_env = [], curReadingEnv = ''test'', envSettingFound = False, mEnvCfgMap = []\<rparr>"

definition FConfigReader :: "string option \<Rightarrow> cfg_reader" where
  "FConfigReader content =
     (let st = foldl cfg_line cfg_start (getlines LF (case content of Some s \<Rightarrow> s | None \<Rightarrow> []))
      in \<lparr>mCurEnv = l_curEnv st,
          mCfgMap = (if envSettingFound st
                     then (case omap_find (mEnvCfgMap st) (l_env st) of Some m \<Rightarrow> m | None \<Rightarrow> [])
                     else []),
          mUsedConfigs = {}\<rparr>)"

definition getCfg :: "cfg_reader \<Rightarrow> string \<Rightarrow> string option \<times> cfg_reader" where
  "getCfg r name = (omap_find (mCfgMap r) name, r\<lparr>mUsedConfigs := insert name (mUsedConfigs r)\<rparr>)"

text \<open>\<open>FCfgUtils::toBool\<close>: None is the result \<open>false\<close>, which leaves \<open>out\<close> alone.\<close>

definition toBool :: "string \<Rightarrow> bool option" where
  "toBool str =
     (if list_all (\<lambda>c. c \<in> set ('' '' @ [CHR 0x09, LF, CR, CHR 0x0C, CHR 0x0B])) str then None
      else (let ws = (\<lambda>c. c \<in> set ('' '' @ [CHR 0x09, LF, CR, CHR 0x0C, CHR 0x0B]));
                s = map tolower (rev (dropWhile ws (rev (dropWhile ws str))))
            in if s = ''true'' \<or> s = ''1'' then Some True
               else if s = ''false'' \<or> s = ''0'' then Some False
               else None))"

section \<open>Reading back a written file\<close>

interpretation cfgmap: dict cfg_read cfg_assign "\<lambda>_. True"
  by unfold_locales (auto simp: cfg_read_def cfg_assign_def find_assign split: option.splits)

definition plain_text :: "string \<Rightarrow> bool" where
  "plain_text s \<longleftrightarrow> s \<noteq> [] \<and> LF \<notin> set s \<and> \<not> isspace (hd s) \<and> \<not> isspace (last s)"

definition plain_name :: "string \<Rightarrow> bool" where
  "plain_name s \<longleftrightarrow> plain_text s \<and> CHR '':'' \<notin> set s"

definition entry_line :: "string \<times> string \<Rightarrow> string" where
  "entry_line kv = fst kv @ '': '' @ snd kv"

definition section_lines :: "string \<times> (string \<times> string) list \<Rightarrow> string list" where
  "section_lines s = (''[['' @ fst s @ '']]'') # map entry_line (snd s)"

definition cfg_text :: "string \<Rightarrow> (string \<times> (string \<times> string) list) list \<Rightarrow> string" where
  "cfg_text e secs = join_with LF (entry_line (''env'', e) # concat (map section_lines secs))"

lemma trim_plain [simp]: "\<not> isspace (hd s) \<Longrightarrow> \<not> isspace (last s) \<Longrightarrow> trim s = s"
proof (cases "s = []")
  case False
  assume a: "\<not> isspace (hd s)" "\<not> isspace (last s)"
  have "dropWhile isspace s = s" using a(1) False by (cases s) auto
  moreover have "dropWhile isspace (rev s) = rev s" using a(2) False by (cases s rule: rev_cases) auto
  ultimately show ?thesis by (simp add: trim_def)
qed (simp add: trim_def)

lemma trim_space [simp]: "trim (CHR '' '' # s) = trim s"
  by (simp add: trim_def isspace_def)

lemma read_entry_line: "plain_name k \<Longrightarrow> plain_text v \<Longrightarrow>
    readCfgTerm (trim (entry_line (k, v))) = Some (k, v) \<and> \<not> isBlank (entry_line (k, v))"
proof -
  assume a: "plain_name k" "plain_text v"
  then have "trim (entry_line (k, v)) = entry_line (k, v)"
    by (simp add: entry_line_def plain_name_def plain_text_def)
  moreover have "str_find (entry_line (k, v)) (CHR '':'') 0 = Some (length k)"
    using a str_find_append [of "CHR '':''" k "'' '' @ v"] by (simp add: entry_line_def plain_name_def)
  moreover have "substr (entry_line (k, v)) 0 (length k) = k"
    "substr (entry_line (k, v)) (Suc (length k)) (Suc (length v)) = '' '' @ v"
    by (simp_all add: entry_line_def substr_def)
  moreover have "\<not> isBlank (entry_line (k, v))"
    using a by (cases k) (simp_all add: isBlank_def entry_line_def plain_name_def plain_text_def)
  ultimately show ?thesis using a by (simp add: readCfgTerm_def entry_line_def plain_name_def plain_text_def)
qed

lemma cfg_entry: "plain_name k \<Longrightarrow> plain_text v \<Longrightarrow> envSettingFound st \<Longrightarrow>
    cfg_line st (entry_line (k, v)) = st\<lparr>mEnvCfgMap := cfg_assign (mEnvCfgMap st) (curReadingEnv st, k) v\<rparr>"
  using read_entry_line [of k v] by (simp add: cfg_line_def)

lemma cfg_section: "e \<in> {''test'', ''prod''} \<Longrightarrow> cfg_line st (''[['' @ e @ '']]'') = st\<lparr>curReadingEnv := e\<rparr>"
  by (auto simp: cfg_line_def isBlank_def isspace_def trim_def readCfgTerm_def str_find_None findCfgEnv_def
      substr_def toEnv_def)

lemma cfg_env_line: "e \<in> {''test'', ''prod''} \<Longrightarrow>
    cfg_line cfg_start (entry_line (''env'', e)) = cfg_start\<lparr>envSettingFound := True, l_env := e, l_curEnv := toEnv e\<rparr>"
proof -
  assume e: "e \<in> {''test'', ''prod''}"
  then have "plain_name ''env''" "plain_text e" by (auto simp: plain_name_def plain_text_def isspace_def)
  from read_entry_line [OF this] e show ?thesis by (auto simp: cfg_line_def cfg_start_def toEnv_def)
qed

definition keyed :: "(string \<times> (string \<times> string) list) list \<Rightarrow> ((string \<times> string) \<times> string) list" where
  "keyed secs = concat (map (\<lambda>s. map (\<lambda>kv. ((fst s, fst kv), snd kv)) (snd s)) secs)"

lemma cfg_entries:
  assumes "\<forall>kv \<in> set kvs. plain_name (fst kv) \<and> plain_text (snd kv)" "envSettingFound st"
  shows "foldl cfg_line st (map entry_line kvs) =
    st\<lparr>mEnvCfgMap := cfgmap.assign_all (mEnvCfgMap st) (map (\<lambda>kv. ((curReadingEnv st, fst kv), snd kv)) kvs)\<rparr>"
  using assms
proof (induction kvs arbitrary: st)
  case (Cons kv kvs)
  then show ?case using cfg_entry [of "fst kv" "snd kv" st] by (simp add: cfgmap.assign_all_def)
qed (simp add: cfgmap.assign_all_def)

definition plain_sections :: "(string \<times> (string \<times> string) list) list \<Rightarrow> bool" where
  "plain_sections secs \<longleftrightarrow> (\<forall>s \<in> set secs. fst s \<in> {''test'', ''prod''} \<and>
     (\<forall>kv \<in> set (snd s). plain_name (fst kv) \<and> plain_text (snd kv)))"

lemma cfg_sections:
  assumes "plain_sections secs" "envSettingFound st"
  shows "\<exists>cur. foldl cfg_line st (concat (map section_lines secs)) =
    st\<lparr>mEnvCfgMap := cfgmap.assign_all (mEnvCfgMap st) (keyed secs), curReadingEnv := cur\<rparr>"
  using assms
proof (induction secs arbitrary: st)
  case Nil
  show ?case by (rule exI [of _ "curReadingEnv st"]) (simp add: keyed_def cfgmap.assign_all_def)
next
  case (Cons s secs)
  let ?st = "st\<lparr>curReadingEnv := fst s\<rparr>"
  let ?kvs = "map (\<lambda>kv. ((fst s, fst kv), snd kv)) (snd s)"
  have sec: "fst s \<in> {''test'', ''prod''}" and kvs: "\<forall>kv \<in> set (snd s). plain_name (fst kv) \<and> plain_text (snd kv)"
    and rest: "plain_sections secs"
    using Cons.prems(1) by (auto simp: plain_sections_def)
  have head: "foldl cfg_line st (section_lines s) = ?st\<lparr>mEnvCfgMap := cfgmap.assign_all (mEnvCfgMap st) ?kvs\<rparr>"
    unfolding section_lines_def foldl_Cons cfg_section [OF sec] using cfg_entries [OF kvs, of ?st] Cons.prems(2) by simp
  obtain cur where "foldl cfg_line (?st\<lparr>mEnvCfgMap := cfgmap.assign_all (mEnvCfgMap st) ?kvs\<rparr>) (concat (map section_lines secs)) =
      ?st\<lparr>mEnvCfgMap := cfgmap.assign_all (cfgmap.assign_all (mEnvCfgMap st) ?kvs) (keyed secs), curReadingEnv := cur\<rparr>"
    using Cons.IH [OF rest, of "?st\<lparr>mEnvCfgMap := cfgmap.assign_all (mEnvCfgMap st) ?kvs\<rparr>"] Cons.prems(2) by auto
  then show ?case by (intro exI [of _ cur]) (simp add: head keyed_def cfgmap.assign_all_def)
qed

lemma lookup_keyed:
  "map_of (rev (keyed secs)) (e, k) = map_of (rev (concat (map snd (filter (\<lambda>s. fst s = e) secs)))) k"
proof (induction secs)
  case (Cons s secs)
  have "map_of (rev (map (\<lambda>kv. ((n, fst kv), snd kv)) kvs)) (e, k) = (if n = e then map_of (rev kvs) k else None)"
    for n :: string and kvs :: "(string \<times> string) list"
    by (induction kvs) (auto simp: map_add_def split: option.split)
  with Cons show ?case by (auto simp: keyed_def map_add_def split: option.split)
qed (simp add: keyed_def)

text \<open>
  C37. Reading a configuration file gives back what was written: in a file that names an environment
  and then lists sections, a name has the value of its last line in the sections of that environment,
  whatever other sections say.
\<close>
theorem config_round_trip:
  assumes "e \<in> {''test'', ''prod''}" "plain_sections secs"
  shows "mCurEnv (FConfigReader (Some (cfg_text e secs))) = toEnv e
    \<and> fst (getCfg (FConfigReader (Some (cfg_text e secs))) k)
      = map_of (rev (concat (map snd (filter (\<lambda>s. fst s = e) secs)))) k"
proof -
  let ?ls = "entry_line (''env'', e) # concat (map section_lines secs)"
  let ?st = "cfg_start\<lparr>envSettingFound := True, l_env := e, l_curEnv := toEnv e\<rparr>"
  have line: "l \<noteq> [] \<and> LF \<notin> set l" if "s \<in> set secs" "l \<in> set (section_lines s)" for s l
  proof -
    have "fst s \<in> {''test'', ''prod''}" "\<forall>kv \<in> set (snd s). LF \<notin> set (fst kv) \<and> LF \<notin> set (snd kv)"
      using assms(2) that(1) by (auto simp: plain_sections_def plain_name_def plain_text_def)
    then show ?thesis using that(2) by (auto simp: section_lines_def entry_line_def)
  qed
  have nonempty: "l \<noteq> []" and noLF: "LF \<notin> set l" if "l \<in> set ?ls" for l
    using that assms(1) line by (auto simp: entry_line_def)
  have lines: "getlines LF (cfg_text e secs) = ?ls"
    unfolding cfg_text_def
    by (rule getlines_join) (use nonempty noLF last_in_set [of ?ls] in blast)+
  obtain cur where run: "foldl cfg_line cfg_start ?ls =
      ?st\<lparr>mEnvCfgMap := cfgmap.assign_all [] (keyed secs), curReadingEnv := cur\<rparr>"
    using cfg_sections [OF assms(2), of ?st] unfolding foldl_Cons cfg_env_line [OF assms(1)] by (auto simp: cfg_start_def)
  have "cfg_read (cfgmap.assign_all [] (keyed secs)) (e, k) = map_of (rev (keyed secs)) (e, k)"
    by (subst cfgmap.last_assignment_wins) (simp_all add: cfg_read_def split: option.split)
  then show ?thesis
    by (auto simp: FConfigReader_def getCfg_def lines run cfg_read_def lookup_keyed simp del: foldl_Cons split: option.split)
qed

theorem config_round_trip_witness:
  "fst (getCfg (FConfigReader (Some (cfg_text ''prod''
     [(''test'', [(''port'', ''80'')]), (''prod'', [(''port'', ''443'')]), (''test'', [(''port'', ''81'')])]))) ''port'') = Some ''443''"
  using config_round_trip [of "''prod''" "[(''test'', [(''port'', ''80'')]), (''prod'', [(''port'', ''443'')]), (''test'', [(''port'', ''81'')])]" "''port''"]
  by (simp add: plain_sections_def plain_name_def plain_text_def isspace_def)

end
