(* ===== verification/FBuffer.thy ===== *)
theory FBuffer
  imports Prelude
begin

text \<open>
  \<open>FeiLib/src/FBuffer.cpp\<close> and \<open>FBufferReader.cpp\<close>: the growing byte buffer of a connection with
  a read and a write index (both \<open>uint32\<close>), and the reader the upper layers see. Bytes are
  \<^typ>\<open>char\<close>. The readable part, \<open>readable\<close>, is the abstract value; each operation is shown to
  act on it as the corresponding list operation. The system calls \<open>readv\<close> and \<open>send\<close> are inputs:
  the bytes the kernel delivered, the count it accepted.
\<close>

section \<open>State and operations\<close>

record fbuffer =
  m_buffer :: string
  readIdx :: u32
  writeIdx :: u32

definition vec_resize :: "string \<Rightarrow> nat \<Rightarrow> string" where
  "vec_resize xs n = take n xs @ replicate (n - length xs) NUL"

definition vec_write :: "string \<Rightarrow> nat \<Rightarrow> string \<Rightarrow> string" where
  "vec_write xs pos ys = take pos xs @ ys @ drop (pos + length ys) xs"

definition FBuffer_new :: "u32 \<Rightarrow> fbuffer" where
  "FBuffer_new sz = \<lparr>m_buffer = replicate (unat sz) NUL, readIdx = 0, writeIdx = 0\<rparr>"

definition getWriteableSize :: "fbuffer \<Rightarrow> int" where
  "getWriteableSize b = sint (word_of_nat (length (m_buffer b)) - writeIdx b :: i32)"

definition getReadableSize :: "fbuffer \<Rightarrow> int" where
  "getReadableSize b = sint (writeIdx b - readIdx b :: i32)"

definition fb_Append :: "fbuffer \<Rightarrow> string \<Rightarrow> fbuffer" where
  "fb_Append b d =
     (let len = word_of_nat (length d); newSize = writeIdx b + len
      in b\<lparr>m_buffer := vec_write (vec_resize (m_buffer b) (unat newSize)) (unat (writeIdx b)) d,
           writeIdx := newSize\<rparr>)"

text \<open>\<open>Pop\<close> as the release build runs it, and the condition its \<open>assert\<close> checks in a debug build.\<close>

definition fb_Pop_ok :: "fbuffer \<Rightarrow> i32 \<Rightarrow> bool" where
  "fb_Pop_ok b len \<longleftrightarrow> \<not> (writeIdx b < readIdx b + len)"

definition fb_Pop :: "fbuffer \<Rightarrow> i32 \<Rightarrow> fbuffer" where
  "fb_Pop b len = b\<lparr>readIdx := readIdx b + len\<rparr>"

definition fb_PopAll :: "fbuffer \<Rightarrow> fbuffer" where
  "fb_PopAll b = b\<lparr>readIdx := writeIdx b\<rparr>"

definition fb_Get :: "fbuffer \<Rightarrow> u32 \<Rightarrow> char" where
  "fb_Get b offset =
     (let readPos = readIdx b + offset
      in if writeIdx b \<le> readPos then NUL else m_buffer b ! unat readPos)"

definition fb_Peek :: "fbuffer \<Rightarrow> i32 \<Rightarrow> string" where
  "fb_Peek b wantLen =
     (let realLen = min wantLen (writeIdx b - readIdx b)
      in take (unat realLen) (drop (unat (readIdx b)) (m_buffer b)))"

text \<open>\<open>Read\<close>: \<open>readv\<close> fills the free end of the vector first and a 64 KiB buffer on the stack
  after it; the argument is what it delivered, None for an error. The result is the count.\<close>

definition fb_Read :: "fbuffer \<Rightarrow> string option \<Rightarrow> int \<times> fbuffer" where
  "fb_Read b delivered =
     (case delivered of
        None \<Rightarrow> (-1, b)
      | Some bytes \<Rightarrow>
          (let writealbe = nat (getWriteableSize b);
               n = length bytes;
               inPlace = vec_write (m_buffer b) (unat (writeIdx b)) (take writealbe bytes);
               extrabuf = drop writealbe bytes
           in if n < writealbe
              then (int n, b\<lparr>m_buffer := inPlace, writeIdx := writeIdx b + word_of_nat n\<rparr>)
              else (int n,
                    b\<lparr>m_buffer := vec_write (vec_resize inPlace (unat (writeIdx b) + n))
                                   (writealbe + unat (writeIdx b)) extrabuf,
                      writeIdx := writeIdx b + word_of_nat n\<rparr>)))"

text \<open>\<open>Write\<close>: the socket is offered at most \<open>size\<close> readable bytes; \<open>sent\<close> answers with the count
  it took, None for an error (\<open>send\<close> then leaves -1 in \<open>writeLen\<close>).\<close>

definition fb_offer :: "fbuffer \<Rightarrow> int \<Rightarrow> string" where
  "fb_offer b sz =
     take (nat (min sz (getReadableSize b))) (drop (unat (readIdx b)) (m_buffer b))"

definition fb_Write :: "fbuffer \<Rightarrow> nat option \<Rightarrow> int \<times> fbuffer" where
  "fb_Write b sent =
     (case sent of None \<Rightarrow> (-1, b) | Some k \<Rightarrow> (int k, fb_Pop b (word_of_nat k)))"

text \<open>The reader.\<close>

definition rd_readTo :: "fbuffer \<Rightarrow> bool \<Rightarrow> int \<Rightarrow> int \<times> string \<times> fbuffer" where
  "rd_readTo b bufIsNull bufLen =
     (if bufIsNull \<or> bufLen = 0 then (getReadableSize b, [], b)
      else let toReadSize = min (getReadableSize b) bufLen
           in (toReadSize, fb_Peek b (word_of_int toReadSize), fb_Pop b (word_of_int toReadSize)))"

definition rd_readNext :: "fbuffer \<Rightarrow> char \<times> fbuffer" where
  "rd_readNext b =
     (if 0 < getReadableSize b then (fb_Get b 0, b\<lparr>readIdx := readIdx b + 1\<rparr>) else (NUL, b))"

definition rd_peekAll :: "fbuffer \<Rightarrow> int \<times> string option" where
  "rd_peekAll b =
     (let sz = getReadableSize b
      in if sz = 0 then (sz, None)
         else (sz, Some (take (nat sz) (drop (unat (readIdx b)) (m_buffer b)))))"

definition rd_expireSize :: "fbuffer \<Rightarrow> i32 \<Rightarrow> fbuffer" where
  "rd_expireSize b sz = fb_Pop b sz"

section \<open>Well-formed buffers and their contents\<close>

definition fb_wf :: "fbuffer \<Rightarrow> bool" where
  "fb_wf b \<longleftrightarrow> readIdx b \<le> writeIdx b \<and> unat (writeIdx b) \<le> length (m_buffer b)
     \<and> length (m_buffer b) < 2 ^ 31"

definition readable :: "fbuffer \<Rightarrow> string" where
  "readable b = take (unat (writeIdx b) - unat (readIdx b)) (drop (unat (readIdx b)) (m_buffer b))"

text \<open>Whether a buffer can take \<open>n\<close> more bytes without an index leaving the range of \<open>int\<close>.\<close>

definition fb_room :: "fbuffer \<Rightarrow> nat \<Rightarrow> bool" where
  "fb_room b n \<longleftrightarrow> length (m_buffer b) + n < 2 ^ 31"

lemma readIdx_le: "fb_wf b \<Longrightarrow> unat (readIdx b) \<le> unat (writeIdx b)"
  by (simp add: fb_wf_def word_le_nat_alt)

lemma writeIdx_bound: "fb_wf b \<Longrightarrow> unat (writeIdx b) < 2 ^ 31"
  by (simp add: fb_wf_def)

lemma length_readable: "fb_wf b \<Longrightarrow> length (readable b) = unat (writeIdx b) - unat (readIdx b)"
  by (simp add: readable_def fb_wf_def min_absorb2 diff_le_mono)

lemma readable_size:
  assumes "fb_wf b"
  shows "getReadableSize b = int (length (readable b))"
proof -
  from assms have d: "unat (writeIdx b - readIdx b) = unat (writeIdx b) - unat (readIdx b)"
    by (simp add: fb_wf_def unat_sub_le)
  have "unat (writeIdx b - readIdx b) < 2 ^ 31"
    using writeIdx_bound [OF assms] unfolding d by simp
  then show ?thesis
    unfolding getReadableSize_def by (simp add: sint_small d length_readable [OF assms])
qed

lemma writeable_size:
  assumes "fb_wf b"
  shows "getWriteableSize b = int (length (m_buffer b) - unat (writeIdx b))"
proof -
  let ?l = "word_of_nat (length (m_buffer b)) :: u32"
  from assms have l: "unat ?l = length (m_buffer b)"
    by (simp add: fb_wf_def unat_of_nat_small)
  with assms have "writeIdx b \<le> ?l"
    by (simp add: fb_wf_def word_le_nat_alt)
  then have "unat (?l - writeIdx b) = length (m_buffer b) - unat (writeIdx b)"
    by (simp add: unat_sub_le l)
  moreover have "length (m_buffer b) < 2 ^ 31" using assms by (simp add: fb_wf_def)
  ultimately show ?thesis
    by (simp add: getWriteableSize_def sint_small)
qed

section \<open>Each operation on the readable bytes\<close>

lemma length_vec_resize [simp]: "length (vec_resize xs n) = n"
  by (simp add: vec_resize_def)

lemma length_vec_write [simp]: "pos + length ys \<le> length xs \<Longrightarrow> length (vec_write xs pos ys) = length xs"
  by (simp add: vec_write_def)

lemma new_wf: "unat sz < 2 ^ 31 \<Longrightarrow> fb_wf (FBuffer_new sz) \<and> readable (FBuffer_new sz) = []"
  by (simp add: fb_wf_def FBuffer_new_def readable_def)

text \<open>Writing at the write index: what both \<open>Append\<close> and \<open>Read\<close> do to the vector.\<close>

lemma extend_at_writeIdx:
  assumes wf: "fb_wf b"
    and pre: "take (unat (writeIdx b)) xs = take (unat (writeIdx b)) (m_buffer b)"
    and at: "take (length d) (drop (unat (writeIdx b)) xs) = d"
    and fits: "unat (writeIdx b) + length d \<le> length xs"
    and room: "length xs < 2 ^ 31"
  defines "b' \<equiv> b\<lparr>m_buffer := xs, writeIdx := writeIdx b + word_of_nat (length d)\<rparr>"
  shows "fb_wf b' \<and> readable b' = readable b @ d"
proof -
  let ?r = "unat (readIdx b)" and ?w = "unat (writeIdx b)"
  have small: "?w + length d < 2 ^ 31" using fits room by simp
  have r: "?r \<le> ?w" using wf by (rule readIdx_le)
  have d: "unat (word_of_nat (length d) :: u32) = length d"
    using small by (simp add: unat_of_nat_small)
  have w': "unat (writeIdx b') = ?w + length d"
    using small by (simp add: b'_def d unat_add_small)
  have wf': "fb_wf b'"
    using r w' fits room by (simp add: fb_wf_def word_le_nat_alt b'_def)
  have "take ?w xs @ d = take (?w + length d) xs"
    using at by (simp add: take_add)
  then have "take (?w + length d) xs = take ?w (m_buffer b) @ d"
    using pre by simp
  moreover have "readable b' = drop ?r (take (?w + length d) xs)"
    by (simp add: readable_def w' drop_take) (simp add: b'_def)
  moreover have "?r \<le> length (take ?w (m_buffer b))"
    using r wf by (simp add: fb_wf_def)
  ultimately show ?thesis
    using wf' by (simp add: readable_def drop_take)
qed

lemma Append_correct:
  assumes wf: "fb_wf b" and room: "fb_room b (length d)"
  shows "fb_wf (fb_Append b d) \<and> readable (fb_Append b d) = readable b @ d"
proof -
  let ?w = "unat (writeIdx b)"
  have w: "?w \<le> length (m_buffer b)" using wf by (simp add: fb_wf_def)
  have small: "?w + length d < 2 ^ 31" using w room by (simp add: fb_room_def)
  have n: "unat (writeIdx b + word_of_nat (length d)) = ?w + length d"
    using small by (simp add: unat_add_small unat_of_nat_small)
  let ?v = "vec_resize (m_buffer b) (?w + length d)"
  have tv: "take ?w ?v = take ?w (m_buffer b)"
    using w by (simp add: vec_resize_def)
  have "fb_wf (b\<lparr>m_buffer := vec_write ?v ?w d, writeIdx := writeIdx b + word_of_nat (length d)\<rparr>)
      \<and> readable (b\<lparr>m_buffer := vec_write ?v ?w d, writeIdx := writeIdx b + word_of_nat (length d)\<rparr>)
        = readable b @ d"
    using wf tv small w by (intro extend_at_writeIdx) (simp_all add: vec_write_def min_absorb2 vec_resize_def)
  then show ?thesis by (simp add: fb_Append_def Let_def n)
qed

lemma Pop_correct:
  assumes wf: "fb_wf b" and k: "k \<le> length (readable b)"
  shows "fb_wf (fb_Pop b (word_of_nat k)) \<and> readable (fb_Pop b (word_of_nat k)) = drop k (readable b)
    \<and> fb_Pop_ok b (word_of_nat k)"
proof -
  let ?r = "unat (readIdx b)" and ?w = "unat (writeIdx b)"
  have r: "?r \<le> ?w" using wf by (rule readIdx_le)
  have kw: "k \<le> ?w - ?r" using k by (simp add: length_readable [OF wf])
  have b31: "?w < 2 ^ 31" using wf by (rule writeIdx_bound)
  have "unat (word_of_nat k :: u32) = k"
    using kw b31 by (simp add: unat_of_nat_small)
  then have r': "unat (readIdx b + word_of_nat k) = ?r + k"
    using kw b31 r by (simp add: unat_add_small)
  then have le: "readIdx b + word_of_nat k \<le> writeIdx b"
    using kw r by (simp add: word_le_nat_alt)
  have "readable (fb_Pop b (word_of_nat k)) = drop k (readable b)"
    by (simp add: readable_def fb_Pop_def r' drop_take add.commute)
  with le show ?thesis
    using wf by (simp add: fb_wf_def fb_Pop_def fb_Pop_ok_def not_less)
qed

lemma Peek_correct:
  assumes wf: "fb_wf b" and k: "k < 2 ^ 31"
  shows "fb_Peek b (word_of_nat k) = take k (readable b)"
proof -
  let ?n = "unat (writeIdx b) - unat (readIdx b)"
  have d: "unat (writeIdx b - readIdx b) = ?n"
    using wf by (simp add: unat_sub_le fb_wf_def)
  have "unat (min (word_of_nat k) (writeIdx b - readIdx b)) = min k ?n"
    using k by (auto simp: min_def word_le_nat_alt d unat_of_nat_small)
  then show ?thesis
    by (simp add: fb_Peek_def Let_def readable_def)
qed

lemma readNext_correct:
  assumes wf: "fb_wf b"
  shows "(case readable b of
            [] \<Rightarrow> rd_readNext b = (NUL, b)
          | c # cs \<Rightarrow> fst (rd_readNext b) = c \<and> fb_wf (snd (rd_readNext b))
                      \<and> readable (snd (rd_readNext b)) = cs)"
proof (cases "readable b")
  case Nil
  then show ?thesis by (simp add: rd_readNext_def readable_size [OF wf])
next
  case (Cons c cs)
  let ?r = "unat (readIdx b)"
  have lt: "?r < unat (writeIdx b)"
    using Cons length_readable [OF wf] by (cases "?r < unat (writeIdx b)") simp_all
  have "m_buffer b ! ?r = c"
  proof -
    have "readable b ! 0 = c" using Cons by simp
    then show ?thesis using lt wf by (simp add: readable_def fb_wf_def)
  qed
  then have "fb_Get b 0 = c"
    using lt by (simp add: fb_Get_def word_le_nat_alt)
  moreover have "b\<lparr>readIdx := readIdx b + 1\<rparr> = fb_Pop b (word_of_nat 1)"
    by (simp add: fb_Pop_def)
  moreover have "fb_wf (fb_Pop b (word_of_nat 1)) \<and> readable (fb_Pop b (word_of_nat 1)) = cs"
    using Pop_correct [OF wf, of 1] Cons by simp
  ultimately show ?thesis
    using Cons by (simp add: rd_readNext_def readable_size [OF wf])
qed

lemma Read_correct:
  assumes wf: "fb_wf b" and room: "fb_room b (length bytes)"
  shows "fb_wf (snd (fb_Read b (Some bytes)))
    \<and> readable (snd (fb_Read b (Some bytes))) = readable b @ bytes
    \<and> fst (fb_Read b (Some bytes)) = int (length bytes)"
proof -
  let ?w = "unat (writeIdx b)" and ?L = "length (m_buffer b)"
  let ?f = "?L - ?w"
  have w: "?w \<le> ?L" using wf by (simp add: fb_wf_def)
  have f: "nat (getWriteableSize b) = ?f" by (simp add: writeable_size [OF wf])
  define inPlace where "inPlace = vec_write (m_buffer b) ?w (take ?f bytes)"
  have tw: "take ?w inPlace = take ?w (m_buffer b)"
    using w by (simp add: inPlace_def vec_write_def)
  show ?thesis
  proof (cases "length bytes < ?f")
    case True
    then have tb: "take ?f bytes = bytes" by simp
    have "length inPlace = ?L"
      using True w by (simp add: inPlace_def tb)
    moreover have "take (length bytes) (drop ?w inPlace) = bytes"
      using w by (simp add: inPlace_def vec_write_def tb)
    ultimately have "fb_wf (b\<lparr>m_buffer := inPlace, writeIdx := writeIdx b + word_of_nat (length bytes)\<rparr>)
      \<and> readable (b\<lparr>m_buffer := inPlace, writeIdx := writeIdx b + word_of_nat (length bytes)\<rparr>)
        = readable b @ bytes"
      using wf tw True w by (intro extend_at_writeIdx) (simp_all add: fb_wf_def)
    then show ?thesis
      using True by (simp add: fb_Read_def Let_def f inPlace_def)
  next
    case False
    define v where "v = vec_write (vec_resize inPlace (?w + length bytes)) (?f + ?w) (drop ?f bytes)"
    have li: "length inPlace = ?L"
      using False w by (simp add: inPlace_def)
    have lv: "length v = ?w + length bytes"
      using False w by (simp add: v_def)
    have "take ?L (vec_resize inPlace (?w + length bytes)) = inPlace"
      using False w li by (simp add: vec_resize_def)
    then have v: "v = inPlace @ drop ?f bytes"
      using False w by (simp add: v_def vec_write_def li vec_resize_def)
    have "take (length bytes) (drop ?w v) = bytes"
      using w False by (simp add: v li) (simp add: inPlace_def vec_write_def)
    moreover have "take ?w v = take ?w (m_buffer b)"
      using tw li w by (simp add: v)
    ultimately have "fb_wf (b\<lparr>m_buffer := v, writeIdx := writeIdx b + word_of_nat (length bytes)\<rparr>)
      \<and> readable (b\<lparr>m_buffer := v, writeIdx := writeIdx b + word_of_nat (length bytes)\<rparr>)
        = readable b @ bytes"
      using wf lv room w by (intro extend_at_writeIdx) (simp_all add: fb_room_def)
    then show ?thesis
      using False by (simp add: fb_Read_def Let_def f v_def inPlace_def)
  qed
qed

lemma Read_room:
  assumes wf: "fb_wf b" and room: "fb_room b (length bytes)"
  shows "length (m_buffer (snd (fb_Read b (Some bytes)))) \<le> length (m_buffer b) + length bytes"
proof -
  have "unat (writeIdx b) \<le> length (m_buffer b)" using wf by (simp add: fb_wf_def)
  then show ?thesis by (auto simp: fb_Read_def Let_def vec_write_def vec_resize_def)
qed

lemma offer_correct: "fb_wf b \<Longrightarrow> 0 \<le> sz \<Longrightarrow> fb_offer b sz = take (nat sz) (readable b)"
  by (auto simp: fb_offer_def readable_size readable_def length_readable min_def nat_le_iff le_nat_iff)

lemma readTo_correct:
  assumes wf: "fb_wf b" and n: "0 < n" "n < 2 ^ 31"
  shows "fst (snd (rd_readTo b False (int n))) = take n (readable b)
    \<and> fb_wf (snd (snd (rd_readTo b False (int n))))
    \<and> readable (snd (snd (rd_readTo b False (int n)))) = drop n (readable b)"
proof -
  let ?k = "min (length (readable b)) n"
  have k: "min (getReadableSize b) (int n) = int ?k"
    by (simp add: readable_size [OF wf])
  have "?k < 2 ^ 31" using n by simp
  then have p: "fb_Peek b (word_of_nat ?k) = take n (readable b)"
    by (simp add: Peek_correct [OF wf] min_def)
  have "?k \<le> length (readable b)" by simp
  from Pop_correct [OF wf this] have
    "fb_wf (fb_Pop b (word_of_nat ?k)) \<and> readable (fb_Pop b (word_of_nat ?k)) = drop n (readable b)"
    by (simp add: min_def)
  with n p show ?thesis by (simp add: rd_readTo_def Let_def k)
qed

section \<open>The contract of a byte queue\<close>

text \<open>What a connection relies on: bytes leave in the order they came, none lost and none twice.\<close>

locale byte_queue =
  fixes contents :: "'b \<Rightarrow> string"
    and put :: "'b \<Rightarrow> string \<Rightarrow> 'b"
    and get :: "'b \<Rightarrow> nat \<Rightarrow> string \<times> 'b"
    and ok :: "'b \<Rightarrow> bool"
    and room :: "'b \<Rightarrow> nat \<Rightarrow> bool"
  assumes put: "ok b \<Longrightarrow> room b (length d) \<Longrightarrow> ok (put b d) \<and> contents (put b d) = contents b @ d"
    and get: "ok b \<Longrightarrow> room b n \<Longrightarrow>
      fst (get b n) = take n (contents b) \<and> ok (snd (get b n)) \<and> contents (snd (get b n)) = drop n (contents b)"
    and room_put: "ok b \<Longrightarrow> room b (length d + n) \<Longrightarrow> room (put b d) n"
    and room_get: "room b n \<Longrightarrow> room (snd (get b k)) n"
    and room_mono: "room b n \<Longrightarrow> m \<le> n \<Longrightarrow> room b m"

datatype queue_op = Put string | Take nat

primrec op_load :: "queue_op \<Rightarrow> nat" where
  "op_load (Put d) = length d"
| "op_load (Take n) = n"

primrec op_bytes :: "queue_op \<Rightarrow> string" where
  "op_bytes (Put d) = d"
| "op_bytes (Take n) = []"

context byte_queue
begin

fun run :: "'b \<Rightarrow> queue_op list \<Rightarrow> string \<times> 'b" where
  "run b [] = ([], b)"
| "run b (Put d # ops) = run (put b d) ops"
| "run b (Take n # ops) = (let (out, b') = get b n; (rest, b'') = run b' ops in (out @ rest, b''))"

lemma run_conserves:
  "ok b \<Longrightarrow> room b (sum_list (map op_load ops)) \<Longrightarrow>
     fst (run b ops) @ contents (snd (run b ops)) = contents b @ concat (map op_bytes ops)"
proof (induction b ops rule: run.induct)
  case (1 b)
  then show ?case by simp
next
  case (2 b d ops)
  have "room b (length d)" using 2(3) by (auto intro: room_mono)
  with 2 show ?case by (simp add: put room_put)
next
  case (3 b n ops)
  have r: "room b n" using 3(3) by (auto intro: room_mono)
  have "room b (sum_list (map op_load ops))" using 3(3) by (auto intro: room_mono)
  then have "room (snd (get b n)) (sum_list (map op_load ops))" by (rule room_get)
  obtain out b' where g: "get b n = (out, b')" by fastforce
  with get [OF 3(2) r] have "out = take n (contents b)" "ok b'" "contents b' = drop n (contents b)"
    by simp_all
  moreover have "room b' (sum_list (map op_load ops))" using \<open>room (snd (get b n)) _\<close> g by simp
  ultimately show ?case
    using 3(1) [OF refl g [symmetric]] g
    by (simp add: split_beta)
qed

end

text \<open>The buffer read through \<open>readTo\<close> and filled through \<open>Append\<close>.\<close>

definition fb_take :: "fbuffer \<Rightarrow> nat \<Rightarrow> string \<times> fbuffer" where
  "fb_take b n = (if n = 0 then ([], b) else snd (rd_readTo b False (int n)))"

lemma m_buffer_readTo: "m_buffer (snd (snd (rd_readTo b null n))) = m_buffer b"
  by (simp add: rd_readTo_def fb_Pop_def Let_def)

interpretation fbq: byte_queue readable fb_Append fb_take fb_wf fb_room
proof (unfold_locales, goal_cases)
  case (1 b d)
  then show ?case by (rule Append_correct)
next
  case (2 b n)
  then show ?case by (simp add: fb_take_def readTo_correct fb_room_def)
next
  case (3 b d n)
  then have "unat (writeIdx b) + length d < 2 ^ 31"
    by (simp add: fb_wf_def fb_room_def)
  then have "unat (writeIdx b + word_of_nat (length d)) = unat (writeIdx b) + length d"
    by (simp add: unat_add_small unat_of_nat_small)
  with 3 show ?case by (simp add: fb_room_def fb_Append_def Let_def fb_wf_def)
next
  case (4 b n k)
  then show ?case by (simp add: fb_room_def fb_take_def m_buffer_readTo)
next
  case (5 b n m)
  then show ?case by (simp add: fb_room_def)
qed

text \<open>A session of reads and writes on one buffer.\<close>

fun fb_session :: "fbuffer \<Rightarrow> queue_op list \<Rightarrow> string \<times> fbuffer" where
  "fb_session b [] = ([], b)"
| "fb_session b (Put d # ops) = fb_session (fb_Append b d) ops"
| "fb_session b (Take n # ops) =
     (let (out, b') = fb_take b n; (rest, b'') = fb_session b' ops in (out @ rest, b''))"

lemma fb_session_run: "fb_session b ops = fbq.run b ops"
proof (induction b ops rule: fb_session.induct)
  case (3 b n ops)
  obtain out b' where g: "fb_take b n = (out, b')" by fastforce
  with 3 [OF refl g [symmetric]] show ?case by simp
qed simp_all

text \<open>
  The connection buffer is a queue: whatever sequence of appends and reads runs on it (within
  the range of \<open>int\<close>), the bytes handed out followed by the bytes still readable are the bytes that
  were readable at the start followed by those appended, in order.
\<close>
theorem fb_session_conserves:
  assumes "fb_wf b" and "fb_room b (sum_list (map op_load ops))"
  shows "fst (fb_session b ops) @ readable (snd (fb_session b ops))
    = readable b @ concat (map op_bytes ops)"
  unfolding fb_session_run by (rule fbq.run_conserves [OF assms])

theorem fb_session_conserves_witness:
  "fst (fb_session (FBuffer_new 4) [Put ''abc'', Take 2, Put ''de''])
     @ readable (snd (fb_session (FBuffer_new 4) [Put ''abc'', Take 2, Put ''de''])) = ''abcde''"
proof -
  have "fb_wf (FBuffer_new 4)" and "readable (FBuffer_new 4) = []"
    using new_wf [of 4] by simp_all
  moreover have "fb_room (FBuffer_new 4) (sum_list (map op_load [Put ''abc'', Take 2, Put ''de'']))"
    by (simp add: fb_room_def FBuffer_new_def)
  ultimately show ?thesis
    using fb_session_conserves [of "FBuffer_new 4" "[Put ''abc'', Take 2, Put ''de'']"] by simp
qed

text \<open>
  \<open>FBuffer::Read\<close> appends exactly the bytes \<open>readv\<close> delivered, whether they fit behind the write
  index or spill into the 64 KiB stack buffer, and reports their number.
\<close>
theorem fb_Read_appends:
  assumes "fb_wf b" and "fb_room b (length bytes)"
  shows "fb_wf (snd (fb_Read b (Some bytes)))
    \<and> readable (snd (fb_Read b (Some bytes))) = readable b @ bytes
    \<and> fst (fb_Read b (Some bytes)) = int (length bytes)"
  using assms by (rule Read_correct)

theorem fb_Read_appends_witness:
  "readable (snd (fb_Read (FBuffer_new 2) (Some ''hello''))) = ''hello''"
proof -
  have "fb_wf (FBuffer_new 2)" and "readable (FBuffer_new 2) = []"
    using new_wf [of 2] by simp_all
  moreover have "fb_room (FBuffer_new 2) (length ''hello'')"
    by (simp add: fb_room_def FBuffer_new_def)
  ultimately show ?thesis
    using fb_Read_appends [of "FBuffer_new 2" "''hello''"] by simp
qed

end
