(* ===== verification/FHttpDef.thy ===== *)
theory FHttpDef
  imports StdMap
begin

text \<open>
  \<open>FeiLib/src/Http/FhttpDef.cpp\<close> and \<open>FHttpDef.h\<close>: methods, versions and status codes, their
  texts, and the table from file extensions to content types with the lookups on it
  (\<open>FHttpServer.cpp\<close>).
\<close>

section \<open>Methods\<close>

datatype http_method =
  M_GET | M_POST | M_HEAD | M_PUT | M_DELET | M_PATCH | M_CONNECT | M_OPTIONS | M_TRACE | M_Invalid

definition MethodsMap :: "(string \<times> http_method) list" where
  "MethodsMap =
     [(''GET'', M_GET), (''POST'', M_POST), (''HEAD'', M_HEAD), (''PUT'', M_PUT),
      (''DELETE'', M_DELET), (''PATCH'', M_PATCH), (''CONNECT'', M_CONNECT),
      (''OPTIONS'', M_OPTIONS), (''TRACE'', M_TRACE)]"

definition stringToMethod :: "string \<Rightarrow> http_method" where
  "stringToMethod s = (case map_of MethodsMap s of Some m \<Rightarrow> m | None \<Rightarrow> M_Invalid)"

fun methodToStr :: "http_method \<Rightarrow> string" where
  "methodToStr M_GET = ''GET''"
| "methodToStr M_POST = ''POST''"
| "methodToStr M_HEAD = ''HEAD''"
| "methodToStr M_PUT = ''PUT''"
| "methodToStr M_DELET = ''DELETE''"
| "methodToStr M_PATCH = ''PATCH''"
| "methodToStr M_CONNECT = ''CONNECT''"
| "methodToStr M_OPTIONS = ''OPTIONS''"
| "methodToStr M_TRACE = ''TRACE''"
| "methodToStr M_Invalid = ''Invalid''"

text \<open>The enumeration value, which indexes the router's queues; \<open>MAX_SIZE\<close> is \<open>Invalid\<close>.\<close>

fun method_index :: "http_method \<Rightarrow> nat" where
  "method_index M_GET = 0" | "method_index M_POST = 1" | "method_index M_HEAD = 2"
| "method_index M_PUT = 3" | "method_index M_DELET = 4" | "method_index M_PATCH = 5"
| "method_index M_CONNECT = 6" | "method_index M_OPTIONS = 7" | "method_index M_TRACE = 8"
| "method_index M_Invalid = 9"

abbreviation MAX_SIZE :: nat where "MAX_SIZE \<equiv> 9"

lemma stringToMethod_methodToStr [simp]: "stringToMethod (methodToStr m) = m"
  by (cases m) (simp_all add: stringToMethod_def MethodsMap_def)

lemma methodToStr_stringToMethod: "stringToMethod s \<noteq> M_Invalid \<Longrightarrow> methodToStr (stringToMethod s) = s"
  by (auto simp: stringToMethod_def MethodsMap_def split: if_splits)

lemma method_index_inj: "method_index m = method_index n \<Longrightarrow> m = n"
  by (cases m; cases n) simp_all

section \<open>Versions\<close>

datatype http_version = V_Unknown | Http10 | Http11 | Http2

fun versionToStr :: "http_version \<Rightarrow> string" where
  "versionToStr Http10 = ''HTTP/1.0''"
| "versionToStr _ = ''HTTP/1.1''"

section \<open>Status codes\<close>

datatype status_code =
    S100 | S200 | S201 | S202 | S204 | S301 | S302 | S303 | S304 | S307 | S308
  | S400 | S401 | S403 | S404 | S405 | S408 | S418 | S429 | S500 | S501 | S502 | S505

fun statusCodeToStr :: "status_code \<Rightarrow> string" where
  "statusCodeToStr S100 = ''100 Continue''"
| "statusCodeToStr S200 = ''200 OK''"
| "statusCodeToStr S201 = ''201 Create''"
| "statusCodeToStr S202 = ''202 Accepted''"
| "statusCodeToStr S204 = ''204 No Content''"
| "statusCodeToStr S301 = ''301 Moved Permanently''"
| "statusCodeToStr S302 = ''302 Found''"
| "statusCodeToStr S303 = ''303 See Other''"
| "statusCodeToStr S304 = ''304 Not Modified''"
| "statusCodeToStr S307 = ''307 Temporary Redirect''"
| "statusCodeToStr S308 = ''308 Permanent Redirect''"
| "statusCodeToStr S400 = ''400 Bad Request''"
| "statusCodeToStr S401 = ''401 Unauthorized''"
| "statusCodeToStr S403 = ''403 Forbidden''"
| "statusCodeToStr S404 = ''404 Not Found''"
| "statusCodeToStr S405 = ''405 Method Not Allowed''"
| "statusCodeToStr S408 = ''408 Request Timeout''"
| "statusCodeToStr S418 = ''418 I'm a teapot''"
| "statusCodeToStr S429 = ''429 Too Many Requests''"
| "statusCodeToStr S500 = ''500 Internal Server Error''"
| "statusCodeToStr S501 = ''501 Not Implemented''"
| "statusCodeToStr S502 = ''502 Bad Gateway''"
| "statusCodeToStr S505 = ''505 HTTP Version Not Supported''"

fun statusCodeToStr2 :: "status_code \<Rightarrow> string" where
  "statusCodeToStr2 S100 = ''100''" | "statusCodeToStr2 S200 = ''200''"
| "statusCodeToStr2 S201 = ''201''" | "statusCodeToStr2 S202 = ''202''"
| "statusCodeToStr2 S204 = ''204''" | "statusCodeToStr2 S301 = ''301''"
| "statusCodeToStr2 S302 = ''302''" | "statusCodeToStr2 S303 = ''303''"
| "statusCodeToStr2 S304 = ''304''" | "statusCodeToStr2 S307 = ''307''"
| "statusCodeToStr2 S308 = ''308''" | "statusCodeToStr2 S400 = ''400''"
| "statusCodeToStr2 S401 = ''401''" | "statusCodeToStr2 S403 = ''403''"
| "statusCodeToStr2 S404 = ''404''" | "statusCodeToStr2 S405 = ''405''"
| "statusCodeToStr2 S408 = ''408''" | "statusCodeToStr2 S418 = ''418''"
| "statusCodeToStr2 S429 = ''429''" | "statusCodeToStr2 S500 = ''500''"
| "statusCodeToStr2 S501 = ''501''" | "statusCodeToStr2 S502 = ''502''"
| "statusCodeToStr2 S505 = ''505''"

text \<open>The HTTP/2 text of a status is the three digits in front of its HTTP/1.1 text.\<close>

lemma status_texts_agree: "take 3 (statusCodeToStr c) = statusCodeToStr2 c \<and> length (statusCodeToStr2 c) = 3"
  by (cases c) simp_all

lemma status_text_single_line: "LF \<notin> set (statusCodeToStr c) \<and> CR \<notin> set (statusCodeToStr c)"
  by (cases c) simp_all

section \<open>Content types by file extension\<close>

definition extensionToContentType :: "(string \<times> string) list" where
  "extensionToContentType =
     [(''html'', ''text/html''),
      (''htm'', ''text/html''),
      (''shtml'', ''text/html''),
      (''css'', ''text/css''),
      (''js'', ''application/x-javascript''),
      (''xml'', ''text/xml''),
      (''gif'', ''image/gif''),
      (''jpeg'', ''image/jpeg''),
      (''jpg'', ''image/jpeg''),
      (''atom'', ''application/atom+xml''),
      (''rss'', ''application/rss+xml''),
      (''mml'', ''text/mathml''),
      (''txt'', ''text/plain''),
      (''jad'', ''text/vnd.sun.j2me.app-descriptor''),
      (''wml'', ''text/vnd.wap.wml''),
      (''htc'', ''text/x-component''),
      (''png'', ''image/png''),
      (''tif'', ''image/tiff''),
      (''tiff'', ''image/tiff''),
      (''wbmp'', ''image/vnd.wap.wbmp''),
      (''ico'', ''image/x-icon''),
      (''jng'', ''image/x-jng''),
      (''bmp'', ''image/x-ms-bmp''),
      (''svg'', ''image/svg+xml''),
      (''webp'', ''image/webp''),
      (''jar'', ''application/java-archive''),
      (''war'', ''application/java-archive''),
      (''ear'', ''application/java-archive''),
      (''hqx'', ''application/mac-binhex40''),
      (''doc'', ''application/msword''),
      (''pdf'', ''application/pdf''),
      (''ps'', ''application/postscript''),
      (''eps'', ''application/postscript''),
      (''ai'', ''application/postscript''),
      (''rtf'', ''application/rtf''),
      (''xls'', ''application/vnd.ms-excel''),
      (''ppt'', ''application/vnd.ms-powerpoint''),
      (''wmlc'', ''application/vnd.wap.wmlc''),
      (''kml'', ''application/vnd.google-earth.kml+xml''),
      (''kmz'', ''application/vnd.google-earth.kmz''),
      (''7z'', ''application/x-7z-compressed''),
      (''cco'', ''application/x-cocoa''),
      (''jardiff'', ''application/x-java-archive-diff''),
      (''jnlp'', ''application/x-java-jnlp-file''),
      (''run'', ''application/x-makeself''),
      (''pl'', ''application/x-perl''),
      (''pm'', ''application/x-perl''),
      (''prc'', ''application/x-pilot''),
      (''pdb'', ''application/x-pilot''),
      (''rar'', ''application/x-rar-compressed''),
      (''rpm'', ''application/x-redhat-package-manager''),
      (''sea'', ''application/x-sea''),
      (''swf'', ''application/x-shockwave-flash''),
      (''sit'', ''application/x-stuffit''),
      (''tcl'', ''application/x-tcl''),
      (''tk'', ''application/x-tcl''),
      (''der'', ''application/x-x509-ca-cert''),
      (''pem'', ''application/x-x509-ca-cert''),
      (''crt'', ''application/x-x509-ca-cert''),
      (''xpi'', ''application/x-xpinstall''),
      (''xhtml'', ''application/xhtml+xml''),
      (''zip'', ''application/zip''),
      (''bin'', ''application/octet-stream''),
      (''exe'', ''application/octet-stream''),
      (''dll'', ''application/octet-stream''),
      (''deb'', ''application/octet-stream''),
      (''dmg'', ''application/octet-stream''),
      (''eot'', ''application/octet-stream''),
      (''iso'', ''application/octet-stream''),
      (''img'', ''application/octet-stream''),
      (''msi'', ''application/octet-stream''),
      (''msp'', ''application/octet-stream''),
      (''msm'', ''application/octet-stream''),
      (''mid'', ''audio/midi''),
      (''midi'', ''audio/midi''),
      (''kar'', ''audio/midi''),
      (''mp3'', ''audio/mpeg''),
      (''ogg'', ''audio/ogg''),
      (''ra'', ''audio/x-realaudio''),
      (''3gpp'', ''video/3gpp''),
      (''3gp'', ''video/3gpp''),
      (''mpeg'', ''video/mpeg''),
      (''mpg'', ''video/mpeg''),
      (''mov'', ''video/quicktime''),
      (''flv'', ''video/x-flv''),
      (''mng'', ''video/x-mng''),
      (''asx'', ''video/x-ms-asf''),
      (''asf'', ''video/x-ms-asf''),
      (''wmv'', ''video/x-ms-wmv''),
      (''avi'', ''video/x-msvideo''),
      (''m4v'', ''video/mp4''),
      (''mp4'', ''video/mp4'')]"

definition DefaultContentType :: string where
  "DefaultContentType = ''text/html; charset=UTF-8''"

text \<open>\<open>_getFileExtension\<close>: what follows the last dot; without one the out-parameter is set to the
  default content type and the result is false.\<close>

definition getFileExtension :: "string \<Rightarrow> bool \<times> string" where
  "getFileExtension filename =
     (case str_rfind filename CHR ''.'' of
        Some i \<Rightarrow> (True, drop (i + 1) filename)
      | None \<Rightarrow> (False, DefaultContentType))"

definition getContentTypeByPath :: "string \<Rightarrow> bool \<times> string" where
  "getContentTypeByPath path =
     (let (_, extensionName) = getFileExtension path
      in case map_of extensionToContentType extensionName of
           None \<Rightarrow> (False, extensionName)
         | Some t \<Rightarrow> (True, t))"

lemma rfind_last:
  assumes "c \<notin> set b"
  shows "str_rfind (a @ c # b) c = Some (length a)"
proof -
  have "str_find (rev b @ c # rev a) c 0 = Some (length (rev b))"
    using assms by (intro str_find_append) simp
  then show ?thesis by (simp add: str_rfind_def)
qed

lemma rfind_none: "c \<notin> set s \<Longrightarrow> str_rfind s c = None"
  by (simp add: str_rfind_def str_find_None)

lemma getFileExtension_dot:
  "CHR ''.'' \<notin> set ext \<Longrightarrow> getFileExtension (base @ CHR ''.'' # ext) = (True, ext)"
  by (simp add: getFileExtension_def rfind_last)

lemma getContentTypeByPath_known:
  "CHR ''.'' \<notin> set ext \<Longrightarrow> map_of extensionToContentType ext = Some t \<Longrightarrow>
     getContentTypeByPath (base @ CHR ''.'' # ext) = (True, t)"
  by (simp add: getContentTypeByPath_def getFileExtension_dot)

lemma getContentTypeByPath_no_dot:
  "CHR ''.'' \<notin> set path \<Longrightarrow> getContentTypeByPath path = (False, DefaultContentType)"
  by (simp add: getContentTypeByPath_def getFileExtension_def rfind_none DefaultContentType_def
      extensionToContentType_def)

text \<open>An unknown extension leaves the bare extension as the content type (the boolean is dropped by
  \<open>preProcessHttpRequestSend\<close>).\<close>

lemma getContentTypeByPath_unknown:
  "CHR ''.'' \<notin> set ext \<Longrightarrow> map_of extensionToContentType ext = None \<Longrightarrow>
     getContentTypeByPath (base @ CHR ''.'' # ext) = (False, ext)"
  by (simp add: getContentTypeByPath_def getFileExtension_dot)

end
