(* ===== verification/FHttpParserHelper.thy ===== *)
theory FHttpParserHelper
  imports StdMap
begin

text \<open>
  \<open>FeiLib/include/Http/FHttpParserHelper.h\<close>: percent decoding and the split of a request target
  into path and query parameters. The contract of the decoder is \<open>encodes\<close>: the encodings a
  browser may produce for a text.
\<close>

unbundle bit_operations_syntax

section \<open>UrlDecode\<close>

text \<open>A plain \<open>char\<close> read as \<open>int\<close> is signed on the platforms the project builds for.\<close>

definition schar :: "char \<Rightarrow> int" where
  "schar c = (if code_of c < 128 then int (code_of c) else int (code_of c) - 256)"

definition hex_nibble :: "char \<Rightarrow> int" where
  "hex_nibble c = (if isdigit c then schar c - schar CHR ''0''
                   else schar (toupper c) - schar CHR ''A'' + 10)"

definition hex_char :: "char \<Rightarrow> char \<Rightarrow> char" where
  "hex_char h l = char_of (nat ((push_bit 4 (hex_nibble h) OR hex_nibble l) mod 256))"

fun UrlDecode :: "string \<Rightarrow> string" where
  "UrlDecode [] = []"
| "UrlDecode (c # s) =
     (if c = CHR ''%'' then
        (case s of
           h # l # rest \<Rightarrow> hex_char h l # UrlDecode rest
         | _ \<Rightarrow> UrlDecode s)
      else if c = CHR ''+'' then CHR '' '' # UrlDecode s
      else c # UrlDecode s)"

declare UrlDecode.simps(2) [simp del]

lemma UrlDecode_plain [simp]:
  "c \<noteq> CHR ''%'' \<Longrightarrow> c \<noteq> CHR ''+'' \<Longrightarrow> UrlDecode (c # s) = c # UrlDecode s"
  by (simp add: UrlDecode.simps(2))

lemma UrlDecode_plus [simp]: "UrlDecode (CHR ''+'' # s) = CHR '' '' # UrlDecode s"
  by (simp add: UrlDecode.simps(2))

lemma UrlDecode_percent [simp]: "UrlDecode (CHR ''%'' # h # l # s) = hex_char h l # UrlDecode s"
  by (simp add: UrlDecode.simps(2))

text \<open>A percent sign with fewer than two bytes behind it is dropped.\<close>

lemma UrlDecode_truncated: "length s < 2 \<Longrightarrow> UrlDecode (CHR ''%'' # s) = UrlDecode s"
  by (cases s rule: remdups_adj.cases) (simp_all add: UrlDecode.simps(2))

section \<open>What an encoder may write\<close>

definition hex_digits :: "string" where
  "hex_digits = ''0123456789ABCDEF''"

definition lower_hex_digits :: "string" where
  "lower_hex_digits = ''0123456789abcdef''"

text \<open>\<open>e\<close> is an encoding of \<open>s\<close>: a byte may stand for itself unless it is a percent or a plus sign,
  a space may be a plus sign, and any byte may be a percent sign with two hexadecimal digits of
  either case.\<close>

inductive encodes :: "string \<Rightarrow> string \<Rightarrow> bool" where
  nil: "encodes [] []"
| plain: "encodes e s \<Longrightarrow> c \<noteq> CHR ''%'' \<Longrightarrow> c \<noteq> CHR ''+'' \<Longrightarrow> encodes (c # e) (c # s)"
| space: "encodes e s \<Longrightarrow> encodes (CHR ''+'' # e) (CHR '' '' # s)"
| percent: "encodes e s \<Longrightarrow> i < 16 \<Longrightarrow> j < 16 \<Longrightarrow>
    h \<in> {hex_digits ! i, lower_hex_digits ! i} \<Longrightarrow> l \<in> {hex_digits ! j, lower_hex_digits ! j} \<Longrightarrow>
    encodes (CHR ''%'' # h # l # e) (char_of (16 * i + j) # s)"

inductive_cases encodes_NilE: "encodes [] s"
inductive_simps encodes_Nil_iff: "encodes e []"

lemma nibble_upper: "i < 16 \<Longrightarrow> hex_nibble (hex_digits ! i) = int i"
proof -
  have "list_all (\<lambda>i. hex_nibble (hex_digits ! i) = int i) [0..<16]"
    by code_simp
  then show "i < 16 \<Longrightarrow> hex_nibble (hex_digits ! i) = int i" by (simp add: list_all_iff)
qed

lemma nibble_lower: "i < 16 \<Longrightarrow> hex_nibble (lower_hex_digits ! i) = int i"
proof -
  have "list_all (\<lambda>i. hex_nibble (lower_hex_digits ! i) = int i) [0..<16]"
    by code_simp
  then show "i < 16 \<Longrightarrow> hex_nibble (lower_hex_digits ! i) = int i" by (simp add: list_all_iff)
qed

lemma or_nibbles:
  assumes "i < 16" "j < (16::nat)"
  shows "push_bit 4 (int i) OR int j = int (16 * i + j)"
proof -
  have t: "take_bit 4 (int j) = int j" using assms by (simp add: take_bit_int_eq_self)
  have "push_bit 4 (int i) AND take_bit 4 (int j) = 0"
    by (rule bit_eqI) (simp only: bit_simps, simp)
  then have "push_bit 4 (int i) AND int j = 0" by (simp only: t)
  then have "push_bit 4 (int i) OR int j = push_bit 4 (int i) + int j"
    using plus_and_or [of "push_bit 4 (int i)" "int j"] by linarith
  then show ?thesis by (simp add: push_bit_eq_mult)
qed

lemma hex_char_digits:
  assumes "i < 16" "j < 16"
    and "h \<in> {hex_digits ! i, lower_hex_digits ! i}" "l \<in> {hex_digits ! j, lower_hex_digits ! j}"
  shows "hex_char h l = char_of (16 * i + j)"
proof -
  have "hex_nibble h = int i" "hex_nibble l = int j"
    using assms nibble_upper nibble_lower by auto
  then have "hex_char h l = char_of (nat (int (16 * i + j) mod 256))"
    using or_nibbles [OF assms(1,2)] by (simp add: hex_char_def)
  moreover have "16 * i + j < 256" using assms by simp
  ultimately show ?thesis by simp
qed

lemma UrlDecode_encodes [str_simps]: "encodes e s \<Longrightarrow> UrlDecode e = s"
proof (induction rule: encodes.induct)
  case (percent e s i j h l)
  then show ?case by (simp add: hex_char_digits)
qed simp_all

text \<open>
  \<open>UrlDecode\<close> inverts every form-url encoding of a text: plain bytes, plus signs for spaces and
  percent escapes with upper or lower case digits.
\<close>
theorem UrlDecode_inverts_encoding: "encodes e s \<Longrightarrow> UrlDecode e = s"
  by (rule UrlDecode_encodes)

theorem UrlDecode_inverts_encoding_witness: "UrlDecode ''a%2Fb+c%e4'' = ''a/b c'' @ [CHR 0xE4]"
proof -
  have digits: "hex_digits ! 2 = CHR ''2''" "hex_digits ! 15 = CHR ''F''"
      "lower_hex_digits ! 14 = CHR ''e''" "hex_digits ! 4 = CHR ''4''"
    by code_simp+
  have "encodes ''a%2Fb+c%e4'' (CHR ''a'' # char_of (16 * 2 + 15 :: nat) # CHR ''b'' # CHR '' '' # CHR ''c''
      # [char_of (16 * 14 + 4 :: nat)])"
    by (intro encodes.intros) (simp_all add: digits)
  moreover have "CHR ''a'' # char_of (16 * 2 + 15 :: nat) # CHR ''b'' # CHR '' '' # CHR ''c''
      # [char_of (16 * 14 + 4 :: nat)] = ''a/b c'' @ [CHR 0xE4]"
    by code_simp
  ultimately show ?thesis using UrlDecode_inverts_encoding [of "''a%2Fb+c%e4''"] by metis
qed

section \<open>ParsePathLine\<close>

definition parse_pair :: "string \<Rightarrow> string \<times> string" where
  "parse_pair pair =
     (case str_find pair CHR ''='' 0 of
        Some eq \<Rightarrow> (UrlDecode (substr pair 0 eq), UrlDecode (drop (eq + 1) pair))
      | None \<Rightarrow> (UrlDecode pair, []))"

definition parse_query_pairs :: "string \<Rightarrow> (string \<times> string) list" where
  "parse_query_pairs query = map parse_pair (filter (\<lambda>p. p \<noteq> []) (getlines CHR ''&'' query))"

text \<open>The out-parameters are passed and returned: without a question mark both stay as they are.\<close>

definition ParsePathLine ::
  "string \<Rightarrow> string \<Rightarrow> (string, string) omap \<Rightarrow> string \<times> (string, string) omap" where
  "ParsePathLine line outPath outMap =
     (case str_find line CHR ''?'' 0 of
        None \<Rightarrow> (outPath, outMap)
      | Some qm \<Rightarrow>
          (let query0 = drop (qm + 1) line;
               query = (case str_find query0 CHR ''#'' 0 of None \<Rightarrow> query0 | Some h \<Rightarrow> take h query0)
           in (substr line 0 qm,
               foldl (\<lambda>m kv. omap_insert m (fst kv) (snd kv)) outMap (parse_query_pairs query))))"

lemma ParsePathLine_no_query:
  "CHR ''?'' \<notin> set line \<Longrightarrow> ParsePathLine line p m = (p, m)"
  by (simp add: ParsePathLine_def str_find_None)

lemma ParsePathLine_split:
  assumes "CHR ''?'' \<notin> set path"
  shows "fst (ParsePathLine (path @ CHR ''?'' # query) p m) = path"
  using assms by (simp add: ParsePathLine_def str_find_append substr_def Let_def)

lemma parse_pair_encoded:
  assumes "encodes k key" "encodes v val" "CHR ''='' \<notin> set k"
  shows "parse_pair (k @ CHR ''='' # v) = (key, val)"
  using assms by (simp add: parse_pair_def str_find_append substr_def UrlDecode_encodes)

text \<open>A request target as a client composes it: a path, a question mark and encoded pairs.\<close>

record encoded_pair =
  ep_key :: string
  ep_val :: string
  ep_plain_key :: string
  ep_plain_val :: string

definition ep_ok :: "encoded_pair \<Rightarrow> bool" where
  "ep_ok p \<longleftrightarrow> encodes (ep_key p) (ep_plain_key p) \<and> encodes (ep_val p) (ep_plain_val p)
     \<and> CHR ''='' \<notin> set (ep_key p)
     \<and> {CHR ''&'', CHR ''#''} \<inter> (set (ep_key p) \<union> set (ep_val p)) = {}"

definition ep_text :: "encoded_pair \<Rightarrow> string" where
  "ep_text p = ep_key p @ CHR ''='' # ep_val p"

lemma set_join_with: "set (join_with d ps) \<subseteq> insert d (\<Union> (set ` set ps))"
  by (induction d ps rule: join_with.induct) auto

lemma parse_query_pairs_encoded:
  assumes "\<forall>p \<in> set ps. ep_ok p"
  shows "parse_query_pairs (join_with CHR ''&'' (map ep_text ps))
    = map (\<lambda>p. (ep_plain_key p, ep_plain_val p)) ps"
proof (cases "ps = []")
  case True
  then show ?thesis by (simp add: parse_query_pairs_def)
next
  case False
  have no_amp: "\<forall>t \<in> set (map ep_text ps). CHR ''&'' \<notin> set t"
    using assms by (auto simp: ep_ok_def ep_text_def)
  have "last (map ep_text ps) \<noteq> []"
    using False by (simp add: last_map ep_text_def)
  with no_amp False have "getlines CHR ''&'' (join_with CHR ''&'' (map ep_text ps)) = map ep_text ps"
    by (intro getlines_join) simp_all
  moreover have "filter (\<lambda>t. t \<noteq> []) (map ep_text ps) = map ep_text ps"
    by (simp add: filter_id_conv ep_text_def)
  moreover have "map parse_pair (map ep_text ps) = map (\<lambda>p. (ep_plain_key p, ep_plain_val p)) ps"
    using assms by (simp add: ep_text_def ep_ok_def parse_pair_encoded)
  ultimately show ?thesis by (simp only: parse_query_pairs_def)
qed

text \<open>
  The query parameters of a request: for a path without a question mark followed by encoded
  pairs, \<open>ParsePathLine\<close> carves off the path and stores each decoded pair; a parameter given more
  than once keeps its first value.
\<close>
theorem ParsePathLine_parameters:
  assumes "CHR ''?'' \<notin> set path" and "\<forall>p \<in> set ps. ep_ok p"
  shows "fst (ParsePathLine (path @ CHR ''?'' # join_with CHR ''&'' (map ep_text ps)) p0 []) = path
    \<and> omap_find (snd (ParsePathLine (path @ CHR ''?'' # join_with CHR ''&'' (map ep_text ps)) p0 [])) k
      = map_of (map (\<lambda>p. (ep_plain_key p, ep_plain_val p)) ps) k"
proof -
  let ?q = "join_with CHR ''&'' (map ep_text ps)"
  have "CHR ''#'' \<notin> set ?q"
    using assms(2) set_join_with [of "CHR ''&''" "map ep_text ps"] by (fastforce simp: ep_ok_def ep_text_def)
  then have q: "ParsePathLine (path @ CHR ''?'' # ?q) p0 []
      = (path, omapi.insert_all [] (parse_query_pairs ?q))"
    using assms(1) by (simp add: ParsePathLine_def str_find_append str_find_None substr_def
        omapi.insert_all_def)
  show ?thesis
    by (simp add: q omapi.first_insertion_wins parse_query_pairs_encoded [OF assms(2)])
qed

theorem ParsePathLine_parameters_witness:
  "omap_find (snd (ParsePathLine ''/post?id=7&id=8'' [] [])) ''id'' = Some ''7''"
proof -
  let ?p = "\<lambda>v. \<lparr>ep_key = ''id'', ep_val = v, ep_plain_key = ''id'', ep_plain_val = v\<rparr>"
  have "ep_ok (?p ''7'')" "ep_ok (?p ''8'')"
    by (auto simp: ep_ok_def intro!: encodes.intros)
  with ParsePathLine_parameters [of "''/post''" "[?p ''7'', ?p ''8'']" "[]" "''id''"]
  show ?thesis by (simp add: ep_text_def)
qed

end
