(* ===== verification/FCookie.thy ===== *)
theory FCookie
  imports StdMap
begin

text \<open>
  \<open>FeiLib/src/Http/FCookie.cpp\<close>: a cookie object holds values (\<open>name=value\<close>) and attributes in two
  ordered maps; it is built from a Cookie header by splitting at semicolons and equal signs and
  printed for a Set-Cookie header.
\<close>

record fcookie =
  mValueMap :: "(string, string) omap"
  mMap :: "(string, string) omap"

definition cookie_empty :: fcookie where
  "cookie_empty = \<lparr>mValueMap = [], mMap = []\<rparr>"

definition ck_addValue :: "fcookie \<Rightarrow> string \<Rightarrow> string \<Rightarrow> fcookie" where
  "ck_addValue c key val = c\<lparr>mValueMap := omap_assign (mValueMap c) key val\<rparr>"

definition ck_addAttribute :: "fcookie \<Rightarrow> string \<Rightarrow> fcookie" where
  "ck_addAttribute c attr = c\<lparr>mMap := omap_assign (mMap c) attr []\<rparr>"

definition ck_addAttributeVal :: "fcookie \<Rightarrow> string \<Rightarrow> string \<Rightarrow> fcookie" where
  "ck_addAttributeVal c attr val = c\<lparr>mMap := omap_assign (mMap c) attr val\<rparr>"

definition ck_getValue :: "fcookie \<Rightarrow> string \<Rightarrow> string option" where
  "ck_getValue c key = omap_find (mValueMap c) key"

definition ck_hasAttribute :: "fcookie \<Rightarrow> string \<Rightarrow> string option" where
  "ck_hasAttribute c attr = omap_find (mMap c) attr"

definition ck_is_empty :: "fcookie \<Rightarrow> bool" where
  "ck_is_empty c \<longleftrightarrow> mMap c = []"

definition ck_wf :: "fcookie \<Rightarrow> bool" where
  "ck_wf c \<longleftrightarrow> omap_wf (mValueMap c) \<and> omap_wf (mMap c)"

section \<open>Parsing\<close>

function split_from :: "string \<Rightarrow> char \<Rightarrow> nat \<Rightarrow> string list" where
  "split_from str delimiter start =
     (if start < length str then
        (case str_find str delimiter start of
           None \<Rightarrow> [drop start str]
         | Some e \<Rightarrow> substr str start (e - start) # split_from str delimiter (e + 1))
      else [])"
  by pat_completeness auto
termination
  by (relation "measure (\<lambda>(s, d, n). length s - n)")
     (auto dest!: str_find_Some_less)

declare split_from.simps [simp del]

definition split_string_view :: "string \<Rightarrow> char \<Rightarrow> string list" where
  "split_string_view str delimiter = split_from str delimiter 0"

definition cookie_piece :: "fcookie \<Rightarrow> string \<Rightarrow> fcookie" where
  "cookie_piece c piece =
     (case split_string_view piece CHR ''='' of
        [] \<Rightarrow> c
      | [a] \<Rightarrow> ck_addAttribute c a
      | [k, v] \<Rightarrow> ck_addValue c k v
      | svn \<Rightarrow> foldl ck_addAttribute c svn)"

definition cookieParse :: "string \<Rightarrow> fcookie \<Rightarrow> fcookie" where
  "cookieParse sv c = foldl cookie_piece c (split_string_view sv CHR '';'')"

definition FCookie_of :: "string \<Rightarrow> fcookie" where
  "FCookie_of sv = cookieParse sv cookie_empty"

text \<open>The index loop yields the pieces \<open>getline\<close> would.\<close>

lemma split_from_getlines: "split_from str d n = getlines d (drop n str)"
proof (induction str d n rule: split_from.induct)
  case (1 str d n)
  show ?case
  proof (cases "n < length str")
    case False
    then show ?thesis by (simp add: split_from.simps [of str d n])
  next
    case True
    let ?s = "drop n str"
    let ?t = "takeWhile (\<lambda>x. x \<noteq> d) ?s"
    have ne: "?s \<noteq> []" using True by simp
    show ?thesis
    proof (cases "d \<in> set ?s")
      case False
      then have "str_find str d n = None" using True by (simp add: str_find_def Let_def)
      with True ne False show ?thesis
        by (simp add: split_from.simps [of str d n] getlines_single)
    next
      case d: True
      then obtain b where b: "?s = ?t @ d # b"
        by (metis (mono_tags, lifting) dropWhile_eq_Cons_conv dropWhile_eq_Nil_conv neq_Nil_conv
            takeWhile_dropWhile_id)
      have nt: "d \<notin> set ?t" by (auto dest: set_takeWhileD)
      have "length ?s = length ?t + 1 + length b"
        by (subst b) simp
      then have lt: "n + length ?t < length str" using True by simp
      then have f: "str_find str d n = Some (n + length ?t)" by (simp add: str_find_def)
      have "drop (length ?t + 1) ?s = b"
        by (subst (2) b) simp
      then have rest: "drop (n + length ?t + 1) str = b"
        by (simp add: add.commute add.left_commute)
      have "take (length ?t) ?s = ?t"
        by (subst (2) b) simp
      then have "split_from str d n = ?t # getlines d b"
        using True f "1.IH" [OF True f] rest
        by (simp add: split_from.simps [of str d n] substr_def)
      also have "\<dots> = getlines d ?s"
        using getlines_Cons [OF nt, of b] arg_cong [OF b, of "getlines d"] by (simp only:)
      finally show ?thesis .
    qed
  qed
qed

lemma split_string_view_eq [str_simps]: "split_string_view s d = getlines d s"
  by (simp add: split_string_view_def split_from_getlines)

lemma cookie_piece_value:
  "k \<noteq> [] \<Longrightarrow> v \<noteq> [] \<Longrightarrow> CHR ''='' \<notin> set k \<Longrightarrow> CHR ''='' \<notin> set v \<Longrightarrow>
     cookie_piece c (k @ CHR ''='' # v) = ck_addValue c k v"
  by (simp add: cookie_piece_def split_string_view_eq getlines_Cons getlines_single)

lemma cookie_piece_attr:
  "a \<noteq> [] \<Longrightarrow> CHR ''='' \<notin> set a \<Longrightarrow> cookie_piece c a = ck_addAttribute c a"
  by (simp add: cookie_piece_def split_string_view_eq getlines_single)

section \<open>Printing\<close>

definition cookie_entry :: "string \<times> string \<Rightarrow> string" where
  "cookie_entry kv = fst kv @ (if snd kv \<noteq> [] then CHR ''='' # snd kv else [])"

text \<open>The two printing loops share the countdown \<open>size\<close>: a semicolon after each entry but the last.\<close>

fun cookie_loop :: "nat \<Rightarrow> (string \<times> string) list \<Rightarrow> nat \<times> string" where
  "cookie_loop n [] = (n, [])"
| "cookie_loop n (kv # kvs) =
     (let n' = n - 1; (m, rest) = cookie_loop n' kvs
      in (m, cookie_entry kv @ (if n' \<noteq> 0 then '';'' else []) @ rest))"

definition outSetCookieNoHeader :: "fcookie \<Rightarrow> string" where
  "outSetCookieNoHeader c =
     (let sz = length (mMap c) + length (mValueMap c);
          (sz1, out1) = cookie_loop sz (mValueMap c);
          (_, out2) = cookie_loop sz1 (mMap c)
      in out1 @ out2)"

definition outSetCookie :: "fcookie \<Rightarrow> string" where
  "outSetCookie c =
     ''Set-Cookie: '' @
     (let sz = length (mMap c) + length (mValueMap c);
          (sz1, out1) = cookie_loop sz (mValueMap c);
          (_, out2) = cookie_loop sz1 (mMap c)
      in out1 @ out2)"

lemma cookie_loop_fst: "fst (cookie_loop n kvs) = n - length kvs"
  by (induction n kvs rule: cookie_loop.induct) (auto simp: split_beta Let_def)

lemma cookie_loop_join:
  "length kvs < n \<Longrightarrow>
     snd (cookie_loop n kvs) = concat (map (\<lambda>kv. cookie_entry kv @ '';'') kvs)"
  by (induction n kvs rule: cookie_loop.induct) (auto simp: split_beta Let_def)

lemma join_snoc: "ps \<noteq> [] \<Longrightarrow> concat (map (\<lambda>p. p @ [d]) ps) @ join_with d qs =
   (if qs = [] then join_with d ps @ [d] else join_with d (ps @ qs))"
proof (induction d ps rule: join_with.induct)
  case (2 d x)
  then show ?case by (cases qs) auto
qed auto

lemma cookie_loop_last:
  "length kvs = n \<Longrightarrow> snd (cookie_loop n kvs) = join_with CHR '';'' (map cookie_entry kvs)"
proof (induction n kvs rule: cookie_loop.induct)
  case (2 n kv kvs)
  then show ?case by (cases kvs) (auto simp: split_beta Let_def)
qed simp

lemma out_is_join:
  "outSetCookieNoHeader c =
     join_with CHR '';'' (map cookie_entry (mValueMap c) @ map cookie_entry (mMap c))"
proof -
  let ?n = "length (mMap c) + length (mValueMap c)"
  have 1: "outSetCookieNoHeader c = snd (cookie_loop ?n (mValueMap c)) @
      snd (cookie_loop (length (mMap c)) (mMap c))"
    by (simp add: outSetCookieNoHeader_def split_beta Let_def cookie_loop_fst)
  have 2: "snd (cookie_loop (length (mMap c)) (mMap c)) = join_with CHR '';'' (map cookie_entry (mMap c))"
    by (rule cookie_loop_last) simp
  show ?thesis
  proof (cases "mMap c = [] \<or> mValueMap c = []")
    case True
    then show ?thesis using 1 2 cookie_loop_last [of "mValueMap c" ?n] by auto
  next
    case False
    then have "snd (cookie_loop ?n (mValueMap c))
        = concat (map (\<lambda>p. p @ '';'') (map cookie_entry (mValueMap c)))"
      by (simp add: cookie_loop_join comp_def)
    with 1 2 False join_snoc [of "map cookie_entry (mValueMap c)" "CHR '';''" "map cookie_entry (mMap c)"]
    show ?thesis by simp
  qed
qed

lemma outSetCookie_header: "outSetCookie c = ''Set-Cookie: '' @ outSetCookieNoHeader c"
  by (simp add: outSetCookie_def outSetCookieNoHeader_def)

section \<open>Round trip\<close>

definition clean :: "string \<Rightarrow> bool" where
  "clean s \<longleftrightarrow> s \<noteq> [] \<and> CHR '';'' \<notin> set s \<and> CHR ''='' \<notin> set s"

definition cookie_printable :: "fcookie \<Rightarrow> bool" where
  "cookie_printable c \<longleftrightarrow> ck_wf c \<and> (\<forall>(k, v) \<in> set (mValueMap c). clean k \<and> clean v)
     \<and> (\<forall>(a, v) \<in> set (mMap c). clean a \<and> v = [])"

lemma assign_larger: "\<forall>y \<in> fst ` set m. y < k \<Longrightarrow> omap_assign m k v = m @ [(k, v)]"
proof (induction m k v rule: omap_assign.induct)
  case (2 x w m k v)
  then show ?case by (auto dest: less_asym)
qed simp

lemma rebuild_sorted: "omap_wf (m @ kvs) \<Longrightarrow>
    foldl (\<lambda>m kv. omap_assign m (fst kv) (snd kv)) m kvs = m @ kvs"
proof (induction kvs arbitrary: m)
  case (Cons kv kvs)
  have "\<forall>y \<in> fst ` set m. y < fst kv"
    using Cons.prems by (auto simp: omap_wf_def sorted_wrt_append)
  then have "omap_assign m (fst kv) (snd kv) = m @ [kv]"
    by (simp add: assign_larger)
  with Cons show ?case by simp
qed simp

lemma fold_values:
  "\<forall>(k, v) \<in> set kvs. clean k \<and> clean v \<Longrightarrow>
     foldl cookie_piece c (map cookie_entry kvs) =
       c\<lparr>mValueMap := foldl (\<lambda>m kv. omap_assign m (fst kv) (snd kv)) (mValueMap c) kvs\<rparr>"
proof (induction kvs arbitrary: c)
  case (Cons kv kvs)
  then show ?case
    by (cases kv) (simp add: clean_def cookie_entry_def cookie_piece_value ck_addValue_def)
qed simp

lemma fold_attrs:
  "\<forall>(a, v) \<in> set kvs. clean a \<and> v = [] \<Longrightarrow>
     foldl cookie_piece c (map cookie_entry kvs) =
       c\<lparr>mMap := foldl (\<lambda>m kv. omap_assign m (fst kv) (snd kv)) (mMap c) kvs\<rparr>"
proof (induction kvs arbitrary: c)
  case (Cons kv kvs)
  then show ?case
    by (cases kv) (simp add: clean_def cookie_entry_def cookie_piece_attr ck_addAttribute_def)
qed simp

lemma entries_clean:
  "cookie_printable c \<Longrightarrow>
     \<forall>p \<in> set (map cookie_entry (mValueMap c) @ map cookie_entry (mMap c)). p \<noteq> [] \<and> CHR '';'' \<notin> set p"
  by (fastforce simp: cookie_printable_def clean_def cookie_entry_def)

text \<open>
  Printing a cookie and parsing the text gives the cookie back, for cookies whose names, values
  and flag attributes are non-empty and free of semicolons and equal signs.
\<close>
theorem cookie_round_trip:
  assumes "cookie_printable c"
  shows "FCookie_of (outSetCookieNoHeader c) = c"
proof -
  let ?es = "map cookie_entry (mValueMap c) @ map cookie_entry (mMap c)"
  have es: "getlines CHR '';'' (join_with CHR '';'' ?es) = ?es"
  proof (cases "?es = []")
    case False
    with entries_clean [OF assms] last_in_set [of ?es] show ?thesis by (intro getlines_join) blast+
  qed simp
  have wf: "omap_wf ([] @ mValueMap c)" "omap_wf ([] @ mMap c)"
    using assms by (simp_all add: cookie_printable_def ck_wf_def)
  have "FCookie_of (outSetCookieNoHeader c) = foldl cookie_piece cookie_empty ?es"
    by (simp add: FCookie_of_def cookieParse_def split_string_view_eq out_is_join es)
  also have "\<dots> = c"
    using assms rebuild_sorted [OF wf(1)] rebuild_sorted [OF wf(2)]
    by (simp add: cookie_printable_def fold_values fold_attrs cookie_empty_def)
  finally show ?thesis .
qed

theorem cookie_round_trip_witness:
  "FCookie_of (outSetCookieNoHeader \<lparr>mValueMap = [(''sessionId'', ''ab'')], mMap = [(''HttpOnly'', '''')]\<rparr>)
     = \<lparr>mValueMap = [(''sessionId'', ''ab'')], mMap = [(''HttpOnly'', '''')]\<rparr>"
  by (rule cookie_round_trip) (simp add: cookie_printable_def ck_wf_def omap_wf_def clean_def)

section \<open>Reading a request's Cookie header\<close>

text \<open>Browsers separate the cookies of one header with a semicolon and a space. The space is not
  skipped, so it becomes part of the next name.\<close>

lemma second_cookie_key:
  assumes "clean k1" "clean v1" "clean k2" "clean v2"
  shows "FCookie_of (k1 @ CHR ''='' # v1 @ '';'' @ '' '' @ k2 @ CHR ''='' # v2)
    = ck_addValue (ck_addValue cookie_empty k1 v1) (CHR '' '' # k2) v2"
proof -
  have a: "CHR '';'' \<notin> set (k1 @ CHR ''='' # v1)" "CHR '';'' \<notin> set (CHR '' '' # k2 @ CHR ''='' # v2)"
    using assms by (auto simp: clean_def)
  have "getlines CHR '';'' ((k1 @ CHR ''='' # v1) @ CHR '';'' # (CHR '' '' # k2 @ CHR ''='' # v2))
     = [k1 @ CHR ''='' # v1, CHR '' '' # k2 @ CHR ''='' # v2]"
    by (subst getlines_Cons [OF a(1)]) (simp only: getlines_single [OF _ a(2)] list.simps simp_thms)
  moreover have "cookie_piece c (k1 @ CHR ''='' # v1) = ck_addValue c k1 v1" for c
    using assms by (intro cookie_piece_value) (auto simp: clean_def)
  moreover have "cookie_piece c ((CHR '' '' # k2) @ CHR ''='' # v2) = ck_addValue c (CHR '' '' # k2) v2" for c
    using assms by (intro cookie_piece_value) (auto simp: clean_def)
  ultimately show ?thesis
    by (simp add: FCookie_of_def cookieParse_def split_string_view_eq)
qed

text \<open>
  The second cookie of a standard Cookie header (\<open>a=1; b=2\<close>) cannot be read back under its name:
  \<open>getValue\<close> finds the first cookie but not the second, unless the two names are equal.
\<close>
theorem second_cookie_unreadable:
  assumes "clean k1" "clean v1" "clean k2" "clean v2" "k2 \<noteq> k1"
  shows "ck_getValue (FCookie_of (k1 @ CHR ''='' # v1 @ '';'' @ '' '' @ k2 @ CHR ''='' # v2)) k2 = None
    \<and> (CHR '' '' # k2 \<noteq> k1 \<longrightarrow>
        ck_getValue (FCookie_of (k1 @ CHR ''='' # v1 @ '';'' @ '' '' @ k2 @ CHR ''='' # v2)) k1 = Some v1)"
  using assms by (subst (1 2) second_cookie_key)
    (auto simp: ck_getValue_def ck_addValue_def cookie_empty_def)

theorem second_cookie_unreadable_witness:
  "ck_getValue (FCookie_of ''theme=dark; sessionId=0af3'') ''sessionId'' = None"
  using second_cookie_unreadable [of "''theme''" "''dark''" "''sessionId''" "''0af3''"]
  by (simp add: clean_def)

end
