(* ===== verification/FHttpParser.thy ===== *)
theory FHttpParser
  imports FBuffer FHttpDef FHttpParserHelper FCookie
begin

text \<open>
  The incremental HTTP/1 request parser (\<open>FeiLib/src/Http/FHttpRequestParser.cpp\<close>): the request
  context it fills, the request line, the header lines, the end of the headers (content length,
  cookies), the body, and the loop \<open>FHttpParser::parse\<close> over the bytes of an \<open>FBuffer\<close>.

  The fields \<open>mMethod\<close> and \<open>mHttpVersion\<close> have no initialiser in the source, so the lemmas speak of
  any parser that is \<open>fresh\<close>, whatever these two fields hold. \<open>contentLength\<close> and
  \<open>bodyBytesRead\<close> are \<open>size_t\<close>: the first is a result of \<open>std::stoul\<close> and the second never exceeds
  it, so natural numbers represent them. Exceptions of the standard library leave \<open>parse\<close> as
  \<open>Inl\<close> values, together with the parser as it was when they were thrown.
\<close>

section \<open>State\<close>

record http_context =
  mMethod :: http_method
  mRequestPath :: string
  mHttpVersion :: http_version
  mRequestBody :: string
  mQueryMap :: "(string, string) omap"
  mHeaders :: "(string, string) omap"
  cookies :: "fcookie list"

datatype parse_state = RequestLine | Headers | Body | Done | Parse_Error

record http_parser =
  pstate :: parse_state
  lineBuf :: string
  contentLength :: nat
  bodyBytesRead :: nat
  mCtx :: http_context

definition new_context :: "http_method \<Rightarrow> http_version \<Rightarrow> http_context" where
  "new_context m v = \<lparr>mMethod = m, mRequestPath = [], mHttpVersion = v, mRequestBody = [],
     mQueryMap = [], mHeaders = [], cookies = []\<rparr>"

text \<open>The constructor; its arguments are the indeterminate values of the two fields without one.\<close>

definition FHttpParser_new :: "http_method \<Rightarrow> http_version \<Rightarrow> http_parser" where
  "FHttpParser_new m v = \<lparr>pstate = RequestLine, lineBuf = [], contentLength = 0,
     bodyBytesRead = 0, mCtx = new_context m v\<rparr>"

definition fresh :: "http_parser \<Rightarrow> bool" where
  "fresh p \<longleftrightarrow> p = FHttpParser_new (mMethod (mCtx p)) (mHttpVersion (mCtx p))"

definition ctx_getHeader :: "http_context \<Rightarrow> string \<Rightarrow> string option" where
  "ctx_getHeader ctx key = mm_find (mHeaders ctx) key"

definition ctx_getQuery :: "http_context \<Rightarrow> string \<Rightarrow> string option" where
  "ctx_getQuery ctx key = omap_find (mQueryMap ctx) key"

section \<open>Helpers\<close>

definition isAllDigits :: "string \<Rightarrow> bool" where
  "isAllDigits s \<longleftrightarrow> s \<noteq> [] \<and> list_all isdigit s"

definition trimSpaces :: "string \<Rightarrow> string" where
  "trimSpaces s = rev (dropWhile (\<lambda>c. c = CHR '' '') (rev (dropWhile (\<lambda>c. c = CHR '' '') s)))"

definition ends_crlf :: "string \<Rightarrow> bool" where
  "ends_crlf l \<longleftrightarrow> 2 \<le> length l \<and> l ! (length l - 2) = CR \<and> l ! (length l - 1) = LF"

text \<open>\<open>std::string::max_size\<close> of a 64-bit libstdc++, above which \<open>reserve\<close> throws
  \<open>std::length_error\<close>.\<close>

definition string_max_size :: nat where
  "string_max_size = 2 ^ 62 - 1 + 2 ^ 62"

section \<open>The request line\<close>

definition parseQuery :: "http_parser \<Rightarrow> string \<Rightarrow> http_parser" where
  "parseQuery p line =
     (let (path, q) = ParsePathLine line (mRequestPath (mCtx p)) (mQueryMap (mCtx p))
      in p\<lparr>mCtx := (mCtx p)\<lparr>mRequestPath := path, mQueryMap := q\<rparr>\<rparr>)"

text \<open>One word of the line; \<open>None\<close> is the early return.\<close>

definition request_word :: "http_parser \<Rightarrow> nat \<Rightarrow> string \<Rightarrow> http_parser option" where
  "request_word p step cur =
     (if step = 0 then
        (let m = stringToMethod cur
         in if m = M_Invalid then None else Some (p\<lparr>mCtx := (mCtx p)\<lparr>mMethod := m\<rparr>\<rparr>))
      else if step = 1 then
        Some (parseQuery (p\<lparr>mCtx := (mCtx p)\<lparr>mRequestPath := cur\<rparr>\<rparr>) cur)
      else if step = 2 then
        (if cur = ''HTTP/1.1'' then Some (p\<lparr>mCtx := (mCtx p)\<lparr>mHttpVersion := Http11\<rparr>\<rparr>)
         else if cur = ''HTTP/1.0'' then Some (p\<lparr>mCtx := (mCtx p)\<lparr>mHttpVersion := Http10\<rparr>\<rparr>)
         else None)
      else Some p)"

fun request_words :: "http_parser \<Rightarrow> nat \<Rightarrow> string \<Rightarrow> string \<Rightarrow> http_parser" where
  "request_words p step cur [] =
     (case request_word p step cur of
        None \<Rightarrow> p\<lparr>pstate := Parse_Error\<rparr>
      | Some p' \<Rightarrow> if step + 1 \<noteq> 3 then p'\<lparr>pstate := Parse_Error\<rparr> else p')"
| "request_words p step cur (c # cs) =
     (if c = CHR '' '' then
        (case request_word p step cur of
           None \<Rightarrow> p\<lparr>pstate := Parse_Error\<rparr>
         | Some p' \<Rightarrow> request_words p' (step + 1) [] cs)
      else request_words p step (cur @ [c]) cs)"

definition parseRequestLine :: "http_parser \<Rightarrow> string \<Rightarrow> http_parser" where
  "parseRequestLine p line = request_words p 0 [] line"

section \<open>Headers\<close>

definition parseCookies :: "http_parser \<Rightarrow> string \<Rightarrow> http_parser" where
  "parseCookies p line = p\<lparr>mCtx := (mCtx p)\<lparr>cookies := cookies (mCtx p) @ [FCookie_of line]\<rparr>\<rparr>"

definition take_cookies :: "http_parser \<Rightarrow> http_parser" where
  "take_cookies p =
     (let p1 = foldl parseCookies p (mm_equal_range (mHeaders (mCtx p)) ''Cookie'')
      in p1\<lparr>mCtx := (mCtx p1)\<lparr>mHeaders := mm_erase (mHeaders (mCtx p1)) ''Cookie''\<rparr>\<rparr>)"

datatype parse_step = Continue | Return bool | Throw std_error

definition end_of_headers :: "http_parser \<Rightarrow> parse_step \<times> http_parser" where
  "end_of_headers p =
     (case mm_find (mHeaders (mCtx p)) ''Content-Length'' of
        Some v \<Rightarrow>
          if \<not> isAllDigits v then (Return False, p\<lparr>pstate := Parse_Error\<rparr>)
          else (case stoul v of
                  Inl e \<Rightarrow> (Throw e, p)
                | Inr n \<Rightarrow>
                    let p1 = p\<lparr>contentLength := n\<rparr>
                    in if string_max_size < n then (Throw Length_error, p1)
                       else (Continue,
                             (take_cookies (p1\<lparr>pstate := (if 0 < n then Body else Done)\<rparr>))
                               \<lparr>lineBuf := []\<rparr>))
      | None \<Rightarrow> (Continue, (take_cookies (p\<lparr>pstate := Done\<rparr>))\<lparr>lineBuf := []\<rparr>))"

definition add_header :: "http_parser \<Rightarrow> string \<Rightarrow> string \<Rightarrow> http_parser" where
  "add_header p name val =
     p\<lparr>mCtx := (mCtx p)\<lparr>mHeaders := mm_insert (mHeaders (mCtx p)) name val\<rparr>\<rparr>"

definition header_line :: "http_parser \<Rightarrow> http_parser" where
  "header_line p =
     (let pos = str_find (lineBuf p) CHR '':'' 0;
          line = take (length (lineBuf p) - 2) (lineBuf p)
      in case pos of
           Some i \<Rightarrow> (add_header p (substr line 0 i) (trimSpaces (drop (i + 1) line)))\<lparr>lineBuf := []\<rparr>
         | None \<Rightarrow> (add_header p line [])\<lparr>lineBuf := []\<rparr>)"

section \<open>The loop\<close>

definition parse_byte :: "http_parser \<Rightarrow> char \<Rightarrow> parse_step \<times> http_parser" where
  "parse_byte p c =
     (case pstate p of
        RequestLine \<Rightarrow>
          (let p1 = p\<lparr>lineBuf := lineBuf p @ [c]\<rparr>
           in if ends_crlf (lineBuf p1)
              then (let p2 = p1\<lparr>lineBuf := take (length (lineBuf p1) - 2) (lineBuf p1)\<rparr>;
                        p3 = parseRequestLine p2 (lineBuf p2)
                    in if pstate p3 = Parse_Error then (Return False, p3\<lparr>lineBuf := []\<rparr>)
                       else (Continue, p3\<lparr>lineBuf := [], pstate := Headers\<rparr>))
              else (Continue, p1))
      | Headers \<Rightarrow>
          (let p1 = p\<lparr>lineBuf := lineBuf p @ [c]\<rparr>
           in if ends_crlf (lineBuf p1)
              then (if lineBuf p1 = CRLF then end_of_headers p1 else (Continue, header_line p1))
              else (Continue, p1))
      | Body \<Rightarrow>
          (let p1 = p\<lparr>mCtx := (mCtx p)\<lparr>mRequestBody := mRequestBody (mCtx p) @ [c]\<rparr>,
                       bodyBytesRead := bodyBytesRead p + 1\<rparr>
           in (Continue, if contentLength p1 \<le> bodyBytesRead p1 then p1\<lparr>pstate := Done\<rparr> else p1))
      | Done \<Rightarrow> (Return True, p)
      | Parse_Error \<Rightarrow> (Return False, p))"

definition finished :: "http_parser \<Rightarrow> bool" where
  "finished p \<longleftrightarrow> pstate p = Done \<or> pstate p = Parse_Error"

lemma readNext_advances:
  assumes "fst (rd_readNext b) \<noteq> NUL"
  shows "unat (writeIdx (snd (rd_readNext b)) - readIdx (snd (rd_readNext b)))
    < unat (writeIdx b - readIdx b)"
proof -
  from assms have lt: "readIdx b < writeIdx b"
    by (auto simp: rd_readNext_def fb_Get_def Let_def not_le split: if_splits)
  with assms have b1: "snd (rd_readNext b) = b\<lparr>readIdx := readIdx b + 1\<rparr>"
    by (auto simp: rd_readNext_def split: if_splits)
  have "writeIdx b - readIdx b \<noteq> 0" using lt by auto
  then have "unat (writeIdx b - readIdx b - 1) < unat (writeIdx b - readIdx b)"
    by (metis word_less_nat_alt word_not_simps(1) measure_unat)
  then show ?thesis by (simp add: b1 diff_diff_eq)
qed

text \<open>The while loop: the next byte is read first, the state is tested after. It ends because every
  byte that is not NUL advances \<open>readIdx\<close> towards \<open>writeIdx\<close>.\<close>

function parse_loop :: "http_parser \<Rightarrow> fbuffer \<Rightarrow> (std_error + bool) \<times> http_parser \<times> fbuffer" where
  "parse_loop p b =
     (let (c, b1) = rd_readNext b
      in if c = NUL \<or> finished p then (Inr (pstate p = Done), p, b1)
         else (case parse_byte p c of
                 (Continue, p') \<Rightarrow> parse_loop p' b1
               | (Return r, p') \<Rightarrow> (Inr r, p', b1)
               | (Throw e, p') \<Rightarrow> (Inl e, p', b1)))"
  by pat_completeness auto

termination
proof (relation "measure (\<lambda>(p, b). unat (writeIdx b - readIdx b))", goal_cases)
  case (2 p b x c b1 st p')
  then have "fst (rd_readNext b) \<noteq> NUL" "b1 = snd (rd_readNext b)"
    by (auto simp: prod_eq_iff)
  then show ?case using readNext_advances [of b] by simp
qed simp

declare parse_loop.simps [simp del]

definition http_parse :: "http_parser \<Rightarrow> fbuffer \<Rightarrow> (std_error + bool) \<times> http_parser \<times> fbuffer" where
  "http_parse p b = parse_loop p b"

section \<open>The loop on the bytes\<close>

text \<open>The parser as a function of the bytes still in the buffer: the reference definition that
  \<open>parse_loop\<close> refines. It returns the bytes it left unread.\<close>

fun parse_chars :: "http_parser \<Rightarrow> string \<Rightarrow> (std_error + bool) \<times> http_parser \<times> string" where
  "parse_chars p [] = (Inr (pstate p = Done), p, [])"
| "parse_chars p (c # s) =
     (if c = NUL \<or> finished p then (Inr (pstate p = Done), p, s)
      else (case parse_byte p c of
              (Continue, p') \<Rightarrow> parse_chars p' s
            | (Return r, p') \<Rightarrow> (Inr r, p', s)
            | (Throw e, p') \<Rightarrow> (Inl e, p', s)))"

lemma parse_loop_refines:
  assumes "fb_wf b"
  shows "\<exists>b'. parse_loop p b = (fst (parse_chars p (readable b)), fst (snd (parse_chars p (readable b))), b')
    \<and> readable b' = snd (snd (parse_chars p (readable b))) \<and> fb_wf b' \<and> m_buffer b' = m_buffer b"
  using assms
proof (induction "readable b" arbitrary: p b)
  case Nil
  then have "rd_readNext b = (NUL, b)" using readNext_correct [OF Nil.prems] by simp
  then show ?case using Nil by (simp add: parse_loop.simps [of p b] Nil(1) [symmetric])
next
  case (Cons c s)
  obtain b1 where b1: "rd_readNext b = (c, b1)" "fb_wf b1" "readable b1 = s"
    using readNext_correct [OF Cons.prems] Cons.hyps(2) [symmetric] by (cases "rd_readNext b") auto
  have m: "m_buffer b1 = m_buffer b"
    using b1(1) by (auto simp: rd_readNext_def split: if_splits)
  note unfold = parse_loop.simps [of p b] b1(1) Cons.hyps(2) [symmetric]
  show ?case
  proof (cases "c = NUL \<or> finished p")
    case True
    then show ?thesis using b1 m by (simp add: unfold)
  next
    case False
    obtain st p' where st: "parse_byte p c = (st, p')" by fastforce
    show ?thesis
      using False Cons.hyps(1) [OF b1(3) [symmetric] b1(2), of p'] b1 m
      by (cases st) (simp_all add: unfold st)
  qed
qed

lemma parse_refines:
  assumes "fb_wf b" and "parse_chars p (readable b) = (r, p', s')"
  obtains b' where "http_parse p b = (r, p', b')" "readable b' = s'" "fb_wf b'" "m_buffer b' = m_buffer b"
  using parse_loop_refines [OF assms(1), of p] assms(2) by (auto simp: http_parse_def)

text \<open>Verdicts: outside the final states a byte that ends the loop is an error, and \<open>parse\<close> says
  true exactly when the request is complete.\<close>

lemma end_of_headers_return: "end_of_headers p = (Return r, p') \<Longrightarrow> \<not> r \<and> pstate p' = Parse_Error"
  by (auto simp: end_of_headers_def Let_def split: option.splits if_splits sum.splits)

lemma parse_byte_return:
  "parse_byte p c = (Return r, p') \<Longrightarrow> \<not> finished p \<Longrightarrow> \<not> r \<and> pstate p' = Parse_Error"
  by (cases "pstate p")
    (auto simp: parse_byte_def finished_def Let_def dest: end_of_headers_return split: if_splits)

lemma parse_chars_verdict: "parse_chars p s = (Inr r, p', s') \<Longrightarrow> r \<longleftrightarrow> pstate p' = Done"
proof (induction p s rule: parse_chars.induct)
  case (2 p c s)
  obtain st q where st: "parse_byte p c = (st, q)" by fastforce
  show ?case
  proof (cases "c = NUL \<or> finished p")
    case True
    then show ?thesis using 2(2) by auto
  next
    case False
    then show ?thesis
      using 2(1) [OF False st [symmetric]] 2(2) st parse_byte_return [of p c r q]
      by (cases st) auto
  qed
qed auto

text \<open>Parsing in two portions: what stops without a verdict goes on where it stopped, and a verdict
  stays.\<close>

lemma parse_chars_append:
  assumes "NUL \<notin> set s" and "parse_chars p s = (r, p', s')"
  shows "if finished p' \<or> (\<exists>e. r = Inl e)
         then \<exists>s''. parse_chars p (s @ t) = (r, p', s'')
         else s' = [] \<and> parse_chars p (s @ t) = parse_chars p' t"
  using assms
proof (induction p s rule: parse_chars.induct)
  case (1 p)
  then show ?case by (cases t) (auto simp: finished_def)
next
  case (2 p c s)
  obtain st q where st: "parse_byte p c = (st, q)" by fastforce
  show ?case
  proof (cases "finished p")
    case True
    then show ?thesis using 2(3) by auto
  next
    case False
    with 2(2) have f: "\<not> (c = NUL \<or> finished p)" "NUL \<notin> set s" by auto
    show ?thesis
      using 2(1) [OF f(1) st [symmetric] _ f(2)] 2(3) st f(1) False parse_byte_return [of p c _ q]
      by (cases st) (auto simp: finished_def)
  qed
qed

text \<open>The bytes behind the stop stay unread, all but one at most.\<close>

lemma parse_chars_stopped:
  assumes "NUL \<notin> set s" "parse_chars p s = (r, p', s')" "finished p' \<or> (\<exists>e. r = Inl e)"
  shows "\<exists>s''. parse_chars p (s @ t) = (r, p', s'') \<and> length t \<le> length s'' + 1"
  using assms
proof (induction p s rule: parse_chars.induct)
  case (1 p)
  then show ?case by (cases t) auto
next
  case (2 p c s)
  obtain st q where st: "parse_byte p c = (st, q)" by fastforce
  show ?case
  proof (cases "c = NUL \<or> finished p")
    case True
    then show ?thesis using 2(3) by auto
  next
    case False
    show ?thesis
      using 2(1) [OF False st [symmetric]] 2(2-4) st False by (cases st) auto
  qed
qed

text \<open>A parser \<open>p\<close> that goes on where \<open>p0\<close> would be after the bytes \<open>t\<close>.\<close>

definition resumes :: "http_parser \<Rightarrow> http_parser \<Rightarrow> string \<Rightarrow> bool" where
  "resumes p p0 t \<longleftrightarrow> (\<forall>s. parse_chars p s = parse_chars p0 (t @ s))"

lemma resumes_self [simp]: "resumes p p []"
  by (simp add: resumes_def)

lemma resumes_step:
  assumes "resumes p p0 t" "NUL \<notin> set s" "parse_chars p s = (Inr r, p', s')" "\<not> finished p'"
  shows "resumes p' p0 (t @ s) \<and> \<not> r \<and> s' = []"
  using assms parse_chars_append [of s p "Inr r" p' s'] parse_chars_verdict [of p s r p' s']
  by (auto simp: resumes_def finished_def)

section \<open>Requests that arrive in portions\<close>

text \<open>The connection reads what the socket has into the input buffer and calls the parser, until the
  parser has a verdict (\<open>handleRead\<close> of the connection, \<open>http1Process\<close> of the server).\<close>

fun feed :: "http_parser \<Rightarrow> fbuffer \<Rightarrow> string list \<Rightarrow> (std_error + bool) \<times> http_parser \<times> fbuffer" where
  "feed p b [] = (Inr (pstate p = Done), p, b)"
| "feed p b (d # ds) =
     (let (r, p', b') = http_parse p (snd (fb_Read b (Some d)))
      in if r = Inr False \<and> \<not> finished p' then feed p' b' ds else (r, p', b'))"

lemma feed_chars:
  assumes "fb_wf b" "readable b = []" "fb_room b (length (concat ds))" "NUL \<notin> set (concat ds)"
  shows "fst (feed p b ds) = fst (parse_chars p (concat ds))
    \<and> fst (snd (feed p b ds)) = fst (snd (parse_chars p (concat ds)))"
  using assms
proof (induction ds arbitrary: p b)
  case (Cons d ds)
  have room: "fb_room b (length d)" using Cons.prems by (simp add: fb_room_def)
  note R = Read_correct [OF Cons.prems(1) room] Read_room [OF Cons.prems(1) room]
  obtain r p' s' where c: "parse_chars p d = (r, p', s')" by (metis prod_cases3)
  have "readable (snd (fb_Read b (Some d))) = d" using R Cons.prems by simp
  then obtain b' where b': "http_parse p (snd (fb_Read b (Some d))) = (r, p', b')"
      "readable b' = s'" "fb_wf b'" "m_buffer b' = m_buffer (snd (fb_Read b (Some d)))"
    using parse_refines [of "snd (fb_Read b (Some d))" p r p' s'] c R by metis
  note app = parse_chars_append [of d p r p' s' "concat ds"]
  show ?case
  proof (cases "finished p' \<or> (\<exists>e. r = Inl e)")
    case True
    then show ?thesis using app c Cons.prems(4) b'(1) by auto
  next
    case False
    then have "r = Inr False"
      using c parse_chars_verdict [of p d] by (cases r) (auto simp: finished_def)
    moreover have "fb_room b' (length (concat ds))"
      using R b'(4) Cons.prems(3) by (simp add: fb_room_def)
    ultimately show ?thesis
      using False app c Cons.prems(4) b' Cons.IH [of b' p'] by simp
  qed
qed simp

text \<open>
  C4. How the network cuts data without NUL bytes into packets does not matter: reading and parsing it in
  any portions ends with the same verdict and the same parser state as parsing it in one piece. (At a NUL
  byte \<open>parse\<close> returns, so with one in the data the portions do matter.)
\<close>
theorem parse_portions:
  assumes "fb_wf b" "readable b = []" "fb_room b (length (concat ds))" "NUL \<notin> set (concat ds)"
  shows "fst (feed p b ds) = fst (http_parse p (snd (fb_Read b (Some (concat ds)))))
    \<and> fst (snd (feed p b ds)) = fst (snd (http_parse p (snd (fb_Read b (Some (concat ds))))))"
proof -
  note R = Read_correct [OF assms(1,3)]
  then have "readable (snd (fb_Read b (Some (concat ds)))) = concat ds" using assms(2) by simp
  then show ?thesis
    using feed_chars [OF assms, of p] parse_loop_refines [of "snd (fb_Read b (Some (concat ds)))" p] R
    by (auto simp: http_parse_def)
qed

theorem parse_portions_witness:
  "fst (feed (FHttpParser_new M_GET Http11) (FBuffer_new 16) [''GET / HT'', ''TP/1.1'' @ [CR], [LF, CR, LF]])
    = fst (http_parse (FHttpParser_new M_GET Http11)
        (snd (fb_Read (FBuffer_new 16) (Some (''GET / HTTP/1.1'' @ [CR, LF, CR, LF])))))"
proof -
  let ?ds = "[''GET / HT'', ''TP/1.1'' @ [CR], [LF, CR, LF]]"
  have "fb_wf (FBuffer_new 16)" "readable (FBuffer_new 16) = []"
    using new_wf [of 16] by simp_all
  moreover have "fb_room (FBuffer_new 16) (length (concat ?ds))"
    by (simp add: fb_room_def FBuffer_new_def)
  moreover have "NUL \<notin> set (concat ?ds)" by simp
  ultimately show ?thesis
    using parse_portions [of "FBuffer_new 16" ?ds "FHttpParser_new M_GET Http11"] by simp
qed

section \<open>The parser's invariant\<close>

definition declared_length :: "http_context \<Rightarrow> nat" where
  "declared_length ctx =
     (case mm_find (mHeaders ctx) ''Content-Length'' of None \<Rightarrow> 0 | Some v \<Rightarrow> dec_value v)"

definition parser_inv :: "http_parser \<Rightarrow> bool" where
  "parser_inv p \<longleftrightarrow> mm_wf (mHeaders (mCtx p)) \<and> omap_wf (mQueryMap (mCtx p)) \<and>
     (case pstate p of
        RequestLine \<Rightarrow> bodyBytesRead p = 0 \<and> mRequestBody (mCtx p) = []
      | Headers \<Rightarrow> bodyBytesRead p = 0 \<and> mRequestBody (mCtx p) = []
      | Body \<Rightarrow> bodyBytesRead p = length (mRequestBody (mCtx p)) \<and> bodyBytesRead p < contentLength p
                \<and> contentLength p = declared_length (mCtx p)
                \<and> mm_find (mHeaders (mCtx p)) ''Cookie'' = None
      | Done \<Rightarrow> length (mRequestBody (mCtx p)) = declared_length (mCtx p)
                \<and> mm_find (mHeaders (mCtx p)) ''Cookie'' = None
      | Parse_Error \<Rightarrow> True)"

lemma fresh_iff: "fresh p \<longleftrightarrow> (\<exists>m v. p = FHttpParser_new m v)"
  by (auto simp: fresh_def FHttpParser_new_def new_context_def)

lemma fresh_new [simp]: "fresh (FHttpParser_new m v)"
  by (auto simp: fresh_iff)

lemma fresh_inv: "fresh p \<Longrightarrow> parser_inv p"
  by (auto simp: fresh_iff FHttpParser_new_def new_context_def parser_inv_def mm_wf_def)

text \<open>The request line touches the method, the path, the version and the query map only.\<close>

definition line_frame :: "http_parser \<Rightarrow> http_parser \<Rightarrow> bool" where
  "line_frame p q \<longleftrightarrow> (pstate q = pstate p \<or> pstate q = Parse_Error)
     \<and> bodyBytesRead q = bodyBytesRead p \<and> mRequestBody (mCtx q) = mRequestBody (mCtx p)
     \<and> mHeaders (mCtx q) = mHeaders (mCtx p) \<and> cookies (mCtx q) = cookies (mCtx p)
     \<and> (omap_wf (mQueryMap (mCtx p)) \<longrightarrow> omap_wf (mQueryMap (mCtx q)))"

lemma ParsePathLine_wf: "omap_wf m \<Longrightarrow> omap_wf (snd (ParsePathLine line path m))"
  using omapi.invar_insert_all [of m]
  by (auto simp: ParsePathLine_def omapi.insert_all_def Let_def split: option.splits)

lemma request_word_frame: "request_word p k cur = Some q \<Longrightarrow> line_frame p q"
  using ParsePathLine_wf [of "mQueryMap (mCtx p)" cur cur]
  by (auto simp: request_word_def line_frame_def parseQuery_def Let_def split: if_splits prod.splits)

lemma line_frame_trans: "line_frame p q \<Longrightarrow> line_frame q r \<Longrightarrow> line_frame p r"
  by (auto simp: line_frame_def)

lemma line_frame_error: "line_frame p q \<Longrightarrow> line_frame p (q\<lparr>pstate := Parse_Error\<rparr>)"
  by (auto simp: line_frame_def)

lemma line_frame_refl: "line_frame p p"
  by (simp add: line_frame_def)

lemma request_words_frame: "line_frame p (request_words p k cur line)"
proof (induction p k cur line rule: request_words.induct)
  case (1 p k cur)
  then show ?case
    using request_word_frame [of p k cur]
    by (auto simp: line_frame_error line_frame_refl split: option.split)
next
  case (2 p k cur c cs)
  show ?case
  proof (cases "c = CHR '' ''")
    case True
    then show ?thesis
      using 2(1) request_word_frame [of p k cur]
      by (cases "request_word p k cur")
        (auto simp: line_frame_error line_frame_refl intro: line_frame_trans)
  next
    case False
    then show ?thesis using 2(2) by simp
  qed
qed

text \<open>The cookies move from the headers to the cookie list.\<close>

lemma fold_cookies: "foldl parseCookies p ls
    = p\<lparr>mCtx := (mCtx p)\<lparr>cookies := cookies (mCtx p) @ map FCookie_of ls\<rparr>\<rparr>"
  by (induction ls arbitrary: p) (simp_all add: parseCookies_def)

lemma take_cookies_eq: "take_cookies p = p\<lparr>mCtx := (mCtx p)
    \<lparr>cookies := cookies (mCtx p) @ map FCookie_of (mm_equal_range (mHeaders (mCtx p)) ''Cookie''),
     mHeaders := mm_erase (mHeaders (mCtx p)) ''Cookie''\<rparr>\<rparr>"
  by (simp add: take_cookies_def fold_cookies)

lemma find_erase_other: "j \<noteq> k \<Longrightarrow> mm_find (mm_erase m k) j = mm_find m j"
  by (simp add: mm_find_equal_range)

lemma find_erase_same: "mm_find (mm_erase m k) k = None"
  by (simp add: mm_find_equal_range)

lemma end_of_headers_inv:
  assumes "parser_inv p" "pstate p = Headers" "end_of_headers p = (st, p')"
  shows "parser_inv p'"
  using assms
  by (auto simp: end_of_headers_def take_cookies_eq parser_inv_def Let_def declared_length_def stoul_def
      mm_wf_erase find_erase_other find_erase_same split: option.splits if_splits sum.splits)

lemma parse_byte_inv:
  assumes inv: "parser_inv p" and st: "parse_byte p c = (st, p')"
  shows "parser_inv p'"
proof (cases "pstate p")
  case RequestLine
  let ?l = "take (length (lineBuf p @ [c]) - 2) (lineBuf p @ [c])"
  have "line_frame (p\<lparr>lineBuf := ?l\<rparr>) (parseRequestLine (p\<lparr>lineBuf := ?l\<rparr>) ?l)"
    unfolding parseRequestLine_def by (rule request_words_frame)
  with RequestLine inv st show ?thesis
    by (auto simp: parse_byte_def parser_inv_def line_frame_def Let_def split: if_splits)
next
  case Headers
  have "parser_inv (p\<lparr>lineBuf := l\<rparr>)" for l
    using inv by (simp add: parser_inv_def split: parse_state.splits)
  with Headers inv st show ?thesis
    using end_of_headers_inv [of "p\<lparr>lineBuf := CRLF\<rparr>" st p']
    by (auto simp: parse_byte_def parser_inv_def header_line_def add_header_def Let_def mm_wf_insert
        split: if_splits option.splits)
next
  case Body
  with inv st show ?thesis
    by (auto simp: parse_byte_def parser_inv_def declared_length_def Let_def split: if_splits)
qed (use inv st in \<open>auto simp: parse_byte_def\<close>)

lemma parse_chars_inv: "parser_inv p \<Longrightarrow> parse_chars p s = (r, p', s') \<Longrightarrow> parser_inv p'"
proof (induction p s rule: parse_chars.induct)
  case (2 p c s)
  obtain st q where st: "parse_byte p c = (st, q)" by fastforce
  show ?case
  proof (cases "c = NUL \<or> finished p")
    case True
    then show ?thesis using 2(2,3) by auto
  next
    case False
    then show ?thesis
      using 2(1) [OF False st [symmetric]] 2(2,3) st parse_byte_inv [OF 2(2) st]
      by (cases st) auto
  qed
qed auto

lemma http_parse_inv:
  assumes "fb_wf b" "parser_inv p" "http_parse p b = (r, p', b')"
  shows "parser_inv p' \<and> fb_wf b'"
  using parse_loop_refines [OF assms(1), of p] parse_chars_inv [OF assms(2), of "readable b"] assms(3)
  by (auto simp: http_parse_def) (metis prod.collapse)

lemma http_parse_verdict:
  "fb_wf b \<Longrightarrow> http_parse p b = (Inr v, p', b') \<Longrightarrow> v \<longleftrightarrow> pstate p' = Done"
  using parse_loop_refines [of b p] parse_chars_verdict [of p "readable b" v p']
  by (auto simp: http_parse_def) (metis prod.collapse)+

lemma feed_inv:
  assumes "fb_wf b" "fb_room b (length (concat ds))" "parser_inv p" "feed p b ds = (r, p', b')"
  shows "parser_inv p' \<and> (\<forall>v. r = Inr v \<longrightarrow> (v \<longleftrightarrow> pstate p' = Done))"
  using assms
proof (induction ds arbitrary: p b)
  case (Cons d ds)
  have room: "fb_room b (length d)" using Cons.prems by (simp add: fb_room_def)
  note R = Read_correct [OF Cons.prems(1) room] Read_room [OF Cons.prems(1) room]
  let ?b = "snd (fb_Read b (Some d))"
  have wf: "fb_wf ?b" using R by simp
  obtain r1 p1 b1 where st: "http_parse p ?b = (r1, p1, b1)" by (metis prod_cases3)
  have inv: "parser_inv p1 \<and> fb_wf b1" by (rule http_parse_inv [OF wf Cons.prems(3) st])
  have "m_buffer b1 = m_buffer ?b"
    using parse_loop_refines [OF wf, of p] st by (auto simp: http_parse_def)
  then have room1: "fb_room b1 (length (concat ds))"
    using R Cons.prems(2) by (simp add: fb_room_def)
  show ?case
  proof (cases "r1 = Inr False \<and> \<not> finished p1")
    case True
    then show ?thesis using Cons.IH [of b1 p1] inv room1 Cons.prems(4) st by simp
  next
    case False
    then show ?thesis using Cons.prems(4) st inv http_parse_verdict [OF wf, of p _ p1 b1] by auto
  qed
qed auto

section \<open>Reading lines\<close>

definition in_lines :: "http_parser \<Rightarrow> bool" where
  "in_lines p \<longleftrightarrow> pstate p = RequestLine \<or> pstate p = Headers"

definition line_text :: "string \<Rightarrow> bool" where
  "line_text l \<longleftrightarrow> LF \<notin> set l \<and> NUL \<notin> set l"

lemma ends_crlf_snoc: "ends_crlf (l @ [c]) \<longleftrightarrow> c = LF \<and> l \<noteq> [] \<and> last l = CR"
  by (cases l rule: rev_cases) (auto simp: ends_crlf_def nth_append)

lemma parse_byte_in_line:
  "in_lines p \<Longrightarrow> c \<noteq> LF \<Longrightarrow> parse_byte p c = (Continue, p\<lparr>lineBuf := lineBuf p @ [c]\<rparr>)"
  by (auto simp: in_lines_def parse_byte_def ends_crlf_snoc Let_def)

lemma read_line:
  "in_lines p \<Longrightarrow> line_text l \<Longrightarrow>
     parse_chars p (l @ s) = parse_chars (p\<lparr>lineBuf := lineBuf p @ l\<rparr>) s"
proof (induction l arbitrary: p)
  case (Cons c l)
  then have "\<not> finished p" "c \<noteq> NUL" "c \<noteq> LF" "line_text l"
    by (auto simp: in_lines_def finished_def line_text_def)
  then show ?case
    using Cons.prems Cons.IH [of "p\<lparr>lineBuf := lineBuf p @ [c]\<rparr>"]
    by (simp add: parse_byte_in_line in_lines_def)
qed simp

lemma read_crlf:
  assumes "in_lines p" "line_text l"
  shows "parse_chars p (l @ CR # LF # s) =
    (case parse_byte (p\<lparr>lineBuf := lineBuf p @ l @ [CR]\<rparr>) LF of
       (Continue, p') \<Rightarrow> parse_chars p' s
     | (Return r, p') \<Rightarrow> (Inr r, p', s)
     | (Throw e, p') \<Rightarrow> (Inl e, p', s))"
proof -
  have "line_text (l @ [CR])" using assms(2) by (simp add: line_text_def)
  from read_line [OF assms(1) this, of "LF # s"] assms(1) show ?thesis
    by (auto simp: in_lines_def finished_def)
qed

subsection \<open>The request line\<close>

lemma request_words_word:
  "CHR '' '' \<notin> set w \<Longrightarrow> request_words p k cur (w @ CHR '' '' # rest) =
     (case request_word p k (cur @ w) of
        None \<Rightarrow> p\<lparr>pstate := Parse_Error\<rparr>
      | Some p' \<Rightarrow> request_words p' (k + 1) [] rest)"
  by (induction w arbitrary: cur) auto

lemma request_words_last:
  "CHR '' '' \<notin> set w \<Longrightarrow> request_words p k cur w = request_words p k (cur @ w) []"
  by (induction w arbitrary: cur) auto

lemma method_text: "CHR '' '' \<notin> set (methodToStr m) \<and> line_text (methodToStr m)"
  by (cases m) (simp_all add: line_text_def)

definition request_target :: "http_context \<Rightarrow> http_method \<Rightarrow> string \<Rightarrow> http_context" where
  "request_target ctx m target =
     ctx\<lparr>mMethod := m, mRequestPath := fst (ParsePathLine target target (mQueryMap ctx)),
         mHttpVersion := Http11, mQueryMap := snd (ParsePathLine target target (mQueryMap ctx))\<rparr>"

lemma parseRequestLine_ok:
  assumes "m \<noteq> M_Invalid" "CHR '' '' \<notin> set target"
  shows "parseRequestLine p (methodToStr m @ CHR '' '' # target @ '' HTTP/1.1'')
    = p\<lparr>mCtx := request_target (mCtx p) m target\<rparr>"
proof -
  let ?p1 = "p\<lparr>mCtx := (mCtx p)\<lparr>mMethod := m\<rparr>\<rparr>"
  let ?p2 = "parseQuery (?p1\<lparr>mCtx := (mCtx ?p1)\<lparr>mRequestPath := target\<rparr>\<rparr>) target"
  have "parseRequestLine p (methodToStr m @ CHR '' '' # target @ '' HTTP/1.1'')
      = request_words ?p1 1 [] (target @ CHR '' '' # ''HTTP/1.1'')"
    using assms(1) method_text [of m]
    by (simp add: parseRequestLine_def request_words_word request_word_def)
  also have "\<dots> = request_words ?p2 2 [] ''HTTP/1.1''"
    using request_words_word [OF assms(2), of ?p1 1 "[]" "''HTTP/1.1''"]
    by (simp add: request_word_def one_add_one [symmetric] del: one_add_one)
  also have "\<dots> = ?p2\<lparr>mCtx := (mCtx ?p2)\<lparr>mHttpVersion := Http11\<rparr>\<rparr>"
    by (subst request_words_last) (simp_all add: request_word_def)
  also have "\<dots> = p\<lparr>mCtx := request_target (mCtx p) m target\<rparr>"
    by (simp add: parseQuery_def request_target_def Let_def split: prod.split)
  finally show ?thesis .
qed

subsection \<open>Header lines\<close>

definition trimmed :: "string \<Rightarrow> bool" where
  "trimmed v \<longleftrightarrow> v = [] \<or> (hd v \<noteq> CHR '' '' \<and> last v \<noteq> CHR '' '')"

lemma trimSpaces_trimmed:
  assumes "trimmed v"
  shows "trimSpaces (CHR '' '' # v) = v"
proof -
  let ?sp = "\<lambda>c. c = CHR '' ''"
  have "dropWhile ?sp v = v" "dropWhile ?sp (rev v) = rev v"
    using assms by (auto simp: trimmed_def dropWhile_eq_self_iff hd_rev)
  then show ?thesis by (simp add: trimSpaces_def)
qed

definition header_ok :: "string \<times> string \<Rightarrow> bool" where
  "header_ok h \<longleftrightarrow> line_text (fst h) \<and> line_text (snd h) \<and> CHR '':'' \<notin> set (fst h) \<and> trimmed (snd h)"

definition header_text :: "string \<times> string \<Rightarrow> string" where
  "header_text h = fst h @ '': '' @ snd h @ CRLF"

lemma read_header:
  assumes "pstate p = Headers" "lineBuf p = []" "header_ok h"
  shows "parse_chars p (header_text h @ s) = parse_chars (add_header p (fst h) (snd h)) s"
proof -
  obtain k v where h: "h = (k, v)" by fastforce
  let ?l = "k @ '': '' @ v"
  let ?q = "p\<lparr>lineBuf := ?l @ [CR, LF]\<rparr>"
  have lt: "in_lines p" "line_text ?l"
    using assms by (auto simp: in_lines_def header_ok_def line_text_def h)
  have find: "str_find (?l @ [CR, LF]) CHR '':'' 0 = Some (length k)"
    using assms(3) str_find_append [of "CHR '':''" k "CHR '' '' # v @ [CR, LF]"] by (simp add: header_ok_def h)
  have line: "take (length (?l @ [CR, LF]) - 2) (?l @ [CR, LF]) = ?l" by simp
  have trim: "trimSpaces (drop (length k + 1) ?l) = v"
    using assms(3) trimSpaces_trimmed [of v] by (simp add: header_ok_def h)
  have "header_line ?q = (add_header ?q k v)\<lparr>lineBuf := []\<rparr>"
  proof -
    have "lineBuf ?q = ?l @ [CR, LF]" by simp
    then show ?thesis
      unfolding header_line_def Let_def
      by (simp only: find line option.case trim) (simp add: substr_def)
  qed
  then have "parse_byte (p\<lparr>lineBuf := lineBuf p @ ?l @ [CR]\<rparr>) LF = (Continue, add_header p k v)"
    using assms by (simp add: parse_byte_def ends_crlf_snoc [of "?l @ [CR]" LF, simplified] Let_def add_header_def)
  with read_crlf [OF lt, of s] show ?thesis by (simp add: header_text_def h)
qed

lemma read_headers:
  assumes "pstate p = Headers" "lineBuf p = []" "\<forall>h \<in> set hs. header_ok h"
  shows "parse_chars p (concat (map header_text hs) @ s)
    = parse_chars (foldl (\<lambda>p h. add_header p (fst h) (snd h)) p hs) s"
  using assms
proof (induction hs arbitrary: p)
  case (Cons h hs)
  then show ?case
    using read_header [of p h "concat (map header_text hs) @ s"]
    by (simp add: add_header_def)
qed simp

lemma fold_add_header: "foldl (\<lambda>p h. add_header p (fst h) (snd h)) p hs
    = p\<lparr>mCtx := (mCtx p)\<lparr>mHeaders := foldl (\<lambda>m h. mm_insert m (fst h) (snd h)) (mHeaders (mCtx p)) hs\<rparr>\<rparr>"
  by (induction hs arbitrary: p) (simp_all add: add_header_def)

subsection \<open>The body\<close>

lemma read_body:
  assumes "pstate p = Body" "NUL \<notin> set body" "body \<noteq> []" "contentLength p = bodyBytesRead p + length body"
  shows "parse_chars p (body @ s) = parse_chars (p\<lparr>pstate := Done, bodyBytesRead := contentLength p,
    mCtx := (mCtx p)\<lparr>mRequestBody := mRequestBody (mCtx p) @ body\<rparr>\<rparr>) s"
  using assms
proof (induction body arbitrary: p)
  case (Cons c body)
  let ?p1 = "p\<lparr>bodyBytesRead := bodyBytesRead p + 1,
     mCtx := (mCtx p)\<lparr>mRequestBody := mRequestBody (mCtx p) @ [c]\<rparr>\<rparr>"
  have c: "c \<noteq> NUL" "\<not> finished p" using Cons.prems by (auto simp: finished_def)
  show ?case
  proof (cases "body = []")
    case True
    with c Cons.prems show ?thesis by (cases p) (simp add: parse_byte_def Let_def)
  next
    case False
    then have "parse_byte p c = (Continue, ?p1)"
      using Cons.prems by (simp add: parse_byte_def Let_def)
    with c False Cons.prems Cons.IH [of ?p1] show ?thesis by (cases p) simp
  qed
qed simp

subsection \<open>A whole request\<close>

definition request_text :: "http_method \<Rightarrow> string \<Rightarrow> (string \<times> string) list \<Rightarrow> string \<Rightarrow> string" where
  "request_text m target hs body =
     methodToStr m @ CHR '' '' # target @ '' HTTP/1.1'' @ CRLF @ concat (map header_text hs) @ CRLF @ body"

definition all_headers :: "(string \<times> string) list \<Rightarrow> (string, string) omap" where
  "all_headers hs = foldl (\<lambda>m h. mm_insert m (fst h) (snd h)) [] hs"

lemma request_line_end:
  assumes "pstate p = RequestLine" "parseRequestLine (p\<lparr>lineBuf := l\<rparr>) l = q" "pstate q \<noteq> Parse_Error"
  shows "parse_byte (p\<lparr>lineBuf := l @ [CR]\<rparr>) LF = (Continue, q\<lparr>lineBuf := [], pstate := Headers\<rparr>)"
  using assms ends_crlf_snoc [of "l @ [CR]" LF] by (simp add: parse_byte_def Let_def)

lemma read_request_head:
  assumes fresh: "fresh p" and m: "m \<noteq> M_Invalid" and t: "CHR '' '' \<notin> set target" "line_text target"
    and hs: "\<forall>h \<in> set hs. header_ok h"
  shows "\<exists>p2. pstate p2 = Headers \<and> bodyBytesRead p2 = 0
    \<and> mCtx p2 = (request_target (mCtx p) m target)\<lparr>mHeaders := all_headers hs\<rparr>
    \<and> (\<forall>body. parse_chars p (request_text m target hs body) =
       (case end_of_headers p2 of
          (Continue, p') \<Rightarrow> parse_chars p' body
        | (Return r, p') \<Rightarrow> (Inr r, p', body)
        | (Throw e, p') \<Rightarrow> (Inl e, p', body)))"
proof -
  let ?line = "methodToStr m @ CHR '' '' # target @ '' HTTP/1.1''"
  let ?ctx = "request_target (mCtx p) m target"
  let ?rest = "\<lambda>body. concat (map header_text hs) @ CR # LF # body"
  let ?p1 = "p\<lparr>pstate := Headers, mCtx := ?ctx\<rparr>"
  let ?p2 = "p\<lparr>pstate := Headers, mCtx := ?ctx\<lparr>mHeaders := all_headers hs\<rparr>, lineBuf := CRLF\<rparr>"
  have p: "pstate p = RequestLine" "lineBuf p = []" "bodyBytesRead p = 0" "mHeaders (mCtx p) = []"
    using fresh by (auto simp: fresh_iff FHttpParser_new_def new_context_def)
  have lt: "in_lines p" "line_text ?line"
    using p t method_text [of m] by (auto simp: in_lines_def line_text_def)
  have "parse_byte (p\<lparr>lineBuf := ?line @ [CR]\<rparr>) LF = (Continue, ?p1)"
    using request_line_end [OF p(1) parseRequestLine_ok [OF m t(1), of "p\<lparr>lineBuf := ?line\<rparr>"]] p
    by (cases p) simp
  then have "parse_chars p (request_text m target hs body) = parse_chars ?p1 (?rest body)" for body
    using read_crlf [OF lt, of "?rest body"] p by (simp add: request_text_def)
  moreover have "parse_chars ?p1 (?rest body)
      = parse_chars (foldl (\<lambda>p h. add_header p (fst h) (snd h)) ?p1 hs) (CR # LF # body)" for body
    by (intro read_headers) (simp_all add: p hs)
  moreover have "foldl (\<lambda>p h. add_header p (fst h) (snd h)) ?p1 hs = ?p1\<lparr>mCtx := ?ctx\<lparr>mHeaders := all_headers hs\<rparr>\<rparr>"
    by (simp add: fold_add_header all_headers_def request_target_def p)
  moreover have "parse_chars (?p1\<lparr>mCtx := ?ctx\<lparr>mHeaders := all_headers hs\<rparr>\<rparr>) (CR # LF # body) =
       (case end_of_headers ?p2 of
          (Continue, p') \<Rightarrow> parse_chars p' body
        | (Return r, p') \<Rightarrow> (Inr r, p', body)
        | (Throw e, p') \<Rightarrow> (Inl e, p', body))" for body
    by (simp add: finished_def p parse_byte_def ends_crlf_def Let_def)
  ultimately show ?thesis by (intro exI [of _ ?p2]) (simp add: p)
qed

text \<open>
  C5. A complete request is consistent, however it arrived: when the parser reports success it is in
  the state Done, the body has exactly the length that Content-Length declares (none without the
  header), the cookies have left the header map, and header and query map are sorted.
\<close>
theorem complete_request_consistent:
  assumes "fresh p" "fb_wf b" "fb_room b (length (concat ds))" "feed p b ds = (Inr True, p', b')"
  shows "pstate p' = Done \<and> length (mRequestBody (mCtx p')) = declared_length (mCtx p')
    \<and> ctx_getHeader (mCtx p') ''Cookie'' = None
    \<and> mm_wf (mHeaders (mCtx p')) \<and> omap_wf (mQueryMap (mCtx p'))"
proof -
  have "parser_inv p' \<and> pstate p' = Done"
    using feed_inv [OF assms(2,3) fresh_inv [OF assms(1)] assms(4)] by auto
  then show ?thesis by (auto simp: parser_inv_def ctx_getHeader_def)
qed

lemma equal_range_foldl:
  "mm_wf m \<Longrightarrow> mm_equal_range (foldl (\<lambda>m h. mm_insert m (fst h) (snd h)) m hs) k
     = mm_equal_range m k @ map snd (filter (\<lambda>h. fst h = k) hs)"
  by (induction hs arbitrary: m) (simp_all add: mm_wf_insert)

lemma find_all_headers: "mm_find (all_headers hs) k = map_of hs k"
proof -
  have "mm_equal_range (all_headers hs) k = map snd (filter (\<lambda>h. fst h = k) hs)"
    by (simp add: all_headers_def equal_range_foldl mm_wf_def) (simp add: mm_equal_range_def)
  moreover have "map_of hs k = (case map snd (filter (\<lambda>h. fst h = k) hs) of [] \<Rightarrow> None | v # _ \<Rightarrow> Some v)"
    by (induction hs) auto
  ultimately show ?thesis by (simp add: mm_find_equal_range)
qed

text \<open>
  C6. A declared length that is too large is not answered with an error: whatever the method, the target,
  the other headers of the HTTP/1.1 request and the bytes behind its head are, \<open>std::stoul\<close>
  throws out of \<open>parse\<close> for a Content-Length of 2^64 or more, and \<open>reserve\<close> for one beyond the largest
  string. The first header of that name counts; \<open>parse\<close> does not catch either exception.
\<close>
theorem oversized_length_throws:
  assumes "fresh p" "fb_wf b" "m \<noteq> M_Invalid" "CHR '' '' \<notin> set target" "line_text target"
    and "\<forall>h \<in> set hs. header_ok h" "map_of hs ''Content-Length'' = Some v"
    and "isAllDigits v" "string_max_size < dec_value v"
    and "readable b = request_text m target hs body"
  shows "fst (http_parse p b) = Inl (if 2 ^ 64 \<le> dec_value v then Out_of_range else Length_error)"
proof -
  let ?e = "if 2 ^ 64 \<le> dec_value v then Out_of_range else Length_error"
  have v: "v \<noteq> []" using assms(8) by (simp add: isAllDigits_def)
  obtain p2 where p2: "mCtx p2 = (request_target (mCtx p) m target)\<lparr>mHeaders := all_headers hs\<rparr>"
      "parse_chars p (request_text m target hs body) =
       (case end_of_headers p2 of
          (Continue, p') \<Rightarrow> parse_chars p' body
        | (Return r, p') \<Rightarrow> (Inr r, p', body)
        | (Throw e, p') \<Rightarrow> (Inl e, p', body))"
    using read_request_head [OF assms(1,3-6)] by blast
  have "fst (end_of_headers p2) = Throw ?e"
    using assms(7-9) v by (simp add: end_of_headers_def p2(1) find_all_headers stoul_def Let_def)
  then have "fst (parse_chars p (request_text m target hs body)) = Inl ?e"
    unfolding p2(2) by (cases "end_of_headers p2") simp
  with parse_loop_refines [OF assms(2), of p] show ?thesis
    by (auto simp: http_parse_def assms(10))
qed

lemma huge_length: "isAllDigits ''99999999999999999999'' \<and> 2 ^ 64 \<le> dec_value ''99999999999999999999''"
  by (simp add: isAllDigits_def isdigit_code dec_value_def digit_val_def)

definition huge_headers :: "(string \<times> string) list" where
  "huge_headers = [(''Host'', ''h''), (''Content-Length'', ''99999999999999999999'')]"

theorem oversized_length_throws_witness:
  "fst (http_parse (FHttpParser_new M_GET Http11) (fb_Append (FBuffer_new 0)
     (request_text M_GET ''/'' huge_headers []))) = Inl Out_of_range"
proof -
  let ?t = "request_text M_GET ''/'' huge_headers []"
  have "length ?t = 65"
    by (simp add: request_text_def header_text_def huge_headers_def FHttpDef.methodToStr.simps)
  then have "fb_room (FBuffer_new 0) (length ?t)" by (simp add: fb_room_def FBuffer_new_def)
  then have b: "fb_wf (fb_Append (FBuffer_new 0) ?t)" "readable (fb_Append (FBuffer_new 0) ?t) = ?t"
    using Append_correct [of "FBuffer_new 0" ?t] new_wf [of 0] by simp_all
  have "\<forall>h \<in> set huge_headers. header_ok h"
    by (simp add: huge_headers_def header_ok_def line_text_def trimmed_def)
  moreover have "string_max_size < dec_value ''99999999999999999999''"
    using huge_length by (simp add: string_max_size_def)
  ultimately show ?thesis
    using oversized_length_throws [OF fresh_new b(1), of M_GET "''/''" huge_headers "''99999999999999999999''" "[]"] b(2) huge_length
    by (simp add: line_text_def) (simp add: huge_headers_def)
qed

theorem complete_request_consistent_witness:
  "pstate (fst (snd (feed (FHttpParser_new M_GET Http11) (FBuffer_new 0) [''GET / HTTP/1.1'' @ CRLF @ CRLF]))) = Done"
proof -
  let ?t = "''GET / HTTP/1.1'' @ CRLF @ CRLF"
  let ?f = "feed (FHttpParser_new M_GET Http11) (FBuffer_new 0) [?t]"
  have "fresh (FHttpParser_new M_GET Http11)" "fb_wf (FBuffer_new 0)" "fb_room (FBuffer_new 0) (length (concat [?t]))"
    using new_wf [of 0] fresh_new by (simp_all add: fb_room_def FBuffer_new_def)
  moreover have "fst ?f = Inr True" by code_simp
  ultimately show ?thesis
    using complete_request_consistent [of "FHttpParser_new M_GET Http11" "FBuffer_new 0" "[?t]" "fst (snd ?f)" "snd (snd ?f)"]
    by (metis prod.collapse)
qed

end
