(* ===== verification/FHttpMessage.thy ===== *)
theory FHttpMessage
  imports FHttpParser
begin

text \<open>
  Requests and responses as values: \<open>FHttpRequest\<close> (\<open>FHttpRequest.cpp\<close>), the builder of request texts
  (\<open>FHttpRequestBuilder.h\<close>), which the HTTP client of the image reader and the HTTP/2 push code use,
  and \<open>FHttpResponse\<close> (\<open>FHttpResponse.h\<close>, \<open>FHttpRespone.cpp\<close>) with its printer.
\<close>

section \<open>The request builder\<close>

record request_builder =
  httpVer :: http_version
  method_of :: http_method
  url_of :: string
  headers_of :: "(string, string) omap"
  body_of :: string

text \<open>The argument is the indeterminate method.\<close>

definition RequestBuilder_new :: "http_method \<Rightarrow> request_builder" where
  "RequestBuilder_new m = \<lparr>httpVer = Http11, method_of = m, url_of = [], headers_of = [], body_of = []\<rparr>"

definition rb_setVersion :: "request_builder \<Rightarrow> http_version \<Rightarrow> request_builder" where
  "rb_setVersion rb v = rb\<lparr>httpVer := v\<rparr>"

definition rb_setMethod :: "request_builder \<Rightarrow> http_method \<Rightarrow> request_builder" where
  "rb_setMethod rb m = rb\<lparr>method_of := m\<rparr>"

definition rb_setUrl :: "request_builder \<Rightarrow> string \<Rightarrow> request_builder" where
  "rb_setUrl rb u = rb\<lparr>url_of := u\<rparr>"

definition rb_addHeader :: "request_builder \<Rightarrow> string \<Rightarrow> string \<Rightarrow> request_builder" where
  "rb_addHeader rb k v = rb\<lparr>headers_of := omap_assign (headers_of rb) k v\<rparr>"

definition rb_setBody :: "request_builder \<Rightarrow> string \<Rightarrow> request_builder" where
  "rb_setBody rb body = rb\<lparr>body_of := body\<rparr>"

text \<open>The out-parameter keeps its value when the header is absent.\<close>

definition rb_findHeader :: "request_builder \<Rightarrow> string \<Rightarrow> string \<Rightarrow> string" where
  "rb_findHeader rb name out = (case omap_find (headers_of rb) name of Some v \<Rightarrow> v | None \<Rightarrow> out)"

definition rb_removeHeader :: "request_builder \<Rightarrow> string \<Rightarrow> request_builder" where
  "rb_removeHeader rb name = rb\<lparr>headers_of := omap_erase (headers_of rb) name\<rparr>"

definition rb_build :: "request_builder \<Rightarrow> string" where
  "rb_build rb =
     methodToStr (method_of rb) @ '' '' @ url_of rb @ '' HTTP/1.1'' @ CRLF
     @ concat (map (\<lambda>h. fst h @ '': '' @ snd h @ CRLF) (headers_of rb))
     @ ''Content-Length: '' @ to_string (length (body_of rb)) @ CRLF
     @ CRLF
     @ body_of rb"

text \<open>\<open>traversalHeaders\<close> ignores the callback's answer: it visits every header in key order.\<close>

definition rb_traversalHeaders :: "request_builder \<Rightarrow> (string \<times> string \<Rightarrow> 's \<Rightarrow> 's) \<Rightarrow> 's \<Rightarrow> 's" where
  "rb_traversalHeaders rb func s = foldl (\<lambda>s h. func h s) s (headers_of rb)"

section \<open>Requests\<close>

record http_request =
  mHttpCtx :: http_context
  mIsValid :: bool

definition FHttpRequest_of_parser :: "http_parser \<Rightarrow> http_request" where
  "FHttpRequest_of_parser p = \<lparr>mHttpCtx = mCtx p, mIsValid = (pstate p = Done)\<rparr>"

definition FHttpRequest_of_builder :: "request_builder \<Rightarrow> http_request" where
  "FHttpRequest_of_builder rb =
     \<lparr>mHttpCtx = (new_context (method_of rb) Http2)
        \<lparr>mHeaders := rb_traversalHeaders rb (\<lambda>h m. mm_insert m (fst h) (snd h)) [],
         mRequestPath := url_of rb\<rparr>,
      mIsValid = True\<rparr>"

text \<open>The constructor from a finished HTTP/2 stream, given the members of \<open>FHttp2Parser\<close> it takes.\<close>

definition FHttpRequest_of_stream ::
  "(string, string) omap \<Rightarrow> http_method \<Rightarrow> string \<Rightarrow> string \<Rightarrow> (string, string) omap \<Rightarrow> http_request" where
  "FHttpRequest_of_stream headers m path body query =
     \<lparr>mHttpCtx = \<lparr>mMethod = m, mRequestPath = path, mHttpVersion = Http2, mRequestBody = body,
        mQueryMap = query, mHeaders = mm_erase headers ''cookie'',
        cookies = map FCookie_of (mm_equal_range headers ''cookie'')\<rparr>,
      mIsValid = True\<rparr>"

definition rq_getHeader :: "http_request \<Rightarrow> string \<Rightarrow> string option" where
  "rq_getHeader rq key = ctx_getHeader (mHttpCtx rq) key"

definition rq_getQuery :: "http_request \<Rightarrow> string \<Rightarrow> string option" where
  "rq_getQuery rq key = ctx_getQuery (mHttpCtx rq) key"

definition rq_eraseHeader :: "http_request \<Rightarrow> string \<Rightarrow> http_request" where
  "rq_eraseHeader rq key =
     rq\<lparr>mHttpCtx := (mHttpCtx rq)\<lparr>mHeaders := mm_erase (mHeaders (mHttpCtx rq)) key\<rparr>\<rparr>"

definition rq_getCookieSize :: "http_request \<Rightarrow> nat" where
  "rq_getCookieSize rq = length (cookies (mHttpCtx rq))"

text \<open>\<open>vector::at\<close> throws \<open>std::out_of_range\<close>.\<close>

definition rq_getCookie :: "http_request \<Rightarrow> nat \<Rightarrow> std_error + fcookie" where
  "rq_getCookie rq i =
     (if i < length (cookies (mHttpCtx rq)) then Inr (cookies (mHttpCtx rq) ! i) else Inl Out_of_range)"

abbreviation rq_getMethod :: "http_request \<Rightarrow> http_method" where
  "rq_getMethod rq \<equiv> mMethod (mHttpCtx rq)"

abbreviation rq_getPath :: "http_request \<Rightarrow> string" where
  "rq_getPath rq \<equiv> mRequestPath (mHttpCtx rq)"

abbreviation rq_getRequestBody :: "http_request \<Rightarrow> string" where
  "rq_getRequestBody rq \<equiv> mRequestBody (mHttpCtx rq)"

definition rq_traverseHeaders :: "http_request \<Rightarrow> (string \<times> string \<Rightarrow> 's \<Rightarrow> bool \<times> 's) \<Rightarrow> 's \<Rightarrow> 's" where
  "rq_traverseHeaders rq func s = traverse func (mHeaders (mHttpCtx rq)) s"

section \<open>Responses\<close>

record http_response =
  mVersion :: http_version
  mStatus :: status_code
  rsHeaders :: "(string, string) omap"
  mBody :: string
  mCookies :: "fcookie list"

definition FHttpResponse_new :: http_response where
  "FHttpResponse_new = \<lparr>mVersion = Http11, mStatus = S200, rsHeaders = [], mBody = [], mCookies = []\<rparr>"

definition rs_getHeader :: "http_response \<Rightarrow> string \<Rightarrow> string option" where
  "rs_getHeader rs key = mm_find (rsHeaders rs) key"

definition rs_setBody :: "http_response \<Rightarrow> string \<Rightarrow> http_response" where
  "rs_setBody rs body = rs\<lparr>mBody := body\<rparr>"

definition rs_addHeader :: "http_response \<Rightarrow> string \<Rightarrow> string \<Rightarrow> http_response" where
  "rs_addHeader rs key val = rs\<lparr>rsHeaders := mm_insert (rsHeaders rs) key val\<rparr>"

text \<open>\<open>itor->second = type\<close> at the entry that \<open>find\<close> returns.\<close>

fun assign_first :: "('k \<times> 'v) list \<Rightarrow> 'k \<Rightarrow> 'v \<Rightarrow> ('k \<times> 'v) list" where
  "assign_first [] k v = []"
| "assign_first ((x, w) # m) k v = (if x = k then (x, v) # m else (x, w) # assign_first m k v)"

definition rs_setContentType :: "http_response \<Rightarrow> string \<Rightarrow> http_response" where
  "rs_setContentType rs type =
     (case mm_find (rsHeaders rs) ''Content-Type'' of
        Some _ \<Rightarrow> rs\<lparr>rsHeaders := assign_first (rsHeaders rs) ''Content-Type'' type\<rparr>
      | None \<Rightarrow> rs\<lparr>rsHeaders := mm_insert (rsHeaders rs) ''Content-Type'' type\<rparr>)"

definition rs_setStatusCode :: "http_response \<Rightarrow> status_code \<Rightarrow> http_response" where
  "rs_setStatusCode rs c = rs\<lparr>mStatus := c\<rparr>"

definition rs_setHttpVersion :: "http_response \<Rightarrow> http_version \<Rightarrow> http_response" where
  "rs_setHttpVersion rs v = rs\<lparr>mVersion := v\<rparr>"

text \<open>\<open>pushCookie\<close>, \<open>emplaceCookie\<close> and both \<open>addCookie\<close> append.\<close>

definition rs_addCookie :: "http_response \<Rightarrow> fcookie \<Rightarrow> http_response" where
  "rs_addCookie rs c = rs\<lparr>mCookies := mCookies rs @ [c]\<rparr>"

definition rs_traversalHeader :: "http_response \<Rightarrow> (string \<times> string \<Rightarrow> 's \<Rightarrow> bool \<times> 's) \<Rightarrow> 's \<Rightarrow> 's" where
  "rs_traversalHeader rs func s = traverse func (rsHeaders rs) s"

definition rs_toString :: "http_response \<Rightarrow> string" where
  "rs_toString rs =
     versionToStr (mVersion rs) @ '' '' @ statusCodeToStr (mStatus rs) @ CRLF
     @ concat (map (\<lambda>h. fst h @ '': '' @ snd h @ CRLF) (rsHeaders rs))
     @ concat (map (\<lambda>c. if ck_is_empty c then [] else outSetCookie c @ CRLF) (mCookies rs))
     @ ''Content-Length: '' @ to_string (length (mBody rs)) @ CRLF
     @ CRLF
     @ mBody rs @ CRLF"

lemma setContentType_find:
  "mm_find (rsHeaders (rs_setContentType rs t)) ''Content-Type'' = Some t"
proof -
  have "mm_find m k \<noteq> None \<Longrightarrow> mm_find (assign_first m k v) k = Some v" for m :: "(string, string) omap" and k v
    by (induction m k v rule: assign_first.induct) (auto simp: mm_find_def)
  moreover have "mm_find m k = None \<Longrightarrow> mm_find (mm_insert m k v) k = Some v"
    for m :: "(string, string) omap" and k v
    by (induction m k v rule: mm_insert.induct) (auto simp: mm_find_def split: if_splits)
  ultimately show ?thesis by (simp add: rs_setContentType_def split: option.split)
qed

section \<open>A built request is parsed back\<close>

definition builder_ok :: "request_builder \<Rightarrow> bool" where
  "builder_ok rb \<longleftrightarrow> method_of rb \<noteq> M_Invalid \<and> CHR '' '' \<notin> set (url_of rb) \<and> line_text (url_of rb)
     \<and> omap_wf (headers_of rb) \<and> (\<forall>h \<in> set (headers_of rb). header_ok h)
     \<and> omap_find (headers_of rb) ''Content-Length'' = None
     \<and> NUL \<notin> set (body_of rb) \<and> length (body_of rb) < 2 ^ 31"

definition sent_headers :: "request_builder \<Rightarrow> (string \<times> string) list" where
  "sent_headers rb = headers_of rb @ [(''Content-Length'', to_string (length (body_of rb)))]"

lemma build_text: "rb_build rb = request_text (method_of rb) (url_of rb) (sent_headers rb) (body_of rb)"
proof -
  have "(\<lambda>h. fst h @ '': '' @ snd h @ CRLF) = header_text"
    by (simp add: fun_eq_iff header_text_def)
  then show ?thesis
    by (simp add: rb_build_def request_text_def sent_headers_def header_text_def)
qed

lemma all_headers_range: "mm_equal_range (all_headers hs) k = map snd (filter (\<lambda>h. fst h = k) hs)"
  by (simp add: all_headers_def equal_range_foldl mm_wf_def) (simp add: mm_equal_range_def)

lemma omap_find_map_of: "omap_find m k = map_of m k"
  by (induction m k rule: omap_find.induct) auto

lemma to_string_text: "line_text (to_string n) \<and> trimmed (to_string n) \<and> isAllDigits (to_string n)"
proof -
  have d: "\<forall>c \<in> set (to_string n). isdigit c" by (rule to_string_digits)
  have "c \<notin> set (to_string n)" if "code_of c < 48" for c using d that by (auto simp: isdigit_code)
  then have "LF \<notin> set (to_string n)" "NUL \<notin> set (to_string n)" "CHR '' '' \<notin> set (to_string n)"
    by simp_all
  moreover from this(3) have "trimmed (to_string n)"
    by (metis hd_in_set last_in_set trimmed_def)
  ultimately show ?thesis using d by (simp add: line_text_def isAllDigits_def list_all_iff)
qed

lemma sent_headers_ok: "builder_ok rb \<Longrightarrow> \<forall>h \<in> set (sent_headers rb). header_ok h"
  using to_string_text by (auto simp: builder_ok_def sent_headers_def header_ok_def line_text_def)

lemma sent_headers_find:
  "builder_ok rb \<Longrightarrow> map_of (sent_headers rb) k =
     (if k = ''Content-Length'' then Some (to_string (length (body_of rb))) else omap_find (headers_of rb) k)"
  by (auto simp: builder_ok_def sent_headers_def map_add_def omap_find_map_of split: option.split)

lemma parse_built:
  assumes p: "fresh p" and ok: "builder_ok rb"
  shows "\<exists>p1. (\<forall>s. parse_chars p (rb_build rb @ s) = parse_chars p1 s) \<and> pstate p1 = Done
    \<and> mMethod (mCtx p1) = method_of rb \<and> mHttpVersion (mCtx p1) = Http11
    \<and> mRequestPath (mCtx p1) = fst (ParsePathLine (url_of rb) (url_of rb) [])
    \<and> mQueryMap (mCtx p1) = snd (ParsePathLine (url_of rb) (url_of rb) [])
    \<and> mRequestBody (mCtx p1) = body_of rb
    \<and> mHeaders (mCtx p1) = mm_erase (all_headers (sent_headers rb)) ''Cookie''
    \<and> cookies (mCtx p1) = map FCookie_of (mm_equal_range (all_headers (sent_headers rb)) ''Cookie'')"
proof -
  let ?hs = "sent_headers rb" and ?body = "body_of rb" and ?n = "length (body_of rb)"
  have pf: "mQueryMap (mCtx p) = []" "cookies (mCtx p) = []" "mRequestBody (mCtx p) = []"
    using p by (auto simp: fresh_iff FHttpParser_new_def new_context_def)
  have m: "method_of rb \<noteq> M_Invalid" "CHR '' '' \<notin> set (url_of rb)" "line_text (url_of rb)"
    using ok by (simp_all add: builder_ok_def)
  let ?ctx = "(request_target (mCtx p) (method_of rb) (url_of rb))\<lparr>mHeaders := all_headers ?hs\<rparr>"
  obtain p2 where p2: "pstate p2 = Headers" "bodyBytesRead p2 = 0" "mCtx p2 = ?ctx"
    and head: "\<And>body. parse_chars p (request_text (method_of rb) (url_of rb) ?hs body) =
       (case end_of_headers p2 of
          (Continue, p') \<Rightarrow> parse_chars p' body
        | (Return r, p') \<Rightarrow> (Inr r, p', body)
        | (Throw e, p') \<Rightarrow> (Inl e, p', body))"
    using read_request_head [OF p m sent_headers_ok [OF ok]] by blast
  have cl: "mm_find (mHeaders (mCtx p2)) ''Content-Length'' = Some (to_string ?n)"
    by (simp add: p2(3) find_all_headers sent_headers_find [OF ok])
  have small: "stoul (to_string ?n) = Inr ?n" "\<not> string_max_size < ?n"
    using ok by (simp_all add: stoul_to_string builder_ok_def string_max_size_def)
  let ?p3 = "take_cookies (p2\<lparr>contentLength := ?n, pstate := (if 0 < ?n then Body else Done)\<rparr>)\<lparr>lineBuf := []\<rparr>"
  have "end_of_headers p2 = (Continue, ?p3)"
    using to_string_text [of ?n] small by (simp add: end_of_headers_def cl Let_def)
  then have step: "parse_chars p (rb_build rb @ s) = parse_chars ?p3 (?body @ s)" for s
    using head [of "?body @ s"] by (simp add: build_text request_text_def)
  let ?p4 = "if ?body = [] then ?p3 else ?p3\<lparr>pstate := Done, bodyBytesRead := contentLength ?p3,
     mCtx := (mCtx ?p3)\<lparr>mRequestBody := mRequestBody (mCtx ?p3) @ ?body\<rparr>\<rparr>"
  have "parse_chars ?p3 (?body @ s) = parse_chars ?p4 s" for s
  proof (cases "?body = []")
    case False
    then show ?thesis
      using ok p2 read_body [of ?p3 ?body s] by (simp add: builder_ok_def take_cookies_eq)
  qed simp
  with step show ?thesis
    by (intro exI [of _ ?p4]) (auto simp: take_cookies_eq p2 request_target_def pf)
qed

lemma built_request_resumed:
  assumes "fresh p0" "fb_wf b" "builder_ok rb" "t @ readable b = rb_build rb @ next" "NUL \<notin> set next"
    "resumes p p0 t"
  shows "\<exists>p' b'. http_parse p b = (Inr True, p', b') \<and> readable b' = drop 1 next
    \<and> fb_wf b' \<and> m_buffer b' = m_buffer b
    \<and> pstate p' = Done \<and> mHttpVersion (mCtx p') = Http11
    \<and> mMethod (mCtx p') = method_of rb \<and> mRequestBody (mCtx p') = body_of rb
    \<and> mRequestPath (mCtx p') = fst (ParsePathLine (url_of rb) (url_of rb) [])
    \<and> mQueryMap (mCtx p') = snd (ParsePathLine (url_of rb) (url_of rb) [])
    \<and> (\<forall>k. k \<noteq> ''Content-Length'' \<longrightarrow> k \<noteq> ''Cookie'' \<longrightarrow>
           ctx_getHeader (mCtx p') k = omap_find (headers_of rb) k)
    \<and> cookies (mCtx p') = map FCookie_of (mm_equal_range (headers_of rb) ''Cookie'')"
proof -
  obtain p1 where p1: "parse_chars p0 (rb_build rb @ next) = parse_chars p1 next" "pstate p1 = Done"
      "mMethod (mCtx p1) = method_of rb" "mHttpVersion (mCtx p1) = Http11"
      "mRequestPath (mCtx p1) = fst (ParsePathLine (url_of rb) (url_of rb) [])"
      "mQueryMap (mCtx p1) = snd (ParsePathLine (url_of rb) (url_of rb) [])"
      "mRequestBody (mCtx p1) = body_of rb"
      "mHeaders (mCtx p1) = mm_erase (all_headers (sent_headers rb)) ''Cookie''"
      "cookies (mCtx p1) = map FCookie_of (mm_equal_range (all_headers (sent_headers rb)) ''Cookie'')"
    using parse_built [OF assms(1,3)] by blast
  have "parse_chars p1 next = (Inr True, p1, drop 1 next)"
    using p1(2) assms(5) by (cases "next") (auto simp: finished_def)
  with p1(1) assms(4,6) have "parse_chars p (readable b) = (Inr True, p1, drop 1 next)" by (simp add: resumes_def)
  then obtain b' where "http_parse p b = (Inr True, p1, b')" "readable b' = drop 1 next"
      "fb_wf b'" "m_buffer b' = m_buffer b"
    using parse_refines [OF assms(2)] by metis
  moreover have "ctx_getHeader (mCtx p1) k = omap_find (headers_of rb) k"
    if "k \<noteq> ''Content-Length''" "k \<noteq> ''Cookie''" for k
    using that by (simp add: ctx_getHeader_def p1(8) find_erase_other find_all_headers sent_headers_find [OF assms(3)])
  moreover have "mm_equal_range (all_headers (sent_headers rb)) ''Cookie'' = mm_equal_range (headers_of rb) ''Cookie''"
    by (subst all_headers_range) (simp add: sent_headers_def mm_equal_range_def)
  ultimately show ?thesis using p1 by auto
qed

lemma built_request_reads:
  assumes "fresh p" "fb_wf b" "builder_ok rb" "readable b = rb_build rb @ next" "NUL \<notin> set next"
  shows "\<exists>p' b'. http_parse p b = (Inr True, p', b') \<and> readable b' = drop 1 next
    \<and> fb_wf b' \<and> m_buffer b' = m_buffer b
    \<and> pstate p' = Done \<and> mHttpVersion (mCtx p') = Http11
    \<and> mMethod (mCtx p') = method_of rb \<and> mRequestBody (mCtx p') = body_of rb
    \<and> mRequestPath (mCtx p') = fst (ParsePathLine (url_of rb) (url_of rb) [])
    \<and> mQueryMap (mCtx p') = snd (ParsePathLine (url_of rb) (url_of rb) [])
    \<and> (\<forall>k. k \<noteq> ''Content-Length'' \<longrightarrow> k \<noteq> ''Cookie'' \<longrightarrow>
           ctx_getHeader (mCtx p') k = omap_find (headers_of rb) k)
    \<and> cookies (mCtx p') = map FCookie_of (mm_equal_range (headers_of rb) ''Cookie'')"
  using built_request_resumed [of p b rb "[]" "next" p] assms by simp

text \<open>A part of a request is not a request: the parser waits for the rest.\<close>

lemma build_no_nul: "builder_ok rb \<Longrightarrow> NUL \<notin> set (rb_build rb)"
  using sent_headers_ok [of rb] method_text [of "method_of rb"]
  by (auto simp: build_text request_text_def builder_ok_def line_text_def header_text_def header_ok_def)

lemma built_prefix_waits:
  assumes "fresh p0" "builder_ok rb" "t @ s @ u = rb_build rb" "u \<noteq> []" "resumes p p0 t"
  shows "\<exists>p'. parse_chars p s = (Inr False, p', []) \<and> resumes p' p0 (t @ s) \<and> \<not> finished p'"
proof -
  have nul: "NUL \<notin> set s"
    using build_no_nul [OF assms(2)] unfolding assms(3) [symmetric] by simp
  obtain r p' s' where r: "parse_chars p s = (r, p', s')" by (metis prod_cases3)
  obtain p1 where p1: "\<And>x. parse_chars p0 (rb_build rb @ x) = parse_chars p1 x" "pstate p1 = Done"
    using parse_built [OF assms(1,2)] by blast
  have stop: "parse_chars p (s @ u @ ''A'') = (Inr True, p1, [])"
    using p1(1) [of "''A''"] p1(2) assms(5) unfolding assms(3) [symmetric] by (simp add: resumes_def finished_def)
  have go: "\<not> (finished p' \<or> (\<exists>e. r = Inl e))"
  proof
    assume "finished p' \<or> (\<exists>e. r = Inl e)"
    from parse_chars_stopped [OF nul r this, of "u @ ''A''"] stop assms(4) show False
      by (cases u) auto
  qed
  then obtain v where v: "r = Inr v" by (cases r) auto
  with go resumes_step [OF assms(5) nul r [unfolded v]] r show ?thesis by auto
qed

text \<open>
  C1. What the builder writes the parser reads: for every well-formed builder, parsing its text into
  a fresh parser succeeds with the same method, body and headers (cookies apart), the path and
  query of the URL, and the text is consumed up to its last byte. A byte of a following request
  that is already in the buffer is read and lost before the loop notices that the request is
  complete.
\<close>
theorem built_request_parsed:
  assumes "fresh p" "fb_wf b" "builder_ok rb" "readable b = rb_build rb @ next" "NUL \<notin> set next"
  shows "\<exists>p' b'. http_parse p b = (Inr True, p', b') \<and> readable b' = drop 1 next
    \<and> mMethod (mCtx p') = method_of rb \<and> mRequestBody (mCtx p') = body_of rb
    \<and> mRequestPath (mCtx p') = fst (ParsePathLine (url_of rb) (url_of rb) [])
    \<and> mQueryMap (mCtx p') = snd (ParsePathLine (url_of rb) (url_of rb) [])
    \<and> (\<forall>k. k \<noteq> ''Content-Length'' \<longrightarrow> k \<noteq> ''Cookie'' \<longrightarrow>
           ctx_getHeader (mCtx p') k = omap_find (headers_of rb) k)
    \<and> cookies (mCtx p') = map FCookie_of (mm_equal_range (headers_of rb) ''Cookie'')"
  using built_request_reads [OF assms] by blast

theorem built_request_parsed_witness:
  "\<exists>p' b'. http_parse (FHttpParser_new M_HEAD Http11)
       (fb_Append (FBuffer_new 0) (rb_build (rb_setUrl (RequestBuilder_new M_POST) ''/a'') @ ''GET'')) = (Inr True, p', b')
     \<and> readable b' = ''ET'' \<and> mMethod (mCtx p') = M_POST"
proof -
  let ?rb = "rb_setUrl (RequestBuilder_new M_POST) ''/a''"
  have txt1: "rb_build ?rb = ''POST /a HTTP/1.1'' @ CRLF @ ''Content-Length: 0'' @ CRLF @ CRLF"
    by code_simp
  have ok: "builder_ok ?rb"
    by (simp add: builder_ok_def rb_setUrl_def RequestBuilder_new_def line_text_def)
  let ?b = "fb_Append (FBuffer_new 0) (rb_build ?rb @ ''GET'')"
  have "fb_room (FBuffer_new 0) (length (rb_build ?rb @ ''GET''))"
    unfolding txt1 by (simp add: fb_room_def FBuffer_new_def)
  then have b: "fb_wf ?b" "readable ?b = rb_build ?rb @ ''GET''"
    using Append_correct [of "FBuffer_new 0" "rb_build ?rb @ ''GET''"] new_wf [of 0] by simp_all
  have "fresh (FHttpParser_new M_HEAD Http11)" by simp
  from built_request_parsed [OF this b(1) ok b(2)] obtain p' b' where
    "http_parse (FHttpParser_new M_HEAD Http11) ?b = (Inr True, p', b')" "readable b' = drop 1 ''GET''"
    "mMethod (mCtx p') = method_of ?rb"
    by auto
  then show ?thesis by (simp add: rb_setUrl_def RequestBuilder_new_def)
qed

section \<open>The framing of responses\<close>

text \<open>How a client reads a message: lines up to the first empty one, and what follows it.\<close>

function head_lines :: "string \<Rightarrow> string list \<times> string" where
  "head_lines s =
     (let l = takeWhile (\<lambda>c. c \<noteq> LF) s; r = drop (length l + 1) s
      in if length l \<le> 1 then ([], r)
         else (let (ls, rest) = head_lines r in (butlast l # ls, rest)))"
  by pat_completeness auto

termination
proof (relation "measure length", goal_cases)
  case (2 s l r)
  then have "s \<noteq> []" by auto
  with 2 show ?case by simp
qed simp

declare head_lines.simps [simp del]

lemma head_lines_line:
  assumes "LF \<notin> set l" "l \<noteq> []"
  shows "head_lines (l @ CR # LF # s) = (l # fst (head_lines s), snd (head_lines s))"
proof -
  have "takeWhile (\<lambda>c. c \<noteq> LF) ((l @ [CR]) @ LF # s) = l @ [CR]"
    using assms(1) by (intro takeWhile_delim) simp
  then show ?thesis
    using assms(2) by (simp add: head_lines.simps [of "l @ CR # LF # s"] butlast_append split: prod.split)
qed

lemma head_lines_end: "head_lines (CR # LF # s) = ([], s)"
  by (simp add: head_lines.simps)

lemma head_lines_many:
  "\<forall>l \<in> set ls. LF \<notin> set l \<and> l \<noteq> [] \<Longrightarrow>
     head_lines (concat (map (\<lambda>l. l @ CRLF) ls) @ CR # LF # s) = (ls, s)"
  by (induction ls) (simp_all add: head_lines_line head_lines_end)

definition response_lines :: "http_response \<Rightarrow> string list" where
  "response_lines rs =
     (versionToStr (mVersion rs) @ '' '' @ statusCodeToStr (mStatus rs))
     # map (\<lambda>h. fst h @ '': '' @ snd h) (rsHeaders rs)
     @ map outSetCookie (filter (\<lambda>c. \<not> ck_is_empty c) (mCookies rs))
     @ [''Content-Length: '' @ to_string (length (mBody rs))]"

lemma toString_lines: "rs_toString rs
    = concat (map (\<lambda>l. l @ CRLF) (response_lines rs)) @ CR # LF # mBody rs @ CRLF"
proof -
  have "concat (map (\<lambda>c. if ck_is_empty c then [] else outSetCookie c @ CRLF) cs)
      = concat (map (\<lambda>l. l @ CRLF) (map outSetCookie (filter (\<lambda>c. \<not> ck_is_empty c) cs)))" for cs
    by (induction cs) simp_all
  then show ?thesis by (simp add: rs_toString_def response_lines_def comp_def)
qed

definition response_ok :: "http_response \<Rightarrow> bool" where
  "response_ok rs \<longleftrightarrow> (\<forall>h \<in> set (rsHeaders rs). LF \<notin> set (fst h) \<and> LF \<notin> set (snd h))
     \<and> (\<forall>c \<in> set (mCookies rs). LF \<notin> set (outSetCookie c))"

lemma versionToStr_text: "LF \<notin> set (versionToStr v) \<and> versionToStr v \<noteq> []"
  by (cases v) simp_all

text \<open>
  C7. The framing of a response: when no header or cookie contains a line feed, a client that reads
  up to the first empty line gets the status line, the headers in key order, the cookies that
  are not empty and the length of the body as the last header; what follows is the body, and then a
  CRLF that Content-Length does not count.
\<close>
theorem response_framing:
  assumes "response_ok rs"
  shows "head_lines (rs_toString rs) = (response_lines rs, mBody rs @ CRLF)
    \<and> last (response_lines rs) = ''Content-Length: '' @ to_string (length (mBody rs))"
proof -
  have "\<forall>l \<in> set (response_lines rs). LF \<notin> set l \<and> l \<noteq> []"
    using assms versionToStr_text [of "mVersion rs"] status_text_single_line [of "mStatus rs"]
      to_string_text [of "length (mBody rs)"]
    by (fastforce simp: response_lines_def response_ok_def line_text_def outSetCookie_header)
  then show ?thesis
    by (simp add: toString_lines head_lines_many) (simp add: response_lines_def)
qed

theorem response_framing_witness:
  "head_lines (rs_toString (rs_setBody FHttpResponse_new ''hi''))
     = ([''HTTP/1.1 200 OK'', ''Content-Length: 2''], ''hi'' @ CRLF)"
proof -
  let ?rs = "rs_setBody FHttpResponse_new ''hi''"
  have "response_ok ?rs" by (simp add: response_ok_def rs_setBody_def FHttpResponse_new_def)
  moreover have "response_lines ?rs = [''HTTP/1.1 200 OK'', ''Content-Length: 2'']" by code_simp
  ultimately show ?thesis
    using response_framing [of ?rs] by (simp add: rs_setBody_def)
qed

end
