(* ===== verification/FSession.thy ===== *)
theory FSession
  imports FConcurrentMap FConfig FHttpMessage
begin

text \<open>
  Sessions and the administrator's login: the session manager (\<open>Server/src/Core/Session.cpp\<close>), whose
  map is a \<open>FConcurrentHashMap\<close> given by its contract, and the login with its lockout
  (\<open>Server/src/Service/AdminLogin.cpp\<close>). Clock readings are arguments, in milliseconds since the epoch;
  random bytes are an argument too.
\<close>

unbundle bit_operations_syntax

section \<open>Session identifiers\<close>

definition hex_digit :: "nat \<Rightarrow> char" where
  "hex_digit d = (if d < 10 then char_of (48 + d) else char_of (87 + d))"

fun hex_of :: "nat \<Rightarrow> string" where
  "hex_of n = (if n < 16 then [hex_digit n] else hex_of (n div 16) @ [hex_digit (n mod 16)])"

declare hex_of.simps [simp del]

text \<open>\<open>std::hex << setw(2) << setfill('0')\<close> on an \<open>int\<close>, which is printed as an unsigned value; the bytes
  are \<open>char\<close>s, which are signed, so those from 0x80 on are printed as eight digits.\<close>

definition hex_setw2 :: "u32 \<Rightarrow> string" where
  "hex_setw2 w = (let h = hex_of (unat w) in replicate (2 - length h) (CHR ''0'') @ h)"

definition generateSessionId :: "u8 list \<Rightarrow> string" where
  "generateSessionId bytes = concat (map (\<lambda>b. hex_setw2 (scast b)) bytes)"

section \<open>The session manager\<close>

record session_data =
  lastTime :: int
  sess_data :: "(string, string) omap"

record 'c session_manager =
  mSessionMap :: 'c
  sessionHoldTime :: int

text \<open>\<open>std::stoll\<close>: white space, a sign, digits; what follows is ignored.\<close>

definition stoll :: "string \<Rightarrow> std_error + int" where
  "stoll s =
     (let s1 = dropWhile isspace s;
          neg = (s1 \<noteq> [] \<and> hd s1 = CHR ''-'');
          s2 = (if s1 \<noteq> [] \<and> (hd s1 = CHR ''-'' \<or> hd s1 = CHR ''+'') then tl s1 else s1);
          digits = takeWhile isdigit s2;
          v = (if neg then - int (dec_value digits) else int (dec_value digits))
      in if digits = [] then Inl Invalid_argument
         else if v < - (2 ^ 63) \<or> 2 ^ 63 \<le> v then Inl Out_of_range
         else Inr v)"

definition SessionManager_new :: "('c, string, session_data) tbb_ops \<Rightarrow> string option \<Rightarrow> std_error + 'c session_manager" where
  "SessionManager_new T cfg =
     (case cfg of
        None \<Rightarrow> Inr \<lparr>mSessionMap = tempty T, sessionHoldTime = 1000 * 60 * 60\<rparr>
      | Some time \<Rightarrow>
          (case stoll time of
             Inl e \<Rightarrow> Inl e
           | Inr v \<Rightarrow> Inr \<lparr>mSessionMap = tempty T, sessionHoldTime = v\<rparr>))"

definition hasSession :: "('c, string, session_data) tbb_ops \<Rightarrow> 'c session_manager \<Rightarrow> string \<Rightarrow> bool" where
  "hasSession T m sessionId \<longleftrightarrow> ch_find T (mSessionMap m) sessionId \<noteq> None"

text \<open>The loop for a fresh identifier over the draws of the random source; None when they run out.\<close>

fun fresh_id :: "('c, string, session_data) tbb_ops \<Rightarrow> 'c session_manager \<Rightarrow> u8 list list \<Rightarrow> string option" where
  "fresh_id T m [] = None"
| "fresh_id T m (d # ds) =
     (let sessionId = generateSessionId d
      in if hasSession T m sessionId then fresh_id T m ds else Some sessionId)"

definition addSession :: "('c, string, session_data) tbb_ops \<Rightarrow> 'c session_manager \<Rightarrow> int \<Rightarrow> u8 list list \<Rightarrow>
    (string \<times> 'c session_manager) option" where
  "addSession T m now draws =
     (case fresh_id T m draws of
        None \<Rightarrow> None
      | Some sessionId \<Rightarrow>
          Some (sessionId,
                m\<lparr>mSessionMap := ch_insert T (mSessionMap m) sessionId \<lparr>lastTime = now, sess_data = []\<rparr>\<rparr>))"

definition addDataToSession :: "('c, string, session_data) tbb_ops \<Rightarrow> 'c session_manager \<Rightarrow> string \<Rightarrow> string \<Rightarrow> string \<Rightarrow>
    bool \<times> 'c session_manager" where
  "addDataToSession T m sessionId key val =
     (let (isExist, c, _) =
            ch_findAndModifyLocked T (mSessionMap m) sessionId
              (\<lambda>sd _. (sd\<lparr>sess_data := omap_assign (sess_data sd) key val\<rparr>, ())) ()
      in (isExist, m\<lparr>mSessionMap := c\<rparr>))"

text \<open>The result is \<open>out\<close> where the code answers true.\<close>

definition getDataFromSession :: "('c, string, session_data) tbb_ops \<Rightarrow> 'c session_manager \<Rightarrow> string \<Rightarrow> string \<Rightarrow> string option" where
  "getDataFromSession T m sessionId key =
     (let (isExist, c, out) =
            ch_findAndModifyLocked T (mSessionMap m) sessionId (\<lambda>sd _. (sd, omap_find (sess_data sd) key)) None
      in if isExist then out else None)"

definition deleteSession :: "'c session_manager \<Rightarrow> string \<Rightarrow> 'c session_manager" where
  "deleteSession m sessionId = m"

definition getSessionExpireTimeMins :: "'c session_manager \<Rightarrow> u32" where
  "getSessionExpireTimeMins m = word_of_int (sgn (sessionHoldTime m) * (\<bar>sessionHoldTime m\<bar> div 1000))"

text \<open>The comparison is on unsigned 64-bit values.\<close>

definition session_overdue :: "'c session_manager \<Rightarrow> u64 \<Rightarrow> session_data \<Rightarrow> bool" where
  "session_overdue m time_ms val \<longleftrightarrow> word_of_int (sessionHoldTime m) < time_ms - word_of_int (lastTime val)"

definition sess_checkOverdue :: "('c, string, session_data) tbb_ops \<Rightarrow> 'c session_manager \<Rightarrow> u64 \<Rightarrow> 'c session_manager" where
  "sess_checkOverdue T m time_ms =
     (let toerase = ch_traversal_const T (mSessionMap m)
            (\<lambda>(key, val) acc. (True, if session_overdue m time_ms val then acc @ [key] else acc)) []
      in m\<lparr>mSessionMap := foldl (ch_erase T) (mSessionMap m) toerase\<rparr>)"

section \<open>Login\<close>

record admin_login =
  mUserName :: string
  mPassword :: string
  mIsLocked :: bool
  mFailedCount :: u32
  mLockTime :: int

definition AdminLogin_new :: "cfg_reader \<Rightarrow> admin_login \<times> cfg_reader" where
  "AdminLogin_new cfg =
     (let (user, cfg1) = getCfg cfg ''AdminUser''; (password, cfg2) = getCfg cfg1 ''AdminPassword''
      in (\<lparr>mUserName = (case user of Some u \<Rightarrow> u | None \<Rightarrow> ''admin''),
           mPassword = (case password of Some p \<Rightarrow> p | None \<Rightarrow> ''admin''),
           mIsLocked = False, mFailedCount = 0, mLockTime = 0\<rparr>, cfg2))"

definition sMaxErrorTime :: u32 where "sMaxErrorTime = 5"

text \<open>\<open>duration_cast<minutes>\<close> truncates towards zero.\<close>

definition minutes_between :: "int \<Rightarrow> int \<Rightarrow> int" where
  "minutes_between now past = sgn (now - past) * (\<bar>now - past\<bar> div 60000)"

definition isOnLock :: "admin_login \<Rightarrow> int \<Rightarrow> bool \<times> admin_login" where
  "isOnLock a now =
     (if mIsLocked a
      then (if 60 < minutes_between now (mLockTime a) then (False, a\<lparr>mIsLocked := False, mFailedCount := 0\<rparr>)
            else (True, a))
      else (False, a))"

definition isLoginId :: "('c, string, session_data) tbb_ops \<Rightarrow> 'c session_manager \<Rightarrow> string \<Rightarrow> bool" where
  "isLoginId T m sessionId \<longleftrightarrow> hasSession T m sessionId"

text \<open>The loop over the request's cookies: the first value of \<open>sessionId\<close>. The index stays below the
  number of cookies, so \<open>at\<close> does not throw.\<close>

fun find_session :: "http_request \<Rightarrow> nat list \<Rightarrow> string" where
  "find_session req [] = []"
| "find_session req (i # is) =
     (case rq_getCookie req i of
        Inl _ \<Rightarrow> []
      | Inr cookie \<Rightarrow> (case ck_getValue cookie ''sessionId'' of Some v \<Rightarrow> v | None \<Rightarrow> find_session req is))"

definition isLogin :: "('c, string, session_data) tbb_ops \<Rightarrow> 'c session_manager \<Rightarrow> http_request \<Rightarrow> bool" where
  "isLogin T m req =
     (let sessionId = find_session req [0..<rq_getCookieSize req]
      in if sessionId \<noteq> [] then isLoginId T m sessionId else False)"

text \<open>\<open>Login\<close>: the result, the session identifier and both states. \<open>None\<close> when the random source runs dry
  before a fresh identifier. There is no mutex: these are \<open>isOnLock\<close> and \<open>Login\<close> when no other attempt
  runs at the same time; their single accesses, and how attempts interleave, are in \<open>FLogin\<close>.\<close>

definition Login :: "('c, string, session_data) tbb_ops \<Rightarrow> 'c session_manager \<Rightarrow> admin_login \<Rightarrow> int \<Rightarrow> u8 list list \<Rightarrow>
    string \<Rightarrow> string \<Rightarrow> string \<Rightarrow> (bool \<times> string \<times> 'c session_manager \<times> admin_login) option" where
  "Login T m a now draws userName password sessionId =
     (if sessionId \<noteq> [] \<and> hasSession T m sessionId then Some (True, sessionId, m, a)
      else if mIsLocked a then Some (False, sessionId, m, a)
      else (case (if userName = mUserName a \<and> password = mPassword a
                  then (case addSession T m now draws of
                          None \<Rightarrow> None
                        | Some (i, m') \<Rightarrow> Some (True, i, m', a\<lparr>mFailedCount := 0\<rparr>))
                  else Some (False, sessionId, m, a\<lparr>mFailedCount := mFailedCount a + 1\<rparr>)) of
              None \<Rightarrow> None
            | Some (isLoginSuccess, i, m', a1) \<Rightarrow>
                Some (isLoginSuccess, i, m',
                      if sMaxErrorTime \<le> mFailedCount a1
                      then a1\<lparr>mIsLocked := True, mLockTime := now, mFailedCount := 0\<rparr> else a1)))"

text \<open>What \<open>AdminController::Login\<close> does with the credentials of the request: the lock first, then the
  login with an empty session identifier.\<close>

definition try_login :: "('c, string, session_data) tbb_ops \<Rightarrow> 'c session_manager \<Rightarrow> admin_login \<Rightarrow> int \<Rightarrow> u8 list list \<Rightarrow>
    string \<Rightarrow> string \<Rightarrow> (bool \<times> string \<times> 'c session_manager \<times> admin_login) option" where
  "try_login T m a now draws userName password =
     (let (onLock, a1) = isOnLock a now
      in if onLock then Some (False, [], m, a1) else Login T m a1 now draws userName password [])"

section \<open>Identifiers keep the randomness\<close>

definition hex_val :: "char \<Rightarrow> nat" where
  "hex_val c = (if code_of c < 58 then code_of c - 48 else code_of c - 87)"

definition hex_value :: "string \<Rightarrow> nat" where
  "hex_value s = foldl (\<lambda>n c. 16 * n + hex_val c) 0 s"

lemma hex_val_digit: "d < 16 \<Longrightarrow> hex_val (hex_digit d) = d"
  by (auto simp: hex_val_def hex_digit_def of_char_of)

lemma hex_value_hex_of: "hex_value (hex_of n) = n"
proof (induction n rule: hex_of.induct)
  case (1 n)
  show ?case
  proof (cases "n < 16")
    case True
    then show ?thesis by (subst hex_of.simps) (simp add: hex_value_def hex_val_digit)
  next
    case False
    then have "hex_value (hex_of n) = 16 * hex_value (hex_of (n div 16)) + n mod 16"
      by (subst hex_of.simps) (simp add: hex_value_def hex_val_digit)
    then show ?thesis using 1 False by simp
  qed
qed

lemma hex_value_setw2: "hex_value (hex_setw2 w) = unat w"
proof -
  have "hex_value (replicate k (CHR ''0'') @ h) = hex_value h" for k h
    by (induction k) (simp_all add: hex_value_def hex_val_def)
  then show ?thesis by (simp add: hex_setw2_def Let_def hex_value_hex_of)
qed

lemma setw2_inj: "hex_setw2 v = hex_setw2 w \<Longrightarrow> v = w"
  using hex_value_setw2 by (metis word_unat_eq_iff)

lemma hex_of_shape: "16 ^ k \<le> n \<Longrightarrow> n < 16 ^ Suc k \<Longrightarrow>
    length (hex_of n) = Suc k \<and> hd (hex_of n) = hex_digit (n div 16 ^ k)"
proof (induction k arbitrary: n)
  case 0
  then show ?case by (subst (1 2) hex_of.simps) simp
next
  case (Suc k)
  have n: "\<not> n < 16" using Suc.prems(1) by (simp add: algebra_simps) (use one_le_power [of "16 :: nat" k] in linarith)
  have "16 ^ k \<le> n div 16" using div_le_mono [OF Suc.prems(1), of 16] by simp
  moreover have "n div 16 < 16 ^ Suc k" using Suc.prems(2) by (intro less_mult_imp_div_less) simp
  ultimately have "16 ^ k \<le> n div 16" "n div 16 < 16 ^ Suc k" .
  from Suc.IH [OF this] have "length (hex_of (n div 16)) = Suc k" "hd (hex_of (n div 16)) = hex_digit (n div 16 ^ Suc k)"
    by (simp_all add: div_mult2_eq)
  moreover from this(1) have "hex_of (n div 16) \<noteq> []" by auto
  moreover have "hex_of n = hex_of (n div 16) @ [hex_digit (n mod 16)]" using n by (subst hex_of.simps) simp
  ultimately show ?case by simp
qed

lemma byte_range: "- 128 \<le> sint (b :: u8)" "sint (b :: u8) < 128"
  using sint_range_size [of b] by (simp_all add: word_size)

lemma scast_byte: "uint (scast (b :: u8) :: u32) = (if 0 \<le> sint b then sint b else sint b + 4294967296)"
proof -
  have u: "uint (scast b :: u32) = sint b mod 4294967296" unfolding scast_eq uint_word_of_int by simp
  show ?thesis
  proof (cases "0 \<le> sint b")
    case True
    then show ?thesis using u byte_range [of b] by simp
  next
    case False
    then have "(sint b + 4294967296) mod 4294967296 = sint b + 4294967296"
      using byte_range [of b] by (intro mod_pos_pos_trivial) linarith+
    then show ?thesis using u False by simp
  qed
qed

lemma scast_inj: "scast (b :: u8) = (scast c :: u32) \<Longrightarrow> b = c"
proof -
  assume "scast b = (scast c :: u32)"
  then have "uint (scast b :: u32) = uint (scast c :: u32)" by simp
  then have "sint b = sint c"
    using byte_range [of b] byte_range [of c] unfolding scast_byte by (auto split: if_splits)
  then show ?thesis by (rule signed_word_eqI)
qed

definition byte_code_ok :: "u8 \<Rightarrow> bool" where
  "byte_code_ok b \<longleftrightarrow> (let s = hex_setw2 (scast b) in s \<noteq> [] \<and> length s = (if hd s = CHR ''f'' then 8 else 2))"

lemma byte_codes: "byte_code_ok b"
proof -
  define n where "n = unat (scast b :: u32)"
  have "int n = (if 0 \<le> sint b then sint b else sint b + 4294967296)" by (simp add: n_def scast_byte)
  then have "n < 128 \<or> (4026531840 \<le> n \<and> n < 4294967296)" using byte_range [of b] by (auto split: if_splits)
  then consider "n < 16" | "16 \<le> n" "n < 128" | "4026531840 \<le> n" "n < 4294967296" by linarith
  then show ?thesis
  proof cases
    case 1
    then have "hex_of n = [hex_digit n]" by (subst hex_of.simps) simp
    then show ?thesis by (simp add: byte_code_ok_def hex_setw2_def n_def [symmetric])
  next
    case 2
    then have "length (hex_of n) = 2" "hd (hex_of n) = hex_digit (n div 16)" "n div 16 < 8"
      using hex_of_shape [of 1 n] by auto
    moreover from this(3) have "hex_digit (n div 16) \<noteq> CHR ''f''" by (auto simp: hex_digit_def dest: arg_cong [of _ _ code_of])
    ultimately show ?thesis by (auto simp: byte_code_ok_def hex_setw2_def n_def [symmetric])
  next
    case 3
    then have "n div 16 ^ 7 = 15" by auto
    moreover have "hex_digit 15 = CHR ''f''" by code_simp
    ultimately have "length (hex_of n) = 8" "hd (hex_of n) = CHR ''f''"
      using hex_of_shape [of 7 n] 3 by auto
    then show ?thesis by (auto simp: byte_code_ok_def hex_setw2_def n_def [symmetric])
  qed
qed

text \<open>
  A session identifier keeps all the randomness it is made from: different random bytes, of
  whatever number, give different identifiers, although bytes from 0x80 on are printed with eight
  digits.
\<close>
theorem session_ids_distinct: "inj generateSessionId"
proof (rule injI)
  fix xs ys
  show "generateSessionId xs = generateSessionId ys \<Longrightarrow> xs = ys"
  proof (induction xs arbitrary: ys)
    case Nil
    show ?case
    proof (cases ys)
      case (Cons c cs)
      then show ?thesis using Nil byte_codes [of c] by (simp add: generateSessionId_def byte_code_ok_def Let_def)
    qed simp
  next
    case (Cons b bs)
    obtain c cs where ys: "ys = c # cs"
      using Cons.prems byte_codes [of b] by (cases ys) (simp_all add: generateSessionId_def byte_code_ok_def Let_def)
    let ?s = "hex_setw2 (scast b)" and ?t = "hex_setw2 (scast c)"
    have eq: "?s @ generateSessionId bs = ?t @ generateSessionId cs"
      using Cons.prems ys by (simp add: generateSessionId_def)
    have ok: "byte_code_ok b" "byte_code_ok c" by (rule byte_codes)+
    then have "?s \<noteq> []" "?t \<noteq> []" by (simp_all add: byte_code_ok_def Let_def)
    then have "hd ?s = hd ?t" using eq by (metis hd_append2)
    with ok have "length ?s = length ?t" by (simp add: byte_code_ok_def Let_def)
    with eq have "?s = ?t" "generateSessionId bs = generateSessionId cs" by simp_all
    then show ?case using Cons.IH setw2_inj scast_inj ys by blast
  qed
qed

section \<open>Sessions live as long as they should\<close>

lemma checkOverdue_find:
  assumes "tbb_ok T"
  shows "tfind T (mSessionMap (sess_checkOverdue T m t)) k =
    (case tfind T (mSessionMap m) k of None \<Rightarrow> None | Some v \<Rightarrow> if session_overdue m t v then None else Some v)"
proof -
  have c: "(\<lambda>(key, val) acc. (True, if session_overdue m t val then acc @ [key] else acc))
    = (\<lambda>h acc. (True, if session_overdue m t (snd h) then acc @ [fst h] else acc))"
    by (auto simp: fun_eq_iff)
  have "mSessionMap (sess_checkOverdue T m t) = expiring_cache.sweep (tentries T) (ch_erase T) (session_overdue m t) (mSessionMap m)"
    by (simp add: sess_checkOverdue_def ch_traversal_const_def c traverse_collect
        expiring_cache.sweep_def [OF expiring_cache_hash [OF assms]])
  then show ?thesis by (simp add: expiring_cache.lookup_sweep [OF expiring_cache_hash [OF assms]])
qed

lemma overdue_small:
  assumes "0 \<le> sessionHoldTime m" "sessionHoldTime m < 2 ^ 63" "0 \<le> lastTime v" "lastTime v < 2 ^ 62" "t < 2 ^ 62"
  shows "session_overdue m (word_of_nat t) v \<longleftrightarrow>
    (if lastTime v \<le> int t then sessionHoldTime m < int t - lastTime v
     else sessionHoldTime m < 2 ^ 64 - (lastTime v - int t))"
proof -
  have "uint (word_of_nat t - word_of_int (lastTime v) :: u64) = (int t - lastTime v) mod 2 ^ 64"
  proof -
    have "word_of_nat t - word_of_int (lastTime v) = (word_of_int (int t - lastTime v) :: u64)" by simp
    then show ?thesis by (simp only: uint_word_of_int) simp
  qed
  moreover have "(int t - lastTime v) mod 2 ^ 64 = (if lastTime v \<le> int t then int t - lastTime v else 2 ^ 64 - (lastTime v - int t))"
  proof (cases "lastTime v \<le> int t")
    case True
    then show ?thesis using assms by simp
  next
    case False
    then have "(int t - lastTime v + 2 ^ 64) mod 2 ^ 64 = int t - lastTime v + 2 ^ 64"
      using assms by (intro mod_pos_pos_trivial) simp_all
    then show ?thesis using False by simp
  qed
  moreover have "uint (word_of_int (sessionHoldTime m) :: u64) = sessionHoldTime m"
    using assms by (simp add: uint_word_of_int)
  ultimately show ?thesis by (simp add: session_overdue_def word_less_def)
qed

text \<open>
  C35. The sweep of the sessions: a session that started up to the hold time before the tick's clock
  reading survives it unchanged and an older one is gone; but a session that another thread started
  after that reading is gone too, since its age wraps around.
\<close>
theorem session_sweep:
  assumes "tbb_ok T" "0 \<le> sessionHoldTime m" "sessionHoldTime m < 2 ^ 63" "t < 2 ^ 62"
    "ch_find T (mSessionMap m) k = Some v" "0 \<le> lastTime v" "lastTime v < 2 ^ 62"
  shows "(lastTime v \<le> int t \<longrightarrow>
      ch_find T (mSessionMap (sess_checkOverdue T m (word_of_nat t))) k
        = (if int t - lastTime v \<le> sessionHoldTime m then Some v else None))
    \<and> (int t < lastTime v \<longrightarrow> \<not> hasSession T (sess_checkOverdue T m (word_of_nat t)) k)"
proof -
  have "sessionHoldTime m < 2 ^ 64 - (lastTime v - int t)" if "int t < lastTime v"
    using assms that by simp
  then show ?thesis
    using overdue_small [OF assms(2,3,6,7,4)] assms(5)
    by (auto simp: checkOverdue_find [OF assms(1)] hasSession_def ch_find_def)
qed

definition demo_sessions :: "(string, session_data) rbt session_manager" where
  "demo_sessions = \<lparr>mSessionMap = ch_insert rbt_ops (tempty rbt_ops) ''id'' \<lparr>lastTime = 5000, sess_data = []\<rparr>,
     sessionHoldTime = 1000\<rparr>"

theorem session_sweep_witness:
  "\<not> hasSession rbt_ops (sess_checkOverdue rbt_ops demo_sessions (word_of_nat 4999)) ''id''
   \<and> hasSession rbt_ops (sess_checkOverdue rbt_ops demo_sessions (word_of_nat 6000)) ''id''"
proof -
  have f: "ch_find rbt_ops (mSessionMap demo_sessions) ''id'' = Some \<lparr>lastTime = 5000, sess_data = []\<rparr>"
    by (simp add: demo_sessions_def ch_find_def ch_insert_def tbb_simps [OF rbt_ops_ok])
  show ?thesis
    using session_sweep [OF rbt_ops_ok _ _ _ f, of 4999] session_sweep [OF rbt_ops_ok _ _ _ f, of 6000]
    by (simp add: demo_sessions_def hasSession_def)
qed

text \<open>A new session is there, with no data, and the others are as they were.\<close>

lemma fresh_id_fresh: "fresh_id T m ds = Some i \<Longrightarrow> \<not> hasSession T m i"
  by (induction ds) (auto simp: Let_def split: if_splits)

lemma addSession_adds:
  assumes "tbb_ok T" "addSession T m now ds = Some (i, m')"
  shows "\<not> hasSession T m i" "hasSession T m' i"
    "ch_find T (mSessionMap m') j = (if j = i then Some \<lparr>lastTime = now, sess_data = []\<rparr> else ch_find T (mSessionMap m) j)"
  using assms fresh_id_fresh [of T m ds i]
  by (auto simp: addSession_def hasSession_def ch_find_def ch_insert_def tbb_simps [OF assms(1)] split: option.splits)

lemma addDataToSession_read:
  assumes "tbb_ok T" "addDataToSession T m i key val = (ok, m')"
  shows "ok \<longleftrightarrow> hasSession T m i"
    "getDataFromSession T m' i k = (if ok \<and> k = key then Some val else getDataFromSession T m i k)"
  using assms
  by (auto simp: addDataToSession_def getDataFromSession_def hasSession_def ch_find_def ch_findAndModifyLocked_def
      tbb_simps [OF assms(1)] find_assign split: option.splits if_splits)

section \<open>The lockout\<close>

text \<open>A series of attempts, handled one after another: of each whether it met no lock, so that its
  credentials were compared, and whether it succeeded. The series ends where the random source runs dry.\<close>

fun login_series :: "('c, string, session_data) tbb_ops \<Rightarrow> 'c session_manager \<Rightarrow> admin_login \<Rightarrow>
    (int \<times> u8 list list \<times> string \<times> string) list \<Rightarrow> (bool \<times> bool) list" where
  "login_series T m a [] = []"
| "login_series T m a ((now, draws, user, pw) # xs) =
     (case try_login T m a now draws user pw of
        None \<Rightarrow> []
      | Some (success, _, m', a') \<Rightarrow> (\<not> fst (isOnLock a now), success) # login_series T m' a' xs)"

definition wrong_compared :: "(bool \<times> bool) list \<Rightarrow> nat" where
  "wrong_compared os = length (filter (\<lambda>(was_compared, ok). was_compared \<and> \<not> ok) os)"

definition logins :: "(bool \<times> bool) list \<Rightarrow> nat" where
  "logins os = length (filter snd os)"

definition budget :: "int \<Rightarrow> admin_login \<Rightarrow> nat" where
  "budget t0 a = (if mIsLocked a then (if t0 \<le> mLockTime a then 0 else 5) else 5 - unat (mFailedCount a))"

lemma lock_holds: "now - past < 61 * 60000 \<Longrightarrow> minutes_between now past \<le> 60"
proof -
  assume a: "now - past < 61 * 60000"
  show ?thesis
  proof (cases "0 < now - past")
    case True
    then have "\<bar>now - past\<bar> div 60000 < 61" using a by linarith
    with True show ?thesis by (simp add: minutes_between_def)
  next
    case False
    have "0 \<le> \<bar>now - past\<bar> div 60000" by simp
    with False show ?thesis by (auto simp: minutes_between_def sgn_if)
  qed
qed

text \<open>A wrong attempt that is compared costs one of the budget, a successful one brings at most four.\<close>

lemma login_budget:
  assumes "try_login T m a now draws user pw = Some (ok, i, m', a')" "unat (mFailedCount a) < 5"
    "t0 \<le> now" "now < t0 + 61 * 60000"
  shows "unat (mFailedCount a') < 5
    \<and> (if \<not> fst (isOnLock a now) \<and> \<not> ok then 1 else 0) + budget t0 a' \<le> budget t0 a + (if ok then 4 else 0)"
proof -
  have held: "mIsLocked a \<Longrightarrow> t0 \<le> mLockTime a \<Longrightarrow> minutes_between now (mLockTime a) \<le> 60"
    using lock_holds assms(3,4) by simp
  have inc: "unat (w + 1) = unat w + 1" if "unat w < 5" for w :: u32
    using that by (simp add: unat_add_small)
  have five: "unat sMaxErrorTime = 5" by (simp add: sMaxErrorTime_def)
  consider (locked) "fst (isOnLock a now)" | (unlocks) "mIsLocked a" "\<not> fst (isOnLock a now)" | (unlocked) "\<not> mIsLocked a" by blast
  then show ?thesis
  proof cases
    case locked
    then have "isOnLock a now = (True, a)" by (auto simp: isOnLock_def split: if_splits)
    then show ?thesis using assms by (auto simp: try_login_def)
  next
    case unlocks
    then have "isOnLock a now = (False, a\<lparr>mIsLocked := False, mFailedCount := 0\<rparr>)" by (auto simp: isOnLock_def split: if_splits)
    moreover have "\<not> t0 \<le> mLockTime a" using unlocks held by (auto simp: isOnLock_def split: if_splits)
    ultimately show ?thesis
      using assms unlocks
      by (auto simp: try_login_def Login_def budget_def sMaxErrorTime_def split: if_splits option.splits)
  next
    case unlocked
    then have "isOnLock a now = (False, a)" by (simp add: isOnLock_def)
    then show ?thesis
      using assms unlocked inc [of "mFailedCount a"] five
      by (auto simp: try_login_def Login_def budget_def word_le_nat_alt split: if_splits option.splits)
  qed
qed

lemma series_budget:
  assumes "\<forall>(now, _) \<in> set xs. t0 \<le> now \<and> now < t0 + 61 * 60000" "unat (mFailedCount a) < 5"
  shows "wrong_compared (login_series T m a xs) \<le> budget t0 a + 4 * logins (login_series T m a xs)"
  using assms
proof (induction xs arbitrary: m a)
  case Nil
  show ?case by (simp add: wrong_compared_def)
next
  case (Cons x xs)
  obtain now draws user pw where x: "x = (now, draws, user, pw)" by (cases x)
  show ?case
  proof (cases "try_login T m a now draws user pw")
    case None
    then show ?thesis using x by (simp add: wrong_compared_def)
  next
    case (Some r)
    obtain ok i m' a' where r: "r = (ok, i, m', a')" by (cases r)
    have pay: "unat (mFailedCount a') < 5"
      "(if \<not> fst (isOnLock a now) \<and> \<not> ok then 1 else 0) + budget t0 a' \<le> budget t0 a + (if ok then 4 else 0)"
      using login_budget [OF Some [unfolded r] Cons.prems(2), of t0] Cons.prems(1) x by auto
    have "wrong_compared (login_series T m' a' xs) \<le> budget t0 a' + 4 * logins (login_series T m' a' xs)"
      by (rule Cons.IH) (use Cons.prems pay in auto)
    then show ?thesis using Some r x pay(2) by (auto simp: wrong_compared_def logins_def split: if_splits)
  qed
qed

text \<open>
  C33. Guessing the password is rate limited as long as the attempts are handled one after another: of any
  attempts, right or wrong and in any order, that are made within 61 minutes, the wrong ones that get
  compared with the credentials number at most five, and four more for every successful login among
  them, since a success starts the count again. The count is below five at first, as in a new server and
  after every attempt. (For overlapping attempts see \<open>login_race\<close>.)
\<close>
theorem login_rate_limit:
  assumes "\<forall>(now, _) \<in> set xs. t0 \<le> now \<and> now < t0 + 61 * 60000" "unat (mFailedCount a) < 5"
  shows "wrong_compared (login_series T m a xs) \<le> 5 + 4 * logins (login_series T m a xs)"
  using series_budget [OF assms, of T m] by (auto simp: budget_def split: if_splits)

text \<open>Four wrong attempts, a right one, six wrong ones: nine are compared, and the bound is met.\<close>

definition demo_attempts :: "(int \<times> u8 list list \<times> string \<times> string) list" where
  "demo_attempts = replicate 4 (0, [], ''admin'', ''x'') @ [(0, [[1]], ''admin'', ''admin'')] @ replicate 6 (0, [], ''admin'', ''x'')"

theorem login_rate_limit_witness:
  "wrong_compared (login_series rbt_ops demo_sessions (fst (AdminLogin_new (FConfigReader None))) demo_attempts) = 9
   \<and> logins (login_series rbt_ops demo_sessions (fst (AdminLogin_new (FConfigReader None))) demo_attempts) = 1
   \<and> 9 \<le> 5 + 4 * (1 :: nat)"
proof -
  let ?a = "fst (AdminLogin_new (FConfigReader None))"
  have s: "login_series rbt_ops demo_sessions ?a demo_attempts
      = replicate 4 (True, False) @ [(True, True)] @ replicate 5 (True, False) @ [(False, False)]"
    by code_simp
  have "wrong_compared (login_series rbt_ops demo_sessions ?a demo_attempts)
      \<le> 5 + 4 * logins (login_series rbt_ops demo_sessions ?a demo_attempts)"
    by (rule login_rate_limit [of _ 0])
      (auto simp: demo_attempts_def AdminLogin_new_def FConfigReader_def getCfg_def cfg_start_def)
  then show ?thesis unfolding s by (simp add: wrong_compared_def logins_def numeral_eq_Suc)
qed

text \<open>The lock ends: more than an hour after it began the right credentials are accepted again.\<close>

lemma login_after_lock:
  assumes "60 < minutes_between now (mLockTime a)" "fresh_id T m draws = Some i"
  shows "\<exists>m' a'. try_login T m a now draws (mUserName a) (mPassword a) = Some (True, i, m', a')
    \<or> \<not> mIsLocked a"
  using assms by (auto simp: try_login_def isOnLock_def Login_def addSession_def Let_def)

end
