(* ===== verification/FOrm.thy ===== *)
theory FOrm
  imports Prelude
begin

text \<open>
  The query builder (\<open>Server/src/DAO/ORM.h\<close>): conditions, fields and queries are strings put together;
  \<open>toSql\<close> is the statement. Values either stand in the text as literals or are bound to parameters.
  The reflection over an entity is its list of members in declaration order. \<open>sqlite3_mprintf\<close> with
  \<open>%Q\<close> is the argument \<open>Q\<close>.
\<close>

section \<open>Values\<close>

datatype field_val = U64 u64 | I32 i32 | Str string

datatype sql_bind = BindInt int | BindText string

definition int_to_string :: "int \<Rightarrow> string" where
  "int_to_string i = (if i < 0 then CHR ''-'' # to_string (nat (- i)) else to_string (nat i))"

text \<open>\<open>safeStr\<close> hands the C string to \<open>%Q\<close>, which ends at the first NUL.\<close>

definition safeStr :: "(string \<Rightarrow> string) \<Rightarrow> string \<Rightarrow> string" where
  "safeStr Q s = Q (takeWhile (\<lambda>c. c \<noteq> NUL) s)"

text \<open>The static overloads of \<open>to_string\<close>, and what \<open>DatabaseOperation::bind\<close> binds.\<close>

fun val_to_string :: "(string \<Rightarrow> string) \<Rightarrow> field_val \<Rightarrow> string" where
  "val_to_string Q (U64 w) = to_string (unat w)"
| "val_to_string Q (I32 w) = int_to_string (sint w)"
| "val_to_string Q (Str s) = safeStr Q s"

fun bind_val :: "field_val \<Rightarrow> sql_bind" where
  "bind_val (U64 w) = BindInt (sint w)"
| "bind_val (I32 w) = BindInt (sint w)"
| "bind_val (Str s) = BindText s"

section \<open>Conditions\<close>

type_synonym condition = string

definition cond_val :: "(string \<Rightarrow> string) \<Rightarrow> string \<Rightarrow> string \<Rightarrow> field_val \<Rightarrow> condition" where
  "cond_val Q field op val = field @ op @ val_to_string Q val"

definition cond_op :: "string \<Rightarrow> string \<Rightarrow> condition" where
  "cond_op field op = field @ op"

definition cond_join :: "condition \<Rightarrow> condition \<Rightarrow> string \<Rightarrow> condition" where
  "cond_join a b op = a @ op @ b"

definition cond_bracket :: "condition \<Rightarrow> condition \<Rightarrow> string \<Rightarrow> condition" where
  "cond_bracket a b op = ''('' @ a @ op @ b @ '')''"

definition cond_not :: "condition \<Rightarrow> condition" where
  "cond_not a = ''NOT '' @ a"

definition cond_and :: "condition \<Rightarrow> condition \<Rightarrow> condition" where
  "cond_and a b = cond_bracket a b '' AND ''"

definition cond_or :: "condition \<Rightarrow> condition \<Rightarrow> condition" where
  "cond_or a b = cond_bracket a b '' OR ''"

definition cond_minus :: "condition \<Rightarrow> condition \<Rightarrow> condition" where
  "cond_minus a b = cond_join a b '' , ''"

section \<open>Fields\<close>

text \<open>The entity type of a field, or the \<open>merge_tuples\<close> of two; that template is no \<open>std::tuple\<close>.\<close>

datatype field_type = Ent string | Merge_tuples field_type field_type

fun type_name :: "field_type \<Rightarrow> string" where
  "type_name (Ent n) = n"
| "type_name (Merge_tuples a b) = ''merge_tuples''"

record field =
  fieldSV :: string
  f_type :: field_type

text \<open>\<open>GetField\<close> looks the member name up by its offset.\<close>

definition FIELD :: "string \<Rightarrow> string \<Rightarrow> field" where
  "FIELD cls member = \<lparr>fieldSV = member, f_type = Ent cls\<rparr>"

definition field_minus :: "field \<Rightarrow> field \<Rightarrow> field" where
  "field_minus a b =
     (if f_type a \<noteq> f_type b
      then \<lparr>fieldSV = (type_name (f_type a) @ ''.'' @ fieldSV a) @ '','' @ (type_name (f_type b) @ ''.'' @ fieldSV b),
            f_type = Merge_tuples (f_type a) (f_type b)\<rparr>
      else \<lparr>fieldSV = fieldSV a @ '','' @ fieldSV b, f_type = f_type a\<rparr>)"

definition field_eq_null :: "(string \<Rightarrow> string) \<Rightarrow> field \<Rightarrow> condition" where
  "field_eq_null Q f = cond_val Q (fieldSV f) '' NOT '' (Str ''NULL'')"

definition field_ne_null :: "(string \<Rightarrow> string) \<Rightarrow> field \<Rightarrow> condition" where
  "field_ne_null Q f = cond_val Q (fieldSV f) '' IS NOT '' (Str ''NULL'')"

datatype compare_op = Op_eq | Op_ne | Op_lt | Op_le | Op_gt | Op_ge | Op_like

fun op_text :: "compare_op \<Rightarrow> string" where
  "op_text Op_eq = '' = ''"
| "op_text Op_ne = '' != ''"
| "op_text Op_lt = '' < ''"
| "op_text Op_le = '' <= ''"
| "op_text Op_gt = '' > ''"
| "op_text Op_ge = '' >= ''"
| "op_text Op_like = '' LIKE ''"

definition field_cmp :: "(string \<Rightarrow> string) \<Rightarrow> compare_op \<Rightarrow> field \<Rightarrow> field_val \<Rightarrow> condition" where
  "field_cmp Q op f val = cond_val Q (fieldSV f) (op_text op) val"

fun param_text :: "compare_op \<Rightarrow> string" where
  "param_text Op_eq = '' = ? ''"
| "param_text Op_ne = '' != ? ''"
| "param_text Op_lt = '' < ?''"
| "param_text Op_le = '' <= ? ''"
| "param_text Op_gt = '' > ? ''"
| "param_text Op_ge = '' >= ? ''"
| "param_text Op_like = '' LIKE ? ''"

definition field_param :: "compare_op \<Rightarrow> field \<Rightarrow> condition" where
  "field_param op f = cond_op (fieldSV f) (param_text op)"

section \<open>Queries\<close>

text \<open>An entity: its table, its key if it has an automatic one, and its members with their values.\<close>

record entity =
  e_table :: string
  e_pk :: "string option"
  e_members :: "(string \<times> field_val) list"

record sql_query =
  selectTableName :: string
  insertValues :: string
  whereStr :: string
  q_order :: string
  q_set :: string
  mskip :: int
  mlimit :: int
  q_op :: string
  isStaticQuery :: bool

definition Query_new :: sql_query where
  "Query_new = \<lparr>selectTableName = [], insertValues = [], whereStr = [], q_order = [], q_set = [], mskip = 0,
     mlimit = 0, q_op = [], isStaticQuery = False\<rparr>"

definition Query_of_field :: "field \<Rightarrow> sql_query" where
  "Query_of_field f = Query_new\<lparr>q_op := ''SELECT '' @ fieldSV f @ '' FROM ''\<rparr>"

text \<open>\<open>SelectCount\<close> holds \<open>*\<close> unless it is made of a field or a condition.\<close>

definition q_SelectCount :: "string \<Rightarrow> sql_query \<Rightarrow> sql_query" where
  "q_SelectCount what q = q\<lparr>q_op := '' SELECT COUNT('' @ what @ '') FROM ''\<rparr>"

definition q_Select :: "string \<Rightarrow> sql_query \<Rightarrow> sql_query" where
  "q_Select table q = q\<lparr>q_op := '' SELECT * FROM '', selectTableName := table\<rparr>"

definition q_From :: "string \<Rightarrow> sql_query \<Rightarrow> sql_query" where
  "q_From table q = q\<lparr>selectTableName := table\<rparr>"

definition q_Delete :: "string \<Rightarrow> sql_query \<Rightarrow> sql_query" where
  "q_Delete table q = q\<lparr>q_op := '' DELETE FROM '', selectTableName := table\<rparr>"

definition q_update :: "string \<Rightarrow> condition \<Rightarrow> sql_query \<Rightarrow> sql_query" where
  "q_update table setVal q = q\<lparr>q_op := ''  UPDATE '', selectTableName := table, q_set := '' SET '' @ setVal\<rparr>"

definition q_Where :: "condition \<Rightarrow> sql_query \<Rightarrow> sql_query" where
  "q_Where c q = q\<lparr>whereStr := c\<rparr>"

definition q_OrderBy :: "field \<Rightarrow> sql_query \<Rightarrow> sql_query" where
  "q_OrderBy f q = q\<lparr>q_order := ''ORDER BY '' @ fieldSV f\<rparr>"

definition q_OrderByDesc :: "field \<Rightarrow> sql_query \<Rightarrow> sql_query" where
  "q_OrderByDesc f q = q\<lparr>q_order := ''ORDER BY '' @ fieldSV f @ '' DESC ''\<rparr>"

definition q_skip :: "int \<Rightarrow> sql_query \<Rightarrow> sql_query" where
  "q_skip s q = q\<lparr>mskip := s\<rparr>"

definition q_limit :: "int \<Rightarrow> sql_query \<Rightarrow> sql_query" where
  "q_limit s q = q\<lparr>mlimit := s\<rparr>"

definition q_skip_param :: "sql_query \<Rightarrow> sql_query" where
  "q_skip_param q = q\<lparr>mskip := -1\<rparr>"

definition q_limit_param :: "sql_query \<Rightarrow> sql_query" where
  "q_limit_param q = q\<lparr>mlimit := -1\<rparr>"

definition q_setStatic :: "bool \<Rightarrow> sql_query \<Rightarrow> sql_query" where
  "q_setStatic b q = q\<lparr>isStaticQuery := b\<rparr>"

text \<open>The loops over the members: \<open>sep\<close> before every member but the first.\<close>

fun joined :: "string \<Rightarrow> string list \<Rightarrow> string" where
  "joined sep [] = []"
| "joined sep [x] = x"
| "joined sep (x # y # xs) = x @ sep @ joined sep (y # xs)"

definition getClsDefineList :: "entity \<Rightarrow> string" where
  "getClsDefineList e = ''('' @ joined '' , '' (map fst (e_members e)) @ '') ''"

definition getClsValueList :: "(string \<Rightarrow> string) \<Rightarrow> entity \<Rightarrow> string" where
  "getClsValueList Q e = ''('' @ joined '','' (map (\<lambda>m. val_to_string Q (snd m)) (e_members e)) @ '') ''"

definition getClsValueListParam :: "entity \<Rightarrow> string" where
  "getClsValueListParam e = ''('' @ joined '','' (map (\<lambda>m. '' ? '') (e_members e)) @ '') ''"

definition getInsertList :: "entity \<Rightarrow> string" where
  "getInsertList e =
     (case e_pk e of
        Some pk \<Rightarrow> ''('' @ joined '' , '' (map fst (filter (\<lambda>m. fst m \<noteq> pk) (e_members e))) @ '') ''
      | None \<Rightarrow> getClsDefineList e)"

definition getInsertValueList :: "(string \<Rightarrow> string) \<Rightarrow> entity \<Rightarrow> string" where
  "getInsertValueList Q e =
     (case e_pk e of
        Some pk \<Rightarrow> ''('' @ joined '' , '' (map (\<lambda>m. val_to_string Q (snd m)) (filter (\<lambda>m. fst m \<noteq> pk) (e_members e))) @ '') ''
      | None \<Rightarrow> getClsValueList Q e)"

definition q_InsertWithAutoIncPk :: "(string \<Rightarrow> string) \<Rightarrow> entity \<Rightarrow> sql_query \<Rightarrow> sql_query" where
  "q_InsertWithAutoIncPk Q e q =
     q\<lparr>q_op := '' INSERT INTO '', selectTableName := e_table e @ getInsertList e,
       insertValues := '' VALUES '' @ getInsertValueList Q e\<rparr>"

definition q_Insert :: "(string \<Rightarrow> string) \<Rightarrow> entity \<Rightarrow> sql_query \<Rightarrow> sql_query" where
  "q_Insert Q e q =
     q\<lparr>q_op := '' INSERT INTO '', selectTableName := e_table e @ getClsDefineList e,
       insertValues := '' VALUES '' @ getClsValueList Q e\<rparr>"

definition toSql :: "sql_query \<Rightarrow> string" where
  "toSql q =
     q_op q @ selectTableName q @ q_set q @ insertValues q
     @ (if whereStr q \<noteq> [] then '' WHERE '' @ whereStr q else [])
     @ (if q_order q \<noteq> [] then '' '' @ q_order q else [])
     @ (if 0 < mlimit q then '' LIMIT '' @ int_to_string (mlimit q) else [])
     @ (if mlimit q < 0 then '' LIMIT ? '' else [])
     @ (if 0 < mskip q then '' OFFSET '' @ int_to_string (mskip q) else [])
     @ (if mskip q < 0 then '' OFFSET ? '' else [])
     @ '';''"

section \<open>Statements as SQL reads them\<close>

text \<open>A lexer for the string literals of SQL: the statement with every literal replaced by a mark, and
  the contents of the literals; None when a literal does not end.\<close>

abbreviation quote :: char where "quote \<equiv> CHR 0x27"
abbreviation mark :: char where "mark \<equiv> CHR 0x01"

fun lex_literal :: "string \<Rightarrow> (string \<times> string) option" where
  "lex_literal [] = None"
| "lex_literal [c] = (if c = quote then Some ([], []) else None)"
| "lex_literal (c # d # cs) =
     (if c \<noteq> quote then map_option (\<lambda>(t, r). (c # t, r)) (lex_literal (d # cs))
      else if d = quote then map_option (\<lambda>(t, r). (quote # t, r)) (lex_literal cs)
      else Some ([], d # cs))"

lemma lex_literal_shorter: "lex_literal s = Some (t, r) \<Longrightarrow> length r < length s"
  by (induction s arbitrary: t rule: lex_literal.induct) (auto split: if_splits)

function sql_lex :: "string \<Rightarrow> (string \<times> string list) option" where
  "sql_lex [] = Some ([], [])"
| "sql_lex (c # cs) =
     (if c \<noteq> quote then map_option (\<lambda>(sk, ls). (c # sk, ls)) (sql_lex cs)
      else (case lex_literal cs of
              None \<Rightarrow> None
            | Some (t, r) \<Rightarrow> map_option (\<lambda>(sk, ls). (mark # sk, t # ls)) (sql_lex r)))"
  by pat_completeness auto
termination by (relation "measure length") (auto dest: lex_literal_shorter)

text \<open>What SQLite documents of \<open>%Q\<close>: the text between quotes, every quote in it doubled.\<close>

definition doubled :: "string \<Rightarrow> string" where
  "doubled s = concat (map (\<lambda>c. if c = quote then [quote, quote] else [c]) s)"

definition quotes_text :: "(string \<Rightarrow> string) \<Rightarrow> bool" where
  "quotes_text Q \<longleftrightarrow> (\<forall>s. NUL \<notin> set s \<longrightarrow> Q s = quote # doubled s @ [quote])"

lemma lex_doubled: "r = [] \<or> hd r \<noteq> quote \<Longrightarrow> lex_literal (doubled s @ quote # r) = Some (s, r)"
proof (induction s)
  case Nil
  then show ?case by (cases r) (auto simp: doubled_def)
next
  case (Cons c s)
  have "doubled s @ quote # r \<noteq> []" by simp
  then obtain d ds where "doubled s @ quote # r = d # ds" by (cases "doubled s @ quote # r") auto
  then show ?case using Cons by (auto simp: doubled_def)
qed

lemma lex_plain: "quote \<notin> set p \<Longrightarrow> sql_lex (p @ s) = map_option (\<lambda>(sk, ls). (p @ sk, ls)) (sql_lex s)"
  by (induction p) (auto simp: option.map_comp comp_def case_prod_unfold intro!: option.map_ident_strong [symmetric])

lemma lex_quoted:
  assumes "quotes_text Q" "NUL \<notin> set s" "r = [] \<or> hd r \<noteq> quote"
  shows "sql_lex (Q s @ r) = map_option (\<lambda>(sk, ls). (mark # sk, s # ls)) (sql_lex r)"
  using assms lex_doubled [of r s] by (simp add: quotes_text_def)

text \<open>The literals of a value; where they stand, a quotation that gives the mark shows.\<close>

definition marked :: "string \<Rightarrow> string" where
  "marked s = [mark]"

fun val_literals :: "field_val \<Rightarrow> string list" where
  "val_literals (Str s) = [takeWhile (\<lambda>c. c \<noteq> NUL) s]"
| "val_literals v = []"

lemma quote_free_digits: "quote \<notin> set (to_string n)"
  using to_string_digits [of n] by (auto simp: isdigit_code)

lemma quote_free_int: "quote \<notin> set (int_to_string i)"
  by (simp add: int_to_string_def quote_free_digits)

lemma lex_val:
  assumes "quotes_text Q" "r = [] \<or> hd r \<noteq> quote"
  shows "sql_lex (val_to_string Q v @ r) =
    map_option (\<lambda>(sk, ls). (val_to_string marked v @ sk, val_literals v @ ls)) (sql_lex r)"
proof (cases v)
  case (Str s)
  have "NUL \<notin> set (takeWhile (\<lambda>c. c \<noteq> NUL) s)" by (auto dest: set_takeWhileD)
  then show ?thesis using lex_quoted [OF assms(1) _ assms(2)] Str by (simp add: safeStr_def marked_def)
qed (simp_all add: lex_plain quote_free_digits quote_free_int)

lemma lex_joined:
  assumes "quotes_text Q" "sep \<noteq> []" "quote \<notin> set sep" "r = [] \<or> hd r \<noteq> quote"
  shows "sql_lex (joined sep (map (val_to_string Q) vs) @ r) =
    map_option (\<lambda>(sk, ls). (joined sep (map (val_to_string marked) vs) @ sk, concat (map val_literals vs) @ ls)) (sql_lex r)"
proof (induction vs)
  case Nil
  then show ?case by (auto intro!: option.map_ident_strong [symmetric])
next
  case (Cons v vs)
  show ?case
  proof (cases vs)
    case Nil
    then show ?thesis using lex_val [OF assms(1,4)] by simp
  next
    case (Cons w ws)
    let ?rest = "joined sep (map (val_to_string Q) vs) @ r"
    have "hd (sep @ ?rest) \<noteq> quote" using assms(2,3) by (metis hd_append2 hd_in_set)
    then have "sql_lex (val_to_string Q v @ sep @ ?rest) =
        map_option (\<lambda>(sk, ls). (val_to_string marked v @ sk, val_literals v @ ls))
          (map_option (\<lambda>(sk, ls). (sep @ sk, ls)) (sql_lex ?rest))"
      using lex_val [OF assms(1), of "sep @ ?rest" v] lex_plain [OF assms(3), of ?rest] by simp
    then show ?thesis using Cons.IH Cons by (simp add: option.map_comp comp_def case_prod_unfold)
  qed
qed

definition inserted :: "entity \<Rightarrow> (string \<times> field_val) list" where
  "inserted e = (case e_pk e of Some pk \<Rightarrow> filter (\<lambda>m. fst m \<noteq> pk) (e_members e) | None \<Rightarrow> e_members e)"

lemma quote_free_joined: "quote \<notin> set sep \<Longrightarrow> \<forall>x \<in> set xs. quote \<notin> set x \<Longrightarrow> quote \<notin> set (joined sep xs)"
  by (induction sep xs rule: joined.induct) auto

text \<open>
  C32. What is inserted stays data: whatever texts an entity holds, SQL reads the INSERT statement as the
  one fixed statement with a string literal at each text member, and the literals are those texts, up to
  their first NUL. No text can end its literal and become part of the statement.
\<close>
theorem insert_no_injection:
  assumes "quotes_text Q" "quote \<notin> set (e_table e)" "\<forall>m \<in> set (e_members e). quote \<notin> set (fst m)"
  shows "sql_lex (toSql (q_InsertWithAutoIncPk Q e Query_new)) =
    Some (toSql (q_InsertWithAutoIncPk marked e Query_new), concat (map (\<lambda>m. val_literals (snd m)) (inserted e)))"
proof -
  define sep where "sep = (case e_pk e of Some pk \<Rightarrow> '' , '' | None \<Rightarrow> '','')"
  define vals where "vals = map snd (inserted e)"
  define pre where "pre = '' INSERT INTO '' @ e_table e @ getInsertList e @ '' VALUES ('' "
  have text_of: "toSql (q_InsertWithAutoIncPk Q' e Query_new) = pre @ joined sep (map (val_to_string Q') vals) @ '') ;''" for Q'
    by (simp add: toSql_def q_InsertWithAutoIncPk_def Query_new_def pre_def sep_def vals_def inserted_def
        getInsertValueList_def getClsValueList_def comp_def split: option.split)
  have "\<forall>x \<in> set (map fst ms). quote \<notin> set x" if "set ms \<subseteq> set (e_members e)" for ms
    using assms(3) that by auto
  then have "quote \<notin> set (joined '' , '' (map fst ms))" if "set ms \<subseteq> set (e_members e)" for ms
    using that by (intro quote_free_joined) auto
  then have "quote \<notin> set pre"
    using assms(2) by (auto simp: pre_def getInsertList_def getClsDefineList_def split: option.split)
  moreover have "sep \<noteq> []" "quote \<notin> set sep" by (auto simp: sep_def split: option.split)
  moreover have "sql_lex '') ;'' = Some ('') ;'', [])" by simp
  moreover have "concat (map (\<lambda>m. val_literals (snd m)) (inserted e)) = concat (map val_literals vals)"
    by (simp add: vals_def comp_def)
  ultimately show ?thesis by (simp add: text_of lex_plain lex_joined [OF assms(1)])
qed

definition demo_Q :: "string \<Rightarrow> string" where
  "demo_Q s = quote # doubled s @ [quote]"

definition demo_entity :: entity where
  "demo_entity = \<lparr>e_table = ''Tags'', e_pk = Some ''id'',
     e_members = [(''id'', U64 1), (''name'', Str ([quote] @ ''); DROP TABLE Tags; --'')), (''n'', I32 (-2))]\<rparr>"

theorem insert_no_injection_witness:
  "\<exists>sk. sql_lex (toSql (q_InsertWithAutoIncPk demo_Q demo_entity Query_new)) = Some (sk, [quote # ''); DROP TABLE Tags; --''])"
  using insert_no_injection [of demo_Q demo_entity]
  by (simp add: quotes_text_def demo_Q_def demo_entity_def inserted_def)

end
