(* ===== verification/FDao.thy ===== *)
theory FDao
  imports FOrm
begin

text \<open>
  The data access objects (\<open>Server/src/DAO/QueryPosts.cpp\<close>, \<open>CategoryQuery.cpp\<close>, \<open>PhotoQuery.cpp\<close>,
  \<open>AlbumQuery.cpp\<close>) and their entities (\<open>Server/src/Model\<close>). A query is a statement with the values bound
  to its parameters. SQLite is the argument \<open>run\<close>: it takes the text, the bindings and the database, and
  gives the error if any, the rows and the new database. A column is what SQLite says of it as an
  integer and as a text (None for NULL).
\<close>

section \<open>Rows\<close>

type_synonym column = "int \<times> string option"

type_synonym 'db runner = "string \<Rightarrow> sql_bind list \<Rightarrow> 'db \<Rightarrow> string option \<times> column list list \<times> 'db"

datatype col_kind = K64 | K32 | KText

datatype col_error = ColOutofRange

text \<open>\<open>DBResult::setByCol\<close> by the type of the member.\<close>

definition col_u64 :: "column \<Rightarrow> u64" where
  "col_u64 c = word_of_int (fst c)"

definition col_i32 :: "column \<Rightarrow> i32" where
  "col_i32 c = word_of_int (fst c)"

definition col_str :: "column \<Rightarrow> string" where
  "col_str c = (case snd c of None \<Rightarrow> [] | Some s \<Rightarrow> takeWhile (\<lambda>c. c \<noteq> NUL) s)"

fun setByCol :: "col_kind \<Rightarrow> column \<Rightarrow> field_val" where
  "setByCol K64 c = U64 (col_u64 c)"
| "setByCol K32 c = I32 (col_i32 c)"
| "setByCol KText c = Str (col_str c)"

text \<open>\<open>ToEntity\<close> for a tuple: the columns in order; reading one that is not there throws. Those of the
  entities are below.\<close>

fun ToEntity :: "col_kind list \<Rightarrow> column list \<Rightarrow> col_error + field_val list" where
  "ToEntity [] row = Inr []"
| "ToEntity (k # ks) [] = Inl ColOutofRange"
| "ToEntity (k # ks) (c # row) =
     (case ToEntity ks row of Inl e \<Rightarrow> Inl e | Inr vs \<Rightarrow> Inr (setByCol k c # vs))"

fun getVector :: "(column list \<Rightarrow> col_error + 'a) \<Rightarrow> column list list \<Rightarrow> col_error + 'a list" where
  "getVector dec [] = Inr []"
| "getVector dec (row # rows) =
     (case dec row of
        Inl e \<Rightarrow> Inl e
      | Inr v \<Rightarrow> (case getVector dec rows of Inl e \<Rightarrow> Inl e | Inr vs \<Rightarrow> Inr (v # vs)))"

text \<open>A statement: the query and the values for its parameters.\<close>

type_synonym stmt = "sql_query \<times> field_val list"

definition exec :: "'db runner \<Rightarrow> stmt \<Rightarrow> 'db \<Rightarrow> string option \<times> column list list \<times> 'db" where
  "exec run st db = run (toSql (fst st)) (map bind_val (snd st)) db"

text \<open>The shapes of the operations: all rows, the first row, an update. A count reads the first row, and
  \<open>Inr None\<close> is the access beyond the end of the vector when there is none.\<close>

definition fetch_all :: "'db runner \<Rightarrow> (column list \<Rightarrow> col_error + 'a) \<Rightarrow> stmt \<Rightarrow> 'db \<Rightarrow> (col_error + 'a list) \<times> 'db" where
  "fetch_all run dec st db = (let (_, rows, db') = exec run st db in (getVector dec rows, db'))"

definition fetch_first :: "'db runner \<Rightarrow> (column list \<Rightarrow> col_error + 'a) \<Rightarrow> stmt \<Rightarrow> 'db \<Rightarrow> (col_error + 'a option) \<times> 'db" where
  "fetch_first run dec st db =
     (let (r, db') = fetch_all run dec st db
      in (case r of Inl e \<Rightarrow> Inl e | Inr [] \<Rightarrow> Inr None | Inr (v # _) \<Rightarrow> Inr (Some v), db'))"

definition execute :: "'db runner \<Rightarrow> stmt \<Rightarrow> 'db \<Rightarrow> string option \<times> 'db" where
  "execute run st db = (let (err, _, db') = exec run st db in (err, db'))"

section \<open>Entities\<close>

text \<open>The reflection of a class: its members in the order of their declaration, each with its name and a
  reference to it, to read (\<open>reflect::get\<close>) and to assign a column to (\<open>setByCol\<close>). What the insertions
  write and what \<open>ToEntity\<close> assigns both go over this one list. \<open>T temp{}\<close> has every member zero or empty.\<close>

record 'a member =
  m_name :: string
  m_get :: "'a \<Rightarrow> field_val"
  m_setByCol :: "column \<Rightarrow> 'a \<Rightarrow> 'a"

definition member64 :: "string \<Rightarrow> ('a \<Rightarrow> u64) \<Rightarrow> ((u64 \<Rightarrow> u64) \<Rightarrow> 'a \<Rightarrow> 'a) \<Rightarrow> 'a member" where
  "member64 n get upd = \<lparr>m_name = n, m_get = (\<lambda>e. U64 (get e)), m_setByCol = (\<lambda>c. upd (\<lambda>_. col_u64 c))\<rparr>"

definition member32 :: "string \<Rightarrow> ('a \<Rightarrow> i32) \<Rightarrow> ((i32 \<Rightarrow> i32) \<Rightarrow> 'a \<Rightarrow> 'a) \<Rightarrow> 'a member" where
  "member32 n get upd = \<lparr>m_name = n, m_get = (\<lambda>e. I32 (get e)), m_setByCol = (\<lambda>c. upd (\<lambda>_. col_i32 c))\<rparr>"

definition member_text :: "string \<Rightarrow> ('a \<Rightarrow> string) \<Rightarrow> ((string \<Rightarrow> string) \<Rightarrow> 'a \<Rightarrow> 'a) \<Rightarrow> 'a member" where
  "member_text n get upd = \<lparr>m_name = n, m_get = (\<lambda>e. Str (get e)), m_setByCol = (\<lambda>c. upd (\<lambda>_. col_str c))\<rparr>"

definition reflected :: "string \<Rightarrow> string option \<Rightarrow> 'a member list \<Rightarrow> 'a \<Rightarrow> entity" where
  "reflected table pk ms e = \<lparr>e_table = table, e_pk = pk, e_members = map (\<lambda>m. (m_name m, m_get m e)) ms\<rparr>"

fun set_members :: "'a member list \<Rightarrow> column list \<Rightarrow> 'a \<Rightarrow> col_error + 'a" where
  "set_members [] row temp = Inr temp"
| "set_members (m # ms) [] temp = Inl ColOutofRange"
| "set_members (m # ms) (c # row) temp = set_members ms row (m_setByCol m c temp)"

record post =
  po_id :: u64
  po_user_id :: u64
  po_title :: string
  po_category_id :: u64
  po_profile :: string
  po_titlepic :: string
  po_content :: string
  po_tags :: string
  po_status :: i32
  po_created_at :: u64
  po_updated_at :: u64
  po_view_times :: u64
  po_allow_comment :: i32
  po_allow_rss :: i32
  po_hide :: i32
  po_script_name :: string

definition post_members :: "post member list" where
  "post_members =
     [member64 ''id'' po_id po_id_update,
      member64 ''user_id'' po_user_id po_user_id_update,
      member_text ''title'' po_title po_title_update,
      member64 ''category_id'' po_category_id po_category_id_update,
      member_text ''profile'' po_profile po_profile_update,
      member_text ''titlepic'' po_titlepic po_titlepic_update,
      member_text ''content'' po_content po_content_update,
      member_text ''tags'' po_tags po_tags_update,
      member32 ''status'' po_status po_status_update,
      member64 ''created_at'' po_created_at po_created_at_update,
      member64 ''updated_at'' po_updated_at po_updated_at_update,
      member64 ''view_times'' po_view_times po_view_times_update,
      member32 ''allow_comment'' po_allow_comment po_allow_comment_update,
      member32 ''allow_rss'' po_allow_rss po_allow_rss_update,
      member32 ''hide'' po_hide po_hide_update,
      member_text ''script_name'' po_script_name po_script_name_update]"

definition post_entity :: "post \<Rightarrow> entity" where
  "post_entity = reflected ''Posts'' (Some ''id'') post_members"

definition post_zero :: post where
  "post_zero = \<lparr>po_id = 0, po_user_id = 0, po_title = [], po_category_id = 0, po_profile = [],
     po_titlepic = [], po_content = [], po_tags = [], po_status = 0, po_created_at = 0, po_updated_at = 0,
     po_view_times = 0, po_allow_comment = 0, po_allow_rss = 0, po_hide = 0, po_script_name = []\<rparr>"

definition post_of :: "column list \<Rightarrow> col_error + post" where
  "post_of row = set_members post_members row post_zero"

record category =
  ca_id :: u64
  ca_name :: string
  ca_categorypic :: string

definition category_members :: "category member list" where
  "category_members =
     [member64 ''id'' ca_id ca_id_update,
      member_text ''name'' ca_name ca_name_update,
      member_text ''categorypic'' ca_categorypic ca_categorypic_update]"

definition category_entity :: "category \<Rightarrow> entity" where
  "category_entity = reflected ''Categories'' (Some ''id'') category_members"

definition category_zero :: category where
  "category_zero = \<lparr>ca_id = 0, ca_name = [], ca_categorypic = []\<rparr>"

definition category_of :: "column list \<Rightarrow> col_error + category" where
  "category_of row = set_members category_members row category_zero"

record photo =
  ph_id :: u64
  ph_album_id :: u64
  ph_url :: string
  ph_caption :: string
  ph_sort_order :: i32
  ph_created_at :: u64
  ph_title :: string
  ph_description :: string
  ph_view_times :: u64
  ph_width :: i32
  ph_height :: i32

definition photo_members :: "photo member list" where
  "photo_members =
     [member64 ''id'' ph_id ph_id_update,
      member64 ''album_id'' ph_album_id ph_album_id_update,
      member_text ''url'' ph_url ph_url_update,
      member_text ''caption'' ph_caption ph_caption_update,
      member32 ''sort_order'' ph_sort_order ph_sort_order_update,
      member64 ''created_at'' ph_created_at ph_created_at_update,
      member_text ''title'' ph_title ph_title_update,
      member_text ''description'' ph_description ph_description_update,
      member64 ''view_times'' ph_view_times ph_view_times_update,
      member32 ''width'' ph_width ph_width_update,
      member32 ''height'' ph_height ph_height_update]"

definition photo_entity :: "photo \<Rightarrow> entity" where
  "photo_entity = reflected ''Photos'' (Some ''id'') photo_members"

definition photo_zero :: photo where
  "photo_zero = \<lparr>ph_id = 0, ph_album_id = 0, ph_url = [], ph_caption = [], ph_sort_order = 0,
     ph_created_at = 0, ph_title = [], ph_description = [], ph_view_times = 0, ph_width = 0,
     ph_height = 0\<rparr>"

definition photo_of :: "column list \<Rightarrow> col_error + photo" where
  "photo_of row = set_members photo_members row photo_zero"

record album =
  al_id :: u64
  al_name :: string
  al_description :: string
  al_cover_url :: string
  al_sort_order :: i32
  al_created_at :: u64

definition album_members :: "album member list" where
  "album_members =
     [member64 ''id'' al_id al_id_update,
      member_text ''name'' al_name al_name_update,
      member_text ''description'' al_description al_description_update,
      member_text ''cover_url'' al_cover_url al_cover_url_update,
      member32 ''sort_order'' al_sort_order al_sort_order_update,
      member64 ''created_at'' al_created_at al_created_at_update]"

definition album_entity :: "album \<Rightarrow> entity" where
  "album_entity = reflected ''Albums'' (Some ''id'') album_members"

definition album_zero :: album where
  "album_zero = \<lparr>al_id = 0, al_name = [], al_description = [], al_cover_url = [], al_sort_order = 0,
     al_created_at = 0\<rparr>"

definition album_of :: "column list \<Rightarrow> col_error + album" where
  "album_of row = set_members album_members row album_zero"

lemmas photo_reads = photo_of_def photo_members_def photo_zero_def member64_def member32_def member_text_def

section \<open>Lists of fields and assignments\<close>

text \<open>\<open>FIELD(C, a) - FIELD(C, b) - ...\<close>, and \<open>(FIELD(C, a) == PARAM) - (FIELD(C, b) == PARAM) - ...\<close>.\<close>

definition fields :: "string \<Rightarrow> string list \<Rightarrow> field" where
  "fields cls ns = foldl (\<lambda>f n. field_minus f (FIELD cls n)) (FIELD cls (hd ns)) (tl ns)"

abbreviation is_param :: "string \<Rightarrow> string \<Rightarrow> condition" where
  "is_param cls n \<equiv> field_param Op_eq (FIELD cls n)"

definition assignments :: "string \<Rightarrow> string list \<Rightarrow> condition" where
  "assignments cls ns = foldl (\<lambda>c n. cond_minus c (is_param cls n)) (is_param cls (hd ns)) (tl ns)"

text \<open>\<open>FIELD(Model::Post, hide) == 0\<close>.\<close>

definition not_hidden :: condition where
  "not_hidden = field_cmp marked Op_eq (FIELD ''Post'' ''hide'') (I32 0)"

section \<open>Posts\<close>

definition QueryPostsDataProfileSinceLastByPageDesc_stmt :: "u64 \<Rightarrow> i32 \<Rightarrow> stmt" where
  "QueryPostsDataProfileSinceLastByPageDesc_stmt lastId perPageNum =
     (q_setStatic True (q_OrderByDesc (FIELD ''Post'' ''id'') (q_limit_param (q_Where (field_param Op_gt (FIELD ''Post'' ''id'')) (q_From ''Posts'' (Query_of_field (fields ''Post'' [''id'', ''title'', ''profile'', ''created_at'', ''updated_at'', ''tags'', ''category_id''])))))),
      [U64 lastId, I32 perPageNum])"

definition QueryPostsDataProfileSinceLastByPageDesc :: "'db runner \<Rightarrow> u64 \<Rightarrow> i32 \<Rightarrow> 'db \<Rightarrow> (col_error + field_val list list) \<times> 'db" where
  "QueryPostsDataProfileSinceLastByPageDesc run lastId perPageNum db = fetch_all run (ToEntity [K64, KText, KText, K64, K64, KText, K64]) (QueryPostsDataProfileSinceLastByPageDesc_stmt lastId perPageNum) db"

definition QueryPostDataProfile_stmt :: "u64 \<Rightarrow> i32 \<Rightarrow> stmt" where
  "QueryPostDataProfile_stmt pageIdx perPageNum =
     (q_setStatic True (q_OrderByDesc (FIELD ''Post'' ''created_at'') (q_limit_param (q_skip_param (q_Where (not_hidden) (q_From ''Posts'' (Query_of_field (fields ''Post'' [''id'', ''title'', ''profile'', ''created_at'', ''updated_at'', ''titlepic'', ''category_id'', ''view_times'']))))))),
      [I32 perPageNum, U64 (pageIdx * scast perPageNum)])"

definition QueryPostDataProfile :: "'db runner \<Rightarrow> u64 \<Rightarrow> i32 \<Rightarrow> 'db \<Rightarrow> (col_error + field_val list list) \<times> 'db" where
  "QueryPostDataProfile run pageIdx perPageNum db = fetch_all run (ToEntity [K64, KText, KText, K64, K64, KText, K64, K64]) (QueryPostDataProfile_stmt pageIdx perPageNum) db"

definition QueryPostDataProfileByCategoryId_stmt :: "u64 \<Rightarrow> u64 \<Rightarrow> i32 \<Rightarrow> stmt" where
  "QueryPostDataProfileByCategoryId_stmt categoryId pageIdx perPageNum =
     (q_setStatic True (q_OrderByDesc (FIELD ''Post'' ''created_at'') (q_limit_param (q_skip_param (q_Where (cond_and (is_param ''Post'' ''category_id'') not_hidden) (q_From ''Posts'' (Query_of_field (fields ''Post'' [''id'', ''title'', ''profile'', ''created_at'', ''updated_at'', ''titlepic'', ''view_times'']))))))),
      [U64 categoryId, I32 perPageNum, U64 (pageIdx * scast perPageNum)])"

definition QueryPostDataProfileByCategoryId :: "'db runner \<Rightarrow> u64 \<Rightarrow> u64 \<Rightarrow> i32 \<Rightarrow> 'db \<Rightarrow> (col_error + field_val list list) \<times> 'db" where
  "QueryPostDataProfileByCategoryId run categoryId pageIdx perPageNum db = fetch_all run (ToEntity [K64, KText, KText, K64, K64, KText, K64]) (QueryPostDataProfileByCategoryId_stmt categoryId pageIdx perPageNum) db"

definition QueryPostsForArchive_stmt :: "stmt" where
  "QueryPostsForArchive_stmt =
     (q_setStatic True (q_OrderByDesc (FIELD ''Post'' ''created_at'') (q_Where (not_hidden) (q_From ''Posts'' (Query_of_field (fields ''Post'' [''id'', ''title'', ''profile'', ''titlepic'', ''created_at'', ''view_times'']))))),
      [])"

definition QueryPostsForArchive :: "'db runner \<Rightarrow> 'db \<Rightarrow> (col_error + field_val list list) \<times> 'db" where
  "QueryPostsForArchive run db = fetch_all run (ToEntity [K64, KText, KText, KText, K64, K64]) (QueryPostsForArchive_stmt) db"

definition QueryPostsBasicStatusByPage_stmt :: "u64 \<Rightarrow> i32 \<Rightarrow> stmt" where
  "QueryPostsBasicStatusByPage_stmt lastId perPageNum =
     (q_setStatic True (q_OrderByDesc (FIELD ''Post'' ''id'') (q_limit_param (q_Where (field_param Op_gt (FIELD ''Post'' ''id'')) (q_From ''Posts'' (Query_of_field (fields ''Post'' [''id'', ''title'', ''created_at'', ''updated_at''])))))),
      [U64 lastId, I32 perPageNum])"

definition QueryPostsBasicStatusByPage :: "'db runner \<Rightarrow> u64 \<Rightarrow> i32 \<Rightarrow> 'db \<Rightarrow> (col_error + field_val list list) \<times> 'db" where
  "QueryPostsBasicStatusByPage run lastId perPageNum db = fetch_all run (ToEntity [K64, KText, K64, K64]) (QueryPostsBasicStatusByPage_stmt lastId perPageNum) db"

definition QueryPostById_stmt :: "u64 \<Rightarrow> stmt" where
  "QueryPostById_stmt postId =
     (q_setStatic True (q_Where (is_param ''Post'' ''id'') (q_Select ''Posts'' Query_new)),
      [U64 postId])"

definition QueryPostById :: "'db runner \<Rightarrow> u64 \<Rightarrow> 'db \<Rightarrow> (col_error + post option) \<times> 'db" where
  "QueryPostById run postId db = fetch_first run post_of (QueryPostById_stmt postId) db"

definition QueryPostIdByTitle_stmt :: "string \<Rightarrow> stmt" where
  "QueryPostIdByTitle_stmt postName =
     (q_setStatic True (q_From ''Posts'' (q_Where (is_param ''Post'' ''title'') (Query_of_field (fields ''Post'' [''id''])))),
      [Str postName])"

definition QueryPostIdByTitle :: "'db runner \<Rightarrow> string \<Rightarrow> 'db \<Rightarrow> (col_error + field_val list option) \<times> 'db" where
  "QueryPostIdByTitle run postName db = fetch_first run (ToEntity [K64]) (QueryPostIdByTitle_stmt postName) db"

definition QueryPostByTitle_stmt :: "string \<Rightarrow> stmt" where
  "QueryPostByTitle_stmt postName =
     (q_setStatic True (q_Where (is_param ''Post'' ''title'') (q_Select ''Posts'' Query_new)),
      [Str postName])"

definition QueryPostByTitle :: "'db runner \<Rightarrow> string \<Rightarrow> 'db \<Rightarrow> (col_error + post option) \<times> 'db" where
  "QueryPostByTitle run postName db = fetch_first run post_of (QueryPostByTitle_stmt postName) db"

definition QueryPostsDataWithCategoryProfileSinceLastByPageDesc_stmt :: "u64 \<Rightarrow> u64 \<Rightarrow> i32 \<Rightarrow> stmt" where
  "QueryPostsDataWithCategoryProfileSinceLastByPageDesc_stmt lastId categoryId perPageNum =
     (q_setStatic True (q_OrderByDesc (FIELD ''Post'' ''id'') (q_limit_param (q_Where (cond_and (field_param Op_gt (FIELD ''Post'' ''id'')) (is_param ''Post'' ''category_id'')) (q_From ''Posts'' (Query_of_field (fields ''Post'' [''id'', ''title'', ''profile'', ''created_at'', ''updated_at'', ''tags''])))))),
      [U64 lastId, U64 categoryId, I32 perPageNum])"

definition QueryPostsDataWithCategoryProfileSinceLastByPageDesc :: "'db runner \<Rightarrow> u64 \<Rightarrow> u64 \<Rightarrow> i32 \<Rightarrow> 'db \<Rightarrow> (col_error + field_val list list) \<times> 'db" where
  "QueryPostsDataWithCategoryProfileSinceLastByPageDesc run lastId categoryId perPageNum db = fetch_all run (ToEntity [K64, KText, KText, K64, K64, KText]) (QueryPostsDataWithCategoryProfileSinceLastByPageDesc_stmt lastId categoryId perPageNum) db"

definition InsertPost :: "(string \<Rightarrow> string) \<Rightarrow> 'db runner \<Rightarrow> post \<Rightarrow> 'db \<Rightarrow> string option \<times> 'db" where
  "InsertPost Q run e db =
     execute run (q_InsertWithAutoIncPk Q (post_entity e) Query_new, map snd (e_members (post_entity e))) db"

text \<open>The clock reading \<open>updateTime\<close> is what the code stores, not the one in \<open>post\<close>.\<close>

definition UpdatePostById_stmt :: "u64 \<Rightarrow> post \<Rightarrow> u64 \<Rightarrow> stmt" where
  "UpdatePostById_stmt postId post updateTime =
     (q_setStatic True (q_Where (is_param ''Post'' ''id'') (q_update ''Posts'' (assignments ''Post'' [''title'', ''category_id'', ''profile'', ''titlepic'', ''content'', ''allow_comment'', ''allow_rss'', ''hide'', ''updated_at'']) Query_new)),
      [Str (po_title post), U64 (po_category_id post), Str (po_profile post), Str (po_titlepic post), Str (po_content post), I32 (po_allow_comment post), I32 (po_allow_rss post), I32 (po_hide post), U64 updateTime, U64 postId])"

definition UpdatePostById :: "'db runner \<Rightarrow> u64 \<Rightarrow> post \<Rightarrow> u64 \<Rightarrow> 'db \<Rightarrow> string option \<times> 'db" where
  "UpdatePostById run postId post updateTime db = execute run (UpdatePostById_stmt postId post updateTime) db"

definition DeletePostById_stmt :: "u64 \<Rightarrow> stmt" where
  "DeletePostById_stmt postId =
     (q_setStatic True (q_Where (is_param ''Post'' ''id'') (q_Delete ''Posts'' Query_new)),
      [U64 postId])"

definition DeletePostById :: "'db runner \<Rightarrow> u64 \<Rightarrow> 'db \<Rightarrow> string option \<times> 'db" where
  "DeletePostById run postId db = execute run (DeletePostById_stmt postId) db"

definition QueryPostCount_stmt :: "stmt" where
  "QueryPostCount_stmt =
     (q_setStatic True (q_Where (not_hidden) (q_From ''Posts'' (q_SelectCount ''*'' Query_new))),
      [])"

definition QueryPostCount :: "'db runner \<Rightarrow> 'db \<Rightarrow> (col_error + i32 option) \<times> 'db" where
  "QueryPostCount run db =
     (let (r, db') = fetch_first run (ToEntity [K32]) (QueryPostCount_stmt) db
      in (case r of Inl e \<Rightarrow> Inl e | Inr (Some [I32 n]) \<Rightarrow> Inr (Some n) | Inr _ \<Rightarrow> Inr None, db'))"

definition QueryPostOfCategoryCount_stmt :: "u64 \<Rightarrow> stmt" where
  "QueryPostOfCategoryCount_stmt categoryId =
     (q_setStatic True (q_Where (cond_and (is_param ''Post'' ''category_id'') not_hidden) (q_From ''Posts'' (q_SelectCount ''*'' Query_new))),
      [U64 categoryId])"

definition QueryPostOfCategoryCount :: "'db runner \<Rightarrow> u64 \<Rightarrow> 'db \<Rightarrow> (col_error + i32 option) \<times> 'db" where
  "QueryPostOfCategoryCount run categoryId db =
     (let (r, db') = fetch_first run (ToEntity [K32]) (QueryPostOfCategoryCount_stmt categoryId) db
      in (case r of Inl e \<Rightarrow> Inl e | Inr (Some [I32 n]) \<Rightarrow> Inr (Some n) | Inr _ \<Rightarrow> Inr None, db'))"

definition QueryPostsForRss_stmt :: "stmt" where
  "QueryPostsForRss_stmt =
     (q_setStatic True (q_OrderByDesc (FIELD ''Post'' ''created_at'') (q_limit_param (q_Where (is_param ''Post'' ''allow_rss'') (q_From ''Posts'' (Query_of_field (fields ''Post'' [''id'', ''title'', ''profile'', ''created_at'', ''category_id''])))))),
      [I32 1, I32 20])"

definition QueryPostsForRss :: "'db runner \<Rightarrow> 'db \<Rightarrow> (col_error + field_val list list) \<times> 'db" where
  "QueryPostsForRss run db = fetch_all run (ToEntity [K64, KText, KText, K64, K64]) (QueryPostsForRss_stmt) db"

definition updateViewTimes :: "'db runner \<Rightarrow> u64 \<Rightarrow> 'db \<Rightarrow> 'db" where
  "updateViewTimes run i db =
     snd (snd (run ''UPDATE Posts SET view_times = view_times + 1 where id = ?'' [bind_val (U64 i)] db))"

section \<open>Categories\<close>

definition QueryCategoryById_stmt :: "u64 \<Rightarrow> stmt" where
  "QueryCategoryById_stmt categoryId =
     (q_setStatic True (q_Where (is_param ''Category'' ''id'') (q_Select ''Categories'' Query_new)),
      [U64 categoryId])"

definition QueryCategoryById :: "'db runner \<Rightarrow> u64 \<Rightarrow> 'db \<Rightarrow> (col_error + category option) \<times> 'db" where
  "QueryCategoryById run categoryId db = fetch_first run category_of (QueryCategoryById_stmt categoryId) db"

definition QueryCategoryNameById_stmt :: "u64 \<Rightarrow> stmt" where
  "QueryCategoryNameById_stmt categoryId =
     (q_setStatic True (q_From ''Categories'' (q_Where (is_param ''Category'' ''id'') (Query_of_field (fields ''Category'' [''name''])))),
      [U64 categoryId])"

definition QueryCategoryNameById :: "'db runner \<Rightarrow> u64 \<Rightarrow> 'db \<Rightarrow> (col_error + field_val list option) \<times> 'db" where
  "QueryCategoryNameById run categoryId db = fetch_first run (ToEntity [KText]) (QueryCategoryNameById_stmt categoryId) db"

definition InsertCategory :: "(string \<Rightarrow> string) \<Rightarrow> 'db runner \<Rightarrow> category \<Rightarrow> 'db \<Rightarrow> string option \<times> 'db" where
  "InsertCategory Q run e db =
     execute run (q_InsertWithAutoIncPk Q (category_entity e) Query_new, map snd (e_members (category_entity e))) db"

definition UpdateCategory_stmt :: "category \<Rightarrow> stmt" where
  "UpdateCategory_stmt category =
     (q_setStatic True (q_Where (is_param ''Category'' ''id'') (q_update ''Categories'' (assignments ''Category'' [''name'', ''categorypic'']) Query_new)),
      [Str (ca_name category), Str (ca_categorypic category), U64 (ca_id category)])"

definition UpdateCategory :: "'db runner \<Rightarrow> category \<Rightarrow> 'db \<Rightarrow> string option \<times> 'db" where
  "UpdateCategory run category db = execute run (UpdateCategory_stmt category) db"

definition DeleteCategory_stmt :: "u64 \<Rightarrow> stmt" where
  "DeleteCategory_stmt categoryId =
     (q_setStatic True (q_Where (is_param ''Category'' ''id'') (q_Delete ''Categories'' Query_new)),
      [U64 categoryId])"

definition DeleteCategory :: "'db runner \<Rightarrow> u64 \<Rightarrow> 'db \<Rightarrow> string option \<times> 'db" where
  "DeleteCategory run categoryId db = execute run (DeleteCategory_stmt categoryId) db"

text \<open>The next two queries name no table.\<close>

definition QueryCategoryBasicInfoById_stmt :: "u64 \<Rightarrow> stmt" where
  "QueryCategoryBasicInfoById_stmt categoryId =
     (q_setStatic True (q_Where (is_param ''Category'' ''id'') (Query_of_field (fields ''Category'' [''id'', ''name'']))),
      [U64 categoryId])"

definition QueryCategoryBasicInfoById :: "'db runner \<Rightarrow> u64 \<Rightarrow> 'db \<Rightarrow> (col_error + field_val list option) \<times> 'db" where
  "QueryCategoryBasicInfoById run categoryId db = fetch_first run (ToEntity [K64, KText]) (QueryCategoryBasicInfoById_stmt categoryId) db"

definition QueryCategoryBasicInfo_stmt :: "stmt" where
  "QueryCategoryBasicInfo_stmt =
     (q_setStatic True (Query_of_field (fields ''Category'' [''id'', ''name''])),
      [])"

definition QueryCategoryBasicInfo :: "'db runner \<Rightarrow> 'db \<Rightarrow> (col_error + field_val list list) \<times> 'db" where
  "QueryCategoryBasicInfo run db = fetch_all run (ToEntity [K64, KText]) (QueryCategoryBasicInfo_stmt) db"

definition QueryAllCategoryBasicInfo_stmt :: "stmt" where
  "QueryAllCategoryBasicInfo_stmt =
     (q_setStatic True (q_From ''Categories'' (Query_of_field (fields ''Category'' [''id'', ''name'']))),
      [])"

definition QueryAllCategoryBasicInfo :: "'db runner \<Rightarrow> 'db \<Rightarrow> (col_error + field_val list list) \<times> 'db" where
  "QueryAllCategoryBasicInfo run db = fetch_all run (ToEntity [K64, KText]) (QueryAllCategoryBasicInfo_stmt) db"

definition QueryAllCategory_stmt :: "stmt" where
  "QueryAllCategory_stmt =
     (q_setStatic True (q_Select ''Categories'' Query_new),
      [])"

definition QueryAllCategory :: "'db runner \<Rightarrow> 'db \<Rightarrow> (col_error + category list) \<times> 'db" where
  "QueryAllCategory run db = fetch_all run category_of (QueryAllCategory_stmt) db"

section \<open>Photos\<close>

definition QueryPhotoById_stmt :: "u64 \<Rightarrow> stmt" where
  "QueryPhotoById_stmt photoId =
     (q_setStatic True (q_Where (is_param ''Photo'' ''id'') (q_Select ''Photos'' Query_new)),
      [U64 photoId])"

definition QueryPhotoById :: "'db runner \<Rightarrow> u64 \<Rightarrow> 'db \<Rightarrow> (col_error + photo option) \<times> 'db" where
  "QueryPhotoById run photoId db = fetch_first run photo_of (QueryPhotoById_stmt photoId) db"

definition QueryPhotoByAlbumAndUrl_stmt :: "u64 \<Rightarrow> string \<Rightarrow> stmt" where
  "QueryPhotoByAlbumAndUrl_stmt albumId url =
     (q_setStatic True (q_OrderByDesc (FIELD ''Photo'' ''id'') (q_Where (cond_and (is_param ''Photo'' ''album_id'') (is_param ''Photo'' ''url'')) (q_Select ''Photos'' Query_new))),
      [U64 albumId, Str url])"

definition QueryPhotoByAlbumAndUrl :: "'db runner \<Rightarrow> u64 \<Rightarrow> string \<Rightarrow> 'db \<Rightarrow> (col_error + photo option) \<times> 'db" where
  "QueryPhotoByAlbumAndUrl run albumId url db = fetch_first run photo_of (QueryPhotoByAlbumAndUrl_stmt albumId url) db"

definition QueryPhotosByAlbumId_stmt :: "u64 \<Rightarrow> u64 \<Rightarrow> i32 \<Rightarrow> stmt" where
  "QueryPhotosByAlbumId_stmt albumId pageIdx perPageNum =
     (q_setStatic True (q_OrderByDesc (FIELD ''Photo'' ''created_at'') (q_limit_param (q_skip_param (q_Where (is_param ''Photo'' ''album_id'') (q_Select ''Photos'' Query_new))))),
      [U64 albumId, I32 perPageNum, U64 (pageIdx * scast perPageNum)])"

definition QueryPhotosByAlbumId :: "'db runner \<Rightarrow> u64 \<Rightarrow> u64 \<Rightarrow> i32 \<Rightarrow> 'db \<Rightarrow> (col_error + photo list) \<times> 'db" where
  "QueryPhotosByAlbumId run albumId pageIdx perPageNum db = fetch_all run photo_of (QueryPhotosByAlbumId_stmt albumId pageIdx perPageNum) db"

definition QueryPhotoCountByAlbumId_stmt :: "u64 \<Rightarrow> stmt" where
  "QueryPhotoCountByAlbumId_stmt albumId =
     (q_setStatic True (q_Where (is_param ''Photo'' ''album_id'') (q_From ''Photos'' (q_SelectCount ''*'' Query_new))),
      [U64 albumId])"

definition QueryPhotoCountByAlbumId :: "'db runner \<Rightarrow> u64 \<Rightarrow> 'db \<Rightarrow> (col_error + i32 option) \<times> 'db" where
  "QueryPhotoCountByAlbumId run albumId db =
     (let (r, db') = fetch_first run (ToEntity [K32]) (QueryPhotoCountByAlbumId_stmt albumId) db
      in (case r of Inl e \<Rightarrow> Inl e | Inr (Some [I32 n]) \<Rightarrow> Inr (Some n) | Inr _ \<Rightarrow> Inr None, db'))"

definition QueryAllPhotos_stmt :: "u64 \<Rightarrow> i32 \<Rightarrow> stmt" where
  "QueryAllPhotos_stmt pageIdx perPageNum =
     (q_setStatic True (q_OrderByDesc (FIELD ''Photo'' ''created_at'') (q_limit_param (q_skip_param (q_Select ''Photos'' Query_new)))),
      [I32 perPageNum, U64 (pageIdx * scast perPageNum)])"

definition QueryAllPhotos :: "'db runner \<Rightarrow> u64 \<Rightarrow> i32 \<Rightarrow> 'db \<Rightarrow> (col_error + photo list) \<times> 'db" where
  "QueryAllPhotos run pageIdx perPageNum db = fetch_all run photo_of (QueryAllPhotos_stmt pageIdx perPageNum) db"

definition QueryAllPhotoCount_stmt :: "stmt" where
  "QueryAllPhotoCount_stmt =
     (q_setStatic True (q_From ''Photos'' (q_SelectCount ''*'' Query_new)),
      [])"

definition QueryAllPhotoCount :: "'db runner \<Rightarrow> 'db \<Rightarrow> (col_error + i32 option) \<times> 'db" where
  "QueryAllPhotoCount run db =
     (let (r, db') = fetch_first run (ToEntity [K32]) (QueryAllPhotoCount_stmt) db
      in (case r of Inl e \<Rightarrow> Inl e | Inr (Some [I32 n]) \<Rightarrow> Inr (Some n) | Inr _ \<Rightarrow> Inr None, db'))"

definition InsertPhoto :: "(string \<Rightarrow> string) \<Rightarrow> 'db runner \<Rightarrow> photo \<Rightarrow> 'db \<Rightarrow> string option \<times> 'db" where
  "InsertPhoto Q run e db =
     execute run (q_InsertWithAutoIncPk Q (photo_entity e) Query_new, map snd (e_members (photo_entity e))) db"

definition UpdatePhoto_stmt :: "photo \<Rightarrow> stmt" where
  "UpdatePhoto_stmt photo =
     (q_setStatic True (q_Where (is_param ''Photo'' ''id'') (q_update ''Photos'' (assignments ''Photo'' [''album_id'', ''url'', ''caption'', ''sort_order'', ''title'', ''description'']) Query_new)),
      [U64 (ph_album_id photo), Str (ph_url photo), Str (ph_caption photo), I32 (ph_sort_order photo), Str (ph_title photo), Str (ph_description photo), U64 (ph_id photo)])"

definition UpdatePhoto :: "'db runner \<Rightarrow> photo \<Rightarrow> 'db \<Rightarrow> string option \<times> 'db" where
  "UpdatePhoto run photo db = execute run (UpdatePhoto_stmt photo) db"

definition UpdatePhotoDims :: "'db runner \<Rightarrow> u64 \<Rightarrow> i32 \<Rightarrow> i32 \<Rightarrow> 'db \<Rightarrow> string option \<times> 'db" where
  "UpdatePhotoDims run i width height db =
     (let (err, _, db') = run ''UPDATE Photos SET width=?, height=? WHERE id=?''
            (map bind_val [I32 width, I32 height, U64 i]) db
      in (err, db'))"

definition QueryPhotosMissingDims :: "'db runner \<Rightarrow> 'db \<Rightarrow> (col_error + field_val list list) \<times> 'db" where
  "QueryPhotosMissingDims run db =
     (let (_, rows, db') = run ''SELECT id, url FROM Photos WHERE width = 0 OR height = 0'' [] db
      in (getVector (ToEntity [K64, KText]) rows, db'))"

definition DeletePhoto_stmt :: "u64 \<Rightarrow> stmt" where
  "DeletePhoto_stmt photoId =
     (q_setStatic True (q_Where (is_param ''Photo'' ''id'') (q_Delete ''Photos'' Query_new)),
      [U64 photoId])"

definition DeletePhoto :: "'db runner \<Rightarrow> u64 \<Rightarrow> 'db \<Rightarrow> string option \<times> 'db" where
  "DeletePhoto run photoId db = execute run (DeletePhoto_stmt photoId) db"

definition incrementPhotoView :: "'db runner \<Rightarrow> u64 \<Rightarrow> 'db \<Rightarrow> 'db" where
  "incrementPhotoView run i db =
     snd (snd (run ''UPDATE Photos SET view_times = view_times + 1 where id = ?'' [bind_val (U64 i)] db))"

section \<open>Albums\<close>

definition QueryAlbumById_stmt :: "u64 \<Rightarrow> stmt" where
  "QueryAlbumById_stmt albumId =
     (q_setStatic True (q_Where (is_param ''Album'' ''id'') (q_Select ''Albums'' Query_new)),
      [U64 albumId])"

definition QueryAlbumById :: "'db runner \<Rightarrow> u64 \<Rightarrow> 'db \<Rightarrow> (col_error + album option) \<times> 'db" where
  "QueryAlbumById run albumId db = fetch_first run album_of (QueryAlbumById_stmt albumId) db"

definition QueryAllAlbums_stmt :: "stmt" where
  "QueryAllAlbums_stmt =
     (q_setStatic True (q_OrderBy (FIELD ''Album'' ''sort_order'') (q_Select ''Albums'' Query_new)),
      [])"

definition QueryAllAlbums :: "'db runner \<Rightarrow> 'db \<Rightarrow> (col_error + album list) \<times> 'db" where
  "QueryAllAlbums run db = fetch_all run album_of (QueryAllAlbums_stmt) db"

definition InsertAlbum :: "(string \<Rightarrow> string) \<Rightarrow> 'db runner \<Rightarrow> album \<Rightarrow> 'db \<Rightarrow> string option \<times> 'db" where
  "InsertAlbum Q run e db =
     execute run (q_InsertWithAutoIncPk Q (album_entity e) Query_new, map snd (e_members (album_entity e))) db"

definition UpdateAlbum_stmt :: "album \<Rightarrow> stmt" where
  "UpdateAlbum_stmt album =
     (q_setStatic True (q_Where (is_param ''Album'' ''id'') (q_update ''Albums'' (assignments ''Album'' [''name'', ''description'', ''cover_url'', ''sort_order'']) Query_new)),
      [Str (al_name album), Str (al_description album), Str (al_cover_url album), I32 (al_sort_order album), U64 (al_id album)])"

definition UpdateAlbum :: "'db runner \<Rightarrow> album \<Rightarrow> 'db \<Rightarrow> string option \<times> 'db" where
  "UpdateAlbum run album db = execute run (UpdateAlbum_stmt album) db"

definition DeleteAlbum_stmt :: "u64 \<Rightarrow> stmt" where
  "DeleteAlbum_stmt albumId =
     (q_setStatic True (q_Where (is_param ''Album'' ''id'') (q_Delete ''Albums'' Query_new)),
      [U64 albumId])"

definition DeleteAlbum :: "'db runner \<Rightarrow> u64 \<Rightarrow> 'db \<Rightarrow> string option \<times> 'db" where
  "DeleteAlbum run albumId db = execute run (DeleteAlbum_stmt albumId) db"

definition QueryPhotoCountInAlbum_stmt :: "u64 \<Rightarrow> stmt" where
  "QueryPhotoCountInAlbum_stmt albumId =
     (q_setStatic True (q_Where (is_param ''Photo'' ''album_id'') (q_From ''Photos'' (q_SelectCount ''*'' Query_new))),
      [U64 albumId])"

definition QueryPhotoCountInAlbum :: "'db runner \<Rightarrow> u64 \<Rightarrow> 'db \<Rightarrow> (col_error + i32 option) \<times> 'db" where
  "QueryPhotoCountInAlbum run albumId db =
     (let (r, db') = fetch_first run (ToEntity [K32]) (QueryPhotoCountInAlbum_stmt albumId) db
      in (case r of Inl e \<Rightarrow> Inl e | Inr (Some [I32 n]) \<Rightarrow> Inr (Some n) | Inr _ \<Rightarrow> Inr None, db'))"

section \<open>Every statement binds its parameters\<close>

definition params :: "string \<Rightarrow> nat" where
  "params s = length (filter (\<lambda>c. c = CHR ''?'') s)"

lemma params_simps [simp]: "params [] = 0" "params (c # s) = (if c = CHR ''?'' then 1 else 0) + params s"
  "params (s @ t) = params s + params t"
  by (simp_all add: params_def)

definition binds_all :: "stmt \<Rightarrow> bool" where
  "binds_all st \<longleftrightarrow> params (toSql (fst st)) = length (snd st)"

lemmas orm_defs = toSql_def Query_new_def Query_of_field_def q_SelectCount_def q_Select_def q_From_def q_Delete_def
  q_update_def q_Where_def q_OrderBy_def q_OrderByDesc_def q_limit_param_def q_skip_param_def q_setStatic_def
  fields_def assignments_def not_hidden_def field_minus_def FIELD_def field_param_def field_cmp_def cond_val_def
  cond_op_def cond_join_def cond_bracket_def cond_and_def cond_minus_def int_to_string_def to_string.simps

lemmas dao_stmts = QueryPostsDataProfileSinceLastByPageDesc_stmt_def QueryPostDataProfile_stmt_def QueryPostDataProfileByCategoryId_stmt_def QueryPostsForArchive_stmt_def
  QueryPostsBasicStatusByPage_stmt_def QueryPostById_stmt_def QueryPostIdByTitle_stmt_def QueryPostByTitle_stmt_def
  QueryPostsDataWithCategoryProfileSinceLastByPageDesc_stmt_def UpdatePostById_stmt_def DeletePostById_stmt_def QueryPostCount_stmt_def
  QueryPostOfCategoryCount_stmt_def QueryPostsForRss_stmt_def QueryCategoryById_stmt_def QueryCategoryNameById_stmt_def
  UpdateCategory_stmt_def DeleteCategory_stmt_def QueryCategoryBasicInfoById_stmt_def QueryCategoryBasicInfo_stmt_def
  QueryAllCategoryBasicInfo_stmt_def QueryAllCategory_stmt_def QueryPhotoById_stmt_def QueryPhotoByAlbumAndUrl_stmt_def
  QueryPhotosByAlbumId_stmt_def QueryPhotoCountByAlbumId_stmt_def QueryAllPhotos_stmt_def QueryAllPhotoCount_stmt_def
  UpdatePhoto_stmt_def DeletePhoto_stmt_def QueryAlbumById_stmt_def QueryAllAlbums_stmt_def
  UpdateAlbum_stmt_def DeleteAlbum_stmt_def QueryPhotoCountInAlbum_stmt_def

lemma not_hidden_text [simp]: "not_hidden = ''hide = 0''"
proof -
  have "to_string 0 = ''0''" by code_simp
  then show ?thesis by (simp add: not_hidden_def field_cmp_def cond_val_def FIELD_def int_to_string_def)
qed

text \<open>
  Every statement of the data access objects binds exactly the parameters its text has: there are as
  many values as question marks, so none is left NULL and none is dropped.
\<close>
theorem statements_bind_parameters:
  "binds_all (QueryPostsDataProfileSinceLastByPageDesc_stmt lastId perPageNum)
   \<and> binds_all (QueryPostDataProfile_stmt pageIdx perPageNum)
   \<and> binds_all (QueryPostDataProfileByCategoryId_stmt categoryId pageIdx perPageNum)
   \<and> binds_all (QueryPostsForArchive_stmt)
   \<and> binds_all (QueryPostsBasicStatusByPage_stmt lastId perPageNum)
   \<and> binds_all (QueryPostById_stmt postId)
   \<and> binds_all (QueryPostIdByTitle_stmt postName)
   \<and> binds_all (QueryPostByTitle_stmt postName)
   \<and> binds_all (QueryPostsDataWithCategoryProfileSinceLastByPageDesc_stmt lastId categoryId perPageNum)
   \<and> binds_all (UpdatePostById_stmt postId post updateTime)
   \<and> binds_all (DeletePostById_stmt postId)
   \<and> binds_all (QueryPostCount_stmt)
   \<and> binds_all (QueryPostOfCategoryCount_stmt categoryId)
   \<and> binds_all (QueryPostsForRss_stmt)
   \<and> binds_all (QueryCategoryById_stmt categoryId)
   \<and> binds_all (QueryCategoryNameById_stmt categoryId)
   \<and> binds_all (UpdateCategory_stmt category)
   \<and> binds_all (DeleteCategory_stmt categoryId)
   \<and> binds_all (QueryCategoryBasicInfoById_stmt categoryId)
   \<and> binds_all (QueryCategoryBasicInfo_stmt)
   \<and> binds_all (QueryAllCategoryBasicInfo_stmt)
   \<and> binds_all (QueryAllCategory_stmt)
   \<and> binds_all (QueryPhotoById_stmt photoId)
   \<and> binds_all (QueryPhotoByAlbumAndUrl_stmt albumId url)
   \<and> binds_all (QueryPhotosByAlbumId_stmt albumId pageIdx perPageNum)
   \<and> binds_all (QueryPhotoCountByAlbumId_stmt albumId)
   \<and> binds_all (QueryAllPhotos_stmt pageIdx perPageNum)
   \<and> binds_all (QueryAllPhotoCount_stmt)
   \<and> binds_all (UpdatePhoto_stmt photo)
   \<and> binds_all (DeletePhoto_stmt photoId)
   \<and> binds_all (QueryAlbumById_stmt albumId)
   \<and> binds_all (QueryAllAlbums_stmt)
   \<and> binds_all (UpdateAlbum_stmt album)
   \<and> binds_all (DeleteAlbum_stmt albumId)
   \<and> binds_all (QueryPhotoCountInAlbum_stmt albumId)"
  by (intro conjI) (simp_all add: binds_all_def dao_stmts orm_defs)

text \<open>Two of them name no table.\<close>

lemma category_basic_info_no_table:
  "toSql (fst QueryCategoryBasicInfo_stmt) = ''SELECT id,name FROM ;''"
  "toSql (fst (QueryCategoryBasicInfoById_stmt i)) = ''SELECT id,name FROM  WHERE id = ? ;''"
  by (simp_all add: dao_stmts orm_defs)

text \<open>The update of a post writes each value to its column.\<close>

lemma update_post_text:
  "toSql (fst (UpdatePostById_stmt i p t)) =
     ''  UPDATE Posts SET title = ?  , category_id = ?  , profile = ?  , titlepic = ?  , content = ?  , allow_comment = ?  , allow_rss = ?  , hide = ?  , updated_at = ?  WHERE id = ? ;''"
  by (simp add: dao_stmts orm_defs)

end
