(* ===== verification/HtmlHelper.thy ===== *)
theory HtmlHelper
  imports Prelude
begin

unbundle bit_operations_syntax

text \<open>
  HTML escaping of article text (\<open>Server/src/Utils/HtmlHelper.h\<close>): posts are escaped before they are
  stored and unescaped for the RSS feed. Characters are bytes; code points are 32-bit words and wrap.
\<close>

section \<open>Escaping\<close>

fun html_escape :: "string \<Rightarrow> string" where
  "html_escape [] = []"
| "html_escape (c # cs) =
     (if c = CHR ''<'' then ''&lt;''
      else if c = CHR ''>'' then ''&gt;''
      else if c = CHR ''&'' then ''&amp;''
      else if c = CHR 0x22 then ''&quot;''
      else if c = CHR 0x27 then ''&apos;''
      else [c]) @ html_escape cs"

definition byte_char :: "u32 \<Rightarrow> char" where
  "byte_char w = char_of (unat (w AND 0xFF))"

definition append_codepoint_utf8 :: "string \<Rightarrow> u32 \<Rightarrow> string" where
  "append_codepoint_utf8 out cp = out @
     (if cp \<le> 0x7F then [byte_char cp]
      else if cp \<le> 0x7FF then
        [byte_char (0xC0 OR (drop_bit 6 cp AND 0x1F)), byte_char (0x80 OR (cp AND 0x3F))]
      else if cp \<le> 0xFFFF then
        [byte_char (0xE0 OR (drop_bit 12 cp AND 0x0F)), byte_char (0x80 OR (drop_bit 6 cp AND 0x3F)),
         byte_char (0x80 OR (cp AND 0x3F))]
      else if cp \<le> 0x10FFFF then
        [byte_char (0xF0 OR (drop_bit 18 cp AND 0x07)), byte_char (0x80 OR (drop_bit 12 cp AND 0x3F)),
         byte_char (0x80 OR (drop_bit 6 cp AND 0x3F)), byte_char (0x80 OR (cp AND 0x3F))]
      else [CHR 0xEF, CHR 0xBF, CHR 0xBD])"

section \<open>Unescaping\<close>

text \<open>The digit loops of a numeric reference; None is \<open>ok = false\<close>.\<close>

fun hex_ref :: "u32 \<Rightarrow> string \<Rightarrow> u32 option" where
  "hex_ref cp [] = Some cp"
| "hex_ref cp (ch # s) =
     (let shifted = push_bit 4 cp
      in if 48 \<le> code_of ch \<and> code_of ch \<le> 57 then hex_ref (shifted + word_of_nat (code_of ch - 48)) s
         else if 97 \<le> code_of ch \<and> code_of ch \<le> 102 then hex_ref (shifted + word_of_nat (10 + (code_of ch - 97))) s
         else if 65 \<le> code_of ch \<and> code_of ch \<le> 70 then hex_ref (shifted + word_of_nat (10 + (code_of ch - 65))) s
         else None)"

fun dec_ref :: "u32 \<Rightarrow> string \<Rightarrow> u32 option" where
  "dec_ref cp [] = Some cp"
| "dec_ref cp (ch # s) =
     (if isdigit ch then dec_ref (cp * 10 + word_of_nat (code_of ch - 48)) s else None)"

definition numeric_ref :: "string \<Rightarrow> u32 option" where
  "numeric_ref ent =
     (if ent \<noteq> [] \<and> hd ent = CHR ''#''
      then (if 2 \<le> length ent \<and> (ent ! 1 = CHR ''x'' \<or> ent ! 1 = CHR ''X'')
            then (if 2 < length ent then hex_ref 0 (drop 2 ent) else None)
            else (if 1 < length ent then dec_ref 0 (drop 1 ent) else None))
      else None)"

text \<open>What an entity stands for, None for an unknown one.\<close>

definition entity_text :: "string \<Rightarrow> string option" where
  "entity_text ent =
     (if ent = ''lt'' then Some ''<''
      else if ent = ''gt'' then Some ''>''
      else if ent = ''amp'' then Some ''&''
      else if ent = ''quot'' then Some [CHR 0x22]
      else if ent = ''apos'' then Some [CHR 0x27]
      else (case numeric_ref ent of
              Some cp \<Rightarrow>
                Some (if (0xD800 \<le> cp \<and> cp \<le> 0xDFFF) \<or> 0x10FFFF < cp then append_codepoint_utf8 [] 0xFFFD
                      else append_codepoint_utf8 [] cp)
            | None \<Rightarrow> None))"

text \<open>The loop over the input, on the part that is still to be read: \<open>i = semi\<close> continues behind the
  semicolon.\<close>

function html_unescape :: "string \<Rightarrow> string" where
  "html_unescape [] = []"
| "html_unescape (c # cs) =
     (if c \<noteq> CHR ''&'' then c # html_unescape cs
      else case str_find cs (CHR '';'') 0 of
             None \<Rightarrow> CHR ''&'' # html_unescape cs
           | Some semi \<Rightarrow>
               (let ent = take semi cs; rest = drop (semi + 1) cs
                in if semi = 0 then ''&;'' @ html_unescape rest
                   else case entity_text ent of
                          Some t \<Rightarrow> t @ html_unescape rest
                        | None \<Rightarrow> ''&'' @ ent @ '';'' @ html_unescape rest))"
  by pat_completeness auto
termination by (relation "measure length") auto

section \<open>Correctness\<close>

lemma unescape_plain: "c \<noteq> CHR ''&'' \<Longrightarrow> html_unescape (c # s) = c # html_unescape s"
  by simp

lemma unescape_entity:
  assumes "CHR '';'' \<notin> set ent" "ent \<noteq> []" "entity_text ent = Some t"
  shows "html_unescape (CHR ''&'' # ent @ CHR '';'' # s) = t @ html_unescape s"
  using assms by (simp add: str_find_append)

lemma unescape_named:
  "html_unescape (''&lt;'' @ s) = CHR ''<'' # html_unescape s"
  "html_unescape (''&gt;'' @ s) = CHR ''>'' # html_unescape s"
  "html_unescape (''&amp;'' @ s) = CHR ''&'' # html_unescape s"
  "html_unescape (''&quot;'' @ s) = CHR 0x22 # html_unescape s"
  "html_unescape (''&apos;'' @ s) = CHR 0x27 # html_unescape s"
  using unescape_entity [of "''lt''" "''<''" s] unescape_entity [of "''gt''" "''>''" s]
    unescape_entity [of "''amp''" "''&''" s] unescape_entity [of "''quot''" "[CHR 0x22]" s]
    unescape_entity [of "''apos''" "[CHR 0x27]" s]
  by (simp_all del: html_unescape.simps add: entity_text_def)

definition markup_chars :: "char set" where
  "markup_chars = {CHR ''<'', CHR ''>'', CHR 0x22, CHR 0x27}"

lemma html_escape_correct:
  "html_unescape (html_escape s) = s \<and> set (html_escape s) \<inter> markup_chars = {}"
proof (induction s)
  case (Cons c s)
  have "html_unescape (html_escape (c # s)) = c # html_unescape (html_escape s)"
    using unescape_named [of "html_escape s"] by (simp del: html_unescape.simps add: unescape_plain)
  moreover have "set (html_escape (c # s)) \<inter> markup_chars \<subseteq> set (html_escape s) \<inter> markup_chars"
    by (auto simp: markup_chars_def)
  ultimately show ?case using Cons.IH by auto
qed (simp add: markup_chars_def)

text \<open>
  C40. Escaping makes any text harmless and loses nothing: the escaped text has no tag bracket and no
  quote, and unescaping it gives back the text.
\<close>
theorem html_round_trip:
  "html_unescape (html_escape s) = s \<and> set (html_escape s) \<inter> markup_chars = {}"
  by (rule html_escape_correct)

text \<open>Numeric references are read modulo \<open>2^32\<close>: a reference beyond it is not rejected but stands for
  another character.\<close>

lemma numeric_reference_wraps: "html_unescape ''&#x100000041;'' = ''A''"
  by (simp add: str_find_def entity_text_def numeric_ref_def append_codepoint_utf8_def byte_char_def) (code_simp)?

lemma dec_ref_foldl: "\<forall>c \<in> set s. isdigit c \<Longrightarrow>
    dec_ref (word_of_nat n) s = Some (word_of_nat (foldl (\<lambda>n c. 10 * n + digit_val c) n s))"
proof (induction s arbitrary: n)
  case (Cons ch s)
  have "dec_ref (word_of_nat n) (ch # s) = dec_ref (word_of_nat (10 * n + digit_val ch)) s"
    using Cons.prems by (simp add: digit_val_def algebra_simps)
  also have "\<dots> = Some (word_of_nat (foldl (\<lambda>n c. 10 * n + digit_val c) (10 * n + digit_val ch) s))"
    by (rule Cons.IH) (use Cons.prems in simp)
  finally show ?case by simp
qed simp

lemma dec_ref_value: "\<forall>c \<in> set s. isdigit c \<Longrightarrow> dec_ref 0 s = Some (word_of_nat (dec_value s))"
  using dec_ref_foldl [of s 0] by (simp add: dec_value_def)

text \<open>Every code point below the surrogates has a decimal reference that unescaping reads as its UTF-8
  encoding.\<close>

lemma decimal_reference_decodes:
  assumes "n < 0xD800"
  shows "html_unescape (''&#'' @ to_string n @ '';'' @ s) = append_codepoint_utf8 [] (word_of_nat n) @ html_unescape s"
proof -
  have digits: "\<forall>c \<in> set (to_string n). isdigit c" by (rule to_string_digits)
  then have "isdigit (hd (to_string n))" using hd_in_set [OF to_string_nonempty [of n]] by blast
  then have hx: "hd (to_string n) \<noteq> CHR ''x''" "hd (to_string n) \<noteq> CHR ''X''" by (auto simp: isdigit_code)
  have semi: "CHR '';'' \<notin> set (to_string n)" using digits by (auto simp: isdigit_code)
  note h = hx semi
  have "numeric_ref (CHR ''#'' # to_string n) = Some (word_of_nat n)"
    using digits h to_string_nonempty [of n] dec_ref_value [OF digits]
    by (auto simp: numeric_ref_def nth_Cons' hd_conv_nth Suc_le_eq)
  moreover have "\<not> 0xD800 \<le> (word_of_nat n :: u32)" "\<not> 0x10FFFF < (word_of_nat n :: u32)"
    using assms by (simp_all add: word_less_nat_alt word_le_nat_alt unat_of_nat_small)
  ultimately have "entity_text (CHR ''#'' # to_string n) = Some (append_codepoint_utf8 [] (word_of_nat n))"
    by (auto simp: entity_text_def)
  then show ?thesis
    using unescape_entity [of "CHR ''#'' # to_string n" _ s] h by (simp del: html_unescape.simps)
qed

end
