(* ===== verification/FPathMatcher.thy ===== *)
theory FPathMatcher
  imports StdMap
begin

text \<open>
  The ANT-style path matcher (\<open>FeiLib/src/Http/FPathMatcher.cpp\<close>) and the variables of a path
  (\<open>FeiLib/include/Http/FPathVar.h\<close>). The constructor translates a path pattern into a regular
  expression; the RE2 library that finds the pattern's special parts and matches paths is not part
  of the repository, so it is the record \<open>re2_ops\<close> of the three calls the code makes, and \<open>re2_ok\<close>
  states their documented behaviour. RE2's verdict on the regular expression itself, which the
  constructor only asserts, belongs to \<open>re_full_match\<close>.
\<close>

section \<open>Path variables\<close>

type_synonym path_var = "(string, string) omap"

definition pv_get :: "path_var \<Rightarrow> string \<Rightarrow> string" where
  "pv_get vars name = (case omap_find vars name of None \<Rightarrow> [] | Some v \<Rightarrow> v)"

definition pv_hasVar :: "path_var \<Rightarrow> string \<Rightarrow> bool" where
  "pv_hasVar vars name \<longleftrightarrow> omap_find vars name \<noteq> None"

definition pv_setVar :: "path_var \<Rightarrow> string \<Rightarrow> string \<Rightarrow> path_var" where
  "pv_setVar vars name val = omap_assign vars name val"

section \<open>The calls into RE2\<close>

text \<open>A match of \<open>AntStyleMatchPattern\<close>: which of its four groups took part, where that group begins in
  the text and what it captured.\<close>

datatype ant_kind = K_any | K_char | K_star | K_var

record ant_match =
  am_kind :: ant_kind
  am_begin :: nat
  am_group :: string

text \<open>\<open>re_replace\<close> is \<open>GlobalReplace\<close> of two stars by an at sign, \<open>re_find_all\<close> the successive results of
  \<open>FindAndConsume\<close>, \<open>re_full_match\<close> is \<open>FullMatchN\<close> with the number of groups wanted.\<close>

record re2_ops =
  re_replace :: "string \<Rightarrow> string"
  re_find_all :: "string \<Rightarrow> ant_match list"
  re_full_match :: "string \<Rightarrow> nat \<Rightarrow> string \<Rightarrow> string list option"

section \<open>The matcher\<close>

record path_matcher =
  mWildCardsNums :: nat
  mUndecidedChars :: nat
  varNames :: "string list"
  mPattern :: string
  mOriginPattern :: string

abbreviation MaxPathLengthMatcherSupport :: nat where
  "MaxPathLengthMatcherSupport \<equiv> 1024"

text \<open>The check of \<open>preFilterPattern\<close>: no run of more than two stars.\<close>

fun stars_ok :: "nat \<Rightarrow> string \<Rightarrow> bool" where
  "stars_ok stars [] = True"
| "stars_ok stars (c # s) =
     (if c \<noteq> CHR ''*'' then stars_ok 0 s
      else (if 2 < stars + 1 then False else stars_ok (stars + 1) s))"

definition preFilterPattern :: "re2_ops \<Rightarrow> string \<Rightarrow> std_error + string" where
  "preFilterPattern R pattern =
     (if \<not> stars_ok 0 pattern then Inl Std_exception else Inr (re_replace R pattern))"

definition view :: "string \<Rightarrow> nat \<Rightarrow> nat \<Rightarrow> string" where
  "view s from till = take (till - from) (drop from s)"

record matcher_loop =
  ml_end :: nat
  ml_ss :: string
  ml_wild :: nat
  ml_undecided :: nat
  ml_names :: "string list"

definition matcher_step :: "string \<Rightarrow> matcher_loop \<Rightarrow> ant_match \<Rightarrow> matcher_loop" where
  "matcher_step filteredPattern l m =
     (let begin = am_begin m; n = length (am_group m)
      in case am_kind m of
           K_any \<Rightarrow> l\<lparr>ml_ss := ml_ss l @ view filteredPattern (ml_end l) begin @ ''.*'',
                       ml_end := begin + n, ml_wild := ml_wild l + 1\<rparr>
         | K_char \<Rightarrow> l\<lparr>ml_ss := ml_ss l @ view filteredPattern (ml_end l) begin @ ''.'',
                       ml_end := begin + n, ml_undecided := ml_undecided l + 1\<rparr>
         | K_star \<Rightarrow> l\<lparr>ml_ss := ml_ss l @ view filteredPattern (ml_end l) begin @ ''[^/]*'',
                       ml_end := begin + n, ml_wild := ml_wild l + 1\<rparr>
         | K_var \<Rightarrow> l\<lparr>ml_ss := ml_ss l @ view filteredPattern (ml_end l) (begin - 1) @ ''([^/]*)'',
                       ml_names := ml_names l @ [am_group m], ml_end := begin + n + 1\<rparr>)"

definition FPathMatcher_new :: "re2_ops \<Rightarrow> string \<Rightarrow> std_error + path_matcher" where
  "FPathMatcher_new R pattern =
     (if MaxPathLengthMatcherSupport < length pattern then Inl Std_exception
      else (case preFilterPattern R pattern of
              Inl e \<Rightarrow> Inl e
            | Inr filteredPattern \<Rightarrow>
                (let l = foldl (matcher_step filteredPattern)
                           \<lparr>ml_end = 0, ml_ss = [], ml_wild = 0, ml_undecided = 0, ml_names = []\<rparr>
                           (re_find_all R filteredPattern)
                 in Inr \<lparr>mWildCardsNums = ml_wild l, mUndecidedChars = ml_undecided l,
                         varNames = ml_names l,
                         mPattern = ml_ss l @ view pattern (ml_end l) (length pattern),
                         mOriginPattern = pattern\<rparr>)))"

definition isMatch :: "re2_ops \<Rightarrow> path_matcher \<Rightarrow> string \<Rightarrow> path_var \<Rightarrow> bool \<times> path_var" where
  "isMatch R pm str vars =
     (case re_full_match R (mPattern pm) (length (varNames pm)) str of
        None \<Rightarrow> (False, vars)
      | Some groups \<Rightarrow>
          (True, foldl (\<lambda>vs nv. if snd nv \<noteq> [] then pv_setVar vs (fst nv) (snd nv) else vs) vars
                   (zip (varNames pm) groups)))"

lemma isMatch_fails: "\<not> fst (isMatch R pm str vars) \<Longrightarrow> snd (isMatch R pm str vars) = vars"
  by (auto simp: isMatch_def split: option.splits)

lemma isMatch_fst: "fst (isMatch R pm str vars) = fst (isMatch R pm str vars')"
  by (auto simp: isMatch_def split: option.split)

section \<open>Patterns as sequences of parts\<close>

datatype ant_token = T_lit string | T_any | T_char | T_star | T_var string

fun token_text :: "ant_token \<Rightarrow> string" where
  "token_text (T_lit s) = s" | "token_text T_any = ''@''" | "token_text T_char = ''?''"
| "token_text T_star = ''*''" | "token_text (T_var n) = CHR ''{'' # n @ ''}''"

definition special :: "char \<Rightarrow> bool" where
  "special c \<longleftrightarrow> c \<in> set ''@?*{''"

definition var_char :: "char \<Rightarrow> bool" where
  "var_char c \<longleftrightarrow> c \<notin> {CHR ''/'', CHR ''{'', CHR ''}'', CHR 0x5C}"

text \<open>RE2 reads patterns and paths as UTF-8, and its character classes do not match bytes that are not; what is
  said of it is said of ASCII texts.\<close>

definition ascii :: "char \<Rightarrow> bool" where
  "ascii c \<longleftrightarrow> code_of c < 128"

fun token_ok :: "ant_token \<Rightarrow> bool" where
  "token_ok (T_lit s) = list_all (\<lambda>c. ascii c \<and> \<not> special c) s"
| "token_ok (T_var n) = (n \<noteq> [] \<and> list_all (\<lambda>c. ascii c \<and> var_char c) n)"
| "token_ok _ = True"

fun token_matches :: "nat \<Rightarrow> ant_token list \<Rightarrow> ant_match list" where
  "token_matches off [] = []"
| "token_matches off (T_lit s # ts) = token_matches (off + length s) ts"
| "token_matches off (T_any # ts) = \<lparr>am_kind = K_any, am_begin = off, am_group = ''@''\<rparr> # token_matches (off + 1) ts"
| "token_matches off (T_char # ts) = \<lparr>am_kind = K_char, am_begin = off, am_group = ''?''\<rparr> # token_matches (off + 1) ts"
| "token_matches off (T_star # ts) = \<lparr>am_kind = K_star, am_begin = off, am_group = ''*''\<rparr> # token_matches (off + 1) ts"
| "token_matches off (T_var n # ts) =
     \<lparr>am_kind = K_var, am_begin = off + 1, am_group = n\<rparr> # token_matches (off + length n + 2) ts"

definition pattern_text :: "ant_token list \<Rightarrow> string" where
  "pattern_text ts = concat (map token_text ts)"

text \<open>Whether a text contains two stars in a row.\<close>

fun double_star :: "string \<Rightarrow> bool" where
  "double_star (c # d # s) = (c = CHR ''*'' \<and> d = CHR ''*'' \<or> double_star (d # s))"
| "double_star _ = False"

text \<open>What RE2 documents of the calls: a replacement replaces the occurrences and nothing else, and
  the successive matches in a text are its special parts from left to right (for ASCII texts).\<close>

definition re2_ok :: "re2_ops \<Rightarrow> bool" where
  "re2_ok R \<longleftrightarrow>
     (\<forall>s. list_all ascii s \<longrightarrow> \<not> double_star s \<longrightarrow> re_replace R s = s)
   \<and> (\<forall>a b. list_all ascii (a @ b) \<longrightarrow> \<not> double_star (a @ ''*'') \<longrightarrow> \<not> double_star (CHR ''*'' # b) \<longrightarrow> re_replace R (a @ ''**'' @ b) = a @ ''@'' @ b)
   \<and> (\<forall>ts. list_all token_ok ts \<longrightarrow> re_find_all R (pattern_text ts) = token_matches 0 ts)"

text \<open>Functions that behave so.\<close>

fun replace_stars :: "string \<Rightarrow> string" where
  "replace_stars (c # d # s) =
     (if c = CHR ''*'' \<and> d = CHR ''*'' then CHR ''@'' # replace_stars s else c # replace_stars (d # s))"
| "replace_stars s = s"

function ant_scan :: "nat \<Rightarrow> string \<Rightarrow> ant_match list" where
  "ant_scan off [] = []"
| "ant_scan off (c # s) =
     (if c = CHR ''@'' then \<lparr>am_kind = K_any, am_begin = off, am_group = [c]\<rparr> # ant_scan (off + 1) s
      else if c = CHR ''?'' then \<lparr>am_kind = K_char, am_begin = off, am_group = [c]\<rparr> # ant_scan (off + 1) s
      else if c = CHR ''*'' then \<lparr>am_kind = K_star, am_begin = off, am_group = [c]\<rparr> # ant_scan (off + 1) s
      else if c = CHR ''{'' then
        (let n = takeWhile var_char s; rest = dropWhile var_char s
         in if n \<noteq> [] \<and> rest \<noteq> [] \<and> hd rest = CHR ''}''
            then \<lparr>am_kind = K_var, am_begin = off + 1, am_group = n\<rparr> # ant_scan (off + length n + 2) (tl rest)
            else ant_scan (off + 1) s)
      else ant_scan (off + 1) s)"
  by pat_completeness auto

termination
  by (relation "measure (\<lambda>(off, s). length s)")
    (auto simp: less_Suc_eq_le intro: order_trans [OF diff_le_self length_dropWhile_le])

definition scanning_re2 :: "(string \<Rightarrow> nat \<Rightarrow> string \<Rightarrow> string list option) \<Rightarrow> re2_ops" where
  "scanning_re2 full = \<lparr>re_replace = replace_stars, re_find_all = ant_scan 0, re_full_match = full\<rparr>"

text \<open>A matching function that knows patterns without variables and one with.\<close>

definition demo_match :: "string \<Rightarrow> nat \<Rightarrow> string \<Rightarrow> string list option" where
  "demo_match regex n path =
     (if regex = path then Some []
      else if regex = ''/file/([^/]*)'' \<and> take 6 path = ''/file/'' \<and> CHR ''/'' \<notin> set (drop 6 path)
      then Some [drop 6 path] else None)"

lemma replace_stars_none: "\<not> double_star s \<Longrightarrow> replace_stars s = s"
  by (induction s rule: replace_stars.induct) auto

lemma replace_stars_once:
  "\<not> double_star (a @ ''*'') \<Longrightarrow> \<not> double_star (CHR ''*'' # b) \<Longrightarrow>
     replace_stars (a @ ''**'' @ b) = a @ ''@'' @ b"
proof (induction a rule: replace_stars.induct)
  case (1 c d s)
  then show ?case by auto
next
  case "2_1"
  then show ?case using replace_stars_none [of b] by (cases b) auto
next
  case "2_2"
  then show ?case using replace_stars_none [of b] by (cases b) auto
qed

lemma token_text_ascii: "list_all token_ok ts \<Longrightarrow> list_all ascii (pattern_text ts)"
proof (induction ts)
  case (Cons t ts)
  then show ?case by (cases t) (auto simp: pattern_text_def list_all_iff ascii_def)
qed (simp add: pattern_text_def)

lemma ant_scan_lit: "list_all (\<lambda>c. \<not> special c) l \<Longrightarrow> ant_scan off (l @ s) = ant_scan (off + length l) s"
  by (induction l arbitrary: off) (auto simp: special_def)

lemma ant_scan_tokens: "list_all token_ok ts \<Longrightarrow> ant_scan off (pattern_text ts) = token_matches off ts"
proof (induction off ts rule: token_matches.induct)
  case (6 off n ts)
  have "takeWhile var_char (n @ CHR ''}'' # s) = n" "dropWhile var_char (n @ CHR ''}'' # s) = CHR ''}'' # s" for s
    using 6(2) by (auto simp: takeWhile_append2 dropWhile_append2 list_all_iff var_char_def)
  with 6 show ?case by (simp add: pattern_text_def)
qed (simp_all add: pattern_text_def ant_scan_lit list_all_iff)

lemma scanning_re2_ok: "re2_ok (scanning_re2 full)"
  by (simp add: re2_ok_def scanning_re2_def replace_stars_none replace_stars_once [simplified] ant_scan_tokens)

section \<open>What the constructor computes\<close>

fun token_regex :: "ant_token \<Rightarrow> string" where
  "token_regex (T_lit s) = s" | "token_regex T_any = ''.*''" | "token_regex T_char = ''.''"
| "token_regex T_star = ''[^/]*''" | "token_regex (T_var n) = ''([^/]*)''"

fun token_var :: "ant_token \<Rightarrow> string list" where
  "token_var (T_var n) = [n]" | "token_var _ = []"

definition wildcards :: "ant_token list \<Rightarrow> nat" where
  "wildcards ts = length (filter (\<lambda>t. t = T_star \<or> t = T_any) ts)"

lemma view_empty [simp]: "view s a a = []"
  by (simp add: view_def)

lemma view_append:
  "e \<le> length pre \<Longrightarrow> view (pre @ t @ q) e (length pre + length t) = view (pre @ t @ q) e (length pre) @ t"
  by (simp add: view_def take_add)

lemma matcher_fold:
  assumes "fp = pre @ pattern_text ts" "ml_end l \<le> length pre"
  shows "(let l' = foldl (matcher_step fp) l (token_matches (length pre) ts)
     in ml_ss l' @ view fp (ml_end l') (length fp)
          = ml_ss l @ view fp (ml_end l) (length pre) @ concat (map token_regex ts)
      \<and> ml_end l' \<le> length fp
      \<and> ml_wild l' = ml_wild l + wildcards ts
      \<and> ml_undecided l' = ml_undecided l + length (filter (\<lambda>t. t = T_char) ts)
      \<and> ml_names l' = ml_names l @ concat (map token_var ts))"
  using assms
proof (induction ts arbitrary: pre l)
  case Nil
  then show ?case by (simp add: pattern_text_def wildcards_def)
next
  case (Cons t ts)
  have fp: "fp = (pre @ token_text t) @ pattern_text ts" using Cons.prems by (simp add: pattern_text_def)
  note IH = Cons.IH [OF fp]
  show ?case
  proof (cases t)
    case (T_lit s)
    then show ?thesis
      using IH [of l] Cons.prems(2) fp view_append [of "ml_end l" pre s "pattern_text ts"]
      by (simp add: Let_def wildcards_def)
  next
    case (T_var n)
    let ?m = "\<lparr>am_kind = K_var, am_begin = length pre + 1, am_group = n\<rparr>"
    show ?thesis
      using IH [of "matcher_step fp l ?m"] T_var by (simp add: Let_def wildcards_def matcher_step_def)
  next
    case T_any
    let ?m = "\<lparr>am_kind = K_any, am_begin = length pre, am_group = ''@''\<rparr>"
    show ?thesis
      using IH [of "matcher_step fp l ?m"] T_any by (simp add: Let_def wildcards_def matcher_step_def)
  next
    case T_char
    let ?m = "\<lparr>am_kind = K_char, am_begin = length pre, am_group = ''?''\<rparr>"
    show ?thesis
      using IH [of "matcher_step fp l ?m"] T_char by (simp add: Let_def wildcards_def matcher_step_def)
  next
    case T_star
    let ?m = "\<lparr>am_kind = K_star, am_begin = length pre, am_group = ''*''\<rparr>"
    show ?thesis
      using IH [of "matcher_step fp l ?m"] T_star by (simp add: Let_def wildcards_def matcher_step_def)
  qed
qed

lemma stars_ok_single: "\<not> double_star s \<Longrightarrow> stars_ok 0 s \<and> (s = [] \<or> hd s \<noteq> CHR ''*'' \<longrightarrow> stars_ok 1 s)"
  by (induction s rule: double_star.induct) auto

definition fresh_loop :: matcher_loop where
  "fresh_loop = \<lparr>ml_end = 0, ml_ss = [], ml_wild = 0, ml_undecided = 0, ml_names = []\<rparr>"

lemma FPathMatcher_compiles:
  assumes "re2_ok R" "list_all token_ok ts" "\<not> double_star (pattern_text ts)"
    "length (pattern_text ts) \<le> MaxPathLengthMatcherSupport"
  shows "FPathMatcher_new R (pattern_text ts) = Inr
    \<lparr>mWildCardsNums = wildcards ts, mUndecidedChars = length (filter (\<lambda>t. t = T_char) ts),
     varNames = concat (map token_var ts), mPattern = concat (map token_regex ts),
     mOriginPattern = pattern_text ts\<rparr>"
proof -
  have "re_replace R (pattern_text ts) = pattern_text ts"
    and "re_find_all R (pattern_text ts) = token_matches 0 ts"
    using assms token_text_ascii [OF assms(2)] by (simp_all add: re2_ok_def)
  then show ?thesis
    using matcher_fold [of "pattern_text ts" "[]" ts fresh_loop] stars_ok_single [OF assms(3)] assms(4)
    by (simp add: FPathMatcher_new_def preFilterPattern_def Let_def fresh_loop_def)
qed

text \<open>
  C11. The translation of path patterns: for an ASCII pattern without \<open>**\<close>, composed of literal text, question
  marks, stars and variables, the matcher's regular expression is the concatenation of the
  translated parts, the variable names are in the order of their occurrence, and the counters that
  determine the routing priority count exactly the wildcards and question marks.
\<close>
theorem FPathMatcher_translates:
  assumes "re2_ok R" "list_all token_ok ts" "\<not> double_star (pattern_text ts)"
    "length (pattern_text ts) \<le> MaxPathLengthMatcherSupport"
  shows "FPathMatcher_new R (pattern_text ts) = Inr
    \<lparr>mWildCardsNums = wildcards ts, mUndecidedChars = length (filter (\<lambda>t. t = T_char) ts),
     varNames = concat (map token_var ts), mPattern = concat (map token_regex ts),
     mOriginPattern = pattern_text ts\<rparr>"
  using assms by (rule FPathMatcher_compiles)

theorem FPathMatcher_translates_witness:
  "\<exists>pm. FPathMatcher_new (scanning_re2 demo_match) ''/category/id={id}&page={page}'' = Inr pm
     \<and> mPattern pm = ''/category/id=([^/]*)&page=([^/]*)'' \<and> varNames pm = [''id'', ''page'']"
proof -
  let ?ts = "[T_lit ''/category/id='', T_var ''id'', T_lit ''&page='', T_var ''page'']"
  have "list_all token_ok ?ts" by (simp add: special_def var_char_def ascii_def)
  moreover have "pattern_text ?ts = ''/category/id={id}&page={page}''" by (simp add: pattern_text_def)
  moreover have "\<not> double_star ''/category/id={id}&page={page}''" by simp
  ultimately show ?thesis
    using FPathMatcher_translates [OF scanning_re2_ok, of ?ts demo_match] by simp
qed

text \<open>
  A pattern with \<open>**\<close> is translated wrongly: the at sign that stands for the two stars shortens the
  text the indices refer to, but the tail after the last special part is cut from the unshortened
  pattern, so the second star comes back behind \<open>.*\<close> and the regular expression of \<open>a**b\<close> is \<open>a.**b\<close>.
\<close>
theorem double_star_leaks:
  assumes "re2_ok R" "list_all (\<lambda>c. ascii c \<and> \<not> special c) (a @ b)" "length a + length b + 2 \<le> MaxPathLengthMatcherSupport"
  shows "\<exists>pm. FPathMatcher_new R (a @ ''**'' @ b) = Inr pm \<and> mPattern pm = a @ ''.**'' @ b \<and> mWildCardsNums pm = 1"
proof -
  have no_star: "CHR ''*'' \<notin> set a" "CHR ''*'' \<notin> set b"
    using assms(2) by (auto simp: list_all_iff special_def)
  have d: "\<not> double_star (s @ ''*'')" if "CHR ''*'' \<notin> set s" for s
    using that by (induction s rule: double_star.induct) auto
  have d': "\<not> double_star (CHR ''*'' # s)" if "CHR ''*'' \<notin> set s" for s
  proof -
    have "\<not> double_star s" using that by (induction s rule: double_star.induct) auto
    then show ?thesis using that by (cases s) auto
  qed
  have k: "stars_ok k b" for k using no_star(2) by (induction b arbitrary: k) auto
  have ok: "stars_ok 0 (a @ ''**'' @ b)"
    using no_star(1) by (induction a) (auto simp: k)
  have r: "re_replace R (a @ ''**'' @ b) = a @ ''@'' @ b"
    using assms(1,2) d [OF no_star(1)] d' [OF no_star(2)] by (simp add: re2_ok_def list_all_iff)
  have "list_all token_ok [T_lit a, T_any, T_lit b]" using assms(2) by simp
  then have "re_find_all R (pattern_text [T_lit a, T_any, T_lit b]) = token_matches 0 [T_lit a, T_any, T_lit b]"
    using assms(1) by (simp add: re2_ok_def)
  then have m: "re_find_all R (a @ ''@'' @ b) = [\<lparr>am_kind = K_any, am_begin = length a, am_group = ''@''\<rparr>]"
    by (simp add: pattern_text_def)
  show ?thesis
    using assms(3) ok
    by (simp add: FPathMatcher_new_def preFilterPattern_def r [simplified] m [simplified] matcher_step_def view_def Let_def)
qed

theorem double_star_leaks_witness:
  "\<exists>pm. FPathMatcher_new (scanning_re2 demo_match) ''/static/**'' = Inr pm \<and> mPattern pm = ''/static/.**''"
  using double_star_leaks [OF scanning_re2_ok, of "''/static/''" "[]" demo_match] by (simp add: special_def ascii_def) blast

end
