(* ===== verification/FAdmin.thy ===== *)
theory FAdmin
  imports FSession FDao HtmlHelper FPathMatcher
begin

text \<open>
  Administration of the blog: the service behind it (\<open>Server/src/Service/AdminLogin.cpp\<close>) and the
  controller that answers the requests (\<open>Server/src/Controller/AdminLoginController.cpp\<close>,
  \<open>Core/JsonTool.h\<close>, \<open>Core/ApiChangeDataDef.h\<close>). The JSON library is a record of operations; SQLite is
  the argument \<open>run\<close>, and \<open>Q\<close> its quotation. What an operation throws, and the world it leaves, are in
  its result.
\<close>

section \<open>JSON\<close>

text \<open>\<open>parse\<close> is None for a \<open>parse_error\<close>; \<open>j_find\<close> is None for \<open>end()\<close>; the conversions are None for a
  \<open>type_error\<close>. \<open>api_dump\<close> is the text of the object with a result and perhaps a message.\<close>

record 'j json_ops =
  j_parse :: "string \<Rightarrow> 'j option"
  j_nullptr :: 'j
  j_is_null :: "'j \<Rightarrow> bool"
  j_find :: "'j \<Rightarrow> string \<Rightarrow> 'j option"
  j_get_str :: "'j \<Rightarrow> string option"
  j_get_int :: "'j \<Rightarrow> i32 option"
  api_dump :: "int \<Rightarrow> string option \<Rightarrow> string"

datatype adm_exc = Json_type_error | Json_no_such_key | Adm_std std_error | Adm_col

definition ToJson :: "'j json_ops \<Rightarrow> string \<Rightarrow> 'j" where
  "ToJson J s = (case j_parse J s of Some j \<Rightarrow> j | None \<Rightarrow> j_nullptr J)"

definition json_check :: "'j json_ops \<Rightarrow> 'j \<Rightarrow> string \<Rightarrow> bool" where
  "json_check J j x \<longleftrightarrow> j_find J j x \<noteq> None"

definition json_get :: "'j json_ops \<Rightarrow> ('j \<Rightarrow> 'a option) \<Rightarrow> 'j \<Rightarrow> string \<Rightarrow> 'a \<Rightarrow> adm_exc + 'a" where
  "json_get J conv j x fallback =
     (case j_find J j x of
        None \<Rightarrow> Inr fallback
      | Some v \<Rightarrow> (case conv v of None \<Rightarrow> Inl Json_type_error | Some a \<Rightarrow> Inr a))"

text \<open>The overload with \<open>out\<close>: whether the key is there, and the value.\<close>

definition json_get_out :: "'j json_ops \<Rightarrow> ('j \<Rightarrow> 'a option) \<Rightarrow> 'j \<Rightarrow> string \<Rightarrow> 'a \<Rightarrow> adm_exc + bool \<times> 'a" where
  "json_get_out J conv j x fallback =
     (case j_find J j x of
        None \<Rightarrow> Inr (False, fallback)
      | Some v \<Rightarrow> (case conv v of None \<Rightarrow> Inl Json_type_error | Some a \<Rightarrow> Inr (True, a)))"

definition ApiOk :: int where "ApiOk = 200"
definition ApiError :: int where "ApiError = 500"

definition getErrorJson :: "'j json_ops \<Rightarrow> string \<Rightarrow> string" where
  "getErrorJson J msg = api_dump J ApiError (Some msg)"

definition getSucc :: "'j json_ops \<Rightarrow> string" where
  "getSucc J = api_dump J ApiOk None"

definition isNumber :: "string \<Rightarrow> bool" where
  "isNumber str \<longleftrightarrow> list_all isdigit str"

section \<open>Steps that may stop\<close>

text \<open>A step of a service operation throws, or ends it with \<open>out\<close> set and \<open>false\<close>, or goes on.\<close>

datatype 'a step = Throw adm_exc | Stop string | Go 'a

fun step_bind :: "'a step \<Rightarrow> ('a \<Rightarrow> 'b step) \<Rightarrow> 'b step" where
  "step_bind (Throw e) f = Throw e"
| "step_bind (Stop out) f = Stop out"
| "step_bind (Go a) f = f a"

definition of_sum :: "adm_exc + 'a \<Rightarrow> 'a step" where
  "of_sum r = (case r of Inl e \<Rightarrow> Throw e | Inr a \<Rightarrow> Go a)"

definition of_std :: "std_error + 'a \<Rightarrow> 'a step" where
  "of_std r = (case r of Inl e \<Rightarrow> Throw (Adm_std e) | Inr a \<Rightarrow> Go a)"

text \<open>A text parameter of the request: missing, or empty where that is not allowed.\<close>

definition need_key :: "'j json_ops \<Rightarrow> 'j \<Rightarrow> string \<Rightarrow> string step" where
  "need_key J j name =
     step_bind (of_sum (json_get_out J (j_get_str J) j name []))
       (\<lambda>(isvalid, s). if \<not> isvalid then Stop (''Missing parameter: '' @ name) else Go s)"

definition need_text :: "'j json_ops \<Rightarrow> 'j \<Rightarrow> string \<Rightarrow> string step" where
  "need_text J j name =
     step_bind (need_key J j name) (\<lambda>s. if s = [] then Stop (name @ '' is empty'') else Go s)"

definition flag_of :: "i32 \<Rightarrow> i32" where
  "flag_of v = (if v \<noteq> 0 then 1 else v)"

section \<open>The service\<close>

record 'db world =
  w_db :: 'db
  rss_dirty :: bool

type_synonym 'db outcome = "(adm_exc + bool \<times> string) \<times> 'db world"

text \<open>What the request says of a post, checked in the order of the code. \<open>post.content\<close> is the escaped
  text. The record is over the memory \<open>junk\<close> that \<open>Model::Post post\<close> does not initialise; its strings
  are empty.\<close>

definition blank_post :: "post \<Rightarrow> post" where
  "blank_post junk = junk\<lparr>po_title := [], po_profile := [], po_titlepic := [], po_content := [], po_tags := [],
     po_script_name := []\<rparr>"

definition read_post :: "'j json_ops \<Rightarrow> 'j \<Rightarrow> post \<Rightarrow> post step" where
  "read_post J json junk =
     step_bind (need_key J json ''category_id'') (\<lambda>categoryStr.
     step_bind (if isNumber categoryStr then of_std (stoul categoryStr) else Go 0) (\<lambda>categoryId.
     step_bind (need_text J json ''title'') (\<lambda>title.
     step_bind (need_text J json ''profile'') (\<lambda>profile.
     step_bind (need_text J json ''content'') (\<lambda>content.
     step_bind (need_text J json ''titlepic'') (\<lambda>titlepic.
     step_bind (of_sum (json_get J (j_get_int J) json ''allow_comment'' 1)) (\<lambda>allowComment.
     step_bind (of_sum (json_get J (j_get_int J) json ''allow_rss'' 0)) (\<lambda>allowRss.
     step_bind (of_sum (json_get J (j_get_int J) json ''hide'' 0)) (\<lambda>hide.
     Go ((blank_post junk)
           \<lparr>po_title := title, po_profile := profile, po_content := html_escape content, po_titlepic := titlepic,
            po_category_id := word_of_nat (categoryId mod 2 ^ 32), po_allow_comment := flag_of allowComment,
            po_allow_rss := flag_of allowRss, po_hide := flag_of hide\<rparr>))))))))))"

definition InsertNewPost :: "(string \<Rightarrow> string) \<Rightarrow> 'db runner \<Rightarrow> u64 \<Rightarrow> post \<Rightarrow> 'db world \<Rightarrow> 'db outcome" where
  "InsertNewPost Q run now p w =
     (case InsertPost Q run (p\<lparr>po_view_times := 0, po_created_at := now, po_updated_at := 0\<rparr>) (w_db w) of
        (Some e, db) \<Rightarrow> (Inr (False, e), w\<lparr>w_db := db\<rparr>)
      | (None, db) \<Rightarrow> (Inr (True, []), w\<lparr>w_db := db, rss_dirty := True\<rparr>))"

text \<open>The switches the request does not mention are kept. The error of \<open>UpdatePostById\<close> goes to a local
  \<open>out\<close>, so the caller sees an empty message.\<close>

definition ModifyPost :: "'j json_ops \<Rightarrow> 'db runner \<Rightarrow> u64 \<Rightarrow> 'j \<Rightarrow> 'j \<Rightarrow> post \<Rightarrow> 'db world \<Rightarrow> 'db outcome" where
  "ModifyPost J run now json idJson p w =
     (case j_get_str J idJson of
        None \<Rightarrow> (Inl Json_type_error, w)
      | Some idstr \<Rightarrow>
          if \<not> isNumber idstr then (Inr (False, ''id is wrong''), w)
          else (case stoul idstr of
                  Inl e \<Rightarrow> (Inl (Adm_std e), w)
                | Inr i \<Rightarrow>
                    (case QueryPostById run (word_of_nat i) (w_db w) of
                       (Inl _, db) \<Rightarrow> (Inl Adm_col, w\<lparr>w_db := db\<rparr>)
                     | (Inr None, db) \<Rightarrow> (Inr (False, ''post not exist''), w\<lparr>w_db := db\<rparr>)
                     | (Inr (Some old), db) \<Rightarrow>
                         (let post = p\<lparr>po_id := word_of_nat i,
                                       po_updated_at := now,
                                       po_allow_comment := (if json_check J json ''allow_comment'' then po_allow_comment p else po_allow_comment old),
                                       po_allow_rss := (if json_check J json ''allow_rss'' then po_allow_rss p else po_allow_rss old),
                                       po_hide := (if json_check J json ''hide'' then po_hide p else po_hide old)\<rparr>
                          in case UpdatePostById run (word_of_nat i) post now db of
                               (Some e, db') \<Rightarrow> (Inr (False, []), w\<lparr>w_db := db'\<rparr>)
                             | (None, db') \<Rightarrow> (Inr (True, []), w\<lparr>w_db := db', rss_dirty := True\<rparr>)))))"

definition postOrModifyBlog :: "'j json_ops \<Rightarrow> (string \<Rightarrow> string) \<Rightarrow> 'db runner \<Rightarrow> u64 \<Rightarrow> post \<Rightarrow> 'j \<Rightarrow> 'db world \<Rightarrow> 'db outcome" where
  "postOrModifyBlog J Q run now junk json w =
     (case read_post J json junk of
        Throw e \<Rightarrow> (Inl e, w)
      | Stop out \<Rightarrow> (Inr (False, out), w)
      | Go p \<Rightarrow>
          (case j_find J json ''id'' of
             Some idJson \<Rightarrow> ModifyPost J run now json idJson p w
           | None \<Rightarrow> InsertNewPost Q run now p w))"

definition deleteBlog :: "'db runner \<Rightarrow> u64 \<Rightarrow> 'db world \<Rightarrow> 'db outcome" where
  "deleteBlog run i w =
     (case DeletePostById run i (w_db w) of
        (Some e, db) \<Rightarrow> (Inr (False, e), w\<lparr>w_db := db\<rparr>)
      | (None, db) \<Rightarrow> (Inr (True, []), w\<lparr>w_db := db, rss_dirty := True\<rparr>))"

text \<open>\<open>json["name"]\<close> of a constant object without that key is an error of the library.\<close>

definition json_at_str :: "'j json_ops \<Rightarrow> 'j \<Rightarrow> string \<Rightarrow> string step" where
  "json_at_str J json x =
     (case j_find J json x of
        None \<Rightarrow> Throw Json_no_such_key
      | Some v \<Rightarrow> (case j_get_str J v of None \<Rightarrow> Throw Json_type_error | Some s \<Rightarrow> Go s))"

definition read_category :: "'j json_ops \<Rightarrow> string option \<Rightarrow> 'j \<Rightarrow> (u64 option \<times> category) step" where
  "read_category J defaultPic json =
     step_bind (case j_find J json ''id'' of
                  None \<Rightarrow> Go None
                | Some v \<Rightarrow>
                    (case j_get_str J v of
                       None \<Rightarrow> Throw Json_type_error
                     | Some s \<Rightarrow>
                         if \<not> isNumber s then Stop ''Wrong id''
                         else step_bind (of_std (stoul s)) (\<lambda>i. Go (Some (word_of_nat i))))) (\<lambda>i.
     step_bind (json_at_str J json ''name'') (\<lambda>name.
     step_bind (json_at_str J json ''categorypic'') (\<lambda>pic.
     if name = [] then Stop ''No name!''
     else step_bind (if pic = [] then (case defaultPic of Some p \<Rightarrow> Go p | None \<Rightarrow> Stop ''Internal error'') else Go pic) (\<lambda>pic'.
     Go (i, \<lparr>ca_id = (case i of Some n \<Rightarrow> n | None \<Rightarrow> 0), ca_name = name, ca_categorypic = pic'\<rparr>)))))"

definition postOrModifyCategory :: "'j json_ops \<Rightarrow> (string \<Rightarrow> string) \<Rightarrow> 'db runner \<Rightarrow> string option \<Rightarrow> 'j \<Rightarrow> 'db world \<Rightarrow> 'db outcome" where
  "postOrModifyCategory J Q run defaultPic json w =
     (case read_category J defaultPic json of
        Throw e \<Rightarrow> (Inl e, w)
      | Stop out \<Rightarrow> (Inr (False, out), w)
      | Go (i, cate) \<Rightarrow>
          (let (ret, db) = (if i \<noteq> None then UpdateCategory run cate (w_db w) else InsertCategory Q run cate (w_db w))
           in (case ret of Some e \<Rightarrow> Inr (False, e) | None \<Rightarrow> Inr (True, []), w\<lparr>w_db := db\<rparr>)))"

definition deleteCategory :: "'db runner \<Rightarrow> u64 \<Rightarrow> 'db world \<Rightarrow> 'db outcome" where
  "deleteCategory run i w =
     (let (ret, db) = DeleteCategory run i (w_db w)
      in (case ret of Some e \<Rightarrow> Inr (False, e) | None \<Rightarrow> Inr (True, []), w\<lparr>w_db := db\<rparr>))"

section \<open>The controller\<close>

type_synonym 'db answer = "(adm_exc + http_response) \<times> 'db world"

definition reply :: "string \<Rightarrow> http_response" where
  "reply body = rs_setBody FHttpResponse_new body"

text \<open>The end of the handlers: the outcome of the service as a response.\<close>

definition answer :: "'j json_ops \<Rightarrow> 'db outcome \<Rightarrow> 'db answer" where
  "answer J o' =
     (case o' of
        (Inl e, w) \<Rightarrow> (Inl e, w)
      | (Inr (result, outErr), w) \<Rightarrow> (Inr (reply (if \<not> result then getErrorJson J outErr else getSucc J)), w))"

definition refuse :: "'j json_ops \<Rightarrow> string \<Rightarrow> 'db world \<Rightarrow> 'db answer" where
  "refuse J msg w = (Inr (reply (getErrorJson J msg)), w)"

definition ctl_Post :: "'j json_ops \<Rightarrow> (string \<Rightarrow> string) \<Rightarrow> 'db runner \<Rightarrow> ('c, string, session_data) tbb_ops \<Rightarrow>
    'c session_manager \<Rightarrow> u64 \<Rightarrow> post \<Rightarrow> http_request \<Rightarrow> 'db world \<Rightarrow> 'db answer" where
  "ctl_Post J Q run T m now junk req w =
     (let json = ToJson J (rq_getRequestBody req)
      in if \<not> isLogin T m req then refuse J ''Not login'' w
         else answer J (postOrModifyBlog J Q run now junk json w))"

text \<open>The identifier in the path; \<open>stoul\<close> throws where it is too large.\<close>

definition with_id :: "'j json_ops \<Rightarrow> path_var \<Rightarrow> 'db world \<Rightarrow> (u64 \<Rightarrow> 'db answer) \<Rightarrow> 'db answer" where
  "with_id J var w k =
     (let idStr = pv_get var ''id''
      in if idStr = [] then refuse J ''No id error!'' w
         else if \<not> isNumber idStr then refuse J ''Id Error!'' w
         else (case stoul idStr of Inl e \<Rightarrow> (Inl (Adm_std e), w) | Inr i \<Rightarrow> k (word_of_nat i)))"

definition ctl_DeletePost :: "'j json_ops \<Rightarrow> 'db runner \<Rightarrow> ('c, string, session_data) tbb_ops \<Rightarrow>
    'c session_manager \<Rightarrow> http_request \<Rightarrow> path_var \<Rightarrow> 'db world \<Rightarrow> 'db answer" where
  "ctl_DeletePost J run T m req var w =
     (if \<not> isLogin T m req then refuse J ''Not login'' w
      else with_id J var w (\<lambda>i. answer J (deleteBlog run i w)))"

definition ctl_Category :: "'j json_ops \<Rightarrow> (string \<Rightarrow> string) \<Rightarrow> 'db runner \<Rightarrow> ('c, string, session_data) tbb_ops \<Rightarrow>
    'c session_manager \<Rightarrow> string option \<Rightarrow> http_request \<Rightarrow> 'db world \<Rightarrow> 'db answer" where
  "ctl_Category J Q run T m defaultPic req w =
     (let json = ToJson J (rq_getRequestBody req)
      in if \<not> isLogin T m req then refuse J ''Not login'' w
         else answer J (postOrModifyCategory J Q run defaultPic json w))"

definition ctl_DeleteCategroy :: "'j json_ops \<Rightarrow> 'db runner \<Rightarrow> http_request \<Rightarrow> path_var \<Rightarrow> 'db world \<Rightarrow> 'db answer" where
  "ctl_DeleteCategroy J run req var w = with_id J var w (\<lambda>i. answer J (deleteCategory run i w))"

text \<open>The login: the cookie holds the new session identifier. None when the random source runs dry.\<close>

definition session_cookie :: "'c session_manager \<Rightarrow> string \<Rightarrow> fcookie" where
  "session_cookie m sessionId =
     (let c1 = ck_addValue cookie_empty ''sessionId'' sessionId;
          c2 = ck_addAttributeVal c1 ''Path'' ''/'';
          c3 = ck_addAttributeVal c2 ''Max-Age'' (to_string (unat (getSessionExpireTimeMins m)));
          c4 = ck_addAttribute c3 ''HttpOnly'';
          c5 = ck_addAttributeVal c4 ''SameSite'' ''Strict''
      in ck_addAttribute c5 ''Secure'')"

definition ctl_Login :: "'j json_ops \<Rightarrow> ('c, string, session_data) tbb_ops \<Rightarrow> 'c session_manager \<Rightarrow> admin_login \<Rightarrow>
    int \<Rightarrow> u8 list list \<Rightarrow> http_request \<Rightarrow> ((adm_exc + http_response) \<times> 'c session_manager \<times> admin_login) option" where
  "ctl_Login J T m a now draws req =
     (let (onLock, a1) = isOnLock a now;
          json = (if onLock then j_nullptr J else ToJson J (rq_getRequestBody req));
          failed = reply (api_dump J ApiError (Some ''Wrong username or psw''))
      in if onLock \<or> j_is_null J json then Some (Inr failed, m, a1)
         else (case json_get J (j_get_str J) json ''username'' [] of
                 Inl e \<Rightarrow> Some (Inl e, m, a1)
               | Inr username \<Rightarrow>
                   (case json_get J (j_get_str J) json ''userpassword'' [] of
                      Inl e \<Rightarrow> Some (Inl e, m, a1)
                    | Inr userpswd \<Rightarrow>
                        (case Login T m a1 now draws username userpswd [] of
                           None \<Rightarrow> None
                         | Some (loggedIn, sessionId, m', a') \<Rightarrow>
                             Some (Inr (if loggedIn
                                        then rs_setBody (rs_addHeader (rs_addCookie FHttpResponse_new (session_cookie m' sessionId))
                                               ''Access-Control-Allow-Credentials'' ''true'') (getSucc J)
                                        else failed), m', a')))))"

section \<open>Who may do what\<close>

definition not_login :: "'j json_ops \<Rightarrow> http_response" where
  "not_login J = reply (getErrorJson J ''Not login'')"

text \<open>
  C30. Without a session nobody changes the articles: for a request whose cookies name no session that
  exists, posting, modifying and deleting articles and posting and modifying categories answer "Not
  login" and leave database and feed as they are. Deleting a category is the exception: it asks for no
  session at all, so any request with a numeric identifier deletes.
\<close>
theorem admin_gate:
  "(\<not> isLogin T m req \<longrightarrow>
      ctl_Post J Q run T m now junk req w = (Inr (not_login J), w)
      \<and> ctl_DeletePost J run T m req var w = (Inr (not_login J), w)
      \<and> ctl_Category J Q run T m defaultPic req w = (Inr (not_login J), w))
   \<and> (n < 2 ^ 64 \<and> pv_get var ''id'' = to_string n \<longrightarrow>
      w_db (snd (ctl_DeleteCategroy J run req var w)) = snd (DeleteCategory run (word_of_nat n) (w_db w)))"
proof (intro conjI impI)
  assume n: "n < 2 ^ 64 \<and> pv_get var ''id'' = to_string n"
  have "isNumber (to_string n)" using to_string_digits [of n] by (simp add: isNumber_def list_all_iff)
  with n show "w_db (snd (ctl_DeleteCategroy J run req var w)) = snd (DeleteCategory run (word_of_nat n) (w_db w))"
    by (auto simp: ctl_DeleteCategroy_def with_id_def stoul_to_string answer_def deleteCategory_def split: prod.split option.split)
qed (simp_all add: ctl_Post_def ctl_DeletePost_def ctl_Category_def refuse_def not_login_def)

definition demo_json :: "string json_ops" where
  "demo_json = \<lparr>j_parse = Some, j_nullptr = [], j_is_null = (\<lambda>j. j = []), j_find = (\<lambda>j x. None),
     j_get_str = Some, j_get_int = (\<lambda>j. None), api_dump = (\<lambda>r msg. (case msg of None \<Rightarrow> [] | Some s \<Rightarrow> s))\<rparr>"

definition demo_run :: "string list runner" where
  "demo_run sql binds db = (None, [], db @ [sql])"

definition demo_request :: http_request where
  "demo_request = FHttpRequest_of_stream [] M_DELET ''/api/category/7'' [] []"

theorem admin_gate_witness:
  "ctl_DeletePost demo_json demo_run rbt_ops demo_sessions demo_request [(''id'', ''7'')] \<lparr>w_db = [], rss_dirty = False\<rparr>
     = (Inr (not_login demo_json), \<lparr>w_db = [], rss_dirty = False\<rparr>)
   \<and> w_db (snd (ctl_DeleteCategroy demo_json demo_run demo_request [(''id'', ''7'')] \<lparr>w_db = [], rss_dirty = False\<rparr>))
     = ['' DELETE FROM Categories WHERE id = ? ;'']"
proof -
  have seven: "to_string 7 = ''7''" by code_simp
  have "\<not> isLogin rbt_ops demo_sessions demo_request"
    by (simp add: isLogin_def demo_request_def FHttpRequest_of_stream_def rq_getCookieSize_def mm_equal_range_def)
  then show ?thesis
    using admin_gate [of rbt_ops demo_sessions demo_request demo_json undefined demo_run undefined undefined
        "\<lparr>w_db = [], rss_dirty = False\<rparr>" "[(''id'', ''7'')]" undefined 7] seven
    by (simp add: pv_get_def DeleteCategory_def execute_def exec_def demo_run_def DeleteCategory_stmt_def orm_defs)
qed

section \<open>What is posted\<close>

lemma step_bind_Go: "step_bind r f = Go b \<longleftrightarrow> (\<exists>a. r = Go a \<and> f a = Go b)"
  by (cases r) auto

lemma of_sum_Go [simp]: "of_sum r = Go a \<longleftrightarrow> r = Inr a"
  by (auto simp: of_sum_def split: sum.split)

lemma need_text_Go: "need_text J j name = Go s \<longleftrightarrow>
    (\<exists>v. j_find J j name = Some v \<and> j_get_str J v = Some s) \<and> s \<noteq> []"
  by (auto simp: need_text_def need_key_def step_bind_Go json_get_out_def split: option.splits prod.splits if_splits)

lemma read_post_content:
  assumes "read_post J json junk = Go p"
  shows "\<exists>v content. j_find J json ''content'' = Some v \<and> j_get_str J v = Some content \<and> content \<noteq> []
    \<and> po_content p = html_escape content \<and> po_tags p = [] \<and> po_script_name p = []"
  using assms by (auto simp: read_post_def step_bind_Go need_text_Go blank_post_def)

lemma flag_of_bit [simp]: "flag_of v = 0 \<or> flag_of v = 1"
  by (simp add: flag_of_def)

lemma read_post_flags:
  assumes "read_post J json junk = Go p"
  shows "po_allow_comment p \<in> {0, 1} \<and> po_allow_rss p \<in> {0, 1} \<and> po_hide p \<in> {0, 1}"
proof -
  obtain a b c where "po_allow_comment p = flag_of a" "po_allow_rss p = flag_of b" "po_hide p = flag_of c"
    using assms by (auto simp: read_post_def step_bind_Go)
  then show ?thesis by simp
qed

text \<open>
  A new article is stored safe and unchanged: when posting succeeds, the row that was inserted holds
  the submitted content in escaped form, without tag brackets and quotes, from which unescaping gives back
  exactly what was submitted; its switches are 0 or 1, its counters start at 0, and the feed is marked for
  rebuilding.
\<close>
theorem posted_article_stored:
  assumes "postOrModifyBlog J Q run now junk json w = (Inr (True, msg), w')" "j_find J json ''id'' = None"
  shows "\<exists>p v content. j_find J json ''content'' = Some v \<and> j_get_str J v = Some content
    \<and> InsertPost Q run p (w_db w) = (None, w_db w')
    \<and> html_unescape (po_content p) = content \<and> set (po_content p) \<inter> markup_chars = {}
    \<and> {po_allow_comment p, po_allow_rss p, po_hide p} \<subseteq> {0, 1}
    \<and> po_view_times p = 0 \<and> po_created_at p = now \<and> rss_dirty w'"
proof -
  obtain p where p: "read_post J json junk = Go p"
    using assms by (auto simp: postOrModifyBlog_def split: step.splits)
  let ?p = "p\<lparr>po_view_times := 0, po_created_at := now, po_updated_at := 0\<rparr>"
  have ins: "InsertPost Q run ?p (w_db w) = (None, w_db w')" "rss_dirty w'"
    using assms p by (auto simp: postOrModifyBlog_def InsertNewPost_def split: prod.splits option.splits)
  obtain v content where "j_find J json ''content'' = Some v" "j_get_str J v = Some content"
      "po_content p = html_escape content"
    using read_post_content [OF p] by auto
  then show ?thesis
    using ins read_post_flags [OF p] html_escape_correct [of content]
    by (intro exI [of _ ?p] exI [of _ v] exI [of _ content]) auto
qed

definition one_text_json :: "string \<Rightarrow> string json_ops" where
  "one_text_json s = demo_json\<lparr>j_find := (\<lambda>j x. if x \<in> {''category_id'', ''title'', ''profile'', ''content'', ''titlepic''} then Some s else None)\<rparr>"

definition demo_post :: post where
  "demo_post = \<lparr>po_id = 0, po_user_id = 0, po_title = [], po_category_id = 0, po_profile = [], po_titlepic = [],
     po_content = [], po_tags = [], po_status = 0, po_created_at = 0, po_updated_at = 0, po_view_times = 0,
     po_allow_comment = 0, po_allow_rss = 0, po_hide = 0, po_script_name = []\<rparr>"

theorem posted_article_stored_witness:
  "\<exists>p. InsertPost demo_Q demo_run p [] = (None, w_db (snd (postOrModifyBlog (one_text_json ''<b>'') demo_Q demo_run 5 demo_post [] \<lparr>w_db = [], rss_dirty = False\<rparr>)))
    \<and> html_unescape (po_content p) = ''<b>''"
proof -
  let ?r = "postOrModifyBlog (one_text_json ''<b>'') demo_Q demo_run 5 demo_post [] \<lparr>w_db = [], rss_dirty = False\<rparr>"
  have "fst ?r = Inr (True, [])"
    by (simp add: postOrModifyBlog_def read_post_def need_text_def need_key_def json_get_out_def json_get_def of_sum_def
        one_text_json_def demo_json_def isNumber_def isdigit_code InsertNewPost_def InsertPost_def execute_def exec_def demo_run_def)
  then have "?r = (Inr (True, []), snd ?r)" by (simp add: prod_eq_iff)
  from posted_article_stored [OF this] show ?thesis by (auto simp: one_text_json_def demo_json_def)
qed

text \<open>The feed is marked exactly by the successful changes of articles; changes of categories, whose names
  the feed shows, never mark it.\<close>

definition marks_feed :: "'db world \<Rightarrow> 'db outcome \<Rightarrow> bool" where
  "marks_feed w o' \<longleftrightarrow> (rss_dirty (snd o') \<longleftrightarrow> rss_dirty w \<or> (\<exists>msg. fst o' = Inr (True, msg)))"

lemma rss_marks_insert: "marks_feed w (InsertNewPost Q run now p w)"
  by (cases "InsertPost Q run (p\<lparr>po_view_times := 0, po_created_at := now, po_updated_at := 0\<rparr>) (w_db w)")
    (auto simp: InsertNewPost_def marks_feed_def split: option.split)

lemma rss_marks_modify: "marks_feed w (ModifyPost J run now json idJson p w)"
proof (cases "\<exists>s i old db. j_get_str J idJson = Some s \<and> isNumber s \<and> stoul s = Inr i
    \<and> QueryPostById run (word_of_nat i) (w_db w) = (Inr (Some old), db)")
  case True
  then obtain s i old db where "j_get_str J idJson = Some s" "isNumber s" "stoul s = Inr i"
    "QueryPostById run (word_of_nat i) (w_db w) = (Inr (Some old), db)" by blast
  then show ?thesis by (simp add: ModifyPost_def Let_def marks_feed_def split: prod.split option.split)
next
  case False
  then show ?thesis
    by (cases "j_get_str J idJson"; cases "stoul (the (j_get_str J idJson))";
        cases "QueryPostById run (word_of_nat (projr (stoul (the (j_get_str J idJson))))) (w_db w)")
      (auto simp: ModifyPost_def marks_feed_def split: sum.split option.split)
qed

lemma rss_marks: "marks_feed w (postOrModifyBlog J Q run now junk json w)"
  by (auto simp: postOrModifyBlog_def rss_marks_insert rss_marks_modify marks_feed_def [of w "(Inl _, w)"]
      marks_feed_def [of w "(Inr (False, _), w)"] split: step.split option.split)

lemma rss_not_marked_by_categories:
  "rss_dirty (snd (postOrModifyCategory J Q run pic json w)) = rss_dirty w"
  "rss_dirty (snd (deleteCategory run i w)) = rss_dirty w"
  by (auto simp: postOrModifyCategory_def deleteCategory_def split: step.splits prod.splits)

text \<open>A failed update tells the caller nothing.\<close>

lemma modify_failure_has_no_message:
  assumes "j_get_str J idJson = Some s" "isNumber s" "stoul s = Inr i" "QueryPostById run (word_of_nat i) (w_db w) = (Inr (Some old), db)"
    "\<And>post. \<exists>e db'. UpdatePostById run (word_of_nat i) post now db = (Some e, db')"
  shows "\<exists>w'. ModifyPost J run now json idJson p w = (Inr (False, []), w')"
proof -
  obtain e db' where "UpdatePostById run (word_of_nat i) (p\<lparr>po_id := word_of_nat i,
                                       po_updated_at := now,
                                       po_allow_comment := (if json_check J json ''allow_comment'' then po_allow_comment p else po_allow_comment old),
                                       po_allow_rss := (if json_check J json ''allow_rss'' then po_allow_rss p else po_allow_rss old),
                                       po_hide := (if json_check J json ''hide'' then po_hide p else po_hide old)\<rparr>) now db = (Some e, db')"
    using assms(5) by blast
  then show ?thesis using assms(1-4) by (simp add: ModifyPost_def Let_def)
qed

end
