(* ===== verification/FFileServe.thy ===== *)
theory FFileServe
  imports FConcurrentMap FHttpMessage FPathMatcher
begin

text \<open>
  Files: the read-only mapping of a file (\<open>Server/src/Utils/FileReader.h\<close>, \<open>FileReader.cpp\<close>, on POSIX),
  the cache of mapped files (\<open>Server/src/Utils/FileCache.cpp\<close>) and the controller that serves assets,
  whole or by range (\<open>Server/src/Controller/FileController.cpp\<close>). The file system is an argument: whether
  a file can be opened, whether for writing too, and its content.
\<close>

section \<open>Mapped files\<close>

type_synonym file_system = "string \<Rightarrow> (bool \<times> string) option"

text \<open>The constructor for reading with size 0 asks an \<open>fstream\<close>, opened for reading and writing, for the
  size; when that fails \<open>tellg\<close> gives -1. \<open>mmap\<close> refuses the length 0 and a length beyond the address
  space. The error is the text of the \<open>RuntimeError\<close>.\<close>

definition MemoryMappedFile_ro :: "file_system \<Rightarrow> string \<Rightarrow> string + string" where
  "MemoryMappedFile_ro fs filename =
     (case fs filename of
        None \<Rightarrow> Inl ''Failed to open file (ReadOnly)''
      | Some (writable, content) \<Rightarrow>
          if \<not> writable \<or> content = [] then Inl ''Failed to mmap file (ReadOnly)'' else Inr content)"

section \<open>The file cache\<close>

record file_cache_line =
  fcl_file :: string
  cacheTime :: u64

record 'c file_cache =
  mmap :: 'c
  cacheOutDateTime :: u64

definition fc_invalid :: "('c, string, file_cache_line) tbb_ops \<Rightarrow> 'c file_cache \<Rightarrow> string \<Rightarrow> 'c file_cache" where
  "fc_invalid T fc path = fc\<lparr>mmap := ch_erase T (mmap fc) path\<rparr>"

definition fc_getOrGen :: "('c, string, file_cache_line) tbb_ops \<Rightarrow> file_system \<Rightarrow> 'c file_cache \<Rightarrow> u64 \<Rightarrow> string \<Rightarrow>
    (string + string) \<times> 'c file_cache" where
  "fc_getOrGen T fs fc now path =
     (case ch_findAndModifyLocked T (mmap fc) path (\<lambda>line _. (line\<lparr>cacheTime := now\<rparr>, fcl_file line)) [] of
        (True, c, ret) \<Rightarrow> (Inr ret, fc\<lparr>mmap := c\<rparr>)
      | (False, c, _) \<Rightarrow>
          (case MemoryMappedFile_ro fs path of
             Inl e \<Rightarrow> (Inl e, fc)
           | Inr file \<Rightarrow> (Inr file, fc\<lparr>mmap := ch_insert T (mmap fc) path \<lparr>fcl_file = file, cacheTime = now\<rparr>\<rparr>)))"

definition fc_overdue :: "'c file_cache \<Rightarrow> u64 \<Rightarrow> file_cache_line \<Rightarrow> bool" where
  "fc_overdue fc time_ms line \<longleftrightarrow> cacheOutDateTime fc < time_ms - cacheTime line"

definition fc_checkOverdue :: "('c, string, file_cache_line) tbb_ops \<Rightarrow> 'c file_cache \<Rightarrow> u64 \<Rightarrow> 'c file_cache" where
  "fc_checkOverdue T fc time_ms =
     (let toErase = ch_traversal_const T (mmap fc)
            (\<lambda>(key, line) acc. (True, if fc_overdue fc time_ms line then acc @ [key] else acc)) []
      in fc\<lparr>mmap := foldl (ch_erase T) (mmap fc) toErase\<rparr>)"

lemma fc_checkOverdue_find:
  assumes "tbb_ok T"
  shows "tfind T (mmap (fc_checkOverdue T fc t)) k =
    (case tfind T (mmap fc) k of None \<Rightarrow> None | Some v \<Rightarrow> if fc_overdue fc t v then None else Some v)"
proof -
  have c: "(\<lambda>(key, val) acc. (True, if fc_overdue fc t val then acc @ [key] else acc))
    = (\<lambda>h acc. (True, if fc_overdue fc t (snd h) then acc @ [fst h] else acc))"
    by (auto simp: fun_eq_iff)
  have "mmap (fc_checkOverdue T fc t) = expiring_cache.sweep (tentries T) (ch_erase T) (fc_overdue fc t) (mmap fc)"
    by (simp add: fc_checkOverdue_def ch_traversal_const_def c traverse_collect
        expiring_cache.sweep_def [OF expiring_cache_hash [OF assms]])
  then show ?thesis by (simp add: expiring_cache.lookup_sweep [OF expiring_cache_hash [OF assms]])
qed

text \<open>What the cache holds for a path it serves, whatever the file system says by then.\<close>

lemma getOrGen_find:
  assumes "tbb_ok T" "fc_getOrGen T fs fc now path = (Inr file, fc')"
  shows "tfind T (mmap fc') path = Some \<lparr>fcl_file = file, cacheTime = now\<rparr>"
    "cacheOutDateTime fc' = cacheOutDateTime fc"
  using assms(2)
  by (auto simp: fc_getOrGen_def ch_findAndModifyLocked_def ch_insert_def tbb_simps [OF assms(1)]
      split: option.splits sum.splits)

lemma getOrGen_cached:
  assumes "tbb_ok T" "tfind T (mmap fc) path = Some line"
  shows "fst (fc_getOrGen T fs fc now path) = Inr (fcl_file line)"
  using assms by (simp add: fc_getOrGen_def ch_findAndModifyLocked_def)

text \<open>
  The file cache serves a file from memory for as long as it is asked for: after a successful request
  the file is kept through every sweep within the hold time, and a later request gets the same content
  whatever has become of the file; after a sweep beyond the hold time it is read from the file system again.
\<close>
theorem file_cache_holds:
  assumes "tbb_ok T" "fc_getOrGen T fs fc now path = (Inr file, fc')"
  shows "fst (fc_getOrGen T fs' (fc_checkOverdue T fc' t) now' path) =
    (if t - now \<le> cacheOutDateTime fc then Inr file else MemoryMappedFile_ro fs' path)"
proof (cases "t - now \<le> cacheOutDateTime fc")
  case True
  then have "tfind T (mmap (fc_checkOverdue T fc' t)) path = Some \<lparr>fcl_file = file, cacheTime = now\<rparr>"
    using getOrGen_find [OF assms] by (auto simp: fc_checkOverdue_find [OF assms(1)] fc_overdue_def)
  from getOrGen_cached [OF assms(1) this] True show ?thesis by simp
next
  case False
  then have "tfind T (mmap (fc_checkOverdue T fc' t)) path = None"
    using getOrGen_find [OF assms] by (auto simp: fc_checkOverdue_find [OF assms(1)] fc_overdue_def)
  then show ?thesis
    using False by (auto simp: fc_getOrGen_def ch_findAndModifyLocked_def split: sum.split)
qed

definition demo_fs :: file_system where
  "demo_fs path = (if path = ''a'' then Some (True, ''0123456789'') else None)"

definition demo_file_cache :: "(string, file_cache_line) rbt file_cache" where
  "demo_file_cache = \<lparr>mmap = tempty rbt_ops, cacheOutDateTime = 1000\<rparr>"

theorem file_cache_holds_witness:
  "fst (fc_getOrGen rbt_ops (\<lambda>_. None) (fc_checkOverdue rbt_ops (snd (fc_getOrGen rbt_ops demo_fs demo_file_cache 5 ''a'')) 600) 700 ''a'')
     = Inr ''0123456789''"
proof -
  have "fst (fc_getOrGen rbt_ops demo_fs demo_file_cache 5 ''a'') = Inr ''0123456789''"
    by (simp add: fc_getOrGen_def ch_findAndModifyLocked_def demo_file_cache_def tbb_simps [OF rbt_ops_ok]
        MemoryMappedFile_ro_def demo_fs_def)
  then have "fc_getOrGen rbt_ops demo_fs demo_file_cache 5 ''a''
      = (Inr ''0123456789'', snd (fc_getOrGen rbt_ops demo_fs demo_file_cache 5 ''a''))"
    by (simp add: prod_eq_iff)
  from file_cache_holds [OF rbt_ops_ok this, of "\<lambda>_. None" 600 700] show ?thesis
    by (simp add: demo_file_cache_def word_le_nat_alt)
qed

section \<open>Serving files\<close>

definition digit_of :: "char \<Rightarrow> int" where
  "digit_of c = (if code_of c < 128 then int (code_of c) else int (code_of c) - 256) - 48"

text \<open>The loop of \<open>parseInt\<close>: it stops at the first character that is no digit. The accumulator is an
  \<open>int\<close>; its overflow is undefined in C++ and wraps here.\<close>

fun parse_digits :: "string \<Rightarrow> i32 \<Rightarrow> i32" where
  "parse_digits [] out = out"
| "parse_digits (c # cs) out =
     (if digit_of c < 0 \<or> 10 \<le> digit_of c then out
      else parse_digits cs (out * 10 + word_of_int (digit_of c)))"

definition parseInt :: "string \<Rightarrow> int \<Rightarrow> int \<Rightarrow> i32 option" where
  "parseInt str beg ende =
     (if beg < 0 \<or> ende < 0 \<or> ende < beg then None
      else Some (parse_digits (take (nat (ende - beg)) (drop (nat beg) str)) 0))"

definition clamp :: "int \<Rightarrow> int \<Rightarrow> int \<Rightarrow> int" where
  "clamp x lo hi = (if x < lo then lo else if hi < x then hi else x)"

definition int_size :: "string \<Rightarrow> int" where
  "int_size s = sint (word_of_nat (length s) :: i32)"

text \<open>\<open>int\<close> printed by a stream.\<close>

definition show_int :: "int \<Rightarrow> string" where
  "show_int i = (if i < 0 then CHR ''-'' # to_string (nat (- i)) else to_string (nat i))"

text \<open>The string constructor throws \<open>std::length_error\<close> on a negative size, which is a huge \<open>size_t\<close>.\<close>

definition send_part :: "string \<Rightarrow> int \<Rightarrow> int \<Rightarrow> http_response \<Rightarrow> std_error + bool \<times> http_response" where
  "send_part file begPos endPos response =
     (let range = ''bytes '' @ show_int begPos @ ''-'' @ show_int endPos @ ''/'' @ to_string (length file);
          res = rs_addHeader response ''Content-Range'' range
      in if endPos - begPos < 0 then Inl Length_error
         else Inr (True, rs_setBody res (take (nat (endPos - begPos)) (drop (nat begPos) file))))"

definition sendByRange :: "http_request \<Rightarrow> string \<Rightarrow> http_response \<Rightarrow> std_error + bool \<times> http_response" where
  "sendByRange req file response =
     (case rq_getHeader req ''Range'' of
        None \<Rightarrow> Inr (False, response)
      | Some receiveRange \<Rightarrow>
          (case str_find receiveRange (CHR ''-'') 0 of
             None \<Rightarrow> Inr (False, response)
           | Some hyphenPos \<Rightarrow>
               if hyphenPos = 0 then Inr (False, response)
               else if hyphenPos + 1 = length receiveRange
               then (let begPos = (case parseInt receiveRange 0 (int hyphenPos) of Some v \<Rightarrow> sint v | None \<Rightarrow> 0)
                     in send_part file begPos (int_size file) response)
               else (case (parseInt receiveRange 0 (int hyphenPos),
                           parseInt receiveRange (int hyphenPos + 1) (int (length receiveRange))) of
                       (Some b, Some e) \<Rightarrow>
                         (let endPos = clamp (sint e) 0 (int_size file);
                              begPos = clamp (sint b) 0 endPos
                          in send_part file begPos endPos response)
                     | _ \<Rightarrow> Inr (False, response))))"

definition RedirectTo :: "string \<Rightarrow> bool \<Rightarrow> http_response" where
  "RedirectTo path permanent =
     rs_addHeader (rs_setStatusCode FHttpResponse_new (if permanent then S301 else S302)) ''Location'' path"

datatype file_exc = File_runtime_error string | File_std std_error

definition getFile :: "file_system \<Rightarrow> string \<Rightarrow> http_request \<Rightarrow> path_var \<Rightarrow> file_exc + http_response" where
  "getFile fs assetsPath req var =
     (let str = pv_get var ''name''
      in if str = [] then Inr (rs_setStatusCode (RedirectTo ''/404'' False) S404)
         else (case MemoryMappedFile_ro fs (assetsPath @ str) of
                 Inl e \<Rightarrow> Inl (File_runtime_error e)
               | Inr file \<Rightarrow>
                   (case sendByRange req file FHttpResponse_new of
                      Inl e \<Rightarrow> Inl (File_std e)
                    | Inr (True, res) \<Rightarrow> Inr res
                    | Inr (False, res) \<Rightarrow> Inr (rs_setBody res file))))"

lemma digit_of_digit: "isdigit c \<Longrightarrow> digit_of c = int (digit_val c) \<and> 0 \<le> digit_of c \<and> digit_of c < 10"
  by (auto simp: digit_of_def digit_val_def isdigit_code)

lemma parse_digits_foldl: "\<forall>c \<in> set s. isdigit c \<Longrightarrow>
    parse_digits s (word_of_nat n) = word_of_nat (foldl (\<lambda>n c. 10 * n + digit_val c) n s)"
proof (induction s arbitrary: n)
  case (Cons c s)
  then have "parse_digits (c # s) (word_of_nat n) = parse_digits s (word_of_nat (10 * n + digit_val c))"
    using digit_of_digit [of c] by (simp add: algebra_simps)
  also have "\<dots> = word_of_nat (foldl (\<lambda>n c. 10 * n + digit_val c) (10 * n + digit_val c) s)"
    by (rule Cons.IH) (use Cons.prems in simp)
  finally show ?case by simp
qed simp

lemma parse_digits_number: "parse_digits (to_string n) 0 = word_of_nat n"
  using parse_digits_foldl [OF to_string_digits [of n], of 0] dec_value_to_string [of n] by (simp add: dec_value_def)

lemma sint_nat_small: "n < 2 ^ 31 \<Longrightarrow> sint (word_of_nat n :: i32) = int n"
  by (subst sint_small) (simp_all add: unat_of_nat_small)

lemma digit_of_other: "\<not> isdigit c \<Longrightarrow> digit_of c < 0 \<or> 10 \<le> digit_of c"
proof -
  assume a: "\<not> isdigit c"
  define n where "n = code_of c"
  have "n < 256" "\<not> (48 \<le> n \<and> n \<le> 57)" using a by (simp_all add: n_def isdigit_code)
  moreover have "digit_of c = (if n < 128 then int n else int n - 256) - 48" by (simp only: digit_of_def n_def)
  ultimately show ?thesis by auto
qed

lemma parse_prefix: "\<not> isdigit c \<Longrightarrow> parse_digits (c # s) 0 = 0"
  using digit_of_other [of c] by auto

lemma parseInt_prefix: "parseInt (u @ v) 0 (int (length u)) = Some (parse_digits u 0)"
  by (simp add: parseInt_def)

lemma parseInt_suffix: "parseInt (u @ v) (int (length u)) (int (length (u @ v))) = Some (parse_digits v 0)"
  by (simp add: parseInt_def)

lemma hyphen_free_number: "CHR ''-'' \<notin> set (to_string n)"
  using to_string_digits [of n] by (auto simp: isdigit_code)

text \<open>
  A range request as browsers send it is answered from the start of the file: for
  \<open>Range: bytes=a-b\<close> the unit stops the parsing of \<open>a\<close>, so the answer is the first \<open>b\<close> bytes (or the
  whole file when it is shorter), with status 200 and a \<open>Content-Range\<close> that says so. And for
  \<open>Range: a-\<close> with \<open>a\<close> beyond the end of the file the construction of the body throws.
\<close>
theorem range_request_answer:
  assumes "length file < 2 ^ 31"
  shows "(b < 2 ^ 31 \<and> rq_getHeader req ''Range'' = Some (''bytes='' @ to_string a @ ''-'' @ to_string b) \<longrightarrow>
      sendByRange req file FHttpResponse_new =
        Inr (True, rs_setBody (rs_addHeader FHttpResponse_new ''Content-Range''
               (''bytes 0-'' @ to_string (min b (length file)) @ ''/'' @ to_string (length file))) (take b file)))
    \<and> (length file < a \<and> a < 2 ^ 31 \<and> rq_getHeader req ''Range'' = Some (to_string a @ ''-'') \<longrightarrow>
      sendByRange req file FHttpResponse_new = Inl Length_error)"
proof (intro conjI impI)
  assume a: "b < 2 ^ 31 \<and> rq_getHeader req ''Range'' = Some (''bytes='' @ to_string a @ ''-'' @ to_string b)"
  let ?u = "''bytes='' @ to_string a" and ?r = "''bytes='' @ to_string a @ ''-'' @ to_string b"
  have f: "str_find ?r (CHR ''-'') 0 = Some (length ?u)"
    using str_find_append [of "CHR ''-''" ?u "to_string b"] hyphen_free_number [of a] by simp
  have "parse_digits ?u 0 = 0" by (simp only: append_Cons, rule parse_prefix) (simp add: isdigit_code)
  then have p1: "parseInt ?r 0 (int (length ?u)) = Some 0"
    using parseInt_prefix [of ?u "''-'' @ to_string b"] by simp
  have p2: "parseInt ?r (int (length ?u) + 1) (int (length ?r)) = Some (word_of_nat b)"
    using parseInt_suffix [of "?u @ ''-''" "to_string b"] by (simp add: parse_digits_number)
  have ne: "length ?u + 1 \<noteq> length ?r" using to_string_nonempty [of b] by simp
  have size: "int_size file = int (length file)" using assms by (simp add: int_size_def sint_nat_small)
  have "clamp (int b) 0 (int (length file)) = int (min b (length file))" by (auto simp: clamp_def)
  moreover have "show_int 0 = ''0''" by code_simp
  moreover have "show_int (int n) = to_string n" for n by (simp add: show_int_def)
  moreover have "clamp 0 0 (int (min b (length file))) = 0" by (auto simp: clamp_def)
  ultimately show "sendByRange req file FHttpResponse_new =
        Inr (True, rs_setBody (rs_addHeader FHttpResponse_new ''Content-Range''
               (''bytes 0-'' @ to_string (min b (length file)) @ ''/'' @ to_string (length file))) (take b file))"
    using a f p1 p2 ne size
    by (simp add: sendByRange_def send_part_def sint_nat_small min_def Let_def)
next
  assume a: "length file < a \<and> a < 2 ^ 31 \<and> rq_getHeader req ''Range'' = Some (to_string a @ ''-'')"
  have f: "str_find (to_string a @ ''-'') (CHR ''-'') 0 = Some (length (to_string a))"
    using str_find_append [of "CHR ''-''" "to_string a" "[]"] hyphen_free_number [of a] by simp
  have p: "parseInt (to_string a @ ''-'') 0 (int (length (to_string a))) = Some (word_of_nat a)"
    by (simp add: parseInt_def parse_digits_number)
  have size: "int_size file = int (length file)" using assms by (simp add: int_size_def sint_nat_small)
  show "sendByRange req file FHttpResponse_new = Inl Length_error"
    using a f p size by (simp add: sendByRange_def send_part_def sint_nat_small)
qed

definition range_request :: "string \<Rightarrow> http_request" where
  "range_request r = FHttpRequest_of_stream [(''Range'', r)] M_GET ''/file/a'' [] []"

theorem range_request_answer_witness:
  "sendByRange (range_request (''bytes='' @ to_string 4 @ ''-'' @ to_string 6)) ''0123456789'' FHttpResponse_new =
     Inr (True, rs_setBody (rs_addHeader FHttpResponse_new ''Content-Range''
       (''bytes 0-'' @ to_string 6 @ ''/'' @ to_string 10)) ''012345'')"
proof -
  let ?r = "''bytes='' @ to_string 4 @ ''-'' @ to_string 6"
  have h: "rq_getHeader (range_request r) ''Range'' = Some r" for r
    by (simp add: range_request_def FHttpRequest_of_stream_def rq_getHeader_def ctx_getHeader_def mm_find_def mm_erase_def)
  have n: "length ''0123456789'' = 10" "take 6 ''0123456789'' = ''012345''" "min 6 10 = (6 :: nat)" by simp_all
  have "6 < (2 ^ 31 :: nat) \<and> rq_getHeader (range_request ?r) ''Range'' = Some ?r" using h by simp
  moreover have "length ''0123456789'' < 2 ^ 31" by simp
  ultimately show ?thesis using range_request_answer [of "''0123456789''" 6 "range_request ?r" 4] unfolding n by blast
qed

text \<open>A file that is not there is not answered with the redirect to the error page: the mapping throws.\<close>

lemma missing_file_throws:
  "pv_get var ''name'' \<noteq> [] \<Longrightarrow> fs (assetsPath @ pv_get var ''name'') = None \<Longrightarrow>
    getFile fs assetsPath req var = Inl (File_runtime_error ''Failed to open file (ReadOnly)'')"
  by (simp add: getFile_def MemoryMappedFile_ro_def)

end
