(* ===== verification/FApi.thy ===== *)
theory FApi
  imports FAdmin FFileServe
begin

text \<open>
  What the page and API controllers share: the JSON values they answer with (\<open>nlohmann::json\<close> as the
  sources use it, \<open>FeiLib/include/Http/FReflect.h\<close>, \<open>Server/src/Core/TemplateRender.h\<close>), the parameters
  of a path, the number of pages of a listing, and whole files as answers. The JSON library's printer and
  the template library are arguments. An exception that leaves a handler is the left of a sum;
  \<open>Page_no_row\<close> stands for the access beyond the end of an empty result, which C++ leaves undefined.
\<close>

section \<open>Results of a handler\<close>

datatype page_exc = Page_exc adm_exc | Page_no_row | Page_runtime_error string

type_synonym ('a, 'w) page_result = "(page_exc + 'a) \<times> 'w"

definition p_bind :: "('a, 'w) page_result \<Rightarrow> ('a \<Rightarrow> 'w \<Rightarrow> ('b, 'w) page_result) \<Rightarrow> ('b, 'w) page_result" where
  "p_bind r k = (case r of (Inl e, w) \<Rightarrow> (Inl e, w) | (Inr a, w) \<Rightarrow> k a w)"

definition p_query :: "(col_error + 'a) \<times> 'w \<Rightarrow> ('a, 'w) page_result" where
  "p_query r = (case r of (Inl _, w) \<Rightarrow> (Inl (Page_exc Adm_col), w) | (Inr a, w) \<Rightarrow> (Inr a, w))"

definition p_count :: "(col_error + 'a option) \<times> 'w \<Rightarrow> ('a, 'w) page_result" where
  "p_count r =
     (case r of (Inl _, w) \<Rightarrow> (Inl (Page_exc Adm_col), w) | (Inr None, w) \<Rightarrow> (Inl Page_no_row, w) | (Inr (Some a), w) \<Rightarrow> (Inr a, w))"

definition p_std :: "std_error + 'a \<Rightarrow> 'w \<Rightarrow> ('a, 'w) page_result" where
  "p_std r w = (case r of Inl e \<Rightarrow> (Inl (Page_exc (Adm_std e)), w) | Inr a \<Rightarrow> (Inr a, w))"

lemma p_bind_simps [simp]: "p_bind (Inl e, w) k = (Inl e, w)" "p_bind (Inr a, w) k = k a w"
  by (simp_all add: p_bind_def)

section \<open>JSON values\<close>

text \<open>An object is a \<open>std::map\<close> of its members. \<open>j[key] = v\<close> makes a null value an object; on other values
  it throws, which no handler does.\<close>

datatype jvalue = J_null | J_int int | J_text string | J_arr "jvalue list" | J_obj "(string \<times> jvalue) list"

fun j_set :: "jvalue \<Rightarrow> string \<Rightarrow> jvalue \<Rightarrow> jvalue" where
  "j_set (J_obj m) key v = J_obj (omap_assign m key v)"
| "j_set J_null key v = J_obj [(key, v)]"
| "j_set j key v = j"

fun j_member :: "jvalue \<Rightarrow> string \<Rightarrow> jvalue option" where
  "j_member (J_obj m) key = omap_find m key"
| "j_member j key = None"

fun val_json :: "field_val \<Rightarrow> jvalue" where
  "val_json (U64 v) = J_int (uint v)"
| "val_json (I32 v) = J_int (sint v)"
| "val_json (Str s) = J_text s"

text \<open>\<open>FReflect::fromClass\<close> over the members of a class, in their order.\<close>

definition fromClass :: "(string \<times> field_val) list \<Rightarrow> jvalue" where
  "fromClass members = foldl (\<lambda>j (name, v). j_set j name (val_json v)) J_null members"

text \<open>\<open>fromTuple\<close>: the elements of a tuple as the members of a class.\<close>

definition fromTuple :: "string list \<Rightarrow> field_val list \<Rightarrow> (string \<times> field_val) list" where
  "fromTuple names vals = zip names vals"

text \<open>\<open>TemplateRenderData\<close> is such a value; \<open>setData\<close> for a number, a text, a class and a vector of classes.\<close>

definition setData :: "jvalue \<Rightarrow> string \<Rightarrow> jvalue \<Rightarrow> jvalue" where
  "setData data key val = j_set data key val"

definition setData_vector :: "jvalue \<Rightarrow> string \<Rightarrow> (string \<times> field_val) list list \<Rightarrow> jvalue" where
  "setData_vector data key vec = j_set data key (J_arr (map fromClass vec))"

text \<open>What the JSON library says of a value of the request, and how it prints: None for the exception of
  \<open>dump\<close> on text that is no UTF-8.\<close>

record 'j web_ops =
  j_is_string :: "'j \<Rightarrow> bool"
  j_get_u64 :: "'j \<Rightarrow> u64 option"
  j_dump :: "jvalue \<Rightarrow> string option"

definition respond_json :: "'j web_ops \<Rightarrow> jvalue \<Rightarrow> 'w \<Rightarrow> (http_response, 'w) page_result" where
  "respond_json W j w =
     (case j_dump W j of None \<Rightarrow> (Inl (Page_exc Json_type_error), w) | Some s \<Rightarrow> (Inr (reply s), w))"

definition respond_error :: "'j json_ops \<Rightarrow> string \<Rightarrow> 'w \<Rightarrow> (http_response, 'w) page_result" where
  "respond_error J msg w = (Inr (reply (getErrorJson J msg)), w)"

lemma find_j_set: "j \<noteq> J_arr xs \<Longrightarrow> j = J_null \<or> (\<exists>m. j = J_obj m) \<Longrightarrow>
    j_member (j_set j key v) k = (if k = key then Some v else j_member j k)"
  by (cases j) (auto simp: find_assign)

text \<open>The values the library can hold: the members of an object are in the order of their names, each name
  once.\<close>

fun j_wf :: "jvalue \<Rightarrow> bool" where
  "j_wf (J_arr xs) \<longleftrightarrow> (\<forall>x \<in> set xs. j_wf x)"
| "j_wf (J_obj m) \<longleftrightarrow> omap_wf m \<and> (\<forall>kv \<in> set m. j_wf (snd kv))"
| "j_wf j \<longleftrightarrow> True"

definition j_object :: "jvalue \<Rightarrow> bool" where
  "j_object j \<longleftrightarrow> (\<exists>m. j = J_obj m) \<and> j_wf j"

lemma set_assign_subset: "set (omap_assign m k v) \<subseteq> insert (k, v) (set m)"
  by (induction m k v rule: omap_assign.induct) auto

lemma j_object_set: "j = J_null \<or> j_object j \<Longrightarrow> j_wf v \<Longrightarrow> j_object (j_set j key v)"
proof (cases j)
  case (J_obj m)
  assume "j = J_null \<or> j_object j" "j_wf v"
  then have "omap_wf m" "\<forall>kv \<in> set m. j_wf (snd kv)" "j_wf v" using J_obj by (simp_all add: j_object_def)
  then show ?thesis using set_assign_subset [of m key v] J_obj by (auto simp: j_object_def omap_wf_assign)
qed (auto simp: j_object_def omap_wf_def)

lemma j_object_wf: "j_object j \<Longrightarrow> j_wf j"
  by (simp add: j_object_def)

lemma val_json_wf [simp]: "j_wf (val_json v)"
  by (cases v) simp_all

lemma fromClass_object: "members \<noteq> [] \<Longrightarrow> j_object (fromClass members)"
proof -
  have obj: "j_object j \<Longrightarrow> j_object (foldl (\<lambda>j (name, v). j_set j name (val_json v)) j ms)" for j ms
    by (induction ms arbitrary: j) (simp_all add: j_object_set split: prod.split)
  show "members \<noteq> [] \<Longrightarrow> j_object (fromClass members)"
    by (cases members) (auto simp: fromClass_def simp del: j_set.simps split: prod.split intro!: obj j_object_set)
qed

lemma fromClass_wf [simp]: "j_wf (fromClass members)"
  using fromClass_object [of members] by (cases members) (simp_all add: fromClass_def j_object_wf)

section \<open>Parameters\<close>

text \<open>\<open>std::stoi\<close> on a string of digits.\<close>

definition stoi :: "string \<Rightarrow> std_error + i32" where
  "stoi s =
     (if s = [] then Inl Invalid_argument
      else if 2 ^ 31 \<le> dec_value s then Inl Out_of_range
      else Inr (word_of_nat (dec_value s)))"

text \<open>The identifier in the path, which has to be there.\<close>

definition path_id :: "'j json_ops \<Rightarrow> path_var \<Rightarrow> 'w \<Rightarrow> (u64 \<Rightarrow> 'w \<Rightarrow> (http_response, 'w) page_result) \<Rightarrow>
    (http_response, 'w) page_result" where
  "path_id J var w k =
     (let idStr = pv_get var ''id''
      in if idStr = [] \<or> \<not> isNumber idStr then respond_error J ''Id Error'' w
         else p_bind (p_std (stoul idStr) w) (\<lambda>i. k (word_of_nat i)))"

text \<open>The page in the path, at least \<open>low\<close>; 1 where there is none.\<close>

definition path_page :: "int \<Rightarrow> path_var \<Rightarrow> 'w \<Rightarrow> (int, 'w) page_result" where
  "path_page low var w =
     (let pageStr = pv_get var ''page''
      in if pageStr = [] \<or> \<not> isNumber pageStr then (Inr 1, w)
         else p_bind (p_std (stoi pageStr) w) (\<lambda>page w. (Inr (max low (sint page)), w)))"

section \<open>The number of pages\<close>

text \<open>The sources compute it with \<open>float\<close>: 24 significant bits, rounded to the nearest, ties to even.\<close>

fun bit_length :: "nat \<Rightarrow> nat" where
  "bit_length n = (if n = 0 then 0 else Suc (bit_length (n div 2)))"

declare bit_length.simps [simp del]

definition round_div :: "nat \<Rightarrow> nat \<Rightarrow> nat" where
  "round_div p q =
     (let d = p div q; r = p mod q
      in if 2 * r < q then d else if q < 2 * r then d + 1 else if even d then d else d + 1)"

definition float_of :: "nat \<Rightarrow> nat" where
  "float_of n =
     (if n < 2 ^ 24 then n else (let k = bit_length n - 24 in round_div n (2 ^ k) * 2 ^ k))"

text \<open>\<open>std::ceil\<close> of the quotient of two \<open>float\<close>s that are whole.\<close>

definition ceil_quotient :: "nat \<Rightarrow> nat \<Rightarrow> nat" where
  "ceil_quotient a b =
     (let q = a div b; l = bit_length q
      in if q = 0 then (if a = 0 then 0 else 1)
         else if l \<le> 24 then (let s = 24 - l in (round_div (a * 2 ^ s) b + 2 ^ s - 1) div 2 ^ s)
         else (let k = l - 24 in round_div a (b * 2 ^ k) * 2 ^ k))"

definition total_pages :: "i32 \<Rightarrow> nat \<Rightarrow> int" where
  "total_pages count perPage = max 1 (int (ceil_quotient (float_of (nat (sint count))) perPage))"

lemma bit_length_bounds: "0 < n \<Longrightarrow> 2 ^ (bit_length n - 1) \<le> n \<and> n < 2 ^ bit_length n \<and> 0 < bit_length n"
proof (induction n rule: bit_length.induct)
  case (1 n)
  show ?case
  proof (cases "n = 1")
    case True
    then show ?thesis by (simp add: bit_length.simps [of "Suc 0"] bit_length.simps [of 0])
  next
    case False
    then have h: "0 < n div 2" using 1(2) by simp
    then have ih: "2 ^ (bit_length (n div 2) - 1) \<le> n div 2" "n div 2 < 2 ^ bit_length (n div 2)"
        "0 < bit_length (n div 2)" using 1(1) 1(2) by auto
    have l: "bit_length n = Suc (bit_length (n div 2))" using 1(2) by (simp add: bit_length.simps [of n])
    have "2 ^ bit_length (n div 2) = 2 * (2 :: nat) ^ (bit_length (n div 2) - 1)"
      using ih(3) by (cases "bit_length (n div 2)") simp_all
    then have x: "2 * 2 ^ (bit_length (n div 2) - 1) \<le> 2 * (n div 2)" "n < 2 * (2 * 2 ^ (bit_length (n div 2) - 1))"
      using ih by (simp, linarith)
    have "2 * (n div 2) \<le> n" by simp
    with x(1) have "2 * 2 ^ (bit_length (n div 2) - 1) \<le> n" by (rule le_trans)
    with x(2) \<open>2 ^ bit_length (n div 2) = _\<close> l show ?thesis by simp
  qed
qed

text \<open>Rounding the scaled quotient keeps it above \<open>q\<close> exactly when there is a remainder.\<close>

lemma round_div_scaled:
  fixes q r b S :: nat
  assumes "r < b" "b < 2 * S"
  shows "round_div ((q * b + r) * S) b = q * S \<and> r = 0 \<or>
    0 < r \<and> q * S < round_div ((q * b + r) * S) b \<and> round_div ((q * b + r) * S) b \<le> (q + 1) * S"
proof -
  let ?p = "(q * b + r) * S"
  have b: "0 < b" "0 < S" using assms by simp_all
  have d: "?p div b = q * S + r * S div b" and m: "?p mod b = r * S mod b"
  proof -
    have "?p = r * S + (q * S) * b" by (simp add: algebra_simps)
    then show "?p div b = q * S + r * S div b" "?p mod b = r * S mod b" using b by (simp_all add: div_mult_self1)
  qed
  show ?thesis
  proof (cases "r = 0")
    case True
    then show ?thesis using d m b by (simp add: round_div_def)
  next
    case False
    have "r * S < S * b" using assms(1) b(2) by (simp add: mult.commute)
    then have up: "r * S div b < S" using b by (simp add: less_mult_imp_div_less)
    have "q * S < round_div ?p b"
    proof (cases "r * S < b")
      case True
      then have "b < 2 * (?p mod b)" using m assms(2) False by (simp add: less_le_trans)
      then show ?thesis using d by (simp add: round_div_def Let_def)
    next
      case False
      then have "0 < r * S div b" using b by (simp add: div_greater_zero_iff)
      then show ?thesis using d by (simp add: round_div_def Let_def)
    qed
    moreover have "round_div ?p b \<le> ?p div b + 1" by (simp add: round_div_def Let_def)
    ultimately show ?thesis using False d up by simp
  qed
qed

text \<open>
  The number of pages is right: although it is computed with single precision, below 2 ^ 24 entries
  it is the entries divided by the page size, rounded up, and never below 1.
\<close>
theorem total_pages_exact:
  assumes "0 \<le> sint n" "sint n < 2 ^ 24" "0 < per"
  shows "total_pages n per = max 1 ((sint n + int per - 1) div int per)"
proof -
  define a q r where "a = nat (sint n)" and "q = a div per" and "r = a mod per"
  have a: "a < 2 ^ 24" "a = q * per + r" "r < per"
    using assms by (simp_all add: a_def q_def r_def)
  have ceil: "(a + per - 1) div per = (if r = 0 then q else q + 1)"
  proof (cases "r = 0")
    case True
    then show ?thesis using a(2) assms(3) by (auto intro!: div_nat_eqI simp: mult.commute)
  next
    case False
    then show ?thesis using a(2,3) by (auto intro!: div_nat_eqI simp: algebra_simps)
  qed
  have "ceil_quotient a per = (a + per - 1) div per"
  proof (cases "q = 0")
    case True
    then have "ceil_quotient a per = (if a = 0 then 0 else 1)" by (simp add: ceil_quotient_def q_def)
    then show ?thesis using True ceil a(2) by simp
  next
    case False
    define l where "l = bit_length q"
    define S where "S = (2 :: nat) ^ (24 - l)"
    have l: "2 ^ (l - 1) \<le> q" "0 < l" using bit_length_bounds [of q] False by (simp_all add: l_def)
    have big: "2 ^ (l - 1) * per < 2 ^ 24"
    proof -
      have "2 ^ (l - 1) * per \<le> q * per" using l(1) by simp
      then show ?thesis using a by linarith
    qed
    moreover have "2 ^ (l - 1) * 1 \<le> 2 ^ (l - 1) * per" using assms(3) by (intro mult_le_mono) simp_all
    ultimately have "(2 :: nat) ^ (l - 1) < 2 ^ 24" by linarith
    then have "l - 1 < 24" by (rule power_less_imp_less_exp [rotated]) simp
    then have l24: "l \<le> 24" by simp
    have "2 ^ (l - 1) * (2 * S) = (2 :: nat) ^ 24"
      using l24 l(2) by (simp add: S_def power_add [symmetric] flip: power_Suc)
    then have "per < 2 * S" using big by (metis mult_less_cancel1)
    from round_div_scaled [OF a(3) this, of q] a(2)
    have rd: "round_div (a * S) per = q * S \<and> r = 0 \<or> 0 < r \<and> q * S < round_div (a * S) per \<and> round_div (a * S) per \<le> (q + 1) * S"
      by simp
    have S: "0 < S" by (simp add: S_def)
    have "ceil_quotient a per = (round_div (a * S) per + S - 1) div S"
      using False l24 by (simp add: ceil_quotient_def Let_def flip: q_def l_def S_def)
    also have "\<dots> = (if r = 0 then q else q + 1)"
    proof (cases "r = 0")
      case True
      then show ?thesis using rd S by (auto intro!: div_nat_eqI simp: mult.commute)
    next
      case False
      then show ?thesis using rd by (auto intro!: div_nat_eqI simp: algebra_simps)
    qed
    finally show ?thesis using ceil by simp
  qed
  moreover have "int ((a + per - 1) div per) = (sint n + int per - 1) div int per"
    using assms(1,3) by (simp add: a_def zdiv_int of_nat_diff)
  ultimately show ?thesis using a(1) by (simp add: total_pages_def float_of_def flip: a_def)
qed

theorem total_pages_exact_witness: "total_pages 25 12 = 3 \<and> total_pages 24 12 = 2"
  using total_pages_exact [of 25 12] total_pages_exact [of 24 12] by simp

end
