(* ===== verification/ThreadPool.thy ===== *)
theory ThreadPool
  imports Prelude
begin

text \<open>
  Threads that hand each other work: the thread pool of the blog server
  (\<open>Server/src/Utils/ThreadPool.h\<close>), on which image dimensions are refreshed, and the blocking queues of
  the library (\<open>FeiLib/include/FBlockingQueue.h\<close>, \<open>FBLockingQueue.inl\<close>). A section that holds the mutex
  ends by returning or by waiting on a condition variable, so it is one step. A waiting thread goes on
  after a notification or spuriously and then evaluates its condition again. What the tasks do is
  nothing to the pool: a task is a value.
\<close>

section \<open>The pool\<close>

datatype 't worker = Checking | Sleeping | Busy 't | Ended

text \<open>\<open>notices\<close> counts the calls of \<open>submit\<close> between the release of the mutex and \<open>notify_one\<close>, \<open>waking\<close> is
  a destructor between the release of the mutex and \<open>notify_all\<close>. \<open>submitted\<close> and \<open>begun\<close> are the history.\<close>

record 't thread_pool =
  workers :: "'t worker list"
  tasks :: "'t list"
  stop :: bool
  notices :: nat
  waking :: bool
  submitted :: "'t list"
  begun :: "'t list"

definition ThreadPool_new :: "nat \<Rightarrow> 't thread_pool" where
  "ThreadPool_new n = \<lparr>workers = replicate n Checking, tasks = [], stop = False, notices = 0, waking = False,
     submitted = [], begun = []\<rparr>"

definition tp_submit :: "'t \<Rightarrow> 't thread_pool \<Rightarrow> 't thread_pool" where
  "tp_submit task s = s\<lparr>tasks := tasks s @ [task], submitted := submitted s @ [task], notices := notices s + 1\<rparr>"

text \<open>The section of a worker under the mutex: it waits, returns from the loop or takes the first task.\<close>

definition worker_turn :: "nat \<Rightarrow> 't thread_pool \<Rightarrow> 't thread_pool" where
  "worker_turn i s =
     (if \<not> (stop s \<or> tasks s \<noteq> []) then s\<lparr>workers := (workers s)[i := Sleeping]\<rparr>
      else if stop s \<and> tasks s = [] then s\<lparr>workers := (workers s)[i := Ended]\<rparr>
      else s\<lparr>workers := (workers s)[i := Busy (hd (tasks s))], tasks := tl (tasks s), begun := begun s @ [hd (tasks s)]\<rparr>)"

definition woken :: "'t worker \<Rightarrow> 't worker" where
  "woken w = (case w of Sleeping \<Rightarrow> Checking | _ \<Rightarrow> w)"

definition tp_stop :: "'t thread_pool \<Rightarrow> 't thread_pool" where
  "tp_stop s = s\<lparr>stop := True, waking := True\<rparr>"

definition tp_notify_all :: "'t thread_pool \<Rightarrow> 't thread_pool" where
  "tp_notify_all s = s\<lparr>waking := False, workers := map woken (workers s)\<rparr>"

abbreviation at_worker :: "'t thread_pool \<Rightarrow> nat \<Rightarrow> 't worker \<Rightarrow> bool" where
  "at_worker s i w \<equiv> i < length (workers s) \<and> workers s ! i = w"

text \<open>What the threads do of themselves. Work is submitted from outside only while the pool lives, and by a
  running task at any time.\<close>

inductive tp_move :: "'t thread_pool \<Rightarrow> 't thread_pool \<Rightarrow> bool" where
  move_submit_outside: "\<not> stop s \<Longrightarrow> tp_move s (tp_submit t s)"
| move_submit_inside: "at_worker s i (Busy u) \<Longrightarrow> tp_move s (tp_submit t s)"
| move_notify_one: "0 < notices s \<Longrightarrow> at_worker s i Sleeping \<Longrightarrow>
    tp_move s (s\<lparr>notices := notices s - 1, workers := (workers s)[i := Checking]\<rparr>)"
| move_notify_none: "0 < notices s \<Longrightarrow> Sleeping \<notin> set (workers s) \<Longrightarrow> tp_move s (s\<lparr>notices := notices s - 1\<rparr>)"
| move_turn: "at_worker s i Checking \<Longrightarrow> tp_move s (worker_turn i s)"
| move_task_returns: "at_worker s i (Busy t) \<Longrightarrow> tp_move s (s\<lparr>workers := (workers s)[i := Checking]\<rparr>)"
| move_destroy: "\<not> stop s \<Longrightarrow> tp_move s (tp_stop s)"
| move_notify_all: "waking s \<Longrightarrow> tp_move s (tp_notify_all s)"

inductive_cases tp_moveE: "tp_move s s'"

text \<open>A waiting worker may also wake up without a notification; nothing makes it do so.\<close>

inductive tp_step :: "'t thread_pool \<Rightarrow> 't thread_pool \<Rightarrow> bool" where
  moves: "tp_move s s' \<Longrightarrow> tp_step s s'"
| wakes_spuriously: "at_worker s i Sleeping \<Longrightarrow> tp_step s (s\<lparr>workers := (workers s)[i := Checking]\<rparr>)"

lemmas submit_outside = moves [OF move_submit_outside]
lemmas turn = moves [OF move_turn]
lemmas destroy = moves [OF move_destroy]

inductive_cases tp_stepE: "tp_step s s'"

inductive tp_reach :: "nat \<Rightarrow> 't thread_pool \<Rightarrow> bool" for n where
  tp_start: "tp_reach n (ThreadPool_new n)"
| tp_next: "tp_reach n s \<Longrightarrow> tp_step s s' \<Longrightarrow> tp_reach n s'"

definition tp_joined :: "'t thread_pool \<Rightarrow> bool" where
  "tp_joined s \<longleftrightarrow> (\<forall>w \<in> set (workers s). w = Ended)"

subsection \<open>The invariant\<close>

definition lookers :: "'t thread_pool \<Rightarrow> nat" where
  "lookers s = length (filter (\<lambda>w. w = Checking) (workers s))"

definition tp_inv :: "'t thread_pool \<Rightarrow> bool" where
  "tp_inv s \<longleftrightarrow> submitted s = begun s @ tasks s
   \<and> (Sleeping \<in> set (workers s) \<longrightarrow> length (tasks s) \<le> notices s + lookers s)
   \<and> (Ended \<in> set (workers s) \<longrightarrow> stop s)
   \<and> (stop s \<and> Sleeping \<in> set (workers s) \<longrightarrow> waking s)
   \<and> (stop s \<and> tasks s \<noteq> [] \<and> workers s \<noteq> [] \<longrightarrow> (\<exists>w \<in> set (workers s). w \<noteq> Ended))
   \<and> (waking s \<longrightarrow> stop s)"

lemma filter_update:
  assumes "i < length xs"
  shows "length (filter P (xs[i := x])) + (if P (xs ! i) then 1 else 0)
    = length (filter P xs) + (if P x then 1 else (0::nat))"
  using assms
proof (induction xs arbitrary: i)
  case (Cons a xs)
  then show ?case using Cons.IH [of "i - 1"] by (cases i) (auto split: if_splits)
qed simp

lemma checking_update:
  assumes "i < length (workers s)" "workers s' = (workers s)[i := w]"
  shows "lookers s' + (if workers s ! i = Checking then 1 else 0) = lookers s + (if w = Checking then 1 else 0)"
  using filter_update [OF assms(1), of "\<lambda>w. w = Checking" w] assms(2) by (simp add: lookers_def)

lemma in_set_update: "x \<in> set (xs[i := w]) \<Longrightarrow> w \<noteq> x \<Longrightarrow> x \<in> set xs"
  using set_update_subset_insert [of xs i w] by auto

lemma in_update: "i < length xs \<Longrightarrow> w \<in> set (xs[i := w])"
  by (simp add: set_update_memI)

lemma tp_inv_new: "tp_inv (ThreadPool_new n)"
  by (auto simp: tp_inv_def ThreadPool_new_def)

text \<open>A worker is awake or busy from now on, and the notices and tasks left fit the workers that look.\<close>

lemma tp_inv_worker:
  assumes inv: "tp_inv s" and i: "i < length (workers s)" and w: "w \<noteq> Sleeping" "w \<noteq> Ended"
    and s': "stop s' = stop s" "waking s' = waking s" "workers s' = (workers s)[i := w]"
      "submitted s' = begun s' @ tasks s'"
    and n: "length (tasks s') + notices s + (if workers s ! i = Checking then 1 else 0)
      \<le> length (tasks s) + notices s' + (if w = Checking then 1 else 0)"
  shows "tp_inv s'"
proof -
  have "length (tasks s') \<le> notices s' + lookers s'" if "length (tasks s) \<le> notices s + lookers s"
    using checking_update [OF i s'(3)] n that by (auto split: if_splits)
  moreover have "Sleeping \<in> set (workers s)" if "Sleeping \<in> set (workers s')"
    using that in_set_update [OF _ w(1)] s'(3) by simp
  moreover have "Ended \<in> set (workers s)" if "Ended \<in> set (workers s')"
    using that in_set_update [OF _ w(2)] s'(3) by simp
  moreover have "\<exists>v \<in> set (workers s'). v \<noteq> Ended"
    using in_update [OF i, of w] w(2) s'(3) by auto
  ultimately show ?thesis using inv s' unfolding tp_inv_def by simp
qed

lemma tp_inv_submit:
  assumes "tp_inv s" "\<not> stop s \<or> Busy u \<in> set (workers s)"
  shows "tp_inv (tp_submit t s)"
  using assms by (fastforce simp: tp_inv_def tp_submit_def lookers_def)

lemma tp_inv_turn:
  assumes inv: "tp_inv s" and i: "at_worker s i Checking"
  shows "tp_inv (worker_turn i s)"
proof (cases "tasks s")
  case Nil
  show ?thesis
  proof (cases "stop s")
    case True
    then have "tp_inv (s\<lparr>workers := (workers s)[i := Ended]\<rparr>)"
      using inv Nil in_set_update [of Sleeping "workers s" i Ended] by (auto simp: tp_inv_def)
    then show ?thesis using True Nil by (simp add: worker_turn_def)
  next
    case False
    then have "tp_inv (s\<lparr>workers := (workers s)[i := Sleeping]\<rparr>)"
      using inv Nil in_set_update [of Ended "workers s" i Sleeping] by (auto simp: tp_inv_def)
    then show ?thesis using False Nil by (simp add: worker_turn_def)
  qed
next
  case (Cons t ts)
  then show ?thesis
    by (intro tp_inv_worker [OF inv, of i "Busy t"]) (use inv i in \<open>auto simp: worker_turn_def tp_inv_def\<close>)
qed

lemma woken_simps [simp]: "woken w \<noteq> Sleeping" "Sleeping \<noteq> woken w" "woken w = Ended \<longleftrightarrow> w = Ended" "Ended = woken w \<longleftrightarrow> w = Ended"
  by (auto simp: woken_def split: worker.splits)

lemma tp_inv_notify_all: "tp_inv s \<Longrightarrow> waking s \<Longrightarrow> tp_inv (tp_notify_all s)"
  by (auto simp: tp_inv_def tp_notify_all_def)

lemma tp_inv_stop: "tp_inv s \<Longrightarrow> \<not> stop s \<Longrightarrow> tp_inv (tp_stop s)"
  by (cases "workers s") (auto simp: tp_inv_def tp_stop_def lookers_def)

lemma tp_inv_move:
  assumes "tp_move s s'" and inv: "tp_inv s"
  shows "tp_inv s'"
  using assms(1)
proof cases
  case (move_submit_inside i u t)
  then have "Busy u \<in> set (workers s)" by (metis nth_mem)
  then show ?thesis using tp_inv_submit [OF inv, of u] move_submit_inside by auto
next
  case (move_notify_one i)
  then show ?thesis by (intro tp_inv_worker [OF inv, of i Checking]) (use inv in \<open>auto simp: tp_inv_def\<close>)
next
  case move_notify_none
  then show ?thesis using inv by (auto simp: tp_inv_def lookers_def)
next
  case (move_task_returns i t)
  then show ?thesis by (intro tp_inv_worker [OF inv, of i Checking]) (use inv in \<open>auto simp: tp_inv_def\<close>)
qed (use inv in \<open>auto intro: tp_inv_submit tp_inv_turn tp_inv_stop tp_inv_notify_all\<close>)

lemma tp_inv_step:
  assumes "tp_step s s'" and inv: "tp_inv s"
  shows "tp_inv s'"
  using assms(1)
proof cases
  case moves
  then show ?thesis using inv by (rule tp_inv_move)
next
  case (wakes_spuriously i)
  then show ?thesis by (intro tp_inv_worker [OF inv, of i Checking]) (use inv in \<open>auto simp: tp_inv_def\<close>)
qed

lemma tp_reach_inv: "tp_reach n s \<Longrightarrow> tp_inv s"
  by (induction rule: tp_reach.induct) (auto intro: tp_inv_new tp_inv_step)

lemma tp_reach_workers: "tp_reach n s \<Longrightarrow> length (workers s) = n"
  by (induction rule: tp_reach.induct)
    (auto simp: ThreadPool_new_def tp_submit_def worker_turn_def tp_stop_def tp_notify_all_def elim!: tp_stepE tp_moveE)

subsection \<open>Wake-ups and the end of the pool\<close>

text \<open>
  C27. The pool begins the submitted tasks in their order and each once, and no wake-up is lost: with no
  notification under way and no worker on its way to the queue, a sleeping worker means that every task
  has begun.
\<close>
theorem pool_no_lost_wakeup:
  assumes "tp_reach n s"
  shows "submitted s = begun s @ tasks s
    \<and> (Sleeping \<in> set (workers s) \<and> notices s = 0 \<and> Checking \<notin> set (workers s) \<longrightarrow> begun s = submitted s)"
proof -
  have inv: "tp_inv s" by (rule tp_reach_inv [OF assms])
  have "lookers s = 0" if "Checking \<notin> set (workers s)" using that by (auto simp: lookers_def filter_empty_conv)
  then show ?thesis using inv by (auto simp: tp_inv_def)
qed

definition worker_weight :: "'t worker \<Rightarrow> nat" where
  "worker_weight w = (case w of Checking \<Rightarrow> 1 | Sleeping \<Rightarrow> 2 | Busy _ \<Rightarrow> 2 | Ended \<Rightarrow> 0)"

definition tp_work :: "'t thread_pool \<Rightarrow> nat" where
  "tp_work s = 2 * length (tasks s) + sum_list (map worker_weight (workers s)) + notices s + (if waking s then 1 else 0)"

lemma weight_update:
  "i < length ws \<Longrightarrow> sum_list (map worker_weight (ws[i := w])) + worker_weight (ws ! i)
    = sum_list (map worker_weight ws) + worker_weight w"
proof (induction ws arbitrary: i)
  case (Cons a ws)
  then show ?case using Cons.IH [of "i - 1"] by (cases i) auto
qed simp

lemma weight_woken: "sum_list (map worker_weight (map woken ws)) \<le> sum_list (map worker_weight ws)"
  by (induction ws) (auto simp: woken_def worker_weight_def split: worker.splits)

lemma tp_work_worker:
  assumes "at_worker s i v" "worker_weight w + 2 * length (tasks s') + notices s' < worker_weight v + 2 * length (tasks s) + notices s"
    "waking s' = waking s" "workers s' = (workers s)[i := w]"
  shows "tp_work s' < tp_work s"
  using weight_update [of i "workers s" w] assms by (simp add: tp_work_def)

lemma stopped_move_decreases:
  assumes "tp_move s s'" "stop s" "submitted s' = submitted s"
  shows "tp_work s' < tp_work s"
  using assms(1)
proof cases
  case (move_notify_one i)
  then show ?thesis by (intro tp_work_worker [where i = i and v = Sleeping and w = Checking]) (auto simp: worker_weight_def)
next
  case (move_turn i)
  show ?thesis
  proof (cases "tasks s")
    case Nil
    then show ?thesis using move_turn assms(2)
      by (intro tp_work_worker [where i = i and v = Checking and w = Ended]) (auto simp: worker_weight_def worker_turn_def)
  next
    case (Cons t ts)
    then show ?thesis using move_turn
      by (intro tp_work_worker [where i = i and v = Checking and w = "Busy t"]) (auto simp: worker_weight_def worker_turn_def)
  qed
next
  case (move_task_returns i t)
  then show ?thesis by (intro tp_work_worker [where i = i and v = "Busy t" and w = Checking]) (auto simp: worker_weight_def)
next
  case move_notify_all
  then show ?thesis using weight_woken [of "workers s"] by (simp add: tp_work_def tp_notify_all_def)
qed (use assms in \<open>auto simp: tp_submit_def tp_work_def\<close>)

lemma stopped_step_decreases:
  assumes "tp_step s s'" "stop s" "submitted s' = submitted s"
  shows "tp_work s' < tp_work s"
  using assms(1)
proof cases
  case moves
  then show ?thesis using assms(2,3) by (rule stopped_move_decreases)
next
  case (wakes_spuriously i)
  then show ?thesis by (intro tp_work_worker [where i = i and v = Sleeping and w = Checking]) (auto simp: worker_weight_def)
qed

lemma stopped_move_exists:
  assumes "tp_inv s" "stop s" "\<not> tp_joined s"
  shows "\<exists>s'. tp_move s s' \<and> submitted s' = submitted s"
proof -
  obtain i where i: "i < length (workers s)" "workers s ! i \<noteq> Ended"
    using assms(3) by (auto simp: tp_joined_def in_set_conv_nth)
  show ?thesis
  proof (cases "workers s ! i")
    case Checking
    then have "tp_move s (worker_turn i s)" using i by (intro move_turn) simp
    then show ?thesis by (rule exI [of _ "worker_turn i s", OF conjI]) (simp add: worker_turn_def)
  next
    case Sleeping
    then have "Sleeping \<in> set (workers s)" using nth_mem [OF i(1)] by simp
    then have "waking s" using assms(1,2) by (simp add: tp_inv_def)
    then have "tp_move s (tp_notify_all s)" by (rule move_notify_all)
    then show ?thesis by (rule exI [of _ "tp_notify_all s", OF conjI]) (simp add: tp_notify_all_def)
  next
    case (Busy t)
    then have "tp_move s (s\<lparr>workers := (workers s)[i := Checking]\<rparr>)" using i by (intro move_task_returns) simp
    then show ?thesis by (rule exI [of _ "s\<lparr>workers := (workers s)[i := Checking]\<rparr>", OF conjI]) simp
  qed (use i in simp)
qed

lemma stop_stays: "tp_step s s' \<Longrightarrow> stop s \<Longrightarrow> stop s'"
  by (auto simp: tp_submit_def worker_turn_def tp_stop_def tp_notify_all_def elim!: tp_stepE tp_moveE)

lemma joined_all_begun: "tp_reach n s \<Longrightarrow> stop s \<Longrightarrow> 0 < n \<Longrightarrow> tp_joined s \<Longrightarrow> begun s = submitted s"
  using tp_reach_inv [of n s] tp_reach_workers [of n s] by (fastforce simp: tp_inv_def tp_joined_def)

lemma drains_by_moves:
  "tp_reach n s \<Longrightarrow> stop s \<Longrightarrow> \<exists>s'. tp_move\<^sup>*\<^sup>* s s' \<and> tp_joined s' \<and> submitted s' = submitted s"
proof (induction "tp_work s" arbitrary: s rule: less_induct)
  case less
  show ?case
  proof (cases "tp_joined s")
    case False
    then obtain s1 where s1: "tp_move s s1" "submitted s1 = submitted s"
      using stopped_move_exists [OF tp_reach_inv [OF less.prems(1)] less.prems(2)] by blast
    then have "\<exists>s'. tp_move\<^sup>*\<^sup>* s1 s' \<and> tp_joined s' \<and> submitted s' = submitted s1"
      using less.hyps [OF stopped_move_decreases [OF s1(1) less.prems(2) s1(2)]]
        tp_next [OF less.prems(1) moves [OF s1(1)]] stop_stays [OF moves [OF s1(1)] less.prems(2)] by blast
    then show ?thesis using s1 converse_rtranclp_into_rtranclp [of tp_move, OF s1(1)] by auto
  qed auto
qed

lemma move_reach: "tp_move\<^sup>*\<^sup>* s s' \<Longrightarrow> tp_reach n s \<Longrightarrow> tp_reach n s'"
  by (induction rule: rtranclp_induct) (auto intro: tp_next moves)

lemma move_stop: "tp_move\<^sup>*\<^sup>* s s' \<Longrightarrow> stop s \<Longrightarrow> stop s'"
  by (induction rule: rtranclp_induct) (auto intro: stop_stays moves)

text \<open>
  C21. Destruction of the pool ends and loses nothing. Once the pool is stopped: every step that is not a
  new submission by a running task, a spurious wake-up included, decreases the work left; as long as a
  worker has not ended, the threads have such a step to make of themselves, without any spurious
  wake-up; so without new submissions these steps lead to the end of all workers (the joins return), and
  whenever all have ended every task ever submitted has begun.
\<close>
theorem pool_drains:
  assumes "tp_reach n s" "stop s" "0 < n"
  shows "(\<forall>s'. tp_step s s' \<and> submitted s' = submitted s \<longrightarrow> tp_work s' < tp_work s)
    \<and> (if tp_joined s then begun s = submitted s else \<exists>s'. tp_move s s' \<and> submitted s' = submitted s)
    \<and> (\<exists>s'. tp_move\<^sup>*\<^sup>* s s' \<and> tp_joined s' \<and> begun s' = submitted s)"
proof -
  obtain s' where s': "tp_move\<^sup>*\<^sup>* s s'" "tp_joined s'" "submitted s' = submitted s"
    using drains_by_moves [OF assms(1,2)] by blast
  then have "begun s' = submitted s"
    using joined_all_begun [OF move_reach [OF s'(1) assms(1)] move_stop [OF s'(1) assms(2)] assms(3)] by simp
  then show ?thesis
    using s' stopped_step_decreases [OF _ assms(2)] stopped_move_exists [OF tp_reach_inv [OF assms(1)] assms(2)]
      joined_all_begun [OF assms] by auto
qed

definition pool_run :: "nat thread_pool" where
  "pool_run = worker_turn 1 (worker_turn 0 (tp_submit 8 (tp_submit 7 (ThreadPool_new 2))))"

lemma pool_run_reach: "tp_reach 2 pool_run" "tp_reach 2 (tp_stop pool_run)"
proof -
  let ?s = "tp_submit 8 (tp_submit 7 (ThreadPool_new 2))"
  have "tp_reach 2 ?s"
    by (intro tp_next [OF _ submit_outside] tp_start) (simp_all add: ThreadPool_new_def tp_submit_def)
  then have "tp_reach 2 (worker_turn 0 ?s)"
    by (rule tp_next [OF _ turn]) (simp add: ThreadPool_new_def tp_submit_def numeral_2_eq_2)
  then show r: "tp_reach 2 pool_run" unfolding pool_run_def
    by (rule tp_next [OF _ turn]) (simp add: ThreadPool_new_def tp_submit_def worker_turn_def numeral_2_eq_2)
  show "tp_reach 2 (tp_stop pool_run)"
    by (rule tp_next [OF r destroy]) (simp add: pool_run_def ThreadPool_new_def tp_submit_def worker_turn_def)
qed

theorem pool_no_lost_wakeup_witness: "submitted pool_run = begun pool_run @ tasks pool_run \<and> begun pool_run = [7, 8]"
  using pool_no_lost_wakeup [OF pool_run_reach(1)]
  by (simp add: pool_run_def ThreadPool_new_def tp_submit_def worker_turn_def numeral_2_eq_2)

theorem pool_drains_witness:
  "\<not> tp_joined (tp_stop pool_run) \<and> (\<exists>s'. tp_move\<^sup>*\<^sup>* (tp_stop pool_run) s' \<and> tp_joined s' \<and> begun s' = [7, 8])"
proof -
  have "\<not> tp_joined (tp_stop pool_run)" "submitted (tp_stop pool_run) = [7, 8]"
    by (simp_all add: tp_joined_def tp_stop_def pool_run_def ThreadPool_new_def tp_submit_def worker_turn_def numeral_2_eq_2)
  then show ?thesis using pool_drains [OF pool_run_reach(2)] by (simp add: tp_stop_def)
qed

section \<open>The blocking queues\<close>

text \<open>A thread at the queue: about to put or take (it holds or waits for the mutex), waiting on
  \<open>full_\<close> or \<open>empty_\<close>, or returned, with the element where it took one. \<open>capacity_\<close> is a \<open>size_t\<close> made
  of a \<open>uint32\<close>. \<open>put_log\<close> and \<open>take_log\<close> are the history.\<close>

datatype 't client = Putting 't | Wait_full 't | Taking | Wait_empty | Returned "'t option"

record 't block_queue =
  queue :: "'t list"
  clients :: "'t client list"
  put_log :: "'t list"
  take_log :: "'t list"

record 't bounded_queue = "'t block_queue" +
  capacity :: nat

definition BoundedBlockingQueue_new :: "u32 \<Rightarrow> nat \<Rightarrow> 't bounded_queue" where
  "BoundedBlockingQueue_new maxCap n =
     \<lparr>queue = [], clients = replicate n (Returned None), put_log = [], take_log = [], capacity = unat maxCap\<rparr>"

definition BlockingQueue_new :: "nat \<Rightarrow> 't block_queue" where
  "BlockingQueue_new n = \<lparr>queue = [], clients = replicate n (Returned None), put_log = [], take_log = []\<rparr>"

definition notify_empty :: "'t client list \<Rightarrow> 't client list" where
  "notify_empty = map (\<lambda>c. case c of Wait_empty \<Rightarrow> Taking | _ \<Rightarrow> c)"

definition notify_full :: "'t client list \<Rightarrow> 't client list" where
  "notify_full = map (\<lambda>c. case c of Wait_full t \<Rightarrow> Putting t | _ \<Rightarrow> c)"

definition bbq_put :: "nat \<Rightarrow> 't \<Rightarrow> 't bounded_queue \<Rightarrow> 't bounded_queue" where
  "bbq_put i task s =
     (if length (queue s) = capacity s then s\<lparr>clients := (clients s)[i := Wait_full task]\<rparr>
      else s\<lparr>queue := queue s @ [task], put_log := put_log s @ [task],
             clients := notify_empty ((clients s)[i := Returned None])\<rparr>)"

definition bbq_take :: "nat \<Rightarrow> 't bounded_queue \<Rightarrow> 't bounded_queue" where
  "bbq_take i s =
     (if queue s = [] then s\<lparr>clients := (clients s)[i := Wait_empty]\<rparr>
      else s\<lparr>queue := tl (queue s), take_log := take_log s @ [hd (queue s)],
             clients := notify_full ((clients s)[i := Returned (Some (hd (queue s)))])\<rparr>)"

definition bq_put :: "nat \<Rightarrow> 't \<Rightarrow> 't block_queue \<Rightarrow> 't block_queue" where
  "bq_put i task s = s\<lparr>queue := queue s @ [task], put_log := put_log s @ [task],
     clients := notify_empty ((clients s)[i := Returned None])\<rparr>"

definition bq_take :: "nat \<Rightarrow> 't block_queue \<Rightarrow> 't block_queue" where
  "bq_take i s =
     (if queue s = [] then s\<lparr>clients := (clients s)[i := Wait_empty]\<rparr>
      else s\<lparr>queue := tl (queue s), take_log := take_log s @ [hd (queue s)],
             clients := (clients s)[i := Returned (Some (hd (queue s)))]\<rparr>)"

definition bbq_size :: "'t bounded_queue \<Rightarrow> nat" where "bbq_size s = length (queue s)"
definition bbq_empty :: "'t bounded_queue \<Rightarrow> bool" where "bbq_empty s \<longleftrightarrow> queue s = []"
definition bq_size :: "'t block_queue \<Rightarrow> nat" where "bq_size s = length (queue s)"
definition bq_empty :: "'t block_queue \<Rightarrow> bool" where "bq_empty s \<longleftrightarrow> queue s = []"

text \<open>The threads, over the operations of either class: a call begins, its section runs, a waiting thread
  wakes spuriously (a notification is part of the section that makes it).\<close>

inductive q_step :: "(nat \<Rightarrow> 't \<Rightarrow> ('t, 'z) block_queue_scheme \<Rightarrow> ('t, 'z) block_queue_scheme) \<Rightarrow>
    (nat \<Rightarrow> ('t, 'z) block_queue_scheme \<Rightarrow> ('t, 'z) block_queue_scheme) \<Rightarrow>
    ('t, 'z) block_queue_scheme \<Rightarrow> ('t, 'z) block_queue_scheme \<Rightarrow> bool" for put take_op where
  call_put: "i < length (clients s) \<Longrightarrow> clients s ! i = Returned r \<Longrightarrow>
    q_step put take_op s (s\<lparr>clients := (clients s)[i := Putting t]\<rparr>)"
| call_take: "i < length (clients s) \<Longrightarrow> clients s ! i = Returned r \<Longrightarrow>
    q_step put take_op s (s\<lparr>clients := (clients s)[i := Taking]\<rparr>)"
| run_put: "i < length (clients s) \<Longrightarrow> clients s ! i = Putting t \<Longrightarrow> q_step put take_op s (put i t s)"
| run_take: "i < length (clients s) \<Longrightarrow> clients s ! i = Taking \<Longrightarrow> q_step put take_op s (take_op i s)"
| wake_full: "i < length (clients s) \<Longrightarrow> clients s ! i = Wait_full t \<Longrightarrow>
    q_step put take_op s (s\<lparr>clients := (clients s)[i := Putting t]\<rparr>)"
| wake_empty: "i < length (clients s) \<Longrightarrow> clients s ! i = Wait_empty \<Longrightarrow>
    q_step put take_op s (s\<lparr>clients := (clients s)[i := Taking]\<rparr>)"

inductive_cases q_stepE: "q_step put take_op s s'"

inductive q_reach :: "(nat \<Rightarrow> 't \<Rightarrow> ('t, 'z) block_queue_scheme \<Rightarrow> ('t, 'z) block_queue_scheme) \<Rightarrow>
    (nat \<Rightarrow> ('t, 'z) block_queue_scheme \<Rightarrow> ('t, 'z) block_queue_scheme) \<Rightarrow>
    ('t, 'z) block_queue_scheme \<Rightarrow> ('t, 'z) block_queue_scheme \<Rightarrow> bool" for put take_op s0 where
  q_start: "q_reach put take_op s0 s0"
| q_next: "q_reach put take_op s0 s \<Longrightarrow> q_step put take_op s s' \<Longrightarrow> q_reach put take_op s0 s'"

text \<open>Who waits: takers only at an empty queue, putters only at a full one (\<open>full\<close>).\<close>

definition q_inv :: "(('t, 'z) block_queue_scheme \<Rightarrow> bool) \<Rightarrow> ('t, 'z) block_queue_scheme \<Rightarrow> bool" where
  "q_inv full s \<longleftrightarrow> put_log s = take_log s @ queue s
     \<and> (Wait_empty \<in> set (clients s) \<longrightarrow> queue s = [])
     \<and> ((\<exists>t. Wait_full t \<in> set (clients s)) \<longrightarrow> full s)"

lemma set_notify_empty: "set (notify_empty cs) \<subseteq> insert Taking (set cs - {Wait_empty})"
  by (auto simp: notify_empty_def split: client.splits)

lemma set_notify_full: "x \<in> set (notify_full cs) \<Longrightarrow> (\<exists>t. x = Putting t) \<or> (x \<in> set cs \<and> (\<forall>t. x \<noteq> Wait_full t))"
  by (auto simp: notify_full_def split: client.splits)

lemma q_inv_client:
  assumes "q_inv full s" "c \<noteq> Wait_empty \<or> queue s = []" "(\<forall>t. c \<noteq> Wait_full t) \<or> full s"
    "full (s\<lparr>clients := (clients s)[i := c]\<rparr>) = full s"
  shows "q_inv full (s\<lparr>clients := (clients s)[i := c]\<rparr>)"
  using assms in_set_update [of _ "clients s" i c] unfolding q_inv_def by fastforce

lemma q_inv_step:
  assumes "q_step put take_op s s'" "q_inv full s" "\<And>cs. full (s\<lparr>clients := cs\<rparr>) = full s"
    "\<And>i t. i < length (clients s) \<Longrightarrow> q_inv full (put i t s)" "\<And>i. i < length (clients s) \<Longrightarrow> q_inv full (take_op i s)"
  shows "q_inv full s'"
  using assms(1) by cases (use assms(2-) in \<open>auto intro!: q_inv_client\<close>)

abbreviation bbq_full :: "'t bounded_queue \<Rightarrow> bool" where
  "bbq_full s \<equiv> length (queue s) = capacity s"

lemma q_inv_bbq_put: "q_inv bbq_full s \<Longrightarrow> length (queue s) \<le> capacity s \<Longrightarrow> q_inv bbq_full (bbq_put i t s)"
proof (cases "bbq_full s")
  case False
  assume inv: "q_inv bbq_full s"
  have "Wait_empty \<notin> set (notify_empty ((clients s)[i := Returned None]))" using set_notify_empty by fastforce
  moreover have "Wait_full u \<notin> set (notify_empty ((clients s)[i := Returned None]))" for u
    using set_notify_empty in_set_update [of "Wait_full u" "clients s" i "Returned None"] inv False
    by (fastforce simp: q_inv_def)
  ultimately show ?thesis using inv False by (simp add: bbq_put_def q_inv_def)
qed (simp add: bbq_put_def q_inv_client)

lemma q_inv_bbq_take: "q_inv bbq_full s \<Longrightarrow> q_inv bbq_full (bbq_take i s)"
proof (cases "queue s")
  case (Cons t ts)
  assume inv: "q_inv bbq_full s"
  have "Wait_full u \<notin> set (notify_full ((clients s)[i := Returned (Some t)]))" for u
    using set_notify_full by fastforce
  moreover have "Wait_empty \<notin> set (notify_full ((clients s)[i := Returned (Some t)]))"
    using set_notify_full in_set_update [of Wait_empty "clients s" i "Returned (Some t)"] inv Cons
    by (fastforce simp: q_inv_def)
  ultimately show ?thesis using inv Cons by (simp add: bbq_take_def q_inv_def)
qed (simp add: bbq_take_def q_inv_client)

lemma bbq_capacity:
  "q_step bbq_put bbq_take s s' \<Longrightarrow> length (queue s) \<le> capacity s \<Longrightarrow> capacity s' = capacity s \<and> length (queue s') \<le> capacity s'"
  by (auto simp: bbq_put_def bbq_take_def elim!: q_stepE)

lemma bbq_reach_inv:
  "q_reach bbq_put bbq_take (BoundedBlockingQueue_new maxCap n) s \<Longrightarrow>
   q_inv bbq_full s \<and> length (queue s) \<le> capacity s \<and> capacity s = unat maxCap"
proof (induction rule: q_reach.induct)
  case q_start
  then show ?case by (auto simp: BoundedBlockingQueue_new_def q_inv_def)
next
  case (q_next s s')
  then have "q_inv bbq_full s'"
    by (intro q_inv_step [OF q_next(2)]) (auto intro: q_inv_bbq_put q_inv_bbq_take)
  then show ?case using bbq_capacity [OF q_next(2)] q_next(3) by simp
qed

lemma bq_reach_inv: "q_reach bq_put bq_take (BlockingQueue_new n) s \<Longrightarrow> q_inv (\<lambda>_. False) s"
proof (induction rule: q_reach.induct)
  case q_start
  then show ?case by (auto simp: BlockingQueue_new_def q_inv_def)
next
  case (q_next s s')
  note inv = q_next(3)
  have "q_inv (\<lambda>_. False) (bq_put i t s)" for i t
    using inv set_notify_empty in_set_update [of _ "clients s" i "Returned None"]
    by (fastforce simp: bq_put_def q_inv_def)
  moreover have "q_inv (\<lambda>_. False) (bq_take i s)" for i
    using inv in_set_update [of _ "clients s" i]
    by (cases "queue s") (fastforce simp: bq_take_def q_inv_def)+
  ultimately show ?case using q_inv_step [OF q_next(2) inv] by simp
qed

text \<open>
  The bounded queue under any interleaving of its threads: it never holds more than its capacity (the
  assertion before a push holds), what was taken and what is held are what was put, in that order, a
  taker waits only at an empty queue and a putter only at a full one, so that with a positive capacity
  a taker and a putter never wait at the same time.
\<close>
theorem bounded_queue_correct:
  assumes "q_reach bbq_put bbq_take (BoundedBlockingQueue_new maxCap n) s"
  shows "length (queue s) \<le> unat maxCap \<and> put_log s = take_log s @ queue s
    \<and> (Wait_empty \<in> set (clients s) \<longrightarrow> queue s = [])
    \<and> (\<forall>t. Wait_full t \<in> set (clients s) \<longrightarrow> length (queue s) = unat maxCap)
    \<and> (0 < maxCap \<longrightarrow> \<not> (Wait_empty \<in> set (clients s) \<and> Wait_full t \<in> set (clients s)))"
proof -
  have "q_inv bbq_full s" "length (queue s) \<le> capacity s" "capacity s = unat maxCap"
    using bbq_reach_inv [OF assms] by simp_all
  moreover have "unat maxCap \<noteq> 0" if "0 < maxCap" using that by (simp add: unat_gt_0 word_neq_0_conv)
  ultimately show ?thesis by (auto simp: q_inv_def)
qed

text \<open>
  The unbounded queue under any interleaving: takers get the elements in the order they were put,
  nobody waits while an element is there, and a put never waits.
\<close>
theorem blocking_queue_correct:
  assumes "q_reach bq_put bq_take (BlockingQueue_new n) s"
  shows "put_log s = take_log s @ queue s \<and> (Wait_empty \<in> set (clients s) \<longrightarrow> queue s = [])
    \<and> (\<forall>t. Wait_full t \<notin> set (clients s))"
  using bq_reach_inv [OF assms] by (auto simp: q_inv_def)

lemma q_reach_put:
  assumes "q_reach put tk s0 s" "i < length (clients s)" "clients s ! i = Returned r"
  shows "q_reach put tk s0 (put i t (s\<lparr>clients := (clients s)[i := Putting t]\<rparr>))"
proof -
  have "q_reach put tk s0 (s\<lparr>clients := (clients s)[i := Putting t]\<rparr>)"
    using assms by (intro q_next [OF assms(1) call_put])
  then show ?thesis by (rule q_next) (rule run_put, use assms in simp_all)
qed

lemma q_reach_take:
  assumes "q_reach put tk s0 s" "i < length (clients s)" "clients s ! i = Returned r"
  shows "q_reach put tk s0 (tk i (s\<lparr>clients := (clients s)[i := Taking]\<rparr>))"
proof -
  have "q_reach put tk s0 (s\<lparr>clients := (clients s)[i := Taking]\<rparr>)"
    using assms by (intro q_next [OF assms(1) call_take])
  then show ?thesis by (rule q_next) (rule run_take, use assms in simp_all)
qed

theorem bounded_queue_correct_witness:
  "\<exists>s. q_reach bbq_put bbq_take (BoundedBlockingQueue_new 1 1) s \<and> queue s = [7::nat] \<and> Wait_full 8 \<in> set (clients s)
    \<and> Wait_empty \<notin> set (clients s)"
proof -
  let ?s0 = "BoundedBlockingQueue_new 1 1 :: nat bounded_queue"
  note defs = BoundedBlockingQueue_new_def bbq_put_def notify_empty_def
  let ?s1 = "\<lparr>queue = [7], clients = [Returned None], put_log = [7], take_log = [], capacity = 1\<rparr> :: nat bounded_queue"
  let ?s2 = "\<lparr>queue = [7], clients = [Wait_full 8], put_log = [7], take_log = [], capacity = 1\<rparr> :: nat bounded_queue"
  have "q_reach bbq_put bbq_take ?s0 ?s1"
    using q_reach_put [OF q_start, of 0 ?s0 None bbq_put bbq_take 7] by (simp add: defs)
  from q_reach_put [OF this, of 0 None 8] have r: "q_reach bbq_put bbq_take ?s0 ?s2" by (simp add: defs)
  show ?thesis
    by (rule exI [of _ ?s2]) (use r bounded_queue_correct [OF r, of 8] in simp)
qed

theorem blocking_queue_correct_witness:
  "\<exists>s. q_reach bq_put bq_take (BlockingQueue_new 1) s \<and> queue s = [] \<and> take_log s = [7::nat]"
proof -
  let ?s0 = "BlockingQueue_new 1 :: nat block_queue"
  note defs = BlockingQueue_new_def bq_put_def bq_take_def notify_empty_def
  let ?s1 = "\<lparr>queue = [7], clients = [Returned None], put_log = [7], take_log = []\<rparr> :: nat block_queue"
  let ?s2 = "\<lparr>queue = [], clients = [Returned (Some 7)], put_log = [7], take_log = [7]\<rparr> :: nat block_queue"
  have "q_reach bq_put bq_take ?s0 ?s1"
    using q_reach_put [OF q_start, of 0 ?s0 None bq_put bq_take 7] by (simp add: defs)
  from q_reach_take [OF this, of 0 None] have r: "q_reach bq_put bq_take ?s0 ?s2" by (simp add: defs)
  show ?thesis
    by (rule exI [of _ ?s2]) (use r blocking_queue_correct [OF r] in simp)
qed

end
