(* ===== verification/FPhotoWall.thy ===== *)
theory FPhotoWall
  imports FApi ThreadPool
begin

text \<open>
  The photo wall (\<open>Server/src/Controller/PhotoWallController.cpp\<close>): public listings of albums and photos,
  and the handlers by which the administrator posts and deletes them. A photo whose picture is new is
  handed to the image pool (\<open>ThreadPool\<close>), which reads the picture's size and stores it. Objects of the
  model classes are not initialised by the code; \<open>junk\<close> is what their memory holds.
\<close>

section \<open>Listings\<close>

text \<open>The loop of \<open>GetAllAlbums\<close>.\<close>

fun album_items :: "'db runner \<Rightarrow> album list \<Rightarrow> 'db \<Rightarrow> (jvalue list, 'db) page_result" where
  "album_items run [] db = (Inr [], db)"
| "album_items run (a # albums) db =
     p_bind (p_count (QueryPhotoCountInAlbum run (al_id a) db)) (\<lambda>count db.
     p_bind (album_items run albums db) (\<lambda>items db.
       (Inr (j_set (fromClass (e_members (album_entity a))) ''photoCount'' (J_int (sint count)) # items), db)))"

definition GetAllAlbums :: "'j web_ops \<Rightarrow> 'db runner \<Rightarrow> 'db \<Rightarrow> (http_response, 'db) page_result" where
  "GetAllAlbums W run db =
     p_bind (p_query (QueryAllAlbums run db)) (\<lambda>albums db.
     p_bind (album_items run albums db) (\<lambda>arr db.
       respond_json W (j_set (j_set J_null ''result'' (J_int ApiOk)) ''albums'' (J_arr arr)) db))"

definition GetAlbum :: "'j json_ops \<Rightarrow> 'j web_ops \<Rightarrow> 'db runner \<Rightarrow> path_var \<Rightarrow> 'db \<Rightarrow> (http_response, 'db) page_result" where
  "GetAlbum J W run var db =
     path_id J var db (\<lambda>i db.
     p_bind (p_query (QueryAlbumById run i db)) (\<lambda>albumOpt db.
       case albumOpt of
         None \<Rightarrow> respond_error J ''Album not exist'' db
       | Some a \<Rightarrow> respond_json W (j_set (fromClass (e_members (album_entity a))) ''result'' (J_int ApiOk)) db))"

definition photos_json :: "photo list \<Rightarrow> int \<Rightarrow> int \<Rightarrow> jvalue" where
  "photos_json photos totalPages page =
     j_set (j_set (j_set (j_set J_null ''result'' (J_int ApiOk)) ''photos''
       (J_arr (map (\<lambda>p. fromClass (e_members (photo_entity p))) photos)))
       ''pageNums'' (J_int totalPages)) ''currentPage'' (J_int page)"

definition GetPhotosByAlbum :: "'j json_ops \<Rightarrow> 'j web_ops \<Rightarrow> 'db runner \<Rightarrow> path_var \<Rightarrow> 'db \<Rightarrow> (http_response, 'db) page_result" where
  "GetPhotosByAlbum J W run var db =
     path_id J var db (\<lambda>albumId db.
     p_bind (path_page 1 var db) (\<lambda>page db.
     p_bind (p_query (QueryPhotosByAlbumId run albumId (word_of_int (page - 1)) 12 db)) (\<lambda>photos db.
     p_bind (p_count (QueryPhotoCountByAlbumId run albumId db)) (\<lambda>totalCount db.
       respond_json W (photos_json photos (total_pages totalCount 12) page) db))))"

definition GetAllPhotos :: "'j web_ops \<Rightarrow> 'db runner \<Rightarrow> path_var \<Rightarrow> 'db \<Rightarrow> (http_response, 'db) page_result" where
  "GetAllPhotos W run var db =
     p_bind (path_page 1 var db) (\<lambda>page db.
     p_bind (p_query (QueryAllPhotos run (word_of_int (page - 1)) 12 db)) (\<lambda>photos db.
     p_bind (p_count (QueryAllPhotoCount run db)) (\<lambda>totalCount db.
       respond_json W (photos_json photos (total_pages totalCount 12) page) db)))"

definition GetPhoto :: "'j json_ops \<Rightarrow> 'j web_ops \<Rightarrow> 'db runner \<Rightarrow> path_var \<Rightarrow> 'db \<Rightarrow> (http_response, 'db) page_result" where
  "GetPhoto J W run var db =
     path_id J var db (\<lambda>i db.
     p_bind (p_query (QueryPhotoById run i db)) (\<lambda>photoOpt db.
       case photoOpt of
         None \<Rightarrow> respond_error J ''Photo not exist'' db
       | Some p \<Rightarrow> respond_json W (j_set (fromClass (e_members (photo_entity p))) ''result'' (J_int ApiOk)) db))"

definition ViewPhoto :: "'j json_ops \<Rightarrow> 'db runner \<Rightarrow> path_var \<Rightarrow> 'db \<Rightarrow> (http_response, 'db) page_result" where
  "ViewPhoto J run var db = path_id J var db (\<lambda>i db. (Inr (reply (getSucc J)), incrementPhotoView run i db))"

section \<open>Posting and deleting\<close>

text \<open>A task of the pool is the identifier of a photo and its URL.\<close>

record 'db wall =
  wall_db :: 'db
  image_pool :: "(u64 \<times> string) thread_pool"

type_synonym 'db wall_answer = "(http_response, 'db wall) page_result"

text \<open>The identifier in the request: a text of digits or a number, 0 where there is none.\<close>

definition json_id :: "'j json_ops \<Rightarrow> 'j web_ops \<Rightarrow> 'j \<Rightarrow> u64 step" where
  "json_id J W json =
     (case j_find J json ''id'' of
        None \<Rightarrow> Go 0
      | Some v \<Rightarrow>
          if j_is_string W v
          then (case j_get_str J v of
                  None \<Rightarrow> Throw Json_type_error
                | Some idStr \<Rightarrow>
                    if \<not> isNumber idStr then Stop ''Id Error''
                    else step_bind (of_std (stoul idStr)) (\<lambda>i. Go (word_of_nat i)))
          else (case j_get_u64 W v of None \<Rightarrow> Throw Json_type_error | Some i \<Rightarrow> Go i))"

definition json_text :: "'j json_ops \<Rightarrow> 'j \<Rightarrow> string \<Rightarrow> string step" where
  "json_text J json name = of_sum (json_get J (j_get_str J) json name [])"

definition read_album :: "'j json_ops \<Rightarrow> 'j web_ops \<Rightarrow> 'j \<Rightarrow> album \<Rightarrow> album step" where
  "read_album J W json junk =
     step_bind (json_id J W json) (\<lambda>i.
     step_bind (json_text J json ''name'') (\<lambda>name.
     step_bind (json_text J json ''description'') (\<lambda>description.
     step_bind (json_text J json ''cover_url'') (\<lambda>cover_url.
     step_bind (of_sum (json_get J (j_get_int J) json ''sort_order'' 0)) (\<lambda>sort_order.
     Go (junk\<lparr>al_id := i, al_name := name, al_description := description, al_cover_url := cover_url,
              al_sort_order := sort_order\<rparr>))))))"

definition read_photo :: "'j json_ops \<Rightarrow> 'j web_ops \<Rightarrow> 'j \<Rightarrow> photo \<Rightarrow> photo step" where
  "read_photo J W json junk =
     step_bind (json_id J W json) (\<lambda>i.
     step_bind (of_sum (json_get J (j_get_u64 W) json ''album_id'' 0)) (\<lambda>album_id.
     step_bind (json_text J json ''url'') (\<lambda>url.
     step_bind (json_text J json ''caption'') (\<lambda>caption.
     step_bind (of_sum (json_get J (j_get_int J) json ''sort_order'' 0)) (\<lambda>sort_order.
     step_bind (json_text J json ''title'') (\<lambda>title.
     step_bind (json_text J json ''description'') (\<lambda>description.
     Go (junk\<lparr>ph_id := i, ph_album_id := album_id, ph_url := url, ph_caption := caption, ph_sort_order := sort_order,
              ph_title := title, ph_description := description, ph_width := 0, ph_height := 0\<rparr>))))))))"

definition finish :: "'j json_ops \<Rightarrow> string option \<Rightarrow> 'w \<Rightarrow> (http_response, 'w) page_result" where
  "finish J err w = (case err of Some e \<Rightarrow> respond_error J e w | None \<Rightarrow> (Inr (reply (getSucc J)), w))"

definition with_step :: "'j json_ops \<Rightarrow> 'a step \<Rightarrow> 'w \<Rightarrow> ('a \<Rightarrow> (http_response, 'w) page_result) \<Rightarrow> (http_response, 'w) page_result" where
  "with_step J r w k =
     (case r of Throw e \<Rightarrow> (Inl (Page_exc e), w) | Stop msg \<Rightarrow> respond_error J msg w | Go a \<Rightarrow> k a)"

definition PostAlbum :: "'j json_ops \<Rightarrow> 'j web_ops \<Rightarrow> (string \<Rightarrow> string) \<Rightarrow> 'db runner \<Rightarrow> ('c, string, session_data) tbb_ops \<Rightarrow>
    'c session_manager \<Rightarrow> u64 \<Rightarrow> album \<Rightarrow> http_request \<Rightarrow> 'db wall \<Rightarrow> 'db wall_answer" where
  "PostAlbum J W Q run T m now junk req w =
     (if \<not> isLogin T m req then respond_error J ''Not login'' w
      else with_step J (read_album J W (ToJson J (rq_getRequestBody req)) junk) w (\<lambda>a.
        let (err, db) = (if al_id a = 0 then InsertAlbum Q run (a\<lparr>al_created_at := now\<rparr>) (wall_db w)
                         else UpdateAlbum run a (wall_db w))
        in finish J err (w\<lparr>wall_db := db\<rparr>)))"

text \<open>The checks of the path in the two deletions.\<close>

definition delete_id :: "'j json_ops \<Rightarrow> path_var \<Rightarrow> 'w \<Rightarrow> (u64 \<Rightarrow> (http_response, 'w) page_result) \<Rightarrow> (http_response, 'w) page_result" where
  "delete_id J var w k =
     (let idStr = pv_get var ''id''
      in if idStr = [] then respond_error J ''No id error!'' w
         else if \<not> isNumber idStr then respond_error J ''Id Error!'' w
         else p_bind (p_std (stoul idStr) w) (\<lambda>i w. k (word_of_nat i)))"

definition ctl_DeleteAlbum :: "'j json_ops \<Rightarrow> 'db runner \<Rightarrow> ('c, string, session_data) tbb_ops \<Rightarrow>
    'c session_manager \<Rightarrow> http_request \<Rightarrow> path_var \<Rightarrow> 'db wall \<Rightarrow> 'db wall_answer" where
  "ctl_DeleteAlbum J run T m req var w =
     (if \<not> isLogin T m req then respond_error J ''Not login'' w
      else delete_id J var w (\<lambda>i. let (err, db) = DeleteAlbum run i (wall_db w) in finish J err (w\<lparr>wall_db := db\<rparr>)))"

definition ctl_DeletePhoto :: "'j json_ops \<Rightarrow> 'db runner \<Rightarrow> ('c, string, session_data) tbb_ops \<Rightarrow>
    'c session_manager \<Rightarrow> http_request \<Rightarrow> path_var \<Rightarrow> 'db wall \<Rightarrow> 'db wall_answer" where
  "ctl_DeletePhoto J run T m req var w =
     (if \<not> isLogin T m req then respond_error J ''Not login'' w
      else delete_id J var w (\<lambda>i. let (err, db) = DeletePhoto run i (wall_db w) in finish J err (w\<lparr>wall_db := db\<rparr>)))"

text \<open>Storing the photo, and the identifier whose picture is to be measured again, 0 for none.\<close>

definition store_photo :: "(string \<Rightarrow> string) \<Rightarrow> 'db runner \<Rightarrow> u64 \<Rightarrow> photo \<Rightarrow> 'db \<Rightarrow> (string option \<times> u64, 'db) page_result" where
  "store_photo Q run now p db =
     (if ph_id p = 0
      then (case InsertPhoto Q run (p\<lparr>ph_created_at := now, ph_view_times := 0\<rparr>) db of
              (Some e, db) \<Rightarrow> (Inr (Some e, 0), db)
            | (None, db) \<Rightarrow>
                p_bind (p_query (QueryPhotoByAlbumAndUrl run (ph_album_id p) (ph_url p) db)) (\<lambda>newPhoto db.
                  (Inr (None, case newPhoto of Some n \<Rightarrow> ph_id n | None \<Rightarrow> 0), db)))
      else p_bind (p_query (QueryPhotoById run (ph_id p) db)) (\<lambda>existing db.
             let refreshId = (case existing of Some e \<Rightarrow> if ph_url e \<noteq> ph_url p then ph_id p else 0 | None \<Rightarrow> 0);
                 (err, db) = UpdatePhoto run p db
             in (Inr (err, refreshId), db)))"

definition PostPhoto :: "'j json_ops \<Rightarrow> 'j web_ops \<Rightarrow> (string \<Rightarrow> string) \<Rightarrow> 'db runner \<Rightarrow> ('c, string, session_data) tbb_ops \<Rightarrow>
    'c session_manager \<Rightarrow> u64 \<Rightarrow> photo \<Rightarrow> http_request \<Rightarrow> 'db wall \<Rightarrow> 'db wall_answer" where
  "PostPhoto J W Q run T m now junk req w =
     (if \<not> isLogin T m req then respond_error J ''Not login'' w
      else with_step J (read_photo J W (ToJson J (rq_getRequestBody req)) junk) w (\<lambda>p.
        case store_photo Q run now p (wall_db w) of
          (Inl e, db) \<Rightarrow> (Inl e, w\<lparr>wall_db := db\<rparr>)
        | (Inr (Some e, _), db) \<Rightarrow> respond_error J e (w\<lparr>wall_db := db\<rparr>)
        | (Inr (None, refreshId), db) \<Rightarrow>
            (let w1 = w\<lparr>wall_db := db\<rparr>
             in finish J None (if refreshId \<noteq> 0 \<and> ph_url p \<noteq> []
                               then w1\<lparr>image_pool := tp_submit (refreshId, ph_url p) (image_pool w1)\<rparr> else w1))))"

text \<open>The task itself; \<open>dims\<close> is \<open>readImageDims\<close>, modelled in \<open>ImageDim\<close>.\<close>

definition refresh_dims :: "(string \<Rightarrow> (i32 \<times> i32) option) \<Rightarrow> 'db runner \<Rightarrow> u64 \<times> string \<Rightarrow> 'db \<Rightarrow> 'db" where
  "refresh_dims dims run task db =
     (case dims (snd task) of Some (w, h) \<Rightarrow> snd (UpdatePhotoDims run (fst task) w h db) | None \<Rightarrow> db)"

section \<open>Who may change the wall\<close>

lemma wall_gate:
  assumes "\<not> isLogin T m req"
  shows "PostAlbum J W Q run T m now junk req w = respond_error J ''Not login'' w"
    "PostPhoto J W Q run T m now junk' req w = respond_error J ''Not login'' w"
    "ctl_DeleteAlbum J run T m req var w = respond_error J ''Not login'' w"
    "ctl_DeletePhoto J run T m req var w = respond_error J ''Not login'' w"
  using assms by (simp_all add: PostAlbum_def PostPhoto_def ctl_DeleteAlbum_def ctl_DeletePhoto_def)

section \<open>Pictures are measured when they are new\<close>

text \<open>What \<open>PostPhoto\<close> leaves when storing succeeds.\<close>

lemma PostPhoto_stored:
  assumes "isLogin T m req" "read_photo J W (ToJson J (rq_getRequestBody req)) junk = Go p"
    "store_photo Q run now p (wall_db w) = (Inr (None, refreshId), db)"
  shows "PostPhoto J W Q run T m now junk req w =
    (Inr (reply (getSucc J)), w\<lparr>wall_db := db, image_pool :=
       (if refreshId \<noteq> 0 \<and> ph_url p \<noteq> [] then tp_submit (refreshId, ph_url p) (image_pool w) else image_pool w)\<rparr>)"
  using assms by (simp add: PostPhoto_def with_step_def finish_def)

text \<open>
  A modified photo is measured again exactly when its URL has changed to one that is not empty: the
  pool then gets one task, with its identifier and the new URL, and otherwise none. The pool stays in a
  state its correctness is proved for, so the task will begin.
\<close>
theorem changed_photo_measured:
  assumes "isLogin T m req" "read_photo J W (ToJson J (rq_getRequestBody req)) junk = Go p" "ph_id p \<noteq> 0"
    "QueryPhotoById run (ph_id p) (wall_db w) = (Inr existing, db1)" "UpdatePhoto run p db1 = (None, db2)"
    "tp_reach n (image_pool w)" "\<not> stop (image_pool w)"
  shows "let w' = snd (PostPhoto J W Q run T m now junk req w) in wall_db w' = db2 \<and> tp_reach n (image_pool w')
    \<and> submitted (image_pool w') = submitted (image_pool w) @
        (if ph_url p \<noteq> [] \<and> (\<exists>e. existing = Some e \<and> ph_url e \<noteq> ph_url p) then [(ph_id p, ph_url p)] else [])
    \<and> set (submitted (image_pool w')) \<subseteq> set (begun (image_pool w')) \<union> set (tasks (image_pool w'))"
proof -
  let ?r = "case existing of Some e \<Rightarrow> if ph_url e \<noteq> ph_url p then ph_id p else 0 | None \<Rightarrow> 0"
  have st: "store_photo Q run now p (wall_db w) = (Inr (None, ?r), db2)"
    using assms(3-5) by (simp add: store_photo_def p_query_def Let_def)
  define w' where "w' = snd (PostPhoto J W Q run T m now junk req w)"
  have w': "w' = w\<lparr>wall_db := db2, image_pool :=
      (if ?r \<noteq> 0 \<and> ph_url p \<noteq> [] then tp_submit (?r, ph_url p) (image_pool w) else image_pool w)\<rparr>"
    unfolding w'_def PostPhoto_stored [OF assms(1,2) st] by simp
  have reach: "tp_reach n (image_pool w')"
    using assms(6) tp_next [OF assms(6) submit_outside [OF assms(7)]] by (simp add: w')
  have "submitted (image_pool w') = begun (image_pool w') @ tasks (image_pool w')"
    using tp_reach_inv [OF reach] by (simp add: tp_inv_def)
  then show ?thesis using reach assms(3) unfolding Let_def w'_def [symmetric]
    by (auto simp: w' tp_submit_def split: option.split)
qed

text \<open>
  A body that is no JSON is not refused: it reads as an object without members, so posting it inserts
  an album, or a photo, whose texts are all empty.
\<close>
theorem unparsable_body_inserts_blank:
  assumes "isLogin T m req" "j_parse J (rq_getRequestBody req) = None" "\<And>x. j_find J (j_nullptr J) x = None"
  shows "snd (PostAlbum J W Q run T m now junk req w) = w\<lparr>wall_db := snd (InsertAlbum Q run
      \<lparr>al_id = 0, al_name = [], al_description = [], al_cover_url = [], al_sort_order = 0, al_created_at = now\<rparr> (wall_db w))\<rparr>
    \<and> (\<exists>p. ph_url p = [] \<and> ph_title p = [] \<and> ph_album_id p = 0
        \<and> (fst (InsertPhoto Q run p (wall_db w)) = None \<longrightarrow>
           image_pool (snd (PostPhoto J W Q run T m now junk' req w)) = image_pool w
           \<and> wall_db (snd (PostPhoto J W Q run T m now junk' req w))
             = snd (QueryPhotoByAlbumAndUrl run 0 [] (snd (InsertPhoto Q run p (wall_db w))))))"
proof -
  have J: "ToJson J (rq_getRequestBody req) = j_nullptr J" using assms(2) by (simp add: ToJson_def)
  have alb: "read_album J W (j_nullptr J) junk = Go (junk\<lparr>al_id := 0, al_name := [], al_description := [], al_cover_url := [],
      al_sort_order := 0\<rparr>)"
    using assms(3) by (simp add: read_album_def json_id_def json_text_def json_get_def of_sum_def)
  let ?p = "junk'\<lparr>ph_id := 0, ph_album_id := 0, ph_url := [], ph_caption := [], ph_sort_order := 0, ph_title := [],
      ph_description := [], ph_width := 0, ph_height := 0\<rparr>"
  have pho: "read_photo J W (j_nullptr J) junk' = Go ?p"
    using assms(3) by (simp add: read_photo_def json_id_def json_text_def json_get_def of_sum_def)
  let ?q = "?p\<lparr>ph_created_at := now, ph_view_times := 0\<rparr>"
  obtain r db where q: "QueryPhotoByAlbumAndUrl run 0 [] (snd (InsertPhoto Q run ?q (wall_db w))) = (r, db)" by fastforce
  have full: "junk\<lparr>al_id := 0, al_name := [], al_description := [], al_cover_url := [], al_sort_order := 0, al_created_at := now\<rparr>
      = \<lparr>al_id = 0, al_name = [], al_description = [], al_cover_url = [], al_sort_order = 0, al_created_at = now\<rparr>"
    by (cases junk) simp
  obtain e d where i: "InsertAlbum Q run \<lparr>al_id = 0, al_name = [], al_description = [], al_cover_url = [],
      al_sort_order = 0, al_created_at = now\<rparr> (wall_db w) = (e, d)" by fastforce
  have j: "InsertAlbum Q run (junk\<lparr>al_id := 0, al_name := [], al_description := [], al_cover_url := [], al_sort_order := 0,
      al_created_at := now\<rparr>) (wall_db w) = (e, d)" unfolding full by (rule i)
  have "snd (PostAlbum J W Q run T m now junk req w) = w\<lparr>wall_db := snd (InsertAlbum Q run
      \<lparr>al_id = 0, al_name = [], al_description = [], al_cover_url = [], al_sort_order = 0, al_created_at = now\<rparr> (wall_db w))\<rparr>"
    using assms(1) J alb i j
    by (simp add: PostAlbum_def with_step_def finish_def respond_error_def split: option.split)
  moreover have "fst (InsertPhoto Q run ?q (wall_db w)) = None \<longrightarrow>
      image_pool (snd (PostPhoto J W Q run T m now junk' req w)) = image_pool w
      \<and> wall_db (snd (PostPhoto J W Q run T m now junk' req w)) = db"
    using assms(1) J pho q
    by (cases "InsertPhoto Q run ?q (wall_db w)"; cases r)
      (auto simp: PostPhoto_def with_step_def store_photo_def finish_def p_query_def respond_error_def)
  ultimately show ?thesis using q by (intro conjI exI [of _ ?q]) simp_all
qed

section \<open>Witnesses\<close>

definition admin_request :: "string \<Rightarrow> http_request" where
  "admin_request body = demo_request\<lparr>mHttpCtx := (mHttpCtx demo_request)
     \<lparr>mRequestBody := body, cookies := [ck_addValue cookie_empty ''sessionId'' ''id'']\<rparr>\<rparr>"

lemma admin_is_logged_in: "isLogin rbt_ops demo_sessions (admin_request body)"
proof -
  have "ck_getValue (ck_addValue cookie_empty ''sessionId'' ''id'') ''sessionId'' = Some ''id''" by code_simp
  moreover have "ch_find rbt_ops (mSessionMap demo_sessions) ''id'' = Some \<lparr>lastTime = 5000, sess_data = []\<rparr>"
    by (simp add: demo_sessions_def ch_find_def ch_insert_def tbb_simps [OF rbt_ops_ok])
  ultimately show ?thesis
    by (simp add: isLogin_def isLoginId_def hasSession_def admin_request_def rq_getCookieSize_def rq_getCookie_def)
qed

text \<open>A request with the members \<open>id\<close> 7 and \<open>url\<close> "new", and a database that answers every statement with
  one photo, whose URL is "old".\<close>

definition wall_json :: "string json_ops" where
  "wall_json = demo_json\<lparr>j_find := (\<lambda>j x. if x = ''id'' then Some ''7'' else if x = ''url'' then Some ''new'' else None)\<rparr>"

definition wall_web :: "string web_ops" where
  "wall_web = \<lparr>j_is_string = (\<lambda>j. False), j_get_u64 = (\<lambda>j. if j = ''7'' then Some 7 else None), j_dump = (\<lambda>_. None)\<rparr>"

definition old_photo :: photo where
  "old_photo = \<lparr>ph_id = 7, ph_album_id = 0, ph_url = ''old'', ph_caption = [], ph_sort_order = 0, ph_created_at = 0,
     ph_title = [], ph_description = [], ph_view_times = 0, ph_width = 0, ph_height = 0\<rparr>"

definition wall_run :: "string list runner" where
  "wall_run sql binds db = (None, [[(7, None), (0, None), (0, Some ''old''), (0, None), (0, None), (0, None),
     (0, None), (0, None), (0, None), (0, None), (0, None)]], db @ [sql])"

definition wall_new :: "string list wall" where
  "wall_new = \<lparr>wall_db = [], image_pool = ThreadPool_new 2\<rparr>"

theorem changed_photo_measured_witness:
  "submitted (image_pool (snd (PostPhoto wall_json wall_web demo_Q wall_run rbt_ops demo_sessions 5 old_photo
     (admin_request []) wall_new))) = [(7, ''new'')]"
proof -
  let ?p = "old_photo\<lparr>ph_url := ''new''\<rparr>"
  have p: "read_photo wall_json wall_web (ToJson wall_json (rq_getRequestBody (admin_request []))) old_photo = Go ?p"
    by (simp add: read_photo_def json_id_def json_text_def json_get_def of_sum_def wall_json_def wall_web_def demo_json_def
        old_photo_def)
  have "QueryPhotoById wall_run (ph_id ?p) (wall_db wall_new)
      = (Inr (Some old_photo), snd (QueryPhotoById wall_run (ph_id ?p) (wall_db wall_new)))"
    by (simp add: QueryPhotoById_def fetch_first_def fetch_all_def exec_def wall_run_def photo_reads col_u64_def col_i32_def
        col_str_def old_photo_def)
  moreover have "UpdatePhoto wall_run ?p d = (None, snd (UpdatePhoto wall_run ?p d))" for d
    by (simp add: UpdatePhoto_def execute_def exec_def wall_run_def)
  ultimately show ?thesis
    using changed_photo_measured [OF admin_is_logged_in p, of wall_run wall_new "Some old_photo" _ _ 2 demo_Q 5] tp_start [of 2]
    by (auto simp: wall_new_def old_photo_def ThreadPool_new_def Let_def)
qed

theorem unparsable_body_inserts_blank_witness:
  "wall_db (snd (PostAlbum (demo_json\<lparr>j_parse := \<lambda>_. None\<rparr>) wall_web demo_Q demo_run rbt_ops demo_sessions 5
      \<lparr>al_id = 9, al_name = [], al_description = [], al_cover_url = [], al_sort_order = 9, al_created_at = 9\<rparr>
      (admin_request ''{'') \<lparr>wall_db = [], image_pool = ThreadPool_new 2\<rparr>))
   = snd (InsertAlbum demo_Q demo_run \<lparr>al_id = 0, al_name = [], al_description = [], al_cover_url = [],
       al_sort_order = 0, al_created_at = 5\<rparr> [])"
proof -
  let ?J = "demo_json\<lparr>j_parse := \<lambda>_. None\<rparr>"
  have J: "j_parse ?J (rq_getRequestBody (admin_request ''{'')) = None" "\<And>x. j_find ?J (j_nullptr ?J) x = None"
    by (simp_all add: demo_json_def)
  from unparsable_body_inserts_blank [OF admin_is_logged_in J, of wall_web demo_Q demo_run 5 _ "\<lparr>wall_db = [], image_pool = ThreadPool_new 2\<rparr>"]
  show ?thesis by simp
qed

end
