(* ===== verification/FPages.thy ===== *)
theory FPages
  imports FPhotoWall
begin

text \<open>
  The pages of the blog (\<open>Server/src/Controller/FrontGroundController.cpp\<close>, \<open>BackGroundController.cpp\<close>,
  \<open>IndexController.cpp\<close>, \<open>BlogController.cpp\<close>, \<open>CategoryController.cpp\<close>, \<open>DBTestController.cpp\<close>,
  \<open>Err404Controller.cpp\<close>, \<open>CertBotVerifyController.cpp\<close>, \<open>ServerShutdownController.cpp\<close>,
  \<open>Service/Index.cpp\<close>, \<open>BlogData.cpp\<close>, \<open>BlogCommonDataSetter.h\<close>, \<open>RssBuilder.cpp\<close>, \<open>Filter.cpp\<close> and
  \<open>TestMessageQuery.cpp\<close>). A page fetches rows, puts them in the data of a template and renders it; the
  template library, the calendar, the file system and SQLite are in the environment.
\<close>

section \<open>The site\<close>

record rss_builder =
  mXml :: string
  mLastModified :: string
  mDirty :: bool

record ('db, 'c) site =
  site_db :: 'db
  site_files :: "'c file_cache"
  mBlogTotalViewTimes :: u64
  mBlogTotalBlogs :: u64
  site_rss :: rss_builder

text \<open>\<open>e_inja\<close> renders a template text with its data or throws; \<open>e_format\<close> and \<open>e_gmtime\<close> print a number of
  seconds in local time and in UTC by a format; \<open>e_now\<close> is the clock in milliseconds.\<close>

record ('db, 'c) site_env =
  e_run :: "'db runner"
  e_cache :: "('c, string, file_cache_line) tbb_ops"
  e_fs :: file_system
  e_inja :: "string \<Rightarrow> jvalue \<Rightarrow> page_exc + string"
  e_now :: u64
  e_cfg :: "string \<Rightarrow> string option"
  e_pages :: string
  e_assets :: string
  e_format :: "u64 \<Rightarrow> string \<Rightarrow> string"
  e_gmtime :: "u64 \<Rightarrow> string \<Rightarrow> string"

type_synonym ('db, 'c) page = "(http_response, ('db, 'c) site) page_result"

definition with_db :: "('db \<Rightarrow> ('a, 'db) page_result) \<Rightarrow> ('db, 'c) site \<Rightarrow> ('a, ('db, 'c) site) page_result" where
  "with_db f s = (let (r, db) = f (site_db s) in (r, s\<lparr>site_db := db\<rparr>))"

abbreviation redirect :: "string \<Rightarrow> 'w \<Rightarrow> (http_response, 'w) page_result" where
  "redirect path s \<equiv> (Inr (RedirectTo path False), s)"

text \<open>\<open>TemplateRender::render\<close>: the template comes from the file cache, which throws where there is none.\<close>

definition render :: "('db, 'c) site_env \<Rightarrow> string \<Rightarrow> jvalue \<Rightarrow> ('db, 'c) site \<Rightarrow> (string, ('db, 'c) site) page_result" where
  "render E templateFilePath data s =
     (case fc_getOrGen (e_cache E) (e_fs E) (site_files s) (e_now E) templateFilePath of
        (Inl e, fc) \<Rightarrow> (Inl (Page_runtime_error e), s\<lparr>site_files := fc\<rparr>)
      | (Inr file, fc) \<Rightarrow> (e_inja E file data, s\<lparr>site_files := fc\<rparr>))"

definition render_page :: "('db, 'c) site_env \<Rightarrow> string \<Rightarrow> jvalue \<Rightarrow> ('db, 'c) site \<Rightarrow> ('db, 'c) page" where
  "render_page E name data s = p_bind (render E (e_pages E @ name) data s) (\<lambda>out s. (Inr (reply out), s))"

text \<open>A whole file as the answer; the constructor of the mapping throws where it cannot be opened.\<close>

definition serve_file :: "file_system \<Rightarrow> string \<Rightarrow> 'w \<Rightarrow> (http_response, 'w) page_result" where
  "serve_file fs path s =
     (case MemoryMappedFile_ro fs path of Inl e \<Rightarrow> (Inl (Page_runtime_error e), s) | Inr file \<Rightarrow> (Inr (reply file), s))"

definition serve_typed :: "file_system \<Rightarrow> string \<Rightarrow> string \<Rightarrow> 'w \<Rightarrow> (http_response, 'w) page_result" where
  "serve_typed fs path type s =
     (case MemoryMappedFile_ro fs path of
        Inl e \<Rightarrow> (Inl (Page_runtime_error e), s)
      | Inr file \<Rightarrow> (Inr (rs_setBody (rs_setContentType FHttpResponse_new type) file), s))"

subsection \<open>Counters\<close>

definition updateBlogViewTimes :: "('db, 'c) site \<Rightarrow> u64 \<times> ('db, 'c) site" where
  "updateBlogViewTimes s = (mBlogTotalViewTimes s + 1, s\<lparr>mBlogTotalViewTimes := mBlogTotalViewTimes s + 1\<rparr>)"

definition setBlogCommonData :: "('db, 'c) site \<Rightarrow> jvalue \<Rightarrow> jvalue" where
  "setBlogCommonData s data =
     setData (setData data ''blogViewTimes'' (J_int (uint (mBlogTotalViewTimes s))))
       ''blogTotalNum'' (J_int (uint (mBlogTotalBlogs s)))"

definition updateAndsetBlogCommonData :: "('db, 'c) site \<Rightarrow> jvalue \<Rightarrow> jvalue \<times> ('db, 'c) site" where
  "updateAndsetBlogCommonData s data =
     (let (n, s') = updateBlogViewTimes s
      in (setData (setData data ''blogViewTimes'' (J_int (uint n))) ''blogTotalNum'' (J_int (uint (mBlogTotalBlogs s'))), s'))"

definition setPageData :: "jvalue \<Rightarrow> int \<Rightarrow> int \<Rightarrow> int \<Rightarrow> jvalue" where
  "setPageData data currentPage maxPage radius =
     (let lastPage = max 1 (currentPage - 1); nextPage = min maxPage (currentPage + 1);
          d1 = setData data ''pageForward'' (J_int lastPage);
          d2 = setData d1 ''pageNext'' (J_int nextPage);
          d3 = setData d2 ''radius'' (J_int radius);
          d4 = setData d3 ''currentPage'' (J_int currentPage)
      in setData d4 ''pageNums'' (J_int maxPage))"

text \<open>\<open>BlogData::syncData\<close>: the counter goes to its row, the number of articles comes from the table.\<close>

definition total_blogs_stmt :: stmt where
  "total_blogs_stmt = (q_From ''Posts'' (q_SelectCount ''*'' Query_new), [])"

definition view_times_stmt :: "u64 \<Rightarrow> stmt" where
  "view_times_stmt n =
     (q_Where (is_param ''BlogStatus'' ''name'') (q_update ''BlogStatus'' (is_param ''BlogStatus'' ''data'') Query_new),
      [Str (to_string (unat n)), Str ''view_times''])"

definition syncData :: "'db runner \<Rightarrow> ('db, 'c) site \<Rightarrow> (unit, ('db, 'c) site) page_result" where
  "syncData run s =
     (let (_, db) = execute run (view_times_stmt (mBlogTotalViewTimes s)) (site_db s)
      in p_bind (with_db (\<lambda>db. p_count (fetch_first run (ToEntity [K64]) total_blogs_stmt db)) (s\<lparr>site_db := db\<rparr>))
           (\<lambda>row s. (Inr (), case row of [U64 n] \<Rightarrow> s\<lparr>mBlogTotalBlogs := n\<rparr> | _ \<Rightarrow> s)))"

text \<open>The constructor: the row of the counter is made if it is not there, then both numbers are read.\<close>

definition quoted :: "string \<Rightarrow> string" where
  "quoted s = CHR 0x22 # s @ [CHR 0x22]"

definition BlogData_new :: "(string \<Rightarrow> string) \<Rightarrow> 'db runner \<Rightarrow> 'db \<Rightarrow> (u64 \<times> u64, 'db) page_result" where
  "BlogData_new Q run db =
     (let (_, _, db1) = run (''INSERT INTO BlogStatus(name, data) VALUES('' @ quoted ''view_times'' @ '', '' @ quoted ''0''
            @ '') ON CONFLICT(name) DO NOTHING; '') [] db;
          views_stmt = (q_Where (field_cmp Q Op_eq (FIELD ''BlogStatus'' ''name'') (Str ''view_times''))
            (q_From ''BlogStatus'' (Query_of_field (FIELD ''BlogStatus'' ''data''))), [])
      in p_bind (p_count (fetch_first run (ToEntity [KText]) views_stmt db1)) (\<lambda>row db.
         p_bind (p_std (std_stoul (case row of [Str t] \<Rightarrow> t | _ \<Rightarrow> [])) db) (\<lambda>views db.
         p_bind (p_count (fetch_first run (ToEntity [K64]) total_blogs_stmt db)) (\<lambda>total db.
           (Inr (word_of_nat views, case total of [U64 n] \<Rightarrow> n | _ \<Rightarrow> 0), db)))))"

section \<open>Articles\<close>

definition u64_of :: "field_val \<Rightarrow> u64" where
  "u64_of v = (case v of U64 n \<Rightarrow> n | _ \<Rightarrow> 0)"

definition str_of :: "field_val \<Rightarrow> string" where
  "str_of v = (case v of Str s \<Rightarrow> s | _ \<Rightarrow> [])"

definition categories_map :: "field_val list list \<Rightarrow> (u64, string) omap" where
  "categories_map cates = foldl (\<lambda>m c. omap_insert m (u64_of (c ! 0)) (str_of (c ! 1))) [] cates"

text \<open>\<open>catesMap[id]\<close> adds an empty name where there is none.\<close>

definition category_name :: "(u64, string) omap \<Rightarrow> u64 \<Rightarrow> string" where
  "category_name m i = (case omap_find m i of Some n \<Rightarrow> n | None \<Rightarrow> [])"

definition blog_profile :: "field_val list \<Rightarrow> string \<Rightarrow> field_val \<Rightarrow> (string \<times> field_val) list" where
  "blog_profile p cateName viewTimes =
     [(''id'', p ! 0), (''title'', p ! 1), (''profile'', p ! 2), (''blogtitlepic'', p ! 5), (''categoryName'', Str cateName),
      (''created_at'', p ! 3), (''viewTimes'', viewTimes)]"

definition IndexArticles :: "('db, 'c) site_env \<Rightarrow> path_var \<Rightarrow> ('db, 'c) site \<Rightarrow> ('db, 'c) page" where
  "IndexArticles E var s =
     p_bind (with_db (\<lambda>db. p_query (QueryAllCategoryBasicInfo (e_run E) db)) s) (\<lambda>cates s.
     p_bind (path_page 0 var s) (\<lambda>page s.
     p_bind (with_db (\<lambda>db. p_query (QueryPostDataProfile (e_run E) (word_of_int (page - 1)) 10 db)) s) (\<lambda>postVec s.
     p_bind (with_db (\<lambda>db. p_count (QueryPostCount (e_run E) db)) s) (\<lambda>count s.
       let prf = map (\<lambda>p. blog_profile p (category_name (categories_map cates) (u64_of (p ! 6))) (p ! 7)) postVec;
           d1 = setPageData J_null page (total_pages count 10) 2;
           (d2, s) = updateAndsetBlogCommonData s d1
       in render_page E ''index.html'' (setData_vector d2 ''posts'' prf) s))))"

abbreviation Articles :: "('db, 'c) site_env \<Rightarrow> path_var \<Rightarrow> ('db, 'c) site \<Rightarrow> ('db, 'c) page" where
  "Articles \<equiv> IndexArticles"

definition blog_post :: "post \<Rightarrow> string \<Rightarrow> (string \<times> field_val) list" where
  "blog_post p cateName =
     [(''id'', U64 (po_id p)), (''profile'', Str (po_profile p)), (''titlepic'', Str (po_titlepic p)), (''title'', Str (po_title p)),
      (''created_at'', U64 (po_created_at p)), (''updated_at'', U64 (po_updated_at p)), (''categoryName'', Str cateName),
      (''content'', Str (po_content p)), (''viewTimes'', U64 (take_bit 32 (po_view_times p))),
      (''allowComment'', I32 (po_allow_comment p))]"

definition RenderArticlePost :: "('db, 'c) site_env \<Rightarrow> post \<Rightarrow> string \<Rightarrow> ('db, 'c) site \<Rightarrow> ('db, 'c) page" where
  "RenderArticlePost E p pageUrl s =
     p_bind (with_db (\<lambda>db. p_query (QueryCategoryNameById (e_run E) (po_category_id p) db)) s) (\<lambda>cateName s.
       case cateName of
         None \<Rightarrow> redirect ''/505'' s
       | Some row \<Rightarrow>
           (let d1 = setData (setData J_null ''post'' (fromClass (blog_post p (str_of (row ! 0))))) ''pageUrl'' (J_text pageUrl);
                d2 = setBlogCommonData s d1;
                d3 = (case e_cfg E ''GoatCounterUrl'' of
                        Some u \<Rightarrow> if u \<noteq> [] then setData d2 ''goatcounter_url'' (J_text u) else d2
                      | None \<Rightarrow> d2)
            in render_page E ''article.html'' d3 s))"

definition ArticleDetail :: "('db, 'c) site_env \<Rightarrow> path_var \<Rightarrow> ('db, 'c) site \<Rightarrow> ('db, 'c) page" where
  "ArticleDetail E var s =
     (let idStr = pv_get var ''id''
      in p_bind (if idStr \<noteq> [] \<and> isNumber idStr then p_std (stoi idStr) s else (Inr 0, s)) (\<lambda>i s.
         p_bind (with_db (\<lambda>db. p_query (QueryPostById (e_run E) (scast i) db)) s) (\<lambda>post s.
           case post of
             None \<Rightarrow> redirect ''/404'' s
           | Some p \<Rightarrow>
               RenderArticlePost E p (''/post/'' @ int_to_string (sint i))
                 (s\<lparr>site_db := updateViewTimes (e_run E) (scast i) (site_db s)\<rparr>))))"

text \<open>About and links: an article with a title from the configuration. The defaults are UTF-8.\<close>

definition bytes :: "nat list \<Rightarrow> string" where
  "bytes = map char_of"

definition titled_page :: "('db, 'c) site_env \<Rightarrow> string \<Rightarrow> string \<Rightarrow> string \<Rightarrow> ('db, 'c) site \<Rightarrow> ('db, 'c) page" where
  "titled_page E key fallback pageUrl s =
     (let title = (case e_cfg E key of Some t \<Rightarrow> t | None \<Rightarrow> fallback)
      in p_bind (with_db (\<lambda>db. p_query (QueryPostByTitle (e_run E) (takeWhile (\<lambda>c. c \<noteq> NUL) title) db)) s) (\<lambda>post s.
           case post of None \<Rightarrow> redirect ''/404'' s | Some p \<Rightarrow> RenderArticlePost E p pageUrl s))"

definition About :: "('db, 'c) site_env \<Rightarrow> ('db, 'c) site \<Rightarrow> ('db, 'c) page" where
  "About E s = titled_page E ''AboutPageTitle'' (bytes [0xE5, 0x85, 0xB3, 0xE4, 0xBA, 0x8E, 0xE7, 0xBD, 0x91, 0xE7, 0xAB, 0x99]) ''/about'' s"

definition Links :: "('db, 'c) site_env \<Rightarrow> ('db, 'c) site \<Rightarrow> ('db, 'c) page" where
  "Links E s = titled_page E ''LinksPageTitle'' (bytes [0xE5, 0x8F, 0x8B, 0xE9, 0x93, 0xBE]) ''/links'' s"

section \<open>Categories\<close>

definition Categories :: "('db, 'c) site_env \<Rightarrow> ('db, 'c) site \<Rightarrow> ('db, 'c) page" where
  "Categories E s =
     p_bind (with_db (\<lambda>db. p_query (QueryAllCategoryBasicInfo (e_run E) db)) s) (\<lambda>cates s.
       if cates = [] then redirect ''/404'' s
       else p_bind (with_db (\<lambda>db. p_query (QueryAllCategory (e_run E) db)) s) (\<lambda>all s.
         render_page E ''category.html''
           (setBlogCommonData s (setData_vector J_null ''categories'' (map (\<lambda>c. e_members (category_entity c)) all))) s))"

definition CategoriesDetail :: "('db, 'c) site_env \<Rightarrow> path_var \<Rightarrow> ('db, 'c) site \<Rightarrow> ('db, 'c) page" where
  "CategoriesDetail E var s =
     (let idStr = pv_get var ''id''
      in if \<not> isNumber idStr then redirect ''/404'' s
         else p_bind (p_std (stoul idStr) s) (\<lambda>i s.
         p_bind (with_db (\<lambda>db. p_query (QueryCategoryById (e_run E) (word_of_nat i) db)) s) (\<lambda>found s.
           case found of
             None \<Rightarrow> redirect ''/404'' s
           | Some cate \<Rightarrow>
               p_bind (path_page 0 var s) (\<lambda>page s.
               p_bind (with_db (\<lambda>db. p_query (QueryPostDataProfileByCategoryId (e_run E) (ca_id cate) (word_of_int (page - 1)) 10 db)) s) (\<lambda>postVec s.
               p_bind (with_db (\<lambda>db. p_count (QueryPostOfCategoryCount (e_run E) (ca_id cate) db)) s) (\<lambda>count s.
                 let d1 = setPageData J_null page (total_pages count 10) 2;
                     d2 = setBlogCommonData s d1;
                     d3 = setData_vector d2 ''posts'' (map (\<lambda>p. blog_profile p (ca_name cate) (p ! 6)) postVec);
                     d4 = setData d3 ''category'' (fromClass (e_members (category_entity cate)))
                 in render_page E ''category-detail.html'' d4 s))))))"

section \<open>Articles and categories as JSON\<close>

definition GetBlog :: "'j json_ops \<Rightarrow> 'j web_ops \<Rightarrow> 'db runner \<Rightarrow> path_var \<Rightarrow> 'db \<Rightarrow> (http_response, 'db) page_result" where
  "GetBlog J W run var db =
     path_id J var db (\<lambda>i db.
     p_bind (p_query (QueryPostById run i db)) (\<lambda>postOpt db.
       case postOpt of
         None \<Rightarrow> respond_error J ''Post not exist'' db
       | Some p \<Rightarrow>
           respond_json W (j_set (fromClass (e_members (post_entity (p\<lparr>po_content := html_unescape (po_content p)\<rparr>))))
             ''result'' (J_int ApiOk)) db))"

definition GetAllCategories :: "'j web_ops \<Rightarrow> 'db runner \<Rightarrow> 'db \<Rightarrow> (http_response, 'db) page_result" where
  "GetAllCategories W run db =
     p_bind (p_query (QueryAllCategoryBasicInfo run db)) (\<lambda>ret db.
       respond_json W (j_set (j_set J_null ''categories''
         (J_arr (map (\<lambda>v. j_set (j_set J_null ''id'' (val_json (v ! 0))) ''name'' (val_json (v ! 1))) ret)))
         ''result'' (J_int ApiOk)) db)"

definition GetCategory :: "'j json_ops \<Rightarrow> 'j web_ops \<Rightarrow> 'db runner \<Rightarrow> path_var \<Rightarrow> 'db \<Rightarrow> (http_response, 'db) page_result" where
  "GetCategory J W run var db =
     path_id J var db (\<lambda>i db.
     p_bind (p_query (QueryCategoryById run i db)) (\<lambda>cateOpt db.
       case cateOpt of
         None \<Rightarrow> respond_error J ''Post not exist'' db
       | Some c \<Rightarrow> respond_json W (j_set (fromClass (e_members (category_entity c))) ''result'' (J_int ApiOk)) db))"

section \<open>The archive\<close>

definition toFormatTime :: "('db, 'c) site_env \<Rightarrow> u64 \<Rightarrow> string \<Rightarrow> string" where
  "toFormatTime E ms fmt = e_format E (ms div 1000) fmt"

definition archive_post :: "field_val list \<Rightarrow> jvalue" where
  "archive_post p =
     j_set (j_set (j_set (j_set (j_set (j_set J_null ''id'' (val_json (p ! 0))) ''title'' (val_json (p ! 1)))
       ''profile'' (val_json (p ! 2))) ''titlepic'' (val_json (p ! 3))) ''createdAt'' (val_json (p ! 4)))
       ''viewTimes'' (val_json (p ! 5))"

text \<open>\<open>j[key].push_back(v)\<close>: a null member becomes an array.\<close>

definition j_push :: "jvalue \<Rightarrow> string \<Rightarrow> jvalue \<Rightarrow> jvalue" where
  "j_push j key v = (case j_member j key of Some (J_arr xs) \<Rightarrow> j_set j key (J_arr (xs @ [v])) | _ \<Rightarrow> j_set j key (J_arr [v]))"

text \<open>The group of a month, made when its first article comes.\<close>

definition month_group :: "('db, 'c) site_env \<Rightarrow> u64 \<Rightarrow> std_error + jvalue" where
  "month_group E created_at =
     (case stoi (toFormatTime E created_at ''%Y'') of
        Inl e \<Rightarrow> Inl e
      | Inr y \<Rightarrow>
          (case stoi (toFormatTime E created_at ''%m'') of
             Inl e \<Rightarrow> Inl e
           | Inr m \<Rightarrow> Inr (j_set (j_set (j_set J_null ''year'' (J_int (sint y))) ''month'' (J_int (sint m))) ''posts'' (J_arr []))))"

fun archive_months :: "('db, 'c) site_env \<Rightarrow> field_val list list \<Rightarrow> (string, jvalue) omap \<Rightarrow> std_error + (string, jvalue) omap" where
  "archive_months E [] monthMap = Inr monthMap"
| "archive_months E (p # ps) monthMap =
     (let created_at = u64_of (p ! 4); ym = toFormatTime E created_at ''%Y-%m''
      in case omap_find monthMap ym of
           Some g \<Rightarrow> archive_months E ps (omap_assign monthMap ym (j_push g ''posts'' (archive_post p)))
         | None \<Rightarrow>
             (case month_group E created_at of
                Inl e \<Rightarrow> Inl e
              | Inr g \<Rightarrow> archive_months E ps (omap_assign monthMap ym (j_push g ''posts'' (archive_post p)))))"

definition Archive :: "'j web_ops \<Rightarrow> ('db, 'c) site_env \<Rightarrow> ('db, 'c) site \<Rightarrow> ('db, 'c) page" where
  "Archive W E s =
     p_bind (with_db (\<lambda>db. p_query (QueryPostsForArchive (e_run E) db)) s) (\<lambda>postVec s.
     p_bind (p_std (archive_months E postVec []) s) (\<lambda>monthMap s.
       respond_json W (j_set (j_set J_null ''result'' (J_int ApiOk)) ''groups'' (J_arr (map snd (rev monthMap)))) s))"

section \<open>The feed\<close>

text \<open>\<open>toRfc822\<close> prints UTC and says it is eight hours ahead of it.\<close>

definition toRfc822 :: "('db, 'c) site_env \<Rightarrow> u64 \<Rightarrow> string" where
  "toRfc822 E ms = e_gmtime E (ms div 1000) ''%a, %d %b %Y %H:%M:%S'' @ '' +0800''"

definition rss_item :: "('db, 'c) site_env \<Rightarrow> (u64, string) omap \<Rightarrow> field_val list \<Rightarrow> (string \<times> field_val) list" where
  "rss_item E catesMap p =
     (let link = ''https://feiqi3.cn'' @ ''/post/'' @ to_string (unat (u64_of (p ! 0)))
      in [(''title'', Str (html_unescape (str_of (p ! 1)))), (''link'', Str link), (''guid'', Str link),
          (''pubDate'', Str (toRfc822 E (u64_of (p ! 3)))), (''description'', Str (html_unescape (str_of (p ! 2)))),
          (''categoryName'', Str (category_name catesMap (u64_of (p ! 4))))])"

definition rss_data :: "('db, 'c) site_env \<Rightarrow> field_val list list \<Rightarrow> field_val list list \<Rightarrow> jvalue" where
  "rss_data E postVec cates =
     setData_vector (setData (setData (setData J_null ''channelTitle'' (J_text ''feiqi3.cn''))
       ''channelLink'' (J_text ''https://feiqi3.cn''))
       ''channelDescription'' (J_text (bytes [0xE9, 0xA3, 0x9E, 0xE8, 0xB5, 0xB7, 0xE7, 0x9A, 0x84, 0xE5, 0x8D, 0x9A, 0xE5, 0xAE, 0xA2])))
       ''items'' (map (rss_item E (categories_map cates)) postVec)"

definition rebuild :: "('db, 'c) site_env \<Rightarrow> ('db, 'c) site \<Rightarrow> (unit, ('db, 'c) site) page_result" where
  "rebuild E s =
     p_bind (with_db (\<lambda>db. p_query (QueryPostsForRss (e_run E) db)) s) (\<lambda>postVec s.
     p_bind (with_db (\<lambda>db. p_query (QueryAllCategoryBasicInfo (e_run E) db)) s) (\<lambda>cates s.
     p_bind (render E (e_pages E @ ''rss.xml'') (rss_data E postVec cates) s) (\<lambda>out s.
       (Inr (), s\<lparr>site_rss := \<lparr>mXml = out, mLastModified = toRfc822 E (e_now E), mDirty = False\<rparr>\<rparr>))))"

definition setDirty :: "('db, 'c) site \<Rightarrow> ('db, 'c) site" where
  "setDirty s = s\<lparr>site_rss := (site_rss s)\<lparr>mDirty := True\<rparr>\<rparr>"

definition getRssXml :: "('db, 'c) site_env \<Rightarrow> ('db, 'c) site \<Rightarrow> (string \<times> string, ('db, 'c) site) page_result" where
  "getRssXml E s =
     p_bind (if mDirty (site_rss s) then rebuild E s else (Inr (), s)) (\<lambda>_ s.
       (Inr (mXml (site_rss s), mLastModified (site_rss s)), s))"

definition RssXml :: "('db, 'c) site_env \<Rightarrow> http_request \<Rightarrow> ('db, 'c) site \<Rightarrow> ('db, 'c) page" where
  "RssXml E req s =
     p_bind (getRssXml E s) (\<lambda>(xml, lastModified) s.
       let ifModifiedSince = (case rq_getHeader req ''If-Modified-Since'' of
                                Some v \<Rightarrow> v
                              | None \<Rightarrow> (case rq_getHeader req ''if-modified-since'' of Some v \<Rightarrow> v | None \<Rightarrow> []))
       in if ifModifiedSince \<noteq> [] \<and> ifModifiedSince = lastModified
          then (Inr (rs_setStatusCode FHttpResponse_new S304), s)
          else (Inr (rs_setBody (rs_addHeader (rs_setContentType FHttpResponse_new ''application/rss+xml; charset=utf-8'')
                  ''Last-Modified'' lastModified) xml), s))"

section \<open>Plain files\<close>

text \<open>The test for a null mapping in the first two is never true: where it would be, the constructor has
  thrown.\<close>

definition PhotosPage :: "('db, 'c) site_env \<Rightarrow> ('db, 'c) site \<Rightarrow> ('db, 'c) page" where
  "PhotosPage E s = serve_file (e_fs E) (e_pages E @ ''photos.html'') s"

definition ArchivePage :: "('db, 'c) site_env \<Rightarrow> ('db, 'c) site \<Rightarrow> ('db, 'c) page" where
  "ArchivePage E s = serve_file (e_fs E) (e_pages E @ ''archive.html'') s"

definition RobotsTxt :: "('db, 'c) site_env \<Rightarrow> ('db, 'c) site \<Rightarrow> ('db, 'c) page" where
  "RobotsTxt E s = serve_typed (e_fs E) (e_assets E @ ''robots.txt'') ''text/plain; charset=utf-8'' s"

definition SitemapXml :: "('db, 'c) site_env \<Rightarrow> ('db, 'c) site \<Rightarrow> ('db, 'c) page" where
  "SitemapXml E s = serve_typed (e_fs E) (e_assets E @ ''sitemap.xml'') ''application/xml; charset=utf-8'' s"

definition WebManifest :: "('db, 'c) site_env \<Rightarrow> ('db, 'c) site \<Rightarrow> ('db, 'c) page" where
  "WebManifest E s = serve_typed (e_fs E) (e_assets E @ ''site.webmanifest'') ''application/manifest+json; charset=utf-8'' s"

definition FaviconIco :: "('db, 'c) site_env \<Rightarrow> ('db, 'c) site \<Rightarrow> ('db, 'c) page" where
  "FaviconIco E s = serve_typed (e_fs E) (e_assets E @ ''favicon.ico'') ''image/x-icon'' s"

definition Err404 :: "('db, 'c) site_env \<Rightarrow> ('db, 'c) site \<Rightarrow> ('db, 'c) page" where
  "Err404 E s = serve_file (e_fs E) (e_pages E @ ''error/404/baisc404.html'') s"

definition DoCert :: "file_system \<Rightarrow> string \<Rightarrow> path_var \<Rightarrow> 'w \<Rightarrow> (http_response, 'w) page_result" where
  "DoCert fs folder var s = serve_file fs (folder @ pv_get var ''filename'') s"

text \<open>The filter that lets only the error page, the files and the challenges of the certificate pass.\<close>

definition filterAll :: "string \<Rightarrow> http_response \<Rightarrow> bool \<times> http_response" where
  "filterAll path response =
     (if path = ''/404'' \<or> take 6 path = ''/file/'' \<or> take 28 path = ''/.well-known/acme-challenge/''
      then (False, response) else (True, RedirectTo ''/404'' False))"

text \<open>The shutdown: whether it is asked for, by the address of the client.\<close>

definition ctl_Shutdown :: "string \<Rightarrow> bool \<times> http_response" where
  "ctl_Shutdown ip = (ip = ''127.0.0.1'', RedirectTo ''/404'' False)"

section \<open>The pages of the administrator\<close>

definition LoginPage :: "('d, string, session_data) tbb_ops \<Rightarrow> 'd session_manager \<Rightarrow> ('db, 'c) site_env \<Rightarrow>
    http_request \<Rightarrow> ('db, 'c) site \<Rightarrow> ('db, 'c) page" where
  "LoginPage T m E req s =
     (if isLogin T m req then redirect ''/background/articles'' s
      else serve_file (e_fs E) (e_pages E @ ''backyard-login.html'') s)"

text \<open>The first identifier of a listing: 0 where there is none.\<close>

definition begin_id :: "'j json_ops \<Rightarrow> path_var \<Rightarrow> 'w \<Rightarrow> (u64 \<Rightarrow> 'w \<Rightarrow> (http_response, 'w) page_result) \<Rightarrow> (http_response, 'w) page_result" where
  "begin_id J var s k =
     (let beginPost = pv_get var ''id-begin''
      in if beginPost = [] then k 0 s
         else if \<not> isNumber beginPost then respond_error J ''Id Error!'' s
         else p_bind (p_std (stoul beginPost) s) (\<lambda>i. k (word_of_nat i)))"

definition ArticleListPage :: "'j json_ops \<Rightarrow> ('d, string, session_data) tbb_ops \<Rightarrow> 'd session_manager \<Rightarrow> ('db, 'c) site_env \<Rightarrow>
    http_request \<Rightarrow> path_var \<Rightarrow> ('db, 'c) site \<Rightarrow> ('db, 'c) page" where
  "ArticleListPage J T m E req var s =
     (if \<not> isLogin T m req then redirect ''/background'' s
      else begin_id J var s (\<lambda>lastId s.
        p_bind (with_db (\<lambda>db. p_query (QueryPostsBasicStatusByPage (e_run E) lastId 25 db)) s) (\<lambda>posts s.
          render_page E ''backyard-articles.html''
            (setData_vector J_null ''posts'' (map (fromTuple [''id'', ''title'', ''created_at'', ''updated_at'']) posts)) s)))"

definition CategoryPage :: "'j json_ops \<Rightarrow> ('d, string, session_data) tbb_ops \<Rightarrow> 'd session_manager \<Rightarrow> ('db, 'c) site_env \<Rightarrow>
    http_request \<Rightarrow> path_var \<Rightarrow> ('db, 'c) site \<Rightarrow> ('db, 'c) page" where
  "CategoryPage J T m E req var s =
     (if \<not> isLogin T m req then redirect ''/background'' s
      else begin_id J var s (\<lambda>lastId s.
        p_bind (with_db (\<lambda>db. p_query (QueryAllCategoryBasicInfo (e_run E) db)) s) (\<lambda>categorys s.
          render_page E ''backyard-categories.html''
            (setData_vector J_null ''categories'' (map (fromTuple [''id'', ''name'']) categorys)) s)))"

definition AlbumPage :: "('d, string, session_data) tbb_ops \<Rightarrow> 'd session_manager \<Rightarrow> ('db, 'c) site_env \<Rightarrow>
    http_request \<Rightarrow> ('db, 'c) site \<Rightarrow> ('db, 'c) page" where
  "AlbumPage T m E req s =
     (if \<not> isLogin T m req then redirect ''/background'' s else serve_file (e_fs E) (e_pages E @ ''backyard-albums.html'') s)"

definition PhotoPage :: "('d, string, session_data) tbb_ops \<Rightarrow> 'd session_manager \<Rightarrow> ('db, 'c) site_env \<Rightarrow>
    http_request \<Rightarrow> ('db, 'c) site \<Rightarrow> ('db, 'c) page" where
  "PhotoPage T m E req s =
     (if \<not> isLogin T m req then redirect ''/background'' s else serve_file (e_fs E) (e_pages E @ ''backyard-photos.html'') s)"

section \<open>Test messages\<close>

record test_message =
  tm_id :: u64
  tm_name :: string
  tm_content :: string
  tm_created_at :: u64

definition message_entity :: "test_message \<Rightarrow> entity" where
  "message_entity e = \<lparr>e_table = ''TestMessage'', e_pk = Some ''id'', e_members =
     [(''id'', U64 (tm_id e)), (''name'', Str (tm_name e)), (''content'', Str (tm_content e)),
      (''created_at'', U64 (tm_created_at e))]\<rparr>"

definition InsertMessage :: "(string \<Rightarrow> string) \<Rightarrow> 'db runner \<Rightarrow> test_message \<Rightarrow> 'db \<Rightarrow> string option \<times> 'db" where
  "InsertMessage Q run e db = execute run (q_InsertWithAutoIncPk Q (message_entity e) Query_new, []) db"

definition QueryMessageByPage_stmt :: "u32 \<Rightarrow> u32 \<Rightarrow> stmt" where
  "QueryMessageByPage_stmt pageNum perPage =
     (q_setStatic True (q_OrderByDesc (FIELD ''TestMessage'' ''id'') (q_limit_param (q_skip_param
        (q_From ''TestMessage'' (Query_of_field (FDao.fields ''TestMessage'' [''name'', ''content''])))))),
      [U64 (ucast perPage), U64 (ucast (pageNum * perPage))])"

definition QueryMessageByPage :: "'db runner \<Rightarrow> u32 \<Rightarrow> u32 \<Rightarrow> 'db \<Rightarrow> (col_error + field_val list list) \<times> 'db" where
  "QueryMessageByPage run pageNum perPage db = fetch_all run (ToEntity [KText, KText]) (QueryMessageByPage_stmt pageNum perPage) db"

definition QueryMessagePageNum :: "'db runner \<Rightarrow> 'db \<Rightarrow> (col_error + u32) \<times> 'db" where
  "QueryMessagePageNum run db =
     (let (r, db') = fetch_first run (ToEntity [K32]) (q_setStatic True (q_From ''TestMessage'' (q_SelectCount ''*'' Query_new)), []) db
      in (case r of Inl e \<Rightarrow> Inl e | Inr (Some [I32 n]) \<Rightarrow> Inr n | Inr _ \<Rightarrow> Inr 0, db'))"

text \<open>\<open>junk\<close> is the identifier the message object happens to hold. What throws inside is caught.\<close>

definition PostMessage :: "'j json_ops \<Rightarrow> (string \<Rightarrow> string) \<Rightarrow> 'db runner \<Rightarrow> u64 \<Rightarrow> u64 \<Rightarrow> http_request \<Rightarrow> 'db \<Rightarrow>
    (http_response, 'db) page_result" where
  "PostMessage J Q run nanos junk req db =
     (if 2048 < length (rq_getRequestBody req) then respond_error J ''Request body too long!'' db
      else let j = ToJson J (rq_getRequestBody req)
           in if j_is_null J j then respond_error J ''Json Error!'' db
              else (case (Option.bind (j_find J j ''name'') (j_get_str J), Option.bind (j_find J j ''content'') (j_get_str J)) of
                      (Some name, Some content) \<Rightarrow>
                        (case InsertMessage Q run \<lparr>tm_id = junk, tm_name = name, tm_content = content, tm_created_at = nanos\<rparr> db of
                           (Some e, db') \<Rightarrow> respond_error J e db'
                         | (None, db') \<Rightarrow> (Inr (reply (getSucc J)), db'))
                    | _ \<Rightarrow> respond_error J ''Json Error!'' db))"

definition message_page :: "u32 \<Rightarrow> i32 \<Rightarrow> i32" where
  "message_page count tarPageNum =
     (let t = (if sint tarPageNum < 0 then 0 else tarPageNum); pageNum = count div 11
      in if sint t < sint pageNum then t else pageNum)"

definition GetMessageByPage :: "'j web_ops \<Rightarrow> 'db runner \<Rightarrow> path_var \<Rightarrow> 'db \<Rightarrow> (http_response, 'db) page_result" where
  "GetMessageByPage W run var db =
     (let page = pv_get var ''page''
      in p_bind (if isNumber page then p_std (stoi page) db else (Inr 0, db)) (\<lambda>tarPageNum db.
         p_bind (p_query (QueryMessagePageNum run db)) (\<lambda>count db.
         p_bind (p_query (QueryMessageByPage run (message_page count tarPageNum) 10 db)) (\<lambda>messages db.
           respond_json W (j_set (j_set J_null ''messages''
             (J_arr (map (\<lambda>m. j_set (j_set J_null ''name'' (val_json (m ! 0))) ''content'' (val_json (m ! 1))) messages)))
             ''pagenum'' (J_int (sint (count div 11)))) db))))"

definition GetMessagePage :: "('db, 'c) site_env \<Rightarrow> ('db, 'c) site \<Rightarrow> ('db, 'c) page" where
  "GetMessagePage E s = serve_file (e_fs E) (e_pages E @ ''testMessage.html'') s"

section \<open>The archive shows every article once\<close>

definition month_of :: "('db, 'c) site_env \<Rightarrow> field_val list \<Rightarrow> string" where
  "month_of E p = toFormatTime E (u64_of (p ! 4)) ''%Y-%m''"

definition in_month :: "('db, 'c) site_env \<Rightarrow> string \<Rightarrow> field_val list list \<Rightarrow> field_val list list" where
  "in_month E ym ps = filter (\<lambda>p. month_of E p = ym) ps"

definition group_ok :: "('db, 'c) site_env \<Rightarrow> field_val list list \<Rightarrow> string \<Rightarrow> jvalue option \<Rightarrow> bool" where
  "group_ok E ps ym found =
     (case found of
        None \<Rightarrow> in_month E ym ps = []
      | Some g \<Rightarrow> in_month E ym ps \<noteq> [] \<and> j_object g \<and> j_member g ''posts'' = Some (J_arr (map archive_post (in_month E ym ps))))"

definition holds_months :: "('db, 'c) site_env \<Rightarrow> field_val list list \<Rightarrow> (string, jvalue) omap \<Rightarrow> bool" where
  "holds_months E ps m \<longleftrightarrow> omap_wf m \<and> (\<forall>ym. group_ok E ps ym (omap_find m ym))"

lemma archive_post_wf [simp]: "j_wf (archive_post p)"
  by (rule j_object_wf) (simp add: archive_post_def j_object_set del: j_set.simps)

lemma j_object_push:
  assumes "j_object g" "j_member g key = Some (J_arr xs)" "j_wf v"
  shows "j_object (j_push g key v) \<and> j_member (j_push g key v) key = Some (J_arr (xs @ [v]))"
proof -
  obtain m where g: "g = J_obj m" "omap_wf m" "\<forall>kv \<in> set m. j_wf (snd kv)" using assms(1) by (auto simp: j_object_def)
  have "(key, J_arr xs) \<in> set m"
    using assms(2) unfolding g by (simp, induction m key rule: omap_find.induct) (auto split: if_splits)
  then have "j_wf (J_arr (xs @ [v]))" using g(3) assms(3) by fastforce
  then have "j_object (j_set g key (J_arr (xs @ [v])))" using assms(1) by (intro j_object_set) simp_all
  then show ?thesis using assms(2) by (simp add: j_push_def g(1) find_assign)
qed

lemma month_group_posts:
  assumes "month_group E t = Inr g"
  shows "j_object g \<and> j_member g ''posts'' = Some (J_arr [])"
  using assms unfolding month_group_def
  by (auto split: sum.splits simp: j_object_def omap_wf_def)

lemma archive_months_step:
  assumes "holds_months E done_ps m" "j_object g"
    "j_member g ''posts'' = Some (J_arr (map archive_post (in_month E (month_of E p) done_ps)))"
  shows "holds_months E (done_ps @ [p]) (omap_assign m (month_of E p) (j_push g ''posts'' (archive_post p)))"
proof -
  have "group_ok E (done_ps @ [p]) ym (if ym = month_of E p then Some (j_push g ''posts'' (archive_post p)) else omap_find m ym)" for ym
  proof (cases "ym = month_of E p")
    case True
    then show ?thesis using j_object_push [OF assms(2,3) archive_post_wf] by (simp add: group_ok_def in_month_def)
  next
    case False
    then have "in_month E ym (done_ps @ [p]) = in_month E ym done_ps" by (auto simp: in_month_def)
    then have "group_ok E (done_ps @ [p]) ym = group_ok E done_ps ym" by (simp add: group_ok_def fun_eq_iff split: option.split)
    then show ?thesis using False assms(1) by (simp add: holds_months_def)
  qed
  then show ?thesis using assms(1) by (simp add: holds_months_def omap_wf_assign find_assign)
qed

lemma archive_months_hold:
  "archive_months E ps m = Inr m' \<Longrightarrow> holds_months E done_ps m \<Longrightarrow> holds_months E (done_ps @ ps) m'"
proof (induction ps arbitrary: m done_ps)
  case (Cons p ps)
  let ?ym = "month_of E p"
  have ok: "group_ok E done_ps ?ym (omap_find m ?ym)" using Cons.prems(2) by (simp add: holds_months_def)
  obtain g where g: "archive_months E ps (omap_assign m ?ym (j_push g ''posts'' (archive_post p))) = Inr m'"
      "j_object g" "j_member g ''posts'' = Some (J_arr (map archive_post (in_month E ?ym done_ps)))"
  proof (cases "omap_find m ?ym")
    case None
    then obtain g where "month_group E (u64_of (p ! 4)) = Inr g"
        "archive_months E ps (omap_assign m ?ym (j_push g ''posts'' (archive_post p))) = Inr m'"
      using Cons.prems(1) by (auto simp: month_of_def Let_def split: sum.splits)
    then show ?thesis using that [of g] month_group_posts [of E _ g] ok None by (simp add: group_ok_def)
  next
    case (Some g)
    then show ?thesis using that [of g] Cons.prems(1) ok by (simp add: month_of_def Let_def group_ok_def)
  qed
  from Cons.IH [OF g(1) archive_months_step [OF Cons.prems(2) g(2,3)]] show ?case by simp
qed simp

text \<open>
  The archive shows every article once, under its month: when it is built, the months are the months
  of the articles, each once and in ascending order (the answer lists them backwards), and the group of a
  month holds exactly the articles of that month, in the order of the rows.
\<close>
theorem archive_shows_all:
  assumes "archive_months E ps [] = Inr m"
  shows "omap_wf m \<and> set (map fst m) = set (map (month_of E) ps)
    \<and> (\<forall>ym g. omap_find m ym = Some g \<longrightarrow>
        j_member g ''posts'' = Some (J_arr (map archive_post (filter (\<lambda>p. month_of E p = ym) ps))))"
proof -
  have h: "holds_months E ps m"
    using archive_months_hold [OF assms, of "[]"] by (simp add: holds_months_def group_ok_def in_month_def)
  then have ok: "group_ok E ps ym (omap_find m ym)" for ym by (simp add: holds_months_def)
  have "ym \<in> fst ` set m \<longleftrightarrow> ym \<in> month_of E ` set ps" for ym
  proof -
    have "ym \<in> fst ` set m \<longleftrightarrow> omap_find m ym \<noteq> None" by (simp add: find_None_iff)
    also have "\<dots> \<longleftrightarrow> in_month E ym ps \<noteq> []" using ok [of ym] by (auto simp: group_ok_def split: option.splits)
    finally show ?thesis by (auto simp: in_month_def filter_empty_conv)
  qed
  moreover have "j_member g ''posts'' = Some (J_arr (map archive_post (filter (\<lambda>p. month_of E p = ym) ps)))"
    if "omap_find m ym = Some g" for ym g
    using ok [of ym] that by (simp add: group_ok_def in_month_def)
  ultimately show ?thesis using h by (auto simp: holds_months_def)
qed

definition demo_env :: "(string list, (string, file_cache_line) rbt) site_env" where
  "demo_env = \<lparr>e_run = demo_run, e_cache = rbt_ops, e_fs = (\<lambda>path. Some (True, ''template'')),
     e_inja = (\<lambda>file data. Inr (file @ ''!'')), e_now = 86400000, e_cfg = (\<lambda>_. None), e_pages = [], e_assets = [],
     e_format = (\<lambda>t fmt. if fmt = ''%Y'' then ''2024'' else if fmt = ''%m'' then ''03'' else if t < 100 then ''2024-02'' else ''2024-03''),
     e_gmtime = (\<lambda>_ _. ''Thu'')\<rparr>"

theorem archive_shows_all_witness:
  "\<exists>m. archive_months demo_env [[U64 2, Str ''b'', Str [], Str [], U64 200000, U64 0], [U64 1, Str ''a'', Str [], Str [], U64 1000, U64 0]] [] = Inr m
    \<and> set (map fst m) = {''2024-03'', ''2024-02''}"
proof -
  let ?ps = "[[U64 2, Str ''b'', Str [], Str [], U64 200000, U64 0], [U64 1, Str ''a'', Str [], Str [], U64 1000, U64 0]]"
  have n: "stoi ''2024'' = Inr 2024" "stoi ''03'' = Inr 3"
    by (simp_all add: stoi_def dec_value_def digit_val_def)
  obtain m where m: "archive_months demo_env ?ps [] = Inr m"
    by (auto simp: toFormatTime_def demo_env_def u64_of_def month_group_def n Let_def split: option.split sum.split)
  have "month_of demo_env (?ps ! 0) = ''2024-03''" "month_of demo_env (?ps ! 1) = ''2024-02''"
    by (simp_all add: month_of_def toFormatTime_def demo_env_def u64_of_def)
  then show ?thesis using archive_shows_all [OF m] m by auto
qed

section \<open>The feed\<close>

lemma with_db_query:
  "with_db (\<lambda>db. p_query (f db)) s = (Inr a, s') \<longleftrightarrow> (\<exists>db. f (site_db s) = (Inr a, db) \<and> s' = s\<lparr>site_db := db\<rparr>)"
  by (cases "f (site_db s)") (auto simp: with_db_def p_query_def split: sum.splits)

lemma p_bind_Inr: "p_bind r k = (Inr b, w') \<longleftrightarrow> (\<exists>a w. r = (Inr a, w) \<and> k a w = (Inr b, w'))"
  by (cases r) (auto simp: p_bind_def split: sum.splits)

text \<open>
  The feed is what the articles are when it is built, and it is built only when it is marked: serving
  a marked feed renders the articles and categories the database then has and removes the mark; the next
  request, and every one until the feed is marked again, gets the same text without asking the database.
\<close>
theorem feed_rebuilt_when_marked:
  assumes "getRssXml E s = (Inr (xml, lastModified), s')"
  shows "(if mDirty (site_rss s)
      then \<exists>posts cates db1 template. QueryPostsForRss (e_run E) (site_db s) = (Inr posts, db1)
        \<and> QueryAllCategoryBasicInfo (e_run E) db1 = (Inr cates, site_db s')
        \<and> e_inja E template (rss_data E posts cates) = Inr xml \<and> lastModified = toRfc822 E (e_now E)
      else s' = s)
    \<and> (\<forall>E'. getRssXml E' s' = (Inr (xml, lastModified), s'))"
proof (cases "mDirty (site_rss s)")
  case True
  from assms True obtain posts s1 cates s2 out s3 where
    q: "with_db (\<lambda>db. p_query (QueryPostsForRss (e_run E) db)) s = (Inr posts, s1)"
      "with_db (\<lambda>db. p_query (QueryAllCategoryBasicInfo (e_run E) db)) s1 = (Inr cates, s2)"
      "render E (e_pages E @ ''rss.xml'') (rss_data E posts cates) s2 = (Inr out, s3)"
    and s': "s' = s3\<lparr>site_rss := \<lparr>mXml = out, mLastModified = toRfc822 E (e_now E), mDirty = False\<rparr>\<rparr>"
      "xml = out" "lastModified = toRfc822 E (e_now E)"
    by (auto simp: getRssXml_def rebuild_def p_bind_Inr)
  obtain template where "e_inja E template (rss_data E posts cates) = Inr out" "site_db s3 = site_db s2"
    using q(3) by (auto simp: render_def split: prod.splits sum.splits)
  moreover obtain db1 db2 where "QueryPostsForRss (e_run E) (site_db s) = (Inr posts, db1)" "s1 = s\<lparr>site_db := db1\<rparr>"
      "QueryAllCategoryBasicInfo (e_run E) db1 = (Inr cates, db2)" "s2 = s1\<lparr>site_db := db2\<rparr>"
    using q(1,2) by (auto simp: with_db_query)
  ultimately show ?thesis using True s' by (auto simp: getRssXml_def)
next
  case False
  then show ?thesis using assms by (auto simp: getRssXml_def)
qed

text \<open>A conditional request is answered without the feed exactly when it names the present version.\<close>

lemma feed_not_modified:
  assumes "getRssXml E s = (Inr (xml, lastModified), s')" "rq_getHeader req ''If-Modified-Since'' = Some v" "v \<noteq> []"
  shows "\<exists>r. RssXml E req s = (Inr r, s') \<and> mStatus r = (if v = lastModified then S304 else mStatus FHttpResponse_new)
    \<and> mBody r = (if v = lastModified then mBody FHttpResponse_new else xml)"
  using assms
  by (auto simp: RssXml_def rs_setStatusCode_def rs_setBody_def rs_addHeader_def rs_setContentType_def split: option.split)

definition demo_site :: "(string list, (string, file_cache_line) rbt) site" where
  "demo_site = \<lparr>site_db = [], site_files = demo_file_cache, mBlogTotalViewTimes = 0, mBlogTotalBlogs = 0,
     site_rss = \<lparr>mXml = [], mLastModified = [], mDirty = True\<rparr>\<rparr>"

theorem feed_rebuilt_when_marked_witness:
  "\<exists>s'. getRssXml demo_env demo_site = (Inr (''template!'', ''Thu +0800''), s')
    \<and> getRssXml demo_env s' = (Inr (''template!'', ''Thu +0800''), s')"
proof -
  obtain s' where s': "getRssXml demo_env demo_site = (Inr (''template!'', ''Thu +0800''), s')"
    by (simp add: getRssXml_def rebuild_def demo_site_def demo_env_def with_db_def p_query_def QueryPostsForRss_def
        QueryAllCategoryBasicInfo_def fetch_all_def exec_def demo_run_def render_def fc_getOrGen_def
        ch_findAndModifyLocked_def demo_file_cache_def tbb_simps [OF rbt_ops_ok] MemoryMappedFile_ro_def toRfc822_def p_bind_def)
  from feed_rebuilt_when_marked [OF this] s' show ?thesis by blast
qed

section \<open>Smaller facts\<close>

text \<open>The number of pages of the messages divides by eleven where a page has ten: of 21 messages no page
  shows the last.\<close>

lemma last_message_on_no_page: "10 * sint (message_page 21 t) + 10 \<le> 20 \<and> 0 \<le> sint (message_page 21 t)"
  by (simp add: message_page_def Let_def)

text \<open>A page file that is missing is not answered with a redirect: the mapping throws first.\<close>

lemma missing_page_throws:
  assumes "e_fs E (e_pages E @ ''photos.html'') = None"
  shows "PhotosPage E s = (Inl (Page_runtime_error ''Failed to open file (ReadOnly)''), s)"
  using assms by (simp add: PhotosPage_def serve_file_def MemoryMappedFile_ro_def)

text \<open>Without a session the administrator's pages only redirect.\<close>

lemma background_gate:
  assumes "\<not> isLogin T m req"
  shows "ArticleListPage J T m E req var s = redirect ''/background'' s"
    "CategoryPage J T m E req var s = redirect ''/background'' s"
    "AlbumPage T m E req s = redirect ''/background'' s" "PhotoPage T m E req s = redirect ''/background'' s"
  using assms by (simp_all add: ArticleListPage_def CategoryPage_def AlbumPage_def PhotoPage_def)

end
