(* ===== verification/FEvents.thy ===== *)
theory FEvents
  imports StdMap
begin

unbundle bit_operations_syntax

text \<open>
  Events of the loop: the portable event flags and their translation to epoll and poll
  (\<open>FREventDef.h\<close>, \<open>FREventDef.cpp\<close>), the events of a descriptor and the dispatch of its callbacks
  (\<open>FEvent.cpp\<close>), and the epoll listener that holds the kernel's interest list
  (\<open>FEPollListener.cpp\<close>). The constants of epoll and poll are those of Linux.
\<close>

section \<open>Flags\<close>

text \<open>Every flag is a single bit; the abbreviations are the bit positions.\<close>

definition flag :: "nat \<Rightarrow> u32" where
  "flag i = push_bit i 1"

abbreviation "Rdnorm \<equiv> 0 :: nat"
abbreviation "Rdband \<equiv> 1 :: nat"
abbreviation "Pri \<equiv> 2 :: nat"
abbreviation "Wrnorm \<equiv> 3 :: nat"
abbreviation "Wrband \<equiv> 4 :: nat"
abbreviation "Err \<equiv> 5 :: nat"
abbreviation "Hup \<equiv> 6 :: nat"
abbreviation "Rdhup \<equiv> 7 :: nat"
abbreviation "Nval \<equiv> 8 :: nat"
abbreviation "In \<equiv> 9 :: nat"
abbreviation "Out \<equiv> 10 :: nat"
abbreviation "Msg \<equiv> 11 :: nat"
abbreviation "Oneshot \<equiv> 12 :: nat"

abbreviation "EPOLLIN \<equiv> 0 :: nat"
abbreviation "EPOLLPRI \<equiv> 1 :: nat"
abbreviation "EPOLLOUT \<equiv> 2 :: nat"
abbreviation "EPOLLERR \<equiv> 3 :: nat"
abbreviation "EPOLLHUP \<equiv> 4 :: nat"
abbreviation "EPOLLRDNORM \<equiv> 6 :: nat"
abbreviation "EPOLLRDBAND \<equiv> 7 :: nat"
abbreviation "EPOLLWRNORM \<equiv> 8 :: nat"
abbreviation "EPOLLWRBAND \<equiv> 9 :: nat"
abbreviation "EPOLLMSG \<equiv> 10 :: nat"
abbreviation "EPOLLRDHUP \<equiv> 13 :: nat"
abbreviation "EPOLLONESHOT \<equiv> 30 :: nat"
abbreviation "POLLNVAL \<equiv> 5 :: nat"

text \<open>The chains of tests: \<open>if (events & a) ret |= b\<close>, in their order.\<close>

definition collect_any :: "(nat \<times> nat) list \<Rightarrow> u32 \<Rightarrow> u32" where
  "collect_any table events =
     foldl (\<lambda>ret ab. if events AND flag (fst ab) \<noteq> 0 then ret OR flag (snd ab) else ret) 0 table"

definition binMatch :: "u32 \<Rightarrow> u32 \<Rightarrow> bool" where
  "binMatch a b \<longleftrightarrow> a AND b = b"

definition collect_match :: "(nat \<times> nat) list \<Rightarrow> u32 \<Rightarrow> u32" where
  "collect_match table events =
     foldl (\<lambda>ret ab. if binMatch events (flag (fst ab)) then ret OR flag (snd ab) else ret) 0 table"

definition ToEpoll :: "u32 \<Rightarrow> u32" where
  "ToEpoll = collect_any
     [(Rdnorm, EPOLLRDNORM), (Rdband, EPOLLRDBAND), (In, EPOLLIN), (Out, EPOLLOUT), (Pri, EPOLLPRI),
      (Wrnorm, EPOLLWRNORM), (Wrband, EPOLLWRBAND), (Err, EPOLLERR), (Hup, EPOLLHUP),
      (Rdhup, EPOLLRDHUP), (Nval, EPOLLERR), (Msg, EPOLLMSG), (Oneshot, EPOLLONESHOT)]"

definition FromEpoll :: "u32 \<Rightarrow> u32" where
  "FromEpoll = collect_match
     [(EPOLLRDNORM, Rdnorm), (EPOLLRDBAND, Rdband), (EPOLLIN, In), (EPOLLOUT, Out), (EPOLLPRI, Pri),
      (EPOLLWRNORM, Wrnorm), (EPOLLWRBAND, Wrband), (EPOLLERR, Err), (EPOLLHUP, Hup),
      (EPOLLRDHUP, Rdhup), (EPOLLMSG, Msg), (EPOLLONESHOT, Oneshot)]"

text \<open>poll's bits are those of epoll, with \<open>POLLNVAL\<close> besides.\<close>

definition ToPoll :: "u32 \<Rightarrow> u32" where
  "ToPoll = collect_any
     [(Rdnorm, EPOLLRDNORM), (Rdband, EPOLLRDBAND), (In, EPOLLIN), (Out, EPOLLOUT), (Pri, EPOLLPRI),
      (Wrnorm, EPOLLWRNORM), (Wrband, EPOLLWRBAND), (Err, EPOLLERR), (Hup, EPOLLHUP),
      (Rdhup, EPOLLRDHUP), (Nval, POLLNVAL)]"

definition FromPoll :: "u32 \<Rightarrow> u32" where
  "FromPoll = collect_match
     [(EPOLLIN, In), (EPOLLOUT, Out), (EPOLLRDNORM, Rdnorm), (EPOLLRDBAND, Rdband),
      (EPOLLWRNORM, Wrnorm), (EPOLLWRBAND, Wrband), (EPOLLPRI, Pri), (EPOLLERR, Err), (EPOLLHUP, Hup),
      (EPOLLRDHUP, Rdhup), (POLLNVAL, Nval)]"

lemma bit_flag: "bit (flag i) n \<longleftrightarrow> n = i \<and> n < 32"
  by (auto simp: flag_def bit_exp_iff)

lemma and_flag: "i < 32 \<Longrightarrow> w AND flag i \<noteq> 0 \<longleftrightarrow> bit w i"
  by (auto simp: bit_eq_iff [of "w AND flag i"] bit_and_iff bit_flag)

lemma match_flag: "i < 32 \<Longrightarrow> binMatch w (flag i) \<longleftrightarrow> bit w i"
  by (auto simp: binMatch_def bit_eq_iff [of "w AND flag i"] bit_and_iff bit_flag)

lemma bit_fold_flags:
  "bit (foldl (\<lambda>ret ab. if P ab then ret OR flag (snd ab) else ret) r table) n
     \<longleftrightarrow> bit r n \<or> (n < 32 \<and> (\<exists>ab \<in> set table. P ab \<and> snd ab = n))"
  by (induction table arbitrary: r) (auto simp: bit_or_iff bit_flag)

lemma bit_collect_any:
  "\<forall>ab \<in> set table. fst ab < 32 \<Longrightarrow>
     bit (collect_any table w) n \<longleftrightarrow> n < 32 \<and> (\<exists>ab \<in> set table. bit w (fst ab) \<and> snd ab = n)"
  unfolding collect_any_def by (subst bit_fold_flags) (auto simp: and_flag)

lemma bit_collect_match:
  "\<forall>ab \<in> set table. fst ab < 32 \<Longrightarrow>
     bit (collect_match table w) n \<longleftrightarrow> n < 32 \<and> (\<exists>ab \<in> set table. bit w (fst ab) \<and> snd ab = n)"
  unfolding collect_match_def by (subst bit_fold_flags) (auto simp: match_flag)

lemma bit_ToEpoll: "bit (ToEpoll w) n \<longleftrightarrow>
    n = EPOLLRDNORM \<and> bit w Rdnorm \<or> n = EPOLLRDBAND \<and> bit w Rdband \<or> n = EPOLLIN \<and> bit w In
    \<or> n = EPOLLOUT \<and> bit w Out \<or> n = EPOLLPRI \<and> bit w Pri \<or> n = EPOLLWRNORM \<and> bit w Wrnorm
    \<or> n = EPOLLWRBAND \<and> bit w Wrband \<or> n = EPOLLERR \<and> (bit w Err \<or> bit w Nval) \<or> n = EPOLLHUP \<and> bit w Hup
    \<or> n = EPOLLRDHUP \<and> bit w Rdhup \<or> n = EPOLLMSG \<and> bit w Msg \<or> n = EPOLLONESHOT \<and> bit w Oneshot"
  unfolding ToEpoll_def by (subst bit_collect_any) auto

lemma bit_FromEpoll: "bit (FromEpoll w) n \<longleftrightarrow>
    n = Rdnorm \<and> bit w EPOLLRDNORM \<or> n = Rdband \<and> bit w EPOLLRDBAND \<or> n = In \<and> bit w EPOLLIN
    \<or> n = Out \<and> bit w EPOLLOUT \<or> n = Pri \<and> bit w EPOLLPRI \<or> n = Wrnorm \<and> bit w EPOLLWRNORM
    \<or> n = Wrband \<and> bit w EPOLLWRBAND \<or> n = Err \<and> bit w EPOLLERR \<or> n = Hup \<and> bit w EPOLLHUP
    \<or> n = Rdhup \<and> bit w EPOLLRDHUP \<or> n = Msg \<and> bit w EPOLLMSG \<or> n = Oneshot \<and> bit w EPOLLONESHOT"
  unfolding FromEpoll_def by (subst bit_collect_match) auto

lemma bit_ToPoll: "bit (ToPoll w) n \<longleftrightarrow>
    n = EPOLLRDNORM \<and> bit w Rdnorm \<or> n = EPOLLRDBAND \<and> bit w Rdband \<or> n = EPOLLIN \<and> bit w In
    \<or> n = EPOLLOUT \<and> bit w Out \<or> n = EPOLLPRI \<and> bit w Pri \<or> n = EPOLLWRNORM \<and> bit w Wrnorm
    \<or> n = EPOLLWRBAND \<and> bit w Wrband \<or> n = EPOLLERR \<and> bit w Err \<or> n = EPOLLHUP \<and> bit w Hup
    \<or> n = EPOLLRDHUP \<and> bit w Rdhup \<or> n = POLLNVAL \<and> bit w Nval"
  unfolding ToPoll_def by (subst bit_collect_any) auto

lemma bit_FromPoll: "bit (FromPoll w) n \<longleftrightarrow>
    n = Rdnorm \<and> bit w EPOLLRDNORM \<or> n = Rdband \<and> bit w EPOLLRDBAND \<or> n = In \<and> bit w EPOLLIN
    \<or> n = Out \<and> bit w EPOLLOUT \<or> n = Pri \<and> bit w EPOLLPRI \<or> n = Wrnorm \<and> bit w EPOLLWRNORM
    \<or> n = Wrband \<and> bit w EPOLLWRBAND \<or> n = Err \<and> bit w EPOLLERR \<or> n = Hup \<and> bit w EPOLLHUP
    \<or> n = Rdhup \<and> bit w EPOLLRDHUP \<or> n = Nval \<and> bit w POLLNVAL"
  unfolding FromPoll_def by (subst bit_collect_match) auto

text \<open>
  The translations of event flags are inverse to each other: every set of the library's flags
  survives the way through poll (epoll's own two flags apart) and through epoll, where only the
  flag that epoll lacks comes back as an error.
\<close>
theorem event_flags_round_trip:
  assumes "\<forall>n. bit w n \<longrightarrow> n \<le> Oneshot"
  shows "(\<forall>n. bit (FromEpoll (ToEpoll w)) n \<longleftrightarrow> (bit w n \<and> n \<noteq> Nval) \<or> (n = Err \<and> bit w Nval))
    \<and> (\<forall>n. bit (FromPoll (ToPoll w)) n \<longleftrightarrow> bit w n \<and> n \<noteq> Msg \<and> n \<noteq> Oneshot)"
proof -
  have d: "n = Rdnorm \<or> n = Rdband \<or> n = Pri \<or> n = Wrnorm \<or> n = Wrband \<or> n = Err \<or> n = Hup
      \<or> n = Rdhup \<or> n = Nval \<or> n = In \<or> n = Out \<or> n = Msg \<or> n = Oneshot" if "n \<le> Oneshot" for n :: nat
    using that by presburger
  have high: "\<not> bit w n \<and> \<not> bit (FromEpoll x) n \<and> \<not> bit (FromPoll x) n \<and> n \<noteq> Err" if "\<not> n \<le> Oneshot" for n x
    using that assms by (auto simp: bit_FromEpoll bit_FromPoll)
  show ?thesis
  proof (intro conjI allI)
    fix n
    show "bit (FromEpoll (ToEpoll w)) n \<longleftrightarrow> (bit w n \<and> n \<noteq> Nval) \<or> (n = Err \<and> bit w Nval)"
    proof (cases "n \<le> Oneshot")
      case True
      from d [OF this] show ?thesis by (elim disjE) (simp_all add: bit_FromEpoll bit_ToEpoll)
    next
      case False
      then show ?thesis using high [OF False] by blast
    qed
    show "bit (FromPoll (ToPoll w)) n \<longleftrightarrow> bit w n \<and> n \<noteq> Msg \<and> n \<noteq> Oneshot"
    proof (cases "n \<le> Oneshot")
      case True
      from d [OF this] show ?thesis by (elim disjE) (simp_all add: bit_FromPoll bit_ToPoll)
    next
      case False
      then show ?thesis using high [OF False] by blast
    qed
  qed
qed

theorem event_flags_round_trip_witness:
  "bit (FromEpoll (ToEpoll (flag In OR flag Nval))) In \<and> bit (FromEpoll (ToEpoll (flag In OR flag Nval))) Err
   \<and> \<not> bit (FromEpoll (ToEpoll (flag In OR flag Nval))) Nval"
  using event_flags_round_trip [of "flag In OR flag Nval"] by (auto simp: bit_or_iff bit_flag)

section \<open>Events and the epoll listener\<close>

record fevent =
  ev_id :: u64
  ev_fd :: nat
  mEvent :: u32
  mRevents :: u32
  mEventHandling :: bool
  mAddedToLoop :: bool

text \<open>Calls of \<open>epoll_ctl\<close>, with the descriptor, the identifier stored as user data and the flags.\<close>

datatype epoll_ctl = Ctl_Add nat u64 u32 | Ctl_Mod nat u64 u32 | Ctl_Del nat

record epoll_listener =
  m_pollEvents :: "(u64, u32) omap"
  ctl_log :: "epoll_ctl list"

abbreviation NoneEvent :: u32 where "NoneEvent \<equiv> 0"

definition ReadEvent :: u32 where
  "ReadEvent = flag In OR flag Pri OR flag Rdnorm OR flag Rdband"

definition WriteEvent :: u32 where
  "WriteEvent = flag Out"

definition FEvent_new :: "nat \<Rightarrow> u64 \<Rightarrow> fevent" where
  "FEvent_new fd i = \<lparr>ev_id = i, ev_fd = fd, mEvent = 0, mRevents = 0, mEventHandling = False, mAddedToLoop = False\<rparr>"

definition addEvent :: "epoll_listener \<Rightarrow> fevent \<Rightarrow> epoll_listener" where
  "addEvent l e =
     (let m = omap_insert (m_pollEvents l) (ev_id e) (ToEpoll (mEvent e));
          flags = (case omap_find m (ev_id e) of Some f \<Rightarrow> f | None \<Rightarrow> 0)
      in l\<lparr>m_pollEvents := m, ctl_log := ctl_log l @ [Ctl_Add (ev_fd e) (ev_id e) flags]\<rparr>)"

definition removeEvent :: "epoll_listener \<Rightarrow> fevent \<Rightarrow> epoll_listener" where
  "removeEvent l e =
     l\<lparr>m_pollEvents := omap_erase (m_pollEvents l) (ev_id e), ctl_log := ctl_log l @ [Ctl_Del (ev_fd e)]\<rparr>"

definition updateEvent :: "epoll_listener \<Rightarrow> fevent \<Rightarrow> epoll_listener" where
  "updateEvent l e =
     (case omap_find (m_pollEvents l) (ev_id e) of
        None \<Rightarrow> l
      | Some _ \<Rightarrow>
          l\<lparr>m_pollEvents := omap_assign (m_pollEvents l) (ev_id e) (ToEpoll (mEvent e)),
            ctl_log := ctl_log l @ [Ctl_Mod (ev_fd e) (ev_id e) (ToEpoll (mEvent e))]\<rparr>)"

text \<open>\<open>listen\<close>: what \<open>epoll_wait\<close> reports, None for an error. \<open>alive\<close> is whether the weak pointer of an
  identifier can still be locked. The result lists the events to handle with their flags.\<close>

fun listen_loop :: "(u64 \<Rightarrow> bool) \<Rightarrow> (u64 \<times> u32) list \<Rightarrow> (u64, u32) omap \<Rightarrow> (u64 \<times> u32) list \<times> (u64, u32) omap" where
  "listen_loop alive [] m = ([], m)"
| "listen_loop alive ((i, flags) # evs) m =
     (case omap_find m i of
        None \<Rightarrow> listen_loop alive evs m
      | Some _ \<Rightarrow>
          if \<not> alive i then listen_loop alive evs (omap_erase m i)
          else (let (out, m') = listen_loop alive evs m in ((i, FromEpoll flags) # out, m')))"

definition listen :: "epoll_listener \<Rightarrow> (u64 \<Rightarrow> bool) \<Rightarrow> (u64 \<times> u32) list option \<Rightarrow> (u64 \<times> u32) list \<times> epoll_listener" where
  "listen l alive reported =
     (case reported of
        None \<Rightarrow> ([], l)
      | Some evs \<Rightarrow> (let (out, m) = listen_loop alive evs (m_pollEvents l) in (out, l\<lparr>m_pollEvents := m\<rparr>)))"

definition ev_init :: "epoll_listener \<Rightarrow> fevent \<Rightarrow> epoll_listener \<times> fevent" where
  "ev_init l e = (if mAddedToLoop e then (l, e) else (addEvent l e, e\<lparr>mAddedToLoop := True\<rparr>))"

definition ev_update :: "epoll_listener \<Rightarrow> fevent \<Rightarrow> epoll_listener \<times> fevent" where
  "ev_update l e = (if \<not> mAddedToLoop e then (l, e) else (updateEvent l e, e))"

definition isWriting :: "fevent \<Rightarrow> bool" where
  "isWriting e \<longleftrightarrow> mEvent e AND WriteEvent \<noteq> 0"

definition isReading :: "fevent \<Rightarrow> bool" where
  "isReading e \<longleftrightarrow> mEvent e AND ReadEvent \<noteq> 0"

definition enableReading :: "epoll_listener \<Rightarrow> fevent \<Rightarrow> epoll_listener \<times> fevent" where
  "enableReading l e = (if isReading e then (l, e) else ev_update l (e\<lparr>mEvent := mEvent e OR ReadEvent\<rparr>))"

definition enableWriting :: "epoll_listener \<Rightarrow> fevent \<Rightarrow> epoll_listener \<times> fevent" where
  "enableWriting l e = (if isWriting e then (l, e) else ev_update l (e\<lparr>mEvent := mEvent e OR WriteEvent\<rparr>))"

definition disableReading :: "epoll_listener \<Rightarrow> fevent \<Rightarrow> epoll_listener \<times> fevent" where
  "disableReading l e = ev_update l (e\<lparr>mEvent := mEvent e AND NOT ReadEvent\<rparr>)"

definition disableWriting :: "epoll_listener \<Rightarrow> fevent \<Rightarrow> epoll_listener \<times> fevent" where
  "disableWriting l e = ev_update l (e\<lparr>mEvent := mEvent e AND NOT WriteEvent\<rparr>)"

definition disableAll :: "epoll_listener \<Rightarrow> fevent \<Rightarrow> epoll_listener \<times> fevent" where
  "disableAll l e = ev_update l (e\<lparr>mEvent := NoneEvent\<rparr>)"

definition ev_remove :: "epoll_listener \<Rightarrow> fevent \<Rightarrow> epoll_listener \<times> fevent" where
  "ev_remove l e = (if \<not> mAddedToLoop e then (l, e) else (removeEvent l e, e\<lparr>mAddedToLoop := False\<rparr>))"

definition isNoneEvent :: "fevent \<Rightarrow> bool" where
  "isNoneEvent e \<longleftrightarrow> mEvent e = NoneEvent"

text \<open>The destructor, in its loop's listener.\<close>

definition FEvent_destroy :: "epoll_listener \<Rightarrow> fevent \<Rightarrow> epoll_listener" where
  "FEvent_destroy l e =
     (if \<not> mAddedToLoop e then l else (let (l1, e1) = disableAll l e in removeEvent l1 e1))"

definition REventToString :: "nat \<Rightarrow> string" where
  "REventToString i =
     (if i = Rdnorm then ''Rdnorm'' else if i = Rdband then ''Rdband'' else if i = Pri then ''Pri''
      else if i = Wrnorm then ''Wrnorm'' else if i = Wrband then ''Wrband'' else if i = Err then ''Err''
      else if i = Hup then ''Hup'' else if i = Rdhup then ''Rdhup'' else if i = Nval then ''Nval''
      else if i = In then ''In'' else if i = Out then ''Out'' else if i = Msg then ''Msg''
      else if i = Oneshot then ''Oneshot'' else ''Unknown!'')"

section \<open>Dispatch\<close>

datatype callback_kind = CB_Close | CB_Error | CB_Read | CB_Write | CB_Post

text \<open>The callbacks work on the state \<open>'s\<close> of the whole connection; \<open>added\<close> reads \<open>mAddedToLoop\<close> from it,
  since a callback may take the event out of the loop. The trace lists the callbacks that ran.\<close>

definition run_callback :: "('s \<Rightarrow> bool) \<Rightarrow> (callback_kind \<Rightarrow> ('s \<Rightarrow> 's) option) \<Rightarrow> bool \<Rightarrow> callback_kind \<Rightarrow>
    's \<times> callback_kind list \<Rightarrow> 's \<times> callback_kind list" where
  "run_callback added cb wanted k st =
     (case cb k of
        Some f \<Rightarrow> if added (fst st) \<and> wanted then (f (fst st), snd st @ [k]) else st
      | None \<Rightarrow> st)"

definition handleEvent :: "('s \<Rightarrow> bool) \<Rightarrow> (callback_kind \<Rightarrow> ('s \<Rightarrow> 's) option) \<Rightarrow> u32 \<Rightarrow> 's \<Rightarrow> 's \<times> callback_kind list" where
  "handleEvent added cb revents s =
     (if \<not> added s then (s, [])
      else run_callback added cb True CB_Post
             (run_callback added cb (revents AND flag Out \<noteq> 0) CB_Write
               (run_callback added cb (revents AND (flag In OR flag Pri OR flag Rdhup) \<noteq> 0) CB_Read
                 (run_callback added cb (revents AND (flag Err OR flag Nval) \<noteq> 0) CB_Error
                   (run_callback added cb (revents AND flag Hup \<noteq> 0 \<and> revents AND flag In = 0) CB_Close
                     (s, []))))))"

section \<open>The interest list follows the event\<close>

text \<open>An event that is in the loop has its current flags in the listener's map, and they are what the
  kernel was last told.\<close>

definition ev_sync :: "epoll_listener \<Rightarrow> fevent \<Rightarrow> bool" where
  "ev_sync l e \<longleftrightarrow> omap_wf (m_pollEvents l) \<and>
     (if mAddedToLoop e then omap_find (m_pollEvents l) (ev_id e) = Some (ToEpoll (mEvent e))
      else omap_find (m_pollEvents l) (ev_id e) = None)"

datatype event_op = Op_init | Op_enableReading | Op_enableWriting | Op_disableReading | Op_disableWriting
  | Op_disableAll | Op_remove

fun apply_event_op :: "event_op \<Rightarrow> epoll_listener \<times> fevent \<Rightarrow> epoll_listener \<times> fevent" where
  "apply_event_op Op_init (l, e) = ev_init l e"
| "apply_event_op Op_enableReading (l, e) = enableReading l e"
| "apply_event_op Op_enableWriting (l, e) = enableWriting l e"
| "apply_event_op Op_disableReading (l, e) = disableReading l e"
| "apply_event_op Op_disableWriting (l, e) = disableWriting l e"
| "apply_event_op Op_disableAll (l, e) = disableAll l e"
| "apply_event_op Op_remove (l, e) = ev_remove l e"

lemma ev_update_sync:
  assumes "omap_wf (m_pollEvents l)"
    "if mAddedToLoop e then omap_find (m_pollEvents l) (ev_id e) \<noteq> None else omap_find (m_pollEvents l) (ev_id e) = None"
  shows "ev_sync (fst (ev_update l e)) (snd (ev_update l e)) \<and> snd (ev_update l e) = e
    \<and> (\<forall>j. j \<noteq> ev_id e \<longrightarrow> omap_find (m_pollEvents (fst (ev_update l e))) j = omap_find (m_pollEvents l) j)"
  using assms
  by (auto simp: ev_update_def updateEvent_def ev_sync_def omap_wf_assign find_assign split: option.split)

lemma event_op_sync:
  assumes "ev_sync l e"
  shows "(case apply_event_op x (l, e) of (l', e') \<Rightarrow> ev_sync l' e' \<and> ev_id e' = ev_id e
    \<and> (\<forall>j. j \<noteq> ev_id e \<longrightarrow> omap_find (m_pollEvents l') j = omap_find (m_pollEvents l) j))"
proof -
  have upd: "(case ev_update l (e\<lparr>mEvent := w\<rparr>) of (l', e') \<Rightarrow> ev_sync l' e' \<and> ev_id e' = ev_id e
      \<and> (\<forall>j. j \<noteq> ev_id e \<longrightarrow> omap_find (m_pollEvents l') j = omap_find (m_pollEvents l) j))" for w
  proof -
    have "if mAddedToLoop (e\<lparr>mEvent := w\<rparr>) then omap_find (m_pollEvents l) (ev_id (e\<lparr>mEvent := w\<rparr>)) \<noteq> None
        else omap_find (m_pollEvents l) (ev_id (e\<lparr>mEvent := w\<rparr>)) = None"
      using assms by (simp add: ev_sync_def split: if_splits)
    with assms ev_update_sync [of l "e\<lparr>mEvent := w\<rparr>"] show ?thesis by (auto simp: ev_sync_def split: prod.split)
  qed
  show ?thesis
    using assms upd
    by (cases x)
      (auto simp: enableReading_def enableWriting_def disableReading_def disableWriting_def disableAll_def
        ev_init_def ev_remove_def addEvent_def removeEvent_def ev_sync_def omap_wf_insert omap_wf_erase
        find_insert find_erase Let_def split: if_splits)
qed

text \<open>
  The kernel's interest list follows the event: after any sequence of operations on an event of a
  listener, the listener's map holds exactly the translation of the event's current flags while the
  event is in the loop and nothing once it is removed, and the entries of other events are untouched.
\<close>
theorem interest_follows_event:
  assumes "omap_wf (m_pollEvents l)" "omap_find (m_pollEvents l) i = None"
    "foldl (\<lambda>le x. apply_event_op x le) (l, FEvent_new fd i) xs = (l', e')"
  shows "(if mAddedToLoop e' then omap_find (m_pollEvents l') i = Some (ToEpoll (mEvent e'))
     else omap_find (m_pollEvents l') i = None)
    \<and> (\<forall>j. j \<noteq> i \<longrightarrow> omap_find (m_pollEvents l') j = omap_find (m_pollEvents l) j)"
proof -
  have run: "(case foldl (\<lambda>le x. apply_event_op x le) (l1, e1) xs of (l', e') \<Rightarrow> ev_sync l' e' \<and> ev_id e' = ev_id e1
      \<and> (\<forall>j. j \<noteq> ev_id e1 \<longrightarrow> omap_find (m_pollEvents l') j = omap_find (m_pollEvents l1) j))"
    if "ev_sync l1 e1" for l1 e1
    using that
  proof (induction xs arbitrary: l1 e1)
    case (Cons x xs)
    obtain l2 e2 where "apply_event_op x (l1, e1) = (l2, e2)" by fastforce
    with event_op_sync [OF Cons.prems, of x] Cons.IH [of l2 e2] show ?case by (auto split: prod.splits)
  qed simp
  have "ev_sync l (FEvent_new fd i)" using assms by (simp add: ev_sync_def FEvent_new_def)
  from run [OF this] assms(3) show ?thesis by (auto simp: ev_sync_def FEvent_new_def split: if_splits)
qed

theorem interest_follows_event_witness:
  "omap_find (m_pollEvents (fst (foldl (\<lambda>le x. apply_event_op x le) (\<lparr>m_pollEvents = [(5, 0)], ctl_log = []\<rparr>, FEvent_new 4 9)
     [Op_init, Op_enableReading, Op_remove]))) 9 = None"
proof -
  let ?l = "\<lparr>m_pollEvents = [(5 :: u64, 0 :: u32)], ctl_log = []\<rparr>"
  obtain l' e' where r: "foldl (\<lambda>le x. apply_event_op x le) (?l, FEvent_new 4 9) [Op_init, Op_enableReading, Op_remove] = (l', e')"
    by fastforce
  have "omap_wf (m_pollEvents ?l)" "omap_find (m_pollEvents ?l) 9 = None" by (simp_all add: omap_wf_def)
  from interest_follows_event [OF this r] have "mAddedToLoop e' \<or> omap_find (m_pollEvents l') 9 = None" by (auto split: if_splits)
  moreover have "\<not> mAddedToLoop (snd (apply_event_op Op_remove le))" for le
    by (cases le) (simp add: ev_remove_def)
  then have "\<not> mAddedToLoop e'" using arg_cong [OF r, of snd] by (metis foldl_Cons foldl_Nil snd_conv)
  ultimately show ?thesis using r by simp
qed

text \<open>
  A callback that takes the event out of the loop is the last one of the turn: when the close
  callback of a hung-up connection removes the event, neither its error, read, write nor timer
  callback runs.
\<close>
theorem close_is_last:
  assumes "added s" "cb CB_Close = Some f" "\<not> added (f s)"
    "revents AND flag Hup \<noteq> 0" "revents AND flag In = 0"
  shows "handleEvent added cb revents s = (f s, [CB_Close])"
  using assms by (simp add: handleEvent_def run_callback_def split: option.split)

theorem close_is_last_witness:
  "handleEvent (\<lambda>s. s) (\<lambda>k. Some (\<lambda>s. k \<noteq> CB_Close)) (flag Hup OR flag Out) True = (False, [CB_Close])"
proof -
  have "(flag Hup OR flag Out) AND flag Hup \<noteq> 0" "(flag Hup OR flag Out) AND flag In = 0"
    by (simp_all add: flag_def)
  then show ?thesis
    using close_is_last [of "\<lambda>s. s" True "\<lambda>k. Some (\<lambda>s. k \<noteq> CB_Close)" "\<lambda>s. False" "flag Hup OR flag Out"]
    by (simp add: fun_eq_iff)
qed

end
