(* ===== verification/FLogger.thy ===== *)
theory FLogger
  imports FConfig
begin

text \<open>
  The logger (\<open>FeiLib/src/FLogger.cpp\<close>, \<open>FLogger.h\<close>) and its configuration at start-up
  (\<open>FeiLib/src/FeiLibIniter.cpp\<close>). Writing the text is spdlog's; what matters to the program is that a
  message of level \<open>critical\<close> that is not filtered ends the process. The components that report such
  a message take the logger as an argument.
\<close>

section \<open>Levels\<close>

datatype lvl = Lvl_trace | Lvl_debug | Lvl_info | Lvl_warn | Lvl_err | Lvl_critical | Lvl_off | Lvl_n_levels

primrec lvl_int :: "lvl \<Rightarrow> nat" where
  "lvl_int Lvl_trace = 0"
| "lvl_int Lvl_debug = 1"
| "lvl_int Lvl_info = 2"
| "lvl_int Lvl_warn = 3"
| "lvl_int Lvl_err = 4"
| "lvl_int Lvl_critical = 5"
| "lvl_int Lvl_off = 6"
| "lvl_int Lvl_n_levels = 7"

lemma lvl_int_inject: "lvl_int a = lvl_int b \<Longrightarrow> a = b"
  by (cases a; cases b) simp_all

text \<open>The order of the levels is that of their numbers.\<close>

instantiation lvl :: linorder
begin

definition less_eq_lvl :: "lvl \<Rightarrow> lvl \<Rightarrow> bool" where
  "less_eq_lvl a b \<longleftrightarrow> lvl_int a \<le> lvl_int b"

definition less_lvl :: "lvl \<Rightarrow> lvl \<Rightarrow> bool" where
  "less_lvl a b \<longleftrightarrow> lvl_int a < lvl_int b"

instance
  by standard (auto simp: less_eq_lvl_def less_lvl_def dest: lvl_int_inject)

end

section \<open>The logger\<close>

record logger_config =
  saveFileName :: string
  flushTime :: u32
  showLvl :: lvl
  saveLvl :: lvl

definition LoggerConfig_default :: logger_config where
  "LoggerConfig_default = \<lparr>saveFileName = ''log.txt'', flushTime = 3000, showLvl = Lvl_info, saveLvl = Lvl_info\<rparr>"

text \<open>The levels at which the console and the file logger of spdlog write are kept for the record.\<close>

record logger =
  mShowLvl :: lvl
  console_level :: lvl
  file_level :: lvl

definition Logger_new :: "logger_config \<Rightarrow> logger" where
  "Logger_new config =
     \<lparr>mShowLvl = min (showLvl config) (saveLvl config), console_level = showLvl config, file_level = saveLvl config\<rparr>"

definition shouldShow :: "logger \<Rightarrow> lvl \<Rightarrow> bool" where
  "shouldShow lg l \<longleftrightarrow> mShowLvl lg \<le> l"

text \<open>What \<open>log\<close> does: nothing, hand the message to both loggers of spdlog (and flush the file), or that and
  \<open>std::abort\<close>.\<close>

datatype log_effect = Log_nothing | Log_passed bool | Log_abort

fun logInner :: "lvl \<Rightarrow> log_effect" where
  "logInner Lvl_trace = Log_passed False"
| "logInner Lvl_debug = Log_passed False"
| "logInner Lvl_info = Log_passed False"
| "logInner Lvl_warn = Log_passed False"
| "logInner Lvl_critical = Log_abort"
| "logInner Lvl_err = Log_passed True"
| "logInner Lvl_off = Log_nothing"
| "logInner Lvl_n_levels = Log_nothing"

definition log_msg :: "logger \<Rightarrow> lvl \<Rightarrow> log_effect" where
  "log_msg lg l = (if \<not> shouldShow lg l then Log_nothing else logInner l)"

abbreviation critical_aborts :: "logger \<Rightarrow> bool" where
  "critical_aborts lg \<equiv> log_msg lg Lvl_critical = Log_abort"

section \<open>Start-up\<close>

definition getLvl :: "string \<Rightarrow> lvl" where
  "getLvl level =
     (if level = ''trace'' then Lvl_trace
      else if level = ''debug'' then Lvl_debug
      else if level = ''info'' then Lvl_info
      else if level = ''warn'' then Lvl_warn
      else if level = ''err'' then Lvl_err
      else if level = ''critical'' then Lvl_critical
      else if level = ''off'' then Lvl_off
      else Lvl_n_levels)"

definition level_or_info :: "string \<Rightarrow> lvl" where
  "level_or_info s = (let l = getLvl s in if l = Lvl_n_levels then Lvl_info else l)"

text \<open>\<open>flush\<close> is \<open>(unsigned int) std::min(std::stof(s), 1000.f)\<close>, or the exception of \<open>std::stof\<close>.\<close>

definition setLoggerConfigByConfig :: "(string \<Rightarrow> std_error + u32) \<Rightarrow> cfg_reader \<Rightarrow> logger_config \<Rightarrow>
    std_error + logger_config" where
  "setLoggerConfigByConfig flush configger cfg =
     (let c1 = (case fst (getCfg configger ''LogShowLevel'') of None \<Rightarrow> cfg | Some v \<Rightarrow> cfg\<lparr>showLvl := level_or_info v\<rparr>);
          c2 = (case fst (getCfg configger ''LogSaveLevel'') of None \<Rightarrow> c1 | Some v \<Rightarrow> c1\<lparr>saveLvl := level_or_info v\<rparr>);
          c3 = (case fst (getCfg configger ''LogFile'') of None \<Rightarrow> c2 | Some v \<Rightarrow> c2\<lparr>saveFileName := v\<rparr>)
      in case fst (getCfg configger ''LogFlushTime'') of
           None \<Rightarrow> Inr c3
         | Some v \<Rightarrow> (case flush v of Inl e \<Rightarrow> Inl e | Inr t \<Rightarrow> Inr (c3\<lparr>flushTime := t\<rparr>)))"

text \<open>\<open>FeiLibInit\<close> reads the configuration file and makes the logger; unlike the default of the structure,
  it shows everything.\<close>

definition FeiLibInit :: "(string \<Rightarrow> std_error + u32) \<Rightarrow> string option \<Rightarrow> std_error + logger \<times> cfg_reader" where
  "FeiLibInit flush content =
     (let configger = FConfigReader content
      in case setLoggerConfigByConfig flush configger (LoggerConfig_default\<lparr>showLvl := Lvl_trace\<rparr>) of
           Inl e \<Rightarrow> Inl e
         | Inr config \<Rightarrow> Inr (Logger_new config, configger))"

section \<open>Lemmas\<close>

lemma critical_aborts_iff: "critical_aborts lg \<longleftrightarrow> lvl_int (mShowLvl lg) \<le> 5"
  by (simp add: log_msg_def shouldShow_def less_eq_lvl_def)

lemma level_or_info_range: "lvl_int (level_or_info s) \<le> 6" "level_or_info s = Lvl_off \<longleftrightarrow> s = ''off''"
  by (simp_all add: level_or_info_def getLvl_def Let_def)

lemma lvl_above_critical: "lvl_int l \<le> 6 \<Longrightarrow> 5 < lvl_int l \<longleftrightarrow> l = Lvl_off"
  by (cases l) simp_all

lemma lvl_min: "lvl_int (min a b) = min (lvl_int a) (lvl_int b)"
  by (simp add: min_def less_eq_lvl_def)

section \<open>Properties\<close>

text \<open>
  A critical message ends the process, unless the configuration turns both the console and the
  file off: for every other pair of levels, and for levels that are not named or not known, the
  program aborts at the first such message.
\<close>
theorem critical_message_aborts:
  assumes "FeiLibInit flush content = Inr (lg, cfg)"
  shows "critical_aborts lg \<longleftrightarrow>
     \<not> (omap_find (mCfgMap cfg) ''LogShowLevel'' = Some ''off'' \<and> omap_find (mCfgMap cfg) ''LogSaveLevel'' = Some ''off'')"
proof -
  let ?r = "FConfigReader content"
  define s where "s = (case fst (getCfg ?r ''LogShowLevel'') of None \<Rightarrow> Lvl_trace | Some v \<Rightarrow> level_or_info v)"
  define f where "f = (case fst (getCfg ?r ''LogSaveLevel'') of None \<Rightarrow> Lvl_info | Some v \<Rightarrow> level_or_info v)"
  have lg: "mShowLvl lg = min s f" "cfg = ?r"
    using assms
    by (auto simp: FeiLibInit_def setLoggerConfigByConfig_def Let_def LoggerConfig_default_def Logger_new_def s_def f_def
        split: option.splits sum.splits)
  have "lvl_int s \<le> 6" "lvl_int f \<le> 6"
    using level_or_info_range(1) by (auto simp: s_def f_def split: option.split)
  moreover have "s = Lvl_off \<longleftrightarrow> fst (getCfg ?r ''LogShowLevel'') = Some ''off''"
    "f = Lvl_off \<longleftrightarrow> fst (getCfg ?r ''LogSaveLevel'') = Some ''off''"
    using level_or_info_range(2) by (auto simp: s_def f_def split: option.split)
  ultimately show ?thesis
    using lvl_above_critical [of s] lvl_above_critical [of f]
    by (auto simp: critical_aborts_iff lg lvl_min getCfg_def)
qed

theorem critical_message_aborts_witness:
  "\<exists>lg cfg. FeiLibInit (\<lambda>_. Inr 0) None = Inr (lg, cfg) \<and> critical_aborts lg"
proof -
  have "FeiLibInit (\<lambda>_. Inr 0) None = Inr (Logger_new (LoggerConfig_default\<lparr>showLvl := Lvl_trace\<rparr>), FConfigReader None)"
    by code_simp
  moreover have "omap_find (mCfgMap (FConfigReader None)) ''LogShowLevel'' = None" by code_simp
  ultimately show ?thesis using critical_message_aborts [of "\<lambda>_. Inr 0" None] by auto
qed

end
