(* ===== verification/FSocket.thy ===== *)
theory FSocket
  imports FEvents FLogger
begin

text \<open>
  Sockets: the wrappers of the system calls (\<open>FeiLib/src/FSocket.cpp\<close>, POSIX branches), the owner of a
  descriptor (\<open>FeiLib/src/FSockWrapper.cpp\<close>) and the acceptor (\<open>FeiLib/src/FAcceptor.cpp\<close>). The kernel is
  the argument: a record of the calls as functions on its state \<open>'k\<close>, each with the value it returns.
\<close>

type_synonym u16 = "16 word"

section \<open>The system calls\<close>

datatype sock_type = SOCK_STREAM | SOCK_DGRAM | Sock_type_0
datatype sock_prot = IPPROTO_TCP | IPPROTO_UDP | Sock_prot_0
datatype opt_level = SOL_SOCKET | SOL_TCP
datatype opt_name = SO_REUSEADDR | SO_REUSEPORT | SO_KEEPALIVE | SO_RCVTIMEO | SO_SNDTIMEO | TCP_KEEPINTVL | TCP_KEEPIDLE
datatype opt_value = Opt_int int | Opt_timeval int int
datatype recv_flags = Recv_0 | MSG_PEEK | MSG_WAITALL | MSG_DONTWAIT
datatype shut_how = SHUT_RD | SHUT_WR | SHUT_RDWR

record 'k kernel =
  k_socket :: "sock_type \<Rightarrow> sock_prot \<Rightarrow> 'k \<Rightarrow> int \<times> 'k"
  k_setsockopt :: "int \<Rightarrow> opt_level \<Rightarrow> opt_name \<Rightarrow> opt_value \<Rightarrow> 'k \<Rightarrow> int \<times> 'k"
  k_getfl :: "int \<Rightarrow> 'k \<Rightarrow> i32 \<times> 'k"
  k_setfl :: "int \<Rightarrow> i32 \<Rightarrow> 'k \<Rightarrow> int \<times> 'k"
  k_bind :: "int \<Rightarrow> u32 \<Rightarrow> u16 \<Rightarrow> 'k \<Rightarrow> int \<times> 'k"
  k_listen :: "int \<Rightarrow> int \<Rightarrow> 'k \<Rightarrow> int \<times> 'k"
  k_accept :: "int \<Rightarrow> 'k \<Rightarrow> (int \<times> u32 \<times> u16) \<times> 'k"
  k_connect :: "int \<Rightarrow> u32 \<Rightarrow> u16 \<Rightarrow> 'k \<Rightarrow> int \<times> 'k"
  k_send :: "int \<Rightarrow> string \<Rightarrow> 'k \<Rightarrow> int \<times> 'k"
  k_recv :: "int \<Rightarrow> int \<Rightarrow> recv_flags \<Rightarrow> 'k \<Rightarrow> (int \<times> string) \<times> 'k"
  k_shutdown :: "int \<Rightarrow> shut_how \<Rightarrow> 'k \<Rightarrow> 'k"
  k_close :: "int \<Rightarrow> 'k \<Rightarrow> int \<times> 'k"

section \<open>The wrappers\<close>

datatype SocketStatus = Success | Fail | CreateFailed | BindFailed | ListenFailed | AcceptFailed | ConnectFailed
  | SendFailed_status | RecvFailed | CloseFailed

fun StatusToStr :: "SocketStatus \<Rightarrow> string" where
  "StatusToStr Success = ''Success''"
| "StatusToStr Fail = ''Fail''"
| "StatusToStr CreateFailed = ''CreateFailed''"
| "StatusToStr BindFailed = ''BindFailed''"
| "StatusToStr ListenFailed = ''ListenFailed''"
| "StatusToStr AcceptFailed = ''AcceptFailed''"
| "StatusToStr ConnectFailed = ''ConnectFailed''"
| "StatusToStr SendFailed_status = ''SendFailed''"
| "StatusToStr RecvFailed = ''RecvFailed''"
| "StatusToStr CloseFailed = ''CloseFailed''"

datatype RecvFlag = RF_None | RF_Peek | RF_WaitAll | RF_DontWait

fun recvFlagToPlatfromSpec :: "RecvFlag \<Rightarrow> recv_flags" where
  "recvFlagToPlatfromSpec RF_None = Recv_0"
| "recvFlagToPlatfromSpec RF_Peek = MSG_PEEK"
| "recvFlagToPlatfromSpec RF_WaitAll = MSG_WAITALL"
| "recvFlagToPlatfromSpec RF_DontWait = MSG_DONTWAIT"

text \<open>Addresses hold the port in network order; on a little-endian machine \<open>htons\<close> and \<open>ntohs\<close> swap the
  bytes. \<open>inet_addr\<close> is the library's.\<close>

definition htons :: "u16 \<Rightarrow> u16" where
  "htons w = or (push_bit 8 w) (drop_bit 8 w)"

record FSocketAddr =
  un_addr :: u32
  sa_port :: u16

definition FSocketAddr_new :: "(string \<Rightarrow> u32) \<Rightarrow> string \<Rightarrow> u16 \<Rightarrow> FSocketAddr" where
  "FSocketAddr_new inet_addr ip port = \<lparr>un_addr = inet_addr ip, sa_port = htons port\<rparr>"

definition getPort :: "FSocketAddr \<Rightarrow> u16" where
  "getPort a = htons (sa_port a)"

definition status_of :: "int \<Rightarrow> SocketStatus \<Rightarrow> SocketStatus" where
  "status_of ret failed = (if ret = -1 then failed else Success)"

definition Create :: "'k kernel \<Rightarrow> 'k \<Rightarrow> SocketStatus \<times> int \<times> 'k" where
  "Create K k = (let (s, k1) = k_socket K SOCK_STREAM Sock_prot_0 k in (status_of s CreateFailed, s, k1))"

text \<open>The values of the enumerations \<open>SocketType\<close> and \<open>SocketProt\<close>.\<close>

definition Stream_type :: int where "Stream_type = 0"
definition Dgram_type :: int where "Dgram_type = 1"
definition TCP_prot :: int where "TCP_prot = 0"
definition UDP_prot :: int where "UDP_prot = 1"

definition Create_type :: "'k kernel \<Rightarrow> int \<Rightarrow> int \<Rightarrow> 'k \<Rightarrow> SocketStatus \<times> int \<times> 'k" where
  "Create_type K type protocal k =
     (let t = (if type = Dgram_type then SOCK_DGRAM else if type = Stream_type then SOCK_STREAM else Sock_type_0);
          p = (if protocal = TCP_prot then IPPROTO_TCP else if protocal = UDP_prot then IPPROTO_UDP else Sock_prot_0);
          (s, k1) = k_socket K t p k
      in (status_of s CreateFailed, s, k1))"

definition Bind :: "'k kernel \<Rightarrow> int \<Rightarrow> FSocketAddr \<Rightarrow> 'k \<Rightarrow> SocketStatus \<times> 'k" where
  "Bind K s addr k = (let (ret, k1) = k_bind K s (un_addr addr) (sa_port addr) k in (status_of ret BindFailed, k1))"

definition Listen :: "'k kernel \<Rightarrow> int \<Rightarrow> int \<Rightarrow> 'k \<Rightarrow> SocketStatus \<times> 'k" where
  "Listen K s backlog k = (let (ret, k1) = k_listen K s backlog k in (status_of ret ListenFailed, k1))"

definition Accept :: "'k kernel \<Rightarrow> int \<Rightarrow> 'k \<Rightarrow> SocketStatus \<times> int \<times> FSocketAddr \<times> 'k" where
  "Accept K lsock k =
     (let ((client, a, p), k1) = k_accept K lsock k
      in (status_of client AcceptFailed, client, \<lparr>un_addr = a, sa_port = p\<rparr>, k1))"

definition Connect :: "'k kernel \<Rightarrow> int \<Rightarrow> FSocketAddr \<Rightarrow> 'k \<Rightarrow> SocketStatus \<times> 'k" where
  "Connect K s addr k = (let (ret, k1) = k_connect K s (un_addr addr) (sa_port addr) k in (status_of ret ConnectFailed, k1))"

text \<open>The length a call reports goes to the caller also when it is -1.\<close>

definition Send_sock :: "'k kernel \<Rightarrow> int \<Rightarrow> string \<Rightarrow> 'k \<Rightarrow> SocketStatus \<times> int \<times> 'k" where
  "Send_sock K s data k = (let (ret, k1) = k_send K s data k in (status_of ret SendFailed_status, ret, k1))"

definition Recv_sock :: "'k kernel \<Rightarrow> int \<Rightarrow> int \<Rightarrow> RecvFlag \<Rightarrow> 'k \<Rightarrow> SocketStatus \<times> int \<times> string \<times> 'k" where
  "Recv_sock K s len rf k =
     (let ((ret, data), k1) = k_recv K s len (recvFlagToPlatfromSpec rf) k
      in (status_of ret RecvFailed, ret, data, k1))"

definition ShutDown :: "'k kernel \<Rightarrow> int \<Rightarrow> bool \<Rightarrow> bool \<Rightarrow> 'k \<Rightarrow> 'k" where
  "ShutDown K s shutWr shutRd k =
     (if shutRd \<and> shutWr then k_shutdown K s SHUT_RDWR k
      else if shutWr then k_shutdown K s SHUT_WR k
      else if shutRd then k_shutdown K s SHUT_RD k
      else k)"

definition Close :: "'k kernel \<Rightarrow> int \<Rightarrow> 'k \<Rightarrow> SocketStatus \<times> 'k" where
  "Close K s k = (let (ret, k1) = k_close K s k in (status_of ret CloseFailed, k1))"

section \<open>Options\<close>

datatype SockOpt = ReusePort | ReuseAddr | KeepAlive | KeepIntvl | KeepIdle | NoneBlock | CloseOnExec
  | SendTimeOut | ReadTimeOut | NoneBlockAndCloseOnExec

definition O_NONBLOCK :: i32 where "O_NONBLOCK = 0x800"
definition FD_CLOEXEC :: i32 where "FD_CLOEXEC = 1"

text \<open>The overload for numbers.\<close>

definition SetSockOpt_int :: "'k kernel \<Rightarrow> int \<Rightarrow> SockOpt \<Rightarrow> int \<Rightarrow> 'k \<Rightarrow> int \<times> 'k" where
  "SetSockOpt_int K s opt v k =
     (case opt of
        KeepIntvl \<Rightarrow> k_setsockopt K s SOL_TCP TCP_KEEPINTVL (Opt_int v) k
      | KeepIdle \<Rightarrow> k_setsockopt K s SOL_TCP TCP_KEEPIDLE (Opt_int v) k
      | ReadTimeOut \<Rightarrow> k_setsockopt K s SOL_SOCKET SO_RCVTIMEO (Opt_timeval v 0) k
      | SendTimeOut \<Rightarrow> k_setsockopt K s SOL_SOCKET SO_SNDTIMEO (Opt_timeval v 0) k
      | _ \<Rightarrow> (-1, k))"

text \<open>Flags of the descriptor are read, extended and written with the status-flag commands.\<close>

definition add_flags :: "'k kernel \<Rightarrow> int \<Rightarrow> i32 \<Rightarrow> 'k \<Rightarrow> int \<times> 'k" where
  "add_flags K s bits k = (let (flags, k1) = k_getfl K s k in k_setfl K s (or flags bits) k1)"

definition bool_option :: "SockOpt \<Rightarrow> opt_name option" where
  "bool_option opt =
     (case opt of ReuseAddr \<Rightarrow> Some SO_REUSEADDR | ReusePort \<Rightarrow> Some SO_REUSEPORT | KeepAlive \<Rightarrow> Some SO_KEEPALIVE
      | _ \<Rightarrow> None)"

text \<open>The overload for switches; \<open>on\<close> does not matter for the last three options.\<close>

definition SetSockOpt_bool :: "'k kernel \<Rightarrow> int \<Rightarrow> SockOpt \<Rightarrow> bool \<Rightarrow> 'k \<Rightarrow> int \<times> 'k" where
  "SetSockOpt_bool K s opt on k =
     (case bool_option opt of
        Some name \<Rightarrow> k_setsockopt K s SOL_SOCKET name (Opt_int (if on then 1 else 0)) k
      | None \<Rightarrow>
          if opt = NoneBlock then add_flags K s O_NONBLOCK k
          else if opt = CloseOnExec then add_flags K s FD_CLOEXEC k
          else if opt = NoneBlockAndCloseOnExec
          then (let (_, k1) = add_flags K s O_NONBLOCK k in add_flags K s FD_CLOEXEC k1)
          else (-1, k))"

section \<open>The owner of a descriptor\<close>

text \<open>A default-constructed object holds whatever was in its memory, the argument.\<close>

record fsock =
  m_fd :: int
  valid :: bool

definition FSock_default :: "int \<Rightarrow> fsock" where
  "FSock_default garbage = \<lparr>m_fd = garbage, valid = False\<rparr>"

definition FSock_of :: "int \<Rightarrow> fsock" where
  "FSock_of s = \<lparr>m_fd = s, valid = True\<rparr>"

text \<open>Move construction and move assignment (of another object): the results are the object and the one
  moved from.\<close>

definition FSock_move :: "fsock \<Rightarrow> fsock \<times> fsock" where
  "FSock_move rhs = (\<lparr>m_fd = m_fd rhs, valid = True\<rparr>, rhs\<lparr>valid := False\<rparr>)"

definition FSock_assign :: "fsock \<Rightarrow> fsock \<Rightarrow> fsock \<times> fsock" where
  "FSock_assign lhs rhs = (lhs\<lparr>m_fd := m_fd rhs, valid := True\<rparr>, rhs\<lparr>valid := False\<rparr>)"

definition FSock_destroy :: "'k kernel \<Rightarrow> fsock \<Rightarrow> 'k \<Rightarrow> fsock \<times> 'k" where
  "FSock_destroy K f k = (if valid f then (f\<lparr>valid := False\<rparr>, snd (Close K (m_fd f) k)) else (f, k))"

definition setReuseAddr :: "'k kernel \<Rightarrow> fsock \<Rightarrow> bool \<Rightarrow> 'k \<Rightarrow> 'k" where
  "setReuseAddr K f on k = (if valid f then snd (SetSockOpt_bool K (m_fd f) ReuseAddr on k) else k)"

definition setReuseport :: "'k kernel \<Rightarrow> fsock \<Rightarrow> bool \<Rightarrow> 'k \<Rightarrow> 'k" where
  "setReuseport K f on k = (if valid f then snd (SetSockOpt_bool K (m_fd f) ReusePort on k) else k)"

text \<open>The call stands inside an \<open>assert\<close>: with \<open>NDEBUG\<close> it is not made. The boolean is whether the
  assertion holds.\<close>

definition setNoneBlock :: "bool \<Rightarrow> 'k kernel \<Rightarrow> fsock \<Rightarrow> bool \<Rightarrow> 'k \<Rightarrow> bool \<times> 'k" where
  "setNoneBlock ndebug K f on k =
     (if valid f \<and> \<not> ndebug
      then (let (ret, k1) = SetSockOpt_bool K (m_fd f) NoneBlock on k in (0 \<le> ret, k1))
      else (True, k))"

definition setExitOnExec :: "'k kernel \<Rightarrow> fsock \<Rightarrow> bool \<Rightarrow> 'k \<Rightarrow> 'k" where
  "setExitOnExec K f on k = (if valid f then snd (SetSockOpt_bool K (m_fd f) CloseOnExec on k) else k)"

definition setKeepAlive :: "'k kernel \<Rightarrow> fsock \<Rightarrow> bool \<Rightarrow> 'k \<Rightarrow> 'k" where
  "setKeepAlive K f on k = (if valid f then snd (SetSockOpt_bool K (m_fd f) KeepAlive on k) else k)"

text \<open>\<open>setKeepIdle\<close> names the option \<open>KeepAlive\<close> in the overload for numbers.\<close>

definition setKeepIdle :: "'k kernel \<Rightarrow> fsock \<Rightarrow> int \<Rightarrow> 'k \<Rightarrow> 'k" where
  "setKeepIdle K f time k = (if valid f then snd (SetSockOpt_int K (m_fd f) KeepAlive time k) else k)"

definition setKeepInterval :: "'k kernel \<Rightarrow> fsock \<Rightarrow> int \<Rightarrow> 'k \<Rightarrow> 'k" where
  "setKeepInterval K f time k = (if valid f then snd (SetSockOpt_int K (m_fd f) KeepIntvl time k) else k)"

section \<open>The acceptor\<close>

text \<open>The operations on the acceptor's event are kept as a list (\<open>apply_event_op\<close> performs them).\<close>

record acceptor =
  ac_sock :: fsock
  ac_event :: "event_op list"
  ac_addr :: FSocketAddr
  ac_listenAddr :: string
  ac_listenPort :: u32

datatype acceptor_failure = Process_aborted | Assertion_failed

text \<open>The constructor; \<open>m_addr\<close> takes the port as 16 bits, \<open>m_listenPort\<close> as 32. A call that fails is
  logged as critical, which aborts unless the logger is off; the status of \<open>Bind\<close> is then overwritten by
  that of \<open>Listen\<close>, and only the latter is asserted.\<close>

definition FAcceptor_new :: "bool \<Rightarrow> logger \<Rightarrow> 'k kernel \<Rightarrow> (string \<Rightarrow> u32) \<Rightarrow> int \<Rightarrow> string \<Rightarrow> i32 \<Rightarrow> bool \<Rightarrow> 'k \<Rightarrow>
    (acceptor_failure + acceptor) \<times> 'k" where
  "FAcceptor_new ndebug lg K inet_addr garbage listenAddr port reusePort k =
     (let (status, socket, k1) = Create_type K Stream_type TCP_prot k
      in if status \<noteq> Success \<and> critical_aborts lg then (Inl Process_aborted, k1)
         else if \<not> ndebug \<and> status \<noteq> Success then (Inl Assertion_failed, k1)
         else (let (sock, moved) = FSock_assign (FSock_default garbage) (FSock_of socket);
                   k2 = snd (FSock_destroy K moved k1);
                   k3 = setReuseport K sock reusePort k2;
                   k4 = setReuseAddr K sock reusePort k3;
                   (holds, k5) = setNoneBlock ndebug K sock True k4
               in if \<not> holds then (Inl Assertion_failed, k5)
                  else (let k6 = setExitOnExec K sock True k5;
                            addr = FSocketAddr_new inet_addr listenAddr (ucast port);
                            (status1, k7) = Bind K (m_fd sock) addr k6
                        in if status1 \<noteq> Success \<and> critical_aborts lg then (Inl Process_aborted, k7)
                           else (let (status2, k8) = Listen K (m_fd sock) 1024 k7
                                 in if status2 \<noteq> Success \<and> critical_aborts lg then (Inl Process_aborted, k8)
                                    else if \<not> ndebug \<and> status2 \<noteq> Success then (Inl Assertion_failed, k8)
                                    else (Inr \<lparr>ac_sock = sock, ac_event = [Op_init, Op_enableReading], ac_addr = addr,
                                            ac_listenAddr = listenAddr, ac_listenPort = port\<rparr>, k8)))))"

text \<open>The connection that is handed to the callback: its socket, its address and that of the listener.\<close>

definition acceptor_handleRead :: "'k kernel \<Rightarrow> acceptor \<Rightarrow> bool \<Rightarrow> 'k \<Rightarrow> (int \<times> FSocketAddr \<times> FSocketAddr) option \<times> 'k" where
  "acceptor_handleRead K a hasCallback k =
     (let (status, socket, addrNew, k1) = Accept K (m_fd (ac_sock a)) k
      in if status = Success
         then (if hasCallback then (Some (socket, addrNew, ac_addr a), k1) else (None, snd (Close K socket k1)))
         else (None, k1))"

definition FAcceptor_destroy :: "'k kernel \<Rightarrow> acceptor \<Rightarrow> 'k \<Rightarrow> acceptor \<times> 'k" where
  "FAcceptor_destroy K a k =
     (let (f, k1) = FSock_destroy K (ac_sock a) k in (a\<lparr>ac_event := ac_event a @ [Op_remove], ac_sock := f\<rparr>, k1))"

text \<open>What \<open>FTcpServer::onNewConnIn\<close> does to the socket of a new connection.\<close>

definition conn_sock_setup :: "'k kernel \<Rightarrow> int \<Rightarrow> fsock \<Rightarrow> 'k \<Rightarrow> 'k" where
  "conn_sock_setup K mSocketKeepAlive f k =
     (if 0 < mSocketKeepAlive then setKeepIdle K f mSocketKeepAlive (setKeepAlive K f True k) else k)"

section \<open>Name resolution\<close>

text \<open>\<open>gai\<close> is \<open>getaddrinfo\<close> (None for a failure), \<open>gni\<close> the numeric texts of \<open>getnameinfo\<close>, \<open>stoi\<close> the
  library's.\<close>

definition ResolveHost :: "(string \<Rightarrow> string \<Rightarrow> 'a list option) \<Rightarrow> ('a \<Rightarrow> (string \<times> string) option) \<Rightarrow>
    (string \<Rightarrow> int) \<Rightarrow> (string \<Rightarrow> u32) \<Rightarrow> string \<Rightarrow> string \<Rightarrow> FSocketAddr list \<Rightarrow> bool \<times> FSocketAddr list" where
  "ResolveHost gai gni stoi inet_addr hostname service addr =
     (case gai hostname service of
        None \<Rightarrow> (False, addr)
      | Some result \<Rightarrow>
          (True, addr @ concat (map (\<lambda>ptr. case gni ptr of
                                             None \<Rightarrow> []
                                           | Some (ipstr, portstr) \<Rightarrow>
                                               [FSocketAddr_new inet_addr ipstr (word_of_int (stoi portstr))]) result)))"

definition ResolveHost_port :: "(string \<Rightarrow> string \<Rightarrow> 'a list option) \<Rightarrow> ('a \<Rightarrow> (string \<times> string) option) \<Rightarrow>
    (string \<Rightarrow> int) \<Rightarrow> (string \<Rightarrow> u32) \<Rightarrow> string \<Rightarrow> u16 \<Rightarrow> FSocketAddr list \<Rightarrow> bool \<times> FSocketAddr list" where
  "ResolveHost_port gai gni stoi inet_addr hostname port addr =
     ResolveHost gai gni stoi inet_addr hostname (to_string (unat port)) addr"

section \<open>Lemmas\<close>

lemma htons_htons [simp]: "htons (htons w) = w"
proof (rule bit_word_eqI)
  fix n assume "n < LENGTH(16)"
  then show "bit (htons (htons w)) n = bit w n"
    by (auto simp: htons_def bit_or_iff bit_push_bit_iff bit_drop_bit_eq)
qed

lemma Create_tcp [simp]:
  "Create_type K Stream_type TCP_prot k =
    (let (s, k1) = k_socket K SOCK_STREAM IPPROTO_TCP k in (status_of s CreateFailed, s, k1))"
  by (simp add: Create_type_def Stream_type_def Dgram_type_def TCP_prot_def)

lemma getPort_new [simp]: "getPort (FSocketAddr_new inet_addr ip port) = port"
  by (simp add: getPort_def FSocketAddr_new_def)

text \<open>What POSIX and Linux document of the calls: \<open>nb\<close> and \<open>ce\<close> are a descriptor's non-blocking and
  close-on-exec flags. New descriptors have neither, F_SETFL sets the first from the status flags and
  cannot change the second (F_SETFD would), the other calls change neither.\<close>

definition fd_laws :: "'k kernel \<Rightarrow> ('k \<Rightarrow> int \<Rightarrow> bool) \<Rightarrow> ('k \<Rightarrow> int \<Rightarrow> bool) \<Rightarrow> bool" where
  "fd_laws K nb ce \<longleftrightarrow>
     (\<forall>t p k s k'. k_socket K t p k = (s, k') \<longrightarrow> \<not> nb k' s \<and> \<not> ce k' s)
   \<and> (\<forall>s k c a p k'. k_accept K s k = ((c, a, p), k') \<longrightarrow> \<not> nb k' c \<and> \<not> ce k' c)
   \<and> (\<forall>s l n v k r k'. k_setsockopt K s l n v k = (r, k') \<longrightarrow> nb k' = nb k \<and> ce k' = ce k)
   \<and> (\<forall>s k f k'. k_getfl K s k = (f, k') \<longrightarrow> nb k' = nb k \<and> ce k' = ce k
        \<and> (f \<noteq> -1 \<longrightarrow> (bit f 11 \<longleftrightarrow> nb k s)) \<and> (f = -1 \<longrightarrow> (\<forall>g. fst (k_setfl K s g k') < 0)))
   \<and> (\<forall>s f k r k'. k_setfl K s f k = (r, k') \<longrightarrow> ce k' = ce k
        \<and> (if 0 \<le> r then nb k' s = bit f 11 else nb k' = nb k))
   \<and> (\<forall>s a p k r k'. k_bind K s a p k = (r, k') \<longrightarrow> nb k' = nb k \<and> ce k' = ce k)
   \<and> (\<forall>s n k r k'. k_listen K s n k = (r, k') \<longrightarrow> nb k' = nb k \<and> ce k' = ce k)"

lemma fd_lawsD:
  assumes "fd_laws K nb ce"
  shows "k_socket K t p k = (s, k') \<Longrightarrow> \<not> nb k' s \<and> \<not> ce k' s"
    "k_accept K s k = ((c, a, q), k') \<Longrightarrow> \<not> nb k' c \<and> \<not> ce k' c"
    "k_setsockopt K s l n v k = (r, k') \<Longrightarrow> nb k' = nb k \<and> ce k' = ce k"
    "k_getfl K s k = (f, k') \<Longrightarrow> nb k' = nb k \<and> ce k' = ce k
        \<and> (f \<noteq> -1 \<longrightarrow> (bit f 11 \<longleftrightarrow> nb k s)) \<and> (f = -1 \<longrightarrow> (\<forall>g. fst (k_setfl K s g k') < 0))"
    "k_setfl K s f k = (r, k') \<Longrightarrow> ce k' = ce k \<and> (if 0 \<le> r then nb k' s = bit f 11 else nb k' = nb k)"
    "k_bind K s x q k = (r, k') \<Longrightarrow> nb k' = nb k \<and> ce k' = ce k"
    "k_listen K s m k = (r, k') \<Longrightarrow> nb k' = nb k \<and> ce k' = ce k"
proof -
  note L = assms [unfolded fd_laws_def]
  note L2 = conjunct2 [OF L] note L3 = conjunct2 [OF L2] note L4 = conjunct2 [OF L3]
  note L5 = conjunct2 [OF L4] note L6 = conjunct2 [OF L5]
  show "k_socket K t p k = (s, k') \<Longrightarrow> \<not> nb k' s \<and> \<not> ce k' s" by (rule conjunct1 [OF L, rule_format])
  show "k_accept K s k = ((c, a, q), k') \<Longrightarrow> \<not> nb k' c \<and> \<not> ce k' c" by (rule conjunct1 [OF L2, rule_format])
  show "k_setsockopt K s l n v k = (r, k') \<Longrightarrow> nb k' = nb k \<and> ce k' = ce k" by (rule conjunct1 [OF L3, rule_format])
  show "k_getfl K s k = (f, k') \<Longrightarrow> nb k' = nb k \<and> ce k' = ce k
        \<and> (f \<noteq> -1 \<longrightarrow> (bit f 11 \<longleftrightarrow> nb k s)) \<and> (f = -1 \<longrightarrow> (\<forall>g. fst (k_setfl K s g k') < 0))"
    by (rule conjunct1 [OF L4, rule_format])
  show "k_setfl K s f k = (r, k') \<Longrightarrow> ce k' = ce k \<and> (if 0 \<le> r then nb k' s = bit f 11 else nb k' = nb k)"
    by (rule conjunct1 [OF L5, rule_format])
  show "k_bind K s x q k = (r, k') \<Longrightarrow> nb k' = nb k \<and> ce k' = ce k" by (rule conjunct1 [OF L6, rule_format])
  show "k_listen K s m k = (r, k') \<Longrightarrow> nb k' = nb k \<and> ce k' = ce k" by (rule conjunct2 [OF L6, rule_format])
qed

lemma option_keeps:
  assumes "fd_laws K nb ce" "bool_option opt \<noteq> None"
  shows "nb (snd (SetSockOpt_bool K s opt on k)) = nb k \<and> ce (snd (SetSockOpt_bool K s opt on k)) = ce k"
  using assms fd_lawsD(3) [OF assms(1)] by (auto simp: SetSockOpt_bool_def) (metis prod.collapse)+

lemma cloexec_keeps:
  assumes "fd_laws K nb ce"
  shows "nb (snd (add_flags K s FD_CLOEXEC k)) s = nb k s \<and> ce (snd (add_flags K s FD_CLOEXEC k)) = ce k"
proof -
  obtain f k1 where g: "k_getfl K s k = (f, k1)" by force
  obtain r k2 where w: "k_setfl K s (or f FD_CLOEXEC) k1 = (r, k2)" by force
  have "\<not> bit FD_CLOEXEC 11" by (simp add: FD_CLOEXEC_def)
  then show ?thesis
    using fd_lawsD(4) [OF assms g] fd_lawsD(5) [OF assms w] w
    by (auto simp: add_flags_def g bit_or_iff split: if_splits) (metis fst_conv not_le)+
qed

lemma nonblock_set:
  assumes "fd_laws K nb ce" "0 \<le> fst (add_flags K s O_NONBLOCK k)"
  shows "nb (snd (add_flags K s O_NONBLOCK k)) s \<and> ce (snd (add_flags K s O_NONBLOCK k)) = ce k"
proof -
  obtain f k1 where g: "k_getfl K s k = (f, k1)" by force
  obtain r k2 where w: "k_setfl K s (or f O_NONBLOCK) k1 = (r, k2)" by force
  have "bit O_NONBLOCK 11" by (simp add: O_NONBLOCK_def bit_iff_odd_drop_bit)
  then show ?thesis
    using fd_lawsD(4) [OF assms(1) g] fd_lawsD(5) [OF assms(1) w] assms(2)
    by (auto simp: add_flags_def g w bit_or_iff)
qed
lemma setReuse_keeps:
  "fd_laws K nb ce \<Longrightarrow> nb (setReuseport K f on k) = nb k \<and> ce (setReuseport K f on k) = ce k"
  "fd_laws K nb ce \<Longrightarrow> nb (setReuseAddr K f on k) = nb k \<and> ce (setReuseAddr K f on k) = ce k"
  "fd_laws K nb ce \<Longrightarrow> nb (setKeepAlive K f on k) = nb k \<and> ce (setKeepAlive K f on k) = ce k"
  by (simp_all add: setReuseport_def setReuseAddr_def setKeepAlive_def option_keeps bool_option_def)

lemma setKeepIdle_nothing [simp]: "setKeepIdle K f time k = k"
  by (simp add: setKeepIdle_def SetSockOpt_int_def)

lemma setExitOnExec_keeps:
  "fd_laws K nb ce \<Longrightarrow> nb (setExitOnExec K f on k) (m_fd f) = nb k (m_fd f) \<and> ce (setExitOnExec K f on k) = ce k"
  by (simp add: setExitOnExec_def SetSockOpt_bool_def bool_option_def cloexec_keeps)

lemma setNoneBlock_effect:
  assumes "fd_laws K nb ce" "valid f" "\<not> nb k (m_fd f)" "setNoneBlock ndebug K f on k = (True, k')"
  shows "(nb k' (m_fd f) \<longleftrightarrow> \<not> ndebug) \<and> ce k' = ce k"
proof (cases ndebug)
  case False
  then have "fst (add_flags K (m_fd f) O_NONBLOCK k) \<ge> 0" "k' = snd (add_flags K (m_fd f) O_NONBLOCK k)"
    using assms(2,4) by (auto simp: setNoneBlock_def SetSockOpt_bool_def bool_option_def split: prod.splits)
  with nonblock_set [OF assms(1)] False show ?thesis by simp
qed (use assms in \<open>simp add: setNoneBlock_def\<close>)

lemma acceptor_socket:
  assumes "fd_laws K nb ce" "FAcceptor_new ndebug lg K inet_addr garbage addr port reuse k = (Inr a, k')"
  shows "(nb k' (m_fd (ac_sock a)) \<longleftrightarrow> \<not> ndebug) \<and> \<not> ce k' (m_fd (ac_sock a)) \<and> valid (ac_sock a)
    \<and> getPort (ac_addr a) = ucast port \<and> ac_listenPort a = port"
proof -
  obtain sk k1 where s: "k_socket K SOCK_STREAM IPPROTO_TCP k = (sk, k1)" by force
  define f where "f = FSock_of sk"
  define k4 where "k4 = setReuseAddr K f reuse (setReuseport K f reuse k1)"
  obtain holds k5 where n: "setNoneBlock ndebug K f True k4 = (holds, k5)" by force
  define k6 where "k6 = setExitOnExec K f True k5"
  define ad where "ad = FSocketAddr_new inet_addr addr (ucast port)"
  obtain r7 k7 where b: "k_bind K sk (un_addr ad) (sa_port ad) k6 = (r7, k7)" by force
  obtain r8 k8 where l: "k_listen K sk 1024 k7 = (r8, k8)" by force
  have f: "valid f" "m_fd f = sk" by (simp_all add: f_def FSock_of_def)
  have asg: "FSock_assign (FSock_default garbage) (FSock_of sk) = (f, (FSock_of sk)\<lparr>valid := False\<rparr>)"
    by (simp add: FSock_assign_def FSock_default_def FSock_of_def f_def)
  have res: "holds" "a = \<lparr>ac_sock = f, ac_event = [Op_init, Op_enableReading], ac_addr = ad, ac_listenAddr = addr,
      ac_listenPort = port\<rparr>" "k' = k8"
    using assms(2) n b l f(2)
    by (auto simp: FAcceptor_new_def s Let_def asg FSock_destroy_def k4_def [symmetric] k6_def [symmetric]
        ad_def [symmetric] Bind_def Listen_def split: if_splits prod.splits)
  have "\<not> nb k4 sk" "\<not> ce k4 sk"
    using fd_lawsD(1) [OF assms(1) s] setReuse_keeps [OF assms(1)] by (simp_all add: k4_def)
  then have "(nb k5 sk \<longleftrightarrow> \<not> ndebug)" "\<not> ce k5 sk"
    using setNoneBlock_effect [OF assms(1) f(1), of k4 ndebug True k5] n res(1) f(2) by simp_all
  then have "(nb k6 sk \<longleftrightarrow> \<not> ndebug)" "\<not> ce k6 sk"
    using setExitOnExec_keeps [OF assms(1), of f True k5] f(2) by (simp_all add: k6_def)
  then show ?thesis
    using fd_lawsD(6) [OF assms(1) b] fd_lawsD(7) [OF assms(1) l] f by (simp add: res ad_def)
qed

section \<open>Properties\<close>

text \<open>
  Which descriptors block: the listening socket is non-blocking exactly in a build with
  assertions; the socket of an accepted connection never is, so a peer that does not read stops the
  loop that sends to it; and none of them is closed on exec, since the flag is written among the
  status flags.
\<close>
theorem descriptor_modes:
  assumes "fd_laws K nb ce" "FAcceptor_new ndebug lg K inet_addr garbage addr port reuse k = (Inr a, k1)"
    "acceptor_handleRead K a True k2 = (Some (c, peer, here), k3)"
  shows "(nb k1 (m_fd (ac_sock a)) \<longleftrightarrow> \<not> ndebug) \<and> \<not> ce k1 (m_fd (ac_sock a))
    \<and> \<not> nb (conn_sock_setup K time (FSock_of c) k3) c \<and> \<not> ce (conn_sock_setup K time (FSock_of c) k3) c"
proof -
  have "\<not> nb k3 c \<and> \<not> ce k3 c"
    using assms(3) fd_lawsD(2) [OF assms(1)]
    by (auto simp: acceptor_handleRead_def Accept_def split: prod.splits if_splits)
  then show ?thesis
    using acceptor_socket [OF assms(1,2)] setReuse_keeps(3) [OF assms(1)] by (simp add: conn_sock_setup_def)
qed

text \<open>A kernel with the flags of its descriptors.\<close>

type_synonym fd_table = "int \<Rightarrow> bool \<times> bool"

definition demo_kernel :: "fd_table kernel" where
  "demo_kernel = \<lparr>k_socket = (\<lambda>_ _ k. (3, k(3 := (False, False)))),
     k_setsockopt = (\<lambda>_ _ _ _ k. (0, k)),
     k_getfl = (\<lambda>s k. (if fst (k s) then O_NONBLOCK else 0, k)),
     k_setfl = (\<lambda>s f k. (0, k(s := (bit f 11, snd (k s))))),
     k_bind = (\<lambda>_ _ _ k. (0, k)), k_listen = (\<lambda>_ _ k. (0, k)),
     k_accept = (\<lambda>_ k. ((4, 0, 0), k(4 := (False, False)))),
     k_connect = (\<lambda>_ _ _ k. (0, k)), k_send = (\<lambda>_ d k. (int (length d), k)), k_recv = (\<lambda>_ _ _ k. ((0, []), k)),
     k_shutdown = (\<lambda>_ _ k. k), k_close = (\<lambda>_ k. (0, k))\<rparr>"

lemma demo_kernel_laws: "fd_laws demo_kernel (\<lambda>k s. fst (k s)) (\<lambda>k s. snd (k s))"
  by (auto simp: fd_laws_def demo_kernel_def O_NONBLOCK_def bit_iff_odd_drop_bit intro!: ext)

theorem descriptor_modes_witness:
  "\<exists>a k1 c p q k3. FAcceptor_new True (Logger_new LoggerConfig_default) demo_kernel (\<lambda>_. 0) 0 ''0.0.0.0'' 80 True (\<lambda>_. (True, True)) = (Inr a, k1)
     \<and> acceptor_handleRead demo_kernel a True k1 = (Some (c, p, q), k3)
     \<and> \<not> fst (k1 (m_fd (ac_sock a))) \<and> \<not> fst (conn_sock_setup demo_kernel 60 (FSock_of c) k3 c)"
proof -
  obtain a k1 where a: "FAcceptor_new True (Logger_new LoggerConfig_default) demo_kernel (\<lambda>_. 0) 0 ''0.0.0.0'' 80 True (\<lambda>_. (True, True)) = (Inr a, k1)"
    by (simp add: FAcceptor_new_def Let_def demo_kernel_def FSock_assign_def FSock_default_def FSock_of_def
        FSock_destroy_def setNoneBlock_def Bind_def Listen_def status_of_def split: prod.split)
  obtain p q k3 where h: "acceptor_handleRead demo_kernel a True k1 = (Some (4, p, q), k3)"
    by (simp add: acceptor_handleRead_def Accept_def demo_kernel_def status_of_def)
  from descriptor_modes [OF demo_kernel_laws a h] a h show ?thesis by blast
qed

end
