(* ===== verification/FTimeQueue.thy ===== *)
theory FTimeQueue
  imports StdMap
begin

text \<open>
  The timer queue of an event loop (\<open>FeiLib/src/FTimeQueue.cpp\<close>): tasks for the next turn, timed tasks in
  a multimap by due time, and the map from timer ids to due times by which they are cancelled. The
  mutex is held for the whole of every operation. A time point is an integer; tasks are values of
  the type variable \<open>'t\<close>. \<open>m_timerCounter\<close> has no initialiser: the constructor's argument is what it
  happens to hold.
\<close>

section \<open>Model\<close>

record 't timer_task =
  tt_id :: u64
  tt_task :: 't
  aborted :: bool

record 't time_queue =
  m_timerCounter :: u64
  m_tasks :: "(int, 't timer_task) omap"
  m_timerID2Time :: "(u64, int) omap"
  m_curTasks :: "'t list"

definition FTimeQueue_new :: "u64 \<Rightarrow> 't time_queue" where
  "FTimeQueue_new c = \<lparr>m_timerCounter = c, m_tasks = [], m_timerID2Time = [], m_curTasks = []\<rparr>"

definition tq_AddTask :: "'t time_queue \<Rightarrow> 't \<Rightarrow> 't time_queue" where
  "tq_AddTask q task = q\<lparr>m_curTasks := m_curTasks q @ [task]\<rparr>"

definition tq_AddTaskAt :: "'t time_queue \<Rightarrow> 't \<Rightarrow> int \<Rightarrow> u64 \<times> 't time_queue" where
  "tq_AddTaskAt q task time =
     (let i = m_timerCounter q + 1
      in (i, q\<lparr>m_timerCounter := i,
              m_tasks := mm_insert (m_tasks q) time \<lparr>tt_id = i, tt_task = task, aborted = False\<rparr>,
              m_timerID2Time := omap_insert (m_timerID2Time q) i time\<rparr>))"

text \<open>The loop of \<open>Tick\<close> over the entries up to \<open>upper_bound(t)\<close>.\<close>

fun tick_loop :: "int \<Rightarrow> (int, 't timer_task) omap \<Rightarrow> (u64, int) omap \<Rightarrow> 't list \<Rightarrow>
    't list \<times> (int, 't timer_task) omap \<times> (u64, int) omap" where
  "tick_loop t [] ids ret = (ret, [], ids)"
| "tick_loop t ((time, k) # tasks) ids ret =
     (if t < time then (ret, (time, k) # tasks, ids)
      else tick_loop t tasks (omap_erase ids (tt_id k)) (if \<not> aborted k then ret @ [tt_task k] else ret))"

definition tq_Tick :: "'t time_queue \<Rightarrow> int \<Rightarrow> 't list \<times> 't time_queue" where
  "tq_Tick q t =
     (let (ret, tasks, ids) = tick_loop t (m_tasks q) (m_timerID2Time q) (m_curTasks q)
      in (ret, q\<lparr>m_curTasks := [], m_tasks := tasks, m_timerID2Time := ids\<rparr>))"

text \<open>The loop of \<open>CancelTask\<close> over the entries of one due time; the result says whether the timer was
  found there.\<close>

fun abort_in :: "(int, 't timer_task) omap \<Rightarrow> int \<Rightarrow> u64 \<Rightarrow> bool \<times> (int, 't timer_task) omap" where
  "abort_in [] time i = (False, [])"
| "abort_in ((time', k) # tasks) time i =
     (if time' = time \<and> tt_id k = i then (True, (time', k\<lparr>aborted := True\<rparr>) # tasks)
      else (let (found, tasks') = abort_in tasks time i in (found, (time', k) # tasks')))"

text \<open>\<open>None\<close> is the failing assertion: no entry of that due time.\<close>

definition tq_CancelTask :: "'t time_queue \<Rightarrow> u64 \<Rightarrow> 't time_queue option" where
  "tq_CancelTask q i =
     (case omap_find (m_timerID2Time q) i of
        None \<Rightarrow> Some q
      | Some time \<Rightarrow>
          (if mm_equal_range (m_tasks q) time = [] then None
           else (let (found, tasks) = abort_in (m_tasks q) time i
                 in Some (if found then q\<lparr>m_tasks := tasks, m_timerID2Time := omap_erase (m_timerID2Time q) i\<rparr>
                          else q))))"

section \<open>The queue of live timers\<close>

text \<open>What a client sees: the pending timers, in the order in which they will run.\<close>

definition live :: "'t time_queue \<Rightarrow> (int \<times> u64 \<times> 't) list" where
  "live q = map (\<lambda>e. (fst e, tt_id (snd e), tt_task (snd e))) (filter (\<lambda>e. \<not> aborted (snd e)) (m_tasks q))"

definition task_ids :: "(int, 't timer_task) omap \<Rightarrow> u64 list" where
  "task_ids m = map (\<lambda>e. tt_id (snd e)) m"

definition tq_wf :: "'t time_queue \<Rightarrow> bool" where
  "tq_wf q \<longleftrightarrow> mm_wf (m_tasks q) \<and> omap_wf (m_timerID2Time q) \<and> distinct (task_ids (m_tasks q))
     \<and> (\<forall>i \<in> set (task_ids (m_tasks q)). i \<le> m_timerCounter q)
     \<and> (\<forall>i t. omap_find (m_timerID2Time q) i = Some t \<longleftrightarrow>
          (\<exists>k. (t, k) \<in> set (m_tasks q) \<and> tt_id k = i \<and> \<not> aborted k))"

lemma new_tq_wf: "tq_wf (FTimeQueue_new c) \<and> live (FTimeQueue_new c) = []"
  by (simp add: tq_wf_def FTimeQueue_new_def mm_wf_def live_def task_ids_def)

text \<open>Insertion behind the timers that are due no later.\<close>

fun insert_timer :: "(int \<times> u64 \<times> 't) list \<Rightarrow> int \<times> u64 \<times> 't \<Rightarrow> (int \<times> u64 \<times> 't) list" where
  "insert_timer [] x = [x]"
| "insert_timer (y # ys) x = (if fst x < fst y then x # y # ys else y # insert_timer ys x)"

lemma insert_timer_filter:
  "mm_wf m \<Longrightarrow>
   map (\<lambda>e. (fst e, tt_id (snd e), tt_task (snd e))) (filter (\<lambda>e. \<not> aborted (snd e)) (mm_insert m t k))
    = (if aborted k then map (\<lambda>e. (fst e, tt_id (snd e), tt_task (snd e))) (filter (\<lambda>e. \<not> aborted (snd e)) m)
       else insert_timer (map (\<lambda>e. (fst e, tt_id (snd e), tt_task (snd e))) (filter (\<lambda>e. \<not> aborted (snd e)) m))
              (t, tt_id k, tt_task k))"
proof (induction m t k rule: mm_insert.induct)
  case (2 x w m k v)
  have wf: "mm_wf m" and le: "\<forall>e \<in> set m. x \<le> fst e" using 2(2) by (auto simp: mm_wf_def)
  show ?case
  proof (cases "k < x")
    case True
    have "insert_timer ys (k, a) = (k, a) # ys" if "\<forall>y \<in> set ys. k < fst y" for a and ys :: "(int \<times> u64 \<times> 'a) list"
      using that by (cases ys) auto
    moreover have "\<forall>e \<in> set m. k < fst e" using le True by fastforce
    ultimately show ?thesis using True by auto
  next
    case False
    then show ?thesis using 2(1) [OF _ wf] by auto
  qed
qed simp

lemma mset_task_ids: "set (task_ids (mm_insert m t k)) = insert (tt_id k) (set (task_ids m))"
  by (auto simp: task_ids_def mset_mm_insert)

lemma distinct_task_ids:
  "distinct (task_ids m) \<Longrightarrow> tt_id k \<notin> set (task_ids m) \<Longrightarrow> distinct (task_ids (mm_insert m t k))"
  by (induction m t k rule: mm_insert.induct) (auto simp: task_ids_def mset_mm_insert)

lemma counter_less: "(c :: u64) \<noteq> - 1 \<Longrightarrow> c < c + 1"
proof -
  assume "c \<noteq> - 1"
  then have "unat c \<noteq> 2 ^ 64 - 1"
    by (auto simp: word_unat_eq_iff unsigned_minus_1_eq_mask mask_eq_exp_minus_1)
  moreover have "unat c < 2 ^ 64" using unsigned_less [of c] by simp
  ultimately have "unat c + 1 < 2 ^ 64" by linarith
  then have "unat (c + 1) = unat c + 1" by (simp add: unat_word_ariths)
  then show ?thesis by (simp add: word_less_nat_alt)
qed

lemma counter_fresh:
  assumes "m_timerCounter q \<noteq> - 1" "\<forall>i \<in> set (task_ids (m_tasks q)). i \<le> m_timerCounter q"
  shows "m_timerCounter q + 1 \<notin> set (task_ids (m_tasks q))
    \<and> (\<forall>i \<in> set (task_ids (m_tasks q)). i \<le> m_timerCounter q + 1)"
  using assms counter_less [OF assms(1)] by fastforce

text \<open>The invariant of the map from ids to due times, as a relation of the two containers.\<close>

definition ids_match :: "(u64, int) omap \<Rightarrow> (int, 't timer_task) omap \<Rightarrow> bool" where
  "ids_match ids m \<longleftrightarrow> (\<forall>i t. omap_find ids i = Some t \<longleftrightarrow>
     (\<exists>k. (t, k) \<in> set m \<and> tt_id k = i \<and> \<not> aborted k))"

lemma ids_matchD: "ids_match ids m \<Longrightarrow>
    omap_find ids i = Some t \<longleftrightarrow> (\<exists>k. (t, k) \<in> set m \<and> tt_id k = i \<and> \<not> aborted k)"
  unfolding ids_match_def by blast

lemma ids_match_insert:
  assumes "ids_match ids m" "i \<notin> set (task_ids m)" "tt_id k = i" "\<not> aborted k"
  shows "ids_match (omap_insert ids i t) (mm_insert m t k)"
proof -
  have "\<not> (\<exists>t k. (t, k) \<in> set m \<and> tt_id k = i)" using assms(2) by (force simp: task_ids_def)
  then have "omap_find ids i = None" by (metis ids_matchD [OF assms(1)] not_Some_eq)
  then have "omap_find (omap_insert ids i t) j = (if j = i then Some t else omap_find ids j)" for j
    by (simp add: find_insert)
  moreover have "tt_id k' \<noteq> i" if "(u, k') \<in> set m" for u k'
    using that assms(2) by (force simp: task_ids_def)
  ultimately show ?thesis
    using assms(1,3,4) by (auto simp: ids_match_def mset_mm_insert)
qed

lemma AddTaskAt_correct:
  assumes "tq_wf q" "m_timerCounter q \<noteq> - 1"
  shows "tq_wf (snd (tq_AddTaskAt q task time))
    \<and> live (snd (tq_AddTaskAt q task time)) = insert_timer (live q) (time, fst (tq_AddTaskAt q task time), task)
    \<and> fst (tq_AddTaskAt q task time) \<notin> set (task_ids (m_tasks q))
    \<and> m_curTasks (snd (tq_AddTaskAt q task time)) = m_curTasks q"
proof -
  let ?i = "m_timerCounter q + 1"
  have f: "?i \<notin> set (task_ids (m_tasks q))" "\<forall>i \<in> set (task_ids (m_tasks q)). i \<le> ?i"
    using counter_fresh [OF assms(2)] assms(1) by (auto simp: tq_wf_def)
  have w: "mm_wf (m_tasks q)" "ids_match (m_timerID2Time q) (m_tasks q)"
    using assms(1) by (simp_all add: tq_wf_def ids_match_def)
  have "ids_match (omap_insert (m_timerID2Time q) ?i time)
      (mm_insert (m_tasks q) time \<lparr>tt_id = ?i, tt_task = task, aborted = False\<rparr>)"
    by (rule ids_match_insert [OF w(2) f(1)]) simp_all
  then show ?thesis
    using assms(1) f w insert_timer_filter [OF w(1), of time "\<lparr>tt_id = ?i, tt_task = task, aborted = False\<rparr>"]
    by (simp add: tq_AddTaskAt_def Let_def tq_wf_def live_def mm_wf_insert omap_wf_insert mset_task_ids
        distinct_task_ids ids_match_def)
qed

section \<open>Ticks\<close>

lemma tick_loop_spec:
  assumes "mm_wf m"
  shows "tick_loop t m ids ret =
    (ret @ map (\<lambda>e. tt_task (snd e)) (filter (\<lambda>e. fst e \<le> t \<and> \<not> aborted (snd e)) m),
     filter (\<lambda>e. t < fst e) m,
     foldl omap_erase ids (map (\<lambda>e. tt_id (snd e)) (filter (\<lambda>e. fst e \<le> t) m)))"
  using assms
proof (induction t m ids ret rule: tick_loop.induct)
  case (2 t time k tasks ids ret)
  have wf: "mm_wf tasks" and le: "\<forall>e \<in> set tasks. time \<le> fst e" using 2(2) by (auto simp: mm_wf_def)
  show ?case
  proof (cases "t < time")
    case True
    then have "\<forall>e \<in> set tasks. t < fst e" using le by fastforce
    then have "filter (\<lambda>e. fst e \<le> t \<and> \<not> aborted (snd e)) tasks = []" "filter (\<lambda>e. fst e \<le> t) tasks = []"
      "filter (\<lambda>e. t < fst e) tasks = tasks"
      by (force simp: filter_empty_conv filter_id_conv)+
    with True show ?thesis by simp
  next
    case False
    then show ?thesis using 2(1) [OF False wf] by simp
  qed
qed simp

lemma find_erase_ids:
  "omap_wf ids \<Longrightarrow> omap_wf (foldl omap_erase ids is)
     \<and> omap_find (foldl omap_erase ids is) i = (if i \<in> set is then None else omap_find ids i)"
  by (induction "is" arbitrary: ids) (auto simp: omap_wf_erase find_erase)

lemma distinct_ids_unique:
  "distinct (task_ids m) \<Longrightarrow> e \<in> set m \<Longrightarrow> e' \<in> set m \<Longrightarrow> tt_id (snd e) = tt_id (snd e') \<Longrightarrow> e = e'"
  by (auto simp: task_ids_def distinct_map dest: inj_onD)

lemma Tick_correct:
  assumes wf: "tq_wf q"
  shows "fst (tq_Tick q t) = m_curTasks q @ map (\<lambda>e. snd (snd e)) (filter (\<lambda>e. fst e \<le> t) (live q))
    \<and> live (snd (tq_Tick q t)) = filter (\<lambda>e. t < fst e) (live q)
    \<and> m_curTasks (snd (tq_Tick q t)) = [] \<and> tq_wf (snd (tq_Tick q t))"
proof -
  let ?m = "m_tasks q" and ?ids = "m_timerID2Time q"
  let ?gone = "map (\<lambda>e. tt_id (snd e)) (filter (\<lambda>e. fst e \<le> t) ?m)"
  have w: "mm_wf ?m" "omap_wf ?ids" "distinct (task_ids ?m)" "ids_match ?ids ?m"
    using wf by (simp_all add: tq_wf_def ids_match_def)
  have T: "tq_Tick q t = (m_curTasks q @ map (\<lambda>e. tt_task (snd e)) (filter (\<lambda>e. fst e \<le> t \<and> \<not> aborted (snd e)) ?m),
      q\<lparr>m_curTasks := [], m_tasks := filter (\<lambda>e. t < fst e) ?m, m_timerID2Time := foldl omap_erase ?ids ?gone\<rparr>)"
    by (simp add: tq_Tick_def tick_loop_spec [OF w(1)])
  have gone: "tt_id (snd e) \<in> set ?gone \<longleftrightarrow> fst e \<le> t" if "e \<in> set ?m" for e
  proof
    assume "tt_id (snd e) \<in> set ?gone"
    then obtain e' where "e' \<in> set ?m" "fst e' \<le> t" "tt_id (snd e) = tt_id (snd e')" by auto
    then show "fst e \<le> t" using distinct_ids_unique [OF w(3) that] by metis
  qed (use that in \<open>auto intro!: image_eqI\<close>)
  have "ids_match (foldl omap_erase ?ids ?gone) (filter (\<lambda>e. t < fst e) ?m)"
    unfolding ids_match_def
  proof (intro allI)
    fix i u
    have "omap_find ?ids i = Some u \<longleftrightarrow> (\<exists>k. (u, k) \<in> set ?m \<and> tt_id k = i \<and> \<not> aborted k)"
      using w(4) by (simp add: ids_match_def)
    then show "omap_find (foldl omap_erase ?ids ?gone) i = Some u \<longleftrightarrow>
        (\<exists>k. (u, k) \<in> set (filter (\<lambda>e. t < fst e) ?m) \<and> tt_id k = i \<and> \<not> aborted k)"
      using gone find_erase_ids [OF w(2), of ?gone i] by (auto simp: not_le simp del: set_map)
  qed
  moreover have "mm_wf (filter (\<lambda>e. t < fst e) ?m)"
    using w(1) by (simp add: mm_wf_def sorted_filter)
  moreover have "distinct (task_ids (filter (\<lambda>e. t < fst e) ?m))"
    using w(3) by (simp add: task_ids_def distinct_map_filter)
  ultimately have "tq_wf (snd (tq_Tick q t))"
    using wf find_erase_ids [OF w(2)] by (auto simp: T tq_wf_def ids_match_def task_ids_def)
  moreover have "filter (\<lambda>e. fst e \<le> t) (live q)
      = map (\<lambda>e. (fst e, tt_id (snd e), tt_task (snd e))) (filter (\<lambda>e. fst e \<le> t \<and> \<not> aborted (snd e)) ?m)"
    by (simp add: live_def filter_map comp_def) (simp add: conj_commute)
  moreover have "live (snd (tq_Tick q t)) = filter (\<lambda>e. t < fst e) (live q)"
    by (simp add: T live_def filter_map comp_def) (simp add: conj_commute)
  ultimately show ?thesis by (simp add: T comp_def)
qed

section \<open>Cancellation\<close>

lemma abort_in_spec:
  assumes "distinct (task_ids m)" "(t, k) \<in> set m" "tt_id k = i"
  shows "abort_in m t i = (True, map (\<lambda>e. if tt_id (snd e) = i then (fst e, snd e\<lparr>aborted := True\<rparr>) else e) m)"
  using assms
proof (induction m t i rule: abort_in.induct)
  case (2 time' k' tasks time i)
  show ?case
  proof (cases "time' = time \<and> tt_id k' = i")
    case True
    then have "\<forall>e \<in> set tasks. tt_id (snd e) \<noteq> i" using 2(2) by (force simp: task_ids_def)
    then have "map (\<lambda>e. if tt_id (snd e) = i then (fst e, snd e\<lparr>aborted := True\<rparr>) else e) tasks = tasks"
      by (intro map_idI) auto
    with True show ?thesis by simp
  next
    case False
    then have "(time, k) \<in> set tasks" using 2(3,4) by auto
    moreover from this have "tt_id k' \<noteq> i" using 2(2,4) by (force simp: task_ids_def)
    ultimately show ?thesis using False 2(1) [OF False] 2(2,4) by (simp add: task_ids_def)
  qed
qed simp

lemma CancelTask_correct:
  assumes wf: "tq_wf q"
  shows "\<exists>q'. tq_CancelTask q i = Some q' \<and> live q' = filter (\<lambda>e. fst (snd e) \<noteq> i) (live q)
    \<and> m_curTasks q' = m_curTasks q \<and> tq_wf q'"
proof -
  let ?m = "m_tasks q" and ?ids = "m_timerID2Time q"
  have w: "mm_wf ?m" "omap_wf ?ids" "distinct (task_ids ?m)" "ids_match ?ids ?m"
    using wf by (simp_all add: tq_wf_def ids_match_def)
  show ?thesis
  proof (cases "omap_find ?ids i")
    case None
    then have "\<not> (\<exists>t k. (t, k) \<in> set ?m \<and> tt_id k = i \<and> \<not> aborted k)"
      by (metis ids_matchD [OF w(4)] option.distinct(1))
    then have "filter (\<lambda>e. fst (snd e) \<noteq> i) (live q) = live q"
      by (force simp: live_def filter_id_conv)
    then show ?thesis using None wf by (simp add: tq_CancelTask_def)
  next
    case (Some t)
    then obtain k where k: "(t, k) \<in> set ?m" "tt_id k = i" "\<not> aborted k" using w(4) by (auto simp: ids_match_def)
    let ?ab = "\<lambda>e. if tt_id (snd e) = i then (fst e, snd e\<lparr>aborted := True\<rparr>) else e"
    let ?q = "q\<lparr>m_tasks := map ?ab ?m, m_timerID2Time := omap_erase ?ids i\<rparr>"
    have "mm_equal_range ?m t \<noteq> []" using k(1) by (force simp: mm_equal_range_def filter_empty_conv)
    then have c: "tq_CancelTask q i = Some ?q"
      by (simp add: tq_CancelTask_def Some abort_in_spec [OF w(3) k(1,2)])
    have ids: "task_ids (map ?ab ?m) = task_ids ?m" by (simp add: task_ids_def)
    have "map fst (map ?ab ?m) = map fst ?m" by simp
    then have wf': "mm_wf (map ?ab ?m)" using w(1) by (simp only: mm_wf_def)
    have "ids_match (omap_erase ?ids i) (map ?ab ?m)"
      using w(4) by (fastforce simp: ids_match_def find_erase [OF w(2)] image_iff split: if_splits)
    then have "tq_wf ?q"
      using wf wf' by (simp add: tq_wf_def ids ids_match_def omap_wf_erase)
    moreover have "live ?q = filter (\<lambda>e. fst (snd e) \<noteq> i) (live q)"
    proof -
      have "map (\<lambda>e. (fst e, tt_id (snd e), tt_task (snd e))) (filter (\<lambda>e. \<not> aborted (snd e)) (map ?ab m))
        = filter (\<lambda>e. fst (snd e) \<noteq> i) (map (\<lambda>e. (fst e, tt_id (snd e), tt_task (snd e))) (filter (\<lambda>e. \<not> aborted (snd e)) m))" for m
        by (induction m) auto
      then show ?thesis by (simp add: live_def)
    qed
    ultimately show ?thesis using c by simp
  qed
qed

section \<open>Sessions\<close>

text \<open>A sequence of operations on a queue, and the tasks its ticks hand out.\<close>

datatype 't tq_op = Post 't | At 't int | Cancel u64 | Tick int

fun tq_apply :: "'t time_queue \<Rightarrow> 't tq_op \<Rightarrow> ('t list \<times> 't time_queue) option" where
  "tq_apply q (Post task) = Some ([], tq_AddTask q task)"
| "tq_apply q (At task time) = Some ([], snd (tq_AddTaskAt q task time))"
| "tq_apply q (Cancel i) = map_option (Pair []) (tq_CancelTask q i)"
| "tq_apply q (Tick t) = Some (tq_Tick q t)"

fun tq_run :: "'t time_queue \<Rightarrow> 't tq_op list \<Rightarrow> ('t list \<times> 't time_queue) option" where
  "tq_run q [] = Some ([], q)"
| "tq_run q (x # xs) =
     (case tq_apply q x of
        None \<Rightarrow> None
      | Some (out, q') \<Rightarrow> map_option (\<lambda>(out', q''). (out @ out', q'')) (tq_run q' xs))"

text \<open>The specification: a list of posted tasks and a list of pending timers. The identifier of a new
  timer is the successor of the counter.\<close>

record 't tq_spec =
  sp_next :: u64
  sp_cur :: "'t list"
  sp_live :: "(int \<times> u64 \<times> 't) list"

fun spec_apply :: "'t tq_spec \<Rightarrow> 't tq_op \<Rightarrow> 't list \<times> 't tq_spec" where
  "spec_apply s (Post task) = ([], s\<lparr>sp_cur := sp_cur s @ [task]\<rparr>)"
| "spec_apply s (At task time) =
     ([], s\<lparr>sp_next := sp_next s + 1, sp_live := insert_timer (sp_live s) (time, sp_next s + 1, task)\<rparr>)"
| "spec_apply s (Cancel i) = ([], s\<lparr>sp_live := filter (\<lambda>e. fst (snd e) \<noteq> i) (sp_live s)\<rparr>)"
| "spec_apply s (Tick t) =
     (sp_cur s @ map (\<lambda>e. snd (snd e)) (filter (\<lambda>e. fst e \<le> t) (sp_live s)),
      s\<lparr>sp_cur := [], sp_live := filter (\<lambda>e. t < fst e) (sp_live s)\<rparr>)"

fun spec_run :: "'t tq_spec \<Rightarrow> 't tq_op list \<Rightarrow> 't list \<times> 't tq_spec" where
  "spec_run s [] = ([], s)"
| "spec_run s (x # xs) = (let (out, s') = spec_apply s x; (out', s'') = spec_run s' xs in (out @ out', s''))"

definition tq_abs :: "'t time_queue \<Rightarrow> 't tq_spec" where
  "tq_abs q = \<lparr>sp_next = m_timerCounter q, sp_cur = m_curTasks q, sp_live = live q\<rparr>"

definition timers_added :: "'t tq_op list \<Rightarrow> nat" where
  "timers_added xs = length (filter (\<lambda>x. case x of At _ _ \<Rightarrow> True | _ \<Rightarrow> False) xs)"

lemma tick_counter: "m_timerCounter (snd (tq_Tick q t)) = m_timerCounter q"
  by (simp add: tq_Tick_def split: prod.split)

lemma cancel_counter: "tq_CancelTask q i = Some q' \<Longrightarrow> m_timerCounter q' = m_timerCounter q"
  by (auto simp: tq_CancelTask_def split: option.splits if_splits prod.splits)

lemma tq_apply_refines:
  assumes "tq_wf q" "(case x of At _ _ \<Rightarrow> m_timerCounter q \<noteq> - 1 | _ \<Rightarrow> True)"
  shows "\<exists>q'. tq_apply q x = Some (fst (spec_apply (tq_abs q) x), q')
    \<and> tq_abs q' = snd (spec_apply (tq_abs q) x) \<and> tq_wf q'"
proof (cases x)
  case (Post task)
  then show ?thesis using assms(1) by (simp add: tq_abs_def tq_AddTask_def live_def tq_wf_def)
next
  case (At task time)
  then show ?thesis
    using AddTaskAt_correct [of q task time] assms
    by (auto simp: tq_abs_def tq_AddTaskAt_def Let_def)
next
  case (Cancel i)
  obtain q' where "tq_CancelTask q i = Some q'" "live q' = filter (\<lambda>e. fst (snd e) \<noteq> i) (live q)"
      "m_curTasks q' = m_curTasks q" "tq_wf q'"
    using CancelTask_correct [OF assms(1)] by blast
  then show ?thesis using Cancel cancel_counter [of q i q'] by (simp add: tq_abs_def)
next
  case (Tick t)
  then show ?thesis
    using Tick_correct [OF assms(1), of t] tick_counter [of q t] by (cases "tq_Tick q t") (simp add: tq_abs_def)
qed

lemma unat_counter_succ:
  assumes "unat (c :: u64) + n + 1 < 2 ^ 64"
  shows "unat (c + 1) + n < 2 ^ 64 \<and> c \<noteq> - 1"
proof -
  have "unat (c + 1) = unat c + 1" using assms by (simp add: unat_word_ariths)
  moreover have "c \<noteq> - 1"
    using assms by (auto simp: unsigned_minus_1_eq_mask mask_eq_exp_minus_1)
  ultimately show ?thesis using assms by simp
qed

lemma tq_run_refines:
  "tq_wf q \<Longrightarrow> unat (m_timerCounter q) + timers_added xs < 2 ^ 64 \<Longrightarrow>
     \<exists>q'. tq_run q xs = Some (fst (spec_run (tq_abs q) xs), q')
       \<and> tq_abs q' = snd (spec_run (tq_abs q) xs) \<and> tq_wf q'"
proof (induction xs arbitrary: q)
  case (Cons x xs)
  have c: "(case x of At _ _ \<Rightarrow> m_timerCounter q \<noteq> - 1 | _ \<Rightarrow> True)"
    using Cons.prems(2) unat_counter_succ [of "m_timerCounter q" "timers_added xs"]
    by (auto simp: timers_added_def split: tq_op.split)
  obtain q' where q': "tq_apply q x = Some (fst (spec_apply (tq_abs q) x), q')"
      "tq_abs q' = snd (spec_apply (tq_abs q) x)" "tq_wf q'"
    using tq_apply_refines [OF Cons.prems(1) c] by blast
  have "m_timerCounter q' = (case x of At _ _ \<Rightarrow> m_timerCounter q + 1 | _ \<Rightarrow> m_timerCounter q)"
    using arg_cong [OF q'(2), of sp_next] by (cases x) (simp_all add: tq_abs_def)
  then have "unat (m_timerCounter q') + timers_added xs < 2 ^ 64"
    using Cons.prems(2) unat_counter_succ [of "m_timerCounter q" "timers_added xs"]
    by (cases x) (auto simp: timers_added_def)
  from Cons.IH [OF q'(3) this] q' show ?case by (auto split: prod.split)
qed simp

text \<open>
  C17. The timer queue refines its specification: over any sequence of posts, timers, cancellations
  and ticks (fewer than the 64-bit counter can number) no assertion fails, and the ticks hand out
  exactly the posted tasks in order, then the timers that are due and not cancelled, earliest first
  and each once.
\<close>
theorem FTimeQueue_refines:
  assumes "unat c + timers_added xs < 2 ^ 64"
  shows "\<exists>q. tq_run (FTimeQueue_new c) xs
    = Some (fst (spec_run \<lparr>sp_next = c, sp_cur = [], sp_live = []\<rparr> xs), q)"
proof -
  have a: "tq_abs (FTimeQueue_new c) = \<lparr>sp_next = c, sp_cur = [], sp_live = []\<rparr>"
    by (simp add: tq_abs_def FTimeQueue_new_def live_def)
  have "unat (m_timerCounter (FTimeQueue_new c)) + timers_added xs < 2 ^ 64"
    using assms by (simp add: FTimeQueue_new_def)
  from tq_run_refines [OF conjunct1 [OF new_tq_wf] this] show ?thesis unfolding a by blast
qed

theorem FTimeQueue_refines_witness:
  "\<exists>q. tq_run (FTimeQueue_new 7) [At ''b'' 20, At ''a'' 10, Post ''p'', At ''c'' 15, Cancel 10, Tick 25]
     = Some ([''p'', ''a'', ''b''], q)"
  using FTimeQueue_refines [of 7 "[At ''b'' 20, At ''a'' 10, Post ''p'', At ''c'' 15, Cancel 10, Tick 25]"]
  by (simp add: timers_added_def)

end
