(* ===== verification/FEventLoop.thy ===== *)
theory FEventLoop
  imports FEvents FTimeQueue
begin

text \<open>
  The event loop (\<open>FeiLib/src/FEventLoop.cpp\<close>, \<open>FEventLoop.h\<close>) and how the server asks its loops to stop
  (\<open>FTcpServer::stop\<close>). A turn polls, lets the active events call back, and runs the due timers and the
  posted tasks. Tasks are values of the type variable \<open>'t\<close>; \<open>exec\<close> and \<open>handle\<close> are what running a task
  and \<open>FEvent::handleEvent\<close> do, to the loop (they may post tasks, quit, change the listener) and to the
  rest of the program, the extension of the record. The order of the callbacks of one event is in
  \<open>FEvents\<close>. The loop runs until it is told to quit, so it is a partial function.
\<close>

section \<open>Model\<close>

record 't event_loop =
  m_stoped :: bool
  m_quit :: bool
  m_forceQuit :: bool
  m_timeQueue :: "'t time_queue"
  m_listener :: epoll_listener
  mLoopCloseCallbacks :: "'t list"
  mIdCounter :: u64

definition FEventLoop_new :: "epoll_listener \<Rightarrow> u64 \<Rightarrow> 't event_loop" where
  "FEventLoop_new listener c = \<lparr>m_stoped = False, m_quit = False, m_forceQuit = False,
     m_timeQueue = FTimeQueue_new c, m_listener = listener, mLoopCloseCallbacks = [], mIdCounter = 1\<rparr>"

definition Quit :: "('t, 'z) event_loop_scheme \<Rightarrow> ('t, 'z) event_loop_scheme" where
  "Quit s = s\<lparr>m_quit := True\<rparr>"

definition ForceQuit :: "('t, 'z) event_loop_scheme \<Rightarrow> ('t, 'z) event_loop_scheme" where
  "ForceQuit s = s\<lparr>m_forceQuit := True\<rparr>"

definition HasStoped :: "('t, 'z) event_loop_scheme \<Rightarrow> bool" where
  "HasStoped s = m_stoped s"

definition AddTask :: "'t \<Rightarrow> ('t, 'z) event_loop_scheme \<Rightarrow> ('t, 'z) event_loop_scheme" where
  "AddTask task s = s\<lparr>m_timeQueue := tq_AddTask (m_timeQueue s) task\<rparr>"

text \<open>\<open>std::chrono::milliseconds\<close> holds a signed count; time points are in nanoseconds.\<close>

definition RunAfter :: "u64 \<Rightarrow> 't \<Rightarrow> int \<Rightarrow> ('t, 'z) event_loop_scheme \<Rightarrow> u64 \<times> ('t, 'z) event_loop_scheme" where
  "RunAfter ms task now s =
     (let (i, q) = tq_AddTaskAt (m_timeQueue s) task (now + sint ms * 1000000) in (i, s\<lparr>m_timeQueue := q\<rparr>))"

text \<open>\<open>None\<close> is the assertion of \<open>CancelTask\<close>.\<close>

definition CancelTimer :: "u64 \<Rightarrow> ('t, 'z) event_loop_scheme \<Rightarrow> ('t, 'z) event_loop_scheme option" where
  "CancelTimer i s = map_option (\<lambda>q. s\<lparr>m_timeQueue := q\<rparr>) (tq_CancelTask (m_timeQueue s) i)"

definition AddEvent :: "fevent \<Rightarrow> ('t, 'z) event_loop_scheme \<Rightarrow> ('t, 'z) event_loop_scheme" where
  "AddEvent e s = s\<lparr>m_listener := addEvent (m_listener s) e\<rparr>"

definition RemoveEvent :: "fevent \<Rightarrow> ('t, 'z) event_loop_scheme \<Rightarrow> ('t, 'z) event_loop_scheme" where
  "RemoveEvent e s = s\<lparr>m_listener := removeEvent (m_listener s) e\<rparr>"

definition UpdateEvent :: "fevent \<Rightarrow> ('t, 'z) event_loop_scheme \<Rightarrow> ('t, 'z) event_loop_scheme" where
  "UpdateEvent e s = s\<lparr>m_listener := updateEvent (m_listener s) e\<rparr>"

definition getUniqueIdInLoop :: "('t, 'z) event_loop_scheme \<Rightarrow> u64 \<times> ('t, 'z) event_loop_scheme" where
  "getUniqueIdInLoop s = (mIdCounter s, s\<lparr>mIdCounter := mIdCounter s + 1\<rparr>)"

definition addLoopCloseCallback :: "'t \<Rightarrow> ('t, 'z) event_loop_scheme \<Rightarrow> ('t, 'z) event_loop_scheme" where
  "addLoopCloseCallback callback s = s\<lparr>mLoopCloseCallbacks := mLoopCloseCallbacks s @ [callback]\<rparr>"

text \<open>\<open>isInLoopThread\<close>: \<open>this_thread_loop\<close> is the thread's variable, \<open>self\<close> the address of the loop.\<close>

definition isInLoopThread :: "u64 \<Rightarrow> u64 \<Rightarrow> bool" where
  "isInLoopThread this_thread_loop self \<longleftrightarrow> this_thread_loop = self"

text \<open>What a turn meets: what the kernel reports and which events still live, the clock at the tick, and
  what other threads do to the loop (post tasks, ask it to quit) while it waits.\<close>

record 's turn_input =
  reported :: "(u64 \<times> u32) list option"
  alive :: "u64 \<Rightarrow> bool"
  meanwhile :: "'s \<Rightarrow> 's"
  tick_time :: int

fun run_events :: "(u64 \<Rightarrow> u32 \<Rightarrow> ('t, 'z) event_loop_scheme \<Rightarrow> ('t, 'z) event_loop_scheme) \<Rightarrow>
    (u64 \<times> u32) list \<Rightarrow> ('t, 'z) event_loop_scheme \<Rightarrow> ('t, 'z) event_loop_scheme" where
  "run_events handle [] s = s"
| "run_events handle ((i, revents) # events) s =
     (if m_forceQuit s then s else run_events handle events (handle i revents s))"

fun run_tasks :: "('t \<Rightarrow> ('t, 'z) event_loop_scheme \<Rightarrow> ('t, 'z) event_loop_scheme) \<Rightarrow> 't list \<Rightarrow>
    ('t, 'z) event_loop_scheme \<Rightarrow> ('t, 'z) event_loop_scheme" where
  "run_tasks exec [] s = s"
| "run_tasks exec (func # funcs) s = (if m_forceQuit s then s else run_tasks exec funcs (exec func s))"

definition loop_turn :: "(u64 \<Rightarrow> u32 \<Rightarrow> ('t, 'z) event_loop_scheme \<Rightarrow> ('t, 'z) event_loop_scheme) \<Rightarrow>
    ('t \<Rightarrow> ('t, 'z) event_loop_scheme \<Rightarrow> ('t, 'z) event_loop_scheme) \<Rightarrow>
    ('t, 'z) event_loop_scheme turn_input \<Rightarrow> ('t, 'z) event_loop_scheme \<Rightarrow> ('t, 'z) event_loop_scheme" where
  "loop_turn handle exec inp s0 =
     (let s = meanwhile inp s0;
          (mActiveEvents, l) = listen (m_listener s) (alive inp) (reported inp);
          s1 = run_events handle mActiveEvents (s\<lparr>m_listener := l\<rparr>);
          (activeFuncs, q) = tq_Tick (m_timeQueue s1) (tick_time inp)
      in run_tasks exec activeFuncs (s1\<lparr>m_timeQueue := q\<rparr>))"

text \<open>The loop from its turn \<open>n\<close> on.\<close>

partial_function (option) loop_from :: "(u64 \<Rightarrow> u32 \<Rightarrow> ('t, 'z) event_loop_scheme \<Rightarrow> ('t, 'z) event_loop_scheme) \<Rightarrow>
    ('t \<Rightarrow> ('t, 'z) event_loop_scheme \<Rightarrow> ('t, 'z) event_loop_scheme) \<Rightarrow>
    (nat \<Rightarrow> ('t, 'z) event_loop_scheme turn_input) \<Rightarrow> nat \<Rightarrow> ('t, 'z) event_loop_scheme \<Rightarrow>
    ('t, 'z) event_loop_scheme option" where
  "loop_from handle exec inp n s =
     (if \<not> m_quit s then loop_from handle exec inp (n + 1) (loop_turn handle exec (inp n) s) else Some s)"

text \<open>\<open>Loop\<close>, on a thread whose variable is \<open>this_thread_loop\<close>; the result has its new value. A callback
  that adds a close callback while they run would invalidate the iteration; the list is the one at its
  start.\<close>

definition Loop :: "(u64 \<Rightarrow> u32 \<Rightarrow> ('t, 'z) event_loop_scheme \<Rightarrow> ('t, 'z) event_loop_scheme) \<Rightarrow>
    ('t \<Rightarrow> ('t, 'z) event_loop_scheme \<Rightarrow> ('t, 'z) event_loop_scheme) \<Rightarrow>
    (nat \<Rightarrow> ('t, 'z) event_loop_scheme turn_input) \<Rightarrow> u64 \<Rightarrow> u64 \<Rightarrow> ('t, 'z) event_loop_scheme \<Rightarrow>
    (u64 \<times> ('t, 'z) event_loop_scheme) option" where
  "Loop handle exec inp self this_thread_loop s =
     (let (tl', s1) = (if this_thread_loop \<noteq> 0 then (this_thread_loop, s\<lparr>m_quit := True\<rparr>) else (self, s))
      in map_option (\<lambda>s2. let s3 = run_tasks exec (mLoopCloseCallbacks s2) s2
                          in (tl', s3\<lparr>mLoopCloseCallbacks := [], m_stoped := True\<rparr>))
           (loop_from handle exec inp 0 s1))"

text \<open>What \<open>FTcpServer::stop\<close> asks of each of its loops before it waits for \<open>HasStoped\<close>.\<close>

definition request_stop :: "bool \<Rightarrow> ('t, 'z) event_loop_scheme \<Rightarrow> ('t, 'z) event_loop_scheme" where
  "request_stop forceClose s = (if forceClose then ForceQuit s else Quit s)"

section \<open>When the loop returns\<close>

fun turns :: "(u64 \<Rightarrow> u32 \<Rightarrow> ('t, 'z) event_loop_scheme \<Rightarrow> ('t, 'z) event_loop_scheme) \<Rightarrow>
    ('t \<Rightarrow> ('t, 'z) event_loop_scheme \<Rightarrow> ('t, 'z) event_loop_scheme) \<Rightarrow>
    (nat \<Rightarrow> ('t, 'z) event_loop_scheme turn_input) \<Rightarrow> nat \<Rightarrow> nat \<Rightarrow> ('t, 'z) event_loop_scheme \<Rightarrow>
    ('t, 'z) event_loop_scheme" where
  "turns handle exec inp n 0 s = s"
| "turns handle exec inp n (Suc k) s = turns handle exec inp (n + 1) k (loop_turn handle exec (inp n) s)"

lemma loop_from_Some:
  "loop_from handle exec inp n s = Some s' \<Longrightarrow>
   \<exists>k. s' = turns handle exec inp n k s \<and> m_quit s' \<and> (\<forall>j < k. \<not> m_quit (turns handle exec inp n j s))"
proof (induction rule: loop_from.raw_induct [rotated 1, consumes 1])
  case (1 lf handle exec inp n s s')
  show ?case
  proof (cases "m_quit s")
    case True
    then show ?thesis using 1(2) by (intro exI [of _ 0]) simp
  next
    case False
    then have "lf handle exec inp (n + 1) (loop_turn handle exec (inp n) s) = Some s'" using 1(2) by simp
    from 1(1) [OF this] obtain k where k: "s' = turns handle exec inp n (Suc k) s" "m_quit s'"
        "\<forall>j < k. \<not> m_quit (turns handle exec inp n (Suc j) s)" by auto
    have "\<not> m_quit (turns handle exec inp n j s)" if "j < Suc k" for j
      using k(3) that False by (cases j) auto
    then show ?thesis using k(1,2) by blast
  qed
qed

lemma loop_from_turns:
  "m_quit (turns handle exec inp n k s) \<Longrightarrow> \<forall>j < k. \<not> m_quit (turns handle exec inp n j s) \<Longrightarrow>
   loop_from handle exec inp n s = Some (turns handle exec inp n k s)"
proof (induction k arbitrary: n s)
  case 0
  then show ?case by (simp add: loop_from.simps)
next
  case (Suc k)
  have "\<not> m_quit s" using Suc.prems(2) by (metis turns.simps(1) zero_less_Suc)
  moreover have "\<forall>j < k. \<not> m_quit (turns handle exec inp (n + 1) j (loop_turn handle exec (inp n) s))"
    using Suc.prems(2) by (metis Suc_less_eq turns.simps(2))
  ultimately show ?case using Suc by (subst loop_from.simps) simp
qed

text \<open>
  The loop returns exactly when some turn leaves it told to quit, at the first such turn, and a loop
  that has returned has run its close callbacks, holds none, and says that it has stopped.
\<close>
theorem loop_returns_iff:
  "(loop_from handle exec inp n s = None \<longleftrightarrow> (\<forall>k. \<not> m_quit (turns handle exec inp n k s)))
   \<and> Loop handle exec inp self 0 s = map_option (\<lambda>s2.
       (self, (run_tasks exec (mLoopCloseCallbacks s2) s2)\<lparr>mLoopCloseCallbacks := [], m_stoped := True\<rparr>))
       (loop_from handle exec inp 0 s)"
proof -
  have "loop_from handle exec inp n s \<noteq> None" if "m_quit (turns handle exec inp n k s)" for k
  proof -
    define j where "j = (LEAST j. m_quit (turns handle exec inp n j s))"
    have "m_quit (turns handle exec inp n j s)" "\<forall>i < j. \<not> m_quit (turns handle exec inp n i s)"
      unfolding j_def using that by (auto intro: LeastI dest: not_less_Least)
    from loop_from_turns [OF this] show ?thesis by simp
  qed
  moreover have "\<exists>k. m_quit (turns handle exec inp n k s)" if "loop_from handle exec inp n s \<noteq> None"
  proof -
    from that obtain r where "loop_from handle exec inp n s = Some r" by blast
    from loop_from_Some [OF this] show ?thesis by blast
  qed
  ultimately have "loop_from handle exec inp n s = None \<longleftrightarrow> (\<forall>k. \<not> m_quit (turns handle exec inp n k s))" by blast
  then show ?thesis by (simp add: Loop_def Let_def)
qed

section \<open>Stopping\<close>

lemma forced_turn:
  assumes "m_forceQuit (meanwhile (inp n) s)"
  shows "m_forceQuit (loop_turn handle exec (inp n) s) \<and> m_quit (loop_turn handle exec (inp n) s) = m_quit (meanwhile (inp n) s)"
proof -
  have "run_events handle es r = r" "run_tasks exec fs r = r" if "m_forceQuit r" for es fs r
    using that by (induction es) (auto, cases fs, auto)
  then show ?thesis using assms by (simp add: loop_turn_def Let_def split: prod.split)
qed

text \<open>
  C19. Asked to stop gracefully a loop returns after the turn it is in; asked to stop by force it never
  returns, unless another thread also asks it to quit: the flag of the forced stop keeps every event and
  task from running, but the condition of the loop does not read it. \<open>FTcpServer::stop(true)\<close>, which
  waits for the loop, does not return either.
\<close>
theorem forced_stop_never_ends:
  assumes "\<not> m_quit s" "\<And>n r. m_forceQuit r \<Longrightarrow> \<not> m_quit r \<Longrightarrow> m_forceQuit (meanwhile (inp n) r) \<and> \<not> m_quit (meanwhile (inp n) r)"
  shows "loop_from handle exec inp n (request_stop forceClose s) = (if forceClose then None else Some (Quit s))"
proof (cases forceClose)
  case True
  have "\<not> m_quit (turns handle exec inp n k r)" if "m_forceQuit r" "\<not> m_quit r" for k n r
    using that
  proof (induction k arbitrary: n r)
    case (Suc k)
    then show ?case using assms(2) [of r n] forced_turn [of inp n r handle exec] by simp
  qed simp
  then have "\<not> m_quit (turns handle exec inp n k (ForceQuit s))" for k using assms(1) by (simp add: ForceQuit_def)
  then have "loop_from handle exec inp n (ForceQuit s) = None"
    using loop_from_Some by (metis not_Some_eq)
  then show ?thesis using True by (simp add: request_stop_def)
next
  case False
  then show ?thesis by (subst loop_from.simps) (simp add: request_stop_def Quit_def)
qed

text \<open>
  The variable that says which loop a thread runs is never reset, so on a thread that has run a loop
  before, or is running one, a second loop takes no turn: it quits at once, whatever is ready, runs its
  close callbacks and stops.
\<close>
theorem second_loop_takes_no_turn:
  assumes "this_thread_loop \<noteq> 0"
  shows "Loop handle exec inp self this_thread_loop s =
    Some (this_thread_loop, (run_tasks exec (mLoopCloseCallbacks s) (Quit s))\<lparr>mLoopCloseCallbacks := [], m_stoped := True\<rparr>)"
  using assms by (subst Loop_def, subst loop_from.simps) (simp add: Quit_def)

section \<open>The work of a turn\<close>

text \<open>A program whose tasks only note that they ran and post further tasks.\<close>

record 't logged_loop = "'t event_loop" +
  ran :: "'t list"

definition note_and_post :: "('t \<Rightarrow> 't list) \<Rightarrow> 't \<Rightarrow> 't logged_loop \<Rightarrow> 't logged_loop" where
  "note_and_post posts func s = foldl (\<lambda>s t. AddTask t s) (s\<lparr>ran := ran s @ [func]\<rparr>) (posts func)"

lemma post_all:
  "foldl (\<lambda>s t. AddTask t s) s ts = s\<lparr>m_timeQueue := (m_timeQueue s)\<lparr>m_curTasks := m_curTasks (m_timeQueue s) @ ts\<rparr>\<rparr>"
  by (induction ts arbitrary: s) (simp_all add: AddTask_def tq_AddTask_def)

lemma run_noted:
  assumes "\<not> m_forceQuit s"
  shows "run_tasks (note_and_post posts) fs s =
    s\<lparr>m_timeQueue := (m_timeQueue s)\<lparr>m_curTasks := m_curTasks (m_timeQueue s) @ concat (map posts fs)\<rparr>, ran := ran s @ fs\<rparr>"
  using assms by (induction fs arbitrary: s) (simp_all add: note_and_post_def post_all)

text \<open>
  A turn runs the posted tasks in the order they were posted and then the timers that are due, in the
  order of their times, each once; the tasks that these post in turn wait for the next turn, so tasks
  that post themselves do not keep the loop from polling.
\<close>
theorem turn_runs_posted_and_due:
  assumes "tq_wf (m_timeQueue s)" "\<not> m_forceQuit s"
  shows "let due = m_curTasks (m_timeQueue s) @ map (\<lambda>e. snd (snd e)) (filter (\<lambda>e. fst e \<le> t) (live (m_timeQueue s)));
      s' = loop_turn handle (note_and_post posts) \<lparr>reported = None, alive = al, meanwhile = \<lambda>s. s, tick_time = t\<rparr> s
    in ran s' = ran s @ due \<and> m_curTasks (m_timeQueue s') = concat (map posts due)
      \<and> live (m_timeQueue s') = filter (\<lambda>e. t < fst e) (live (m_timeQueue s))"
proof -
  obtain fs q where T: "tq_Tick (m_timeQueue s) t = (fs, q)" by fastforce
  have q: "fs = m_curTasks (m_timeQueue s) @ map (\<lambda>e. snd (snd e)) (filter (\<lambda>e. fst e \<le> t) (live (m_timeQueue s)))"
      "m_curTasks q = []" "live q = filter (\<lambda>e. t < fst e) (live (m_timeQueue s))"
    using Tick_correct [OF assms(1), of t] T by simp_all
  have "loop_turn handle (note_and_post posts) \<lparr>reported = None, alive = al, meanwhile = \<lambda>s. s, tick_time = t\<rparr> s
      = run_tasks (note_and_post posts) fs (s\<lparr>m_timeQueue := q\<rparr>)"
    by (simp add: loop_turn_def listen_def T)
  then show ?thesis using q assms(2) by (simp add: run_noted live_def)
qed

section \<open>Witnesses\<close>

definition quiet :: "'t logged_loop turn_input" where
  "quiet = \<lparr>reported = None, alive = \<lambda>_. True, meanwhile = \<lambda>s. s, tick_time = 10\<rparr>"

definition small_loop :: "string logged_loop" where
  "small_loop = \<lparr>m_stoped = False, m_quit = False, m_forceQuit = False,
     m_timeQueue = tq_AddTask (snd (tq_AddTaskAt (FTimeQueue_new 0) ''timer'' 5)) ''posted'',
     m_listener = \<lparr>m_pollEvents = [], ctl_log = []\<rparr>, mLoopCloseCallbacks = [''close''], mIdCounter = 1, ran = []\<rparr>"

theorem forced_stop_never_ends_witness:
  "loop_from (\<lambda>_ _ s. s) (note_and_post (\<lambda>_. [])) (\<lambda>_. quiet) 0 (request_stop True small_loop) = None
   \<and> loop_from (\<lambda>_ _ s. s) (note_and_post (\<lambda>_. [])) (\<lambda>_. quiet) 0 (request_stop False small_loop) = Some (Quit small_loop)"
proof -
  note t = forced_stop_never_ends [where s = small_loop and n = 0 and inp = "\<lambda>_. quiet" and handle = "\<lambda>_ _ s. s"
      and exec = "note_and_post (\<lambda>_. [])"]
  show ?thesis using t [of True] t [of False] by (simp add: small_loop_def quiet_def)
qed

theorem second_loop_takes_no_turn_witness:
  "map_option (\<lambda>r. ran (snd r)) (Loop (\<lambda>_ _ s. s) (note_and_post (\<lambda>_. [])) (\<lambda>_. quiet) 64 32 small_loop) = Some [''close'']"
  using second_loop_takes_no_turn [of 32 "\<lambda>_ _ s. s" "note_and_post (\<lambda>_. [])" "\<lambda>_. quiet" 64 small_loop]
  by (simp add: small_loop_def note_and_post_def Quit_def)

theorem turn_runs_posted_and_due_witness:
  "ran (loop_turn (\<lambda>_ _ s. s) (note_and_post (\<lambda>t. [t])) \<lparr>reported = None, alive = \<lambda>_. True, meanwhile = \<lambda>s. s, tick_time = 10\<rparr> small_loop)
     = [''posted'', ''timer'']"
proof -
  have "tq_wf (snd (tq_AddTaskAt (FTimeQueue_new 0) ''timer'' 5))"
    using AddTaskAt_correct [OF conjunct1 [OF new_tq_wf], of 0 "''timer''" 5]
    by (simp add: FTimeQueue_new_def del: One_nat_def)
  then have wf: "tq_wf (m_timeQueue small_loop)" by (simp add: small_loop_def tq_wf_def tq_AddTask_def)
  from turn_runs_posted_and_due [OF wf, where t = 10 and handle = "\<lambda>_ _ s. s" and posts = "\<lambda>t. [t]" and al = "\<lambda>_. True"]
  show ?thesis
    by (simp add: Let_def small_loop_def live_def tq_AddTask_def tq_AddTaskAt_def FTimeQueue_new_def)
qed

end
