(* ===== verification/FServerMain.thy ===== *)
theory FServerMain
  imports FPages FSocket FEventLoop
begin

text \<open>
  The blog server around its parts (\<open>Server/src/Server/server.cpp\<close>): what the constructor takes from the
  configuration, the measuring of the photos that have no dimensions yet, the loop that ticks the services
  until a shutdown is asked for; and the client that sends a certificate to the picture host
  (\<open>Server/src/Service/QiNiuSSLCertUpdate.cpp\<close>). Clocks, the operating system and OpenSSL are arguments.
\<close>

section \<open>The start\<close>

definition database_path :: "string \<Rightarrow> cfg_reader \<Rightarrow> string" where
  "database_path BlogDataBasePath cfg = (case fst (getCfg cfg ''Database'') of Some d \<Rightarrow> d | None \<Rightarrow> BlogDataBasePath)"

text \<open>Milliseconds; \<open>std::stoul\<close> of the text is kept in 32 bits, and throws for a text without digits, which
  \<open>isNumber\<close> lets through.\<close>

definition fileCacheHoldTimeMs :: "cfg_reader \<Rightarrow> std_error + u32" where
  "fileCacheHoldTimeMs cfg =
     (case fst (getCfg cfg ''FileCacheHoldTime'') of
        None \<Rightarrow> Inr (1000 * 60 * 60)
      | Some v \<Rightarrow> if isNumber v then map_sum id word_of_nat (std_stoul v) else Inr (1000 * 60 * 60))"

text \<open>The tasks for the pool: identifier and URL of each photo without dimensions.\<close>

definition backfill_task :: "field_val list \<Rightarrow> u64 \<times> string" where
  "backfill_task row = (case row of [U64 i, Str url] \<Rightarrow> (i, url) | _ \<Rightarrow> (0, []))"

definition backfill :: "'db runner \<Rightarrow> 'db \<Rightarrow> (u64 \<times> string) thread_pool \<Rightarrow>
    ((u64 \<times> string) thread_pool, 'db) page_result" where
  "backfill run db pool =
     p_bind (p_query (QueryPhotosMissingDims run db))
       (\<lambda>missingDims db. (Inr (foldl (\<lambda>pool row. tp_submit (backfill_task row) pool) pool missingDims), db))"

section \<open>The loop of the server\<close>

record ('db, 'c, 'd) server =
  shouldClose :: bool
  sv_site :: "('db, 'c) site"
  sv_sessions :: "'d session_manager"

text \<open>The tick events of \<open>init\<close>, in the order of their registration: the file cache, the sessions, the
  counters; the one of the templates does nothing. Before them the tick runs the event that
  \<open>FHttpServer\<close> registers, \<open>checkRouteCache\<close> of \<open>FRouter\<close>, which concerns the router only.\<close>

definition server_tick :: "('c, string, file_cache_line) tbb_ops \<Rightarrow> ('d, string, session_data) tbb_ops \<Rightarrow> 'db runner \<Rightarrow>
    u64 \<Rightarrow> ('db, 'c, 'd) server \<Rightarrow> (unit, ('db, 'c, 'd) server) page_result" where
  "server_tick TF TS run time_ms s =
     (let site = (sv_site s)\<lparr>site_files := fc_checkOverdue TF (site_files (sv_site s)) time_ms\<rparr>;
          sessions = sess_checkOverdue TS (sv_sessions s) time_ms;
          (r, site') = syncData run site
      in (r, s\<lparr>sv_site := site', sv_sessions := sessions\<rparr>))"

text \<open>\<open>run\<close> after the start of the threads, from its round \<open>n\<close> on: \<open>others n\<close> is what other threads do
  in the twenty seconds of its sleep, \<open>time n\<close> the clock after it. An exception of a tick ends the
  program; otherwise the result is the state in which the TCP server is told to stop.\<close>

partial_function (option) server_run :: "(u64 \<Rightarrow> ('db, 'c, 'd) server \<Rightarrow> (unit, ('db, 'c, 'd) server) page_result) \<Rightarrow>
    (nat \<Rightarrow> ('db, 'c, 'd) server \<Rightarrow> ('db, 'c, 'd) server) \<Rightarrow> (nat \<Rightarrow> u64) \<Rightarrow> nat \<Rightarrow> ('db, 'c, 'd) server \<Rightarrow>
    (unit, ('db, 'c, 'd) server) page_result option" where
  "server_run tick others time n s =
     (if shouldClose s then Some (Inr (), s)
      else (case tick (time n) (others n s) of
              (Inl e, s1) \<Rightarrow> Some (Inl e, s1)
            | (Inr _, s1) \<Rightarrow> server_run tick others time (n + 1) s1))"

text \<open>\<open>shutdownServer\<close>, by the request of \<open>ctl_Shutdown\<close>.\<close>

definition shutdown :: "('db, 'c, 'd) server \<Rightarrow> ('db, 'c, 'd) server" where
  "shutdown s = s\<lparr>shouldClose := True\<rparr>"

text \<open>\<open>CurThreadCleanCallback\<close>: only a thread that runs a loop keeps the callback.\<close>

definition CurThreadCleanCallback :: "'t \<Rightarrow> ('t, 'z) event_loop_scheme option \<Rightarrow> ('t, 'z) event_loop_scheme option" where
  "CurThreadCleanCallback callback loop = map_option (addLoopCloseCallback callback) loop"

section \<open>The certificate of the picture host\<close>

definition c_str :: "string \<Rightarrow> string" where
  "c_str s = takeWhile (\<lambda>c. c \<noteq> NUL) s"

definition url_safe :: "char \<Rightarrow> char" where
  "url_safe c = (if c = CHR ''+'' then CHR ''-'' else if c = CHR ''/'' then CHR ''_'' else c)"

text \<open>\<open>hmac_sha1 data key\<close> and \<open>base64\<close> are OpenSSL's.\<close>

definition genQiNiuAuth :: "(string \<Rightarrow> string \<Rightarrow> string) \<Rightarrow> (string \<Rightarrow> string) \<Rightarrow> string \<Rightarrow> string \<Rightarrow> string \<Rightarrow>
    string option \<Rightarrow> string option \<Rightarrow> string" where
  "genQiNiuAuth hmac_sha1 base64 Ak Sk path query body =
     (let str = path @ (case query of Some q \<Rightarrow> ''?'' @ q @ [CHR 0x0A] | None \<Rightarrow> [])
            @ (case body of Some b \<Rightarrow> b | None \<Rightarrow> []);
          digest = base64 (hmac_sha1 str Sk)
      in Ak @ '':'' @ map url_safe (takeWhile (\<lambda>c. c \<noteq> CHR ''='') digest))"

text \<open>The members of the JSON object that is the body.\<close>

definition qiniu_body :: "string \<Rightarrow> int \<Rightarrow> string \<Rightarrow> string \<Rightarrow> (string \<times> string) list" where
  "qiniu_body domain now pri ca =
     [(''name'', domain @ ''_server_ssl_'' @ int_to_string now), (''common_name'', domain), (''pri'', pri), (''ca'', ca)]"

text \<open>The request: the body is signed, but never set.\<close>

definition qiniu_builder :: "string \<Rightarrow> request_builder" where
  "qiniu_builder token =
     rb_addHeader (rb_addHeader (rb_setUrl (rb_setMethod (RequestBuilder_new M_POST) M_POST) ''/sslcert'')
       ''Content-Type'' ''application/json'') ''Authorization'' token"

datatype qiniu_fault = Empty_optional

definition QiNiuCertApi :: string where "QiNiuCertApi = ''http://api.qiniu.com/''"

text \<open>\<open>resolve\<close> is \<open>ResolveHost\<close> with the port, \<open>dump\<close> the text of the JSON object with these members, \<open>now\<close>
  the clock's count and \<open>junk\<close> the uninitialised descriptor. The access key is used also when the
  configuration has none. The answer of the host is only logged.\<close>

definition updateQiNiuSSLCert :: "'k kernel \<Rightarrow> (string \<Rightarrow> u16 \<Rightarrow> bool \<times> FSocketAddr list) \<Rightarrow>
    (string \<Rightarrow> string \<Rightarrow> string) \<Rightarrow> (string \<Rightarrow> string) \<Rightarrow> ((string \<times> string) list \<Rightarrow> string) \<Rightarrow> int \<Rightarrow>
    cfg_reader \<Rightarrow> string \<Rightarrow> string \<Rightarrow> string \<Rightarrow> 'k \<Rightarrow> (qiniu_fault + bool) \<times> 'k" where
  "updateQiNiuSSLCert K resolve hmac_sha1 base64 dump now cfg pri ca domain k =
     (let ak = fst (getCfg cfg ''QiNiu_Ak''); sk = fst (getCfg cfg ''QiNiu_Sk'')
      in case sk of None \<Rightarrow> (Inr False, k)
       | Some sk \<Rightarrow>
           (let (resolved, addrs) = resolve QiNiuCertApi 80
            in if addrs = [] \<or> \<not> resolved then (Inr False, k)
               else case ak of None \<Rightarrow> (Inl Empty_optional, k)
               | Some ak \<Rightarrow>
                   (let body = dump (qiniu_body domain now pri ca);
                        token = genQiNiuAuth hmac_sha1 base64 (c_str ak) (c_str sk) ''/sslcert'' None (Some (c_str body));
                        (_, s, k1) = Create K k;
                        (status, k2) = Connect K s (hd addrs) k1
                    in if status \<noteq> Success then (Inr False, snd (Close K s k2))
                       else (let (_, k3) = SetSockOpt_int K s SendTimeOut 5 k2;
                                 (_, k4) = SetSockOpt_int K s ReadTimeOut 5 k3;
                                 (sent, _, k5) = Send_sock K s (rb_build (qiniu_builder token)) k4
                             in if sent \<noteq> Success then (Inr False, snd (Close K s k5))
                                else (let (_, _, _, k6) = Recv_sock K s 1023 RF_None k5
                                      in (Inr True, snd (Close K s k6)))))))"

section \<open>Upkeep\<close>

text \<open>
  A tick of the server does the upkeep of every service, each with the same time: it drops the overdue
  files and the overdue sessions and no others, and writes the counter of the views; then it reads the
  number of the articles, which is the only step that can fail, and keeps the old number if it does.
\<close>
theorem server_tick_upkeep:
  assumes "tbb_ok TF" "tbb_ok TS" "server_tick TF TS run t s = (r, s')"
  shows "(\<forall>path. tfind TF (mmap (site_files (sv_site s'))) path =
        (case tfind TF (mmap (site_files (sv_site s))) path of
           None \<Rightarrow> None | Some line \<Rightarrow> if fc_overdue (site_files (sv_site s)) t line then None else Some line))
    \<and> (\<forall>i. tfind TS (mSessionMap (sv_sessions s')) i =
        (case tfind TS (mSessionMap (sv_sessions s)) i of
           None \<Rightarrow> None | Some sd \<Rightarrow> if session_overdue (sv_sessions s) t sd then None else Some sd))
    \<and> (let db = snd (execute run (view_times_stmt (mBlogTotalViewTimes (sv_site s))) (site_db (sv_site s)));
           (rd, db') = p_count (fetch_first run (ToEntity [K64]) total_blogs_stmt db)
       in site_db (sv_site s') = db'
          \<and> (r = Inr () \<longleftrightarrow> (\<exists>row. rd = Inr row))
          \<and> mBlogTotalBlogs (sv_site s') = (case rd of Inr [U64 n] \<Rightarrow> n | _ \<Rightarrow> mBlogTotalBlogs (sv_site s)))
    \<and> mBlogTotalViewTimes (sv_site s') = mBlogTotalViewTimes (sv_site s) \<and> shouldClose s' = shouldClose s"
proof -
  let ?db = "snd (execute run (view_times_stmt (mBlogTotalViewTimes (sv_site s))) (site_db (sv_site s)))"
  obtain rd db' where f: "p_count (fetch_first run (ToEntity [K64]) total_blogs_stmt ?db) = (rd, db')" by force
  have "site_files (sv_site s') = fc_checkOverdue TF (site_files (sv_site s)) t"
    "sv_sessions s' = sess_checkOverdue TS (sv_sessions s) t"
    "site_db (sv_site s') = db'" "r = Inr () \<longleftrightarrow> (\<exists>row. rd = Inr row)" "shouldClose s' = shouldClose s"
    "mBlogTotalViewTimes (sv_site s') = mBlogTotalViewTimes (sv_site s)"
    "mBlogTotalBlogs (sv_site s') = (case rd of Inr [U64 n] \<Rightarrow> n | _ \<Rightarrow> mBlogTotalBlogs (sv_site s))"
    using assms(3) f
    by (auto simp: server_tick_def syncData_def Let_def with_db_def p_bind_def case_prod_beta
        split: sum.splits list.splits field_val.splits prod.splits)
  then show ?thesis
    using f by (simp add: fc_checkOverdue_find [OF assms(1)] checkOverdue_find [OF assms(2)])
qed

lemma server_run_asked:
  "server_run tick others time n s = Some r \<Longrightarrow>
   (\<forall>t s. \<exists>s1. tick t s = (Inr (), s1) \<and> shouldClose s1 = shouldClose s) \<Longrightarrow>
   (\<forall>n s. \<not> shouldClose s \<longrightarrow> \<not> shouldClose (others n s)) \<Longrightarrow> shouldClose s"
proof (induction rule: server_run.raw_induct [rotated 1, consumes 1])
  case (1 sr tick others time n s r)
  obtain s1 where t: "tick (time n) (others n s) = (Inr (), s1)" "shouldClose s1 = shouldClose (others n s)"
    using 1(3) by blast
  show ?case
  proof (rule ccontr)
    assume c: "\<not> shouldClose s"
    then have "sr tick others time (n + 1) s1 = Some r" using 1(2) t(1) by simp
    from 1(1) [OF this 1(3,4)] show False using t(2) c 1(4) by simp
  qed
qed

text \<open>
  The server runs until it is told to shut down: as long as nobody asks and no tick fails it does not
  return; asked in some round, it ticks once more and returns; a tick that throws ends it in its round.
\<close>
theorem server_run_ends:
  assumes "\<And>t s r s1. tick t s = (r, s1) \<Longrightarrow> shouldClose s1 = shouldClose s"
  shows "(\<not> shouldClose s \<and> (\<forall>n s. \<not> shouldClose s \<longrightarrow> \<not> shouldClose (others n s)) \<and> (\<forall>t s. \<exists>s1. tick t s = (Inr (), s1))
      \<longrightarrow> server_run tick others time n s = None)
    \<and> (\<not> shouldClose s \<and> others n s = shutdown s1 \<longrightarrow> server_run tick others time n s = Some (tick (time n) (shutdown s1)))
    \<and> (\<not> shouldClose s \<and> tick (time n) (others n s) = (Inl e, s2) \<longrightarrow> server_run tick others time n s = Some (Inl e, s2))"
proof (intro conjI impI)
  assume a: "\<not> shouldClose s \<and> (\<forall>n s. \<not> shouldClose s \<longrightarrow> \<not> shouldClose (others n s)) \<and> (\<forall>t s. \<exists>s1. tick t s = (Inr (), s1))"
  have "server_run tick others time n s \<noteq> Some r" for r
    using server_run_asked [of tick others time n s r] a assms by blast
  then show "server_run tick others time n s = None" by (metis not_None_eq)
next
  assume a: "\<not> shouldClose s \<and> others n s = shutdown s1"
  obtain r s2 where t: "tick (time n) (shutdown s1) = (r, s2)" by force
  have "shouldClose s2" using assms [OF t] by (simp add: shutdown_def)
  then show "server_run tick others time n s = Some (tick (time n) (shutdown s1))"
    using a t server_run.simps [of tick others time "n + 1" s2] by (subst server_run.simps) (auto split: sum.split)
next
  assume "\<not> shouldClose s \<and> tick (time n) (others n s) = (Inl e, s2)"
  then show "server_run tick others time n s = Some (Inl e, s2)" by (subst server_run.simps) simp
qed


section \<open>Measuring the photos that have no dimensions\<close>

lemma submit_all:
  "submitted (foldl (\<lambda>pool row. tp_submit (f row) pool) pool rows) = submitted pool @ map f rows"
  by (induction rows arbitrary: pool) (simp_all add: tp_submit_def)

lemma submit_all_reach:
  "tp_reach n pool \<Longrightarrow> \<not> stop pool \<Longrightarrow> tp_reach n (foldl (\<lambda>pool row. tp_submit (f row) pool) pool rows)"
proof (induction rows arbitrary: pool)
  case (Cons row rows)
  have "tp_reach n (tp_submit (f row) pool)" using Cons.prems by (blast intro: tp_next submit_outside)
  then show ?case using Cons by (simp add: tp_submit_def)
qed simp

lemma submitted_grows: "tp_step\<^sup>*\<^sup>* s s' \<Longrightarrow> \<exists>more_tasks. submitted s' = submitted s @ more_tasks"
proof (induction rule: rtranclp_induct)
  case (step y z)
  from step(2) have "\<exists>ts. submitted z = submitted y @ ts"
    by cases (auto simp: tp_submit_def worker_turn_def tp_stop_def tp_notify_all_def elim!: tp_moveE)
  then show ?case using step(3) by auto
qed simp

lemma reach_steps: "tp_step\<^sup>*\<^sup>* s s' \<Longrightarrow> tp_reach n s \<Longrightarrow> tp_reach n s'"
  by (induction rule: rtranclp_induct) (auto intro: tp_next)

text \<open>
  Every photo that has no dimensions when the server starts is given to the pool, in the order of the
  rows; whenever the pool has nothing left to do, all of them have begun, each once for its row, behind
  what was there before.
\<close>
theorem missing_dimensions_are_measured:
  assumes "tp_reach n pool" "\<not> stop pool" "fst (QueryPhotosMissingDims run db) = Inr rows"
    "backfill run db pool = (r, db')"
  shows "\<exists>pool'. r = Inr pool' \<and> tp_reach n pool'
    \<and> (\<forall>s. tp_step\<^sup>*\<^sup>* pool' s \<and> tasks s = [] \<longrightarrow>
         (\<exists>more_tasks. begun s = submitted pool @ map backfill_task rows @ more_tasks))"
proof -
  let ?pool' = "foldl (\<lambda>pool row. tp_submit (backfill_task row) pool) pool rows"
  have r: "r = Inr ?pool'"
    using assms(3,4) by (auto simp: backfill_def p_query_def p_bind_def case_prod_beta)
  have reach: "tp_reach n ?pool'" by (rule submit_all_reach [OF assms(1,2)])
  have "\<exists>more_tasks. begun s = submitted pool @ map backfill_task rows @ more_tasks"
    if s: "tp_step\<^sup>*\<^sup>* ?pool' s" "tasks s = []" for s
  proof -
    have "submitted s = begun s @ tasks s"
      using tp_reach_inv [OF reach_steps [OF s(1) reach]] by (simp add: tp_inv_def)
    then show ?thesis using submitted_grows [OF s(1)] s(2) submit_all [of backfill_task pool rows] by auto
  qed
  then show ?thesis using r reach by blast
qed


section \<open>The upload of the certificate\<close>

text \<open>
  The token is the access key and the digest in the URL-safe alphabet without padding, from which the
  digest can be read back.
\<close>
theorem token_reads_back:
  assumes "\<And>x. set (base64 x) \<inter> {CHR ''-'', CHR ''_''} = {}"
    "hmac_sha1 (path @ (case body of Some b \<Rightarrow> b | None \<Rightarrow> [])) Sk = mac"
  shows "\<exists>t. genQiNiuAuth hmac_sha1 base64 Ak Sk path None body = Ak @ '':'' @ t
    \<and> set t \<inter> {CHR ''+'', CHR ''/'', CHR ''=''} = {}
    \<and> map (\<lambda>c. if c = CHR ''-'' then CHR ''+'' else if c = CHR ''_'' then CHR ''/'' else c) t
        = takeWhile (\<lambda>c. c \<noteq> CHR ''='') (base64 mac)"
proof -
  let ?d = "takeWhile (\<lambda>c. c \<noteq> CHR ''='') (base64 mac)"
  have "c \<noteq> CHR ''='' \<and> c \<noteq> CHR ''-'' \<and> c \<noteq> CHR ''_''" if "c \<in> set ?d" for c
    using that assms(1) [of mac] by (auto dest: set_takeWhileD)
  then have "map (\<lambda>c. if c = CHR ''-'' then CHR ''+'' else if c = CHR ''_'' then CHR ''/'' else c) (map url_safe ?d) = ?d"
    "set (map url_safe ?d) \<inter> {CHR ''+'', CHR ''/'', CHR ''=''} = {}"
    by (auto simp: url_safe_def map_idI)
  moreover have "genQiNiuAuth hmac_sha1 base64 Ak Sk path None body = Ak @ '':'' @ map url_safe ?d"
    using assms(2) by (simp add: genQiNiuAuth_def Let_def)
  ultimately show ?thesis by blast
qed

theorem token_reads_back_witness:
  "genQiNiuAuth (\<lambda>d k. d) (\<lambda>d. ''a+/b='') ''key'' ''secret'' ''/sslcert'' None None = ''key:a-_b''"
proof -
  from token_reads_back [of "\<lambda>d. ''a+/b=''" "\<lambda>d k. d" "''/sslcert''" None "''secret''" "''/sslcert''" "''key''"]
  obtain t where "genQiNiuAuth (\<lambda>d k. d) (\<lambda>d. ''a+/b='') ''key'' ''secret'' ''/sslcert'' None None = ''key'' @ '':'' @ t" by auto
  then show ?thesis by (simp add: genQiNiuAuth_def url_safe_def)
qed

text \<open>What the system documents of sockets: \<open>opens\<close> are the open descriptors.\<close>

definition socket_laws :: "'k kernel \<Rightarrow> ('k \<Rightarrow> int set) \<Rightarrow> bool" where
  "socket_laws K opens \<longleftrightarrow>
     (\<forall>t p k. let (s, k') = k_socket K t p k in
        if s = -1 then opens k' = opens k else s \<notin> opens k \<and> opens k' = insert s (opens k))
   \<and> (\<forall>s a p k. opens (snd (k_connect K s a p k)) = opens k)
   \<and> (\<forall>s l n v k. opens (snd (k_setsockopt K s l n v k)) = opens k)
   \<and> (\<forall>s d k. opens (snd (k_send K s d k)) = opens k)
   \<and> (\<forall>s n f k. opens (snd (k_recv K s n f k)) = opens k)
   \<and> (\<forall>s k. -1 \<notin> opens k \<and> opens (snd (k_close K s k)) = opens k - {s})"

lemma socket_calls:
  assumes "socket_laws K opens"
  shows "opens (snd (Connect K s a k)) = opens k" "opens (snd (SetSockOpt_int K s opt v k)) = opens k"
    "opens (snd (snd (Send_sock K s d k))) = opens k" "opens (snd (snd (snd (Recv_sock K s n rf k)))) = opens k"
    "opens (snd (Close K s k)) = opens k - {s}" "-1 \<notin> opens k"
    "Create K k = (st, c, k') \<Longrightarrow> if c = -1 then opens k' = opens k else c \<notin> opens k \<and> opens k' = insert c (opens k)"
proof -
  note L = assms [unfolded socket_laws_def Let_def]
  show "Create K k = (st, c, k') \<Longrightarrow> if c = -1 then opens k' = opens k else c \<notin> opens k \<and> opens k' = insert c (opens k)"
    using L [THEN conjunct1, rule_format, where t = SOCK_STREAM and p = Sock_prot_0 and k = k]
    by (simp add: Create_def case_prod_beta Let_def) auto
  show "opens (snd (Connect K s a k)) = opens k" "opens (snd (snd (Send_sock K s d k))) = opens k"
      "opens (snd (snd (snd (Recv_sock K s n rf k)))) = opens k" "opens (snd (Close K s k)) = opens k - {s}" "-1 \<notin> opens k"
    using L by (simp_all add: Connect_def Send_sock_def Recv_sock_def Close_def case_prod_beta Let_def)
  show "opens (snd (SetSockOpt_int K s opt v k)) = opens k"
    using L by (cases opt) (simp_all add: SetSockOpt_int_def)
qed

text \<open>
  The upload gives the socket back on every path; the request it sends has no body, so the certificate
  never leaves the server, and the result does not depend on the answer.
\<close>
theorem upload_sends_no_certificate:
  assumes "socket_laws K opens"
    "updateQiNiuSSLCert K resolve hmac_sha1 base64 dump now cfg pri ca domain k = (r, k')"
  shows "opens k' = opens k
    \<and> (\<forall>token. rb_build (qiniu_builder token) = ''POST /sslcert HTTP/1.1'' @ CRLF @ ''Authorization: '' @ token @ CRLF
         @ ''Content-Type: application/json'' @ CRLF @ ''Content-Length: 0'' @ CRLF @ CRLF)
    \<and> (r = Inr True \<longrightarrow> (\<exists>s token k1. fst (k_send K s (rb_build (qiniu_builder token)) k1) \<noteq> -1))"
proof -
  have sent_text: "rb_build (qiniu_builder token) = ''POST /sslcert HTTP/1.1'' @ CRLF @ ''Authorization: '' @ token @ CRLF
         @ ''Content-Type: application/json'' @ CRLF @ ''Content-Length: 0'' @ CRLF @ CRLF" for token
  proof -
    have "''Authorization'' < ''Content-Type''" and zero: "to_string 0 = ''0''" by code_simp+
    then have "headers_of (qiniu_builder token) = [(''Authorization'', token), (''Content-Type'', ''application/json'')]"
      by (simp add: qiniu_builder_def rb_addHeader_def rb_setUrl_def rb_setMethod_def RequestBuilder_new_def)
    then show ?thesis
      by (simp add: rb_build_def qiniu_builder_def rb_addHeader_def rb_setUrl_def rb_setMethod_def RequestBuilder_new_def
          zero)
  qed
  note C = socket_calls [OF assms(1)]
  let ?ak = "fst (getCfg cfg ''QiNiu_Ak'')" and ?sk = "fst (getCfg cfg ''QiNiu_Sk'')"
  obtain resolved addrs where res: "resolve QiNiuCertApi 80 = (resolved, addrs)" by force
  show ?thesis
  proof (cases "?sk = None \<or> addrs = [] \<or> \<not> resolved \<or> ?ak = None")
    case True
    then have "k' = k" "r \<noteq> Inr True"
      using assms(2) res by (auto simp: updateQiNiuSSLCert_def Let_def split: option.splits if_splits)
    then show ?thesis using sent_text by simp
  next
    case False
    then obtain ak sk where keys: "?ak = Some ak" "?sk = Some sk" "addrs \<noteq> []" "resolved" by auto
    define token where "token = genQiNiuAuth hmac_sha1 base64 (c_str ak) (c_str sk) ''/sslcert'' None
      (Some (c_str (dump (qiniu_body domain now pri ca))))"
    obtain st s k1 where cr: "Create K k = (st, s, k1)" by (metis prod_cases3)
    obtain cst k2 where co: "Connect K s (hd addrs) k1 = (cst, k2)" by force
    obtain o1 k3 where s1: "SetSockOpt_int K s SendTimeOut 5 k2 = (o1, k3)" by force
    obtain o2 k4 where s2: "SetSockOpt_int K s ReadTimeOut 5 k3 = (o2, k4)" by force
    obtain sst n k5 where se: "Send_sock K s (rb_build (qiniu_builder token)) k4 = (sst, n, k5)" by (metis prod_cases3)
    obtain rst m d k6 where rc: "Recv_sock K s 1023 RF_None k5 = (rst, m, d, k6)" by (metis prod_cases4)
    have result: "(r, k') = (if cst \<noteq> Success then (Inr False, snd (Close K s k2))
        else if sst \<noteq> Success then (Inr False, snd (Close K s k5)) else (Inr True, snd (Close K s k6)))"
      using assms(2) keys
      by (cases "cst = Success"; cases "sst = Success")
        (simp_all add: updateQiNiuSSLCert_def Let_def res cr co s1 s2 se [unfolded token_def] rc)
    have chain: "opens k2 = opens k1" "opens k3 = opens k2" "opens k4 = opens k3" "opens k5 = opens k4" "opens k6 = opens k5"
      using C(1) [of s "hd addrs" k1] C(2) [of s SendTimeOut 5 k2] C(2) [of s ReadTimeOut 5 k3]
        C(3) [of s "rb_build (qiniu_builder token)" k4] C(4) [of s 1023 RF_None k5] co s1 s2 se rc by simp_all
    have "opens k1 - {s} = opens k" using C(7) [OF cr] C(6) [of k] by (auto split: if_splits)
    then have "opens k' = opens k" using result chain C(5) by (auto split: if_splits)
    moreover have "fst (k_send K s (rb_build (qiniu_builder token)) k4) \<noteq> -1" if "r = Inr True"
      using that result se by (auto simp: Send_sock_def status_of_def case_prod_beta Let_def split: if_splits)
    ultimately show ?thesis using sent_text by blast
  qed
qed

text \<open>
  No upload is ever made: the name that is resolved is a URL, so while no name with a slash resolves
  (host names are letters, digits, hyphens and dots) the update fails without a call to the kernel.
\<close>
theorem upload_never_resolves:
  assumes "\<And>host service. CHR ''/'' \<in> set host \<Longrightarrow> gai host service = None"
  shows "updateQiNiuSSLCert K (\<lambda>host port. ResolveHost_port gai gni to_int inet_addr host port [])
      hmac_sha1 base64 dump now cfg pri ca domain k = (Inr False, k)"
proof -
  have "ResolveHost_port gai gni to_int inet_addr QiNiuCertApi 80 [] = (False, [])"
    using assms [of QiNiuCertApi] by (simp add: ResolveHost_port_def ResolveHost_def QiNiuCertApi_def)
  then show ?thesis by (simp add: updateQiNiuSSLCert_def Let_def split: option.split)
qed

section \<open>Instances\<close>

theorem server_tick_upkeep_witness:
  "tfind rbt_ops (mSessionMap (sv_sessions (snd (server_tick rbt_ops rbt_ops demo_run 9000
     \<lparr>shouldClose = False, sv_site = demo_site, sv_sessions = demo_sessions\<rparr>)))) ''id'' = None"
proof -
  let ?s = "\<lparr>shouldClose = False, sv_site = demo_site, sv_sessions = demo_sessions\<rparr>"
  obtain r s' where t: "server_tick rbt_ops rbt_ops demo_run 9000 ?s = (r, s')" by force
  have "tfind rbt_ops (mSessionMap demo_sessions) ''id'' = Some \<lparr>lastTime = 5000, sess_data = []\<rparr>"
    by (simp add: demo_sessions_def ch_insert_def tbb_simps [OF rbt_ops_ok])
  moreover have "session_overdue demo_sessions 9000 \<lparr>lastTime = 5000, sess_data = []\<rparr>"
    by (simp add: session_overdue_def demo_sessions_def)
  ultimately show ?thesis
    using server_tick_upkeep [OF rbt_ops_ok rbt_ops_ok t] t by simp
qed

theorem server_run_ends_witness:
  "\<exists>s. server_run (\<lambda>t s. (Inr (), s)) (\<lambda>n s. shutdown s) (\<lambda>_. 0) 0
     (\<lparr>shouldClose = False, sv_site = demo_site, sv_sessions = demo_sessions\<rparr>) = Some (Inr (), s) \<and> shouldClose s"
proof -
  let ?s = "\<lparr>shouldClose = False, sv_site = demo_site, sv_sessions = demo_sessions\<rparr>"
  have "server_run (\<lambda>t s. (Inr (), s)) (\<lambda>n s. shutdown s) (\<lambda>_. 0) 0 ?s = Some (Inr (), shutdown ?s)"
    using server_run_ends [of "\<lambda>t s. (Inr (), s)" ?s "\<lambda>n s. shutdown s" "\<lambda>_. 0" 0 ?s] by simp
  then show ?thesis by (simp add: shutdown_def)
qed

theorem missing_dimensions_are_measured_witness:
  "\<exists>pool'. fst (backfill (\<lambda>sql binds db. (None, [[(7, None), (0, Some ''u'')]], db)) () (ThreadPool_new 2)) = Inr pool'
     \<and> submitted pool' = [(7, ''u'')]"
proof -
  let ?run = "\<lambda>sql binds db. (None, [[(7, None), (0, Some ''u'')]], db) :: string option \<times> column list list \<times> unit"
  have rows: "fst (QueryPhotosMissingDims ?run ()) = Inr [[U64 7, Str ''u'']]"
    by (simp add: QueryPhotosMissingDims_def col_u64_def col_str_def)
  obtain r db' where b: "backfill ?run () (ThreadPool_new 2) = (r, db')" by (metis surj_pair)
  obtain pool' where p: "r = Inr pool'" "tp_reach 2 pool'"
    using missing_dimensions_are_measured [OF tp_start [of 2] _ rows b] by (auto simp: ThreadPool_new_def)
  then show ?thesis
    using b rows submit_all [of backfill_task "ThreadPool_new 2" "[[U64 7, Str ''u'']]"]
    by (auto simp: backfill_def p_query_def p_bind_def case_prod_beta ThreadPool_new_def backfill_task_def)
qed

text \<open>A kernel with one socket.\<close>

definition one_socket :: "bool kernel" where
  "one_socket = \<lparr>k_socket = (\<lambda>_ _ k. if k then (-1, k) else (3, True)), k_setsockopt = (\<lambda>_ _ _ _ k. (0, k)),
     k_getfl = (\<lambda>_ k. (0, k)), k_setfl = (\<lambda>_ _ k. (0, k)), k_bind = (\<lambda>_ _ _ k. (0, k)), k_listen = (\<lambda>_ _ k. (0, k)),
     k_accept = (\<lambda>_ k. ((-1, 0, 0), k)), k_connect = (\<lambda>_ _ _ k. (0, k)), k_send = (\<lambda>_ d k. (int (length d), k)),
     k_recv = (\<lambda>_ _ _ k. ((0, []), k)), k_shutdown = (\<lambda>_ _ k. k), k_close = (\<lambda>s k. (0, k \<and> s \<noteq> 3))\<rparr>"

lemma one_socket_laws: "socket_laws one_socket (\<lambda>k. if k then {3} else {})"
  by (auto simp: socket_laws_def one_socket_def)

definition qiniu_cfg :: cfg_reader where
  "qiniu_cfg = \<lparr>mCurEnv = Prod, mCfgMap = [(''QiNiu_Ak'', ''ak''), (''QiNiu_Sk'', ''sk'')], mUsedConfigs = {}\<rparr>"

theorem upload_sends_no_certificate_witness:
  "snd (updateQiNiuSSLCert one_socket (\<lambda>_ _. (True, [\<lparr>un_addr = 1, sa_port = 2\<rparr>])) (\<lambda>d k. d) (\<lambda>d. d) (\<lambda>_. ''{}'') 5 qiniu_cfg
     ''private'' ''cert'' ''a.b'' False) = False"
proof -
  obtain r k' where u: "updateQiNiuSSLCert one_socket (\<lambda>_ _. (True, [\<lparr>un_addr = 1, sa_port = 2\<rparr>])) (\<lambda>d k. d) (\<lambda>d. d)
      (\<lambda>_. ''{}'') 5 qiniu_cfg ''private'' ''cert'' ''a.b'' False = (r, k')" by force
  from upload_sends_no_certificate [OF one_socket_laws u] u show ?thesis by (auto split: if_splits)
qed

theorem upload_never_resolves_witness:
  "updateQiNiuSSLCert one_socket (\<lambda>host port. ResolveHost_port (\<lambda>h s. if CHR ''/'' \<in> set h then None else Some [()])
      (\<lambda>_. None) (\<lambda>_. 0) (\<lambda>_. 0) host port []) (\<lambda>d k. d) (\<lambda>d. d) (\<lambda>_. ''{}'') 5 qiniu_cfg
     ''private'' ''cert'' ''a.b'' False = (Inr False, False)"
  by (rule upload_never_resolves) simp

end
