(* ===== verification/FRouter.thy ===== *)
theory FRouter
  imports FConcurrentMap FPathMatcher FHttpDef
begin

text \<open>
  The router (\<open>FeiLib/src/Http/FRouter.cpp\<close>) and the registration of controllers
  (\<open>FController.h\<close>, \<open>FController.cpp\<close>): the table of controllers, one queue of patterns per method,
  ordered by priority, and one cache of routing results per method with a sweep of idle entries.

  A controller pointer is a number (its identity is what the code compares), a controller function a
  value of the type variable \<open>'f\<close>. The clock's readings are arguments. The spin flags that separate
  \<open>route\<close> from \<open>unregController\<close> are the subject of the theory \<open>FRouterFlags\<close>; here each operation
  is what it does between them.
\<close>

section \<open>State\<close>

record 'f pattern_entry =
  pe_priority :: u64
  requestMethod :: http_method
  PathMatcher :: path_matcher
  ControllerFunc :: 'f
  ControllerBase :: nat

record 'f route_result =
  pathVariable :: path_var
  controllerFunc :: "'f option"
  controllerSave :: "nat option"

definition rr_isvalid :: "'f route_result \<Rightarrow> bool" where
  "rr_isvalid res \<longleftrightarrow> controllerSave res \<noteq> None"

definition RouteResult_new :: "'f route_result" where
  "RouteResult_new = \<lparr>pathVariable = [], controllerFunc = None, controllerSave = None\<rparr>"

record 'f route_cache =
  cacheTime :: u64
  rc_result :: "'f route_result"

record ('cm, 'rc, 'oq) router =
  mControllerMap :: 'cm
  mRouteCaches :: "'rc list"
  mControllerOrderQueue :: "'oq list"
  hasLateInit :: bool
  lastCheckTime :: u64

text \<open>The libraries the router is built on.\<close>

record ('cm, 'rc, 'oq, 'f) router_libs =
  cmT :: "('cm, string, nat) tbb_ops"
  rcT :: "('rc, string, 'f route_cache) tbb_ops"
  oqT :: "('oq, u64, 'f pattern_entry) tbb_ops"
  reR :: re2_ops

datatype router_error =
  RouterDuplicateRegister string
| RouterInvalidControllerName string
| MatcherException std_error
| AssertionFailed

definition FRouter_new :: "('cm, 'rc, 'oq, 'f) router_libs \<Rightarrow> ('cm, 'rc, 'oq) router" where
  "FRouter_new L = \<lparr>mControllerMap = tempty (cmT L), mRouteCaches = replicate MAX_SIZE (tempty (rcT L)),
     mControllerOrderQueue = replicate MAX_SIZE (tempty (oqT L)), hasLateInit = False, lastCheckTime = 0\<rparr>"

section \<open>The route cache\<close>

definition clearCache :: "('cm, 'rc, 'oq, 'f) router_libs \<Rightarrow> ('cm, 'rc, 'oq) router \<Rightarrow> ('cm, 'rc, 'oq) router" where
  "clearCache L r = r\<lparr>mRouteCaches := map (ch_clear (rcT L)) (mRouteCaches r)\<rparr>"

definition putCache :: "('cm, 'rc, 'oq, 'f) router_libs \<Rightarrow> u64 \<Rightarrow> ('cm, 'rc, 'oq) router \<Rightarrow> string \<Rightarrow>
    http_method \<Rightarrow> 'f route_result \<Rightarrow> ('cm, 'rc, 'oq) router" where
  "putCache L timeNow r str method res =
     (let i = method_index method; caches = mRouteCaches r ! i
      in r\<lparr>mRouteCaches := (mRouteCaches r)
            [i := ch_insert (rcT L) caches str \<lparr>cacheTime = timeNow, rc_result = res\<rparr>]\<rparr>)"

definition invalidCache :: "('cm, 'rc, 'oq, 'f) router_libs \<Rightarrow> ('cm, 'rc, 'oq) router \<Rightarrow> string \<Rightarrow>
    http_method \<Rightarrow> ('cm, 'rc, 'oq) router" where
  "invalidCache L r str method =
     (let i = method_index method; caches = mRouteCaches r ! i
      in if \<not> ch_contains (rcT L) caches str then r
         else r\<lparr>mRouteCaches := (mRouteCaches r)[i := ch_erase (rcT L) caches str]\<rparr>)"

text \<open>\<open>timeNow - cacheTime\<close> is unsigned: an entry from the future counts as old.\<close>

definition rc_overdue :: "u64 \<Rightarrow> u64 \<Rightarrow> 'f route_cache \<Rightarrow> bool" where
  "rc_overdue timeNow msDue cache \<longleftrightarrow> msDue < timeNow - cacheTime cache"

definition sweep_route_cache :: "('cm, 'rc, 'oq, 'f) router_libs \<Rightarrow> u64 \<Rightarrow> u64 \<Rightarrow> 'rc \<Rightarrow> 'rc" where
  "sweep_route_cache L timeNow msDue caches =
     (let toErase = ch_traversal_const (rcT L) caches
            (\<lambda>e acc. (True, if rc_overdue timeNow msDue (snd e) then acc @ [fst e] else acc)) []
      in foldl (ch_erase (rcT L)) caches toErase)"

definition checkCacheOverdue :: "('cm, 'rc, 'oq, 'f) router_libs \<Rightarrow> u64 \<Rightarrow> ('cm, 'rc, 'oq) router \<Rightarrow> u64 \<Rightarrow>
    ('cm, 'rc, 'oq) router" where
  "checkCacheOverdue L timeNow r msDue =
     r\<lparr>mRouteCaches := map (sweep_route_cache L timeNow msDue) (mRouteCaches r)\<rparr>"

definition getRouteInCache :: "('cm, 'rc, 'oq, 'f) router_libs \<Rightarrow> u64 \<Rightarrow> ('cm, 'rc, 'oq) router \<Rightarrow> string \<Rightarrow>
    http_method \<Rightarrow> 'f route_result \<Rightarrow> bool \<times> 'f route_result \<times> ('cm, 'rc, 'oq) router" where
  "getRouteInCache L timeNow r str method out =
     (let i = method_index method; caches = mRouteCaches r ! i
      in if \<not> ch_contains (rcT L) caches str then (False, out, r)
         else (let (_, caches', out') = ch_findAndModifyLocked (rcT L) caches str
                     (\<lambda>c _. (c\<lparr>cacheTime := timeNow\<rparr>, rc_result c)) out
               in (True, out', r\<lparr>mRouteCaches := (mRouteCaches r)[i := caches']\<rparr>)))"

section \<open>Registration\<close>

definition calcPathPatternPriority :: "path_matcher \<Rightarrow> u64" where
  "calcPathPatternPriority m =
     word_of_nat MaxPathLengthMatcherSupport - word_of_nat (length (mOriginPattern m))
       + word_of_nat (mUndecidedChars m) * 100
       + (word_of_nat (mWildCardsNums m) + word_of_nat (length (varNames m))) * 10000"

text \<open>The loop that looks for an unused priority. It needs at most as many turns as the queue has
  entries, which is what the fuel grants (lemma \<open>free_priority_found\<close>); \<open>None\<close> is never reached.\<close>

fun free_priority :: "nat \<Rightarrow> ('oq, u64, 'e) tbb_ops \<Rightarrow> 'oq \<Rightarrow> u64 \<Rightarrow> u64 option" where
  "free_priority 0 T q priority = None"
| "free_priority (Suc n) T q priority =
     (if cm_contains T q priority then free_priority n T q (priority + 1) else Some priority)"

definition regController :: "('cm, 'rc, 'oq, 'f) router_libs \<Rightarrow> ('cm, 'rc, 'oq) router \<Rightarrow> string \<Rightarrow> nat \<Rightarrow>
    router_error + (('cm, 'rc, 'oq) router \<times> nat list)" where
  "regController L r controllerName controller =
     (if ch_contains (cmT L) (mControllerMap r) controllerName
      then Inl (RouterDuplicateRegister controllerName)
      else Inr (r\<lparr>mControllerMap := ch_insert (cmT L) (mControllerMap r) controllerName controller\<rparr>,
                if hasLateInit r then [controller] else []))"

definition regControllerFunc :: "('cm, 'rc, 'oq, 'f) router_libs \<Rightarrow> ('cm, 'rc, 'oq) router \<Rightarrow> string \<Rightarrow>
    http_method \<Rightarrow> string \<Rightarrow> 'f \<Rightarrow> router_error + ('cm, 'rc, 'oq) router" where
  "regControllerFunc L r pathPattern mapMethod controllerName func =
     (case FPathMatcher_new (reR L) pathPattern of
        Inl e \<Rightarrow> Inl (MatcherException e)
      | Inr matcher \<Rightarrow>
          (case ch_find (cmT L) (mControllerMap r) controllerName of
             None \<Rightarrow> Inl (RouterInvalidControllerName controllerName)
           | Some controller \<Rightarrow>
               (let i = method_index mapMethod; queue = mControllerOrderQueue r ! i
                in if MAX_SIZE \<le> i then Inl AssertionFailed
                   else (case free_priority (Suc (length (tentries (oqT L) queue))) (oqT L) queue
                                (calcPathPatternPriority matcher) of
                           None \<Rightarrow> Inl AssertionFailed
                         | Some priority \<Rightarrow>
                             Inr (r\<lparr>mControllerOrderQueue := (mControllerOrderQueue r)[i :=
                                   cm_insert (oqT L) queue priority
                                     \<lparr>pe_priority = priority, requestMethod = mapMethod, PathMatcher = matcher,
                                      ControllerFunc = func, ControllerBase = controller\<rparr>]\<rparr>)))))"

text \<open>\<open>FControllerBase::registerMappingFunction\<close>: the pattern is registered behind each of the
  controller's path prefixes; an exception ends the loop.\<close>

fun registerMappingFunction :: "('cm, 'rc, 'oq, 'f) router_libs \<Rightarrow> ('cm, 'rc, 'oq) router \<Rightarrow> string list \<Rightarrow>
    string \<Rightarrow> string \<Rightarrow> http_method \<Rightarrow> 'f \<Rightarrow> router_error + ('cm, 'rc, 'oq) router" where
  "registerMappingFunction L r [] controllerName pathPattern mapMethod func = Inr r"
| "registerMappingFunction L r (i # is) controllerName pathPattern mapMethod func =
     (case regControllerFunc L r (i @ pathPattern) mapMethod controllerName func of
        Inl e \<Rightarrow> Inl e
      | Inr r' \<Rightarrow> registerMappingFunction L r' is controllerName pathPattern mapMethod func)"

text \<open>\<open>lateInit\<close> calls every controller's own hook; the result is the sequence of these calls.\<close>

definition router_lateInit :: "('cm, 'rc, 'oq, 'f) router_libs \<Rightarrow> ('cm, 'rc, 'oq) router \<Rightarrow>
    ('cm, 'rc, 'oq) router \<times> nat list" where
  "router_lateInit L r =
     (r\<lparr>hasLateInit := True\<rparr>,
      ch_traversal_const (cmT L) (mControllerMap r) (\<lambda>e acc. (True, acc @ [snd e])) [])"

definition unreg_queue :: "('cm, 'rc, 'oq, 'f) router_libs \<Rightarrow> nat \<Rightarrow> 'oq \<Rightarrow> 'oq" where
  "unreg_queue L controllerPtr queue =
     (let toErase = cm_traversal (oqT L) queue
            (\<lambda>e acc. (True, if ControllerBase (snd e) = controllerPtr then acc @ [fst e] else acc)) []
      in foldl (cm_erase (oqT L)) queue toErase)"

definition unregController :: "('cm, 'rc, 'oq, 'f) router_libs \<Rightarrow> ('cm, 'rc, 'oq) router \<Rightarrow> string \<Rightarrow>
    ('cm, 'rc, 'oq) router" where
  "unregController L r controllerName =
     (let r1 = clearCache L r
      in case ch_find (cmT L) (mControllerMap r1) controllerName of
           None \<Rightarrow> r1
         | Some controllerPtr \<Rightarrow>
             r1\<lparr>mControllerMap := ch_erase (cmT L) (mControllerMap r1) controllerName,
                mControllerOrderQueue := map (unreg_queue L controllerPtr) (mControllerOrderQueue r1)\<rparr>)"

definition CACHE_CLEAR_CACHE_UNUSED_TIME :: u64 where
  "CACHE_CLEAR_CACHE_UNUSED_TIME = 1000 * 60 * 60 * 1"

definition checkRouteCache :: "('cm, 'rc, 'oq, 'f) router_libs \<Rightarrow> u64 \<Rightarrow> ('cm, 'rc, 'oq) router \<Rightarrow> u64 \<Rightarrow>
    ('cm, 'rc, 'oq) router" where
  "checkRouteCache L clock r timeNow =
     (if timeNow - lastCheckTime r < drop_bit 2 CACHE_CLEAR_CACHE_UNUSED_TIME then r
      else checkCacheOverdue L clock (r\<lparr>lastCheckTime := timeNow\<rparr>) CACHE_CLEAR_CACHE_UNUSED_TIME)"

section \<open>Routing\<close>

definition route_callback :: "('cm, 'rc, 'oq, 'f) router_libs \<Rightarrow> u64 \<Rightarrow> http_method \<Rightarrow> string \<Rightarrow>
    u64 \<times> 'f pattern_entry \<Rightarrow> 'f route_result \<times> ('cm, 'rc, 'oq) router \<Rightarrow>
    bool \<times> 'f route_result \<times> ('cm, 'rc, 'oq) router" where
  "route_callback L timeNow method path e s =
     (let (res, r) = s; val = snd e;
          (matched, vars) = isMatch (reR L) (PathMatcher val) path (pathVariable res)
      in if matched
         then (let res' = \<lparr>pathVariable = vars, controllerFunc = Some (ControllerFunc val),
                           controllerSave = Some (ControllerBase val)\<rparr>
               in (False, res', putCache L timeNow r path method res'))
         else (True, res\<lparr>pathVariable := vars\<rparr>, r))"

definition route :: "('cm, 'rc, 'oq, 'f) router_libs \<Rightarrow> u64 \<Rightarrow> ('cm, 'rc, 'oq) router \<Rightarrow> http_method \<Rightarrow> string \<Rightarrow>
    'f route_result \<times> ('cm, 'rc, 'oq) router" where
  "route L timeNow r method path =
     (if MAX_SIZE \<le> method_index method then (RouteResult_new, r)
      else (let (found, res, r1) = getRouteInCache L timeNow r path method RouteResult_new
            in if found then (res, r1)
               else cm_traversal (oqT L) (mControllerOrderQueue r1 ! method_index method)
                      (route_callback L timeNow method path) (res, r1)))"

section \<open>Lemmas\<close>

definition libs_ok :: "('cm, 'rc, 'oq, 'f) router_libs \<Rightarrow> bool" where
  "libs_ok L \<longleftrightarrow> tbb_ok (cmT L) \<and> tbb_ok (rcT L) \<and> tbb_ok (oqT L) \<and> tbb_sorted (>) (oqT L)"

definition router_wf :: "('cm, 'rc, 'oq) router \<Rightarrow> bool" where
  "router_wf r \<longleftrightarrow> length (mRouteCaches r) = MAX_SIZE \<and> length (mControllerOrderQueue r) = MAX_SIZE"

definition entry_matches :: "('cm, 'rc, 'oq, 'f) router_libs \<Rightarrow> string \<Rightarrow> 'f pattern_entry \<Rightarrow> bool" where
  "entry_matches L path e \<longleftrightarrow> fst (isMatch (reR L) (PathMatcher e) path [])"

definition entry_result :: "('cm, 'rc, 'oq, 'f) router_libs \<Rightarrow> string \<Rightarrow> 'f pattern_entry \<Rightarrow> 'f route_result" where
  "entry_result L path e = \<lparr>pathVariable = snd (isMatch (reR L) (PathMatcher e) path []),
     controllerFunc = Some (ControllerFunc e), controllerSave = Some (ControllerBase e)\<rparr>"

definition cached :: "('cm, 'rc, 'oq, 'f) router_libs \<Rightarrow> ('cm, 'rc, 'oq) router \<Rightarrow> http_method \<Rightarrow> string \<Rightarrow>
    'f route_cache option" where
  "cached L r method path = tfind (rcT L) (mRouteCaches r ! method_index method) path"

definition queued :: "('cm, 'rc, 'oq, 'f) router_libs \<Rightarrow> ('cm, 'rc, 'oq) router \<Rightarrow> http_method \<Rightarrow>
    u64 \<Rightarrow> 'f pattern_entry option" where
  "queued L r method k = tfind (oqT L) (mControllerOrderQueue r ! method_index method) k"

lemma new_router_wf: "router_wf (FRouter_new L)"
  by (simp add: router_wf_def FRouter_new_def)

lemma traverse_route:
  "traverse (route_callback L timeNow method path) es (RouteResult_new, r) =
     (case find (\<lambda>e. entry_matches L path (snd e)) es of
        None \<Rightarrow> (RouteResult_new, r)
      | Some e \<Rightarrow> (entry_result L path (snd e), putCache L timeNow r path method (entry_result L path (snd e))))"
proof (induction es)
  case (Cons e es)
  show ?case
  proof (cases "entry_matches L path (snd e)")
    case True
    then have "route_callback L timeNow method path e (RouteResult_new, r)
        = (False, entry_result L path (snd e), putCache L timeNow r path method (entry_result L path (snd e)))"
      by (cases "isMatch (reR L) (PathMatcher (snd e)) path []")
        (simp add: route_callback_def entry_matches_def entry_result_def RouteResult_new_def Let_def)
    with True show ?thesis by simp
  next
    case False
    then have "isMatch (reR L) (PathMatcher (snd e)) path [] = (False, [])"
      using isMatch_fails [of "reR L" "PathMatcher (snd e)" path "[]"]
      by (simp add: entry_matches_def prod_eq_iff)
    then have "route_callback L timeNow method path e (RouteResult_new, r) = (True, RouteResult_new, r)"
      by (simp add: route_callback_def RouteResult_new_def)
    then show ?thesis using False Cons.IH by simp
  qed
qed simp

lemma route_uncached:
  assumes "method_index method < MAX_SIZE" "cached L r method path = None"
  shows "route L timeNow r method path =
     (case find (\<lambda>e. entry_matches L path (snd e)) (tentries (oqT L) (mControllerOrderQueue r ! method_index method)) of
        None \<Rightarrow> (RouteResult_new, r)
      | Some e \<Rightarrow> (entry_result L path (snd e), putCache L timeNow r path method (entry_result L path (snd e))))"
  using assms
  by (simp add: route_def getRouteInCache_def ch_contains_def cached_def cm_traversal_def traverse_route Let_def)

lemma route_cached:
  assumes "method_index method < MAX_SIZE" "cached L r method path = Some c"
  shows "fst (route L timeNow r method path) = rc_result c"
  using assms
  by (simp add: route_def getRouteInCache_def ch_contains_def ch_findAndModifyLocked_def cached_def Let_def)

lemma method_index_valid: "method \<noteq> M_Invalid \<longleftrightarrow> method_index method < MAX_SIZE"
  by (cases "method") simp_all

lemma putCache_cached:
  assumes "libs_ok L" "router_wf r" "method_index method < MAX_SIZE" "cached L r method path = None"
  shows "cached L (putCache L now r path method res) method path = Some \<lparr>cacheTime = now, rc_result = res\<rparr>"
  using assms by (simp add: cached_def putCache_def ch_insert_def router_wf_def libs_ok_def tbb_simps Let_def)

lemma putCache_queue [simp]: "mControllerOrderQueue (putCache L now r path method res) = mControllerOrderQueue r"
  by (simp add: putCache_def Let_def)

lemma find_first:
  "find P xs = Some x \<Longrightarrow> sorted_wrt cmp (map f xs) \<Longrightarrow>
     x \<in> set xs \<and> P x \<and> (\<forall>y \<in> set xs. P y \<longrightarrow> y = x \<or> cmp (f x) (f y))"
  by (induction xs) (auto split: if_splits)

text \<open>
  C15. Routing of a path that is not cached: the controller function that runs is that of the
  matching pattern with the greatest priority number, with the variables this pattern binds;
  patterns with more wildcards and variables have greater numbers, so they go first. If no
  pattern of the method matches the result is invalid and nothing is cached.
\<close>
theorem route_picks_greatest:
  assumes "libs_ok L" "method \<noteq> M_Invalid" "cached L r method path = None"
  shows "(\<exists>k e. queued L r method k = Some e \<and> entry_matches L path e
            \<and> (\<forall>k' e'. queued L r method k' = Some e' \<longrightarrow> entry_matches L path e' \<longrightarrow> k' \<le> k)
            \<and> fst (route L now r method path) = entry_result L path e)
       \<or> ((\<forall>k e. queued L r method k = Some e \<longrightarrow> \<not> entry_matches L path e)
            \<and> route L now r method path = (RouteResult_new, r) \<and> \<not> rr_isvalid (fst (route L now r method path)))"
proof -
  let ?q = "mControllerOrderQueue r ! method_index method"
  let ?es = "tentries (oqT L) ?q"
  have i: "method_index method < MAX_SIZE" using assms(2) by (simp add: method_index_valid)
  have inq: "(k, e) \<in> set ?es \<longleftrightarrow> queued L r method k = Some e" for k e
    using assms(1) by (simp add: queued_def libs_ok_def tbb_in_entries)
  have sorted: "sorted_wrt (>) (map fst ?es)" using assms(1) by (simp add: libs_ok_def tbb_sorted_def)
  note R = route_uncached [OF i assms(3), of now]
  show ?thesis
  proof (cases "find (\<lambda>e. entry_matches L path (snd e)) ?es")
    case None
    then have none: "\<not> entry_matches L path (snd ke)" if "ke \<in> set ?es" for ke
      using that by (cases ke) (auto simp: List.find_None_iff)
    have "\<forall>k e. queued L r method k = Some e \<longrightarrow> \<not> entry_matches L path e"
      using none inq by (metis snd_conv)
    then show ?thesis using R None by (simp add: rr_isvalid_def RouteResult_new_def)
  next
    case (Some ke)
    obtain k e where ke: "ke = (k, e)" by fastforce
    note F = find_first [OF Some sorted]
    have "k' \<le> k" if "queued L r method k' = Some e'" "entry_matches L path e'" for k' e'
      using F that inq [of k' e'] by (auto simp: ke)
    then show ?thesis using F Some R inq [of k e] by (intro disjI1 exI [of _ k] exI [of _ e]) (simp add: ke)
  qed
qed

text \<open>
  C20. The cache is transparent: asking for the same path again gives the same function, variables
  and controller, whenever that is, as long as nothing is registered, removed or swept between.
\<close>
theorem route_stable:
  assumes "libs_ok L" "router_wf r" "method \<noteq> M_Invalid"
  shows "fst (route L later (snd (route L now r method path)) method path) = fst (route L now r method path)"
proof -
  have i: "method_index method < MAX_SIZE" using assms(3) by (simp add: method_index_valid)
  show ?thesis
  proof (cases "cached L r method path")
    case None
    note R = route_uncached [OF i None, of now]
    show ?thesis
    proof (cases "find (\<lambda>e. entry_matches L path (snd e)) (tentries (oqT L) (mControllerOrderQueue r ! method_index method))")
      case None': None
      then show ?thesis using R route_uncached [OF i None, of later] by simp
    next
      case (Some e)
      show ?thesis
        using R Some route_cached [OF i putCache_cached [OF assms(1,2) i None]] by simp
    qed
  next
    case (Some c)
    let ?i = "method_index method"
    have "snd (route L now r method path) = r\<lparr>mRouteCaches := (mRouteCaches r)
        [?i := tassign (rcT L) (mRouteCaches r ! ?i) path (c\<lparr>cacheTime := now\<rparr>)]\<rparr>"
      using i Some by (simp add: route_def getRouteInCache_def ch_contains_def ch_findAndModifyLocked_def cached_def Let_def)
    then have "cached L (snd (route L now r method path)) method path = Some (c\<lparr>cacheTime := now\<rparr>)"
      using assms i Some by (simp add: cached_def router_wf_def libs_ok_def tbb_simps)
    then show ?thesis
      using route_cached [OF i Some] route_cached [OF i, of L "snd (route L now r method path)" path] by simp
  qed
qed

section \<open>The error page\<close>

abbreviation ERROR_ROUTE_PATH :: string where "ERROR_ROUTE_PATH \<equiv> ''/error''"

definition no_error_page :: "('cm, 'rc, 'oq, 'f) router_libs \<Rightarrow> ('cm, 'rc, 'oq) router \<Rightarrow> bool" where
  "no_error_page L r \<longleftrightarrow> router_wf r \<and> cached L r M_GET ERROR_ROUTE_PATH = None
     \<and> find (\<lambda>e. entry_matches L ERROR_ROUTE_PATH (snd e))
         (tentries (oqT L) (mControllerOrderQueue r ! method_index M_GET)) = None"

lemma new_result_invalid: "\<not> rr_isvalid RouteResult_new"
  by (simp add: rr_isvalid_def RouteResult_new_def)

lemma no_error_page_invalid:
  "no_error_page L r \<Longrightarrow> route L now r M_GET ERROR_ROUTE_PATH = (RouteResult_new, r)
     \<and> \<not> rr_isvalid (fst (route L now r M_GET ERROR_ROUTE_PATH))"
  by (simp add: no_error_page_def route_uncached rr_isvalid_def RouteResult_new_def)

lemma route_cached_state:
  assumes "method_index method < MAX_SIZE" "cached L r method path = Some c"
  shows "snd (route L now r method path) = r\<lparr>mRouteCaches := (mRouteCaches r)
    [method_index method := tassign (rcT L) (mRouteCaches r ! method_index method) path (c\<lparr>cacheTime := now\<rparr>)]\<rparr>"
  using assms by (simp add: route_def getRouteInCache_def ch_contains_def ch_findAndModifyLocked_def cached_def Let_def)

text \<open>Routing changes the cache of the path it routes only.\<close>

lemma route_frame:
  assumes "libs_ok L" "router_wf r"
  shows "mControllerOrderQueue (snd (route L now r method path)) = mControllerOrderQueue r
    \<and> router_wf (snd (route L now r method path))
    \<and> (m \<noteq> M_Invalid \<longrightarrow> (m, k) \<noteq> (method, path) \<longrightarrow>
         cached L (snd (route L now r method path)) m k = cached L r m k)"
proof (cases "method_index method < MAX_SIZE")
  case False
  then show ?thesis using assms by (simp add: route_def)
next
  case i: True
  have other: "cached L (r\<lparr>mRouteCaches := (mRouteCaches r)[method_index method := q]\<rparr>) m k = cached L r m k"
    if "m \<noteq> M_Invalid" "(m, k) \<noteq> (method, path)"
      "k \<noteq> path \<longrightarrow> tfind (rcT L) q k = tfind (rcT L) (mRouteCaches r ! method_index method) k" for q
    using that i assms(2) method_index_inj [of m "method"]
    by (cases "m = method") (auto simp: cached_def router_wf_def nth_list_update method_index_valid)
  show ?thesis
  proof (cases "cached L r method path")
    case None
    show ?thesis
      using assms other by (auto simp: route_uncached [OF i None] putCache_def ch_insert_def Let_def router_wf_def
          libs_ok_def tbb_simps split: option.split)
  next
    case (Some c)
    then show ?thesis
      using assms other i by (auto simp: route_cached_state [OF i Some] cached_def router_wf_def libs_ok_def tbb_simps)
  qed
qed

lemma no_error_page_route:
  assumes "libs_ok L" "no_error_page L r"
  shows "no_error_page L (snd (route L now r method path))"
proof (cases "(M_GET, ERROR_ROUTE_PATH) = (method, path)")
  case True
  then show ?thesis using no_error_page_invalid [OF assms(2), of now] assms(2) by auto
next
  case False
  then show ?thesis
    using route_frame [OF assms(1), of r now "method" path M_GET ERROR_ROUTE_PATH] assms(2)
    by (simp add: no_error_page_def)
qed

section \<open>Registration finds a place and loses nothing\<close>

lemma free_priority_spec:
  "free_priority n T q p = Some p' \<Longrightarrow> cm_find T q p' = None"
  by (induction n arbitrary: p) (auto simp: cm_contains_def cm_find_def split: if_splits)

lemma free_priority_None:
  "free_priority n T q p = None \<Longrightarrow> \<forall>k < n. cm_contains T q (p + word_of_nat k)"
proof (induction n arbitrary: p)
  case (Suc n)
  then have c: "cm_contains T q p" "free_priority n T q (p + 1) = None" by (auto split: if_splits)
  show ?case
  proof (intro allI impI)
    fix k
    assume "k < Suc n"
    then show "cm_contains T q (p + word_of_nat k)"
      using c(1) Suc.IH [OF c(2)] by (cases k) (auto simp: algebra_simps)
  qed
qed simp

lemma free_priority_found:
  assumes "tbb_ok T" "length (tentries T q) < 2 ^ 64 - 1"
  shows "\<exists>p'. free_priority (Suc (length (tentries T q))) T q p = Some p' \<and> cm_find T q p' = None"
proof (cases "free_priority (Suc (length (tentries T q))) T q p")
  case None
  let ?n = "Suc (length (tentries T q))"
  let ?f = "\<lambda>k. p + (word_of_nat k :: u64)"
  have "inj_on ?f {..<?n}"
  proof (rule inj_onI)
    fix x y
    assume "x \<in> {..<?n}" "y \<in> {..<?n}" "?f x = ?f y"
    then have e: "(word_of_nat x :: u64) = word_of_nat y" "x < 2 ^ 64" "y < 2 ^ 64"
      using assms(2) by auto
    have "unat (word_of_nat k :: u64) = k" if "k < 2 ^ 64" for k
      using that by (simp add: unsigned_of_nat take_bit_nat_eq_self)
    with e show "x = y" by metis
  qed
  moreover have "?f ` {..<?n} \<subseteq> set (map fst (tentries T q))"
    using free_priority_None [OF None] assms(1) tbb_in_entries [OF assms(1)]
    by (force simp: cm_contains_def image_iff)
  ultimately have "?n \<le> card (set (map fst (tentries T q)))"
    by (metis card_image card_lessThan card_mono List.finite_set)
  also have "\<dots> \<le> length (tentries T q)" by (metis card_length length_map)
  finally show ?thesis by simp
next
  case (Some p')
  then show ?thesis using free_priority_spec [OF Some] by simp
qed

text \<open>
  Registering a pattern always ends and never replaces another: for a known controller, a valid
  method and an acceptable pattern it succeeds, every entry of every queue is still there, and the
  new one is added under a priority that was free.
\<close>
theorem regControllerFunc_adds:
  assumes "libs_ok L" "router_wf r" "method \<noteq> M_Invalid"
    "FPathMatcher_new (reR L) pattern = Inr pm"
    "ch_find (cmT L) (mControllerMap r) name = Some controller"
    "length (tentries (oqT L) (mControllerOrderQueue r ! method_index method)) < 2 ^ 64 - 1"
  shows "\<exists>r' k. regControllerFunc L r pattern method name func = Inr r'
    \<and> queued L r method k = None
    \<and> queued L r' method k = Some \<lparr>pe_priority = k, requestMethod = method, PathMatcher = pm,
         ControllerFunc = func, ControllerBase = controller\<rparr>
    \<and> (\<forall>m k'. m \<noteq> M_Invalid \<longrightarrow> (m, k') \<noteq> (method, k) \<longrightarrow> queued L r' m k' = queued L r m k')
    \<and> router_wf r'"
proof -
  let ?q = "mControllerOrderQueue r ! method_index method"
  have i: "method_index method < MAX_SIZE" using assms(3) by (simp add: method_index_valid)
  have T: "tbb_ok (oqT L)" using assms(1) by (simp add: libs_ok_def)
  obtain k where k: "free_priority (Suc (length (tentries (oqT L) ?q))) (oqT L) ?q (calcPathPatternPriority pm) = Some k"
      "cm_find (oqT L) ?q k = None"
    using free_priority_found [OF T assms(6)] by blast
  let ?e = "\<lparr>pe_priority = k, requestMethod = method, PathMatcher = pm, ControllerFunc = func, ControllerBase = controller\<rparr>"
  let ?r = "r\<lparr>mControllerOrderQueue := (mControllerOrderQueue r)[method_index method := cm_insert (oqT L) ?q k ?e]\<rparr>"
  have reg: "regControllerFunc L r pattern method name func = Inr ?r"
    using i by (simp add: regControllerFunc_def assms(4,5) k(1) Let_def del: free_priority.simps)
  have "queued L ?r m k' = queued L r m k'" if "m \<noteq> M_Invalid" "(m, k') \<noteq> (method, k)" for m k'
    using that i assms(2) T method_index_inj [of m "method"] k(2)
    by (cases "m = method")
      (auto simp: queued_def router_wf_def cm_insert_def tbb_simps nth_list_update method_index_valid cm_find_def)
  moreover have "queued L ?r method k = Some ?e" "queued L r method k = None"
    using i assms(2) T k(2) by (simp_all add: queued_def router_wf_def cm_insert_def tbb_simps cm_find_def)
  moreover have "router_wf ?r" using assms(2) by (simp add: router_wf_def)
  ultimately show ?thesis using reg by blast
qed

section \<open>Unregistration\<close>

lemma unreg_queue_find:
  assumes "tbb_ok (oqT L)"
  shows "tfind (oqT L) (unreg_queue L c q) k =
    (case tfind (oqT L) q k of None \<Rightarrow> None | Some e \<Rightarrow> if ControllerBase e = c then None else Some e)"
proof -
  let ?ks = "map fst (filter (\<lambda>e. ControllerBase (snd e) = c) (tentries (oqT L) q))"
  have "unreg_queue L c q = foldl (cm_erase (oqT L)) q ?ks"
    by (simp add: unreg_queue_def cm_traversal_def traverse_collect)
  moreover have "k \<in> set ?ks \<longleftrightarrow> (\<exists>e. tfind (oqT L) q k = Some e \<and> ControllerBase e = c)"
    using tbb_in_entries [OF assms, of k _ q] by (force simp: image_iff)
  ultimately show ?thesis
    by (auto simp: cm_find_erase_keys [OF assms] split: option.split)
qed

text \<open>
  C16. A controller that has been unregistered is never routed to again, from a queue or from a
  cache, whatever the method and the path; every entry of the other controllers stays.
\<close>
theorem unregistered_unreachable:
  assumes "libs_ok L" "router_wf r" "ch_find (cmT L) (mControllerMap r) name = Some c" "method \<noteq> M_Invalid"
  shows "controllerSave (fst (route L now (unregController L r name) method path)) \<noteq> Some c
    \<and> (\<forall>k e. queued L r method k = Some e \<longrightarrow> ControllerBase e \<noteq> c \<longrightarrow>
           queued L (unregController L r name) method k = Some e)
    \<and> ch_find (cmT L) (mControllerMap (unregController L r name)) name = None"
proof -
  let ?r = "unregController L r name"
  have i: "method_index method < MAX_SIZE" using assms(4) by (simp add: method_index_valid)
  have T: "tbb_ok (oqT L)" "tbb_ok (rcT L)" "tbb_ok (cmT L)" using assms(1) by (simp_all add: libs_ok_def)
  have r: "?r = r\<lparr>mRouteCaches := map (ch_clear (rcT L)) (mRouteCaches r),
      mControllerMap := ch_erase (cmT L) (mControllerMap r) name,
      mControllerOrderQueue := map (unreg_queue L c) (mControllerOrderQueue r)\<rparr>"
    using assms(3) by (simp add: unregController_def clearCache_def Let_def)
  have none: "cached L ?r method path = None"
    using i assms(2) T by (simp add: r cached_def router_wf_def ch_clear_def tbb_simps)
  have q: "queued L ?r method k = (case queued L r method k of None \<Rightarrow> None
      | Some e \<Rightarrow> if ControllerBase e = c then None else Some e)" for k
    using i assms(2) by (simp add: r queued_def router_wf_def unreg_queue_find [OF T(1)])
  have "controllerSave (fst (route L now ?r method path)) \<noteq> Some c"
  proof (cases "find (\<lambda>e. entry_matches L path (snd e)) (tentries (oqT L) (mControllerOrderQueue ?r ! method_index method))")
    case None
    then show ?thesis using route_uncached [OF i none, of now] by (simp add: RouteResult_new_def)
  next
    case (Some ke)
    then have "ke \<in> set (tentries (oqT L) (mControllerOrderQueue ?r ! method_index method))"
      by (auto simp: find_Some_iff)
    then have "queued L ?r method (fst ke) = Some (snd ke)"
      unfolding queued_def using tbb_in_entries [OF T(1)] by (metis prod.collapse)
    then have "ControllerBase (snd ke) \<noteq> c" by (auto simp: q split: option.splits if_splits)
    then show ?thesis using route_uncached [OF i none, of now] Some by (simp add: entry_result_def)
  qed
  moreover have "ch_find (cmT L) (mControllerMap ?r) name = None"
    using T(3) by (simp add: r ch_find_def ch_erase_def tbb_simps)
  ultimately show ?thesis by (simp add: q)
qed

section \<open>The sweep of the cache\<close>

lemma sweep_route_cache_sweep:
  assumes "tbb_ok (rcT L)"
  shows "sweep_route_cache L timeNow msDue =
    expiring_cache.sweep (tentries (rcT L)) (ch_erase (rcT L)) (rc_overdue timeNow msDue)"
  by (rule ext) (simp add: sweep_route_cache_def ch_traversal_const_def traverse_collect
      expiring_cache.sweep_def [OF expiring_cache_hash [OF assms]])

lemma cached_swept:
  assumes "libs_ok L" "router_wf r" "method \<noteq> M_Invalid"
  shows "cached L (checkCacheOverdue L timeNow r msDue) method path =
    (case cached L r method path of
       None \<Rightarrow> None
     | Some c \<Rightarrow> if msDue < timeNow - cacheTime c then None else Some c)"
proof -
  have T: "tbb_ok (rcT L)" using assms(1) by (simp add: libs_ok_def)
  show ?thesis
    using assms(2,3) expiring_cache.lookup_sweep [OF expiring_cache_hash [OF T], of "rc_overdue timeNow msDue"]
    by (simp add: cached_def checkCacheOverdue_def router_wf_def method_index_valid
        sweep_route_cache_sweep [OF T] rc_overdue_def split: option.split)
qed

text \<open>
  The sweep of the route caches removes an entry exactly when it has been idle for more than the
  limit, and keeps every other entry as it is.
\<close>
theorem checkCacheOverdue_removes:
  assumes "libs_ok L" "router_wf r" "method \<noteq> M_Invalid"
  shows "cached L (checkCacheOverdue L timeNow r msDue) method path =
    (case cached L r method path of
       None \<Rightarrow> None
     | Some c \<Rightarrow> if msDue < timeNow - cacheTime c then None else Some c)"
  using assms by (rule cached_swept)

section \<open>An example\<close>

text \<open>Search trees for the containers.\<close>

definition demo_libs :: "((string, nat) rbt, (string, 'f route_cache) rbt, (u64, 'f pattern_entry) rbt, 'f) router_libs" where
  "demo_libs = \<lparr>cmT = rbt_ops, rcT = rbt_ops, oqT = rbt_ops, reR = scanning_re2 demo_match\<rparr>"

lemma demo_libs_ok: "libs_ok demo_libs"
  by (simp add: libs_ok_def demo_libs_def rbt_ops_ok rbt_ops_sorted)

definition demo_router0 :: "((string, nat) rbt, (string, nat route_cache) rbt, (u64, nat pattern_entry) rbt) router" where
  "demo_router0 = (case regController demo_libs (FRouter_new demo_libs) ''files'' 7 of
     Inr (r, _) \<Rightarrow> r | Inl _ \<Rightarrow> FRouter_new demo_libs)"

definition demo_router :: "((string, nat) rbt, (string, nat route_cache) rbt, (u64, nat pattern_entry) rbt) router" where
  "demo_router = (case regControllerFunc demo_libs demo_router0 ''/file/{name}'' M_GET ''files'' 1 of
     Inr r \<Rightarrow> r | Inl _ \<Rightarrow> demo_router0)"

lemma demo_wf: "router_wf demo_router" "router_wf demo_router0"
  by code_simp+

lemma demo_facts:
  "cached demo_libs demo_router M_GET ''/file/a.png'' = None"
  "rr_isvalid (fst (route demo_libs 0 demo_router M_GET ''/file/a.png''))"
  "ch_find (cmT demo_libs) (mControllerMap demo_router) ''files'' = Some 7"
  "ch_find (cmT demo_libs) (mControllerMap demo_router0) ''files'' = Some 7"
  "length (tentries (oqT demo_libs) (mControllerOrderQueue demo_router0 ! method_index M_GET)) = 0"
  by code_simp+

theorem route_picks_greatest_witness:
  "\<exists>k e. queued demo_libs demo_router M_GET k = Some e \<and> entry_matches demo_libs ''/file/a.png'' e
     \<and> fst (route demo_libs 0 demo_router M_GET ''/file/a.png'') = entry_result demo_libs ''/file/a.png'' e"
  using route_picks_greatest [OF demo_libs_ok _ demo_facts(1), of 0] demo_facts(2) by auto

theorem route_stable_witness:
  "fst (route demo_libs 9 (snd (route demo_libs 0 demo_router M_GET ''/file/a.png'')) M_GET ''/file/a.png'')
     = fst (route demo_libs 0 demo_router M_GET ''/file/a.png'')"
  by (rule route_stable [OF demo_libs_ok demo_wf(1)]) simp

theorem regControllerFunc_adds_witness:
  "\<exists>r' k. regControllerFunc demo_libs demo_router0 ''/about'' M_GET ''files'' 2 = Inr r'
     \<and> queued demo_libs r' M_GET k \<noteq> None"
proof -
  have "list_all token_ok [T_lit ''/about'']" "pattern_text [T_lit ''/about''] = ''/about''"
    by (simp_all add: special_def pattern_text_def ascii_def)
  moreover have "\<not> double_star ''/about''" by simp
  ultimately obtain pm where "FPathMatcher_new (scanning_re2 demo_match) ''/about'' = Inr pm"
    using FPathMatcher_compiles [OF scanning_re2_ok, of "[T_lit ''/about'']" demo_match] by auto
  then have "FPathMatcher_new (reR (demo_libs :: (_, _, _, nat) router_libs)) ''/about'' = Inr pm"
    by (simp add: demo_libs_def)
  from regControllerFunc_adds [OF demo_libs_ok demo_wf(2) _ this demo_facts(4), of M_GET 2] demo_facts(5)
  show ?thesis by auto
qed

theorem unregistered_unreachable_witness:
  "controllerSave (fst (route demo_libs 0 (unregController demo_libs demo_router ''files'') M_GET ''/file/a.png'')) \<noteq> Some 7"
  using unregistered_unreachable [OF demo_libs_ok demo_wf(1) demo_facts(3), of M_GET 0 "''/file/a.png''"] by simp

theorem checkCacheOverdue_removes_witness:
  "cached demo_libs (checkCacheOverdue demo_libs 5 demo_router 3) M_GET ''/file/a.png'' = None"
  using checkCacheOverdue_removes [OF demo_libs_ok demo_wf(1), of M_GET 5 3 "''/file/a.png''"] demo_facts(1) by simp

end
