(* ===== verification/FHttpServer.thy ===== *)
theory FHttpServer
  imports FHttpMessage FRouter
begin

text \<open>
  The HTTP server (\<open>FeiLib/src/Http/FHttpServer.cpp\<close>): the data a connection carries, the handler of
  a request (filter, routing, error page, exceptions, finishing of the response), the HTTP/1 loop
  body \<open>http1Process\<close>, keep-alive, the idle timer and the configuration.

  The application's callbacks and the controllers are functions of the record \<open>http_server\<close>; a
  controller answers with a response or throws. What a handler does to its connection is a list of
  actions (\<open>send\<close>, \<open>forceClose\<close>, the calls into the HTTP/2 context).
\<close>

section \<open>State\<close>

datatype controller_exn =
  Threw_FException "string list"
| Threw_std

type_synonym controller_answer = "controller_exn + http_response"

record 'f http_server =
  mPreSendCallback :: "(http_request \<Rightarrow> http_response \<Rightarrow> http_response) option"
  mInternalErrCallback :: "(http_request \<Rightarrow> http_response \<Rightarrow> string list \<Rightarrow> http_response) option"
  mRouteNotMatchCallback :: "(http_request \<Rightarrow> http_response \<Rightarrow> http_response) option"
  mConnFilterFunc :: "(http_request \<Rightarrow> http_response \<Rightarrow> bool \<times> http_response) option"
  run_controller :: "'f \<Rightarrow> http_request \<Rightarrow> path_var \<Rightarrow> controller_answer"
  mHttpRequestWaitTime :: int
  mHttpConnectionTimeout :: int
  mHttp2DrainTimeOut :: int
  mHttp2CloseImm :: bool

record conn_data =
  cd_parser :: http_parser
  shouldKeepAlive :: bool
  hasSurvivedTime :: u32
  http2Ctx :: bool

datatype conn_action = Send string | ForceClose | SubmitGoaway | H2SendProcess

text \<open>\<open>getDataFromTcpConn\<close> creates the data on first use, stamped with the current second, which is cut to 32 bits; an HTTP/2
  connection gets its context (here: that it has one). \<open>fresh_p\<close> is the freshly built parser.\<close>

definition getDataFromTcpConn :: "conn_data option \<Rightarrow> int \<Rightarrow> bool \<Rightarrow> http_parser \<Rightarrow> conn_data" where
  "getDataFromTcpConn user seconds h2 fresh_p =
     (let d = (case user of
                 None \<Rightarrow> \<lparr>cd_parser = fresh_p, shouldKeepAlive = True, hasSurvivedTime = word_of_int seconds, http2Ctx = False\<rparr>
               | Some d \<Rightarrow> d)
      in if h2 \<and> \<not> http2Ctx d then d\<lparr>http2Ctx := True\<rparr> else d)"

definition DestroyDataFromTcpConn :: "conn_data option \<Rightarrow> conn_data option" where
  "DestroyDataFromTcpConn user = None"

section \<open>Answers\<close>

definition DefaultServerName :: string where
  "DefaultServerName = ''by FeiLib''"

definition preProcessHttpRequestSend :: "'f http_server \<Rightarrow> http_request \<Rightarrow> http_response \<Rightarrow> http_response" where
  "preProcessHttpRequestSend S request response =
     (let r1 = (case mPreSendCallback S of None \<Rightarrow> response | Some cb \<Rightarrow> cb request response);
          hasBody = (mBody r1 \<noteq> []);
          r2 = rs_setHttpVersion r1 Http11;
          serverName = (case rs_getHeader r2 ''Server'' of None \<Rightarrow> [] | Some v \<Rightarrow> v);
          r3 = rs_addHeader r2 ''Server'' (serverName @ DefaultServerName)
      in if hasBody \<and> rs_getHeader r3 ''Content-Type'' = None
         then rs_setContentType r3 (snd (getContentTypeByPath (rq_getPath request)))
         else r3)"

definition defaultHandleRouterMismatchFunc :: "http_response \<Rightarrow> http_response" where
  "defaultHandleRouterMismatchFunc response = rs_setBody (rs_setStatusCode response S404) ''404: Page not found''"

definition defaultExceptionFunc :: "http_response \<Rightarrow> string list \<Rightarrow> http_response" where
  "defaultExceptionFunc response stackTrace =
     rs_setBody (rs_setStatusCode response S501)
       (''500: Server Internal Error'' @ concat (map (\<lambda>str. ''<br>'' @ str) stackTrace))"

definition preProcessTcpConn :: "conn_data \<Rightarrow> bool \<Rightarrow> http_request \<Rightarrow> conn_data" where
  "preProcessTcpConn d isHttp2 request =
     (if isHttp2 then d
      else (let attracted = rq_getHeader request ''Connection'';
                setKeepAlive = (attracted = None \<and> mHttpVersion (mHttpCtx request) = Http11)
            in d\<lparr>shouldKeepAlive := setKeepAlive \<or> attracted = Some ''keep-alive''\<rparr>))"

text \<open>The empty function object of a result that is not valid is not called: every call below is
  behind \<open>isvalid\<close>; \<open>the_func\<close> stands for the call operator.\<close>

definition the_func :: "'f http_server \<Rightarrow> 'f route_result \<Rightarrow> http_request \<Rightarrow> controller_answer" where
  "the_func S res request =
     (case controllerFunc res of
        None \<Rightarrow> Inl Threw_std
      | Some f \<Rightarrow> run_controller S f request (pathVariable res))"

definition httpHandle :: "('cm, 'rc, 'oq, 'f) router_libs \<Rightarrow> 'f http_server \<Rightarrow> u64 \<Rightarrow> ('cm, 'rc, 'oq) router \<Rightarrow>
    conn_data \<Rightarrow> bool \<Rightarrow> http_request \<Rightarrow> controller_answer \<times> ('cm, 'rc, 'oq) router \<times> conn_data" where
  "httpHandle L S clock r d isHttp2 request =
     (let d1 = preProcessTcpConn d isHttp2 request;
          (isFiltered, response) = (case mConnFilterFunc S of
                                      None \<Rightarrow> (False, FHttpResponse_new)
                                    | Some flt \<Rightarrow> flt request FHttpResponse_new);
          (routeResult, r1) = (if mIsValid request \<and> \<not> isFiltered
                               then route L clock r (rq_getMethod request) (rq_getPath request)
                               else (RouteResult_new, r));
          notMatchError = (\<not> mIsValid request \<or> \<not> isFiltered \<and> \<not> rr_isvalid routeResult)
      in if notMatchError
         then (let (errResult, r2) = route L clock r1 M_GET ERROR_ROUTE_PATH
               in if \<not> rr_isvalid errResult
                  then (Inr (preProcessHttpRequestSend S request
                           (case mRouteNotMatchCallback S of
                              Some cb \<Rightarrow> cb request response
                            | None \<Rightarrow> defaultHandleRouterMismatchFunc response)), r2, d1)
                  else (case the_func S errResult request of
                          Inl e \<Rightarrow> (Inl e, r2, d1)
                        | Inr resp \<Rightarrow> (Inr (preProcessHttpRequestSend S request resp), r2, d1)))
         else if isFiltered then (Inr (preProcessHttpRequestSend S request response), r1, d1)
         else (case the_func S routeResult request of
                 Inr resp \<Rightarrow> (Inr (preProcessHttpRequestSend S request resp), r1, d1)
               | Inl (Threw_FException st) \<Rightarrow>
                   (Inr (preProcessHttpRequestSend S request
                      (case mInternalErrCallback S of
                         Some cb \<Rightarrow> cb request response st
                       | None \<Rightarrow> defaultExceptionFunc response st)), r1, d1)
               | Inl Threw_std \<Rightarrow>
                   (Inr (preProcessHttpRequestSend S request (defaultExceptionFunc response [])), r1, d1)))"

section \<open>HTTP/1 connections\<close>

text \<open>The parser's context after it has been moved into the request: strings and containers that have
  been moved from are empty in libstdc++, the two enumerations keep their values.\<close>

definition moved_from :: "http_parser \<Rightarrow> http_parser" where
  "moved_from p = p\<lparr>mCtx := new_context (mMethod (mCtx p)) (mHttpVersion (mCtx p))\<rparr>"

datatype process_error = Parse_threw std_error | Controller_threw controller_exn

definition http1Process :: "('cm, 'rc, 'oq, 'f) router_libs \<Rightarrow> 'f http_server \<Rightarrow> u64 \<Rightarrow> http_parser \<Rightarrow>
    ('cm, 'rc, 'oq) router \<Rightarrow> conn_data \<Rightarrow> fbuffer \<Rightarrow>
    process_error option \<times> conn_action list \<times> ('cm, 'rc, 'oq) router \<times> conn_data \<times> fbuffer" where
  "http1Process L S clock fresh_p r d reader =
     (let (isParseDone, p, b) = http_parse (cd_parser d) reader
      in case isParseDone of
           Inl e \<Rightarrow> (Some (Parse_threw e), [], r, d\<lparr>cd_parser := p\<rparr>, b)
         | Inr False \<Rightarrow>
             (None, if pstate p = Parse_Error then [ForceClose] else [], r, d\<lparr>cd_parser := p\<rparr>, b)
         | Inr True \<Rightarrow>
             (let (answer, r1, d1) = httpHandle L S clock r (d\<lparr>cd_parser := moved_from p\<rparr>) False (FHttpRequest_of_parser p)
              in case answer of
                   Inl e \<Rightarrow> (Some (Controller_threw e), [], r1, d1, b)
                 | Inr response \<Rightarrow>
                     (None, [Send (rs_toString response)], r1,
                      if shouldKeepAlive d1 then d1\<lparr>cd_parser := fresh_p\<rparr> else d1, b)))"

definition handleTcpWriteComplete :: "conn_data \<Rightarrow> conn_action list" where
  "handleTcpWriteComplete d = (if \<not> shouldKeepAlive d then [ForceClose] else [])"

text \<open>The idle timer.\<close>

definition handleTcpIdle :: "'f http_server \<Rightarrow> int \<Rightarrow> bool \<Rightarrow> conn_data \<Rightarrow> conn_action list" where
  "handleTcpIdle S clock isHttp2 d =
     (let age = clock - uint (hasSurvivedTime d);
          waitOver = (0 \<le> mHttpRequestWaitTime S \<and> mHttpRequestWaitTime S < age)
      in if \<not> isHttp2
         then (let isTimeOut = (0 \<le> mHttpConnectionTimeout S \<and> mHttpConnectionTimeout S < age);
                   isParseNotComplete = (pstate (cd_parser d) \<noteq> Done)
               in if waitOver \<and> isParseNotComplete then [ForceClose]
                  else if isTimeOut then [ForceClose] else [])
         else (let isTimeOut = (0 \<le> mHttpConnectionTimeout S
                                \<and> min (mHttpConnectionTimeout S) (mHttp2DrainTimeOut S) < age)
               in if waitOver
                  then (if mHttp2CloseImm S then [ForceClose] else [])
                       @ (if isTimeOut then [ForceClose] else [])
                       @ (if \<not> isTimeOut then [SubmitGoaway, H2SendProcess] else [])
                  else []))"

section \<open>Lemmas\<close>

lemma keep_alive_rule:
  "shouldKeepAlive (preProcessTcpConn d False request) \<longleftrightarrow>
     (case rq_getHeader request ''Connection'' of
        None \<Rightarrow> mHttpVersion (mHttpCtx request) = Http11
      | Some v \<Rightarrow> v = ''keep-alive'')"
  by (simp add: preProcessTcpConn_def Let_def split: option.split)

lemma preProcess_frame:
  "hasSurvivedTime (preProcessTcpConn d h2 request) = hasSurvivedTime d
   \<and> cd_parser (preProcessTcpConn d h2 request) = cd_parser d
   \<and> http2Ctx (preProcessTcpConn d h2 request) = http2Ctx d"
  by (simp add: preProcessTcpConn_def Let_def)

lemma httpHandle_data: "snd (snd (httpHandle L S clock r d h2 request)) = preProcessTcpConn d h2 request"
  by (simp add: httpHandle_def Let_def split: prod.split option.split sum.split controller_exn.split)

lemma find_mm_insert_same: "mm_find (mm_insert m k v) k \<noteq> None"
  by (induction m k v rule: mm_insert.induct) (auto simp: mm_find_def)

lemma find_mm_insert_other: "j \<noteq> k \<Longrightarrow> mm_find (mm_insert m k v) j = mm_find m j"
  by (induction m k v rule: mm_insert.induct) (auto simp: mm_find_def)

lemma setContentType_frame:
  "mVersion (rs_setContentType rs t) = mVersion rs \<and> mBody (rs_setContentType rs t) = mBody rs
   \<and> mStatus (rs_setContentType rs t) = mStatus rs
   \<and> (j \<noteq> ''Content-Type'' \<longrightarrow> rs_getHeader (rs_setContentType rs t) j = rs_getHeader rs j)"
proof -
  have "mm_find (assign_first m k v) j = mm_find m j" if "j \<noteq> k" for m :: "(string, string) omap" and k v
    using that by (induction m k v rule: assign_first.induct) (auto simp: mm_find_def)
  then show ?thesis
    by (simp add: rs_setContentType_def rs_getHeader_def find_mm_insert_other split: option.split)
qed

definition response_finished :: "http_response \<Rightarrow> bool" where
  "response_finished rs \<longleftrightarrow> mVersion rs = Http11 \<and> rs_getHeader rs ''Server'' \<noteq> None
     \<and> (mBody rs \<noteq> [] \<longrightarrow> rs_getHeader rs ''Content-Type'' \<noteq> None)"

lemma addHeader_present: "rs_getHeader (rs_addHeader rs k v) k \<noteq> None"
  using find_mm_insert_same by (simp add: rs_getHeader_def rs_addHeader_def)

lemma setContentType_present: "rs_getHeader (rs_setContentType rs t) ''Content-Type'' = Some t"
  using setContentType_find by (simp add: rs_getHeader_def)

lemma preProcess_finished: "response_finished (preProcessHttpRequestSend S request rs)"
proof -
  define r2 where "r2 = rs_setHttpVersion (case mPreSendCallback S of None \<Rightarrow> rs | Some cb \<Rightarrow> cb request rs) Http11"
  define r3 where "r3 = rs_addHeader r2 ''Server'' ((case rs_getHeader r2 ''Server'' of None \<Rightarrow> [] | Some v \<Rightarrow> v) @ DefaultServerName)"
  have r3: "mVersion r3 = Http11" "mBody r3 = mBody r2" "rs_getHeader r3 ''Server'' \<noteq> None"
    using addHeader_present [of r2 "''Server''"] by (simp_all only: r3_def) (simp_all add: rs_addHeader_def r2_def rs_setHttpVersion_def)
  have eq: "preProcessHttpRequestSend S request rs =
     (if mBody r2 \<noteq> [] \<and> rs_getHeader r3 ''Content-Type'' = None
      then rs_setContentType r3 (snd (getContentTypeByPath (rq_getPath request))) else r3)"
    by (simp add: preProcessHttpRequestSend_def Let_def r3_def r2_def rs_setHttpVersion_def)
  show ?thesis
    using r3 setContentType_present setContentType_frame [of r3 _ "''Server''"]
    unfolding eq response_finished_def by auto
qed

lemma handle_result:
  assumes "fst (httpHandle L S clock r d h2 request) = Inr resp"
  obtains rs where "resp = preProcessHttpRequestSend S request rs"
  using assms
  by (auto simp: httpHandle_def Let_def split: prod.splits option.splits sum.splits controller_exn.splits if_splits)

lemma handle_finished:
  assumes "fst (httpHandle L S clock r d h2 request) = Inr resp"
  shows "response_finished resp"
  using handle_result [OF assms] preProcess_finished by metis

lemma preProcess_status_body:
  "mPreSendCallback S = None \<Longrightarrow>
     mStatus (preProcessHttpRequestSend S request rs) = mStatus rs
     \<and> mBody (preProcessHttpRequestSend S request rs) = mBody rs"
  using setContentType_frame
  by (simp add: preProcessHttpRequestSend_def Let_def rs_setHttpVersion_def rs_addHeader_def)

text \<open>Without an error page, every request is answered: no exception leaves the handler.\<close>

lemma handler_answers:
  assumes "libs_ok L" "no_error_page L r" "httpHandle L S clock r d h2 request = (ans, r', d')"
  shows "(\<exists>resp. ans = Inr resp) \<and> no_error_page L r'"
proof -
  obtain flt response where f: "(case mConnFilterFunc S of None \<Rightarrow> (False, FHttpResponse_new)
      | Some flt \<Rightarrow> flt request FHttpResponse_new) = (flt, response)" by fastforce
  obtain res r1 where R: "(if mIsValid request \<and> \<not> flt then route L clock r (rq_getMethod request) (rq_getPath request)
      else (RouteResult_new, r)) = (res, r1)" by fastforce
  then have r1: "no_error_page L r1"
    using no_error_page_route [OF assms(1,2), of clock "rq_getMethod request" "rq_getPath request"] assms(2)
    by (auto split: if_splits)
  have "route L clock r1 M_GET ERROR_ROUTE_PATH = (RouteResult_new, r1)"
    using no_error_page_invalid [OF r1] by blast
  then show ?thesis
    using assms(3) r1
    by (auto simp: httpHandle_def Let_def f R new_result_invalid split: sum.splits controller_exn.splits if_splits)
qed

section \<open>Properties\<close>

text \<open>
  C25. Every answer is finished: whichever branch produced the response (filter, controller, error
  page, not found, exception), what goes to the client says HTTP/1.1, names the server, and has a
  content type whenever it has a body.
\<close>
theorem answers_are_finished:
  assumes "fst (httpHandle L S clock r d h2 request) = Inr resp"
  shows "response_finished resp"
  by (rule handle_finished [OF assms])

definition demo_server :: "nat http_server" where
  "demo_server = \<lparr>mPreSendCallback = None, mInternalErrCallback = None, mRouteNotMatchCallback = None,
     mConnFilterFunc = None,
     run_controller = (\<lambda>f request vars.
        if f = 1 then Inr (rs_setBody FHttpResponse_new (pv_get vars ''name'')) else Inl (Threw_FException [])),
     mHttpRequestWaitTime = 10, mHttpConnectionTimeout = 60, mHttp2DrainTimeOut = 15, mHttp2CloseImm = False\<rparr>"

definition demo_data :: conn_data where
  "demo_data = \<lparr>cd_parser = FHttpParser_new M_GET Http11, shouldKeepAlive = True, hasSurvivedTime = 0, http2Ctx = False\<rparr>"

definition demo_request :: "string \<Rightarrow> http_request" where
  "demo_request path = \<lparr>mHttpCtx = (new_context M_GET Http11)\<lparr>mRequestPath := path\<rparr>, mIsValid = True\<rparr>"

theorem answers_are_finished_witness:
  "\<exists>resp. fst (httpHandle demo_libs demo_server 0 demo_router demo_data False (demo_request ''/file/a.png'')) = Inr resp
     \<and> mBody resp = ''a.png'' \<and> response_finished resp"
proof -
  let ?a = "fst (httpHandle demo_libs demo_server 0 demo_router demo_data False (demo_request ''/file/a.png''))"
  have "(case ?a of Inl _ \<Rightarrow> False | Inr resp \<Rightarrow> mBody resp = ''a.png'')" by code_simp
  then obtain resp where "?a = Inr resp" "mBody resp = ''a.png''" by (auto split: sum.splits)
  with answers_are_finished show ?thesis by blast
qed

text \<open>A request as the builder means it, and the answers the server can give to it.\<close>

definition request_of :: "request_builder \<Rightarrow> http_request \<Rightarrow> bool" where
  "request_of rb q \<longleftrightarrow> mIsValid q \<and> rq_getMethod q = method_of rb \<and> mHttpVersion (mHttpCtx q) = Http11
     \<and> rq_getPath q = fst (ParsePathLine (url_of rb) (url_of rb) [])
     \<and> mQueryMap (mHttpCtx q) = snd (ParsePathLine (url_of rb) (url_of rb) [])
     \<and> mRequestBody (mHttpCtx q) = body_of rb"

definition answers_request :: "('cm, 'rc, 'oq, 'f) router_libs \<Rightarrow> 'f http_server \<Rightarrow> request_builder \<Rightarrow> http_response \<Rightarrow> bool" where
  "answers_request L S rb resp \<longleftrightarrow> response_finished resp
     \<and> (\<exists>clock r d q. request_of rb q \<and> fst (httpHandle L S clock r d False q) = Inr resp)"

text \<open>A parser that is done and whose context has been moved out.\<close>

definition spent :: "http_parser \<Rightarrow> bool" where
  "spent p \<longleftrightarrow> pstate p = Done \<and> mCtx p = new_context (mMethod (mCtx p)) Http11"

definition keeps_alive :: "request_builder \<Rightarrow> bool" where
  "keeps_alive rb \<longleftrightarrow> (case omap_find (headers_of rb) ''Connection'' of None \<Rightarrow> True | Some v \<Rightarrow> v = ''keep-alive'')"

lemma http1_resumed:
  assumes "fresh p0" "resumes (cd_parser d) p0 t" "fb_wf b" "builder_ok rb" "t @ readable b = rb_build rb @ next"
    "NUL \<notin> set next" "http1Process L S clock fresh_p r d b = (err, acts, r', d', b')"
  shows "readable b' = drop 1 next \<and> fb_wf b' \<and> m_buffer b' = m_buffer b
    \<and> (shouldKeepAlive d' \<longleftrightarrow> keeps_alive rb) \<and> hasSurvivedTime d' = hasSurvivedTime d
    \<and> (\<exists>d0 q ans d1. httpHandle L S clock r d0 False q = (ans, r', d1) \<and> request_of rb q
          \<and> (case ans of
                Inr resp \<Rightarrow> err = None \<and> acts = [Send (rs_toString resp)] \<and> answers_request L S rb resp
                  \<and> (if shouldKeepAlive d' then cd_parser d' = fresh_p else spent (cd_parser d'))
              | Inl e \<Rightarrow> err = Some (Controller_threw e) \<and> acts = []))"
proof -
  obtain p1 b1 where p1: "http_parse (cd_parser d) b = (Inr True, p1, b1)" "readable b1 = drop 1 next"
      "fb_wf b1" "m_buffer b1 = m_buffer b" "pstate p1 = Done" "mHttpVersion (mCtx p1) = Http11"
      "ctx_getHeader (mCtx p1) ''Connection'' = omap_find (headers_of rb) ''Connection''"
      "mMethod (mCtx p1) = method_of rb" "mRequestBody (mCtx p1) = body_of rb"
      "mRequestPath (mCtx p1) = fst (ParsePathLine (url_of rb) (url_of rb) [])"
      "mQueryMap (mCtx p1) = snd (ParsePathLine (url_of rb) (url_of rb) [])"
    using built_request_resumed [OF assms(1,3-6,2)] by auto
  let ?d = "d\<lparr>cd_parser := moved_from p1\<rparr>" and ?q = "FHttpRequest_of_parser p1"
  obtain ans r1 d1 where h: "httpHandle L S clock r ?d False ?q = (ans, r1, d1)" by (metis prod_cases3)
  have d1: "d1 = preProcessTcpConn ?d False ?q" using httpHandle_data [of L S clock r ?d False ?q] h by simp
  have ka: "shouldKeepAlive d1 \<longleftrightarrow> keeps_alive rb"
    using p1(6,7) by (simp add: d1 keep_alive_rule keeps_alive_def rq_getHeader_def FHttpRequest_of_parser_def split: option.split)
  have frame: "hasSurvivedTime d1 = hasSurvivedTime d" "cd_parser d1 = moved_from p1"
    by (simp_all add: d1 preProcess_frame)
  have q: "request_of rb ?q" using p1 by (simp add: request_of_def FHttpRequest_of_parser_def)
  have "answers_request L S rb resp" if "ans = Inr resp" for resp
  proof -
    from that h have "fst (httpHandle L S clock r ?d False ?q) = Inr resp" by simp
    then show ?thesis using handle_finished q unfolding answers_request_def by blast
  qed
  moreover have "spent (moved_from p1)"
    using p1(5,6) by (simp add: spent_def moved_from_def new_context_def)
  ultimately show ?thesis
    using assms(7) p1(1-4) h ka frame q
    by (intro conjI exI [of _ ?d] exI [of _ ?q] exI [of _ ans] exI [of _ d1])
      (auto simp: http1Process_def Let_def split: sum.splits if_splits)
qed

lemma http1_answers:
  assumes "fresh (cd_parser d)" "fb_wf b" "builder_ok rb" "readable b = rb_build rb @ next" "NUL \<notin> set next"
    "http1Process L S clock fresh_p r d b = (err, acts, r', d', b')"
  shows "readable b' = drop 1 next \<and> fb_wf b' \<and> m_buffer b' = m_buffer b
    \<and> (shouldKeepAlive d' \<longleftrightarrow> (case omap_find (headers_of rb) ''Connection'' of None \<Rightarrow> True | Some v \<Rightarrow> v = ''keep-alive''))
    \<and> hasSurvivedTime d' = hasSurvivedTime d
    \<and> ((\<exists>resp. err = None \<and> acts = [Send (rs_toString resp)] \<and> response_finished resp
            \<and> (shouldKeepAlive d' \<longrightarrow> cd_parser d' = fresh_p))
       \<or> (\<exists>e. err = Some (Controller_threw e) \<and> acts = []))"
proof -
  from http1_resumed [OF assms(1) _ assms(2,3) _ assms(5,6), of "[]"] assms(4)
  obtain ans where k: "readable b' = drop 1 next" "fb_wf b'" "m_buffer b' = m_buffer b"
      "shouldKeepAlive d' \<longleftrightarrow> keeps_alive rb" "hasSurvivedTime d' = hasSurvivedTime d"
    and a: "case ans of
        Inr resp \<Rightarrow> err = None \<and> acts = [Send (rs_toString resp)] \<and> answers_request L S rb resp
          \<and> (if shouldKeepAlive d' then cd_parser d' = fresh_p else spent (cd_parser d'))
      | Inl e \<Rightarrow> err = Some (Controller_threw e) \<and> acts = []"
    by auto
  show ?thesis
    using k a by (cases ans) (auto simp: keeps_alive_def answers_request_def)
qed


text \<open>
  What the idle timer measures: an HTTP/1 connection is closed exactly when its age since the
  connection data was created exceeds the connection timeout, or exceeds the request wait time
  while no complete request is parsed; an HTTP/2 connection is only looked at once its age exceeds
  the request wait time, and is then sent GOAWAY unless it is closed.
\<close>
theorem idle_measures_age:
  assumes "0 \<le> mHttpRequestWaitTime S" "0 \<le> mHttpConnectionTimeout S"
  shows "(ForceClose \<in> set (handleTcpIdle S clock False d) \<longleftrightarrow>
            mHttpConnectionTimeout S < clock - uint (hasSurvivedTime d)
            \<or> mHttpRequestWaitTime S < clock - uint (hasSurvivedTime d) \<and> pstate (cd_parser d) \<noteq> Done)
    \<and> (handleTcpIdle S clock True d \<noteq> [] \<longrightarrow> mHttpRequestWaitTime S < clock - uint (hasSurvivedTime d))
    \<and> (mHttpRequestWaitTime S < clock - uint (hasSurvivedTime d) \<longrightarrow> ForceClose \<notin> set (handleTcpIdle S clock True d) \<longrightarrow>
         handleTcpIdle S clock True d = [SubmitGoaway, H2SendProcess])"
  using assms by (auto simp: handleTcpIdle_def Let_def)

theorem idle_measures_age_witness:
  "ForceClose \<in> set (handleTcpIdle demo_server 11 False demo_data)"
  using idle_measures_age [of demo_server 11 demo_data]
  by (simp add: demo_server_def demo_data_def FHttpParser_new_def)

text \<open>
  Failures have an answer: without callbacks of the application, a path that no pattern matches
  (and no error page) gets status 404, and a controller that throws gets status 501 with a body that
  says 500; the router and the connection stay usable.
\<close>
theorem failures_are_answered:
  assumes "mPreSendCallback S = None" "mConnFilterFunc S = None" "mIsValid request"
    "mRouteNotMatchCallback S = None" "mInternalErrCallback S = None"
    "route L clock r (rq_getMethod request) (rq_getPath request) = (res, r1)"
  shows "(\<not> rr_isvalid res \<longrightarrow> \<not> rr_isvalid (fst (route L clock r1 M_GET ERROR_ROUTE_PATH)) \<longrightarrow>
      (\<exists>resp. fst (httpHandle L S clock r d h2 request) = Inr resp \<and> mStatus resp = S404
         \<and> mBody resp = ''404: Page not found''))
    \<and> (rr_isvalid res \<longrightarrow> the_func S res request = Inl e \<longrightarrow>
      (\<exists>resp st. fst (httpHandle L S clock r d h2 request) = Inr resp \<and> mStatus resp = S501
         \<and> mBody resp = ''500: Server Internal Error'' @ st))"
  using assms preProcess_status_body [OF assms(1)]
  by (auto simp: httpHandle_def Let_def defaultHandleRouterMismatchFunc_def defaultExceptionFunc_def
      rs_setBody_def rs_setStatusCode_def split: prod.splits controller_exn.splits)

theorem failures_are_answered_witness:
  "\<exists>resp. fst (httpHandle demo_libs demo_server 0 demo_router demo_data False (demo_request ''/nope'')) = Inr resp
     \<and> mStatus resp = S404"
proof -
  let ?r = "route demo_libs 0 demo_router M_GET ''/nope''"
  have "\<not> rr_isvalid (fst ?r)" "\<not> rr_isvalid (fst (route demo_libs 0 (snd ?r) M_GET ERROR_ROUTE_PATH))"
    by code_simp+
  then show ?thesis
    using failures_are_answered [of demo_server "demo_request ''/nope''" demo_libs 0 demo_router "fst ?r" "snd ?r" demo_data False]
    by (auto simp: demo_server_def demo_request_def new_context_def)
qed


end
