(* ===== verification/FRwLock.thy ===== *)
theory FRwLock
  imports Prelude "HOL-Library.Multiset"
begin

text \<open>
  The reader/writer lock of \<open>FConcurrentHashMap\<close> and \<open>FConcurrentMap\<close> (\<open>FeiLib/include/FConcurrentMap.h\<close>,
  the two classes have the same code): a step relation over the phases a thread passes through in
  \<open>tryLockRead\<close>, \<open>tryUnlockRead\<close>, \<open>tryLockWrite\<close> and \<open>tryUnlockWrite\<close>. The sections that hold
  \<open>mWriteMutex\<close> contain no waiting, so each of them is one step; a turn of a spin loop that finds its
  condition unchanged is no step. The lemmas show mutual exclusion and the absence of deadlock.
\<close>

datatype lock_phase = Idle | Reading | Announced | Drained | Writing | Released

record rw_lock =
  mReadingCounts :: int
  mWriteLock :: int
  mModifyMutex :: "nat option"
  phases :: "lock_phase list"

definition rw_init :: "nat \<Rightarrow> rw_lock" where
  "rw_init n = \<lparr>mReadingCounts = 0, mWriteLock = 0, mModifyMutex = None, phases = replicate n Idle\<rparr>"

abbreviation at_phase :: "rw_lock \<Rightarrow> nat \<Rightarrow> lock_phase \<Rightarrow> bool" where
  "at_phase s t ph \<equiv> t < length (phases s) \<and> phases s ! t = ph"

inductive rw_step :: "rw_lock \<Rightarrow> nat \<Rightarrow> rw_lock \<Rightarrow> bool" where
  lock_read: "at_phase s t Idle \<Longrightarrow> mWriteLock s = 0 \<Longrightarrow>
    rw_step s t (s\<lparr>mReadingCounts := mReadingCounts s + 1, phases := (phases s)[t := Reading]\<rparr>)"
| unlock_read: "at_phase s t Reading \<Longrightarrow>
    rw_step s t (s\<lparr>mReadingCounts := mReadingCounts s - 1, phases := (phases s)[t := Idle]\<rparr>)"
| announce_write: "at_phase s t Idle \<Longrightarrow>
    rw_step s t (s\<lparr>mWriteLock := mWriteLock s + 1, phases := (phases s)[t := Announced]\<rparr>)"
| readers_gone: "at_phase s t Announced \<Longrightarrow> \<not> 0 < mReadingCounts s \<Longrightarrow>
    rw_step s t (s\<lparr>phases := (phases s)[t := Drained]\<rparr>)"
| lock_modify: "at_phase s t Drained \<Longrightarrow> mModifyMutex s = None \<Longrightarrow>
    rw_step s t (s\<lparr>mModifyMutex := Some t, phases := (phases s)[t := Writing]\<rparr>)"
| unlock_modify: "at_phase s t Writing \<Longrightarrow>
    rw_step s t (s\<lparr>mModifyMutex := None, phases := (phases s)[t := Released]\<rparr>)"
| retract_write: "at_phase s t Released \<Longrightarrow>
    rw_step s t (s\<lparr>mWriteLock := mWriteLock s - 1, phases := (phases s)[t := Idle]\<rparr>)"

inductive_cases rw_stepE: "rw_step s t s'"

inductive rw_reach :: "nat \<Rightarrow> rw_lock \<Rightarrow> bool" for n where
  rw_start: "rw_reach n (rw_init n)"
| rw_next: "rw_reach n s \<Longrightarrow> rw_step s t s' \<Longrightarrow> rw_reach n s'"

section \<open>The invariant\<close>

definition in_phase :: "rw_lock \<Rightarrow> lock_phase \<Rightarrow> nat" where
  "in_phase s ph = count (mset (phases s)) ph"

definition rw_inv :: "rw_lock \<Rightarrow> bool" where
  "rw_inv s \<longleftrightarrow>
     mReadingCounts s = int (in_phase s Reading)
   \<and> mWriteLock s = int (in_phase s Announced + in_phase s Drained + in_phase s Writing + in_phase s Released)
   \<and> (\<forall>t. mModifyMutex s = Some t \<longleftrightarrow> at_phase s t Writing)
   \<and> (0 < in_phase s Drained + in_phase s Writing \<longrightarrow> in_phase s Reading = 0)"

lemma in_phase_pos: "at_phase s t ph \<Longrightarrow> 0 < in_phase s ph"
  by (auto simp: in_phase_def count_greater_zero_iff)

lemma in_phase_ex: "0 < in_phase s ph \<Longrightarrow> \<exists>t. at_phase s t ph"
  by (auto simp: in_phase_def count_greater_zero_iff in_set_conv_nth)

lemma in_phase_move:
  assumes "at_phase s t a" "a \<noteq> b" "phases s' = (phases s)[t := b]"
  shows "in_phase s' ph = (if ph = a then in_phase s a - 1 else if ph = b then in_phase s b + 1 else in_phase s ph)"
  using assms by (simp add: in_phase_def mset_update)

lemma at_phase_move:
  assumes "at_phase s t a" "phases s' = (phases s)[t := b]"
  shows "at_phase s' u ph \<longleftrightarrow> (if u = t then ph = b else at_phase s u ph)"
  using assms by (auto simp: nth_list_update)

lemma rw_inv_init: "rw_inv (rw_init n)"
  by (simp add: rw_inv_def rw_init_def in_phase_def)

lemma rw_inv_step:
  assumes step: "rw_step s t s'" and inv: "rw_inv s"
  shows "rw_inv s'"
  using step
proof cases
  case lock_read
  note m = in_phase_move [of t s Idle Reading s'] and p = at_phase_move [of t s Idle s' Reading]
  show ?thesis using inv lock_read in_phase_pos [OF lock_read(2)] m p by (simp add: rw_inv_def)
next
  case unlock_read
  note m = in_phase_move [of t s Reading Idle s'] and p = at_phase_move [of t s Reading s' Idle]
  show ?thesis using inv unlock_read in_phase_pos [OF unlock_read(2)] m p by (auto simp add: rw_inv_def)
next
  case announce_write
  note m = in_phase_move [of t s Idle Announced s'] and p = at_phase_move [of t s Idle s' Announced]
  show ?thesis using inv announce_write in_phase_pos [OF announce_write(2)] m p by (simp add: rw_inv_def)
next
  case readers_gone
  note m = in_phase_move [of t s Announced Drained s'] and p = at_phase_move [of t s Announced s' Drained]
  show ?thesis using inv readers_gone in_phase_pos [OF readers_gone(2)] m p by (simp add: rw_inv_def)
next
  case lock_modify
  note m = in_phase_move [of t s Drained Writing s'] and p = at_phase_move [of t s Drained s' Writing]
  show ?thesis using inv lock_modify in_phase_pos [OF lock_modify(2)] m p by (auto simp: rw_inv_def)
next
  case unlock_modify
  note m = in_phase_move [of t s Writing Released s'] and p = at_phase_move [of t s Writing s' Released]
  have "u = t" if "u < length (phases s)" "phases s ! u = Writing" for u
    using inv unlock_modify that unfolding rw_inv_def by (metis option.inject)
  then show ?thesis using inv unlock_modify in_phase_pos [OF unlock_modify(2)] m p
    by (auto simp: rw_inv_def)
next
  case retract_write
  note m = in_phase_move [of t s Released Idle s'] and p = at_phase_move [of t s Released s' Idle]
  show ?thesis using inv retract_write in_phase_pos [OF retract_write(2)] m p by (auto simp: rw_inv_def)
qed

lemma rw_reach_inv: "rw_reach n s \<Longrightarrow> rw_inv s"
  by (induction rule: rw_reach.induct) (auto intro: rw_inv_init rw_inv_step)

lemma rw_reach_threads: "rw_reach n s \<Longrightarrow> length (phases s) = n"
  by (induction rule: rw_reach.induct) (auto simp: rw_init_def elim!: rw_stepE)

section \<open>Mutual exclusion and progress\<close>

text \<open>
  C8. Mutual exclusion: in every reachable state, whatever the interleaving of the threads, a thread
  that is modifying the map is the only one inside it: no other thread writes, and none reads.
\<close>
theorem writer_excludes_all:
  assumes "rw_reach n s" "at_phase s t Writing" "at_phase s u ph" "u \<noteq> t"
  shows "ph \<noteq> Writing \<and> ph \<noteq> Reading"
proof -
  have inv: "rw_inv s" using assms(1) by (rule rw_reach_inv)
  have mutex: "mModifyMutex s = Some v \<longleftrightarrow> at_phase s v Writing" for v
    using inv unfolding rw_inv_def by blast
  have "ph \<noteq> Writing" using mutex [of t] mutex [of u] assms(2-4) by auto
  moreover have "in_phase s Reading = 0"
    using inv in_phase_pos [OF assms(2)] by (simp add: rw_inv_def)
  then have "ph \<noteq> Reading" using in_phase_pos [OF assms(3)] by auto
  ultimately show ?thesis by simp
qed

lemma rw_run_writer: "rw_reach 2 \<lparr>mReadingCounts = 0, mWriteLock = 1, mModifyMutex = Some 0, phases = [Writing, Idle]\<rparr>"
proof -
  let ?s0 = "rw_init 2"
  let ?s1 = "\<lparr>mReadingCounts = 0, mWriteLock = 1, mModifyMutex = None, phases = [Announced, Idle]\<rparr>"
  let ?s2 = "\<lparr>mReadingCounts = 0, mWriteLock = 1, mModifyMutex = None, phases = [Drained, Idle]\<rparr>"
  have "rw_step ?s0 0 ?s1"
    using announce_write [of 0 ?s0] by (simp add: rw_init_def numeral_2_eq_2)
  moreover have "rw_step ?s1 0 ?s2" using readers_gone [of 0 ?s1] by simp
  moreover have "rw_step ?s2 0 \<lparr>mReadingCounts = 0, mWriteLock = 1, mModifyMutex = Some 0, phases = [Writing, Idle]\<rparr>"
    using lock_modify [of 0 ?s2] by simp
  ultimately show ?thesis by (meson rw_start rw_next)
qed

theorem writer_excludes_all_witness:
  "\<exists>s. rw_reach 2 s \<and> at_phase s 0 Writing \<and> phases s ! 1 \<noteq> Reading"
  using writer_excludes_all [OF rw_run_writer, of 0 1 Idle] rw_run_writer
  by (intro exI [of _ "\<lparr>mReadingCounts = 0, mWriteLock = 1, mModifyMutex = Some 0, phases = [Writing, Idle]\<rparr>"]) simp

text \<open>
  C9. No deadlock: as long as some thread is between a lock and its unlock, a thread that is not
  idle can take a step, and when all threads are idle the counters are back at zero.
\<close>
theorem rw_lock_progress:
  assumes "rw_reach n s"
  shows "if \<exists>t ph. at_phase s t ph \<and> ph \<noteq> Idle
         then \<exists>u ph s'. at_phase s u ph \<and> ph \<noteq> Idle \<and> rw_step s u s'
         else mReadingCounts s = 0 \<and> mWriteLock s = 0 \<and> mModifyMutex s = None"
proof -
  have inv: "rw_inv s" using assms by (rule rw_reach_inv)
  have act: ?thesis if "at_phase s u ph" "ph \<noteq> Idle" "rw_step s u s'" for u ph s'
    using that by auto
  consider t where "at_phase s t Reading" | t where "at_phase s t Writing" | t where "at_phase s t Released"
    | t where "at_phase s t Drained" "\<forall>u. \<not> at_phase s u Writing"
    | t where "at_phase s t Announced" "\<forall>u. \<not> at_phase s u Reading"
    | "\<forall>t ph. at_phase s t ph \<longrightarrow> ph = Idle"
    by (metis lock_phase.exhaust)
  then show ?thesis
  proof cases
    case (1 t)
    show ?thesis by (rule act [OF 1 _ unlock_read [OF 1]]) simp
  next
    case (2 t)
    show ?thesis by (rule act [OF 2 _ unlock_modify [OF 2]]) simp
  next
    case (3 t)
    show ?thesis by (rule act [OF 3 _ retract_write [OF 3]]) simp
  next
    case (4 t)
    then have free: "mModifyMutex s = None" using inv by (cases "mModifyMutex s") (auto simp: rw_inv_def)
    show ?thesis by (rule act [OF 4(1) _ lock_modify [OF 4(1) free]]) simp
  next
    case (5 t)
    then have "in_phase s Reading = 0" using in_phase_ex [of s Reading] by blast
    then have gone: "\<not> 0 < mReadingCounts s" using inv by (simp add: rw_inv_def)
    show ?thesis by (rule act [OF 5(1) _ readers_gone [OF 5(1) gone]]) simp
  next
    case 6
    have z: "in_phase s ph = 0" if "ph \<noteq> Idle" for ph using in_phase_ex [of s ph] that 6 by blast
    have "mModifyMutex s \<noteq> Some a" for a
      using inv in_phase_pos [of a s Writing] z [of Writing] by (auto simp: rw_inv_def)
    then have "mModifyMutex s = None" by (cases "mModifyMutex s") auto
    moreover have "mReadingCounts s = 0 \<and> mWriteLock s = 0" using inv z by (simp add: rw_inv_def)
    ultimately show ?thesis using 6 by auto
  qed
qed

theorem rw_lock_progress_witness:
  "\<exists>u ph s'. at_phase \<lparr>mReadingCounts = 0, mWriteLock = 1, mModifyMutex = Some 0, phases = [Writing, Idle]\<rparr> u ph
     \<and> ph \<noteq> Idle \<and> rw_step \<lparr>mReadingCounts = 0, mWriteLock = 1, mModifyMutex = Some 0, phases = [Writing, Idle]\<rparr> u s'"
proof -
  let ?s = "\<lparr>mReadingCounts = 0, mWriteLock = 1, mModifyMutex = Some 0, phases = [Writing, Idle]\<rparr>"
  have "\<exists>t ph. at_phase ?s t ph \<and> ph \<noteq> Idle" by (intro exI [of _ 0] exI [of _ Writing]) simp
  then show ?thesis using rw_lock_progress [OF rw_run_writer] by argo
qed

end
