(* ===== verification/FRouterFlags.thy ===== *)
theory FRouterFlags
  imports Prelude
begin

text \<open>
  The two atomic flags by which \<open>FRouter::route\<close> and \<open>FRouter::unregController\<close> mean to keep out of
  each other's way (\<open>FRouter.cpp\<close>, \<open>__DoHandle\<close>): a step relation over the points at which a thread
  reads or writes a flag. A route waits until \<open>isHandleUnreg\<close> is false and then sets
  \<open>isHandleRoute\<close>; an unregistration waits until \<open>isHandleUnreg\<close> is false, sets it, waits until
  \<open>isHandleRoute\<close> is false and then works. Both destructors store false.
\<close>

datatype router_phase =
  Outside
| RouteAdmitted
| Routing
| UnregAdmitted
| UnregWaiting
| Unregistering

record router_flags =
  isHandleRoute :: bool
  isHandleUnreg :: bool
  rphases :: "router_phase list"

definition flags_init :: "nat \<Rightarrow> router_flags" where
  "flags_init n = \<lparr>isHandleRoute = False, isHandleUnreg = False, rphases = replicate n Outside\<rparr>"

inductive flag_step :: "router_flags \<Rightarrow> nat \<Rightarrow> router_flags \<Rightarrow> bool" where
  route_wait: "t < length (rphases s) \<Longrightarrow> rphases s ! t = Outside \<Longrightarrow> \<not> isHandleUnreg s \<Longrightarrow>
    flag_step s t (s\<lparr>rphases := (rphases s)[t := RouteAdmitted]\<rparr>)"
| route_enter: "t < length (rphases s) \<Longrightarrow> rphases s ! t = RouteAdmitted \<Longrightarrow>
    flag_step s t (s\<lparr>isHandleRoute := True, rphases := (rphases s)[t := Routing]\<rparr>)"
| route_leave: "t < length (rphases s) \<Longrightarrow> rphases s ! t = Routing \<Longrightarrow>
    flag_step s t (s\<lparr>isHandleRoute := False, rphases := (rphases s)[t := Outside]\<rparr>)"
| unreg_wait: "t < length (rphases s) \<Longrightarrow> rphases s ! t = Outside \<Longrightarrow> \<not> isHandleUnreg s \<Longrightarrow>
    flag_step s t (s\<lparr>rphases := (rphases s)[t := UnregAdmitted]\<rparr>)"
| unreg_announce: "t < length (rphases s) \<Longrightarrow> rphases s ! t = UnregAdmitted \<Longrightarrow>
    flag_step s t (s\<lparr>isHandleUnreg := True, rphases := (rphases s)[t := UnregWaiting]\<rparr>)"
| unreg_enter: "t < length (rphases s) \<Longrightarrow> rphases s ! t = UnregWaiting \<Longrightarrow> \<not> isHandleRoute s \<Longrightarrow>
    flag_step s t (s\<lparr>rphases := (rphases s)[t := Unregistering]\<rparr>)"
| unreg_leave: "t < length (rphases s) \<Longrightarrow> rphases s ! t = Unregistering \<Longrightarrow>
    flag_step s t (s\<lparr>isHandleUnreg := False, rphases := (rphases s)[t := Outside]\<rparr>)"

inductive flag_reach :: "nat \<Rightarrow> router_flags \<Rightarrow> bool" for n where
  flag_start: "flag_reach n (flags_init n)"
| flag_next: "flag_reach n s \<Longrightarrow> flag_step s t s' \<Longrightarrow> flag_reach n s'"

text \<open>With a single thread the flags say what is going on.\<close>

definition flags_exact :: "router_flags \<Rightarrow> bool" where
  "flags_exact s \<longleftrightarrow> (isHandleRoute s \<longleftrightarrow> rphases s = [Routing])
     \<and> (isHandleUnreg s \<longleftrightarrow> rphases s = [UnregWaiting] \<or> rphases s = [Unregistering])
     \<and> length (rphases s) = 1"

lemma flags_exact_single: "flag_reach 1 s \<Longrightarrow> flags_exact s"
proof (induction rule: flag_reach.induct)
  case flag_start
  then show ?case by (simp add: flags_exact_def flags_init_def)
next
  case (flag_next s t s')
  from flag_next(3) obtain ph where "rphases s = [ph]"
    by (auto simp: flags_exact_def length_Suc_conv)
  with flag_next(2,3) show ?case
    by (cases rule: flag_step.cases) (auto simp: flags_exact_def)
qed

text \<open>
  The flags do not exclude each other's sections: with one routing and one unregistering thread
  there is an interleaving, between the route's test of \<open>isHandleUnreg\<close> and its store to
  \<open>isHandleRoute\<close>, after which both are inside, so that the route can put back into a cache what the
  unregistration has just cleared.
\<close>
theorem router_flags_race:
  "\<exists>s. flag_reach 2 s \<and> rphases s ! 0 = Routing \<and> rphases s ! 1 = Unregistering"
proof -
  let ?st = "\<lambda>r u ps. \<lparr>isHandleRoute = r, isHandleUnreg = u, rphases = ps\<rparr>"
  have "flag_reach 2 (?st False False [Outside, Outside])"
    using flag_start [of 2] by (simp add: flags_init_def numeral_2_eq_2)
  moreover have "flag_step (?st False False [Outside, Outside]) 0 (?st False False [RouteAdmitted, Outside])"
    using route_wait [of 0 "?st False False [Outside, Outside]"] by simp
  moreover have "flag_step (?st False False [RouteAdmitted, Outside]) 1 (?st False False [RouteAdmitted, UnregAdmitted])"
    using unreg_wait [of 1 "?st False False [RouteAdmitted, Outside]"] by simp
  moreover have "flag_step (?st False False [RouteAdmitted, UnregAdmitted]) 1 (?st False True [RouteAdmitted, UnregWaiting])"
    using unreg_announce [of 1 "?st False False [RouteAdmitted, UnregAdmitted]"] by simp
  moreover have "flag_step (?st False True [RouteAdmitted, UnregWaiting]) 1 (?st False True [RouteAdmitted, Unregistering])"
    using unreg_enter [of 1 "?st False True [RouteAdmitted, UnregWaiting]"] by simp
  moreover have "flag_step (?st False True [RouteAdmitted, Unregistering]) 0 (?st True True [Routing, Unregistering])"
    using route_enter [of 0 "?st False True [RouteAdmitted, Unregistering]"] by simp
  ultimately have "flag_reach 2 (?st True True [Routing, Unregistering])" by (meson flag_next)
  then show ?thesis by (intro exI [of _ "?st True True [Routing, Unregistering]"]) simp
qed

end
