(* ===== verification/FTcp.thy ===== *)
theory FTcp
  imports FBuffer FEvents
begin

text \<open>
  TCP connections and the server that owns them (\<open>FeiLib/src/FTcpConnection.cpp\<close>,
  \<open>FeiLib/src/FTcpServer.cpp\<close>), as they run in the thread of their event loop. The answers of the
  krnl and of the TLS layer are arguments; what a handler does to the outside is a list of
  actions. The message callback is a function on the connection and the buffer behind its reader.
\<close>

section \<open>Connections\<close>

datatype tcp_state = Connected | DisConnected | Connectiing | DisConnecting

datatype tcp_action =
  TA_Sent string
| TA_PostWriteComplete
| TA_CloseCallback
| TA_ShutdownWrite
| TA_CancelTimer u64
| TA_RunAfter int
| TA_IdleCallback

record 'u tcp_conn =
  mstate :: tcp_state
  c_listener :: epoll_listener
  c_event :: fevent
  inBuffer :: fbuffer
  outBuffer :: fbuffer
  isSSLConnection :: bool
  m_userData :: 'u
  m_onMessage :: bool
  m_onWriteComplete :: bool
  m_onIdleCallback :: bool
  mIdleTimer :: u64
  mIdleTime :: int

definition FTcpConnection_new :: "epoll_listener \<Rightarrow> nat \<Rightarrow> u64 \<Rightarrow> bool \<Rightarrow> 'u \<Rightarrow> 'u tcp_conn" where
  "FTcpConnection_new l fd i ssl u =
     \<lparr>mstate = Connectiing, c_listener = l, c_event = FEvent_new fd i, inBuffer = FBuffer_new 1024,
      outBuffer = FBuffer_new 1024, isSSLConnection = ssl, m_userData = u, m_onMessage = False,
      m_onWriteComplete = False, m_onIdleCallback = False, mIdleTimer = 0, mIdleTime = 0\<rparr>"

text \<open>An operation on the connection's event.\<close>

definition on_event :: "(epoll_listener \<Rightarrow> fevent \<Rightarrow> epoll_listener \<times> fevent) \<Rightarrow> 'u tcp_conn \<Rightarrow> 'u tcp_conn" where
  "on_event f c = (let (l, e) = f (c_listener c) (c_event c) in c\<lparr>c_listener := l, c_event := e\<rparr>)"

definition makeConn :: "epoll_listener \<Rightarrow> nat \<Rightarrow> u64 \<Rightarrow> bool \<Rightarrow> 'u \<Rightarrow> 'u tcp_conn" where
  "makeConn l fd i ssl u = on_event ev_init (FTcpConnection_new l fd i ssl u)"

definition handleClose :: "'u tcp_conn \<Rightarrow> 'u tcp_conn \<times> tcp_action list" where
  "handleClose c =
     ((on_event disableAll (c\<lparr>mstate := DisConnected\<rparr>))\<lparr>m_onWriteComplete := False, m_onMessage := False\<rparr>,
      [TA_CloseCallback])"

text \<open>In the loop's thread \<open>forceClose\<close> is \<open>forceCloseInLoop\<close>.\<close>

definition forceCloseInLoop :: "'u tcp_conn \<Rightarrow> 'u tcp_conn \<times> tcp_action list" where
  "forceCloseInLoop c = handleClose c"

datatype send_result = Accepted nat | SendFailed bool

text \<open>The boolean of \<open>SendFailed\<close> says that errno is EPIPE or ECONNRESET. \<open>encrypt\<close> is the TLS layer's
  \<open>EncryptSendingData\<close> once the handshake is over, \<open>None\<close> its exception.\<close>

definition sendInLoop :: "bool \<Rightarrow> (string \<Rightarrow> string option) \<Rightarrow> (string \<Rightarrow> send_result) \<Rightarrow> 'u tcp_conn \<Rightarrow> string \<Rightarrow>
    'u tcp_conn \<times> tcp_action list" where
  "sendInLoop hasShakeHandFin encrypt krnl c data =
     (if mstate c = DisConnected then (c, [])
      else (case (if isSSLConnection c \<and> hasShakeHandFin then encrypt data else Some data) of
              None \<Rightarrow> handleClose c
            | Some sendData \<Rightarrow>
                (let direct = (\<not> isWriting (c_event c) \<and> getReadableSize (outBuffer c) = 0);
                     (sendLen, faultError, acts) =
                       (if direct
                        then (case krnl sendData of
                                SendFailed fault \<Rightarrow> (0, fault, [])
                              | Accepted n \<Rightarrow>
                                  (n, False,
                                   TA_Sent (take n sendData)
                                   # (if length sendData - n = 0 \<and> m_onWriteComplete c then [TA_PostWriteComplete] else [])))
                        else (0, False, []));
                     remaining = length sendData - sendLen
                 in if \<not> faultError \<and> 0 < remaining
                    then (let c1 = c\<lparr>outBuffer := fb_Append (outBuffer c) (drop sendLen sendData)\<rparr>
                          in ((if \<not> isWriting (c_event c1) then on_event enableWriting c1 else c1), acts))
                    else (c, acts))))"

text \<open>\<open>handleRead\<close>: what \<open>readv\<close> delivers (None for an error, with its being transient), and for a TLS
  connection the step of the TLS layer on the input buffer: None its exception, otherwise whether
  there is a buffer of decrypted data for the callback.\<close>

definition handleError :: "bool \<Rightarrow> 'u tcp_conn \<Rightarrow> 'u tcp_conn \<times> tcp_action list" where
  "handleError transient c = (if \<not> transient then forceCloseInLoop c else (c, []))"

text \<open>\<open>onMessage\<close> is what \<open>m_onMessage\<close> does while it is set: to the connection (it may send or close), to the
  buffer behind its reader and to the outside, and the exception it ends with, if any: an \<open>FException\<close>
  or another one.\<close>

datatype callback_exn = Cb_FException | Cb_std

definition call_onMessage :: "('u tcp_conn \<Rightarrow> fbuffer \<Rightarrow> callback_exn option \<times> 'u tcp_conn \<times> fbuffer \<times> tcp_action list) \<Rightarrow>
    'u tcp_conn \<Rightarrow> fbuffer \<Rightarrow> callback_exn option \<times> 'u tcp_conn \<times> fbuffer \<times> tcp_action list" where
  "call_onMessage onMessage c reader = (if m_onMessage c then onMessage c reader else (None, c, reader, []))"

text \<open>The first component of the result is the exception of the callback that leaves the handler: the TLS
  branch catches an \<open>FException\<close> and closes, and nothing else.\<close>

definition handleRead :: "(fbuffer \<Rightarrow> (fbuffer \<times> fbuffer option) option) \<Rightarrow>
    ('u tcp_conn \<Rightarrow> fbuffer \<Rightarrow> callback_exn option \<times> 'u tcp_conn \<times> fbuffer \<times> tcp_action list) \<Rightarrow>
    'u tcp_conn \<Rightarrow> string option \<Rightarrow> bool \<Rightarrow> callback_exn option \<times> 'u tcp_conn \<times> tcp_action list" where
  "handleRead ssl onMessage c delivered transient =
     (if mstate c = DisConnected then (None, c, [])
      else (let (len, b) = fb_Read (inBuffer c) delivered;
                c1 = c\<lparr>inBuffer := b, mstate := Connected\<rparr>
            in if 0 < len
               then (if isSSLConnection c1
                     then (case ssl b of
                             None \<Rightarrow> (None, handleClose c1)
                           | Some (b', plain) \<Rightarrow>
                               (let c2 = c1\<lparr>inBuffer := b'\<rparr>
                                in case plain of
                                     None \<Rightarrow> (None, c2, [])
                                   | Some p \<Rightarrow>
                                       (case call_onMessage onMessage c2 p of
                                          (threw, c3, _, acts) \<Rightarrow>
                                            if threw = Some Cb_FException
                                            then (let (c4, more) = handleClose c3 in (None, c4, acts @ more))
                                            else (threw, c3, acts))))
                     else (case call_onMessage onMessage c1 b of
                             (threw, c2, b', acts) \<Rightarrow> (threw, c2\<lparr>inBuffer := b'\<rparr>, acts)))
               else if len = 0 then (None, handleClose c1)
               else (None, handleError transient c1)))"

definition shutdownInLoop :: "'u tcp_conn \<Rightarrow> 'u tcp_conn \<times> tcp_action list" where
  "shutdownInLoop c =
     (c\<lparr>mstate := DisConnecting\<rparr>, if \<not> isWriting (c_event c) then [TA_ShutdownWrite] else [])"

text \<open>\<open>handleWrite\<close>: \<open>accepted\<close> is how many of the offered bytes the krnl takes. \<open>FBuffer::Write\<close> has
  already removed them when \<open>Pop\<close> removes the same number again.\<close>

definition handleWrite :: "'u tcp_conn \<Rightarrow> nat option \<Rightarrow> 'u tcp_conn \<times> tcp_action list" where
  "handleWrite c accepted =
     (if \<not> isWriting (c_event c) \<or> mstate c = DisConnected then (c, [])
      else (let offered = fb_offer (outBuffer c) (getReadableSize (outBuffer c));
                (len, b1) = fb_Write (outBuffer c) accepted;
                sent = (case accepted of None \<Rightarrow> [] | Some n \<Rightarrow> [TA_Sent (take n offered)])
            in if 0 < len
               then (let b2 = fb_Pop b1 (word_of_int len); c1 = c\<lparr>outBuffer := b2\<rparr>
                     in if getReadableSize b2 = 0
                        then (let c2 = on_event disableWriting c1;
                                  acts = (if m_onWriteComplete c2 then [TA_PostWriteComplete] else [])
                              in if mstate c2 = DisConnecting
                                 then (let (c3, more) = shutdownInLoop c2 in (c3, sent @ acts @ more))
                                 else (c2, sent @ acts))
                        else (c1, sent))
               else (c\<lparr>outBuffer := b1\<rparr>, sent)))"

definition setReading :: "'u tcp_conn \<Rightarrow> bool \<Rightarrow> 'u tcp_conn" where
  "setReading c v =
     (if v \<and> \<not> isReading (c_event c) then on_event enableReading c
      else if \<not> v \<and> isReading (c_event c) then on_event disableReading c
      else c)"

definition cancelIdleFunc :: "'u tcp_conn \<Rightarrow> tcp_action list" where
  "cancelIdleFunc c = (if 0 < mIdleTimer c then [TA_CancelTimer (mIdleTimer c)] else [])"

text \<open>\<open>newTimer\<close> is the identifier the loop gives the timer.\<close>

definition resetIdle :: "'u tcp_conn \<Rightarrow> u64 \<Rightarrow> 'u tcp_conn \<times> tcp_action list" where
  "resetIdle c newTimer =
     (if m_onIdleCallback c \<and> 0 < mIdleTime c \<and> mstate c \<noteq> DisConnected
      then (c\<lparr>mIdleTimer := newTimer\<rparr>, cancelIdleFunc c @ [TA_RunAfter (mIdleTime c)])
      else (c, cancelIdleFunc c))"

definition handlePostEvent :: "'u tcp_conn \<Rightarrow> u64 \<Rightarrow> 'u tcp_conn \<times> tcp_action list" where
  "handlePostEvent c newTimer = resetIdle c newTimer"

definition handleOnIdle :: "'u tcp_conn \<Rightarrow> u64 \<Rightarrow> 'u tcp_conn \<times> tcp_action list" where
  "handleOnIdle c newTimer =
     (if \<not> m_onIdleCallback c then (c, [])
      else (let (c1, acts) = resetIdle (c\<lparr>mIdleTimer := 0\<rparr>) newTimer in (c1, acts @ [TA_IdleCallback])))"

text \<open>The destructor: in the loop's thread it cancels the idle timer and takes the event out of the loop (its
  assertion, that the connection is closed, is \<open>conn_closed\<close>); in another thread it only marks the
  event as not in the loop. Then the event is destroyed.\<close>

definition conn_closed :: "'u tcp_conn \<Rightarrow> bool" where
  "conn_closed c \<longleftrightarrow> mstate c = DisConnected"

definition FTcpConnection_destroy :: "bool \<Rightarrow> 'u tcp_conn \<Rightarrow> tcp_action list \<times> epoll_listener" where
  "FTcpConnection_destroy isInLoopThread c =
     (if isInLoopThread
      then (let (l, e) = ev_remove (c_listener c) (c_event c) in (cancelIdleFunc c, FEvent_destroy l e))
      else ([], FEvent_destroy (c_listener c) ((c_event c)\<lparr>mAddedToLoop := False\<rparr>)))"

section \<open>The server\<close>

record tcp_server =
  m_subLoops :: nat
  m_acceptors :: "u32 list"
  m_sslPort :: "u32 list"
  m_tcpConns :: "(nat, nat) omap"
  m_tickEvents :: "(nat, nat) omap"
  m_tickEventId :: nat
  IOThread_Chooser :: u32

definition addListenPort :: "tcp_server \<Rightarrow> u32 \<Rightarrow> tcp_server" where
  "addListenPort s port = s\<lparr>m_acceptors := m_acceptors s @ [port]\<rparr>"

definition addSslListenPort :: "bool \<Rightarrow> tcp_server \<Rightarrow> u32 \<Rightarrow> tcp_server" where
  "addSslListenPort envSetup s port =
     (if \<not> envSetup then s
      else (let s1 = addListenPort s port in s1\<lparr>m_sslPort := m_sslPort s1 @ [port]\<rparr>))"

text \<open>\<open>v.resize(v.size() - 1)\<close>: of an empty vector the size wraps around to the largest \<open>size_t\<close>, for
  which \<open>resize\<close> throws \<open>std::length_error\<close>.\<close>

definition resize_minus_one :: "'a list \<Rightarrow> std_error + 'a list" where
  "resize_minus_one xs = (if xs = [] then Inl Length_error else Inr (butlast xs))"

definition removeListenPort :: "tcp_server \<Rightarrow> u32 \<Rightarrow> std_error option \<times> tcp_server" where
  "removeListenPort s port =
     (let acceptors = filter (\<lambda>p. p \<noteq> port) (m_acceptors s)
      in case resize_minus_one acceptors of
           Inl e \<Rightarrow> (Some e, s\<lparr>m_acceptors := acceptors\<rparr>)
         | Inr as \<Rightarrow>
             (let ssl = filter (\<lambda>p. p \<noteq> port) (m_sslPort s)
              in case resize_minus_one ssl of
                   Inl e \<Rightarrow> (Some e, s\<lparr>m_acceptors := as, m_sslPort := ssl\<rparr>)
                 | Inr ss \<Rightarrow> (None, s\<lparr>m_acceptors := as, m_sslPort := ss\<rparr>)))"

text \<open>\<open>onNewConnIn\<close>: the loop that gets the connection, whether it is a TLS one, and the table of
  connections with the new one (\<open>insert\<close> keeps an entry of the same descriptor).\<close>

definition onNewConnIn :: "tcp_server \<Rightarrow> nat \<Rightarrow> u32 \<Rightarrow> nat \<Rightarrow> nat \<times> bool \<times> tcp_server" where
  "onNewConnIn s inSock acceptPort conn =
     (let choosen = unat (IOThread_Chooser s);
          s1 = s\<lparr>IOThread_Chooser := (IOThread_Chooser s + 1) mod word_of_nat (m_subLoops s)\<rparr>;
          isSSL = list_ex (\<lambda>p. p = acceptPort) (m_sslPort s1)
      in (choosen, isSSL, s1\<lparr>m_tcpConns := omap_insert (m_tcpConns s1) inSock conn\<rparr>))"

definition srv_onClose :: "tcp_server \<Rightarrow> nat \<Rightarrow> tcp_server" where
  "srv_onClose s fd = s\<lparr>m_tcpConns := omap_erase (m_tcpConns s) fd\<rparr>"

definition addTickEvent :: "tcp_server \<Rightarrow> nat \<Rightarrow> nat \<times> tcp_server" where
  "addTickEvent s event =
     (m_tickEventId s,
      s\<lparr>m_tickEventId := m_tickEventId s + 1, m_tickEvents := omap_insert (m_tickEvents s) (m_tickEventId s) event\<rparr>)"

definition srv_removeEvent :: "tcp_server \<Rightarrow> nat \<Rightarrow> tcp_server" where
  "srv_removeEvent s i =
     (if omap_find (m_tickEvents s) i = None then s else s\<lparr>m_tickEvents := omap_erase (m_tickEvents s) i\<rparr>)"

definition tickUserEvent :: "tcp_server \<Rightarrow> nat list" where
  "tickUserEvent s = map snd (m_tickEvents s)"

section \<open>Lemmas\<close>

definition sent_bytes :: "tcp_action list \<Rightarrow> string" where
  "sent_bytes acts = concat (map (\<lambda>a. case a of TA_Sent s \<Rightarrow> s | _ \<Rightarrow> []) acts)"

lemma on_event_frame [simp]:
  "mstate (on_event f c) = mstate c" "outBuffer (on_event f c) = outBuffer c" "inBuffer (on_event f c) = inBuffer c"
  "m_onMessage (on_event f c) = m_onMessage c" "m_onWriteComplete (on_event f c) = m_onWriteComplete c"
  by (simp_all add: on_event_def split: prod.split)

lemma isWriting_bit: "isWriting e \<longleftrightarrow> bit (mEvent e) Out"
  by (simp add: isWriting_def WriteEvent_def and_flag)

lemma writing_enabled [simp]: "isWriting (c_event (on_event enableWriting c))"
proof -
  have "isWriting (snd (enableWriting l e))" for l e
    by (auto simp: enableWriting_def ev_update_def isWriting_bit WriteEvent_def bit_or_iff bit_flag)
  then show ?thesis by (simp add: on_event_def split: prod.split) (metis snd_conv)
qed

text \<open>The general form, with what the TLS layer makes of the data in between.\<close>

lemma sendInLoop_stream:
  assumes "mstate c \<noteq> DisConnected" "(if isSSLConnection c \<and> hs then encrypt data else Some data) = Some sd"
    "fb_wf (outBuffer c)" "fb_room (outBuffer c) (length sd)"
    "\<forall>d. (\<exists>n. krnl d = Accepted n \<and> n \<le> length d) \<or> krnl d = SendFailed False"
    "sendInLoop hs encrypt krnl c data = (c', acts)"
  shows "sent_bytes acts @ readable (outBuffer c') = readable (outBuffer c) @ sd
    \<and> fb_wf (outBuffer c') \<and> (readable (outBuffer c) \<noteq> [] \<longrightarrow> sent_bytes acts = [])
    \<and> mstate c' = mstate c
    \<and> ((readable (outBuffer c) \<noteq> [] \<longrightarrow> isWriting (c_event c)) \<longrightarrow> readable (outBuffer c') \<noteq> [] \<longrightarrow> isWriting (c_event c'))"
proof -
  have app: "fb_wf (fb_Append (outBuffer c) d) \<and> readable (fb_Append (outBuffer c) d) = readable (outBuffer c) @ d"
    if "length d \<le> length sd" for d
    using Append_correct [OF assms(3), of d] assms(4) that by (simp add: fb_room_def)
  have sz: "getReadableSize (outBuffer c) = int (length (readable (outBuffer c)))" by (rule readable_size [OF assms(3)])
  show ?thesis
  proof (cases "\<not> isWriting (c_event c) \<and> readable (outBuffer c) = []")
    case True
    consider n where "krnl sd = Accepted n" "n \<le> length sd" | "krnl sd = SendFailed False"
      using assms(5) by blast
    then show ?thesis
    proof cases
      case (1 n)
      then show ?thesis
        using assms(1-3,6) True app [of "drop n sd"]
        by (auto simp: sendInLoop_def sz sent_bytes_def Let_def split: if_splits)
    next
      case 2
      then show ?thesis
        using assms(1-3,6) True app [of sd]
        by (auto simp: sendInLoop_def sz sent_bytes_def Let_def split: if_splits)
    qed
  next
    case False
    then show ?thesis
      using assms(1-3,6) app [of sd]
      by (auto simp: sendInLoop_def sz sent_bytes_def Let_def split: if_splits)
  qed
qed

text \<open>
  Sending keeps the byte stream: what goes to the krnl now, followed by what is queued after
  the call, is what was queued before followed by the new data; nothing overtakes queued bytes, and
  whenever bytes stay queued the connection waits for writability.
\<close>
theorem sendInLoop_keeps_stream:
  assumes "mstate c \<noteq> DisConnected" "\<not> isSSLConnection c" "fb_wf (outBuffer c)"
    "fb_room (outBuffer c) (length data)"
    "\<forall>d. (\<exists>n. krnl d = Accepted n \<and> n \<le> length d) \<or> krnl d = SendFailed False"
    "sendInLoop hs encrypt krnl c data = (c', acts)"
  shows "sent_bytes acts @ readable (outBuffer c') = readable (outBuffer c) @ data
    \<and> fb_wf (outBuffer c') \<and> (readable (outBuffer c) \<noteq> [] \<longrightarrow> sent_bytes acts = [])
    \<and> mstate c' = mstate c
    \<and> ((readable (outBuffer c) \<noteq> [] \<longrightarrow> isWriting (c_event c)) \<longrightarrow> readable (outBuffer c') \<noteq> [] \<longrightarrow> isWriting (c_event c'))"
  using sendInLoop_stream [of c hs encrypt data data krnl c' acts] assms by simp

definition demo_conn :: "unit tcp_conn" where
  "demo_conn = makeConn \<lparr>m_pollEvents = [], ctl_log = []\<rparr> 4 9 False ()"

lemma demo_conn_facts: "mstate demo_conn = Connectiing" "\<not> isSSLConnection demo_conn"
    "outBuffer demo_conn = FBuffer_new 1024"
  by (simp_all add: demo_conn_def makeConn_def FTcpConnection_new_def on_event_def split: prod.split)

theorem sendInLoop_keeps_stream_witness:
  "sent_bytes (snd (sendInLoop False Some (\<lambda>d. Accepted (min 3 (length d))) demo_conn ''hello''))
   @ readable (outBuffer (fst (sendInLoop False Some (\<lambda>d. Accepted (min 3 (length d))) demo_conn ''hello''))) = ''hello''"
proof -
  let ?r = "sendInLoop False Some (\<lambda>d. Accepted (min 3 (length d))) demo_conn ''hello''"
  have "fb_wf (outBuffer demo_conn)" "readable (outBuffer demo_conn) = []"
    using new_wf [of 1024] by (simp_all add: demo_conn_facts)
  moreover have "fb_room (outBuffer demo_conn) (length ''hello'')"
    by (simp add: demo_conn_facts fb_room_def FBuffer_new_def)
  moreover have "mstate demo_conn \<noteq> DisConnected" "\<not> isSSLConnection demo_conn" by (simp_all add: demo_conn_facts)
  ultimately show ?thesis
    using sendInLoop_keeps_stream [of demo_conn "''hello''" "\<lambda>d. Accepted (min 3 (length d))" False Some "fst ?r" "snd ?r"]
    by simp
qed

lemma handleWrite_effect:
  assumes "isWriting (c_event c)" "mstate c \<noteq> DisConnected" "fb_wf (outBuffer c)" "0 < n"
    "handleWrite c (Some n) = (c', acts)"
  shows "(2 * n \<le> length (readable (outBuffer c)) \<longrightarrow>
       sent_bytes acts = take n (readable (outBuffer c))
       \<and> readable (outBuffer c') = drop (2 * n) (readable (outBuffer c)))
    \<and> (n = length (readable (outBuffer c)) \<longrightarrow> \<not> fb_Pop_ok (snd (fb_Write (outBuffer c) (Some n))) (word_of_nat n))"
proof (intro conjI impI)
  let ?b = "outBuffer c" and ?b1 = "fb_Pop (outBuffer c) (word_of_nat n)"
  have sz: "getReadableSize ?b = int (length (readable ?b))" by (rule readable_size [OF assms(3)])
  have off: "fb_offer ?b (getReadableSize ?b) = readable ?b"
    using offer_correct [OF assms(3), of "getReadableSize ?b"] by (simp add: sz)
  {
    assume le: "2 * n \<le> length (readable ?b)"
    have p1: "fb_wf ?b1" "readable ?b1 = drop n (readable ?b)" using Pop_correct [OF assms(3), of n] le by simp_all
    have p2: "readable (fb_Pop ?b1 (word_of_nat n)) = drop (2 * n) (readable ?b)"
      using Pop_correct [OF p1(1), of n] le p1(2) by (simp add: mult_2)
    show "sent_bytes acts = take n (readable ?b)"
      using assms(1,2,4,5) by (auto simp: handleWrite_def fb_Write_def off sent_bytes_def shutdownInLoop_def Let_def split: if_splits)
    show "readable (outBuffer c') = drop (2 * n) (readable ?b)"
      using assms(1,2,4,5) p2 by (auto simp: handleWrite_def fb_Write_def shutdownInLoop_def Let_def split: if_splits)
  next
    assume all: "n = length (readable ?b)"
    have p1: "fb_wf ?b1" "readable ?b1 = []" using Pop_correct [OF assms(3), of n] all by simp_all
    have lt: "n < 2 ^ 31" using all length_readable [OF assms(3)] writeIdx_bound [OF assms(3)] by simp
    have eq: "unat (readIdx ?b1) = unat (writeIdx ?b1)"
      using p1 length_readable [OF p1(1)] readIdx_le [OF p1(1)] by simp
    have "unat (readIdx ?b1 + word_of_nat n) = unat (readIdx ?b1) + n"
      using lt eq writeIdx_bound [OF p1(1)] by (simp add: unat_add_small unat_of_nat_small)
    then have "writeIdx ?b1 < readIdx ?b1 + word_of_nat n" using eq assms(4) by (simp add: word_less_nat_alt)
    then show "\<not> fb_Pop_ok (snd (fb_Write ?b (Some n))) (word_of_nat n)"
      by (simp add: fb_Write_def fb_Pop_ok_def)
  }
qed

text \<open>
  Flushing the queue loses bytes: when the krnl takes \<open>n\<close> of the queued bytes, \<open>2 n\<close> leave the
  queue, so the next \<open>n\<close> are never sent; and when it takes them all, the second removal runs past
  the end, which is the failing assertion of \<open>FBuffer::Pop\<close>.
\<close>
theorem handleWrite_drops:
  assumes "isWriting (c_event c)" "mstate c \<noteq> DisConnected" "fb_wf (outBuffer c)" "0 < n"
    "handleWrite c (Some n) = (c', acts)"
  shows "(2 * n \<le> length (readable (outBuffer c)) \<longrightarrow>
       sent_bytes acts = take n (readable (outBuffer c))
       \<and> readable (outBuffer c') = drop (2 * n) (readable (outBuffer c)))
    \<and> (n = length (readable (outBuffer c)) \<longrightarrow> \<not> fb_Pop_ok (snd (fb_Write (outBuffer c) (Some n))) (word_of_nat n))"
  using handleWrite_effect [OF assms] by blast

definition queued_conn :: "unit tcp_conn" where
  "queued_conn = on_event enableWriting (demo_conn\<lparr>outBuffer := fb_Append (outBuffer demo_conn) ''abcd''\<rparr>)"

theorem handleWrite_drops_witness:
  "sent_bytes (snd (handleWrite queued_conn (Some 1))) = ''a''
   \<and> readable (outBuffer (fst (handleWrite queued_conn (Some 1)))) = ''cd''"
proof -
  let ?r = "handleWrite queued_conn (Some 1)"
  have room: "fb_room (outBuffer demo_conn) (length ''abcd'')"
    by (simp add: demo_conn_facts fb_room_def FBuffer_new_def)
  have wf: "fb_wf (outBuffer demo_conn)" "readable (outBuffer demo_conn) = []"
    using new_wf [of 1024] by (simp_all add: demo_conn_facts)
  have q: "fb_wf (outBuffer queued_conn)" "readable (outBuffer queued_conn) = ''abcd''"
    using Append_correct [OF wf(1), of "''abcd''"] room wf(2) by (simp_all add: queued_conn_def fb_room_def)
  have w: "isWriting (c_event queued_conn)" "mstate queued_conn \<noteq> DisConnected"
    by (simp_all add: queued_conn_def demo_conn_facts on_event_def enableWriting_def ev_update_def isWriting_def
        split: prod.split) (code_simp)?
  show ?thesis
    using handleWrite_drops [of queued_conn 1 "fst ?r" "snd ?r"] q w by simp
qed

text \<open>A closed connection neither sends nor reads nor writes, and no idle timer is armed for it.\<close>

lemma closed_is_silent:
  assumes "mstate c = DisConnected"
  shows "sendInLoop hs enc k c d = (c, [])" "handleRead ssl f c del tr = (None, c, [])" "handleWrite c acc = (c, [])"
    "resetIdle c t = (c, cancelIdleFunc c)"
  using assms by (simp_all add: sendInLoop_def handleRead_def handleWrite_def resetIdle_def)

lemma handleClose_closed: "mstate (fst (handleClose c)) = DisConnected"
  by (simp add: handleClose_def)

text \<open>
  Once a connection is closed, whatever happens to it later, it neither sends nor delivers
  anything nor arms a timer, and it stays as the close left it: the handlers that may still be queued
  for it (a send, a readiness event, an idle reset) do nothing but cancel the idle timer.
\<close>
theorem closed_connection_is_silent:
  "(let c' = fst (handleClose c) in
     sendInLoop hs enc k c' d = (c', []) \<and> handleRead ssl f c' del tr = (None, c', []) \<and> handleWrite c' acc = (c', [])
     \<and> resetIdle c' t = (c', cancelIdleFunc c'))
   \<and> \<not> m_onMessage (fst (handleClose c)) \<and> snd (handleClose c) = [TA_CloseCallback]"
  unfolding Let_def
proof (intro conjI)
  show "\<not> m_onMessage (fst (handleClose c))" "snd (handleClose c) = [TA_CloseCallback]"
    by (simp_all add: handleClose_def)
qed (rule closed_is_silent [OF handleClose_closed])+

text \<open>
  Removing a listening port takes one acceptor too many: the acceptors of that port go, then the
  last of the others goes as well, and a server that has no other port, or no TLS port besides the
  one removed, ends with \<open>std::length_error\<close>.
\<close>
theorem removeListenPort_drops_another:
  "fst (removeListenPort s port) =
     (if {p \<in> set (m_acceptors s). p \<noteq> port} = {} \<or> {p \<in> set (m_sslPort s). p \<noteq> port} = {}
      then Some Length_error else None)
   \<and> (fst (removeListenPort s port) = None \<longrightarrow>
       m_acceptors (snd (removeListenPort s port)) = butlast (filter (\<lambda>p. p \<noteq> port) (m_acceptors s))
       \<and> m_sslPort (snd (removeListenPort s port)) = butlast (filter (\<lambda>p. p \<noteq> port) (m_sslPort s)))"
  by (auto simp: removeListenPort_def resize_minus_one_def filter_empty_conv Let_def)

definition demo_server :: tcp_server where
  "demo_server = \<lparr>m_subLoops = 2, m_acceptors = [80, 443, 8443], m_sslPort = [443, 8443], m_tcpConns = [],
     m_tickEvents = [], m_tickEventId = 0, IOThread_Chooser = 1\<rparr>"

theorem removeListenPort_drops_another_witness:
  "m_acceptors (snd (removeListenPort demo_server 443)) = [80]"
proof -
  have "fst (removeListenPort demo_server 443) = None"
    by (simp add: removeListenPort_def resize_minus_one_def demo_server_def)
  then show ?thesis
    using removeListenPort_drops_another [of demo_server 443] by (simp add: demo_server_def)
qed

text \<open>
  New connections go round the event loops: the loop chosen is always one that exists, the next
  connection goes to the loop after it, and after as many connections as there are loops the first
  one is chosen again.
\<close>
theorem onNewConnIn_round_robin:
  assumes "0 < m_subLoops s" "m_subLoops s < 2 ^ 32" "unat (IOThread_Chooser s) < m_subLoops s"
    "onNewConnIn s fd port conn = (chosen, isSSL, s')"
  shows "chosen < m_subLoops s \<and> unat (IOThread_Chooser s') = (chosen + 1) mod m_subLoops s
    \<and> unat (IOThread_Chooser s') < m_subLoops s' \<and> (isSSL \<longleftrightarrow> port \<in> set (m_sslPort s))"
proof -
  have c: "unat (IOThread_Chooser s + 1) = unat (IOThread_Chooser s) + 1"
    using assms(2,3) by (simp add: unat_add_small)
  have "unat ((IOThread_Chooser s + 1) mod word_of_nat (m_subLoops s))
    = (unat (IOThread_Chooser s) + 1) mod m_subLoops s"
    using assms(2) c by (simp add: unat_mod_distrib unat_of_nat_small)
  then show ?thesis
    using assms by (auto simp: onNewConnIn_def list_ex_iff Let_def)
qed

theorem onNewConnIn_round_robin_witness:
  "unat (IOThread_Chooser (snd (snd (onNewConnIn demo_server 7 80 0)))) = 0"
proof -
  obtain ch ssl s' where r: "onNewConnIn demo_server 7 80 0 = (ch, ssl, s')" by (metis surj_pair)
  have "ch = 1" using r by (simp add: onNewConnIn_def demo_server_def Let_def)
  then show ?thesis using onNewConnIn_round_robin [of demo_server 7 80 0 ch ssl s'] r by (simp add: demo_server_def)
qed


lemma destroy_in_loop:
  "snd (FTcpConnection_destroy True c) =
     (if mAddedToLoop (c_event c) then removeEvent (c_listener c) (c_event c) else c_listener c)"
  by (simp add: FTcpConnection_destroy_def ev_remove_def FEvent_destroy_def)

text \<open>
  The end of a connection: destroyed in its loop's thread it takes its own entry, and no other, out of the
  listener's table and out of epoll, and cancels its idle timer. Destroyed in another thread it
  leaves its entry behind; the next report for it removes the entry and calls nobody.
\<close>
theorem destroyed_connection_leaves_table:
  assumes "omap_wf (m_pollEvents (c_listener c))" "mAddedToLoop (c_event c)"
    "omap_find (m_pollEvents (c_listener c)) (ev_id (c_event c)) = Some f" "\<not> alive (ev_id (c_event c))"
  shows "omap_find (m_pollEvents (snd (FTcpConnection_destroy True c))) j =
        (if j = ev_id (c_event c) then None else omap_find (m_pollEvents (c_listener c)) j)
    \<and> ctl_log (snd (FTcpConnection_destroy True c)) = ctl_log (c_listener c) @ [Ctl_Del (ev_fd (c_event c))]
    \<and> fst (FTcpConnection_destroy True c) = cancelIdleFunc c
    \<and> FTcpConnection_destroy False c = ([], c_listener c)
    \<and> fst (listen (c_listener c) alive (Some [(ev_id (c_event c), flags)])) = []
    \<and> omap_find (m_pollEvents (snd (listen (c_listener c) alive (Some [(ev_id (c_event c), flags)])))) j =
        (if j = ev_id (c_event c) then None else omap_find (m_pollEvents (c_listener c)) j)"
  using assms
  by (simp add: destroy_in_loop removeEvent_def find_erase listen_def FTcpConnection_destroy_def FEvent_destroy_def ev_remove_def)

theorem destroyed_connection_leaves_table_witness:
  "omap_find (m_pollEvents (snd (FTcpConnection_destroy True demo_conn))) 9 = None
   \<and> FTcpConnection_destroy False demo_conn = ([], c_listener demo_conn)"
proof -
  have e: "ev_id (c_event demo_conn) = 9" "mAddedToLoop (c_event demo_conn)"
      "m_pollEvents (c_listener demo_conn) = [(9, ToEpoll 0)]"
    by (simp_all add: demo_conn_def makeConn_def FTcpConnection_new_def on_event_def ev_init_def addEvent_def FEvent_new_def omap_insert_def Let_def)
  show ?thesis
    using destroyed_connection_leaves_table [of demo_conn _ "\<lambda>_. False" 9 0] by (simp add: e omap_wf_def)
qed

end
