(* ===== verification/FTcpServe.thy ===== *)
theory FTcpServe
  imports FTcp FSocket FHttpServer FEventLoop
begin

text \<open>
  What surrounds the handlers of \<open>FTcp\<close>: the calls on a connection from other threads, which post a task
  to its loop (\<open>FTcpConnection::send\<close>, \<open>forceClose\<close>, \<open>setReading\<close>), the acceptor's thread that
  registers a new connection while its loop already runs it (\<open>FTcpServer::onNewConnIn\<close>, \<open>onClose\<close>), and
  the numbers the servers read from the configuration (\<open>FTcpServer::init\<close>, the constructor of
  \<open>FHttpServer\<close>, \<open>FCfgUtils::toNumber\<close>).
\<close>

section \<open>Calls from other threads\<close>

datatype conn_task = Task_sendInLoopStr string | Task_forceCloseInLoop | Task_startReading | Task_stopReading
  | Task_onWriteComplete

text \<open>\<open>mem\<close> is the memory from the pointer on; in the loop's thread the first \<open>len\<close> bytes are sent, in any
  other the C string that starts there is copied into the task.\<close>

definition send_ptr :: "bool \<Rightarrow> string \<Rightarrow> nat \<Rightarrow> string + conn_task" where
  "send_ptr inLoop mem len =
     (if inLoop then Inl (take len mem) else Inr (Task_sendInLoopStr (takeWhile (\<lambda>c. c \<noteq> NUL) mem)))"

definition send_string :: "bool \<Rightarrow> string \<Rightarrow> string + conn_task" where
  "send_string inLoop data = (if inLoop then Inl data else Inr (Task_sendInLoopStr data))"

text \<open>The task holds a weak pointer: it does nothing when the connection is gone.\<close>

definition forceClose :: "bool \<Rightarrow> 'u tcp_conn \<Rightarrow> ('u tcp_conn \<times> tcp_action list) \<times> conn_task list" where
  "forceClose inLoop c = (if inLoop then (forceCloseInLoop c, []) else ((c, []), [Task_forceCloseInLoop]))"

definition setReading_any :: "bool \<Rightarrow> 'u tcp_conn \<Rightarrow> bool \<Rightarrow> 'u tcp_conn \<times> conn_task list" where
  "setReading_any inLoop c v =
     (if v \<and> \<not> isReading (c_event c)
      then (if inLoop then (on_event enableReading c, []) else (c, [Task_startReading]))
      else if \<not> v \<and> isReading (c_event c)
      then (if inLoop then (on_event disableReading c, []) else (c, [Task_stopReading]))
      else (c, []))"

definition run_conn_task :: "(string \<Rightarrow> send_result) \<Rightarrow> conn_task \<Rightarrow> 'u tcp_conn \<Rightarrow> 'u tcp_conn \<times> tcp_action list" where
  "run_conn_task krnl t c =
     (case t of
        Task_sendInLoopStr data \<Rightarrow> sendInLoop False (\<lambda>_. None) krnl c data
      | Task_forceCloseInLoop \<Rightarrow> forceCloseInLoop c
      | Task_startReading \<Rightarrow> (on_event enableReading c, [])
      | Task_stopReading \<Rightarrow> (on_event disableReading c, [])
      | Task_onWriteComplete \<Rightarrow> (c, []))"

text \<open>The tasks in the order of the queue, each with what the kernel answers then.\<close>

fun run_conn_tasks :: "((string \<Rightarrow> send_result) \<times> conn_task) list \<Rightarrow> 'u tcp_conn \<Rightarrow> 'u tcp_conn \<times> tcp_action list" where
  "run_conn_tasks [] c = (c, [])"
| "run_conn_tasks ((krnl, t) # ts) c =
     (let (c1, acts) = run_conn_task krnl t c; (c2, further) = run_conn_tasks ts c1 in (c2, acts @ further))"

section \<open>A new connection\<close>

text \<open>The acceptor's thread posts the establishing callback to the chosen loop and then, under the mutex,
  inserts the connection into the table; the loop's thread runs the callback (which enables reading)
  and, when the peer goes away, closes the connection and erases its descriptor from the table.\<close>

record conn_life =
  cl_posted :: bool
  cl_inserted :: bool
  cl_reading :: bool
  cl_closed :: bool
  cl_table :: "(nat, nat) omap"

definition conn_life_start :: "(nat, nat) omap \<Rightarrow> conn_life" where
  "conn_life_start table = \<lparr>cl_posted = False, cl_inserted = False, cl_reading = False, cl_closed = False, cl_table = table\<rparr>"

inductive life_step :: "nat \<Rightarrow> nat \<Rightarrow> conn_life \<Rightarrow> conn_life \<Rightarrow> bool" for fd conn where
  life_post: "\<not> cl_posted s \<Longrightarrow> life_step fd conn s (s\<lparr>cl_posted := True\<rparr>)"
| life_insert: "cl_posted s \<Longrightarrow> \<not> cl_inserted s \<Longrightarrow>
    life_step fd conn s (s\<lparr>cl_inserted := True, cl_table := omap_insert (cl_table s) fd conn\<rparr>)"
| life_read: "cl_posted s \<Longrightarrow> \<not> cl_reading s \<Longrightarrow> life_step fd conn s (s\<lparr>cl_reading := True\<rparr>)"
| life_close: "cl_reading s \<Longrightarrow> \<not> cl_closed s \<Longrightarrow>
    life_step fd conn s (s\<lparr>cl_closed := True, cl_table := omap_erase (cl_table s) fd\<rparr>)"

inductive life_reach :: "nat \<Rightarrow> nat \<Rightarrow> conn_life \<Rightarrow> conn_life \<Rightarrow> bool" for fd conn s0 where
  life_reach_start: "life_reach fd conn s0 s0"
| life_reach_step: "life_reach fd conn s0 s \<Longrightarrow> life_step fd conn s s' \<Longrightarrow> life_reach fd conn s0 s'"

section \<open>The TLS environment\<close>

text \<open>OpenSSL's contexts are values of \<open>'x\<close>: a new one (or none), and the loading of the two files into one,
  with what the call returns.\<close>

record 'x ctx_lib =
  SSL_CTX_new :: "'x option"
  use_certificate_chain_file :: "string \<Rightarrow> 'x \<Rightarrow> int \<times> 'x"
  use_PrivateKey_file :: "string \<Rightarrow> 'x \<Rightarrow> int \<times> 'x"

record 'x ssl_env =
  SSLContext :: "'x option"
  mPreferH2 :: bool

definition isEnvSetup :: "'x ssl_env \<Rightarrow> bool" where
  "isEnvSetup env \<longleftrightarrow> SSLContext env \<noteq> None"

definition loadCertFiles :: "'x ctx_lib \<Rightarrow> string \<Rightarrow> string \<Rightarrow> 'x ssl_env \<Rightarrow> 'x ssl_env" where
  "loadCertFiles L certificateFile privateKeyFile env =
     (case SSLContext env of
        None \<Rightarrow> env
      | Some ctx \<Rightarrow>
          (let (ret, ctx1) = use_certificate_chain_file L certificateFile ctx
           in if ret \<le> 0 then env\<lparr>SSLContext := Some ctx1\<rparr>
              else env\<lparr>SSLContext := Some (snd (use_PrivateKey_file L privateKeyFile ctx1))\<rparr>))"

definition FSSLEnv_new :: "'x ctx_lib \<Rightarrow> cfg_reader \<Rightarrow> string \<Rightarrow> string \<Rightarrow> 'x ssl_env" where
  "FSSLEnv_new L cfg certificateFile privateKeyFile =
     loadCertFiles L certificateFile privateKeyFile
       \<lparr>SSLContext = SSL_CTX_new L, mPreferH2 = (fst (getCfg cfg ''ALPNPreference'') = Some ''http2'')\<rparr>"

text \<open>The protocol for a client that offers some; \<open>select_alpn\<close> is nghttp2's, \<open>None\<close> is NOACK.\<close>

definition alpn_select_proto_cb :: "(string \<Rightarrow> int \<times> string) \<Rightarrow> 'x ssl_env \<Rightarrow> string \<Rightarrow> string option" where
  "alpn_select_proto_cb select_alpn env offered =
     (let (rv, out) = select_alpn offered
      in if \<not> mPreferH2 env then None else if rv = -1 then None else Some out)"

text \<open>The one environment of the program, \<open>None\<close> while there is none; making a second is an error.\<close>

definition initGlobalSSLEnv :: "'x ctx_lib \<Rightarrow> cfg_reader \<Rightarrow> string \<Rightarrow> string \<Rightarrow> 'x ssl_env option \<Rightarrow>
    string + 'x ssl_env option" where
  "initGlobalSSLEnv L cfg certificateFile privateKeyFile env =
     (case env of
        Some _ \<Rightarrow> Inl ''Double init SSL Environment''
      | None \<Rightarrow> (let e = FSSLEnv_new L cfg certificateFile privateKeyFile in Inr (if isEnvSetup e then Some e else None)))"

definition deinitGlobalSSLEnv :: "'x ssl_env option \<Rightarrow> 'x ssl_env option" where
  "deinitGlobalSSLEnv env = None"

definition env_ready :: "'x ssl_env option \<Rightarrow> bool" where
  "env_ready env = (case env of None \<Rightarrow> False | Some e \<Rightarrow> isEnvSetup e)"

section \<open>Starting and stopping the loops\<close>

record ('t, 'z) tcp_loops =
  l_running :: bool
  l_listener :: "('t, 'z) event_loop_scheme"
  l_subLoops :: "('t, 'z) event_loop_scheme list"
  l_tcpConns :: "(nat, nat) omap"

text \<open>What is left of \<open>FEventLoop::Loop\<close> to the loop's thread, from its turn \<open>n\<close> on.\<close>

definition loop_rest :: "(u64 \<Rightarrow> u32 \<Rightarrow> ('t, 'z) event_loop_scheme \<Rightarrow> ('t, 'z) event_loop_scheme) \<Rightarrow>
    ('t \<Rightarrow> ('t, 'z) event_loop_scheme \<Rightarrow> ('t, 'z) event_loop_scheme) \<Rightarrow>
    (nat \<Rightarrow> ('t, 'z) event_loop_scheme turn_input) \<Rightarrow> nat \<Rightarrow> ('t, 'z) event_loop_scheme \<Rightarrow>
    ('t, 'z) event_loop_scheme option" where
  "loop_rest handle exec inp n s =
     map_option (\<lambda>s2. (run_tasks exec (mLoopCloseCallbacks s2) s2)\<lparr>mLoopCloseCallbacks := [], m_stoped := True\<rparr>)
       (loop_from handle exec inp n s)"

text \<open>\<open>run\<close>: the server and the loops that get a thread. A thread finds its loop by its index in the
  vector, so these are the first \<open>threads\<close> ones.\<close>

definition tcp_run :: "u32 \<Rightarrow> ('t, 'z) event_loop_scheme \<Rightarrow> ('t, 'z) tcp_loops \<Rightarrow>
    ('t, 'z) tcp_loops \<times> ('t, 'z) event_loop_scheme list" where
  "tcp_run threads newLoop s =
     (if l_running s then (s, [])
      else (let subs = l_subLoops s @ replicate (unat threads) newLoop
            in (s\<lparr>l_running := True, l_subLoops := subs\<rparr>, l_listener s # take (unat threads) subs)))"

text \<open>\<open>stop\<close> waits for each loop it has asked to stop; \<open>None\<close> when it waits for ever.\<close>

definition tcp_stop :: "(('t, 'z) event_loop_scheme \<Rightarrow> ('t, 'z) event_loop_scheme option) \<Rightarrow> bool \<Rightarrow>
    ('t, 'z) tcp_loops \<Rightarrow> ('t, 'z) tcp_loops option" where
  "tcp_stop thread force s =
     (if \<not> l_running s then Some s
      else (case thread (request_stop force (l_listener s)) of
              None \<Rightarrow> None
            | Some l \<Rightarrow>
                (case those (map (\<lambda>loop. thread (request_stop force loop)) (l_subLoops s)) of
                   None \<Rightarrow> None
                 | Some subs \<Rightarrow> Some (s\<lparr>l_running := False, l_listener := l, l_subLoops := subs, l_tcpConns := []\<rparr>))))"

section \<open>Numbers of the configuration\<close>

text \<open>\<open>FCfgUtils::toNumber\<close> of an \<open>int\<close>: \<open>std::from_chars\<close> stores the number of the longest numeric prefix, also
  when something follows it and the result is false.\<close>

definition toNumber_int :: "string \<Rightarrow> int \<Rightarrow> bool \<times> int" where
  "toNumber_int str out =
     (let (negative, s) = (case str of c # t \<Rightarrow> if c = CHR ''-'' then (True, t) else (False, str) | [] \<Rightarrow> (False, str));
          digits = takeWhile isdigit s;
          v = (if negative then - int (dec_value digits) else int (dec_value digits))
      in if digits = [] \<or> v < - (2 ^ 31) \<or> 2 ^ 31 \<le> v then (False, out)
         else (dropWhile isdigit s = [], v))"

record tcp_cfg =
  m_threadNums :: u32
  mTcpConnIdleTime :: int
  mSocketKeepAlive :: int

text \<open>\<open>FTcpServer::init\<close>: a number counts only when the whole text is one.\<close>

definition whole_number :: "string option \<Rightarrow> int \<Rightarrow> int" where
  "whole_number v old =
     (case v of None \<Rightarrow> old | Some s \<Rightarrow> (let (ok, n) = toNumber_int s (-1) in if ok then n else old))"

definition FTcpServer_init :: "cfg_reader \<Rightarrow> tcp_cfg \<Rightarrow> tcp_cfg" where
  "FTcpServer_init cfg s =
     s\<lparr>m_threadNums := max (m_threadNums s) 1,
       mTcpConnIdleTime := whole_number (fst (getCfg cfg ''TcpIdleTime'')) (mTcpConnIdleTime s),
       mSocketKeepAlive := whole_number (fst (getCfg cfg ''SocketKeepAliveTime'')) (mSocketKeepAlive s)\<rparr>"

text \<open>The constructor of \<open>FHttpServer\<close> does not look at the result.\<close>

definition any_number :: "string option \<Rightarrow> int \<Rightarrow> int" where
  "any_number v old = (case v of None \<Rightarrow> old | Some s \<Rightarrow> snd (toNumber_int s old))"

definition FHttpServer_config :: "cfg_reader \<Rightarrow> 'f http_server \<Rightarrow> 'f http_server" where
  "FHttpServer_config cfg s =
     s\<lparr>mHttpRequestWaitTime := any_number (fst (getCfg cfg ''HttpRequestWaitTime'')) (mHttpRequestWaitTime s),
       mHttpConnectionTimeout := any_number (fst (getCfg cfg ''HttpConnectTimeout'')) (mHttpConnectionTimeout s),
       mHttp2CloseImm := mHttp2CloseImm s \<or> any_number (fst (getCfg cfg ''Http2CloseImm'')) 0 \<noteq> 0,
       mHttp2DrainTimeOut := (case fst (getCfg cfg ''Http2DrainTimeout'') of
            None \<Rightarrow> mHttp2DrainTimeOut s
          | Some v \<Rightarrow> max 0 (snd (toNumber_int v (mHttp2DrainTimeOut s))))\<rparr>"

section \<open>Lemmas\<close>

lemma sendInLoop_room:
  assumes "\<not> isSSLConnection c" "fb_wf (outBuffer c)" "fb_room (outBuffer c) (length data + n)"
    "sendInLoop hs encrypt krnl c data = (c', acts)"
  shows "fb_room (outBuffer c') n \<and> isSSLConnection c' = isSSLConnection c"
proof -
  have shorter: "fb_room (fb_Append (outBuffer c) (drop k data)) n" for k
    using fbq.room_put [OF assms(2), of "drop k data" n] fbq.room_mono [OF assms(3), of "length (drop k data) + n"] by simp
  have same: "fb_room (outBuffer c) n" using fbq.room_mono [OF assms(3), of n] by simp
  have ssl: "isSSLConnection (on_event f x) = isSSLConnection x" for f and x :: "'a tcp_conn"
    by (simp add: on_event_def split: prod.split)
  have whole: "fb_room (fb_Append (outBuffer c) data) n" using shorter [of 0] by simp
  show ?thesis
    using assms(1,4) shorter same whole
    by (auto simp: sendInLoop_def Let_def ssl split: if_splits option.splits send_result.splits prod.splits)
qed

text \<open>The kernel takes some of what it is offered, or fails without breaking the connection.\<close>

definition krnl_ok :: "(string \<Rightarrow> send_result) \<Rightarrow> bool" where
  "krnl_ok krnl \<longleftrightarrow> (\<forall>d. (\<exists>n. krnl d = Accepted n \<and> n \<le> length d) \<or> krnl d = SendFailed False)"

lemma run_sends:
  assumes "mstate c \<noteq> DisConnected" "\<not> isSSLConnection c" "fb_wf (outBuffer c)"
    "fb_room (outBuffer c) (length (concat (map snd ds)))" "\<forall>kd \<in> set ds. krnl_ok (fst kd)"
    "run_conn_tasks (map (\<lambda>kd. (fst kd, Task_sendInLoopStr (snd kd))) ds) c = (c', acts)"
  shows "sent_bytes acts @ readable (outBuffer c') = readable (outBuffer c) @ concat (map snd ds)"
  using assms
proof (induction ds arbitrary: c c' acts)
  case Nil
  then show ?case by (simp add: sent_bytes_def)
next
  case (Cons kd ds)
  obtain c1 a1 where s: "sendInLoop False (\<lambda>_. None) (fst kd) c (snd kd) = (c1, a1)" by force
  obtain c2 a2 where r: "run_conn_tasks (map (\<lambda>kd. (fst kd, Task_sendInLoopStr (snd kd))) ds) c1 = (c2, a2)" by force
  have step: "sent_bytes a1 @ readable (outBuffer c1) = readable (outBuffer c) @ snd kd" "fb_wf (outBuffer c1)" "mstate c1 = mstate c"
    using sendInLoop_stream [OF Cons.prems(1) _ Cons.prems(3) _ _ s, of "snd kd"] Cons.prems(2,4,5)
      fbq.room_mono [OF Cons.prems(4), of "length (snd kd)"] by (simp_all add: krnl_ok_def)
  have room: "fb_room (outBuffer c1) (length (concat (map snd ds)))" "\<not> isSSLConnection c1"
    using sendInLoop_room [OF Cons.prems(2,3) _ s, of "length (concat (map snd ds))"] Cons.prems(2,4) by simp_all
  have rest: "sent_bytes a2 @ readable (outBuffer c2) = readable (outBuffer c1) @ concat (map snd ds)"
    using Cons.IH [OF _ room(2) step(2) room(1) _ r] step(3) Cons.prems(1,5) by simp
  have "c' = c2" "acts = a1 @ a2" using Cons.prems(6) s r by (simp_all add: run_conn_task_def)
  then show ?case
    using rest step(1) by (simp add: sent_bytes_def)
qed

section \<open>Properties\<close>

text \<open>
  Sending from another thread: the tasks that \<open>send\<close> posts, run in the order of the queue, put
  the strings on the wire in that order and completely; a \<open>send\<close> of a pointer and a length posts only
  the bytes before the first NUL, and as many as there are, whatever the length says.
\<close>
theorem posted_sends_in_order:
  assumes "mstate c \<noteq> DisConnected" "\<not> isSSLConnection c" "fb_wf (outBuffer c)"
    "fb_room (outBuffer c) (length (concat ds))" "length ks = length ds" "\<forall>k \<in> set ks. krnl_ok k"
    "run_conn_tasks (zip ks (map (\<lambda>d. projr (send_string False d)) ds)) c = (c', acts)"
  shows "sent_bytes acts @ readable (outBuffer c') = readable (outBuffer c) @ concat ds
    \<and> send_ptr False (d @ NUL # mem) len = send_string False (takeWhile (\<lambda>x. x \<noteq> NUL) d)"
proof -
  let ?ds = "zip ks ds"
  have z: "zip ks (map (\<lambda>d. projr (send_string False d)) ds) = map (\<lambda>kd. (fst kd, Task_sendInLoopStr (snd kd))) ?ds"
    by (simp add: zip_map2 send_string_def case_prod_beta)
  have snd: "map snd ?ds = ds" using assms(5) by simp
  have "takeWhile (\<lambda>x. x \<noteq> NUL) (d @ NUL # mem) = takeWhile (\<lambda>x. x \<noteq> NUL) d"
    by (induction d) simp_all
  moreover have "sent_bytes acts @ readable (outBuffer c') = readable (outBuffer c) @ concat ds"
    using run_sends [OF assms(1-3), of ?ds c' acts] assms(4,6,7) z snd
    by (metis (no_types, lifting) in_set_zipE prod.collapse)
  ultimately show ?thesis by (simp add: send_ptr_def send_string_def)
qed

text \<open>The kernel takes one byte of what it is offered.\<close>

theorem posted_sends_in_order_witness:
  "sent_bytes (snd (run_conn_tasks (zip [\<lambda>d. Accepted (min 1 (length d)), \<lambda>d. SendFailed False]
       (map (\<lambda>d. projr (send_string False d)) [''ab'', ''cd''])) demo_conn))
   @ readable (outBuffer (fst (run_conn_tasks (zip [\<lambda>d. Accepted (min 1 (length d)), \<lambda>d. SendFailed False]
       (map (\<lambda>d. projr (send_string False d)) [''ab'', ''cd''])) demo_conn))) = ''abcd''
   \<and> send_ptr False (''a'' @ NUL # ''b'') 3 = Inr (Task_sendInLoopStr ''a'')"
proof -
  let ?ks = "[\<lambda>d. Accepted (min 1 (length d)), \<lambda>d. SendFailed False]"
  let ?r = "run_conn_tasks (zip ?ks (map (\<lambda>d. projr (send_string False d)) [''ab'', ''cd''])) demo_conn"
  have "fb_wf (outBuffer demo_conn)" "readable (outBuffer demo_conn) = []"
    using new_wf [of 1024] by (simp_all add: demo_conn_facts)
  moreover have "fb_room (outBuffer demo_conn) (length (concat [''ab'', ''cd'']))"
    by (simp add: demo_conn_facts fb_room_def FBuffer_new_def)
  moreover have "\<forall>k \<in> set ?ks. krnl_ok k" by (simp add: krnl_ok_def)
  moreover have "mstate demo_conn \<noteq> DisConnected" "\<not> isSSLConnection demo_conn" by (simp_all add: demo_conn_facts)
  ultimately show ?thesis
    using posted_sends_in_order [of demo_conn "[''ab'', ''cd'']" ?ks "fst ?r" "snd ?r" "''a''" "''b''" 3]
    by (simp add: send_string_def)
qed

text \<open>What every reachable state of a new connection satisfies.\<close>

lemma life_inv:
  assumes "life_reach fd conn (conn_life_start table) s" "omap_wf table" "omap_find table fd = None"
  shows "omap_wf (cl_table s) \<and> omap_find (cl_table s) fd \<in> {None, Some conn}
    \<and> (\<forall>k. k \<noteq> fd \<longrightarrow> omap_find (cl_table s) k = omap_find table k)
    \<and> (cl_closed s \<longrightarrow> cl_reading s) \<and> (cl_reading s \<longrightarrow> cl_posted s) \<and> (cl_inserted s \<longrightarrow> cl_posted s)
    \<and> (cl_inserted s \<and> \<not> cl_closed s \<longrightarrow> omap_find (cl_table s) fd = Some conn)"
  using assms
proof (induction rule: life_reach.induct)
  case life_reach_start
  then show ?case by (simp add: conn_life_start_def)
next
  case (life_reach_step s s')
  then have inv: "omap_wf (cl_table s)" "omap_find (cl_table s) fd \<in> {None, Some conn}" by simp_all
  from life_reach_step(2) show ?case
    using life_reach_step(3) [OF life_reach_step(4,5)] omap_wf_insert [OF inv(1)] omap_wf_erase [OF inv(1)]
    by (cases rule: life_step.cases) (auto simp: find_insert find_erase)
qed

lemmas life_steps = life_step.intros [of _ fd conn for fd conn]

text \<open>
  When everything about a new connection has happened, the table of connections either has no entry
  for its descriptor or still has the closed connection, and both happen: the acceptor inserts it after
  it has posted the callback that starts it, and when the loop's thread has by then seen the peer close,
  it erased nothing. The entry keeps the connection, and so its descriptor, for as long as the server runs.
\<close>
theorem closed_connection_may_stay:
  assumes "omap_wf table" "omap_find table fd = None"
  shows "(\<forall>s. life_reach fd conn (conn_life_start table) s \<and> (\<nexists>s'. life_step fd conn s s') \<longrightarrow>
      cl_closed s \<and> cl_inserted s \<and> omap_find (cl_table s) fd \<in> {None, Some conn})
    \<and> (\<forall>r \<in> {None, Some conn}. \<exists>s. life_reach fd conn (conn_life_start table) s \<and> cl_closed s \<and> cl_inserted s
          \<and> omap_find (cl_table s) fd = r)"
proof -
  have fin: "cl_closed s \<and> cl_inserted s" if "\<nexists>s'. life_step fd conn s s'" for s
    using that life_steps [of s fd conn] by blast
  let ?start = "conn_life_start table"
  let ?posted = "?start\<lparr>cl_posted := True\<rparr>"
  have p: "life_reach fd conn ?start ?posted"
    by (rule life_reach_step [OF life_reach_start life_post]) (simp add: conn_life_start_def)
  define a where "a = ?posted\<lparr>cl_reading := True\<rparr>"
  define b where "b = a\<lparr>cl_closed := True, cl_table := omap_erase (cl_table a) fd\<rparr>"
  define c where "c = b\<lparr>cl_inserted := True, cl_table := omap_insert (cl_table b) fd conn\<rparr>"
  have "life_reach fd conn ?start a" unfolding a_def
    by (rule life_reach_step [OF p life_read]) (simp_all add: conn_life_start_def)
  then have "life_reach fd conn ?start b" unfolding b_def
    by (rule life_reach_step [OF _ life_close]) (simp_all add: a_def conn_life_start_def)
  then have late: "life_reach fd conn ?start c" unfolding c_def
    by (rule life_reach_step [OF _ life_insert]) (simp_all add: a_def b_def conn_life_start_def)
  define d where "d = ?posted\<lparr>cl_inserted := True, cl_table := omap_insert table fd conn\<rparr>"
  define e where "e = d\<lparr>cl_reading := True\<rparr>"
  define f where "f = e\<lparr>cl_closed := True, cl_table := omap_erase (cl_table e) fd\<rparr>"
  have "life_reach fd conn ?start d"
    using life_reach_step [OF p life_insert] by (simp add: d_def conn_life_start_def)
  then have "life_reach fd conn ?start e" unfolding e_def
    by (rule life_reach_step [OF _ life_read]) (simp_all add: d_def conn_life_start_def)
  then have early: "life_reach fd conn ?start f" unfolding f_def
    by (rule life_reach_step [OF _ life_close]) (simp_all add: d_def e_def conn_life_start_def)
  have "omap_find (cl_table c) fd = Some conn" "cl_closed c" "cl_inserted c"
    using assms by (simp_all add: a_def b_def c_def conn_life_start_def find_insert find_erase)
  moreover have "omap_find (cl_table f) fd = None" "cl_closed f" "cl_inserted f"
    using assms by (simp_all add: d_def e_def f_def conn_life_start_def find_erase omap_wf_insert)
  ultimately show ?thesis using fin life_inv [OF _ assms] late early by blast
qed

theorem closed_connection_may_stay_witness:
  "\<exists>s. life_reach 5 7 (conn_life_start [(3, 1)]) s \<and> cl_closed s \<and> cl_inserted s \<and> omap_find (cl_table s) 5 = Some 7"
  using closed_connection_may_stay [of "[(3, 1)]" 5 7] by (simp add: omap_wf_Cons)

text \<open>
  A server that has stopped cannot be started again: the threads of the second start get the loops of
  the first, which are told to quit and return at once, and the new loops get none.
\<close>
theorem restarted_server_is_dead:
  assumes "l_running s" "length (l_subLoops s) = unat threads"
    "tcp_stop (loop_rest handle exec inp n) False s = Some s'" "\<And>t r. m_quit r \<Longrightarrow> m_quit (exec t r)"
    "tcp_run threads newLoop s' = (s2, started)"
  shows "started = l_listener s' # l_subLoops s' \<and> l_subLoops s2 = l_subLoops s' @ replicate (unat threads) newLoop
    \<and> (\<forall>l \<in> set started. HasStoped l \<and> loop_from handle exec inp' m l = Some l)"
proof -
  have tasks: "m_quit r \<Longrightarrow> m_quit (run_tasks exec ts r)" for r ts
    by (induction ts arbitrary: r) (simp_all add: assms(4))
  have rest: "m_quit l' \<and> HasStoped l'" if "loop_rest handle exec inp n l = Some l'" for l l'
    using that tasks by (auto simp: loop_rest_def HasStoped_def dest: loop_from_Some)
  obtain l subs where st: "loop_rest handle exec inp n (request_stop False (l_listener s)) = Some l"
      "those (map (\<lambda>loop. loop_rest handle exec inp n (request_stop False loop)) (l_subLoops s)) = Some subs"
      "s' = s\<lparr>l_running := False, l_listener := l, l_subLoops := subs, l_tcpConns := []\<rparr>"
    using assms(1,3) by (auto simp: tcp_stop_def split: option.splits)
  have those: "those xs = Some ys \<Longrightarrow> xs = map Some ys" for xs :: "('t, 'z) event_loop_scheme option list" and ys
    by (induction xs arbitrary: ys) (auto split: option.splits)
  have subs: "length subs = unat threads" "\<forall>x \<in> set subs. m_quit x \<and> HasStoped x"
  proof -
    show "length subs = unat threads" using those [OF st(2)] assms(2) by (metis length_map)
    show "\<forall>x \<in> set subs. m_quit x \<and> HasStoped x"
    proof
      fix x assume "x \<in> set subs"
      then have "Some x \<in> set (map (\<lambda>loop. loop_rest handle exec inp n (request_stop False loop)) (l_subLoops s))"
        using those [OF st(2)] by simp
      then show "m_quit x \<and> HasStoped x" using rest by (auto dest: sym)
    qed
  qed
  have "loop_from handle exec inp' m x = Some x" if "m_quit x" for x using that by (simp add: loop_from.simps)
  then show ?thesis
    using assms(5) subs rest [OF st(1)] st(3) by (auto simp: tcp_run_def Let_def)
qed

theorem restarted_server_is_dead_witness:
  "\<forall>l \<in> set (snd (tcp_run 1 (FEventLoop_new \<lparr>m_pollEvents = [], ctl_log = []\<rparr> 0 :: unit event_loop)
       (the (tcp_stop (loop_rest (\<lambda>_ _ r. r) (\<lambda>_ r. r) (\<lambda>_. undefined) 0) False
         \<lparr>l_running = True, l_listener = FEventLoop_new \<lparr>m_pollEvents = [], ctl_log = []\<rparr> 0,
          l_subLoops = [FEventLoop_new \<lparr>m_pollEvents = [], ctl_log = []\<rparr> 0], l_tcpConns = []\<rparr>)))). HasStoped l"
proof -
  let ?new = "FEventLoop_new \<lparr>m_pollEvents = [], ctl_log = []\<rparr> 0 :: unit event_loop"
  let ?thread = "loop_rest (\<lambda>_ _ r. r) (\<lambda>_ r. r) (\<lambda>_. undefined) 0 :: unit event_loop \<Rightarrow> _"
  let ?s = "\<lparr>l_running = True, l_listener = ?new, l_subLoops = [?new], l_tcpConns = []\<rparr>"
  have "loop_from (\<lambda>_ _ r. r) (\<lambda>_ r. r) (\<lambda>_. undefined) 0 (Quit ?new) = Some (Quit ?new)"
    by (subst loop_from.simps) (simp add: Quit_def)
  then obtain s' where s': "tcp_stop ?thread False ?s = Some s'"
    by (simp add: tcp_stop_def request_stop_def loop_rest_def)
  obtain s2 started where run: "tcp_run 1 ?new s' = (s2, started)" by force
  show ?thesis
    using restarted_server_is_dead [OF _ _ s' _ run, of undefined 0] s' run by simp
qed

lemma toNumber_int_digits:
  assumes "ds \<noteq> []" "list_all isdigit ds" "r = [] \<or> \<not> isdigit (hd r)"
  shows "toNumber_int (ds @ r) oldv =
    (if dec_value ds < 2 ^ 31 then (r = [], int (dec_value ds)) else (False, oldv))"
proof -
  obtain c t where c: "ds = c # t" "isdigit c" using assms(1,2) by (cases ds) auto
  have neg: "c \<noteq> CHR ''-''" using c(2) by (auto simp: isdigit_def)
  have t: "takeWhile isdigit (c # t @ r) = c # t" "dropWhile isdigit (c # t @ r) = r"
    using assms(2,3) c(1) by (cases r; simp add: list_all_iff takeWhile_append dropWhile_append)+
  have "toNumber_int (c # t @ r) oldv =
    (if dec_value (c # t) < 2 ^ 31 then (r = [], int (dec_value (c # t))) else (False, oldv))"
    unfolding toNumber_int_def list.case if_not_P [OF neg] prod.case Let_def t by simp
  then show ?thesis using c(1) by simp
qed

text \<open>
  Numbers of the configuration: a number is read back as itself; of a number with something after it
  \<open>FTcpServer\<close> takes nothing and \<open>FHttpServer\<close> takes the number; of a number that does not fit an
  \<open>int\<close> both take nothing.
\<close>
theorem config_numbers:
  assumes "ds \<noteq> []" "list_all isdigit ds" "\<not> isdigit x"
  shows "whole_number (Some ds) old = (if dec_value ds < 2 ^ 31 then int (dec_value ds) else old)
    \<and> any_number (Some ds) old = whole_number (Some ds) old
    \<and> whole_number (Some (ds @ x # rest)) old = old
    \<and> any_number (Some (ds @ x # rest)) old = whole_number (Some ds) old"
proof -
  have "toNumber_int ds oldv = (if dec_value ds < 2 ^ 31 then (True, int (dec_value ds)) else (False, oldv))"
    "toNumber_int (ds @ x # rest) oldv = (False, if dec_value ds < 2 ^ 31 then int (dec_value ds) else oldv)" for oldv
    using toNumber_int_digits [OF assms(1,2), of "[]"] toNumber_int_digits [OF assms(1,2), of "x # rest"] assms(3) by simp_all
  then show ?thesis by (simp add: whole_number_def any_number_def)
qed

theorem config_numbers_witness:
  "whole_number (Some ''10s'') 5 = 5 \<and> any_number (Some ''10s'') 5 = 10"
proof -
  have "isdigit CHR ''1''" "isdigit CHR ''0''" "\<not> isdigit CHR ''s''" "dec_value ''10'' = 10"
    by code_simp+
  then show ?thesis using config_numbers [of "''10''" "CHR ''s''" 5 "[]"] by simp
qed

text \<open>A TLS port is compared as it was given, with the port the socket reports, which has 16 bits.\<close>

theorem tls_port_truncated:
  "m_sslPort s = [] \<Longrightarrow>
   fst (snd (onNewConnIn (addSslListenPort True s port) fd (ucast (getPort (FSocketAddr_new ip host (ucast port)))) conn))
     = (port < 65536)"
proof -
  have "port = ucast (ucast port :: u16) \<longleftrightarrow> port < 65536"
  proof -
    have "unat (ucast (ucast port :: u16) :: u32) = unat port mod 65536"
      by (simp add: unsigned_ucast_eq take_bit_eq_mod unat_mod)
    then have "port = ucast (ucast port :: u16) \<longleftrightarrow> unat port = unat port mod 65536"
      by (simp add: word_unat_eq_iff)
    also have "\<dots> \<longleftrightarrow> unat port < 65536" by (auto dest: sym)
    finally show ?thesis by (simp add: word_less_nat_alt)
  qed
  moreover assume "m_sslPort s = []"
  ultimately show ?thesis
    by (simp add: onNewConnIn_def addSslListenPort_def addListenPort_def Let_def getPort_def FSocketAddr_new_def htons_htons)
qed


text \<open>
  A TLS environment counts as set up as soon as OpenSSL has made a context: whether the certificate and
  its key could be loaded does not matter, and the server listens on its TLS ports all the same; when the
  certificate cannot be loaded the key is not tried. A second environment is refused.
\<close>
theorem tls_port_without_certificate:
  assumes "SSL_CTX_new L = Some ctx"
  shows "(\<exists>e. initGlobalSSLEnv L cfg certificateFile privateKeyFile None = Inr (Some e) \<and> env_ready (Some e)
      \<and> (fst (use_certificate_chain_file L certificateFile ctx) \<le> 0 \<longrightarrow>
           SSLContext e = Some (snd (use_certificate_chain_file L certificateFile ctx)))
      \<and> m_acceptors (addSslListenPort (env_ready (Some e)) s port) = m_acceptors s @ [port]
      \<and> initGlobalSSLEnv L cfg certificateFile privateKeyFile (Some e) = Inl ''Double init SSL Environment'')"
  using assms
  by (auto simp: initGlobalSSLEnv_def FSSLEnv_new_def loadCertFiles_def isEnvSetup_def env_ready_def addSslListenPort_def
      addListenPort_def Let_def case_prod_beta)

theorem tls_port_without_certificate_witness:
  "\<exists>e. initGlobalSSLEnv \<lparr>SSL_CTX_new = Some (0::nat), use_certificate_chain_file = (\<lambda>_ c. (0, c)),
       use_PrivateKey_file = (\<lambda>_ c. (1, c + 1))\<rparr> \<lparr>mCurEnv = Prod, mCfgMap = [], mUsedConfigs = {}\<rparr> ''cert.pem'' ''private.pem'' None
     = Inr (Some e) \<and> SSLContext e = Some 0 \<and> m_acceptors (addSslListenPort (env_ready (Some e)) FTcp.demo_server 444) = [80, 443, 8443, 444]"
proof -
  have "m_acceptors FTcp.demo_server = [80, 443, 8443]" by code_simp
  then show ?thesis using tls_port_without_certificate [of "\<lparr>SSL_CTX_new = Some (0::nat), use_certificate_chain_file = (\<lambda>_ c. (0, c)),
       use_PrivateKey_file = (\<lambda>_ c. (1, c + 1))\<rparr>" 0 "\<lparr>mCurEnv = Prod, mCfgMap = [], mUsedConfigs = {}\<rparr>" "''cert.pem''"
       "''private.pem''" FTcp.demo_server 444]
  by auto
qed

end
