(* ===== verification/FSSL.thy ===== *)
theory FSSL
  imports FTcp FHttpServer
begin

text \<open>
  The TLS layer of a connection (\<open>FeiLib/src/FSSLHelper.cpp\<close>) and what \<open>FTcpConnection\<close> makes of it
  when it sends and reads. OpenSSL and its two memory BIOs are the argument: a record of functions on
  the state of one \<open>SSL\<close> object. The reader that is handed to the message callback is a reference to
  the helper's own \<open>outBuffer\<close>, the buffer that also takes the ciphertext of an answer; here the
  callback works on the helper, so it sees and changes that same buffer.
\<close>

section \<open>OpenSSL\<close>

text \<open>Why \<open>SSL_read\<close> gave nothing: WANT_READ or WANT_WRITE, ZERO_RETURN, or anything else. \<open>BIO_read\<close> of an
  empty BIO gives -1 (\<open>BIO_set_mem_eof_return\<close>), here no bytes.\<close>

datatype ssl_stop = Ssl_want | Ssl_zero_return | Ssl_failure

record 's tls_lib =
  SSL_is_init_finished :: "'s \<Rightarrow> bool"
  SSL_do_handshake :: "'s \<Rightarrow> int \<times> 's"
  SSL_pending :: "'s \<Rightarrow> nat"
  SSL_read :: "nat \<Rightarrow> 's \<Rightarrow> string \<times> ssl_stop \<times> 's"
  SSL_write :: "string \<Rightarrow> 's \<Rightarrow> int \<times> 's"
  BIO_write :: "string \<Rightarrow> 's \<Rightarrow> int \<times> 's"
  BIO_ctrl_pending :: "'s \<Rightarrow> nat"
  BIO_read :: "nat \<Rightarrow> 's \<Rightarrow> string \<times> 's"
  SSL_get0_alpn_selected :: "'s \<Rightarrow> string option"

datatype ssl_exn = SSLNotPrepared | SSLData

section \<open>The helper\<close>

record 's ssl_helper =
  sslHandler :: 's
  s_inBuffer :: fbuffer
  s_outBuffer :: fbuffer
  mIsH2 :: bool
  mProtocalHasSelected :: bool
  mHasPending :: bool

definition FSSLHelper_new :: "'s \<Rightarrow> 's ssl_helper" where
  "FSSLHelper_new s =
     \<lparr>sslHandler = s, s_inBuffer = FBuffer_new 128, s_outBuffer = FBuffer_new 128, mIsH2 = False,
      mProtocalHasSelected = False, mHasPending = False\<rparr>"

definition hasShakeHandFin :: "'s tls_lib \<Rightarrow> 's ssl_helper \<Rightarrow> bool" where
  "hasShakeHandFin E h = (if mHasPending h then False else SSL_is_init_finished E (sslHandler h))"

text \<open>All that a reader holds.\<close>

definition peeked :: "fbuffer \<Rightarrow> string" where
  "peeked b = (case snd (rd_peekAll b) of None \<Rightarrow> [] | Some d \<Rightarrow> d)"

text \<open>The first half of \<open>EncryptSendingData\<close>: what \<open>SSL_write\<close> did not take before goes first.\<close>

definition encrypt_write :: "'s tls_lib \<Rightarrow> 's ssl_helper \<Rightarrow> string \<Rightarrow> int \<times> 's ssl_helper" where
  "encrypt_write E h data =
     (if 0 < getReadableSize (s_inBuffer h)
      then (let b = fb_Append (s_inBuffer h) data;
                (readSize, s) = SSL_write E (peeked b) (sslHandler h)
            in (readSize, h\<lparr>sslHandler := s,
                 s_inBuffer := (if 0 \<le> readSize then rd_expireSize b (word_of_int readSize) else b)\<rparr>))
      else (let (readSize, s) = SSL_write E data (sslHandler h)
            in (readSize, h\<lparr>sslHandler := s,
                 s_inBuffer := (if 0 \<le> readSize \<and> readSize < int (length data)
                                then fb_Append (s_inBuffer h) (drop (nat readSize) data)
                                else s_inBuffer h)\<rparr>)))"

text \<open>The second half: the ciphertext goes from the BIO to \<open>outBuffer\<close>. When there is none \<open>BIO_read\<close>
  gives -1 and \<open>Append\<close> copies \<open>0xFFFFFFFF\<close> bytes: None is that undefined access.\<close>

definition encrypt_fetch :: "'s tls_lib \<Rightarrow> 's ssl_helper \<Rightarrow> 's ssl_helper option" where
  "encrypt_fetch E h =
     (let (d, s) = BIO_read E (BIO_ctrl_pending E (sslHandler h)) (sslHandler h)
      in if d = [] then None
         else Some (h\<lparr>sslHandler := s, s_outBuffer := fb_Append (s_outBuffer h) d\<rparr>))"

definition EncryptSendingData :: "'s tls_lib \<Rightarrow> 's ssl_helper \<Rightarrow> string \<Rightarrow> ((ssl_exn + unit) \<times> 's ssl_helper) option" where
  "EncryptSendingData E h data =
     (if \<not> hasShakeHandFin E h then Some (Inl SSLNotPrepared, h)
      else (let (readSize, h1) = encrypt_write E h data
            in if readSize < 0 then Some (Inl SSLData, h1)
               else map_option (\<lambda>h2. (Inr (), h2)) (encrypt_fetch E h1)))"

text \<open>The loop of \<open>DecryptRecvingData\<close>, which goes on for as long as \<open>SSL_read\<close> gives bytes; its first
  result is whether it ended without an error.\<close>

definition read_size :: "'s tls_lib \<Rightarrow> 's \<Rightarrow> nat" where
  "read_size E s = min (if 0 < SSL_pending E s then SSL_pending E s else 4096) 4096"

partial_function (option) decrypt_loop :: "'s tls_lib \<Rightarrow> fbuffer \<Rightarrow> 's \<Rightarrow> (bool \<times> fbuffer \<times> 's) option" where
  "decrypt_loop E b s =
     (case SSL_read E (read_size E s) s of
        (d, err, s') \<Rightarrow>
          if d \<noteq> [] then decrypt_loop E (fb_Append b d) s'
          else Some (err \<noteq> Ssl_failure, b, s'))"

definition DecryptRecvingData :: "'s tls_lib \<Rightarrow> 's ssl_helper \<Rightarrow> fbuffer \<Rightarrow>
    ((ssl_exn + unit) \<times> 's ssl_helper \<times> fbuffer) option" where
  "DecryptRecvingData E h reader =
     (if \<not> hasShakeHandFin E h then Some (Inl SSLNotPrepared, h, reader)
      else (let (s1, reader1) =
                  (if 0 < fst (rd_peekAll reader)
                   then (let (written, s) = BIO_write E (peeked reader) (sslHandler h)
                         in (s, rd_expireSize reader (word_of_int written)))
                   else (sslHandler h, reader))
            in case decrypt_loop E (s_outBuffer h) s1 of
                 None \<Rightarrow> None
               | Some (ok, out, s2) \<Rightarrow>
                   Some (if ok then Inr () else Inl SSLData, h\<lparr>sslHandler := s2, s_outBuffer := out\<rparr>, reader1)))"

text \<open>\<open>isHttp2\<close> asks once and keeps the answer.\<close>

definition isHttp2 :: "'s tls_lib \<Rightarrow> 's ssl_helper \<Rightarrow> bool \<times> 's ssl_helper" where
  "isHttp2 E h =
     (let h1 = (if \<not> mProtocalHasSelected h
                then h\<lparr>mIsH2 := (mIsH2 h \<or> SSL_get0_alpn_selected E (sslHandler h) = Some ''h2''),
                       mProtocalHasSelected := True\<rparr>
                else h)
      in (mIsH2 h1, h1))"

section \<open>The connection\<close>

text \<open>\<open>sendInLoop\<close> of a TLS connection: the ciphertext is taken from the helper's \<open>outBuffer\<close> with
  \<open>peekAll\<close>, so all of it is.\<close>

definition take_all :: "'s ssl_helper \<Rightarrow> string \<times> 's ssl_helper" where
  "take_all h =
     (peeked (s_outBuffer h),
      h\<lparr>s_outBuffer := rd_expireSize (s_outBuffer h) (word_of_int (fst (rd_peekAll (s_outBuffer h))))\<rparr>)"

definition tls_send :: "'s tls_lib \<Rightarrow> (string \<Rightarrow> send_result) \<Rightarrow> 'u tcp_conn \<Rightarrow> 's ssl_helper \<Rightarrow> string \<Rightarrow>
    ('u tcp_conn \<times> 's ssl_helper \<times> tcp_action list) option" where
  "tls_send E krnl c h data =
     (if mstate c = DisConnected then Some (c, h, [])
      else if isSSLConnection c \<and> hasShakeHandFin E h
      then (case EncryptSendingData E h data of
              None \<Rightarrow> None
            | Some (Inl _, h1) \<Rightarrow> (let (c', acts) = handleClose c in Some (c', h1, acts))
            | Some (Inr _, h1) \<Rightarrow>
                (let (sendData, h2) = take_all h1;
                     (c', acts) = sendInLoop True (\<lambda>_. Some sendData) krnl c data
                 in Some (c', h2, acts)))
      else (let (c', acts) = sendInLoop False (\<lambda>_. None) krnl c data in Some (c', h, acts)))"

text \<open>The loop of \<open>shakeHand\<close> that empties the outgoing BIO; the string grows by the pending size, and
  \<open>BIO_read\<close> fills it.\<close>

partial_function (option) drain :: "'s tls_lib \<Rightarrow> string \<Rightarrow> 's \<Rightarrow> (string \<times> 's) option" where
  "drain E dataToSend s =
     (if BIO_ctrl_pending E s = 0 then Some (dataToSend, s)
      else (case BIO_read E (BIO_ctrl_pending E s) s of
              (d, s') \<Rightarrow> drain E (dataToSend @ d @ replicate (BIO_ctrl_pending E s - length d) NUL) s'))"

text \<open>While \<open>shakeHand\<close> sends, \<open>mHasPending\<close> keeps the data from being encrypted.\<close>

definition shakeHand :: "'s tls_lib \<Rightarrow> (string \<Rightarrow> send_result) \<Rightarrow> 'u tcp_conn \<Rightarrow> 's ssl_helper \<Rightarrow> fbuffer \<Rightarrow>
    (bool \<times> 'u tcp_conn \<times> 's ssl_helper \<times> fbuffer \<times> tcp_action list) option" where
  "shakeHand E krnl c h reader =
     (if SSL_is_init_finished E (sslHandler h) then Some (True, c, h, reader, [])
      else (let (r, s1) = SSL_do_handshake E (sslHandler h);
                (s2, reader1) =
                  (if r < 0
                   then (let (n, s) = BIO_write E (peeked reader) s1
                         in (s, if 0 < n then rd_expireSize reader (word_of_int n) else reader))
                   else (s1, reader));
                (r2, s3) = SSL_do_handshake E s2
            in case drain E [] s3 of
                 None \<Rightarrow> None
               | Some (dataToSend, s4) \<Rightarrow>
                   (case (if dataToSend \<noteq> []
                          then tls_send E krnl c (h\<lparr>sslHandler := s4, mHasPending := True\<rparr>) dataToSend
                          else Some (c, h\<lparr>sslHandler := s4\<rparr>, [])) of
                      None \<Rightarrow> None
                    | Some (c1, h1, acts) \<Rightarrow>
                        (let h2 = h1\<lparr>mHasPending := (if dataToSend \<noteq> [] then False else mHasPending h1)\<rparr>
                         in if r2 < 0 then Some (False, c1, h2, reader1, acts)
                            else (let (_, _, s5) = SSL_read E 0 (sslHandler h2)
                                  in Some (0 < SSL_pending E s5, c1, h2\<lparr>sslHandler := s5\<rparr>, reader1, acts))))))"

type_synonym ('s, 'u) tls_callback =
  "'u tcp_conn \<Rightarrow> 's ssl_helper \<Rightarrow> (callback_exn option \<times> 'u tcp_conn \<times> 's ssl_helper \<times> tcp_action list) option"

text \<open>\<open>handleRead\<close> of a TLS connection. An \<open>FException\<close> of the callback closes it; any other
  exception leaves the handler and is the first component of the result.\<close>

definition tls_message :: "('s, 'u) tls_callback \<Rightarrow> 'u tcp_conn \<Rightarrow> 's ssl_helper \<Rightarrow> tcp_action list \<Rightarrow>
    (callback_exn option \<times> 'u tcp_conn \<times> 's ssl_helper \<times> tcp_action list) option" where
  "tls_message onMessage c h acts =
     (if \<not> m_onMessage c then Some (None, c, h, acts)
      else (case onMessage c h of
              None \<Rightarrow> None
            | Some (threw, c1, h1, further) \<Rightarrow>
                if threw = Some Cb_FException
                then (let (c2, cl) = handleClose c1 in Some (None, c2, h1, acts @ further @ cl))
                else Some (threw, c1, h1, acts @ further)))"

definition tls_handleRead :: "'s tls_lib \<Rightarrow> (string \<Rightarrow> send_result) \<Rightarrow> ('s, 'u) tls_callback \<Rightarrow> 'u tcp_conn \<Rightarrow>
    's ssl_helper \<Rightarrow> string option \<Rightarrow> bool \<Rightarrow> (callback_exn option \<times> 'u tcp_conn \<times> 's ssl_helper \<times> tcp_action list) option" where
  "tls_handleRead E krnl onMessage c h delivered transient =
     (if mstate c = DisConnected then Some (None, c, h, [])
      else (let (len, b) = fb_Read (inBuffer c) delivered;
                c1 = c\<lparr>inBuffer := b, mstate := Connected\<rparr>
            in if 0 < len
               then (case shakeHand E krnl c1 h b of
                       None \<Rightarrow> None
                     | Some (False, c2, h2, b2, acts) \<Rightarrow> Some (None, c2\<lparr>inBuffer := b2\<rparr>, h2, acts)
                     | Some (True, c2, h2, b2, acts) \<Rightarrow>
                         (case DecryptRecvingData E h2 b2 of
                            None \<Rightarrow> None
                          | Some (Inl _, h3, b3) \<Rightarrow>
                              (let (c4, cl) = handleClose (c2\<lparr>inBuffer := b3\<rparr>) in Some (None, c4, h3, acts @ cl))
                          | Some (Inr _, h3, b3) \<Rightarrow> tls_message onMessage (c2\<lparr>inBuffer := b3\<rparr>) h3 acts))
               else (let (c2, acts) = (if len = 0 then handleClose c1 else handleError transient c1)
                     in Some (None, c2, h, acts))))"

text \<open>HTTP/1 over TLS: the parser reads the helper's \<open>outBuffer\<close>, and the answer is sent through the same
  helper.\<close>

fun tls_perform :: "'s tls_lib \<Rightarrow> (string \<Rightarrow> send_result) \<Rightarrow> conn_action list \<Rightarrow> 'u tcp_conn \<Rightarrow> 's ssl_helper \<Rightarrow>
    ('u tcp_conn \<times> 's ssl_helper \<times> tcp_action list) option" where
  "tls_perform E krnl [] c h = Some (c, h, [])"
| "tls_perform E krnl (a # as) c h =
     (case (case a of
              Send s \<Rightarrow> tls_send E krnl c h s
            | ForceClose \<Rightarrow> (let (c', acts) = forceCloseInLoop c in Some (c', h, acts))
            | _ \<Rightarrow> Some (c, h, [])) of
        None \<Rightarrow> None
      | Some (c1, h1, acts) \<Rightarrow> map_option (\<lambda>(c2, h2, further). (c2, h2, acts @ further)) (tls_perform E krnl as c1 h1))"

definition tls_http1 :: "'s tls_lib \<Rightarrow> (string \<Rightarrow> send_result) \<Rightarrow> ('cm, 'rc, 'oq, 'f) router_libs \<Rightarrow> 'f http_server \<Rightarrow>
    u64 \<Rightarrow> http_parser \<Rightarrow> ('cm, 'rc, 'oq) router \<Rightarrow> conn_data \<Rightarrow> 'u tcp_conn \<Rightarrow> 's ssl_helper \<Rightarrow>
    (process_error option \<times> ('cm, 'rc, 'oq) router \<times> conn_data \<times> 'u tcp_conn \<times> 's ssl_helper \<times> tcp_action list) option" where
  "tls_http1 E krnl L S clock fresh_p r d c h =
     (let (err, todo, r', d', b) = http1Process L S clock fresh_p r d (s_outBuffer h)
      in map_option (\<lambda>(c', h', acts). (err, r', d', c', h', acts))
           (tls_perform E krnl todo c (h\<lparr>s_outBuffer := b\<rparr>)))"

section \<open>Lemmas\<close>

lemma peeked_readable: "fb_wf b \<Longrightarrow> peeked b = readable b"
  by (auto simp: peeked_def rd_peekAll_def Let_def readable_size readable_def length_readable min_def)

lemma expire_all:
  assumes "fb_wf b"
  shows "fb_wf (rd_expireSize b (word_of_int (fst (rd_peekAll b))))
    \<and> readable (rd_expireSize b (word_of_int (fst (rd_peekAll b)))) = []"
proof -
  have "word_of_int (fst (rd_peekAll b)) = (word_of_nat (length (readable b)) :: i32)"
    by (simp add: rd_peekAll_def Let_def readable_size [OF assms])
  then show ?thesis
    using Pop_correct [OF assms, of "length (readable b)"] by (simp only: rd_expireSize_def) simp
qed

lemma take_all_correct:
  assumes "fb_wf (s_outBuffer h)" "take_all h = (sd, h')"
  shows "sd = readable (s_outBuffer h) \<and> fb_wf (s_outBuffer h') \<and> readable (s_outBuffer h') = []
    \<and> sslHandler h' = sslHandler h"
  using assms expire_all [OF assms(1)] by (auto simp: take_all_def peeked_readable)

text \<open>OpenSSL without partial writes takes what it is given; \<open>s_inBuffer\<close> then stays empty.\<close>

lemma encrypt_correct:
  assumes "hasShakeHandFin E h" "fb_wf (s_inBuffer h)" "readable (s_inBuffer h) = []" "fb_wf (s_outBuffer h)"
    "SSL_write E data (sslHandler h) = (int (length data), s1)"
    "BIO_read E (BIO_ctrl_pending E s1) s1 = (ct, s2)" "ct \<noteq> []" "fb_room (s_outBuffer h) (length ct)"
  shows "\<exists>h1. EncryptSendingData E h data = Some (Inr (), h1) \<and> sslHandler h1 = s2
    \<and> s_inBuffer h1 = s_inBuffer h \<and> fb_wf (s_outBuffer h1)
    \<and> readable (s_outBuffer h1) = readable (s_outBuffer h) @ ct"
  using assms Append_correct [OF assms(4,8)]
  by (simp add: EncryptSendingData_def encrypt_write_def encrypt_fetch_def readable_size)

lemma tls_send_stream:
  assumes "mstate c \<noteq> DisConnected" "isSSLConnection c" "hasShakeHandFin E h"
    "fb_wf (s_inBuffer h)" "readable (s_inBuffer h) = []" "fb_wf (s_outBuffer h)"
    "SSL_write E data (sslHandler h) = (int (length data), s1)"
    "BIO_read E (BIO_ctrl_pending E s1) s1 = (ct, s2)" "ct \<noteq> []" "fb_room (s_outBuffer h) (length ct)"
    "fb_wf (outBuffer c)" "fb_room (outBuffer c) (length (readable (s_outBuffer h)) + length ct)"
    "\<forall>d. (\<exists>n. krnl d = Accepted n \<and> n \<le> length d) \<or> krnl d = SendFailed False"
  shows "\<exists>c' h' acts. tls_send E krnl c h data = Some (c', h', acts)
    \<and> sent_bytes acts @ readable (outBuffer c') = readable (outBuffer c) @ readable (s_outBuffer h) @ ct
    \<and> readable (s_outBuffer h') = [] \<and> sslHandler h' = s2"
proof -
  obtain h1 where h1: "EncryptSendingData E h data = Some (Inr (), h1)" "sslHandler h1 = s2"
      "fb_wf (s_outBuffer h1)" "readable (s_outBuffer h1) = readable (s_outBuffer h) @ ct"
    using encrypt_correct [OF assms(3-10)] by blast
  obtain sd h2 where h2: "take_all h1 = (sd, h2)" by force
  obtain c' acts where s: "sendInLoop True (\<lambda>_. Some sd) krnl c data = (c', acts)" by force
  have sd: "sd = readable (s_outBuffer h) @ ct" "readable (s_outBuffer h2) = []" "sslHandler h2 = s2"
    using take_all_correct [OF h1(3) h2] h1 by simp_all
  have "sent_bytes acts @ readable (outBuffer c') = readable (outBuffer c) @ sd"
    using sendInLoop_stream [OF assms(1) _ assms(11) _ assms(13) s, of sd] assms(2,12) sd(1) by simp
  then show ?thesis using assms(1-3) h1(1) h2 s sd by (simp add: tls_send_def)
qed

text \<open>What the engine hands to \<open>decrypt_loop\<close>, read by read, until it has nothing.\<close>

inductive delivers :: "'s tls_lib \<Rightarrow> 's \<Rightarrow> string list \<Rightarrow> ssl_stop \<Rightarrow> 's \<Rightarrow> bool" for E where
  delivers_stop: "SSL_read E (read_size E s) s = ([], err, s') \<Longrightarrow> delivers E s [] err s'"
| delivers_more: "SSL_read E (read_size E s) s = (d, err0, s1) \<Longrightarrow> d \<noteq> [] \<Longrightarrow> delivers E s1 ds err s' \<Longrightarrow>
    delivers E s (d # ds) err s'"

lemma decrypt_loop_delivers:
  "delivers E s ds err s' \<Longrightarrow> fb_wf b \<Longrightarrow> fb_room b (length (concat ds)) \<Longrightarrow>
     \<exists>b'. decrypt_loop E b s = Some (err \<noteq> Ssl_failure, b', s') \<and> fb_wf b' \<and> readable b' = readable b @ concat ds"
proof (induction arbitrary: b rule: delivers.induct)
  case (delivers_stop s err s')
  then show ?case by (simp add: decrypt_loop.simps [of E b s])
next
  case (delivers_more s d err0 s1 ds err s')
  have room: "fb_room b (length d)" using delivers_more.prems by (simp add: fb_room_def)
  have a: "fb_wf (fb_Append b d)" "readable (fb_Append b d) = readable b @ d"
    using Append_correct [OF delivers_more.prems(1) room] by simp_all
  have "fb_room (fb_Append b d) (length (concat ds))"
    using fbq.room_put [of b d "length (concat ds)"] delivers_more.prems by simp
  with delivers_more.IH [OF a(1)] a(2) delivers_more.hyps show ?case
    by (simp add: decrypt_loop.simps [of E b s])
qed

lemma drain_law:
  assumes "BIO_read E (BIO_ctrl_pending E s) s = (out, s')" "length out = BIO_ctrl_pending E s" "BIO_ctrl_pending E s' = 0"
  shows "drain E acc s = Some (acc @ out, s') \<or> BIO_ctrl_pending E s = 0 \<and> drain E acc s = Some (acc, s)"
  using assms by (simp add: drain.simps [of E acc s] drain.simps [of E _ s'])

text \<open>Only \<open>isHttp2\<close> touches the two flags of the protocol.\<close>

abbreviation alpn_flags :: "'s ssl_helper \<Rightarrow> bool \<times> bool" where
  "alpn_flags h \<equiv> (mIsH2 h, mProtocalHasSelected h)"

lemma Encrypt_flags: "EncryptSendingData E h data = Some (r, h') \<Longrightarrow> alpn_flags h' = alpn_flags h"
  by (auto simp: EncryptSendingData_def encrypt_write_def encrypt_fetch_def Let_def split: if_splits prod.splits)

lemma take_all_flags: "take_all h = (d, h') \<Longrightarrow> alpn_flags h' = alpn_flags h"
  by (auto simp: take_all_def)

lemma tls_send_flags:
  assumes "tls_send E krnl c h data = Some (c', h', acts)"
  shows "alpn_flags h' = alpn_flags h"
proof (cases "mstate c \<noteq> DisConnected \<and> isSSLConnection c \<and> hasShakeHandFin E h")
  case True
  then obtain r h1 where e: "EncryptSendingData E h data = Some (r, h1)"
    using assms by (auto simp: tls_send_def split: option.splits)
  obtain d h2 where t: "take_all h1 = (d, h2)" by force
  from True assms e t have "h' = h1 \<or> h' = h2"
    by (auto simp: tls_send_def split: sum.splits prod.splits)
  with Encrypt_flags [OF e] take_all_flags [OF t] show ?thesis by auto
next
  case False
  then show ?thesis using assms by (auto simp: tls_send_def split: if_splits prod.splits)
qed

lemma shakeHand_flags:
  assumes "shakeHand E krnl c h reader = Some (fin, c', h', b', acts)"
  shows "alpn_flags h' = alpn_flags h"
  using assms
  by (auto simp: shakeHand_def Let_def dest!: tls_send_flags split: if_splits prod.splits option.splits)

lemma Decrypt_flags: "DecryptRecvingData E h reader = Some (r, h', b') \<Longrightarrow> alpn_flags h' = alpn_flags h"
  by (auto simp: DecryptRecvingData_def Let_def split: if_splits prod.splits option.splits)

section \<open>Properties\<close>

text \<open>
  C14. An answer to a pipelined request takes the next request with it: when the helper's buffer
  holds a complete request and more, the loop answers the request, and what is sent is the unread
  rest as it was received, in the clear, followed by the ciphertext of the answer; nothing of the
  rest is left to be parsed. Only when nothing was unread is the ciphertext alone on the wire.
\<close>
theorem tls_pipelined_in_clear:
  assumes "fresh (cd_parser d)" "builder_ok rb" "readable (s_outBuffer h) = rb_build rb @ next" "NUL \<notin> set next"
    and conn: "mstate c \<noteq> DisConnected" "isSSLConnection c" "hasShakeHandFin E h"
    and bufs: "fb_wf (s_inBuffer h)" "readable (s_inBuffer h) = []" "fb_wf (s_outBuffer h)" "fb_wf (outBuffer c)"
    and answer: "http1Process L S clock fresh_p r d (s_outBuffer h) = (None, [Send data], r', d', b)"
    and engine: "SSL_write E data (sslHandler h) = (int (length data), s1)"
      "BIO_read E (BIO_ctrl_pending E s1) s1 = (ct, s2)" "ct \<noteq> []"
    and room: "fb_room (s_outBuffer h) (length ct)" "fb_room (outBuffer c) (length next + length ct)"
    and krnl: "\<forall>d. (\<exists>n. krnl d = Accepted n \<and> n \<le> length d) \<or> krnl d = SendFailed False"
  shows "\<exists>c' h' acts. tls_http1 E krnl L S clock fresh_p r d c h = Some (None, r', d', c', h', acts)
    \<and> sent_bytes acts @ readable (outBuffer c') = readable (outBuffer c) @ drop 1 next @ ct
    \<and> readable (s_outBuffer h') = []"
proof -
  have b: "readable b = drop 1 next" "fb_wf b" "m_buffer b = m_buffer (s_outBuffer h)"
    using http1_answers [OF assms(1) bufs(3) assms(2-4) answer] by simp_all
  let ?h = "h\<lparr>s_outBuffer := b\<rparr>"
  have fin: "hasShakeHandFin E ?h" using conn(3) by (simp add: hasShakeHandFin_def split: if_splits)
  have rooms: "fb_room b (length ct)" "fb_room (outBuffer c) (length (readable b) + length ct)"
    using room by (simp_all add: fb_room_def b)
  obtain c' h' acts where t: "tls_send E krnl c ?h data = Some (c', h', acts)"
      "sent_bytes acts @ readable (outBuffer c') = readable (outBuffer c) @ readable b @ ct" "readable (s_outBuffer h') = []"
    using tls_send_stream [OF conn(1,2) fin, of data s1 ct s2 krnl] bufs b(2) engine rooms krnl by auto
  then show ?thesis using answer b(1) by (simp add: tls_http1_def)
qed

text \<open>An engine that turns every text into one byte, and a server that answers every request.\<close>

definition hash_tls :: "bool tls_lib" where
  "hash_tls = \<lparr>SSL_is_init_finished = (\<lambda>_. True), SSL_do_handshake = (\<lambda>s. (1, s)), SSL_pending = (\<lambda>_. 0),
     SSL_read = (\<lambda>_ s. ([], Ssl_want, s)), SSL_write = (\<lambda>d _. (int (length d), True)),
     BIO_write = (\<lambda>d s. (int (length d), s)), BIO_ctrl_pending = (\<lambda>s. if s then 1 else 0),
     BIO_read = (\<lambda>_ s. (if s then ''#'' else [], False)), SSL_get0_alpn_selected = (\<lambda>_. None)\<rparr>"

definition filter_server :: "nat http_server" where
  "filter_server = demo_server\<lparr>mConnFilterFunc := Some (\<lambda>_ resp. (True, resp))\<rparr>"

lemma filtered_answer: "mIsValid q \<Longrightarrow> \<exists>resp. fst (httpHandle L filter_server clock r d hh q) = Inr resp"
  by (auto simp: httpHandle_def filter_server_def Let_def split: prod.split)

lemma filtered_http1:
  assumes "fresh (cd_parser d)" "fb_wf b" "builder_ok rb" "readable b = rb_build rb @ next" "NUL \<notin> set next"
  shows "\<exists>data r' d' b'. http1Process L filter_server clock fresh_p r d b = (None, [Send data], r', d', b')"
proof -
  obtain p1 b1 where p1: "http_parse (cd_parser d) b = (Inr True, p1, b1)" "pstate p1 = Done"
    using built_request_reads [OF assms] by auto
  obtain resp where "fst (httpHandle L filter_server clock r (d\<lparr>cd_parser := moved_from p1\<rparr>) False (FHttpRequest_of_parser p1)) = Inr resp"
    using filtered_answer [where q = "FHttpRequest_of_parser p1" and L = L and clock = clock and r = r
        and d = "d\<lparr>cd_parser := moved_from p1\<rparr>" and hh = False] p1(2)
    by (auto simp: FHttpRequest_of_parser_def)
  with p1(1) show ?thesis by (auto simp: http1Process_def split: prod.split)
qed

theorem tls_pipelined_in_clear_witness:
  "\<exists>d' c' h' acts r'. tls_http1 hash_tls (\<lambda>d. Accepted (length d)) demo_libs filter_server 0 (FHttpParser_new M_GET Http11)
       demo_router demo_data (demo_conn\<lparr>isSSLConnection := True\<rparr>)
       ((FSSLHelper_new False)\<lparr>s_outBuffer := fb_Append (FBuffer_new 0) (rb_build (rb_setUrl (RequestBuilder_new M_GET) ''/a'') @ ''GET /secret'')\<rparr>)
     = Some (None, r', d', c', h', acts)
     \<and> sent_bytes acts @ readable (outBuffer c') = ''ET /secret#''"
proof -
  let ?rb = "rb_setUrl (RequestBuilder_new M_GET) ''/a''" and ?next = "''GET /secret''"
  let ?b = "fb_Append (FBuffer_new 0) (rb_build ?rb @ ?next)" and ?c = "demo_conn\<lparr>isSSLConnection := True\<rparr>"
  let ?h = "(FSSLHelper_new False)\<lparr>s_outBuffer := ?b\<rparr>"
  have shape: "rb_build ?rb = ''GET /a HTTP/1.1'' @ CRLF @ ''Content-Length: 0'' @ CRLF @ CRLF" by code_simp
  have ok: "builder_ok ?rb" by (simp add: builder_ok_def rb_setUrl_def RequestBuilder_new_def line_text_def)
  have "fb_room (FBuffer_new 0) (length (rb_build ?rb @ ?next))" unfolding shape by (simp add: fb_room_def FBuffer_new_def)
  then have b: "fb_wf ?b" "readable ?b = rb_build ?rb @ ?next"
    using Append_correct [of "FBuffer_new 0" "rb_build ?rb @ ?next"] new_wf [of 0] by simp_all
  have room: "fb_room ?b 1"
    unfolding shape by (simp add: fb_room_def fb_Append_def FBuffer_new_def Let_def vec_write_def vec_resize_def)
  have f: "fresh (cd_parser demo_data)" by (simp add: demo_data_def)
  obtain data r' d' b' where a: "http1Process demo_libs filter_server 0 (FHttpParser_new M_GET Http11) demo_router demo_data ?b
      = (None, [Send data], r', d', b')"
    using filtered_http1 [OF f b(1) ok b(2), of demo_libs 0 "FHttpParser_new M_GET Http11" demo_router] by auto
  have c: "fb_wf (outBuffer ?c)" "readable (outBuffer ?c) = []" "fb_room (outBuffer ?c) (length ?next + 1)"
    using new_wf [of 1024] by (simp_all add: demo_conn_facts) (simp add: fb_room_def FBuffer_new_def)
  have i: "fb_wf (s_inBuffer ?h)" "readable (s_inBuffer ?h) = []"
    using new_wf [of 128] by (simp_all add: FSSLHelper_new_def)
  have "\<exists>c' h' acts. tls_http1 hash_tls (\<lambda>d. Accepted (length d)) demo_libs filter_server 0 (FHttpParser_new M_GET Http11)
       demo_router demo_data ?c ?h = Some (None, r', d', c', h', acts)
     \<and> sent_bytes acts @ readable (outBuffer c') = readable (outBuffer ?c) @ drop 1 ?next @ ''#''
     \<and> readable (s_outBuffer h') = []"
    by (rule tls_pipelined_in_clear [where ?s1.0 = True and ?s2.0 = False, OF f ok, of ?h ?next ?c hash_tls])
       (use a b c i room in \<open>simp_all add: demo_conn_facts hash_tls_def hasShakeHandFin_def FSSLHelper_new_def\<close>)
  moreover have "readable (outBuffer demo_conn) = []" using c(2) by simp
  ultimately show ?thesis by auto
qed

text \<open>
  Reading over TLS: when bytes arrive after the handshake, all of them go to the engine, the
  plaintext it yields is appended, in order, to what the callback left unread before, and the
  callback runs on that; an engine that has more to give is asked again until it has nothing.
\<close>
theorem tls_read_delivers:
  assumes "mstate c \<noteq> DisConnected" "SSL_is_init_finished E (sslHandler h)" "\<not> mHasPending h"
    and buf: "fb_wf (inBuffer c)" "fb_room (inBuffer c) (length bytes)" "bytes \<noteq> []"
    and engine: "BIO_write E (readable (inBuffer c) @ bytes) (sslHandler h) = (int (length (readable (inBuffer c) @ bytes)), s1)"
      "delivers E s1 ds err s2" "err \<noteq> Ssl_failure"
    and out: "fb_wf (s_outBuffer h)" "fb_room (s_outBuffer h) (length (concat ds))"
  shows "\<exists>c' h'. tls_handleRead E krnl onMessage c h (Some bytes) transient = tls_message onMessage c' h' []
    \<and> mstate c' = Connected \<and> readable (inBuffer c') = [] \<and> sslHandler h' = s2
    \<and> readable (s_outBuffer h') = readable (s_outBuffer h) @ concat ds"
proof -
  obtain b' where b: "fb_wf b'" "readable b' = readable (inBuffer c) @ bytes"
      "fb_Read (inBuffer c) (Some bytes) = (int (length bytes), b')"
    using Read_correct [OF buf(1,2)] by (metis prod.collapse)
  obtain out' where out': "decrypt_loop E (s_outBuffer h) s1 = Some (True, out', s2)"
      "readable out' = readable (s_outBuffer h) @ concat ds"
    using decrypt_loop_delivers [OF engine(2) out] engine(3) by auto
  have peek: "peeked b' = readable (inBuffer c) @ bytes" "fst (rd_peekAll b') = int (length (readable (inBuffer c) @ bytes))"
    using b by (simp_all add: peeked_readable rd_peekAll_def Let_def readable_size)
  let ?r = "rd_expireSize b' (word_of_int (int (length (readable (inBuffer c) @ bytes))))"
  have r: "readable ?r = []" using expire_all [OF b(1)] peek(2) by simp
  have "0 < int (length (readable (inBuffer c))) + int (length bytes)" using buf(3) by (cases bytes) simp_all
  then have "DecryptRecvingData E h b' = Some (Inr (), h\<lparr>sslHandler := s2, s_outBuffer := out'\<rparr>, ?r)"
    using assms(2,3) peek engine(1) out'(1)
    by (simp add: DecryptRecvingData_def hasShakeHandFin_def)
  then show ?thesis
    using assms(1,2) buf(3) b(3) r out'(2)
    by (intro exI [of _ "c\<lparr>mstate := Connected, inBuffer := ?r\<rparr>"] exI [of _ "h\<lparr>sslHandler := s2, s_outBuffer := out'\<rparr>"])
       (simp add: tls_handleRead_def shakeHand_def Let_def)
qed

text \<open>An engine that passes texts through.\<close>

definition plain_tls :: "string tls_lib" where
  "plain_tls = \<lparr>SSL_is_init_finished = (\<lambda>_. True), SSL_do_handshake = (\<lambda>s. (1, s)), SSL_pending = length,
     SSL_read = (\<lambda>n s. (take n s, Ssl_want, drop n s)), SSL_write = (\<lambda>d s. (int (length d), d)),
     BIO_write = (\<lambda>d s. (int (length d), s @ d)), BIO_ctrl_pending = length,
     BIO_read = (\<lambda>n s. (take n s, drop n s)), SSL_get0_alpn_selected = (\<lambda>_. None)\<rparr>"

theorem tls_read_delivers_witness:
  "\<exists>c' h'. tls_handleRead plain_tls (\<lambda>d. Accepted (length d)) (\<lambda>c h. Some (None, c, h, [])) demo_conn
       (FSSLHelper_new []) (Some ''hi'') False
     = tls_message (\<lambda>c h. Some (None, c, h, [])) c' h' [] \<and> readable (s_outBuffer h') = ''hi''"
proof -
  have wf: "fb_wf (inBuffer demo_conn)" "readable (inBuffer demo_conn) = []" "fb_room (inBuffer demo_conn) (length ''hi'')"
    using new_wf [of 1024]
    by (simp_all add: demo_conn_def makeConn_def FTcpConnection_new_def on_event_frame) (simp add: fb_room_def FBuffer_new_def)
  have o: "fb_wf (s_outBuffer (FSSLHelper_new []))" "readable (s_outBuffer (FSSLHelper_new [])) = []"
      "fb_room (s_outBuffer (FSSLHelper_new [])) (length (concat [''hi'']))"
    using new_wf [of 128] by (simp_all add: FSSLHelper_new_def) (simp add: fb_room_def FBuffer_new_def)
  have d: "delivers plain_tls ''hi'' [''hi''] Ssl_want []"
    by (rule delivers_more) (auto simp: plain_tls_def read_size_def intro: delivers_stop)
  from tls_read_delivers [OF _ _ _ wf(1,3) _ _ d _ o(1,3), of "\<lambda>d. Accepted (length d)" "\<lambda>c h. Some (None, c, h, [])" False]
  show ?thesis using wf(2) o(2) by (auto simp: plain_tls_def FSSLHelper_new_def demo_conn_facts)
qed

text \<open>What happens to a connection and its helper: every operation that works on the helper.\<close>

inductive tls_reach :: "'s tls_lib \<Rightarrow> 'u tcp_conn \<times> 's ssl_helper \<Rightarrow> 'u tcp_conn \<times> 's ssl_helper \<Rightarrow> bool" for E where
  reach_start: "tls_reach E z z"
| reach_send: "tls_reach E z (c, h1) \<Longrightarrow> tls_send E krnl c h1 data = Some (c', h2, acts) \<Longrightarrow> tls_reach E z (c', h2)"
| reach_hands: "tls_reach E z (c, h1) \<Longrightarrow> shakeHand E krnl c h1 reader = Some (fin, c', h2, b, acts) \<Longrightarrow>
    tls_reach E z (c', h2)"
| reach_recv: "tls_reach E z (c, h1) \<Longrightarrow> DecryptRecvingData E h1 reader = Some (r, h2, b) \<Longrightarrow> tls_reach E z (c, h2)"
| reach_ask: "tls_reach E z (c, h1) \<Longrightarrow> isHttp2 E h1 = (x, h2) \<Longrightarrow> tls_reach E z (c, h2)"

lemma flags_stay:
  "tls_reach E z z' \<Longrightarrow> mProtocalHasSelected (snd z) \<Longrightarrow> alpn_flags (snd z') = alpn_flags (snd z)"
proof (induction rule: tls_reach.induct)
  case (reach_send z c h1 krnl data c' h2 acts)
  then show ?case using tls_send_flags [OF reach_send.hyps(2)] by simp
next
  case (reach_hands z c h1 krnl reader fin c' h2 b acts)
  then show ?case using shakeHand_flags [OF reach_hands.hyps(2)] by simp
next
  case (reach_recv z c h1 reader r h2 b)
  then show ?case using Decrypt_flags [OF reach_recv.hyps(2)] by simp
next
  case (reach_ask z c h1 x h2)
  then show ?case by (auto simp: isHttp2_def)
qed simp

text \<open>
  The first answer to \<open>isHttp2\<close> is the last: it is whether ALPN has selected h2 by then, and
  whatever the connection does afterwards, the handshake included, the answer stays. A connection
  that is asked before the handshake has selected a protocol (its idle timer asks) is served as
  HTTP/1 for ever.
\<close>
theorem h2_answer_is_final:
  assumes "isHttp2 E h = (x, h1)" "tls_reach E (c, h1) (c', h')"
  shows "fst (isHttp2 E h') = x
    \<and> (\<not> mProtocalHasSelected h \<longrightarrow> \<not> mIsH2 h \<longrightarrow> x = (SSL_get0_alpn_selected E (sslHandler h) = Some ''h2''))"
proof -
  have h1: "mProtocalHasSelected h1" "mIsH2 h1 = x"
    using assms(1) by (auto simp: isHttp2_def Let_def split: if_splits)
  have "alpn_flags h' = alpn_flags h1" using flags_stay [OF assms(2)] h1(1) by simp
  with h1 assms(1) show ?thesis by (auto simp: isHttp2_def Let_def split: if_splits)
qed

theorem h2_answer_is_final_witness:
  "\<exists>h1 h'. isHttp2 plain_tls (FSSLHelper_new []) = (False, h1)
     \<and> DecryptRecvingData plain_tls h1 (FBuffer_new 8) = Some (Inr (), h', FBuffer_new 8) \<and> \<not> fst (isHttp2 plain_tls h')"
proof -
  let ?h1 = "(FSSLHelper_new [])\<lparr>mProtocalHasSelected := True\<rparr>"
  have a: "isHttp2 plain_tls (FSSLHelper_new []) = (False, ?h1)"
    by (simp add: isHttp2_def FSSLHelper_new_def plain_tls_def)
  have b: "DecryptRecvingData plain_tls ?h1 (FBuffer_new 8) = Some (Inr (), ?h1, FBuffer_new 8)"
    by (simp add: DecryptRecvingData_def hasShakeHandFin_def FSSLHelper_new_def plain_tls_def rd_peekAll_def getReadableSize_def
        FBuffer_new_def decrypt_loop.simps)
  from h2_answer_is_final [OF a reach_recv [OF reach_start b, of demo_conn]] a b show ?thesis by auto
qed

end
