(* ===== verification/FDatabase.thy ===== *)
theory FDatabase
  imports FDao FLogger
begin

text \<open>
  The wrapper around SQLite (\<open>Server/src/DAO/DataBaseOperation.cpp\<close>, \<open>.h\<close>): reading a result step by step,
  executing an update, and the statements that a thread prepares, keeps and finalises, with the
  \<open>Query::exec\<close> and \<open>Query::getVector\<close> of \<open>Server/src/DAO/ORM.h\<close> on top. \<open>FDao\<close> takes a query as one call that
  gives all rows; here it is the loop over \<open>sqlite3_step\<close> that the code runs. SQLite is the argument: a
  record of functions on the state \<open>'s\<close> of one prepared statement (and its database).
\<close>

section \<open>Types of columns\<close>

datatype DataType = DT_NULL | DT_INT | DT_FLOAT | DT_TEXT | DT_BLOB

datatype sqlite_type = SQLITE_INTEGER | SQLITE_FLOAT | SQLITE_TEXT | SQLITE_BLOB | SQLITE_NULL | Sqlite_other int

fun toSqlite3Type :: "DataType \<Rightarrow> sqlite_type" where
  "toSqlite3Type DT_NULL = SQLITE_NULL"
| "toSqlite3Type DT_INT = SQLITE_INTEGER"
| "toSqlite3Type DT_FLOAT = SQLITE_FLOAT"
| "toSqlite3Type DT_TEXT = SQLITE_TEXT"
| "toSqlite3Type DT_BLOB = SQLITE_BLOB"

fun toBlogType :: "sqlite_type \<Rightarrow> DataType" where
  "toBlogType SQLITE_INTEGER = DT_INT"
| "toBlogType SQLITE_FLOAT = DT_FLOAT"
| "toBlogType SQLITE_TEXT = DT_TEXT"
| "toBlogType SQLITE_NULL = DT_NULL"
| "toBlogType SQLITE_BLOB = DT_BLOB"
| "toBlogType (Sqlite_other _) = DT_TEXT"

section \<open>A result\<close>

datatype sqlite_code = SQLITE_ROW | SQLITE_DONE | SQLITE_failure int

record 's sqlite_lib =
  sqlite3_step :: "'s \<Rightarrow> sqlite_code \<times> 's"
  sqlite3_column :: "'s \<Rightarrow> nat \<Rightarrow> column"
  sqlite3_errmsg :: "'s \<Rightarrow> string"

text \<open>\<open>DBResult\<close>: the number of columns, the reason of the last failure, and whether the thread's clean-up
  owns the statement. \<open>mData\<close> is the statement, kept beside it.\<close>

record db_result =
  r_cols :: nat
  errReason :: "string option"
  mIsAutoCleaned :: bool

definition DBResult_new :: "nat \<Rightarrow> db_result" where
  "DBResult_new n = \<lparr>r_cols = n, errReason = None, mIsAutoCleaned = False\<rparr>"

definition innerCheck :: "db_result \<Rightarrow> nat \<Rightarrow> col_error option" where
  "innerCheck r col = (if r_cols r \<le> col then Some ColOutofRange else None)"

definition getString :: "'s sqlite_lib \<Rightarrow> 's \<Rightarrow> db_result \<Rightarrow> nat \<Rightarrow> col_error + string option" where
  "getString Q s r col =
     (case innerCheck r col of Some e \<Rightarrow> Inl e | None \<Rightarrow> Inr (snd (sqlite3_column Q s col)))"

definition getInteger :: "'s sqlite_lib \<Rightarrow> 's \<Rightarrow> db_result \<Rightarrow> nat \<Rightarrow> col_error + i32" where
  "getInteger Q s r col =
     (case innerCheck r col of Some e \<Rightarrow> Inl e | None \<Rightarrow> Inr (col_i32 (sqlite3_column Q s col)))"

definition getInteger64 :: "'s sqlite_lib \<Rightarrow> 's \<Rightarrow> db_result \<Rightarrow> nat \<Rightarrow> col_error + u64" where
  "getInteger64 Q s r col =
     (case innerCheck r col of Some e \<Rightarrow> Inl e | None \<Rightarrow> Inr (col_u64 (sqlite3_column Q s col)))"

definition DBResult_step :: "'s sqlite_lib \<Rightarrow> 's \<Rightarrow> db_result \<Rightarrow> bool \<times> 's \<times> db_result" where
  "DBResult_step Q s r =
     (let (res, s') = sqlite3_step Q s
      in case res of
           SQLITE_ROW \<Rightarrow> (True, s', r)
         | SQLITE_DONE \<Rightarrow> (False, s', r)
         | SQLITE_failure _ \<Rightarrow> (False, s', r\<lparr>errReason := Some (sqlite3_errmsg Q s')\<rparr>))"

text \<open>The loop of \<open>excute\<close>, which ends at the first step that gives no row, and \<open>excute\<close>: a first step that
  fails is followed by another one.\<close>

partial_function (option) excute_loop :: "'s sqlite_lib \<Rightarrow> 's \<Rightarrow> (sqlite_code \<times> 's) option" where
  "excute_loop Q s =
     (case sqlite3_step Q s of
        (t, s') \<Rightarrow> if t \<noteq> SQLITE_ROW then Some (t, s') else excute_loop Q s')"

definition excute :: "'s sqlite_lib \<Rightarrow> 's \<Rightarrow> db_result \<Rightarrow> (bool \<times> 's \<times> db_result) option" where
  "excute Q s r =
     (let (first, s1) = sqlite3_step Q s
      in case (if first = SQLITE_DONE then Some (first, s1) else excute_loop Q s1) of
           None \<Rightarrow> None
         | Some (ret, s2) \<Rightarrow>
             Some (if ret = SQLITE_DONE then (True, s2, r)
                   else (False, s2, r\<lparr>errReason := Some (sqlite3_errmsg Q s2)\<rparr>)))"

text \<open>\<open>Query::getVector\<close>; \<open>dec\<close> is \<open>ToEntity\<close> on the columns of the current row. An exception leaves the
  loop.\<close>

definition current_row :: "'s sqlite_lib \<Rightarrow> 's \<Rightarrow> db_result \<Rightarrow> column list" where
  "current_row Q s r = map (sqlite3_column Q s) [0..<r_cols r]"

partial_function (option) getVector_loop :: "'s sqlite_lib \<Rightarrow> (column list \<Rightarrow> col_error + 'a) \<Rightarrow> 'a list \<Rightarrow> 's \<Rightarrow>
    db_result \<Rightarrow> ((col_error + 'a list) \<times> 's \<times> db_result) option" where
  "getVector_loop Q dec ret s r =
     (case DBResult_step Q s r of
        (stepped, s', r') \<Rightarrow>
          if stepped
          then (case dec (current_row Q s' r') of
                  Inl e \<Rightarrow> Some (Inl e, s', r')
                | Inr v \<Rightarrow> getVector_loop Q dec (ret @ [v]) s' r')
          else Some (Inr ret, s', r'))"

section \<open>Bindings\<close>

text \<open>\<open>_bind\<close> numbers the arguments from 1; \<open>ReExec\<close> clears the bindings of the statement, resets it and
  binds anew. A parameter that is not bound is NULL.\<close>

fun bind_from :: "nat \<Rightarrow> sql_bind list \<Rightarrow> (nat \<rightharpoonup> sql_bind) \<Rightarrow> (nat \<rightharpoonup> sql_bind)" where
  "bind_from i [] m = m"
| "bind_from i (v # vs) m = bind_from (i + 1) vs (m(i \<mapsto> v))"

definition ReExec_bind :: "sql_bind list \<Rightarrow> (nat \<rightharpoonup> sql_bind) \<Rightarrow> (nat \<rightharpoonup> sql_bind)" where
  "ReExec_bind args m = bind_from 1 args Map.empty"

section \<open>The statements of a thread\<close>

text \<open>A thread's connection, its list of statements to clear, and a record of which prepared statements
  are open and which have been finalised. \<open>t_callback\<close>: its event loop holds the clean-up callback.\<close>

record db_thread =
  t_in_loop :: bool
  t_db :: bool
  sHasAddedThreadClean :: bool
  t_callback :: bool
  t_cleaned :: bool
  t_next :: nat
  t_open :: "nat list"
  stmtToClearPostThread :: "nat option list"
  t_final :: "nat list"

definition db_thread_new :: "bool \<Rightarrow> db_thread" where
  "db_thread_new in_loop = \<lparr>t_in_loop = in_loop, t_db = False, sHasAddedThreadClean = False, t_callback = False,
     t_cleaned = False, t_next = 0, t_open = [], stmtToClearPostThread = [], t_final = []\<rparr>"

text \<open>\<open>CurThreadCleanCallback\<close> drops the callback on a thread that has no event loop. A database that
  cannot be opened is a critical message: None is the process aborted by it. \<open>sqlite3_open_v2\<close> stores a
  handle in both cases.\<close>

definition makeConThreadLocal :: "logger \<Rightarrow> bool \<Rightarrow> db_thread \<Rightarrow> db_thread option" where
  "makeConThreadLocal lg opened w =
     (if t_db w then Some w
      else if \<not> opened \<and> critical_aborts lg then None
      else Some (w\<lparr>t_db := True, sHasAddedThreadClean := True,
             t_callback := t_callback w \<or> \<not> sHasAddedThreadClean w \<and> t_in_loop w\<rparr>))"

definition getDbConn :: "logger \<Rightarrow> bool \<Rightarrow> db_thread \<Rightarrow> db_thread option" where
  "getDbConn lg opened w = (if t_db w then Some w else makeConThreadLocal lg opened w)"

text \<open>\<open>prepare\<close>: \<open>ok\<close> says whether SQLite accepts the text; otherwise the message is critical too, and where
  that does not abort the statement is null.\<close>

definition db_prepare :: "logger \<Rightarrow> bool \<Rightarrow> bool \<Rightarrow> db_thread \<Rightarrow> (nat option \<times> db_thread) option" where
  "db_prepare lg opened ok w =
     (case getDbConn lg opened w of
        None \<Rightarrow> None
      | Some w1 \<Rightarrow>
          if ok then Some (Some (t_next w1), w1\<lparr>t_next := t_next w1 + 1, t_open := t_next w1 # t_open w1\<rparr>)
          else if critical_aborts lg then None
          else Some (None, w1))"

fun sqlite3_finalize :: "nat option \<Rightarrow> db_thread \<Rightarrow> db_thread" where
  "sqlite3_finalize None w = w"
| "sqlite3_finalize (Some i) w = w\<lparr>t_open := remove1 i (t_open w), t_final := t_final w @ [i]\<rparr>"

text \<open>A query's result: its statement and whether the clean-up owns it.\<close>

type_synonym query_result = "nat option \<times> bool"

definition addThreadCleanDBData :: "query_result \<Rightarrow> db_thread \<Rightarrow> query_result \<times> db_thread" where
  "addThreadCleanDBData r w =
     ((fst r, True), w\<lparr>stmtToClearPostThread := stmtToClearPostThread w @ [fst r]\<rparr>)"

text \<open>\<open>Query::exec\<close>: a query that has a result runs its statement again.\<close>

definition Query_exec :: "logger \<Rightarrow> bool \<Rightarrow> bool \<Rightarrow> bool \<Rightarrow> query_result option \<Rightarrow> db_thread \<Rightarrow>
    (query_result \<times> db_thread) option" where
  "Query_exec lg opened ok static res w =
     (case res of
        Some r \<Rightarrow> Some (r, w)
      | None \<Rightarrow>
          (case db_prepare lg opened ok w of
             None \<Rightarrow> None
           | Some (st, w1) \<Rightarrow> Some (if static then addThreadCleanDBData (st, False) w1 else ((st, False), w1))))"

definition DBResult_destroy :: "query_result \<Rightarrow> db_thread \<Rightarrow> db_thread" where
  "DBResult_destroy r w = (if snd r then w else sqlite3_finalize (fst r) w)"

text \<open>The callback at the end of the loop; \<open>_db\<close> is closed and keeps its value.\<close>

definition thread_clean :: "db_thread \<Rightarrow> db_thread" where
  "thread_clean w =
     (if t_callback w
      then (fold sqlite3_finalize (stmtToClearPostThread w) w)\<lparr>stmtToClearPostThread := [], t_cleaned := True\<rparr>
      else w)"

section \<open>Lemmas\<close>

lemma type_round_trip: "toBlogType (toSqlite3Type t) = t"
  by (cases t) simp_all

text \<open>An execution of the statement from \<open>s\<close>: the rows it gives, how it ends and where.\<close>

inductive runs :: "'s sqlite_lib \<Rightarrow> nat \<Rightarrow> 's \<Rightarrow> column list list \<Rightarrow> sqlite_code \<Rightarrow> 's \<Rightarrow> bool" for Q n where
  runs_end: "sqlite3_step Q s = (code, s') \<Longrightarrow> code \<noteq> SQLITE_ROW \<Longrightarrow> runs Q n s [] code s'"
| runs_row: "sqlite3_step Q s = (SQLITE_ROW, s1) \<Longrightarrow> runs Q n s1 rows code s' \<Longrightarrow>
    runs Q n s (map (sqlite3_column Q s1) [0..<n] # rows) code s'"

inductive_cases runs_NilE: "runs Q n s [] code s'"
inductive_cases runs_ConsE: "runs Q n s (row # rows) code s'"

lemma excute_loop_runs: "runs Q n s rows code s' \<Longrightarrow> excute_loop Q s = Some (code, s')"
  by (induction rule: runs.induct) (simp_all add: excute_loop.simps)

lemma runs_not_row: "runs Q n s rows code s' \<Longrightarrow> code \<noteq> SQLITE_ROW"
  by (induction rule: runs.induct) simp_all

text \<open>The loop of \<open>getVector\<close> over an execution is \<open>FDao.getVector\<close> on its rows.\<close>

definition failed_with :: "'s sqlite_lib \<Rightarrow> sqlite_code \<Rightarrow> 's \<Rightarrow> db_result \<Rightarrow> db_result" where
  "failed_with Q code s r = (if code = SQLITE_DONE then r else r\<lparr>errReason := Some (sqlite3_errmsg Q s)\<rparr>)"

lemma getVector_loop_runs:
  "runs Q n s rows code s' \<Longrightarrow> n = r_cols r \<Longrightarrow>
   \<exists>s1 r1. getVector_loop Q dec ret s r = Some (map_sum id (\<lambda>vs. ret @ vs) (getVector dec rows), s1, r1)
     \<and> ((\<exists>vs. getVector dec rows = Inr vs) \<longrightarrow> s1 = s' \<and> r1 = failed_with Q code s' r)"
proof (induction arbitrary: ret rule: runs.induct)
  case (runs_end s code s')
  then show ?case
    by (cases code) (simp_all add: getVector_loop.simps [of Q dec ret s r] DBResult_step_def failed_with_def)
next
  case (runs_row s s1 rows code s')
  then show ?case
    by (auto simp: getVector_loop.simps [of Q dec ret s r] DBResult_step_def current_row_def
        split: sum.splits)
qed

lemma bind_from_other: "j < i \<Longrightarrow> bind_from i vs m j = m j"
  by (induction i vs m rule: bind_from.induct) auto

lemma bind_from_nth: "k < length vs \<Longrightarrow> bind_from i vs m (i + k) = Some (vs ! k)"
proof (induction i vs m arbitrary: k rule: bind_from.induct)
  case (2 i v vs m)
  show ?case
  proof (cases k)
    case 0
    then show ?thesis by (simp add: bind_from_other)
  next
    case (Suc k')
    then show ?thesis using "2.IH" [of k'] "2.prems" by (simp add: fun_upd_def)
  qed
qed simp

lemma bind_from_beyond: "i + length vs \<le> j \<Longrightarrow> bind_from i vs m j = m j"
  by (induction i vs m rule: bind_from.induct) auto
section \<open>Properties\<close>

text \<open>
  C18. The loop over the steps gives what the data access objects take a query for: for an execution
  with the given rows, \<open>getVector\<close> is the decoding of exactly these rows in order, or the exception of
  the first row that does not decode. An execution that ends with a failure gives its rows as if they
  were all of them; the failure is only noted in the result's reason.
\<close>
theorem getVector_refines:
  assumes "runs Q (r_cols r) s rows code s'"
  shows "\<exists>s1 r1. getVector_loop Q dec [] s r = Some (getVector dec rows, s1, r1)
    \<and> ((\<exists>vs. getVector dec rows = Inr vs) \<longrightarrow>
         s1 = s' \<and> (errReason r1 = errReason r \<longleftrightarrow> code = SQLITE_DONE \<or> errReason r = Some (sqlite3_errmsg Q s')))"
proof -
  have id: "map_sum id (\<lambda>vs. [] @ vs) x = x" for x :: "col_error + 'c list" by (cases x) simp_all
  show ?thesis
    using getVector_loop_runs [OF assms refl, of dec "[]"]
    by (auto simp: id [simplified] failed_with_def)
qed

text \<open>A statement whose state is the current row, the rows it has still to give and what it ends with.\<close>

definition list_sqlite :: "(column list \<times> column list list \<times> sqlite_code) sqlite_lib" where
  "list_sqlite = \<lparr>sqlite3_step = (\<lambda>(cur, rows, code). case rows of [] \<Rightarrow> (code, [], [], SQLITE_DONE)
       | row # rest \<Rightarrow> (SQLITE_ROW, row, rest, code)),
     sqlite3_column = (\<lambda>(cur, _) i. cur ! i), sqlite3_errmsg = (\<lambda>_. ''busy'')\<rparr>"

theorem getVector_refines_witness:
  "\<exists>s1 r1. getVector_loop list_sqlite (ToEntity [KText]) [] ([], [[(7, Some ''a'')]], SQLITE_failure 5) (DBResult_new 1)
     = Some (Inr [[Str ''a'']], s1, r1) \<and> errReason r1 \<noteq> None"
proof -
  let ?s = "([], [[(7, Some ''a'')]], SQLITE_failure 5)" and ?s1 = "([(7, Some ''a'')], [], SQLITE_failure 5)"
  have "runs list_sqlite (r_cols (DBResult_new 1)) ?s
      (map (sqlite3_column list_sqlite ?s1) [0..<r_cols (DBResult_new 1)] # []) (SQLITE_failure 5) ([], [], SQLITE_DONE)"
    by (rule runs_row) (auto simp: list_sqlite_def intro: runs_end)
  then have r: "runs list_sqlite (r_cols (DBResult_new 1)) ?s [[(7, Some ''a'')]] (SQLITE_failure 5) ([], [], SQLITE_DONE)"
    by (simp add: list_sqlite_def DBResult_new_def)
  have "getVector (ToEntity [KText]) [[(7, Some ''a'')]] = Inr [[Str ''a'']]" by (simp add: col_str_def)
  with getVector_refines [OF r, of "ToEntity [KText]"] show ?thesis
    by (simp only: DBResult_new_def) (auto simp: list_sqlite_def)
qed

text \<open>
  An update runs once, or twice: when the execution gives no row and ends well, or gives rows,
  that execution is the outcome; when its first step fails, the statement is run again from there, and
  only the second execution decides.
\<close>
theorem excute_retries_once:
  assumes "runs Q n s rows code s1" "rows = [] \<Longrightarrow> code \<noteq> SQLITE_DONE \<Longrightarrow> runs Q n s1 rows2 code2 s2"
  shows "\<exists>r'. excute Q s r =
     (if rows = [] \<and> code \<noteq> SQLITE_DONE then Some (code2 = SQLITE_DONE, s2, r')
      else Some (code = SQLITE_DONE, s1, r'))
    \<and> (fst (the (excute Q s r)) \<longrightarrow> r' = r)"
proof (cases rows)
  case Nil
  then have "sqlite3_step Q s = (code, s1)" using assms(1) by (auto elim: runs_NilE)
  then show ?thesis
    using Nil assms(2) by (cases "code = SQLITE_DONE") (auto simp: excute_def dest!: excute_loop_runs)
next
  case (Cons row rest)
  then obtain s0 where "sqlite3_step Q s = (SQLITE_ROW, s0)" "runs Q n s0 rest code s1"
    using assms(1) by (auto elim: runs_ConsE)
  then show ?thesis using Cons excute_loop_runs [of Q n s0 rest code s1] by (simp add: excute_def)
qed

text \<open>A database that is busy the first time.\<close>

definition busy_once :: "nat sqlite_lib" where
  "busy_once = \<lparr>sqlite3_step = (\<lambda>k. (if k = 0 then SQLITE_failure 5 else SQLITE_DONE, k + 1)),
     sqlite3_column = (\<lambda>_ _. (0, None)), sqlite3_errmsg = (\<lambda>_. ''busy'')\<rparr>"

theorem excute_retries_once_witness:
  "\<exists>r'. excute busy_once 0 (DBResult_new 0) = Some (True, 2, r')"
proof -
  have a: "runs busy_once 0 0 [] (SQLITE_failure 5) 1" and b: "runs busy_once 0 1 [] SQLITE_DONE 2"
    by (rule runs_end; simp add: busy_once_def)+
  from excute_retries_once [OF a b, of "DBResult_new 0"] show ?thesis by auto
qed

text \<open>
  Running a kept statement again sees the new arguments and nothing of the old ones: parameter
  \<open>i\<close> is the \<open>i\<close>-th argument, and a parameter without an argument is NULL, whatever was bound before.
\<close>
theorem ReExec_binds_afresh:
  "ReExec_bind args m i = (if 1 \<le> i \<and> i \<le> length args then Some (args ! (i - 1)) else None)"
  using bind_from_nth [of "i - 1" args 1 Map.empty] bind_from_other [of i 1 args Map.empty]
    bind_from_beyond [of 1 args i Map.empty]
  by (cases i) (auto simp: ReExec_bind_def)

text \<open>What the queries of a thread do: run (for the first time, or again), go away with their result, and
  at the end of the loop the clean-up. A query is static or not for good.\<close>

inductive db_reach :: "bool \<Rightarrow> (nat \<Rightarrow> bool) \<Rightarrow> db_thread \<times> (nat \<Rightarrow> query_result option) \<Rightarrow> bool" for in_loop static where
  db_start: "db_reach in_loop static (db_thread_new in_loop, Map.empty)"
| db_exec: "db_reach in_loop static (w, qs) \<Longrightarrow> \<not> t_cleaned w \<Longrightarrow> Query_exec lg opened ok (static q) (qs q) w = Some (r, w') \<Longrightarrow>
    db_reach in_loop static (w', qs(q \<mapsto> r))"
| db_drop: "db_reach in_loop static (w, qs) \<Longrightarrow> qs q = Some r \<Longrightarrow>
    db_reach in_loop static (DBResult_destroy r w, qs(q := None))"
| db_clean: "db_reach in_loop static (w, qs) \<Longrightarrow> \<not> t_cleaned w \<Longrightarrow> db_reach in_loop static (thread_clean w, qs)"

definition clear_ids :: "db_thread \<Rightarrow> nat list" where
  "clear_ids w = map the (filter (\<lambda>x. x \<noteq> None) (stmtToClearPostThread w))"

lemma clear_ids_append [simp]:
  "clear_ids (w\<lparr>stmtToClearPostThread := stmtToClearPostThread w @ [st]\<rparr>) =
     clear_ids w @ (case st of None \<Rightarrow> [] | Some i \<Rightarrow> [i])"
  by (simp add: clear_ids_def split: option.split)

lemma fold_finalize:
  "t_final (fold sqlite3_finalize xs w) = t_final w @ map the (filter (\<lambda>x. x \<noteq> None) xs)
   \<and> (distinct (t_open w) \<longrightarrow> set (t_open (fold sqlite3_finalize xs w)) = set (t_open w) - {i. Some i \<in> set xs}
        \<and> distinct (t_open (fold sqlite3_finalize xs w)))
   \<and> t_next (fold sqlite3_finalize xs w) = t_next w \<and> t_in_loop (fold sqlite3_finalize xs w) = t_in_loop w
   \<and> t_callback (fold sqlite3_finalize xs w) = t_callback w \<and> t_db (fold sqlite3_finalize xs w) = t_db w
   \<and> sHasAddedThreadClean (fold sqlite3_finalize xs w) = sHasAddedThreadClean w"
proof (induction xs arbitrary: w)
  case (Cons x xs)
  show ?case
  proof (cases x)
    case (Some i)
    then show ?thesis using Cons.IH [of "sqlite3_finalize x w"] by (auto simp: set_remove1_eq)
  qed (use Cons.IH [of w] in auto)
qed simp

text \<open>The invariant: statements are open, kept for the clean-up or finalised without overlap; a result
  that the clean-up does not own has an open statement of its own.\<close>

definition db_core :: "nat list \<Rightarrow> nat list \<Rightarrow> nat list \<Rightarrow> nat \<Rightarrow> (nat \<Rightarrow> nat \<Rightarrow> bool) \<Rightarrow> bool" where
  "db_core fin op cl n own \<longleftrightarrow>
     distinct fin \<and> distinct op \<and> set fin \<inter> set op = {} \<and> distinct cl \<and> set cl \<subseteq> set op
   \<and> (\<forall>i \<in> set op \<union> set fin. i < n)
   \<and> (\<forall>q i. own q i \<longrightarrow> i \<in> set op \<and> i \<notin> set cl)
   \<and> (\<forall>q q' i. own q i \<longrightarrow> own q' i \<longrightarrow> q = q')
   \<and> (\<forall>i \<in> set op. i \<in> set cl \<or> (\<exists>q. own q i))"

lemma db_coreD:
  assumes "db_core fin op cl n own"
  shows "distinct fin" "distinct op" "set fin \<inter> set op = {}" "distinct cl" "set cl \<subseteq> set op"
    "\<And>i. i \<in> set op \<Longrightarrow> i < n" "\<And>i. i \<in> set fin \<Longrightarrow> i < n"
    "\<And>q i. own q i \<Longrightarrow> i \<in> set op" "\<And>q i. own q i \<Longrightarrow> i \<notin> set cl"
    "\<And>q q' i. own q i \<Longrightarrow> own q' i \<Longrightarrow> q = q'"
    "\<And>i. i \<in> set op \<Longrightarrow> i \<notin> set cl \<Longrightarrow> \<exists>q. own q i"
  using assms unfolding db_core_def by (simp_all only:) blast+

lemma db_coreI:
  assumes "distinct fin" "distinct op" "set fin \<inter> set op = {}" "distinct cl" "set cl \<subseteq> set op"
    "\<And>i. i \<in> set op \<Longrightarrow> i < n" "\<And>i. i \<in> set fin \<Longrightarrow> i < n"
    "\<And>q i. own q i \<Longrightarrow> i \<in> set op \<and> i \<notin> set cl"
    "\<And>q q' i. own q i \<Longrightarrow> own q' i \<Longrightarrow> q = q'"
    "\<And>i. i \<in> set op \<Longrightarrow> i \<notin> set cl \<Longrightarrow> \<exists>q. own q i"
  shows "db_core fin op cl n own"
  unfolding db_core_def using assms by blast

lemma core_static:
  assumes "db_core fin op cl n own"
  shows "db_core fin (n # op) (cl @ [n]) (n + 1) own"
proof -
  note D = db_coreD [OF assms]
  have n: "n \<notin> set op" "n \<notin> set fin" using D(6) [of n] D(7) [of n] by auto
  then have "n \<notin> set cl" using D(5) by blast
  with n D(1-5) D(8-11) show ?thesis
    by (intro db_coreI) (auto dest: D(6) D(7))
qed

lemma core_owned:
  assumes "db_core fin op cl n own" "\<And>i. \<not> own q i"
  shows "db_core fin (n # op) cl (n + 1) (\<lambda>q' i. if q' = q then i = n else own q' i)"
proof -
  note D = db_coreD [OF assms(1)]
  have n: "n \<notin> set op" "n \<notin> set fin" using D(6) [of n] D(7) [of n] by auto
  then have n': "n \<notin> set cl" "\<not> own q' n" for q' using D(5) D(8) [of q' n] by blast+
  show ?thesis
  proof (rule db_coreI)
    fix q1 q2 i assume "if q1 = q then i = n else own q1 i" "if q2 = q then i = n else own q2 i"
    then show "q1 = q2" using n'(2) D(10) [of q1 i q2] by (auto split: if_splits)
  next
    fix i assume "i \<in> set (n # op)" "i \<notin> set cl"
    then show "\<exists>q'. if q' = q then i = n else own q' i"
      using D(11) [of i] assms(2) by (cases "i = n") (auto intro: exI [of _ q], metis)
  qed (use n n' D in \<open>auto simp: less_Suc_eq split: if_splits\<close>)
qed

lemma core_drop:
  assumes "db_core fin op cl n own" "own q i" "\<And>j. own q j \<Longrightarrow> j = i"
  shows "db_core (fin @ [i]) (remove1 i op) cl n (\<lambda>q' j. q' \<noteq> q \<and> own q' j)"
proof -
  note D = db_coreD [OF assms(1)]
  have i: "i \<in> set op" "i \<notin> set cl" "i \<notin> set fin" using D(8,9) [OF assms(2)] D(3) by blast+
  have op: "set (remove1 i op) = set op - {i}" by (rule set_remove1_eq [OF D(2)])
  show ?thesis
  proof (rule db_coreI)
    fix q' j assume "q' \<noteq> q \<and> own q' j"
    then show "j \<in> set (remove1 i op) \<and> j \<notin> set cl" using op D(8,9) [of q' j] D(10) [of q' i q] assms(2) by auto
  next
    fix j assume "j \<in> set (remove1 i op)" "j \<notin> set cl"
    then obtain q' where "own q' j" "j \<noteq> i" using op D(11) [of j] by auto
    then show "\<exists>q'. q' \<noteq> q \<and> own q' j" using assms(3) [of j] by (intro exI [of _ q']) auto
  qed (use i op D in \<open>auto simp: distinct_remove1\<close>)
qed

lemma core_clean:
  assumes "db_core fin op cl n own" "set op' = set op - set cl" "distinct op'"
  shows "db_core (fin @ cl) op' [] n own"
proof -
  note D = db_coreD [OF assms(1)]
  show ?thesis by (rule db_coreI) (use D assms(2,3) in auto)
qed

definition owned :: "(nat \<Rightarrow> query_result option) \<Rightarrow> nat \<Rightarrow> nat \<Rightarrow> bool" where
  "owned qs q i \<longleftrightarrow> qs q = Some (Some i, False)"

definition db_flags :: "bool \<Rightarrow> db_thread \<Rightarrow> bool" where
  "db_flags in_loop w \<longleftrightarrow> (t_callback w \<longrightarrow> in_loop) \<and> t_in_loop w = in_loop \<and> (t_db w \<longleftrightarrow> sHasAddedThreadClean w)
     \<and> (t_db w \<longrightarrow> in_loop \<longrightarrow> t_callback w)"

definition db_inv :: "bool \<Rightarrow> db_thread \<Rightarrow> (nat \<Rightarrow> query_result option) \<Rightarrow> bool" where
  "db_inv in_loop w qs \<longleftrightarrow>
     db_core (t_final w) (t_open w) (clear_ids w) (t_next w) (owned qs) \<and> db_flags in_loop w
     \<and> (t_cleaned w \<longrightarrow> clear_ids w = [])"

lemma getDbConn_frame:
  assumes "getDbConn lg opened w = Some w'"
  shows "db_flags in_loop w \<Longrightarrow> db_flags in_loop w'"
    "t_next w' = t_next w" "t_open w' = t_open w" "t_final w' = t_final w"
    "stmtToClearPostThread w' = stmtToClearPostThread w" "t_cleaned w' = t_cleaned w"
proof -
  have w': "w' = (if t_db w then w else w\<lparr>t_db := True, sHasAddedThreadClean := True,
      t_callback := t_callback w \<or> \<not> sHasAddedThreadClean w \<and> t_in_loop w\<rparr>)"
    using assms by (simp add: getDbConn_def makeConThreadLocal_def split: if_splits)
  show "db_flags in_loop w'" if "db_flags in_loop w"
    using that by (cases "t_db w"; cases in_loop) (simp_all add: w' db_flags_def)
qed (use assms in \<open>auto simp: getDbConn_def makeConThreadLocal_def split: if_splits\<close>)

lemma exec_inv:
  assumes "db_inv in_loop w qs" "\<not> t_cleaned w" "Query_exec lg opened ok static (qs q) w = Some (r, w')"
  shows "db_inv in_loop w' (qs(q \<mapsto> r))"
proof (cases "qs q")
  case (Some r0)
  with assms have "w' = w" "qs(q \<mapsto> r) = qs" by (auto simp: Query_exec_def)
  with assms(1) show ?thesis by simp
next
  case None
  then obtain w2 where w2: "getDbConn lg opened w = Some w2"
    using assms(3) by (auto simp: Query_exec_def db_prepare_def split: option.splits)
  let ?n = "t_next w"
  note G = getDbConn_frame(2-6) [OF w2]
  have C: "db_core (t_final w) (t_open w) (clear_ids w) ?n (owned qs)" and F: "db_flags in_loop w2"
    using assms(1) getDbConn_frame(1) [OF w2] by (simp_all add: db_inv_def)
  have no: "\<not> owned qs q i" for i using None by (simp add: owned_def)
  have same: "owned (qs(q \<mapsto> (st, True))) = owned qs" "owned (qs(q \<mapsto> (None, b))) = owned qs" for st b
    using no by (auto simp: owned_def fun_eq_iff)
  have mine: "owned (qs(q \<mapsto> (Some i, False))) = (\<lambda>q' j. if q' = q then j = i else owned qs q' j)" for i
    by (auto simp: owned_def fun_eq_iff)
  show ?thesis
  proof (cases ok)
    case True
    define w1 where "w1 = w2\<lparr>t_next := ?n + 1, t_open := ?n # t_open w\<rparr>"
    have w1: "clear_ids w1 = clear_ids w" "db_flags in_loop w1" "\<not> t_cleaned w1"
        "t_final w1 = t_final w" "t_open w1 = ?n # t_open w" "t_next w1 = ?n + 1"
      using F assms(2) by (simp_all add: w1_def clear_ids_def G db_flags_def)
    have res: "(r, w') = (if static then ((Some ?n, True), w1\<lparr>stmtToClearPostThread := stmtToClearPostThread w1 @ [Some ?n]\<rparr>)
        else ((Some ?n, False), w1))"
      using assms(3) None True w2
      by (cases static) (auto simp: Query_exec_def db_prepare_def addThreadCleanDBData_def w1_def G)
    show ?thesis
    proof (cases static)
      case True
      with res have "db_core (t_final w') (t_open w') (clear_ids w') (t_next w') (owned (qs(q \<mapsto> r)))"
        using core_static [OF C] same w1 by simp
      with res True w1 show ?thesis by (simp add: db_inv_def db_flags_def)
    next
      case False
      with res have "db_core (t_final w') (t_open w') (clear_ids w') (t_next w') (owned (qs(q \<mapsto> r)))"
        using core_owned [OF C no] mine w1 by simp
      with res False w1 show ?thesis by (simp add: db_inv_def)
    qed
  next
    case False
    then have "(r, w') = (if static then ((None, True), w2\<lparr>stmtToClearPostThread := stmtToClearPostThread w2 @ [None]\<rparr>)
        else ((None, False), w2))"
      using assms(3) None w2
      by (cases static) (auto simp: Query_exec_def db_prepare_def addThreadCleanDBData_def split: if_splits)
    then show ?thesis
      using C F assms(2) same by (simp add: db_inv_def db_flags_def clear_ids_def G split: if_splits)
  qed
qed

lemma drop_inv:
  assumes "db_inv in_loop w qs" "qs q = Some r"
  shows "db_inv in_loop (DBResult_destroy r w) (qs(q := None))"
proof -
  obtain st a where r: "r = (st, a)" by force
  have own: "owned (qs(q := None)) = (\<lambda>q' i. q' \<noteq> q \<and> owned qs q' i)" by (auto simp: owned_def fun_eq_iff)
  show ?thesis
  proof (cases "\<not> a \<and> st \<noteq> None")
    case True
    then obtain i where i: "owned qs q i" "st = Some i" using assms(2) r by (auto simp: owned_def)
    have w': "DBResult_destroy r w = w\<lparr>t_open := remove1 i (t_open w), t_final := t_final w @ [i]\<rparr>"
      using True i(2) r by (simp add: DBResult_destroy_def)
    have "owned qs q j \<Longrightarrow> j = i" for j using i(1) by (auto simp: owned_def)
    then have "db_core (t_final w @ [i]) (remove1 i (t_open w)) (clear_ids w) (t_next w) (\<lambda>q' j. q' \<noteq> q \<and> owned qs q' j)"
      using core_drop [of "t_final w" _ _ _ "owned qs", OF _ i(1)] assms(1) by (simp add: db_inv_def)
    then show ?thesis using assms(1) by (simp add: w' own db_inv_def db_flags_def clear_ids_def)
  next
    case False
    then have w': "DBResult_destroy r w = w" using r by (cases st) (auto simp: DBResult_destroy_def)
    have "\<not> owned qs q i" for i using False assms(2) r by (auto simp: owned_def)
    then have "owned (qs(q := None)) = owned qs" unfolding own by (auto simp: fun_eq_iff)
    then show ?thesis using assms(1) unfolding w' by (simp add: db_inv_def)
  qed
qed

lemma clean_inv:
  assumes "db_inv in_loop w qs"
  shows "db_inv in_loop (thread_clean w) qs"
proof (cases "t_callback w")
  case True
  let ?f = "fold sqlite3_finalize (stmtToClearPostThread w) w"
  note F = fold_finalize [of "stmtToClearPostThread w" w]
  have mem: "{i. Some i \<in> set (stmtToClearPostThread w)} = set (clear_ids w)" by (force simp: clear_ids_def)
  have C: "db_core (t_final w) (t_open w) (clear_ids w) (t_next w) (owned qs)" and fl: "db_flags in_loop w"
    using assms by (simp_all add: db_inv_def)
  have d: "distinct (t_open w)" using C by (simp add: db_core_def)
  have "db_core (t_final w @ clear_ids w) (t_open ?f) [] (t_next w) (owned qs)"
    using core_clean [OF C] F d by (simp add: mem)
  moreover have "t_final ?f = t_final w @ clear_ids w" "t_next ?f = t_next w" using F by (simp_all add: clear_ids_def)
  ultimately show ?thesis
    using True fl F by (simp add: thread_clean_def db_inv_def db_flags_def clear_ids_def)
next
  case False
  then show ?thesis using assms by (simp add: thread_clean_def)
qed

lemma db_reach_inv: "db_reach in_loop static (w, qs) \<Longrightarrow> db_inv in_loop w qs"
proof (induction "(w, qs)" arbitrary: w qs rule: db_reach.induct)
  case db_start
  show ?case by (simp add: db_inv_def db_core_def db_flags_def db_thread_new_def clear_ids_def owned_def)
next
  case (db_exec w qs ok q r w')
  then show ?case by (intro exec_inv)
next
  case (db_drop w qs q r)
  then show ?case by (intro drop_inv)
next
  case (db_clean w qs)
  then show ?case by (intro clean_inv)
qed

text \<open>
  C29. Statements are finalised once: in every history of a thread's queries no statement is finalised
  twice or while it is counted as open. On the thread of an event loop, once the clean-up has run,
  what is still open belongs to a result that is still there; on any other thread (the start-up
  thread, the image pool) the clean-up never runs and every static statement stays open.
\<close>
theorem statements_finalised_once:
  assumes "db_reach in_loop static (w, qs)"
  shows "distinct (t_final w) \<and> set (t_final w) \<inter> set (t_open w) = {}
    \<and> (t_cleaned w \<longrightarrow> (\<forall>i \<in> set (t_open w). \<exists>q. qs q = Some (Some i, False)))
    \<and> (in_loop \<longrightarrow> t_db w \<longrightarrow> \<not> t_cleaned w \<longrightarrow> t_cleaned (thread_clean w))
    \<and> (\<not> in_loop \<longrightarrow> \<not> t_cleaned (thread_clean w) \<or> t_cleaned w)
    \<and> (\<not> in_loop \<longrightarrow> (\<forall>i. Some i \<in> set (stmtToClearPostThread w) \<longrightarrow> i \<in> set (t_open w)))"
proof -
  have inv: "db_inv in_loop w qs" by (rule db_reach_inv [OF assms])
  have mem: "Some i \<in> set (stmtToClearPostThread w) \<Longrightarrow> i \<in> set (clear_ids w)" for i
    by (force simp: clear_ids_def)
  have cb: "t_callback w \<longrightarrow> in_loop" "t_db w \<longrightarrow> in_loop \<longrightarrow> t_callback w" using inv by (simp_all add: db_inv_def db_flags_def)
  show ?thesis
    using inv mem cb unfolding db_inv_def db_core_def owned_def by (auto simp: thread_clean_def)
qed
text \<open>A static and a plain query on a loop's thread, the plain one gone, and the end of the loop.\<close>

definition demo_thread :: db_thread where
  "demo_thread = (db_thread_new True)\<lparr>t_db := True, sHasAddedThreadClean := True, t_callback := True, t_next := 2,
     t_open := [1, 0], stmtToClearPostThread := [Some 0]\<rparr>"

lemma demo_thread_reached: "db_reach True (\<lambda>q. q = 0) (demo_thread, [0 \<mapsto> (Some 0, True), 1 \<mapsto> (Some 1, False)])"
proof -
  note defs = db_thread_new_def Query_exec_def db_prepare_def getDbConn_def makeConThreadLocal_def addThreadCleanDBData_def
  let ?lg = "Logger_new LoggerConfig_default"
  let ?w1 = "snd (the (Query_exec ?lg True True True None (db_thread_new True)))"
  have "db_reach True (\<lambda>q. q = 0) (?w1, [0 \<mapsto> (Some 0, True)])"
    by (rule db_exec [where lg = ?lg and opened = True and ok = True and q = 0, OF db_start]) (simp_all add: defs)
  from db_exec [where lg = ?lg and opened = True and ok = True and q = 1 and r = "(Some 1, False)" and w' = demo_thread, OF this]
  show ?thesis by (simp add: demo_thread_def defs)
qed

theorem statements_finalised_once_witness:
  "t_final (thread_clean (DBResult_destroy (Some 1, False) demo_thread)) = [1, 0]
   \<and> distinct (t_final (thread_clean (DBResult_destroy (Some 1, False) demo_thread)))
   \<and> t_open (thread_clean (DBResult_destroy (Some 1, False) demo_thread)) = []"
proof -
  let ?w = "DBResult_destroy (Some 1, False) demo_thread"
  have "db_reach True (\<lambda>q. q = 0) (thread_clean ?w, ([0 \<mapsto> (Some 0, True), 1 \<mapsto> (Some 1, False)])(1 := None))"
    by (rule db_clean [OF db_drop [OF demo_thread_reached]])
       (simp_all add: DBResult_destroy_def demo_thread_def db_thread_new_def)
  from statements_finalised_once [OF this] show ?thesis
    by (simp add: DBResult_destroy_def demo_thread_def db_thread_new_def thread_clean_def)
qed

text \<open>
  A statement that SQLite refuses ends the process: the first run of a query whose text does not
  compile, or whose thread cannot open the database, aborts unless the log is off. With the log off
  the query keeps a null statement for good, and running it again does not prepare.
\<close>
theorem refused_query_aborts:
  "(critical_aborts lg \<longrightarrow> Query_exec lg opened False static None w = None)
   \<and> (critical_aborts lg \<longrightarrow> \<not> t_db w \<longrightarrow> Query_exec lg False ok static None w = None)
   \<and> (\<not> critical_aborts lg \<longrightarrow> (\<exists>r w1. Query_exec lg opened False static None w = Some (r, w1) \<and> fst r = None
        \<and> Query_exec lg opened' ok' static (Some r) w2 = Some (r, w2)))"
  by (auto simp: Query_exec_def db_prepare_def getDbConn_def makeConThreadLocal_def addThreadCleanDBData_def
      split: option.split)

theorem refused_query_aborts_witness:
  "Query_exec (Logger_new LoggerConfig_default) True False True None (db_thread_new True) = None
   \<and> Query_exec (Logger_new (LoggerConfig_default\<lparr>showLvl := Lvl_off, saveLvl := Lvl_off\<rparr>)) True False True None
       (db_thread_new True) \<noteq> None"
proof -
  let ?on = "Logger_new LoggerConfig_default" and ?off = "Logger_new (LoggerConfig_default\<lparr>showLvl := Lvl_off, saveLvl := Lvl_off\<rparr>)"
  have "critical_aborts ?on" "\<not> critical_aborts ?off" by code_simp+
  then show ?thesis
    using refused_query_aborts [of ?on True True "db_thread_new True"] refused_query_aborts [of ?off True True "db_thread_new True"]
    by force
qed

end
