(* ===== verification/FFileMap.thy ===== *)
theory FFileMap
  imports FFileServe
begin

text \<open>
  Files mapped into memory (\<open>Server/src/Utils/FileReader.cpp\<close>, \<open>FileReader.h\<close>), in all three modes, on
  POSIX: what the constructor and the destructor ask of the operating system, whose calls are an argument.
  \<open>FFileServe\<close> uses the result for reading, \<open>MemoryMappedFile_ro\<close>; here it is shown to be what the calls
  amount to.
\<close>

section \<open>Model\<close>

datatype map_mode = ReadOnly | WriteOnly | ReadWrite
datatype open_how = O_RDONLY | O_RDWR_CREAT
datatype prot = PROT_READ | PROT_WRITE | PROT_READ_WRITE

text \<open>The calls on a state \<open>'k\<close> of the operating system. A mapping is an address, \<open>None\<close> is MAP_FAILED;
  \<open>f_tellg\<close> is the position at the end of an \<open>fstream\<close> of the file, -1 when it cannot be opened.\<close>

record 'k file_kernel =
  f_tellg :: "string \<Rightarrow> 'k \<Rightarrow> int"
  f_open :: "string \<Rightarrow> open_how \<Rightarrow> 'k \<Rightarrow> int \<times> 'k"
  f_lseek :: "int \<Rightarrow> int \<Rightarrow> 'k \<Rightarrow> int \<times> 'k"
  f_write :: "int \<Rightarrow> string \<Rightarrow> 'k \<Rightarrow> int \<times> 'k"
  f_mmap :: "u64 \<Rightarrow> prot \<Rightarrow> int \<Rightarrow> 'k \<Rightarrow> nat option \<times> 'k"
  f_munmap :: "nat \<Rightarrow> u64 \<Rightarrow> 'k \<Rightarrow> 'k"
  f_close :: "int \<Rightarrow> 'k \<Rightarrow> 'k"

record mapped_file =
  mf_filename :: string
  mf_size :: u64
  mf_mode :: map_mode
  mf_data :: "nat option"
  fileDescriptor :: int

text \<open>A runtime error is its text; nothing is left of the object then.\<close>

definition map_or_close :: "'k file_kernel \<Rightarrow> mapped_file \<Rightarrow> prot \<Rightarrow> string \<Rightarrow> int \<Rightarrow> 'k \<Rightarrow> (string + mapped_file) \<times> 'k" where
  "map_or_close K f prot failure fd k =
     (case f_mmap K (mf_size f) prot fd k of
        (None, k1) \<Rightarrow> (Inl failure, f_close K fd k1)
      | (Some a, k1) \<Rightarrow> (Inr (f\<lparr>mf_data := Some a, fileDescriptor := fd\<rparr>), k1))"

text \<open>The two writing modes differ in the protection and in the texts of the errors. The file is made long
  enough by writing a byte at its last position; \<open>lseek\<close> takes the position as a signed number.\<close>

definition open_writing :: "'k file_kernel \<Rightarrow> mapped_file \<Rightarrow> prot \<Rightarrow> string \<Rightarrow> 'k \<Rightarrow> (string + mapped_file) \<times> 'k" where
  "open_writing K f prot mode k =
     (case f_open K (mf_filename f) O_RDWR_CREAT k of (fd, k1) \<Rightarrow>
        if fd = -1 then (Inl (''Failed to open file ('' @ mode @ '')''), k1)
        else (let (off, k2) = f_lseek K fd (sint (mf_size f - 1)) k1
              in if off = -1 then (Inl (''Failed to resize file ('' @ mode @ '')''), f_close K fd k2)
                 else (let (written, k3) = f_write K fd [NUL] k2
                       in if written \<noteq> 1 then (Inl (''Failed to resize file ('' @ mode @ '')''), f_close K fd k3)
                          else map_or_close K f prot (''Failed to mmap file ('' @ mode @ '')'') fd k3)))"

definition mf_open :: "'k file_kernel \<Rightarrow> mapped_file \<Rightarrow> 'k \<Rightarrow> (string + mapped_file) \<times> 'k" where
  "mf_open K f k =
     (case mf_mode f of
        ReadOnly \<Rightarrow>
          (case f_open K (mf_filename f) O_RDONLY k of (fd, k1) \<Rightarrow>
             if fd = -1 then (Inl ''Failed to open file (ReadOnly)'', k1)
             else map_or_close K f PROT_READ ''Failed to mmap file (ReadOnly)'' fd k1)
      | WriteOnly \<Rightarrow> open_writing K f PROT_WRITE ''WriteOnly'' k
      | ReadWrite \<Rightarrow> open_writing K f PROT_READ_WRITE ''ReadWrite'' k)"

definition MemoryMappedFile :: "'k file_kernel \<Rightarrow> string \<Rightarrow> map_mode \<Rightarrow> u64 \<Rightarrow> 'k \<Rightarrow> (string + mapped_file) \<times> 'k" where
  "MemoryMappedFile K filename mode sz k =
     mf_open K \<lparr>mf_filename = filename,
       mf_size = (if sz = 0 \<and> mode = ReadOnly then word_of_int (f_tellg K filename k) else sz),
       mf_mode = mode, mf_data = None, fileDescriptor = -1\<rparr> k"

definition mf_close :: "'k file_kernel \<Rightarrow> mapped_file \<Rightarrow> 'k \<Rightarrow> mapped_file \<times> 'k" where
  "mf_close K f k =
     (let (f1, k1) = (case mf_data f of Some a \<Rightarrow> (f\<lparr>mf_data := None\<rparr>, f_munmap K a (mf_size f) k) | None \<Rightarrow> (f, k))
      in if fileDescriptor f1 \<noteq> -1 then (f1\<lparr>fileDescriptor := -1\<rparr>, f_close K (fileDescriptor f1) k1) else (f1, k1))"

section \<open>What the calls do\<close>

text \<open>What POSIX documents of descriptors and mappings: \<open>opens\<close> are the open descriptors and \<open>maps\<close> the
  addresses of the mappings.\<close>

definition file_laws :: "'k file_kernel \<Rightarrow> ('k \<Rightarrow> int set) \<Rightarrow> ('k \<Rightarrow> nat set) \<Rightarrow> bool" where
  "file_laws K opens maps \<longleftrightarrow>
     (\<forall>n h k. let (fd, k') = f_open K n h k in maps k' = maps k
        \<and> (if fd = -1 then opens k' = opens k else fd \<notin> opens k \<and> opens k' = insert fd (opens k)))
   \<and> (\<forall>fd p k. let (_, k') = f_lseek K fd p k in opens k' = opens k \<and> maps k' = maps k)
   \<and> (\<forall>fd d k. let (_, k') = f_write K fd d k in opens k' = opens k \<and> maps k' = maps k)
   \<and> (\<forall>n p fd k. let (r, k') = f_mmap K n p fd k in opens k' = opens k
        \<and> (case r of None \<Rightarrow> maps k' = maps k | Some a \<Rightarrow> a \<notin> maps k \<and> maps k' = insert a (maps k)))
   \<and> (\<forall>a n k. opens (f_munmap K a n k) = opens k \<and> maps (f_munmap K a n k) = maps k - {a})
   \<and> (\<forall>fd k. opens (f_close K fd k) = opens k - {fd} \<and> maps (f_close K fd k) = maps k)"

lemma file_lawsD:
  assumes "file_laws K opens maps"
  shows "f_open K n h k = (fd, k') \<Longrightarrow> maps k' = maps k
      \<and> (if fd = -1 then opens k' = opens k else fd \<notin> opens k \<and> opens k' = insert fd (opens k))"
    "f_lseek K d p k = (off, k') \<Longrightarrow> opens k' = opens k \<and> maps k' = maps k"
    "f_write K d str k = (w, k') \<Longrightarrow> opens k' = opens k \<and> maps k' = maps k"
    "f_mmap K len pr d k = (r, k') \<Longrightarrow> opens k' = opens k
      \<and> (case r of None \<Rightarrow> maps k' = maps k | Some a \<Rightarrow> a \<notin> maps k \<and> maps k' = insert a (maps k))"
    "opens (f_munmap K a len k) = opens k" "maps (f_munmap K a len k) = maps k - {a}"
    "opens (f_close K d k) = opens k - {d}" "maps (f_close K d k) = maps k"
proof -
  note L = assms [unfolded file_laws_def Let_def]
  show "f_open K n h k = (fd, k') \<Longrightarrow> maps k' = maps k
      \<and> (if fd = -1 then opens k' = opens k else fd \<notin> opens k \<and> opens k' = insert fd (opens k))"
    using L [THEN conjunct1, rule_format, where n = n and h = h and k = k] by simp
  show "f_lseek K d p k = (off, k') \<Longrightarrow> opens k' = opens k \<and> maps k' = maps k"
    using L [THEN conjunct2, THEN conjunct1, rule_format, where fd = d and p = p and k = k] by simp
  show "f_write K d str k = (w, k') \<Longrightarrow> opens k' = opens k \<and> maps k' = maps k"
    using L [THEN conjunct2, THEN conjunct2, THEN conjunct1, rule_format, where fd = d and d = str and k = k] by simp
  show "f_mmap K len pr d k = (r, k') \<Longrightarrow> opens k' = opens k
      \<and> (case r of None \<Rightarrow> maps k' = maps k | Some a \<Rightarrow> a \<notin> maps k \<and> maps k' = insert a (maps k))"
    using L [THEN conjunct2, THEN conjunct2, THEN conjunct2, THEN conjunct1, rule_format, where n = len and p = pr and fd = d and k = k] by simp
qed (use assms in \<open>simp_all add: file_laws_def\<close>)

text \<open>What a new object holds: a descriptor and a mapping that were not there, or nothing.\<close>

definition acquires :: "('k \<Rightarrow> int set) \<Rightarrow> ('k \<Rightarrow> nat set) \<Rightarrow> 'k \<Rightarrow> (string + mapped_file) \<times> 'k \<Rightarrow> bool" where
  "acquires opens maps k r \<longleftrightarrow>
     (case r of
        (Inl e, k') \<Rightarrow> opens k' = opens k \<and> maps k' = maps k
      | (Inr f, k') \<Rightarrow> \<exists>a fd. mf_data f = Some a \<and> fileDescriptor f = fd \<and> fd \<noteq> -1 \<and> fd \<notin> opens k \<and> a \<notin> maps k
          \<and> opens k' = insert fd (opens k) \<and> maps k' = insert a (maps k))"

lemma map_or_close_acquires:
  assumes "file_laws K opens maps" "fd \<noteq> -1" "fd \<notin> opens k" "opens k1 = insert fd (opens k)" "maps k1 = maps k"
  shows "acquires opens maps k (map_or_close K f prot e fd k1)"
proof -
  obtain r k2 where m: "f_mmap K (mf_size f) prot fd k1 = (r, k2)" by force
  note law = file_lawsD(4) [OF assms(1) m]
  show ?thesis
  proof (cases r)
    case None
    then show ?thesis
      using assms(3-5) law by (simp add: map_or_close_def m acquires_def file_lawsD(7,8) [OF assms(1)])
  next
    case (Some a)
    then show ?thesis using assms(2-5) law by (simp add: map_or_close_def m acquires_def)
  qed
qed

lemma open_writing_acquires:
  assumes "file_laws K opens maps"
  shows "acquires opens maps k (open_writing K f prot mode k)"
proof -
  obtain fd k1 where o: "f_open K (mf_filename f) O_RDWR_CREAT k = (fd, k1)" by force
  obtain off k2 where l: "f_lseek K fd (sint (mf_size f - 1)) k1 = (off, k2)" by force
  obtain w k3 where w: "f_write K fd [NUL] k2 = (w, k3)" by force
  note laws = file_lawsD(1) [OF assms o] file_lawsD(2) [OF assms l] file_lawsD(3) [OF assms w] file_lawsD(7,8) [OF assms]
  consider "fd = -1" | "fd \<noteq> -1" "off = -1" | "fd \<noteq> -1" "off \<noteq> -1" "w \<noteq> 1" | "fd \<noteq> -1" "off \<noteq> -1" "w = 1" by blast
  then show ?thesis
  proof cases
    case 4
    then show ?thesis
      using map_or_close_acquires [OF assms, of fd k k3 f prot "''Failed to mmap file ('' @ mode @ '')''"] laws
      by (simp add: open_writing_def o l w)
  qed (use laws in \<open>simp_all add: open_writing_def o l w acquires_def\<close>)
qed

text \<open>
  C36. A file that is opened in any mode owns one new descriptor and one new mapping, a file that cannot
  be opened leaves neither, the destructor gives both back, and closing again does nothing.
\<close>
theorem mapping_owns_descriptor:
  assumes "file_laws K opens maps"
  shows "acquires opens maps k (MemoryMappedFile K filename mode sz k)
    \<and> (\<forall>f k'. MemoryMappedFile K filename mode sz k = (Inr f, k') \<longrightarrow>
         (\<exists>f2 k2. mf_close K f k' = (f2, k2) \<and> opens k2 = opens k \<and> maps k2 = maps k \<and> mf_close K f2 k2 = (f2, k2)))"
proof -
  let ?f = "\<lparr>mf_filename = filename,
       mf_size = (if sz = 0 \<and> mode = ReadOnly then word_of_int (f_tellg K filename k) else sz),
       mf_mode = mode, mf_data = None, fileDescriptor = -1\<rparr>"
  have acq: "acquires opens maps k (mf_open K ?f k)"
  proof (cases mode)
    case ReadOnly
    obtain fd k1 where o: "f_open K filename O_RDONLY k = (fd, k1)" by force
    note op = file_lawsD(1) [OF assms o]
    show ?thesis
    proof (cases "fd = -1")
      case True
      then show ?thesis using op ReadOnly by (simp add: mf_open_def o acquires_def)
    next
      case False
      then show ?thesis
        using map_or_close_acquires [OF assms, of fd k k1 ?f PROT_READ "''Failed to mmap file (ReadOnly)''"] op ReadOnly
        by (simp add: mf_open_def o)
    qed
  qed (simp_all add: mf_open_def open_writing_acquires [OF assms])
  have given_back: "\<exists>f2 k2. mf_close K f k' = (f2, k2) \<and> opens k2 = opens k \<and> maps k2 = maps k \<and> mf_close K f2 k2 = (f2, k2)"
    if "acquires opens maps k (Inr f, k')" for f k'
    using that by (auto simp: acquires_def mf_close_def file_lawsD(5-8) [OF assms])
  show ?thesis using acq given_back unfolding MemoryMappedFile_def by force
qed

section \<open>What becomes of the content\<close>

definition overwrite :: "string \<Rightarrow> nat \<Rightarrow> string \<Rightarrow> string" where
  "overwrite c p d = take p c @ replicate (p - length c) NUL @ d @ drop (p + length d) c"

text \<open>The documented effect of the calls on the content of the files: \<open>names\<close> and \<open>pos\<close> are the file and the
  position of a descriptor. Opening for writing keeps the content, or makes an empty file; the position is
  set by \<open>lseek\<close>, and \<open>write\<close> writes there, filling a gap with zeros. Opening for reading fails for a file
  that is not there (and may fail otherwise, for want of descriptors); the position at the end of an \<open>fstream\<close>, which asks for writing too, is the length.
  A mapping of no bytes or of more than the address space fails.\<close>

definition content_laws :: "'k file_kernel \<Rightarrow> ('k \<Rightarrow> string \<Rightarrow> (bool \<times> string) option) \<Rightarrow> ('k \<Rightarrow> int \<Rightarrow> string) \<Rightarrow>
    ('k \<Rightarrow> int \<Rightarrow> nat) \<Rightarrow> bool" where
  "content_laws K content names pos \<longleftrightarrow>
     (\<forall>n k. f_tellg K n k = (case content k n of Some (True, c) \<Rightarrow> int (length c) | _ \<Rightarrow> -1))
   \<and> (\<forall>n k. let (fd, k') = f_open K n O_RDONLY k in (content k n = None \<longrightarrow> fd = -1) \<and> content k' = content k
        \<and> (fd \<noteq> -1 \<longrightarrow> names k' fd = n))
   \<and> (\<forall>n k. let (fd, k') = f_open K n O_RDWR_CREAT k in
        (if fd = -1 then content k' = content k
         else names k' fd = n \<and> content k' = (content k)(n \<mapsto> (True, case content k n of Some (_, c) \<Rightarrow> c | None \<Rightarrow> []))))
   \<and> (\<forall>fd p k. let (off, k') = f_lseek K fd p k in content k' = content k \<and> names k' = names k
        \<and> (off = -1 \<or> (0 \<le> p \<and> off = p \<and> pos k' fd = nat p)))
   \<and> (\<forall>fd d k. let (w, k') = f_write K fd d k in names k' = names k
        \<and> (w = int (length d) \<longrightarrow>
             (\<forall>m c. content k (names k fd) = Some (m, c) \<longrightarrow>
                content k' = (content k)(names k fd \<mapsto> (m, overwrite c (pos k fd) d)))))
   \<and> (\<forall>n p fd k. let (r, k') = f_mmap K n p fd k in content k' = content k \<and> names k' = names k
        \<and> (n = 0 \<or> 2 ^ 47 \<le> n \<longrightarrow> r = None))
   \<and> (\<forall>fd k. content (f_close K fd k) = content k)"

lemma content_lawsD:
  assumes "content_laws K content names pos"
  shows "f_tellg K n k = (case content k n of Some (True, c) \<Rightarrow> int (length c) | _ \<Rightarrow> -1)"
    "f_open K n O_RDONLY k = (fd, k') \<Longrightarrow> (content k n = None \<longrightarrow> fd = -1) \<and> content k' = content k
        \<and> (fd \<noteq> -1 \<longrightarrow> names k' fd = n)"
    "f_open K n O_RDWR_CREAT k = (fd, k') \<Longrightarrow> fd \<noteq> -1 \<Longrightarrow> content k n = Some (m, c) \<Longrightarrow>
       names k' fd = n \<and> content k' n = Some (True, c)"
    "f_lseek K d p k = (off, k') \<Longrightarrow> content k' = content k \<and> names k' = names k
        \<and> (off = -1 \<or> (0 \<le> p \<and> off = p \<and> pos k' d = nat p))"
    "f_write K d str k = (w, k') \<Longrightarrow> w = int (length str) \<Longrightarrow> content k (names k d) = Some (m, c) \<Longrightarrow>
       names k' = names k \<and> content k' (names k d) = Some (m, overwrite c (pos k d) str)"
    "f_mmap K len pr d k = (r, k') \<Longrightarrow> content k' = content k \<and> names k' = names k \<and> (len = 0 \<or> 2 ^ 47 \<le> len \<longrightarrow> r = None)"
    "content (f_close K d k) = content k"
proof -
  note L = assms [unfolded content_laws_def Let_def]
  note L2 = L [THEN conjunct2] note L3 = L2 [THEN conjunct2] note L4 = L3 [THEN conjunct2] note L5 = L4 [THEN conjunct2]
  note L6 = L5 [THEN conjunct2]
  show "f_tellg K n k = (case content k n of Some (True, c) \<Rightarrow> int (length c) | _ \<Rightarrow> -1)"
    by (rule L [THEN conjunct1, rule_format])
  show "f_open K n O_RDONLY k = (fd, k') \<Longrightarrow> (content k n = None \<longrightarrow> fd = -1) \<and> content k' = content k
        \<and> (fd \<noteq> -1 \<longrightarrow> names k' fd = n)"
    using L2 [THEN conjunct1, rule_format, where n = n and k = k] by simp
  show "f_open K n O_RDWR_CREAT k = (fd, k') \<Longrightarrow> fd \<noteq> -1 \<Longrightarrow> content k n = Some (m, c) \<Longrightarrow>
       names k' fd = n \<and> content k' n = Some (True, c)"
    using L3 [THEN conjunct1, rule_format, where n = n and k = k] by simp
  show "f_lseek K d p k = (off, k') \<Longrightarrow> content k' = content k \<and> names k' = names k
        \<and> (off = -1 \<or> (0 \<le> p \<and> off = p \<and> pos k' d = nat p))"
    using L4 [THEN conjunct1, rule_format, where fd = d and p = p and k = k] by simp
  show "f_write K d str k = (w, k') \<Longrightarrow> w = int (length str) \<Longrightarrow> content k (names k d) = Some (m, c) \<Longrightarrow>
       names k' = names k \<and> content k' (names k d) = Some (m, overwrite c (pos k d) str)"
    using L5 [THEN conjunct1, rule_format, where fd = d and d = str and k = k] by simp
  show "f_mmap K len pr d k = (r, k') \<Longrightarrow> content k' = content k \<and> names k' = names k \<and> (len = 0 \<or> 2 ^ 47 \<le> len \<longrightarrow> r = None)"
    using L6 [THEN conjunct1, rule_format, where n = len and p = pr and fd = d and k = k] by simp
  show "content (f_close K d k) = content k" using L6 [THEN conjunct2, rule_format, of d k] .
qed

lemma last_position:
  assumes "0 < (sz :: u64)" "sz < 2 ^ 63"
  shows "sint (sz - 1) = int (unat sz - 1)"
proof -
  have "uint sz < 2 ^ 63" "0 < uint sz" using assms by (simp_all add: word_less_def)
  moreover have u: "uint (sz - 1) = uint sz - 1" using uint_sub_lem [of 1 sz] \<open>0 < uint sz\<close> by simp
  ultimately have "sint (sz - 1) = uint sz - 1"
    by (simp add: sint_uint signed_take_bit_int_eq_self)
  moreover have "0 < unat sz" using assms(1) by (simp add: word_less_nat_alt)
  then have "int (unat sz - 1) = uint sz - 1" by (simp add: of_nat_diff)
  ultimately show ?thesis by simp
qed

text \<open>
  Opening a file for writing, in either mode, changes it: its last byte becomes NUL, whatever it was,
  when the file has the size asked for; a shorter one is filled up with NULs, a longer one keeps its length
  and loses the byte in the middle.
\<close>
theorem writing_clears_a_byte:
  assumes "content_laws K content names pos" "mode \<noteq> ReadOnly" "content k name = Some (w, c)" "0 < sz" "sz < 2 ^ 63"
    "MemoryMappedFile K name mode sz k = (Inr f, k')"
  shows "content k' name = Some (True, overwrite c (unat sz - 1) [NUL])
    \<and> (length c = unat sz \<longrightarrow> overwrite c (unat sz - 1) [NUL] = butlast c @ [NUL])"
proof -
  define f0 where "f0 = \<lparr>mf_filename = name, mf_size = sz, mf_mode = mode, mf_data = None, fileDescriptor = -1\<rparr>"
  obtain prot t where ow: "open_writing K f0 prot t k = (Inr f, k')"
    using assms(2,6) by (cases mode) (auto simp: MemoryMappedFile_def mf_open_def f0_def)
  obtain fd k1 where o: "f_open K name O_RDWR_CREAT k = (fd, k1)" by force
  obtain off k2 where l: "f_lseek K fd (sint (sz - 1)) k1 = (off, k2)" by force
  obtain n k3 where wr: "f_write K fd [NUL] k2 = (n, k3)" by force
  obtain r k4 where m: "f_mmap K sz prot fd k3 = (r, k4)" by force
  have ok: "fd \<noteq> -1" "off \<noteq> -1" "n = 1" "r \<noteq> None" "k' = k4"
    using ow by (auto simp: open_writing_def o l wr m f0_def map_or_close_def split: if_splits option.splits)
  have k1: "names k1 fd = name" "content k1 name = Some (True, c)"
    using content_lawsD(3) [OF assms(1) o ok(1) assms(3)] by simp_all
  have k2: "content k2 = content k1" "names k2 = names k1" "pos k2 fd = unat sz - 1"
    using content_lawsD(4) [OF assms(1) l] ok(2) last_position [OF assms(4,5)] by simp_all
  have "content k3 name = Some (True, overwrite c (unat sz - 1) [NUL])"
    using content_lawsD(5) [OF assms(1) wr, of True c] ok(3) k1 k2 by simp
  moreover have "content k4 = content k3" using content_lawsD(6) [OF assms(1) m] by blast
  moreover have "length c = unat sz \<longrightarrow> overwrite c (unat sz - 1) [NUL] = butlast c @ [NUL]"
    by (simp add: overwrite_def butlast_conv_take)
  ultimately show ?thesis using ok(5) by simp
qed

text \<open>
  What \<open>FFileServe\<close> takes a mapping for reading to be is what the calls amount to: the same errors, and
  otherwise a mapping of as many bytes as the file has, while descriptors and address space last.
\<close>
theorem reading_refines_ro:
  assumes "content_laws K content names pos"
    "content k name \<noteq> None \<Longrightarrow> fst (f_open K name O_RDONLY k) \<noteq> -1"
    "\<And>w c fd k1. content k name = Some (w, c) \<Longrightarrow> f_open K name O_RDONLY k = (fd, k1) \<Longrightarrow> length c < 2 ^ 47
      \<and> (c \<noteq> [] \<longrightarrow> fst (f_mmap K (word_of_nat (length c)) PROT_READ fd k1) \<noteq> None)"
  shows "case MemoryMappedFile_ro (content k) name of
      Inl e \<Rightarrow> fst (MemoryMappedFile K name ReadOnly 0 k) = Inl e
    | Inr c \<Rightarrow> (\<exists>f k'. MemoryMappedFile K name ReadOnly 0 k = (Inr f, k') \<and> unat (mf_size f) = length c
        \<and> content k' (names k' (fileDescriptor f)) = Some (True, c))"
proof -
  obtain fd k1 where o: "f_open K name O_RDONLY k = (fd, k1)" by force
  note op = content_lawsD(2) [OF assms(1) o]
  show ?thesis
  proof (cases "content k name")
    case None
    then show ?thesis using op by (simp add: MemoryMappedFile_ro_def MemoryMappedFile_def mf_open_def o)
  next
    case (Some wc)
    obtain w c where wc: "wc = (w, c)" by force
    let ?sz = "if w then word_of_nat (length c) else (-1 :: u64)"
    have tg: "word_of_int (f_tellg K name k) = ?sz"
      using content_lawsD(1) [OF assms(1), of name k] Some wc by (cases w) simp_all
    have fd: "fd \<noteq> -1" using assms(2) Some o by simp
    obtain r k2 where m: "f_mmap K ?sz PROT_READ fd k1 = (r, k2)" by force
    note mm = content_lawsD(6) [OF assms(1) m]
    have len: "unat (word_of_nat (length c) :: u64) = length c"
      using assms(3) [OF _ o, of w c] Some wc by (simp add: unsigned_of_nat take_bit_nat_eq_self)
    have res: "MemoryMappedFile K name ReadOnly 0 k =
      (case r of None \<Rightarrow> (Inl ''Failed to mmap file (ReadOnly)'', f_close K fd k2)
       | Some a \<Rightarrow> (Inr \<lparr>mf_filename = name, mf_size = ?sz, mf_mode = ReadOnly, mf_data = Some a, fileDescriptor = fd\<rparr>, k2))"
      using fd tg m by (cases r) (simp_all add: MemoryMappedFile_def mf_open_def o map_or_close_def)
    show ?thesis
    proof (cases "w \<and> c \<noteq> []")
      case True
      then obtain a where "r = Some a" using assms(3) [OF _ o, of w c] Some wc m by force
      then show ?thesis
        using True Some wc res op fd mm len by (auto simp: MemoryMappedFile_ro_def)
    next
      case False
      then have "?sz = 0 \<or> 2 ^ 47 \<le> ?sz" by auto
      then have "r = None" using mm by blast
      then show ?thesis using False Some wc res by (auto simp: MemoryMappedFile_ro_def)
    qed
  qed
qed

section \<open>A small disk\<close>

text \<open>One descriptor, one mapping.\<close>

record disk =
  d_files :: "string \<Rightarrow> (bool \<times> string) option"
  d_open :: "(string \<times> nat) option"
  d_mapped :: bool

definition disk_kernel :: "disk file_kernel" where
  "disk_kernel = \<lparr>
     f_tellg = (\<lambda>n k. case d_files k n of Some (True, c) \<Rightarrow> int (length c) | _ \<Rightarrow> -1),
     f_open = (\<lambda>n h k. case d_open k of Some _ \<Rightarrow> (-1, k) | None \<Rightarrow>
        (case (h, d_files k n) of
           (O_RDONLY, None) \<Rightarrow> (-1, k)
         | (O_RDWR_CREAT, Some (False, _)) \<Rightarrow> (-1, k)
         | (O_RDWR_CREAT, None) \<Rightarrow> (3, k\<lparr>d_open := Some (n, 0), d_files := (d_files k)(n \<mapsto> (True, []))\<rparr>)
         | _ \<Rightarrow> (3, k\<lparr>d_open := Some (n, 0)\<rparr>))),
     f_lseek = (\<lambda>fd p k. case d_open k of
          Some (n, _) \<Rightarrow> if fd = 3 \<and> 0 \<le> p then (p, k\<lparr>d_open := Some (n, nat p)\<rparr>) else (-1, k)
        | None \<Rightarrow> (-1, k)),
     f_write = (\<lambda>fd d k. case d_open k of
          Some (n, p) \<Rightarrow> (case d_files k n of
              Some (m, c) \<Rightarrow> if fd = 3 then (int (length d), k\<lparr>d_open := Some (n, p + length d),
                               d_files := (d_files k)(n \<mapsto> (m, overwrite c p d))\<rparr>) else (-1, k)
            | None \<Rightarrow> (-1, k))
        | None \<Rightarrow> (-1, k)),
     f_mmap = (\<lambda>len _ _ k. if d_mapped k \<or> len = 0 \<or> 2 ^ 47 \<le> len then (None, k) else (Some 4096, k\<lparr>d_mapped := True\<rparr>)),
     f_munmap = (\<lambda>a _ k. if a = 4096 then k\<lparr>d_mapped := False\<rparr> else k),
     f_close = (\<lambda>fd k. if fd = 3 then k\<lparr>d_open := None\<rparr> else k)\<rparr>"

lemma disk_file_laws: "file_laws disk_kernel (\<lambda>k. if d_open k = None then {} else {3}) (\<lambda>k. if d_mapped k then {4096} else {})"
  unfolding file_laws_def
  by (auto simp: disk_kernel_def Let_def split: option.splits open_how.splits prod.splits bool.splits)

lemma disk_content_laws:
  "content_laws disk_kernel d_files (\<lambda>k _. case d_open k of Some (n, _) \<Rightarrow> n | None \<Rightarrow> [])
     (\<lambda>k _. case d_open k of Some (_, p) \<Rightarrow> p | None \<Rightarrow> 0)"
  unfolding content_laws_def
  by (auto simp: disk_kernel_def Let_def fun_eq_iff split: option.splits open_how.splits prod.splits bool.splits)

definition demo_disk :: disk where
  "demo_disk = \<lparr>d_files = [''page'' \<mapsto> (True, ''hello'')], d_open = None, d_mapped = False\<rparr>"

lemma demo_writes:
  "fst (MemoryMappedFile disk_kernel ''page'' ReadWrite 5 demo_disk)
     = Inr \<lparr>mf_filename = ''page'', mf_size = 5, mf_mode = ReadWrite, mf_data = Some 4096, fileDescriptor = 3\<rparr>"
  by (simp add: MemoryMappedFile_def mf_open_def open_writing_def map_or_close_def disk_kernel_def demo_disk_def)

theorem mapping_owns_descriptor_witness:
  "\<exists>f2 k2. mf_close disk_kernel \<lparr>mf_filename = ''page'', mf_size = 5, mf_mode = ReadWrite, mf_data = Some 4096, fileDescriptor = 3\<rparr>
       (snd (MemoryMappedFile disk_kernel ''page'' ReadWrite 5 demo_disk)) = (f2, k2) \<and> d_open k2 = None \<and> \<not> d_mapped k2"
proof -
  obtain f k' where r: "MemoryMappedFile disk_kernel ''page'' ReadWrite 5 demo_disk = (Inr f, k')"
    using demo_writes by (metis eq_fst_iff)
  have d: "d_open demo_disk = None" "\<not> d_mapped demo_disk" by (simp_all add: demo_disk_def)
  show ?thesis
    using mapping_owns_descriptor [OF disk_file_laws, of demo_disk "''page''" ReadWrite 5] r d demo_writes
    by (auto split: if_splits simp del: not_None_eq)
qed

theorem writing_clears_a_byte_witness:
  "d_files (snd (MemoryMappedFile disk_kernel ''page'' ReadWrite 5 demo_disk)) ''page'' = Some (True, ''hell'' @ [NUL])"
proof -
  obtain f k' where r: "MemoryMappedFile disk_kernel ''page'' ReadWrite 5 demo_disk = (Inr f, k')"
    using demo_writes by (metis eq_fst_iff)
  show ?thesis
    using writing_clears_a_byte [OF disk_content_laws _ _ _ _ r, of True "''hello''"] r by (simp add: demo_disk_def)
qed

theorem reading_refines_ro_witness:
  "\<exists>f k'. MemoryMappedFile disk_kernel ''page'' ReadOnly 0 demo_disk = (Inr f, k') \<and> unat (mf_size f) = 5"
proof -
  have o: "f_open disk_kernel ''page'' O_RDONLY demo_disk = (3, demo_disk\<lparr>d_open := Some (''page'', 0)\<rparr>)"
    by (simp add: disk_kernel_def demo_disk_def)
  have m: "fst (f_mmap disk_kernel 5 PROT_READ fd (demo_disk\<lparr>d_open := Some (''page'', 0)\<rparr>)) \<noteq> None" for fd
    by (simp add: disk_kernel_def demo_disk_def)
  have "MemoryMappedFile_ro (d_files demo_disk) ''page'' = Inr ''hello''"
    by (simp add: MemoryMappedFile_ro_def demo_disk_def)
  moreover have "d_files demo_disk ''page'' = Some (True, ''hello'')" by (simp add: demo_disk_def)
  ultimately show ?thesis
    using reading_refines_ro [OF disk_content_laws, of demo_disk "''page''"] o m by auto
qed

end
