(* ===== verification/ImageDim.thy ===== *)
theory ImageDim
  imports Prelude FHttpMessage
begin

text \<open>
  The reader of image dimensions (\<open>Server/src/Utils/ImageDimReader.cpp\<close>): it downloads the head of an
  image with a small HTTP client of its own and looks for the width and height. Byte vectors are
  \<^typ>\<open>string\<close>; where the code reads at a computed index the read is checked, so that a read outside the
  vector is a value of the result (\<open>Inl\<close>). Name resolution, sockets, TLS, miniz and stb_image are
  arguments: what they answer in one exchange is a record.
\<close>

unbundle bit_operations_syntax

section \<open>Numbers in text\<close>

text \<open>\<open>strtol\<close> of the C library: blanks, a sign, for base 16 an optional \<open>0x\<close> that a digit follows, digits;
  saturated to 64 bits. \<open>atoi\<close> converts the result of \<open>strtol\<close> to \<open>int\<close>.\<close>

definition hex_digit_val :: "char \<Rightarrow> nat option" where
  "hex_digit_val c =
     (if isdigit c then Some (code_of c - 48)
      else if CHR ''a'' \<le> c \<and> c \<le> CHR ''f'' then Some (code_of c - 87)
      else if CHR ''A'' \<le> c \<and> c \<le> CHR ''F'' then Some (code_of c - 55)
      else None)"

definition is_hex :: "char \<Rightarrow> bool" where
  "is_hex c \<longleftrightarrow> hex_digit_val c \<noteq> None"

definition hex_num :: "string \<Rightarrow> nat" where
  "hex_num s = foldl (\<lambda>n c. 16 * n + the (hex_digit_val c)) 0 s"

definition skip_0x :: "string \<Rightarrow> string" where
  "skip_0x s =
     (if 2 < length s \<and> s ! 0 = CHR ''0'' \<and> (s ! 1 = CHR ''x'' \<or> s ! 1 = CHR ''X'') \<and> is_hex (s ! 2) then drop 2 s else s)"

definition saturate64 :: "bool \<Rightarrow> nat \<Rightarrow> int" where
  "saturate64 neg n = (if neg then - int (min n (2 ^ 63)) else int (min n (2 ^ 63 - 1)))"

definition strtol16 :: "string \<Rightarrow> int" where
  "strtol16 s = (let (neg, t) = split_sign (dropWhile isspace s) in saturate64 neg (hex_num (takeWhile is_hex (skip_0x t))))"

definition strtol10 :: "string \<Rightarrow> int" where
  "strtol10 s = (let (neg, t) = split_sign (dropWhile isspace s) in saturate64 neg (dec_value (takeWhile isdigit t)))"

definition atoi :: "string \<Rightarrow> int" where
  "atoi s = sint (word_of_int (strtol10 s) :: i32)"

section \<open>URLs\<close>

text \<open>\<open>s.find(t, pos)\<close> for a text \<open>t\<close>.\<close>

definition find_text :: "string \<Rightarrow> string \<Rightarrow> nat option" where
  "find_text s t = find (\<lambda>i. take (length t) (drop i s) = t) [0..<length s + 1 - length t]"

definition toLower :: "string \<Rightarrow> string" where
  "toLower s = map tolower s"

record url_parts =
  u_scheme :: string
  u_host :: string
  u_port :: int
  u_path :: string

text \<open>None where the code returns false.\<close>

definition parseUrl :: "string \<Rightarrow> url_parts option" where
  "parseUrl url =
     (case find_text url ''://'' of
        None \<Rightarrow> None
      | Some pos \<Rightarrow>
          (let scheme = toLower (substr url 0 pos)
           in if scheme \<noteq> ''http'' \<and> scheme \<noteq> ''https'' then None
              else (let port = (if scheme = ''https'' then 443 else 80);
                        restStart = pos + 3;
                        pathStart = str_find url (CHR ''/'') restStart;
                        authority = (case pathStart of None \<Rightarrow> drop restStart url | Some p \<Rightarrow> substr url restStart (p - restStart));
                        path = (case pathStart of None \<Rightarrow> ''/'' | Some p \<Rightarrow> drop p url)
                    in case str_find authority (CHR '':'') 0 of
                         None \<Rightarrow>
                           (if authority = [] then None
                            else Some \<lparr>u_scheme = scheme, u_host = authority, u_port = port, u_path = path\<rparr>)
                       | Some colon \<Rightarrow>
                           (let host = substr authority 0 colon; portStr = drop (colon + 1) authority
                            in if portStr = [] \<or> \<not> list_all isdigit portStr then None
                               else if host = [] then None
                               else Some \<lparr>u_scheme = scheme, u_host = host, u_port = atoi portStr, u_path = path\<rparr>))))"

definition int_to_string :: "int \<Rightarrow> string" where
  "int_to_string n = (if n < 0 then CHR ''-'' # to_string (nat (- n)) else to_string (nat n))"

definition resolveRedirectUrl :: "string \<Rightarrow> string \<Rightarrow> string" where
  "resolveRedirectUrl currentUrl location =
     (if find_text location ''://'' \<noteq> None then location
      else (case parseUrl currentUrl of
              None \<Rightarrow> location
            | Some u \<Rightarrow>
                (if 2 \<le> length location \<and> location ! 0 = CHR ''/'' \<and> location ! 1 = CHR ''/''
                 then u_scheme u @ '':'' @ location
                 else (let defaultPort = (u_scheme u = ''http'' \<and> u_port u = 80 \<or> u_scheme u = ''https'' \<and> u_port u = 443);
                           base = u_scheme u @ ''://'' @ u_host u @ (if \<not> defaultPort then '':'' @ int_to_string (u_port u) else [])
                       in if location \<noteq> [] \<and> location ! 0 = CHR ''/'' then base @ location
                          else (let dir = (case str_rfind (u_path u) (CHR ''/'') of
                                             None \<Rightarrow> ''/''
                                           | Some slash \<Rightarrow> substr (u_path u) 0 (slash + 1))
                                in base @ dir @ location)))))"

section \<open>Checked reads\<close>

datatype read_fault = Out_of_bounds nat

text \<open>\<open>data[i]\<close>, promoted to \<open>int\<close>, and \<open>memcmp\<close> with a text.\<close>

definition rd :: "string \<Rightarrow> nat \<Rightarrow> read_fault + u32" where
  "rd b i = (if i < length b then Inr (of_char (b ! i)) else Inl (Out_of_bounds i))"

definition rd_eq :: "string \<Rightarrow> nat \<Rightarrow> string \<Rightarrow> read_fault + bool" where
  "rd_eq b i t = (if i + length t \<le> length b then Inr (take (length t) (drop i b) = t) else Inl (Out_of_bounds i))"

fun rd_bind :: "read_fault + 'a \<Rightarrow> ('a \<Rightarrow> read_fault + 'b) \<Rightarrow> read_fault + 'b" where
  "rd_bind (Inl e) f = Inl e"
| "rd_bind (Inr a) f = f a"

section \<open>Inflating\<close>

text \<open>The loop over a name or comment of the gzip header: the offset behind its zero byte.\<close>

function gz_skip :: "string \<Rightarrow> nat \<Rightarrow> read_fault + nat option" where
  "gz_skip b off =
     (if off < length b
      then rd_bind (rd b off) (\<lambda>c. if c \<noteq> 0 then gz_skip b (off + 1) else Inr (Some (off + 1)))
      else Inr None)"
  by pat_completeness auto
termination by (relation "measure (\<lambda>(b, off). length b - off)") (auto simp: rd_def)

declare gz_skip.simps [simp del]

text \<open>Where the deflate stream starts; None where the code gives up.\<close>

definition gz_offset :: "string \<Rightarrow> read_fault + nat option" where
  "gz_offset b =
     (if length b < 10 then Inr None
      else
        rd_bind (rd b 3) (\<lambda>flags.
        rd_bind (if flags AND 0x04 \<noteq> 0
                 then (if length b < 10 + 2 then Inr None
                       else rd_bind (rd b 10) (\<lambda>x. rd_bind (rd b 11) (\<lambda>y. Inr (Some (10 + 2 + unat (x OR push_bit 8 y))))))
                 else Inr (Some 10)) (\<lambda>o1.
        rd_bind (case o1 of None \<Rightarrow> Inr None | Some off \<Rightarrow> if flags AND 0x08 \<noteq> 0 then gz_skip b off else Inr (Some off)) (\<lambda>o2.
        rd_bind (case o2 of None \<Rightarrow> Inr None | Some off \<Rightarrow> if flags AND 0x10 \<noteq> 0 then gz_skip b off else Inr (Some off)) (\<lambda>o3.
        Inr (case o3 of
               None \<Rightarrow> None
             | Some off \<Rightarrow> (let off' = (if flags AND 0x02 \<noteq> 0 then off + 2 else off)
                            in if length b < off' then None else Some off')))))))"

text \<open>miniz: what \<open>mz_inflateInit2\<close> answers, and what \<open>mz_inflate\<close> makes of the input (raw deflate or
  zlib): its status and the bytes it wrote.\<close>

datatype mz_status = MZ_STREAM_END | MZ_BUF_ERROR | MZ_OTHER

record miniz =
  mz_init :: bool
  mz_inflate :: "bool \<Rightarrow> string \<Rightarrow> mz_status \<times> string"

definition inflatePayload :: "miniz \<Rightarrow> string \<Rightarrow> read_fault + string option" where
  "inflatePayload M b =
     (if length b < 2 then Inr None
      else
        rd_bind (rd b 0) (\<lambda>b0. rd_bind (rd b 1) (\<lambda>b1.
        (let isGzip = (b0 = 0x1f \<and> b1 = 0x8b)
         in rd_bind (if isGzip then gz_offset b else Inr (Some 0)) (\<lambda>start.
            Inr (case start of
                   None \<Rightarrow> None
                 | Some off \<Rightarrow>
                     (if \<not> mz_init M then None
                      else (let (status, out) = mz_inflate M isGzip (drop off b)
                            in if status = MZ_STREAM_END \<or> status = MZ_BUF_ERROR \<and> out \<noteq> [] then Some out else None))))))))"

section \<open>Chunked bodies\<close>

text \<open>The reads of the chunked decoder: a character, and the range that \<open>insert\<close> copies.\<close>

definition rd_char :: "string \<Rightarrow> nat \<Rightarrow> read_fault + char" where
  "rd_char b i = (if i < length b then Inr (b ! i) else Inl (Out_of_bounds i))"

definition rd_range :: "string \<Rightarrow> nat \<Rightarrow> nat \<Rightarrow> read_fault + string" where
  "rd_range b from n = (if from + n \<le> length b then Inr (take n (drop from b)) else Inl (Out_of_bounds from))"

lemma rd_bind_cong [fundef_cong]:
  "x = y \<Longrightarrow> (\<And>a. y = Inr a \<Longrightarrow> f a = g a) \<Longrightarrow> rd_bind x f = rd_bind y g"
  by (cases y) simp_all

text \<open>The two inner loops: to the end of the size line, and over the characters of the size.\<close>

function line_end :: "string \<Rightarrow> nat \<Rightarrow> read_fault + nat" where
  "line_end data lineEnd =
     (if lineEnd < length data
      then rd_bind (rd_char data lineEnd) (\<lambda>c. if c \<noteq> LF then line_end data (lineEnd + 1) else Inr lineEnd)
      else Inr lineEnd)"
  by pat_completeness auto
termination by (relation "measure (\<lambda>(data, i). length data - i)") auto

function size_chars :: "string \<Rightarrow> nat \<Rightarrow> nat \<Rightarrow> read_fault + string" where
  "size_chars data i lineEnd =
     (if i < lineEnd
      then rd_bind (rd_char data i) (\<lambda>c.
           if c \<noteq> CHR '';'' \<and> c \<noteq> CR then rd_bind (size_chars data (i + 1) lineEnd) (\<lambda>sizeStr. Inr (c # sizeStr))
           else Inr [])
      else Inr [])"
  by pat_completeness auto
termination by (relation "measure (\<lambda>(data, i, e). e - i)") auto

declare line_end.simps [simp del] size_chars.simps [simp del]

lemma line_end_ge: "line_end data pos = Inr e \<Longrightarrow> pos \<le> e"
proof (induction data pos rule: line_end.induct)
  case (1 data i)
  then show ?case
    by (subst (asm) (2) line_end.simps) (fastforce simp: rd_char_def split: if_splits)
qed

text \<open>The loop from position \<open>pos\<close>: what it appends to \<open>out\<close>.\<close>

function chunk_loop :: "string \<Rightarrow> nat \<Rightarrow> string \<Rightarrow> read_fault + string" where
  "chunk_loop data pos out =
     (if pos < length data
      then rd_bind (line_end data pos) (\<lambda>lineEnd.
           if length data \<le> lineEnd then Inr out
           else rd_bind (size_chars data pos lineEnd) (\<lambda>sizeStr.
                (let chunkSize = strtol16 sizeStr
                 in if chunkSize \<le> 0 then Inr out
                    else (let dataStart = lineEnd + 1; n = nat chunkSize
                          in if length data < dataStart + n + 2 then Inr out
                             else rd_bind (rd_range data dataStart n) (\<lambda>bytes.
                                  chunk_loop data (dataStart + n + 2) (out @ bytes))))))
      else Inr out)"
  by pat_completeness auto
termination by (relation "measure (\<lambda>(data, pos, out). length data - pos)") (auto dest: line_end_ge)

declare chunk_loop.simps [simp del]

definition decodeChunked :: "string \<Rightarrow> read_fault + string option" where
  "decodeChunked data = rd_bind (chunk_loop data 0 []) (\<lambda>out. Inr (if out \<noteq> [] then Some out else None))"

section \<open>WebP\<close>

text \<open>One turn of the loop over the RIFF chunks: it returns (a size, or nothing) or goes on at a later
  position. \<open>pos\<close> is a \<open>size_t\<close>; what is added to it is computed in 32 bits.\<close>

datatype webp_turn = Webp_return "(i32 \<times> i32) option" | Webp_next nat

definition positive_size :: "i32 \<Rightarrow> i32 \<Rightarrow> (i32 \<times> i32) option" where
  "positive_size w h = (if 0 <s w \<and> 0 <s h then Some (w, h) else None)"

definition vp8_size :: "string \<Rightarrow> nat \<Rightarrow> read_fault + (i32 \<times> i32) option" where
  "vp8_size b d =
     rd_bind (rd b (d + 3)) (\<lambda>d3.
     rd_bind (if d3 = 0x9d then rd_bind (rd b (d + 4)) (\<lambda>d4.
                if d4 = 0x01 then rd_bind (rd b (d + 5)) (\<lambda>d5. Inr (d5 = 0x2a)) else Inr False)
              else Inr False) (\<lambda>startCode.
     if startCode
     then rd_bind (rd b (d + 6)) (\<lambda>d6. rd_bind (rd b (d + 7)) (\<lambda>d7.
          rd_bind (rd b (d + 8)) (\<lambda>d8. rd_bind (rd b (d + 9)) (\<lambda>d9.
          Inr (positive_size (d6 OR push_bit 8 (d7 AND 0x3f)) (d8 OR push_bit 8 (d9 AND 0x3f)))))))
     else Inr None))"

definition vp8l_size :: "string \<Rightarrow> nat \<Rightarrow> read_fault + (i32 \<times> i32) option" where
  "vp8l_size b d =
     rd_bind (rd b d) (\<lambda>d0.
     if d0 = 0x2f
     then rd_bind (rd b (d + 1)) (\<lambda>d1. rd_bind (rd b (d + 2)) (\<lambda>d2.
          rd_bind (rd b (d + 3)) (\<lambda>d3. rd_bind (rd b (d + 4)) (\<lambda>d4.
          (let bits = d1 OR push_bit 8 d2 OR push_bit 16 d3 OR push_bit 24 d4
           in Inr (positive_size ((bits AND 0x3fff) + 1) ((drop_bit 14 bits AND 0x3fff) + 1)))))))
     else Inr None)"

definition vp8x_size :: "string \<Rightarrow> nat \<Rightarrow> read_fault + (i32 \<times> i32) option" where
  "vp8x_size b d =
     rd_bind (rd b (d + 4)) (\<lambda>d4. rd_bind (rd b (d + 5)) (\<lambda>d5. rd_bind (rd b (d + 6)) (\<lambda>d6.
     rd_bind (rd b (d + 7)) (\<lambda>d7. rd_bind (rd b (d + 8)) (\<lambda>d8. rd_bind (rd b (d + 9)) (\<lambda>d9.
     Inr (positive_size ((d4 OR push_bit 8 d5 OR push_bit 16 d6) + 1) ((d7 OR push_bit 8 d8 OR push_bit 16 d9) + 1))))))))"

definition chunk_size :: "string \<Rightarrow> nat \<Rightarrow> read_fault + u32" where
  "chunk_size b pos =
     rd_bind (rd b (pos + 4)) (\<lambda>x. rd_bind (rd b (pos + 5)) (\<lambda>y.
     rd_bind (rd b (pos + 6)) (\<lambda>z. rd_bind (rd b (pos + 7)) (\<lambda>t.
     Inr (x OR push_bit 8 y OR push_bit 16 z OR push_bit 24 t)))))"

definition chunk_advance :: "u32 \<Rightarrow> u32" where
  "chunk_advance chunkSize = 8 + chunkSize + (chunkSize AND 1)"

definition webp_turn :: "string \<Rightarrow> nat \<Rightarrow> read_fault + webp_turn" where
  "webp_turn b pos =
     (let len = length b; d = pos + 8
      in rd_bind (rd_eq b pos ''VP8 '') (\<lambda>vp8.
         if vp8 then (if len < pos + 8 + 10 then Inr (Webp_return None)
                      else rd_bind (vp8_size b d) (\<lambda>r. Inr (Webp_return r)))
         else rd_bind (rd_eq b pos ''VP8L'') (\<lambda>vp8l.
         if vp8l then (if len < pos + 8 + 5 then Inr (Webp_return None)
                       else rd_bind (vp8l_size b d) (\<lambda>r. Inr (Webp_return r)))
         else rd_bind (rd_eq b pos ''VP8X'') (\<lambda>vp8x.
         if vp8x then (if len < pos + 8 + 10 then Inr (Webp_return None)
                       else rd_bind (vp8x_size b d) (\<lambda>r. Inr (Webp_return r)))
         else rd_bind (chunk_size b pos) (\<lambda>chunkSize. Inr (Webp_next (pos + unat (chunk_advance chunkSize))))))))"

text \<open>The loop may not end: \<open>None\<close> is the run that never returns.\<close>

partial_function (option) webp_loop :: "string \<Rightarrow> nat \<Rightarrow> (read_fault + (i32 \<times> i32) option) option" where
  "webp_loop b pos =
     (if pos + 8 \<le> length b
      then (case webp_turn b pos of
              Inl e \<Rightarrow> Some (Inl e)
            | Inr t \<Rightarrow> (case t of Webp_return r \<Rightarrow> Some (Inr r) | Webp_next pos' \<Rightarrow> webp_loop b pos'))
      else Some (Inr None))"

definition is_webp :: "string \<Rightarrow> read_fault + bool" where
  "is_webp b = rd_bind (rd_eq b 0 ''RIFF'') (\<lambda>riff. if riff then rd_eq b 8 ''WEBP'' else Inr False)"

definition parseWebPHeader :: "string \<Rightarrow> (read_fault + (i32 \<times> i32) option) option" where
  "parseWebPHeader b =
     (if length b < 30 then Some (Inr None)
      else (case is_webp b of
              Inl e \<Rightarrow> Some (Inl e)
            | Inr ok \<Rightarrow> if \<not> ok then Some (Inr None) else webp_loop b 12))"

section \<open>Exchanges with a deadline\<close>

text \<open>What the calls of one bounded operation answer, in order. A call that would block is followed by
  the wait for the socket: the flag says whether time was left and the socket became ready. The end of
  a list is the deadline.\<close>

datatype ssl_connect_try = Connected | Connect_want bool | Connect_failed int
datatype ssl_write_try = Wrote nat | Write_want bool | Write_failed
datatype ssl_read_try = Ssl_data string | Ssl_closed | Read_want bool | Read_failed
datatype send_try = Sent nat bool | Not_sent bool
datatype recv_try = Received string | Not_received bool

fun sslConnectBounded :: "ssl_connect_try list \<Rightarrow> int" where
  "sslConnectBounded [] = 0"
| "sslConnectBounded (Connected # ts) = 1"
| "sslConnectBounded (Connect_want ready # ts) = (if \<not> ready then 0 else sslConnectBounded ts)"
| "sslConnectBounded (Connect_failed ret # ts) = -1"

text \<open>The writes: whether all was sent, and the bytes the peer was given.\<close>

fun sslWriteAllBounded :: "string \<Rightarrow> nat \<Rightarrow> ssl_write_try list \<Rightarrow> bool \<times> string" where
  "sslWriteAllBounded data off ts =
     (if off < length data
      then (case ts of
              [] \<Rightarrow> (False, [])
            | Wrote n # ts' \<Rightarrow> (if 0 < n
                 then (let (ok, sent) = sslWriteAllBounded data (off + n) ts' in (ok, take n (drop off data) @ sent))
                 else (False, []))
            | Write_want ready # ts' \<Rightarrow> (if \<not> ready then (False, []) else sslWriteAllBounded data off ts')
            | Write_failed # ts' \<Rightarrow> (False, []))
      else (True, []))"

fun sockSendAllBounded :: "string \<Rightarrow> nat \<Rightarrow> send_try list \<Rightarrow> bool \<times> string" where
  "sockSendAllBounded data off ts =
     (if off < length data
      then (case ts of
              [] \<Rightarrow> (False, [])
            | Sent n ready # ts' \<Rightarrow> (if 0 < n
                 then (let (ok, sent) = sockSendAllBounded data (off + n) ts' in (ok, take n (drop off data) @ sent))
                 else if \<not> ready then (False, []) else sockSendAllBounded data off ts')
            | Not_sent ready # ts' \<Rightarrow> (if \<not> ready then (False, []) else sockSendAllBounded data off ts'))
      else (True, []))"

declare sslWriteAllBounded.simps [simp del] sockSendAllBounded.simps [simp del]

text \<open>The reads: the length (or error) and the bytes in the buffer of \<open>len\<close> bytes.\<close>

fun sslReadBounded :: "nat \<Rightarrow> ssl_read_try list \<Rightarrow> int \<times> string \<times> ssl_read_try list" where
  "sslReadBounded len [] = (-1, [], [])"
| "sslReadBounded len (Ssl_data s # ts) = (int (length (take len s)), take len s, ts)"
| "sslReadBounded len (Ssl_closed # ts) = (0, [], ts)"
| "sslReadBounded len (Read_want ready # ts) = (if \<not> ready then (-1, [], ts) else sslReadBounded len ts)"
| "sslReadBounded len (Read_failed # ts) = (-1, [], ts)"

fun sockRecvBounded :: "nat \<Rightarrow> recv_try list \<Rightarrow> int \<times> string \<times> recv_try list" where
  "sockRecvBounded len [] = (-1, [], [])"
| "sockRecvBounded len (Received s # ts) = (int (length (take len s)), take len s, ts)"
| "sockRecvBounded len (Not_received ready # ts) = (if \<not> ready then (-1, [], ts) else sockRecvBounded len ts)"

section \<open>The request\<close>

definition kMaxBodyBytes :: nat where "kMaxBodyBytes = 64 * 1024"
definition kMaxRawBytes :: nat where "kMaxRawBytes = 128 * 1024"
definition read_size :: nat where "read_size = 8192"

text \<open>The successful reads of a connection, up to the first that gives nothing.\<close>

lemma sslReadBounded_rest: "sslReadBounded len ts = (n, s, ts') \<Longrightarrow> 0 < n \<Longrightarrow> length ts' < length ts"
  by (induction len ts rule: sslReadBounded.induct) (auto split: if_splits)

lemma sockRecvBounded_rest: "sockRecvBounded len ts = (n, s, ts') \<Longrightarrow> 0 < n \<Longrightarrow> length ts' < length ts"
  by (induction len ts rule: sockRecvBounded.induct) (auto split: if_splits)

function ssl_portions :: "ssl_read_try list \<Rightarrow> string list" where
  "ssl_portions ts = (let (n, s, ts') = sslReadBounded read_size ts in if n \<le> 0 then [] else s # ssl_portions ts')"
  by pat_completeness auto
termination
  by (relation "measure length") (simp, metis sslReadBounded_rest in_measure not_less)

function sock_portions :: "recv_try list \<Rightarrow> string list" where
  "sock_portions ts = (let (n, s, ts') = sockRecvBounded read_size ts in if n \<le> 0 then [] else s # sock_portions ts')"
  by pat_completeness auto
termination
  by (relation "measure length") (simp, metis sockRecvBounded_rest in_measure not_less)

declare ssl_portions.simps [simp del] sock_portions.simps [simp del]

record fetch =
  f_raw :: string
  f_headerEndPos :: "nat option"
  f_contentLength :: int
  f_chunked :: bool
  f_target :: nat
  f_status :: int
  f_location :: string

definition fetch_start :: fetch where
  "fetch_start = \<lparr>f_raw = [], f_headerEndPos = None, f_contentLength = -1, f_chunked = False,
     f_target = kMaxRawBytes, f_status = 0, f_location = []\<rparr>"

text \<open>The status line and the header lines.\<close>

definition status_of_line :: "string \<Rightarrow> fetch \<Rightarrow> fetch" where
  "status_of_line statusLine f =
     (case str_find statusLine (CHR '' '') 0 of
        None \<Rightarrow> f
      | Some p1 \<Rightarrow>
          (let code = drop (p1 + 1) statusLine
           in f\<lparr>f_status := atoi (case str_find code (CHR '' '') 0 of None \<Rightarrow> code | Some p2 \<Rightarrow> substr code 0 p2)\<rparr>))"

definition header_of_line :: "string \<Rightarrow> fetch \<Rightarrow> fetch" where
  "header_of_line line0 f =
     (let line = (if line0 \<noteq> [] \<and> last line0 = CR then butlast line0 else line0)
      in case str_find line (CHR '':'') 0 of
           None \<Rightarrow> f
         | Some colon \<Rightarrow>
             (let name = toLower (substr line 0 colon); value = dropWhile isspace (drop (colon + 1) line)
              in if name = ''content-length'' then f\<lparr>f_contentLength := strtol10 value\<rparr>
                 else if name = ''transfer-encoding'' \<and> find_text value ''chunked'' \<noteq> None then f\<lparr>f_chunked := True\<rparr>
                 else if name = ''location'' then f\<lparr>f_location := rev (dropWhile isspace (rev value))\<rparr>
                 else f))"

definition read_head :: "string \<Rightarrow> fetch \<Rightarrow> fetch" where
  "read_head headerBlock f =
     (case getlines LF headerBlock of
        [] \<Rightarrow> f
      | statusLine # ls \<Rightarrow> fold header_of_line ls (status_of_line statusLine f))"

text \<open>One turn of the loop: whether it goes on, and the state.\<close>

definition receive_portion :: "string \<Rightarrow> fetch \<Rightarrow> bool \<times> fetch" where
  "receive_portion s f =
     (let f1 = f\<lparr>f_raw := f_raw f @ s\<rparr>
      in if f_headerEndPos f1 \<noteq> None then (True, f1)
         else (case find_text (f_raw f1) (CRLF @ CRLF) of
                 None \<Rightarrow> (True, f1)
               | Some it \<Rightarrow>
                   (let headerEndPos = it + 4;
                        f2 = read_head (take headerEndPos (f_raw f1)) (f1\<lparr>f_headerEndPos := Some headerEndPos\<rparr>)
                    in if f_status f2 \<noteq> 200 then (False, f2)
                       else (True, f2\<lparr>f_target :=
                              (if \<not> f_chunked f2 \<and> 0 \<le> f_contentLength f2
                               then headerEndPos + nat (min (f_contentLength f2) (int kMaxBodyBytes))
                               else if f_chunked f2 then headerEndPos + kMaxBodyBytes
                               else kMaxRawBytes)\<rparr>))))"

fun receive_loop :: "string list \<Rightarrow> fetch \<Rightarrow> fetch" where
  "receive_loop [] f = f"
| "receive_loop (s # ss) f =
     (if length (f_raw f) < f_target f
      then (let (go, f') = receive_portion s f in if go then receive_loop ss f' else f')
      else f)"

text \<open>What the exchange gives: whether the request succeeded, and body, status and location.\<close>

record http_answer =
  h_ok :: bool
  h_body :: string
  h_status :: int
  h_location :: string

definition no_answer :: "int \<Rightarrow> string \<Rightarrow> http_answer" where
  "no_answer st loc = \<lparr>h_ok = False, h_body = [], h_status = st, h_location = loc\<rparr>"

definition finish_fetch :: "miniz \<Rightarrow> fetch \<Rightarrow> read_fault + http_answer" where
  "finish_fetch M f =
     (let fail = Inr (no_answer (f_status f) (f_location f))
      in case f_headerEndPos f of
           None \<Rightarrow> fail
         | Some headerEndPos \<Rightarrow>
             (if 300 \<le> f_status f \<and> f_status f < 400
              then Inr \<lparr>h_ok = True, h_body = [], h_status = f_status f, h_location = f_location f\<rparr>
              else if f_status f \<noteq> 200 then fail
              else if length (f_raw f) \<le> headerEndPos then fail
              else (let payload = drop headerEndPos (f_raw f)
                    in rd_bind (if f_chunked f then decodeChunked payload
                                else Inr (Some (if 0 \<le> f_contentLength f \<and> nat (f_contentLength f) < length payload
                                                then take (nat (f_contentLength f)) payload else payload))) (\<lambda>decoded.
                       case decoded of
                         None \<Rightarrow> fail
                       | Some body \<Rightarrow>
                           rd_bind (inflatePayload M body) (\<lambda>inflated.
                             Inr \<lparr>h_ok = True, h_body = (case inflated of Some b \<Rightarrow> b | None \<Rightarrow> body),
                                  h_status = f_status f, h_location = f_location f\<rparr>)))))"

record exchange =
  ex_resolved :: bool
  ex_created :: bool
  ex_connected :: bool
  ex_ctx :: bool
  ex_ssl :: bool
  ex_handshake :: "ssl_connect_try list"
  ex_ssl_writes :: "ssl_write_try list"
  ex_ssl_reads :: "ssl_read_try list"
  ex_sends :: "send_try list"
  ex_recvs :: "recv_try list"
  ex_miniz :: miniz

definition head_request :: "string \<Rightarrow> string \<Rightarrow> string" where
  "head_request host path =
     rb_build (rb_addHeader (rb_addHeader (rb_addHeader (rb_setUrl (rb_setMethod (RequestBuilder_new M_GET) M_GET) path)
       ''Host'' host) ''Connection'' ''close'') ''User-Agent'' ''BlogServer-ImageDimReader/1.0'')"

definition doHttpRequest :: "exchange \<Rightarrow> string \<Rightarrow> int \<Rightarrow> bool \<Rightarrow> string \<Rightarrow> read_fault + http_answer" where
  "doHttpRequest E host port isHttps path =
     (let fail = Inr (no_answer 0 [])
      in if \<not> ex_resolved E \<or> \<not> ex_created E \<or> \<not> ex_connected E then fail
         else if isHttps \<and> (\<not> ex_ctx E \<or> \<not> ex_ssl E \<or> sslConnectBounded (ex_handshake E) \<noteq> 1) then fail
         else (let req = head_request host path;
                   requestSent = (if isHttps then fst (sslWriteAllBounded req 0 (ex_ssl_writes E))
                                  else fst (sockSendAllBounded req 0 (ex_sends E)))
               in if \<not> requestSent then fail
                  else finish_fetch (ex_miniz E)
                         (receive_loop (if isHttps then ssl_portions (ex_ssl_reads E) else sock_portions (ex_recvs E)) fetch_start)))"

section \<open>The reader\<close>

text \<open>\<open>net k\<close> is what the network does in the request number \<open>k\<close>, \<open>stbi\<close> what \<open>stbi_info_from_memory\<close>
  answers. The result is the pair of dimensions, (0, 0) where the reader returns false, and the URLs it
  requested; a run that never returns is None.\<close>

function read_loop :: "(string \<Rightarrow> (i32 \<times> i32) option) \<Rightarrow> (nat \<Rightarrow> exchange) \<Rightarrow> nat \<Rightarrow> string \<Rightarrow>
    ((read_fault + (i32 \<times> i32) option) \<times> string list) option" where
  "read_loop stbi net redirectCount currentUrl =
     (case parseUrl currentUrl of
        None \<Rightarrow> Some (Inr None, [])
      | Some u \<Rightarrow>
          (case doHttpRequest (net redirectCount) (u_host u) (u_port u) (u_scheme u = ''https'') (u_path u) of
             Inl e \<Rightarrow> Some (Inl e, [currentUrl])
           | Inr a \<Rightarrow>
               (if \<not> h_ok a then Some (Inr None, [currentUrl])
                else if 300 \<le> h_status a \<and> h_status a < 400
                then (if 3 \<le> redirectCount \<or> h_location a = [] then Some (Inr None, [currentUrl])
                      else map_option (apsnd ((#) currentUrl))
                             (read_loop stbi net (redirectCount + 1) (resolveRedirectUrl currentUrl (h_location a))))
                else if h_status a \<noteq> 200 then Some (Inr None, [currentUrl])
                else if h_body a = [] then Some (Inr None, [currentUrl])
                else (let body = take kMaxBodyBytes (h_body a)
                      in case stbi body of
                           Some d \<Rightarrow> Some (Inr (Some d), [currentUrl])
                         | None \<Rightarrow> map_option (\<lambda>r. (r, [currentUrl])) (parseWebPHeader body)))))"
  by pat_completeness auto
termination by (relation "measure (\<lambda>(_, _, n, _). 4 - n)") auto

declare read_loop.simps [simp del]

definition readImageDims :: "(string \<Rightarrow> (i32 \<times> i32) option) \<Rightarrow> (nat \<Rightarrow> exchange) \<Rightarrow> string \<Rightarrow>
    ((read_fault + (bool \<times> i32 \<times> i32)) \<times> string list) option" where
  "readImageDims stbi net url =
     map_option (apfst (map_sum id (\<lambda>r. case r of Some (w, h) \<Rightarrow> (True, w, h) | None \<Rightarrow> (False, 0, 0))))
       (read_loop stbi net 0 url)"

section \<open>Reads inside the data\<close>

lemma rd_ok: "i < length b \<Longrightarrow> rd b i = Inr (of_char (b ! i))"
  by (simp add: rd_def)

lemma rd_eq_ok: "i + length t \<le> length b \<Longrightarrow> rd_eq b i t = Inr (take (length t) (drop i b) = t)"
  by (simp add: rd_eq_def)

lemma rd_bind_ok: "(\<And>a. r = Inr a \<Longrightarrow> \<exists>c. f a = Inr c) \<Longrightarrow> (\<exists>a. r = Inr a) \<Longrightarrow> \<exists>c. rd_bind r f = Inr c"
  by auto

lemma gz_skip_ok: "\<exists>r. gz_skip b off = Inr r"
proof (induction b off rule: gz_skip.induct)
  case (1 b off)
  then show ?case by (subst gz_skip.simps) (auto simp: rd_def)
qed

lemma gz_offset_ok: "\<exists>r. gz_offset b = Inr r"
proof (cases "length b < 10")
  case True
  then show ?thesis by (simp add: gz_offset_def)
next
  case False
  then have "\<exists>r. rd b 3 = Inr r" by (simp add: rd_ok)
  with False show ?thesis
    unfolding gz_offset_def
    by (auto intro!: rd_bind_ok gz_skip_ok simp: rd_def split: option.split)
qed

lemma inflate_ok: "\<exists>r. inflatePayload M b = Inr r"
  unfolding inflatePayload_def Let_def
  by (auto intro!: rd_bind_ok gz_offset_ok simp: rd_def)

lemma vp8_size_ok: "pos + 10 \<le> length b \<Longrightarrow> \<exists>r. vp8_size b pos = Inr r"
  unfolding vp8_size_def by (auto intro!: rd_bind_ok simp: rd_def)

lemma vp8l_size_ok: "pos + 5 \<le> length b \<Longrightarrow> \<exists>r. vp8l_size b pos = Inr r"
  unfolding vp8l_size_def Let_def by (auto intro!: rd_bind_ok simp: rd_def)

lemma vp8x_size_ok: "pos + 10 \<le> length b \<Longrightarrow> \<exists>r. vp8x_size b pos = Inr r"
  unfolding vp8x_size_def by (auto intro!: rd_bind_ok simp: rd_def)

lemma chunk_size_ok: "pos + 8 \<le> length b \<Longrightarrow> \<exists>r. chunk_size b pos = Inr r"
  unfolding chunk_size_def by (auto intro!: rd_bind_ok simp: rd_def)

lemma webp_turn_ok: "pos + 8 \<le> length b \<Longrightarrow> \<exists>t. webp_turn b pos = Inr t"
  unfolding webp_turn_def Let_def
  by (intro rd_bind_ok) (auto simp: rd_eq_def intro!: rd_bind_ok vp8_size_ok vp8l_size_ok vp8x_size_ok chunk_size_ok)

lemma webp_loop_ok:
  assumes "webp_loop b pos = Some r"
  shows "\<exists>d. r = Inr d"
proof (rule webp_loop.raw_induct [where P = "\<lambda>b pos r. \<exists>d. r = Inr d", OF _ assms])
  fix f b pos r
  assume IH: "\<And>b pos r. f b pos = Some r \<Longrightarrow> \<exists>d. r = Inr d"
    and eq: "(if pos + 8 \<le> length b
       then (case webp_turn b pos of
               Inl e \<Rightarrow> Some (Inl e)
             | Inr t \<Rightarrow> (case t of Webp_return r \<Rightarrow> Some (Inr r) | Webp_next pos' \<Rightarrow> f b pos'))
       else Some (Inr None)) = Some r"
  show "\<exists>d. r = Inr d"
    using eq webp_turn_ok [of pos b] by (auto split: if_splits webp_turn.splits dest: IH)
qed

lemma is_webp_eq: "30 \<le> length b \<Longrightarrow> is_webp b = Inr (take 4 b = ''RIFF'' \<and> take 4 (drop 8 b) = ''WEBP'')"
proof -
  assume l: "30 \<le> length b"
  have "rd_eq b i t = Inr (take 4 (drop i b) = t)" if "length t = 4" "i \<le> 8" for i t
    using l that by (simp add: rd_eq_def)
  from this [of "''RIFF''" 0] this [of "''WEBP''" 8] show ?thesis by (auto simp: is_webp_def)
qed

lemma webp_header_ok: "parseWebPHeader b = Some r \<Longrightarrow> \<exists>d. r = Inr d"
  by (auto simp: parseWebPHeader_def is_webp_eq split: if_splits dest: webp_loop_ok)

text \<open>The reads of the chunked decoder stay inside, and without them its loop reads as follows.\<close>

lemma line_end_eq:
  "pos \<le> length data \<Longrightarrow> line_end data pos = Inr (pos + length (takeWhile (\<lambda>c. c \<noteq> LF) (drop pos data)))"
proof (induction data pos rule: line_end.induct)
  case (1 data i)
  show ?case
  proof (cases "i < length data")
    case True
    then have d: "drop i data = data ! i # drop (Suc i) data" by (simp add: Cons_nth_drop_Suc)
    show ?thesis using True 1 by (subst line_end.simps) (simp add: rd_char_def d)
  next
    case False
    then show ?thesis by (subst line_end.simps) simp
  qed
qed

lemma size_chars_eq:
  "e \<le> length data \<Longrightarrow> size_chars data i e = Inr (takeWhile (\<lambda>c. c \<noteq> CHR '';'' \<and> c \<noteq> CR) (take (e - i) (drop i data)))"
proof (induction data i e rule: size_chars.induct)
  case (1 data i e)
  show ?case
  proof (cases "i < e")
    case True
    then have d: "take (e - i) (drop i data) = data ! i # take (e - Suc i) (drop (Suc i) data)"
      using 1(2) by (simp add: Cons_nth_drop_Suc [symmetric] Suc_diff_Suc [symmetric])
    show ?thesis using True 1 by (subst size_chars.simps) (auto simp: rd_char_def d)
  next
    case False
    then show ?thesis by (subst size_chars.simps) simp
  qed
qed

lemma chunk_loop_unfold:
  "chunk_loop data pos out =
     (if pos < length data
      then (let lineEnd = pos + length (takeWhile (\<lambda>c. c \<noteq> LF) (drop pos data))
            in if length data \<le> lineEnd then Inr out
               else (let chunkSize = strtol16 (takeWhile (\<lambda>c. c \<noteq> CHR '';'' \<and> c \<noteq> CR) (take (lineEnd - pos) (drop pos data)));
                         dataStart = lineEnd + 1; n = nat chunkSize
                     in if chunkSize \<le> 0 \<or> length data < dataStart + n + 2 then Inr out
                        else chunk_loop data (dataStart + n + 2) (out @ take n (drop dataStart data))))
      else Inr out)"
  by (subst chunk_loop.simps) (simp add: line_end_eq size_chars_eq rd_range_def Let_def)

lemma chunk_loop_ok: "\<exists>r. chunk_loop data pos out = Inr r"
proof (induction "length data - pos" arbitrary: pos out rule: less_induct)
  case less
  then show ?case by (subst chunk_loop_unfold) (auto simp: Let_def)
qed

lemma decode_ok: "\<exists>r. decodeChunked data = Inr r"
  using chunk_loop_ok [of data 0 "[]"] by (auto simp: decodeChunked_def)

lemma finish_fetch_ok: "\<exists>a. finish_fetch M f = Inr a"
  unfolding finish_fetch_def Let_def
  by (auto intro!: rd_bind_ok inflate_ok decode_ok split: option.split)

lemma doHttpRequest_ok: "\<exists>a. doHttpRequest E host port isHttps path = Inr a"
  unfolding doHttpRequest_def Let_def using finish_fetch_ok by auto

lemma read_loop_ok:
  "read_loop stbi net n url = Some (r, urls) \<Longrightarrow> n \<le> 3 \<Longrightarrow>
     (\<exists>d. r = Inr d) \<and> length urls \<le> 4 - n \<and> (\<forall>u \<in> set urls. parseUrl u \<noteq> None)"
proof (induction stbi net n url arbitrary: r urls rule: read_loop.induct)
  case (1 stbi net n url)
  show ?case
  proof (cases "parseUrl url")
    case None
    with "1.prems" show ?thesis by (auto simp: read_loop.simps [of stbi net n url])
  next
    case (Some u)
    obtain a where a: "doHttpRequest (net n) (u_host u) (u_port u) (u_scheme u = ''https'') (u_path u) = Inr a"
      using doHttpRequest_ok by blast
    show ?thesis
    proof (cases "h_ok a \<and> 300 \<le> h_status a \<and> h_status a < 400 \<and> n < 3 \<and> h_location a \<noteq> []")
      case True
      then obtain r' urls' where "read_loop stbi net (n + 1) (resolveRedirectUrl url (h_location a)) = Some (r', urls')"
          "r = r'" "urls = url # urls'"
        using "1.prems"(1) Some a by (auto simp: read_loop.simps [of stbi net n url] apsnd_def map_prod_def)
      with "1.IH" [OF Some a] True Some show ?thesis by fastforce
    next
      case False
      then have "(\<exists>d. r = Inr d) \<and> urls = [url]"
        using "1.prems"(1) Some a
        by (auto simp: read_loop.simps [of stbi net n url] Let_def split: if_splits option.splits dest: webp_header_ok)
      with Some "1.prems"(2) show ?thesis by simp
    qed
  qed
qed

text \<open>
  C38. Whatever bytes a server sends, the parsers of the image reader stay inside them: no read of the
  gzip header, of a chunked body, of the chunks of a WebP file or of its frame headers is out of bounds, so
  none of the runs of the reader ends in a read fault.
\<close>
theorem image_reads_in_bounds:
  "parseWebPHeader b \<noteq> Some (Inl e) \<and> inflatePayload M b \<noteq> Inl e \<and> decodeChunked b \<noteq> Inl e
   \<and> readImageDims stbi net url \<noteq> Some (Inl e, urls)"
proof (intro conjI)
  show "decodeChunked b \<noteq> Inl e" using decode_ok [of b] by auto
  show "parseWebPHeader b \<noteq> Some (Inl e)" using webp_header_ok by blast
  show "inflatePayload M b \<noteq> Inl e" using inflate_ok [of M b] by auto
  show "readImageDims stbi net url \<noteq> Some (Inl e, urls)"
    using read_loop_ok [of stbi net 0 url] by (fastforce simp: readImageDims_def apfst_def map_prod_def)
qed

section \<open>The loop that does not end\<close>

text \<open>The positions the loop visits.\<close>

inductive webp_reaches :: "string \<Rightarrow> nat \<Rightarrow> bool" for b where
  webp_first: "webp_reaches b 12"
| webp_further: "webp_reaches b pos \<Longrightarrow> pos + 8 \<le> length b \<Longrightarrow> webp_turn b pos = Inr (Webp_next pos') \<Longrightarrow> webp_reaches b pos'"

lemma chunk_advance_zero: "chunk_advance n = 0 \<longleftrightarrow> n = 0xFFFFFFF7 \<or> n = 0xFFFFFFF8"
proof (cases "odd n")
  case True
  then have "n AND 1 = 1" by (simp add: and_one_eq mod_2_eq_odd)
  moreover have "9 + n = 0 \<longleftrightarrow> n = - 9" by (metis add.commute eq_neg_iff_add_eq_0)
  moreover have "n \<noteq> 0xFFFFFFF8" using True by auto
  moreover have "(- 9 :: u32) = 0xFFFFFFF7" by simp
  ultimately show ?thesis by (simp add: chunk_advance_def)
next
  case False
  then have "n AND 1 = 0" by (simp add: and_one_eq mod_2_eq_odd)
  moreover have "8 + n = 0 \<longleftrightarrow> n = - 8" by (metis add.commute eq_neg_iff_add_eq_0)
  moreover have "n \<noteq> 0xFFFFFFF7" using False by auto
  moreover have "(- 8 :: u32) = 0xFFFFFFF8" by simp
  ultimately show ?thesis by (simp add: chunk_advance_def)
qed

text \<open>A chunk of another kind than the three the reader knows.\<close>

definition other_chunk :: "string \<Rightarrow> nat \<Rightarrow> bool" where
  "other_chunk b pos \<longleftrightarrow> take 4 (drop pos b) \<notin> {''VP8 '', ''VP8L'', ''VP8X''}"

lemma webp_turn_next:
  assumes "pos + 8 \<le> length b"
  shows "webp_turn b pos = Inr (Webp_next pos') \<longleftrightarrow>
    other_chunk b pos \<and> (\<exists>n. chunk_size b pos = Inr n \<and> pos' = pos + unat (chunk_advance n))"
proof -
  obtain n where n: "chunk_size b pos = Inr n" using chunk_size_ok [OF assms] by blast
  have ret: "rd_bind x (\<lambda>r. Inr (Webp_return r)) \<noteq> Inr (Webp_next pos')" for x by (cases x) simp_all
  have "rd_eq b pos t = Inr (take 4 (drop pos b) = t)" if "length t = 4" for t
    using assms that by (simp add: rd_eq_def)
  from this [of "''VP8 ''"] this [of "''VP8L''"] this [of "''VP8X''"] show ?thesis
    using n ret by (auto simp: webp_turn_def other_chunk_def Let_def)
qed

lemma webp_loop_unfold_next:
  "pos + 8 \<le> length b \<Longrightarrow> webp_turn b pos = Inr (Webp_next pos') \<Longrightarrow> webp_loop b pos = webp_loop b pos'"
  by (subst webp_loop.simps) simp

lemma webp_reaches_same: "webp_reaches b pos \<Longrightarrow> webp_loop b 12 = webp_loop b pos"
  by (induction rule: webp_reaches.induct) (simp_all add: webp_loop_unfold_next)

lemma webp_stuck:
  assumes "pos + 8 \<le> length b" "webp_turn b pos = Inr (Webp_next pos)"
  shows "webp_loop b pos = None"
proof -
  have "b' = b \<longrightarrow> p' = pos \<longrightarrow> False" if "webp_loop b' p' = Some r" for b' p' r
    by (rule webp_loop.raw_induct [where P = "\<lambda>b' p' r. b' = b \<longrightarrow> p' = pos \<longrightarrow> False", OF _ that])
      (use assms in \<open>fastforce split: if_splits\<close>)
  then show ?thesis by (cases "webp_loop b pos") auto
qed

text \<open>Without a stuck position every turn moves on, and the loop ends.\<close>

lemma webp_moves:
  assumes "\<And>p. webp_reaches b p \<Longrightarrow> p + 8 \<le> length b \<Longrightarrow> webp_turn b p \<noteq> Inr (Webp_next p)"
    "webp_reaches b pos"
  shows "\<exists>r. webp_loop b pos = Some r"
  using assms(2)
proof (induction "length b - pos" arbitrary: pos rule: less_induct)
  case less
  show ?case
  proof (cases "pos + 8 \<le> length b")
    case False
    then show ?thesis by (subst webp_loop.simps) simp
  next
    case True
    then obtain t where t: "webp_turn b pos = Inr t" using webp_turn_ok by blast
    show ?thesis
    proof (cases t)
      case (Webp_return r)
      with True t show ?thesis by (subst webp_loop.simps) simp
    next
      case (Webp_next p)
      with t webp_turn_next [OF True, of p] have "pos \<le> p" by auto
      moreover have "p \<noteq> pos" using assms(1) [OF less.prems True] t Webp_next by auto
      ultimately have "length b - p < length b - pos" using True by arith
      with less.hyps [of p] webp_further [OF less.prems True] t Webp_next webp_loop_unfold_next [OF True]
      show ?thesis by simp
    qed
  qed
qed

lemma webp_stuck_chunk:
  "pos + 8 \<le> length b \<Longrightarrow> webp_turn b pos = Inr (Webp_next pos) \<longleftrightarrow>
     other_chunk b pos \<and> (chunk_size b pos = Inr 0xFFFFFFF7 \<or> chunk_size b pos = Inr 0xFFFFFFF8)"
  using webp_turn_next [of pos b pos] chunk_advance_zero by (auto simp: unat_eq_0)

text \<open>
  C39. When the WebP scan returns: a file keeps \<open>parseWebPHeader\<close> in its loop for ever exactly if the scan
  comes to a chunk of an unknown kind whose length is 0xFFFFFFF7 or 0xFFFFFFF8, for which the 32-bit
  sum \<open>8 + chunkSize + (chunkSize & 1)\<close> is zero.
\<close>
theorem webp_hangs_exactly:
  "parseWebPHeader b = None \<longleftrightarrow>
     30 \<le> length b \<and> take 4 b = ''RIFF'' \<and> take 4 (drop 8 b) = ''WEBP''
     \<and> (\<exists>pos. webp_reaches b pos \<and> pos + 8 \<le> length b \<and> other_chunk b pos
           \<and> (chunk_size b pos = Inr 0xFFFFFFF7 \<or> chunk_size b pos = Inr 0xFFFFFFF8))"
proof (cases "30 \<le> length b \<and> take 4 b = ''RIFF'' \<and> take 4 (drop 8 b) = ''WEBP''")
  case False
  then show ?thesis by (auto simp: parseWebPHeader_def is_webp_eq)
next
  case True
  then have p: "parseWebPHeader b = webp_loop b 12" by (simp add: parseWebPHeader_def is_webp_eq)
  let ?stuck = "\<lambda>p. webp_reaches b p \<and> p + 8 \<le> length b \<and> webp_turn b p = Inr (Webp_next p)"
  have "webp_loop b 12 = None \<longleftrightarrow> (\<exists>p. ?stuck p)"
  proof
    assume "webp_loop b 12 = None"
    with webp_moves [of b 12, OF _ webp_first] show "\<exists>p. ?stuck p" by force
  next
    assume "\<exists>p. ?stuck p"
    then obtain p where "?stuck p" by blast
    then show "webp_loop b 12 = None" using webp_stuck [of p b] webp_reaches_same [of b p] by auto
  qed
  moreover have "?stuck p \<longleftrightarrow> webp_reaches b p \<and> p + 8 \<le> length b \<and> other_chunk b p
      \<and> (chunk_size b p = Inr 0xFFFFFFF7 \<or> chunk_size b p = Inr 0xFFFFFFF8)" for p
    using webp_stuck_chunk [of p b] by blast
  ultimately show ?thesis using p True by simp
qed

definition hanging_webp :: string where
  "hanging_webp = ''RIFF'' @ [NUL, NUL, NUL, NUL] @ ''WEBPJUNK'' @ [CHR 0xF8, CHR 0xFF, CHR 0xFF, CHR 0xFF] @ replicate 10 NUL"

theorem webp_hangs_exactly_witness: "parseWebPHeader hanging_webp = None"
proof -
  have "chunk_size hanging_webp 12 = Inr 0xFFFFFFF8" by (simp add: chunk_size_def rd_def hanging_webp_def)
  moreover have "other_chunk hanging_webp 12" "12 + 8 \<le> length hanging_webp"
      "30 \<le> length hanging_webp \<and> take 4 hanging_webp = ''RIFF'' \<and> take 4 (drop 8 hanging_webp) = ''WEBP''"
    by (simp_all add: other_chunk_def hanging_webp_def)
  ultimately show ?thesis
    using webp_hangs_exactly [of hanging_webp] webp_first by blast
qed

section \<open>Chunked bodies\<close>

record chunk =
  ck_size_text :: string
  ck_extension :: string
  ck_data :: string

definition chunk_ok :: "chunk \<Rightarrow> bool" where
  "chunk_ok c \<longleftrightarrow> list_all is_hex (ck_size_text c) \<and> hex_num (ck_size_text c) = length (ck_data c) \<and> ck_data c \<noteq> []
     \<and> length (ck_data c) < 2 ^ 63 \<and> LF \<notin> set (ck_extension c) \<and> (ck_extension c = [] \<or> hd (ck_extension c) = CHR '';'')"

definition chunk_head :: "chunk \<Rightarrow> string" where
  "chunk_head c = ck_size_text c @ ck_extension c @ CRLF"

definition chunk_text :: "chunk \<Rightarrow> string" where
  "chunk_text c = chunk_head c @ ck_data c @ CRLF"

lemma is_hex_not:
  "is_hex c \<Longrightarrow> \<not> isspace c \<and> c \<noteq> CHR ''-'' \<and> c \<noteq> CHR ''+'' \<and> c \<noteq> CHR ''x'' \<and> c \<noteq> CHR ''X'' \<and> c \<noteq> LF \<and> c \<noteq> CR \<and> c \<noteq> CHR '';''"
  by (auto simp: is_hex_def hex_digit_val_def isdigit_def isspace_def char_le_iff)

lemma strtol16_digits:
  assumes "list_all is_hex s" "hex_num s < 2 ^ 63"
  shows "strtol16 s = int (hex_num s)"
proof -
  have "dropWhile isspace s = s" using assms(1) is_hex_not by (cases s) auto
  moreover have "split_sign s = (False, s)" using assms(1) is_hex_not by (cases s) auto
  moreover have "skip_0x s = s"
    using assms(1) is_hex_not by (auto simp: skip_0x_def list_all_length)
  moreover have "hex_num (takeWhile is_hex s) = hex_num s"
    using assms(1) by (metis list_all_iff takeWhile_eq_all_conv)
  ultimately show ?thesis using assms(2) by (simp add: strtol16_def saturate64_def)
qed

lemma chunk_loop_line:
  assumes "chunk_ok c"
  shows "chunk_loop (pre @ chunk_head c @ rest) (length pre) out =
    (if length rest < length (ck_data c) + 2 then Inr out
     else chunk_loop (pre @ chunk_head c @ rest) (length pre + length (chunk_head c) + length (ck_data c) + 2)
            (out @ take (length (ck_data c)) rest))"
proof -
  let ?t = "ck_size_text c" and ?e = "ck_extension c" and ?data = "pre @ chunk_head c @ rest"
  have hex: "list_all is_hex ?t" "hex_num ?t = length (ck_data c)" "ck_data c \<noteq> []"
      "length (ck_data c) < 2 ^ 63" "LF \<notin> set ?e" "?e = [] \<or> hd ?e = CHR '';''"
    using assms by (simp_all add: chunk_ok_def)
  have stop: "\<forall>x \<in> set ?t. x \<noteq> LF \<and> x \<noteq> CR \<and> x \<noteq> CHR '';''"
    using hex(1) is_hex_not by (auto simp: list_all_iff)
  have l: "takeWhile (\<lambda>c. c \<noteq> LF) (chunk_head c @ rest) = ?t @ ?e @ [CR]"
    using takeWhile_delim [of LF "?t @ ?e @ [CR]" rest] stop hex(5) by (auto simp: chunk_head_def)
  have "?e @ [CR] = (case ?e of [] \<Rightarrow> [CR] | x # xs \<Rightarrow> CHR '';'' # xs @ [CR])"
    using hex(6) by (auto split: list.split)
  then have sz: "takeWhile (\<lambda>c. c \<noteq> CHR '';'' \<and> c \<noteq> CR) (?t @ ?e @ [CR]) = ?t"
    using stop by (auto simp: takeWhile_append2 split: list.splits)
  have n: "strtol16 ?t = int (length (ck_data c))" using strtol16_digits [OF hex(1)] hex(2,4) by simp
  have "take (length ?t + (length ?e + 1)) (chunk_head c @ rest) = ?t @ ?e @ [CR]" by (simp add: chunk_head_def)
  then show ?thesis
    using hex(3) l sz n
    by (subst chunk_loop_unfold) (auto simp: Let_def chunk_head_def add_ac)
qed

lemma chunk_loop_chunks:
  "list_all chunk_ok cs \<Longrightarrow>
     chunk_loop (pre @ concat (map chunk_text cs) @ rest) (length pre) out =
     chunk_loop (pre @ concat (map chunk_text cs) @ rest) (length (pre @ concat (map chunk_text cs))) (out @ concat (map ck_data cs))"
proof (induction cs arbitrary: pre out)
  case (Cons c cs)
  let ?more = "concat (map chunk_text cs) @ rest"
  have "chunk_loop (pre @ chunk_text c @ ?more) (length pre) out =
      chunk_loop ((pre @ chunk_text c) @ ?more) (length (pre @ chunk_text c)) (out @ ck_data c)"
    using chunk_loop_line [of c pre "ck_data c @ CRLF @ ?more" out] Cons.prems
    by (simp add: chunk_text_def add_ac)
  also have "\<dots> = chunk_loop ((pre @ chunk_text c) @ ?more) (length ((pre @ chunk_text c) @ concat (map chunk_text cs)))
      ((out @ ck_data c) @ concat (map ck_data cs))"
    using Cons.IH [of "pre @ chunk_text c" "out @ ck_data c"] Cons.prems by simp
  finally show ?case by simp
qed simp

lemma chunk_loop_last: "chunk_loop (pre @ ''0'' @ CRLF @ CRLF) (length pre) out = Inr out"
proof -
  have "strtol16 ''0'' = 0" by (simp add: strtol16_digits is_hex_def hex_digit_val_def isdigit_def hex_num_def)
  then show ?thesis by (subst chunk_loop_unfold) (simp add: Let_def)
qed

text \<open>
  A chunked body is decoded to the data of its chunks, for any writing of the sizes and any chunk
  extensions; but a first chunk that is not complete gives nothing at all, although the reader stops the
  download after 64 KiB of body and only needs the first bytes.
\<close>
theorem decodeChunked_inverts:
  assumes "list_all chunk_ok cs" "cs \<noteq> []" "chunk_ok c" "n < length (ck_data c) + 2"
  shows "decodeChunked (concat (map chunk_text cs) @ ''0'' @ CRLF @ CRLF) = Inr (Some (concat (map ck_data cs)))
    \<and> decodeChunked (chunk_head c @ take n (ck_data c @ CRLF)) = Inr None"
proof
  have "concat (map ck_data cs) \<noteq> []" using assms(1,2) by (cases cs) (simp_all add: chunk_ok_def)
  then show "decodeChunked (concat (map chunk_text cs) @ ''0'' @ CRLF @ CRLF) = Inr (Some (concat (map ck_data cs)))"
    using chunk_loop_chunks [OF assms(1), of "[]" "''0'' @ CRLF @ CRLF" "[]"]
      chunk_loop_last [of "concat (map chunk_text cs)" "concat (map ck_data cs)"]
    by (simp add: decodeChunked_def)
  show "decodeChunked (chunk_head c @ take n (ck_data c @ CRLF)) = Inr None"
  proof -
    have "length (take n (ck_data c @ CRLF)) < length (ck_data c) + 2" using assms(4) by simp
    then have "chunk_loop (chunk_head c @ take n (ck_data c @ CRLF)) 0 [] = Inr []"
      using chunk_loop_line [OF assms(3), of "[]" "take n (ck_data c @ CRLF)" "[]"]
      by (simp only: if_True append_Nil list.size(3))
    then show ?thesis by (simp only: decodeChunked_def Let_def) simp
  qed
qed

theorem decodeChunked_inverts_witness:
  "decodeChunked (''4;x=1'' @ CRLF @ ''RIFF'' @ CRLF @ ''0'' @ CRLF @ CRLF) = Inr (Some ''RIFF'')
   \<and> decodeChunked (''4;x=1'' @ CRLF @ ''RIF'') = Inr None"
proof -
  let ?c = "\<lparr>ck_size_text = ''4'', ck_extension = '';x=1'', ck_data = ''RIFF''\<rparr>"
  have "chunk_ok ?c" by (simp add: chunk_ok_def is_hex_def hex_digit_val_def isdigit_def hex_num_def)
  then show ?thesis
    using decodeChunked_inverts [of "[?c]" ?c 3] by (simp add: chunk_text_def chunk_head_def)
qed

section \<open>Redirects\<close>

lemma find_text_some:
  assumes "i + length t \<le> length s" "take (length t) (drop i s) = t" "\<And>j. j < i \<Longrightarrow> take (length t) (drop j s) \<noteq> t"
  shows "find_text s t = Some i"
proof -
  let ?xs = "[0..<length s + 1 - length t]"
  have "i < length ?xs" using assms(1) by simp
  then show ?thesis
    using assms(2,3) unfolding find_text_def by (auto simp: find_Some_iff intro!: exI [of _ i])
qed

lemma find_text_hit: "find_text s t = Some i \<Longrightarrow> take (length t) (drop i s) = t \<and> i + length t \<le> length s"
  unfolding find_text_def find_Some_iff by auto

lemma find_text_first:
  assumes "t \<noteq> []" "hd t \<notin> set a"
  shows "find_text (a @ t @ r) t = Some (length a)"
proof (rule find_text_some)
  fix j assume j: "j < length a"
  show "take (length t) (drop j (a @ t @ r)) \<noteq> t"
  proof
    assume "take (length t) (drop j (a @ t @ r)) = t"
    then have "hd t = (a @ t @ r) ! j" using assms(1) j by (metis hd_take hd_drop_conv_nth length_append length_greater_0_conv trans_less_add1)
    with j assms(2) show False by (simp add: nth_append)
  qed
qed simp_all

lemma str_find_from: "c \<notin> set b \<Longrightarrow> str_find (a @ b @ c # d) c (length a) = Some (length a + length b)"
  by (simp add: str_find_def)

lemma atoi_to_string: "n < 2 ^ 31 \<Longrightarrow> atoi (to_string n) = int n"
proof -
  assume n: "n < 2 ^ 31"
  let ?s = "to_string n"
  have d: "\<forall>c \<in> set ?s. isdigit c" by (rule to_string_digits)
  obtain c cs where s: "?s = c # cs" by (cases ?s) simp_all
  with d have c: "isdigit c" by simp
  have "dropWhile isspace ?s = ?s" using c unfolding s by (auto simp: isspace_def isdigit_def char_le_iff)
  moreover have "split_sign ?s = (False, ?s)" using c unfolding s by (auto simp: isdigit_def char_le_iff)
  moreover have "dec_value (takeWhile isdigit ?s) = n" using d by (metis takeWhile_eq_all_conv dec_value_to_string)
  ultimately have "strtol10 ?s = int n" using n by (simp add: strtol10_def saturate64_def)
  moreover have "sint (word_of_nat n :: i32) = int n" using n by (simp add: sint_small unat_of_nat_small)
  ultimately show ?thesis by (simp add: atoi_def)
qed

text \<open>A URL as the code builds it, and the parts it is made of.\<close>

definition default_port :: "url_parts \<Rightarrow> bool" where
  "default_port u \<longleftrightarrow> u_scheme u = ''http'' \<and> u_port u = 80 \<or> u_scheme u = ''https'' \<and> u_port u = 443"

definition origin_text :: "url_parts \<Rightarrow> string" where
  "origin_text u = u_scheme u @ ''://'' @ u_host u @ (if default_port u then [] else '':'' @ int_to_string (u_port u))"

definition url_text :: "url_parts \<Rightarrow> string" where
  "url_text u = origin_text u @ u_path u"

definition url_ok :: "url_parts \<Rightarrow> bool" where
  "url_ok u \<longleftrightarrow> u_scheme u \<in> {''http'', ''https''} \<and> u_host u \<noteq> [] \<and> CHR '':'' \<notin> set (u_host u) \<and> CHR ''/'' \<notin> set (u_host u)
     \<and> 0 \<le> u_port u \<and> u_port u < 2 ^ 31 \<and> u_path u \<noteq> [] \<and> hd (u_path u) = CHR ''/''"

lemma parse_url_text:
  assumes "url_ok u"
  shows "parseUrl (url_text u) = Some u"
proof -
  let ?s = "u_scheme u"
  define a where "a = u_host u @ (if default_port u then [] else '':'' @ int_to_string (u_port u))"
  have ok: "?s = ''http'' \<or> ?s = ''https''" "u_host u \<noteq> []" "CHR '':'' \<notin> set (u_host u)" "CHR ''/'' \<notin> set (u_host u)"
      "0 \<le> u_port u" "u_port u < 2 ^ 31"
    using assms by (auto simp: url_ok_def)
  obtain q where p: "u_path u = CHR ''/'' # q" using assms by (cases "u_path u") (auto simp: url_ok_def)
  have port: "int_to_string (u_port u) = to_string (nat (u_port u))" using ok(5) by (simp add: int_to_string_def)
  have digits: "\<forall>c \<in> set (to_string n). isdigit c" for n by (rule to_string_digits)
  have t: "url_text u = ?s @ ''://'' @ a @ CHR ''/'' # q" by (simp add: url_text_def origin_text_def p a_def)
  have colon: "CHR '':'' \<notin> set ?s" using ok(1) by auto
  have slash: "CHR ''/'' \<notin> set a"
    using ok(4) digits [of "nat (u_port u)"] by (auto simp: a_def port isdigit_def char_le_iff)
  have 1: "find_text (url_text u) ''://'' = Some (length ?s)"
    unfolding t using find_text_first [of "''://''" ?s] colon by simp
  have 2: "str_find (url_text u) (CHR ''/'') (length ?s + 3) = Some (length ?s + 3 + length a)"
    unfolding t using str_find_from [OF slash, of "?s @ ''://''" q] by (simp add: eval_nat_numeral)
  have 3: "substr (url_text u) 0 (length ?s) = ?s" "substr (url_text u) (length ?s + 3) (length a) = a"
      "drop (length ?s + 3 + length a) (url_text u) = CHR ''/'' # q"
    unfolding t by (simp_all add: substr_def eval_nat_numeral)
  have low: "toLower ?s = ?s" using ok(1) by (auto simp: toLower_def tolower_def char_le_iff)
  show ?thesis
  proof (cases "default_port u")
    case True
    then have "u_port u = (if ?s = ''https'' then 443 else 80)" by (auto simp: default_port_def)
    with True ok(1,2,3) 1 2 3 low p show ?thesis
      by (simp add: parseUrl_def str_find_None a_def Let_def)
  next
    case False
    have "str_find a (CHR '':'') 0 = Some (length (u_host u))" using False str_find_append [OF ok(3)] by (simp add: a_def)
    moreover have "substr a 0 (length (u_host u)) = u_host u" "drop (length (u_host u) + 1) a = to_string (nat (u_port u))"
      using False by (simp_all add: substr_def port a_def)
    moreover have "list_all isdigit (to_string (nat (u_port u)))" using digits by (simp add: list_all_iff)
    moreover have "atoi (to_string (nat (u_port u))) = u_port u" using atoi_to_string [of "nat (u_port u)"] ok(5,6) by simp
    ultimately show ?thesis using ok(1,2) 1 2 3 low p by (simp add: parseUrl_def Let_def)
  qed
qed

lemma resolve_absolute_path:
  assumes "url_ok u" "find_text loc ''://'' = None" "loc = CHR ''/'' # l" "l = [] \<or> hd l \<noteq> CHR ''/''"
  shows "resolveRedirectUrl (url_text u) loc = url_text (u\<lparr>u_path := loc\<rparr>)"
proof -
  have "\<not> (2 \<le> length loc \<and> loc ! 0 = CHR ''/'' \<and> loc ! 1 = CHR ''/'')" using assms(3,4) by (cases l) auto
  then show ?thesis
    using assms(2,3) parse_url_text [OF assms(1)]
    by (simp add: resolveRedirectUrl_def url_text_def origin_text_def default_port_def)
qed

lemma parse_no_scheme:
  assumes "loc = CHR ''/'' # l"
  shows "parseUrl loc = None"
proof (cases "find_text loc ''://''")
  case (Some pos)
  then have "pos \<noteq> 0" using assms find_text_hit [OF Some] by (cases pos) auto
  then have "substr loc 0 pos \<noteq> []" "hd (substr loc 0 pos) = CHR ''/''"
    using assms by (auto simp: substr_def take_Cons split: nat.split)
  then have "hd (toLower (substr loc 0 pos)) = CHR ''/''" by (simp add: toLower_def hd_map tolower_def char_le_iff)
  then have "toLower (substr loc 0 pos) \<noteq> ''http'' \<and> toLower (substr loc 0 pos) \<noteq> ''https''" by auto
  with Some show ?thesis by (simp add: parseUrl_def)
qed (simp add: parseUrl_def)

text \<open>
  URLs are split into the parts they are built from, and a redirect to an absolute path stays on the
  origin: scheme, host and port of the next request are those of the last. A path whose text contains
  "://", as in a query that names another URL, is taken for an absolute URL and the fetch fails.
\<close>
theorem redirect_keeps_origin:
  assumes "url_ok u" "loc = CHR ''/'' # l" "l = [] \<or> hd l \<noteq> CHR ''/''"
  shows "parseUrl (url_text u) = Some u
    \<and> parseUrl (resolveRedirectUrl (url_text u) loc) = (if find_text loc ''://'' = None then Some (u\<lparr>u_path := loc\<rparr>) else None)"
proof (cases "find_text loc ''://'' = None")
  case True
  have "url_ok (u\<lparr>u_path := loc\<rparr>)" using assms(1,2) by (simp add: url_ok_def)
  with True show ?thesis
    using parse_url_text [OF assms(1)] parse_url_text resolve_absolute_path [OF assms(1) True assms(2,3)] by simp
next
  case False
  then have "resolveRedirectUrl (url_text u) loc = loc" by (simp add: resolveRedirectUrl_def)
  with False show ?thesis using parse_url_text [OF assms(1)] parse_no_scheme [OF assms(2)] by simp
qed

theorem redirect_keeps_origin_witness:
  "parseUrl (resolveRedirectUrl ''https://img.example:81/a/b.webp'' ''/c.webp'')
     = Some \<lparr>u_scheme = ''https'', u_host = ''img.example'', u_port = 81, u_path = ''/c.webp''\<rparr>"
proof -
  let ?u = "\<lparr>u_scheme = ''https'', u_host = ''img.example'', u_port = 81, u_path = ''/a/b.webp''\<rparr>"
  have "to_string 81 = ''81''" by code_simp
  then have t: "url_text ?u = ''https://img.example:81/a/b.webp''"
    by (simp add: url_text_def origin_text_def default_port_def int_to_string_def)
  have ok: "url_ok ?u" by (simp add: url_ok_def)
  have n: "find_text ''/c.webp'' ''://'' = None" by code_simp
  have "parseUrl (resolveRedirectUrl (url_text ?u) ''/c.webp'')
      = (if find_text ''/c.webp'' ''://'' = None then Some (?u\<lparr>u_path := ''/c.webp''\<rparr>) else None)"
    by (rule redirect_keeps_origin [OF ok refl, THEN conjunct2]) simp
  then show ?thesis by (simp only: n t if_True simp_thms url_parts.update_convs)
qed

section \<open>Bounds of a download\<close>

lemma status_of_line_frame [simp]: "f_raw (status_of_line l f) = f_raw f" "f_headerEndPos (status_of_line l f) = f_headerEndPos f" "f_target (status_of_line l f) = f_target f"
  by (simp_all add: status_of_line_def Let_def split: option.split)

lemma header_of_line_frame [simp]: "f_raw (header_of_line l f) = f_raw f" "f_headerEndPos (header_of_line l f) = f_headerEndPos f" "f_target (header_of_line l f) = f_target f"
  by (simp_all add: header_of_line_def Let_def split: option.split)

lemma fold_header_frame [simp]: "f_raw (fold header_of_line ls f) = f_raw f" "f_headerEndPos (fold header_of_line ls f) = f_headerEndPos f" "f_target (fold header_of_line ls f) = f_target f"
  by (induction ls arbitrary: f) simp_all

lemma read_head_frame [simp]: "f_raw (read_head b f) = f_raw f" "f_headerEndPos (read_head b f) = f_headerEndPos f" "f_target (read_head b f) = f_target f"
  by (simp_all add: read_head_def split: list.split)

definition fetch_bounded :: "fetch \<Rightarrow> bool" where
  "fetch_bounded f \<longleftrightarrow>
     (case f_headerEndPos f of
        None \<Rightarrow> length (f_raw f) < kMaxRawBytes + read_size \<and> f_target f = kMaxRawBytes
      | Some e \<Rightarrow> e < kMaxRawBytes + read_size \<and> f_target f \<le> kMaxRawBytes + read_size + kMaxBodyBytes
          \<and> length (f_raw f) < kMaxRawBytes + kMaxBodyBytes + 2 * read_size)"

lemma receive_portion_bounded:
  assumes "fetch_bounded f" "length s \<le> read_size" "length (f_raw f) < f_target f"
  shows "fetch_bounded (snd (receive_portion s f))"
proof (cases "f_headerEndPos f")
  case (Some e)
  with assms show ?thesis by (simp add: receive_portion_def fetch_bounded_def Let_def)
next
  case None
  then have l: "length (f_raw f @ s) < kMaxRawBytes + read_size" using assms by (simp add: fetch_bounded_def)
  show ?thesis
  proof (cases "find_text (f_raw f @ s) (CRLF @ CRLF)")
    case n: None
    with None l assms(1) show ?thesis by (simp add: receive_portion_def fetch_bounded_def)
  next
    case (Some it)
    then have "it + 4 \<le> length (f_raw f @ s)" using find_text_hit [OF Some] by simp
    with None Some l assms(1) show ?thesis
      by (auto simp: receive_portion_def fetch_bounded_def Let_def kMaxBodyBytes_def kMaxRawBytes_def read_size_def)
  qed
qed

lemma receive_loop_bounded:
  "fetch_bounded f \<Longrightarrow> \<forall>s \<in> set ss. length s \<le> read_size \<Longrightarrow> fetch_bounded (receive_loop ss f)"
proof (induction ss arbitrary: f)
  case (Cons s ss)
  show ?case
  proof (cases "length (f_raw f) < f_target f")
    case True
    then have "fetch_bounded (snd (receive_portion s f))" using receive_portion_bounded Cons.prems by simp
    with True Cons show ?thesis by (simp add: case_prod_unfold Let_def)
  qed (use Cons.prems in simp)
qed simp

lemma sslReadBounded_size: "sslReadBounded len ts = (n, s, ts') \<Longrightarrow> length s \<le> len"
  by (induction len ts rule: sslReadBounded.induct) (auto split: if_splits)

lemma sockRecvBounded_size: "sockRecvBounded len ts = (n, s, ts') \<Longrightarrow> length s \<le> len"
  by (induction len ts rule: sockRecvBounded.induct) (auto split: if_splits)

lemma ssl_portions_size: "\<forall>s \<in> set (ssl_portions ts). length s \<le> read_size"
proof (induction ts rule: ssl_portions.induct)
  case (1 ts)
  obtain n s ts' where r: "sslReadBounded read_size ts = (n, s, ts')" by (metis prod_cases3)
  with 1 sslReadBounded_size [OF r] show ?case by (subst ssl_portions.simps) auto
qed

lemma sock_portions_size: "\<forall>s \<in> set (sock_portions ts). length s \<le> read_size"
proof (induction ts rule: sock_portions.induct)
  case (1 ts)
  obtain n s ts' where r: "sockRecvBounded read_size ts = (n, s, ts')" by (metis prod_cases3)
  with 1 sockRecvBounded_size [OF r] show ?case by (subst sock_portions.simps) auto
qed

text \<open>
  However long a server goes on sending, one exchange keeps less than 128 + 64 + 16 KiB (more than the
  cap of 128 KiB the code names, for the header may fill that before the body is counted), and the
  reader makes at most four requests, each for a URL it can split.
\<close>
theorem download_bounded:
  assumes "readImageDims stbi net url = Some (r, urls)"
  shows "length urls \<le> 4 \<and> (\<forall>u \<in> set urls. parseUrl u \<noteq> None)
    \<and> length (f_raw (receive_loop (ssl_portions reads) fetch_start)) < kMaxRawBytes + kMaxBodyBytes + 2 * read_size
    \<and> length (f_raw (receive_loop (sock_portions recvs) fetch_start)) < kMaxRawBytes + kMaxBodyBytes + 2 * read_size"
proof -
  obtain r' where "read_loop stbi net 0 url = Some (r', urls)" using assms by (auto simp: readImageDims_def)
  then have "length urls \<le> 4 \<and> (\<forall>u \<in> set urls. parseUrl u \<noteq> None)" using read_loop_ok [of stbi net 0 url] by auto
  moreover have "fetch_bounded fetch_start"
    by (simp add: fetch_bounded_def fetch_start_def kMaxRawBytes_def)
  moreover have "length (f_raw f) < kMaxRawBytes + kMaxBodyBytes + 2 * read_size" if "fetch_bounded f" for f
    using that by (auto simp: fetch_bounded_def split: option.splits)
  ultimately show ?thesis
    using receive_loop_bounded ssl_portions_size sock_portions_size by blast
qed

theorem download_bounded_witness:
  "readImageDims (\<lambda>_. None) (\<lambda>_. undefined) ''ftp://x/'' = Some (Inr (False, 0, 0), []) \<and> length ([] :: string list) \<le> 4"
proof -
  have "parseUrl ''ftp://x/'' = None" by code_simp
  then have "readImageDims (\<lambda>_. None) (\<lambda>_. undefined) ''ftp://x/'' = Some (Inr (False, 0, 0), [])"
    by (simp add: readImageDims_def read_loop.simps)
  with download_bounded [OF this] show ?thesis by blast
qed

end
