(* ===== verification/FHttp2.thy ===== *)
theory FHttp2
  imports FHttpServer FConfig
begin

text \<open>
  HTTP/2 connections (\<open>FeiLib/src/Http/FHttp2Helper.cpp\<close>, \<open>FeiLib/include/Http/FHttp2Helper.h\<close>, and
  \<open>http2Process\<close> of \<open>FHttpServer.cpp\<close>). The protocol is the nghttp2 library's: what it calls back with
  and what it answers are arguments, what the code submits to it is a list of actions. The pointer it
  keeps for a stream is the key of the stream's entry in \<open>mStreamDataMap\<close>.
\<close>

section \<open>The request of a stream\<close>

record h2_parser =
  mHeaderFinish :: bool
  mDataFinish :: bool
  mDataLength :: u32
  hp_method :: http_method
  hp_path :: string
  mData :: string
  hp_query :: "(string, string) omap"
  hp_headers :: "(string, string) omap"

definition FHttp2Parser_new :: h2_parser where
  "FHttp2Parser_new = \<lparr>mHeaderFinish = False, mDataFinish = False, mDataLength = 0, hp_method = M_Invalid,
     hp_path = [], mData = [], hp_query = [], hp_headers = []\<rparr>"

definition hp_addHeader :: "h2_parser \<Rightarrow> string \<Rightarrow> string \<Rightarrow> h2_parser" where
  "hp_addHeader p name val = p\<lparr>hp_headers := mm_insert (hp_headers p) name val\<rparr>"

definition appendData :: "h2_parser \<Rightarrow> string \<Rightarrow> h2_parser" where
  "appendData p d =
     (let p1 = p\<lparr>mData := mData p @ d\<rparr>
      in if unat (mDataLength p1) \<le> length (mData p1)
         then p1\<lparr>mData := take (unat (mDataLength p1)) (mData p1), mDataFinish := True\<rparr> else p1)"

text \<open>\<open>itor = mHeaders.find(k); mHeaders.erase(itor)\<close> removes the first entry of the key. A content length
  that \<open>std::stoul\<close> refuses throws; the others are cut to 32 bits.\<close>

definition hp_take :: "h2_parser \<Rightarrow> string \<Rightarrow> (string \<Rightarrow> h2_parser \<Rightarrow> h2_parser) \<Rightarrow> h2_parser" where
  "hp_take p k f =
     (case mm_find (hp_headers p) k of
        None \<Rightarrow> p
      | Some v \<Rightarrow> (let p1 = f v p in p1\<lparr>hp_headers := omap_erase (hp_headers p1) k\<rparr>))"

definition take_path :: "string \<Rightarrow> h2_parser \<Rightarrow> h2_parser" where
  "take_path v q = (let (path, query) = ParsePathLine v v (hp_query q) in q\<lparr>hp_path := path, hp_query := query\<rparr>)"

definition take_pseudo_headers :: "h2_parser \<Rightarrow> h2_parser" where
  "take_pseudo_headers p =
     (let p1 = hp_take p '':method'' (\<lambda>v q. q\<lparr>hp_method := stringToMethod v\<rparr>);
          p2 = hp_take p1 '':authority'' (\<lambda>v q. q\<lparr>hp_headers := mm_insert (hp_headers q) ''Host'' v\<rparr>)
      in hp_take p2 '':path'' take_path)"

definition onHeaderFinish :: "h2_parser \<Rightarrow> std_error + h2_parser" where
  "onHeaderFinish p =
     (let p1 = take_pseudo_headers p
      in case mm_find (hp_headers p1) ''content-length'' of
           None \<Rightarrow> Inr (p1\<lparr>mDataFinish := True\<rparr>)
         | Some v \<Rightarrow> (case std_stoul v of Inl e \<Rightarrow> Inl e | Inr n \<Rightarrow> Inr (p1\<lparr>mDataLength := word_of_nat n\<rparr>)))"

definition hp_isFinish :: "h2_parser \<Rightarrow> bool" where
  "hp_isFinish p \<longleftrightarrow> mHeaderFinish p \<and> mDataFinish p"

text \<open>The end of a HEADERS frame (\<open>on_frame_recv_callback\<close>).\<close>

definition end_headers :: "h2_parser \<Rightarrow> std_error + h2_parser" where
  "end_headers p = onHeaderFinish (p\<lparr>mHeaderFinish := True\<rparr>)"

text \<open>\<open>FHttpRequest(parser)\<close> takes headers, body and query out of the parser.\<close>

definition request_of_stream :: "h2_parser \<Rightarrow> http_request" where
  "request_of_stream p = FHttpRequest_of_stream (hp_headers p) (hp_method p) (hp_path p) (mData p) (hp_query p)"

definition hp_moved :: "h2_parser \<Rightarrow> h2_parser" where
  "hp_moved p = p\<lparr>hp_headers := [], mData := [], hp_query := []\<rparr>"

subsection \<open>What becomes of the body\<close>

lemma hp_take_frame [simp]:
  assumes "\<And>v q. mDataLength (f v q) = mDataLength q" "\<And>v q. mData (f v q) = mData q"
    "\<And>v q. mDataFinish (f v q) = mDataFinish q" "\<And>v q. mHeaderFinish (f v q) = mHeaderFinish q"
  shows "mDataLength (hp_take p k f) = mDataLength p" "mData (hp_take p k f) = mData p"
    "mDataFinish (hp_take p k f) = mDataFinish p" "mHeaderFinish (hp_take p k f) = mHeaderFinish p"
  using assms by (simp_all add: hp_take_def Let_def split: option.split)

lemma find_omap_erase_other: "j \<noteq> k \<Longrightarrow> omap_find (omap_erase m k) j = omap_find m j"
  by (induction m k rule: omap_erase.induct) auto

lemma mm_find_insert_other: "j \<noteq> k \<Longrightarrow> mm_find (mm_insert m k v) j = mm_find m j"
  unfolding mm_find_def by (induction m k v rule: mm_insert.induct) auto

lemma hp_take_find:
  assumes "j \<noteq> k" "\<And>v q. mm_find (hp_headers (f v q)) j = mm_find (hp_headers q) j"
  shows "mm_find (hp_headers (hp_take p k f)) j = mm_find (hp_headers p) j"
  using assms by (simp add: hp_take_def mm_find_def find_omap_erase_other Let_def split: option.split)

lemma take_path_frame [simp]:
  "mDataLength (take_path v q) = mDataLength q" "mData (take_path v q) = mData q"
  "mDataFinish (take_path v q) = mDataFinish q" "mHeaderFinish (take_path v q) = mHeaderFinish q"
  "hp_headers (take_path v q) = hp_headers q"
  by (simp_all add: take_path_def split: prod.split)

lemma take_pseudo_frame [simp]:
  "mDataLength (take_pseudo_headers p) = mDataLength p" "mData (take_pseudo_headers p) = mData p"
  "mDataFinish (take_pseudo_headers p) = mDataFinish p" "mHeaderFinish (take_pseudo_headers p) = mHeaderFinish p"
  by (simp_all add: take_pseudo_headers_def Let_def)

lemma take_pseudo_find:
  "k \<notin> {'':method'', '':authority'', ''Host'', '':path''} \<Longrightarrow>
     mm_find (hp_headers (take_pseudo_headers p)) k = mm_find (hp_headers p) k"
  by (simp add: take_pseudo_headers_def Let_def hp_take_find mm_find_insert_other)

lemma onHeaderFinish_length:
  "onHeaderFinish p = Inr q \<Longrightarrow>
     mData q = mData p \<and> mHeaderFinish q = mHeaderFinish p
     \<and> (case mm_find (hp_headers p) ''content-length'' of
          None \<Rightarrow> mDataFinish q \<and> mDataLength q = mDataLength p
        | Some v \<Rightarrow> mDataFinish q = mDataFinish p \<and> (\<exists>n. std_stoul v = Inr n \<and> mDataLength q = word_of_nat n))"
  unfolding onHeaderFinish_def Let_def take_pseudo_find [of "''content-length''" p, simplified]
  by (auto split: option.splits sum.splits)

lemma appendData_append: "appendData (appendData p d) e = appendData p (d @ e)"
  by (auto simp: appendData_def Let_def min_def)

lemma appendData_all: "chunks \<noteq> [] \<Longrightarrow> foldl appendData p chunks = appendData p (concat chunks)"
proof (induction chunks arbitrary: p rule: list_nonempty_induct)
  case (cons d ds)
  then show ?case by (simp add: appendData_append)
qed simp

text \<open>
  The body of a stream whose header block declares a content length of \<open>n\<close> is complete as soon as a DATA
  chunk has arrived and the chunks hold that many bytes modulo 2 ^ 32, and it is cut to that number. A
  stream that declares no length is complete before its first chunk, and whatever the chunks hold its
  body stays empty; one that declares length 0 and ends with the header block is never complete.
\<close>
theorem h2_body_of_stream:
  assumes "end_headers p = Inr q" "mDataLength p = 0" "mData p = []" "\<not> mDataFinish p"
  shows "case mm_find (hp_headers p) ''content-length'' of
      None \<Rightarrow> hp_isFinish (foldl appendData q chunks) \<and> mData (foldl appendData q chunks) = []
    | Some v \<Rightarrow> \<exists>n. std_stoul v = Inr n \<and>
        (let len = n mod 2 ^ 32
         in (hp_isFinish (foldl appendData q chunks) \<longleftrightarrow> chunks \<noteq> [] \<and> len \<le> length (concat chunks))
            \<and> (len \<le> length (concat chunks) \<longrightarrow> mData (foldl appendData q chunks) = take len (concat chunks)))"
proof -
  have q: "mData q = []" "mHeaderFinish q"
    "case mm_find (hp_headers p) ''content-length'' of
       None \<Rightarrow> mDataFinish q \<and> mDataLength q = 0
     | Some v \<Rightarrow> \<not> mDataFinish q \<and> (\<exists>n. std_stoul v = Inr n \<and> mDataLength q = word_of_nat n)"
    using onHeaderFinish_length [of "p\<lparr>mHeaderFinish := True\<rparr>" q] assms
    by (auto simp: end_headers_def split: option.splits)
  show ?thesis
  proof (cases "mm_find (hp_headers p) ''content-length''")
    case None
    with q show ?thesis
      by (cases "chunks = []") (simp_all add: appendData_all, simp_all add: appendData_def Let_def hp_isFinish_def)
  next
    case (Some v)
    then obtain n where n: "std_stoul v = Inr n" "mDataLength q = word_of_nat n" "\<not> mDataFinish q" using q(3) by auto
    have "unat (mDataLength q) = n mod 2 ^ 32" by (simp add: n(2) unat_of_nat)
    with Some n q(1,2) show ?thesis
      by (cases "chunks = []") (simp_all add: appendData_all, simp_all add: appendData_def Let_def hp_isFinish_def)
  qed
qed

theorem h2_body_of_stream_witness:
  "\<exists>q. end_headers (hp_addHeader FHttp2Parser_new ''content-length'' ''3'') = Inr q
     \<and> mData (foldl appendData q [''ab'', ''cd'']) = ''abc''"
proof -
  let ?p = "hp_addHeader FHttp2Parser_new ''content-length'' ''3''"
  have f: "mm_find (hp_headers ?p) ''content-length'' = Some ''3''" by (simp add: hp_addHeader_def FHttp2Parser_new_def mm_find_def)
  have s: "std_stoul ''3'' = Inr 3" by (simp add: std_stoul_def dec_value_def digit_val_def isspace_def isdigit_def char_le_iff)
  obtain q where q: "end_headers ?p = Inr q"
    using f s by (simp add: end_headers_def onHeaderFinish_def take_pseudo_find Let_def)
  have "mDataLength ?p = 0" "mData ?p = []" "\<not> mDataFinish ?p" by (simp_all add: hp_addHeader_def FHttp2Parser_new_def)
  from h2_body_of_stream [OF q this, of "[''ab'', ''cd'']"] q f s show ?thesis by (auto simp: Let_def)
qed

section \<open>Header blocks\<close>

text \<open>\<open>mOutDataString\<close> and \<open>mNghttp2NVA\<close>: names and values with a zero byte behind each, and the lengths of
  each pair. The pointers are set when the block is complete: offset and length of name and value.\<close>

record nv_block =
  mOutDataString :: string
  mNghttp2NVA :: "(nat \<times> nat) list"

definition nv_empty :: nv_block where
  "nv_empty = \<lparr>mOutDataString = [], mNghttp2NVA = []\<rparr>"

definition makeNVPair :: "string \<Rightarrow> string \<Rightarrow> nv_block \<Rightarrow> nv_block" where
  "makeNVPair name value b =
     b\<lparr>mOutDataString := mOutDataString b @ name @ NUL # value @ [NUL],
       mNghttp2NVA := mNghttp2NVA b @ [(length name, length value)]\<rparr>"

definition makeNVPairToLower :: "string \<Rightarrow> string \<Rightarrow> nv_block \<Rightarrow> nv_block" where
  "makeNVPairToLower name value b =
     b\<lparr>mOutDataString := mOutDataString b @ map tolower name @ NUL # value @ [NUL],
       mNghttp2NVA := mNghttp2NVA b @ [(length name, length value)]\<rparr>"

fun collectAndReasignNva :: "nat \<Rightarrow> (nat \<times> nat) list \<Rightarrow> ((nat \<times> nat) \<times> (nat \<times> nat)) list" where
  "collectAndReasignNva offset [] = []"
| "collectAndReasignNva offset ((namelen, valuelen) # nva) =
     ((offset, namelen), (offset + (namelen + 1), valuelen))
     # collectAndReasignNva (offset + (namelen + 1) + (valuelen + 1)) nva"

text \<open>What the library reads through the pointers.\<close>

definition nv_at :: "string \<Rightarrow> (nat \<times> nat) \<times> (nat \<times> nat) \<Rightarrow> string \<times> string" where
  "nv_at base p = (substr base (fst (fst p)) (snd (fst p)), substr base (fst (snd p)) (snd (snd p)))"

definition nv_read :: "nv_block \<Rightarrow> (string \<times> string) list" where
  "nv_read b = map (nv_at (mOutDataString b)) (collectAndReasignNva 0 (mNghttp2NVA b))"

definition push_promise_block :: "http_request \<Rightarrow> string \<Rightarrow> nv_block" where
  "push_promise_block request host =
     (let b1 = makeNVPair '':method'' (methodToStr (rq_getMethod request)) nv_empty;
          b2 = makeNVPair '':scheme'' ''https'' b1;
          b3 = makeNVPair '':authority'' host b2;
          b4 = makeNVPair '':path'' (rq_getPath request) b3
      in rq_traverseHeaders request (\<lambda>h b. (True, makeNVPairToLower (fst h) (snd h) b)) b4)"

record h2_response =
  h2_body :: string
  mDataSendSize :: u32
  h2_block :: nv_block

definition addCookies :: "fcookie list \<Rightarrow> nv_block \<Rightarrow> nv_block" where
  "addCookies cs b = fold (\<lambda>c. makeNVPair ''set-cookie'' (outSetCookieNoHeader c)) cs b"

definition setContentLength :: "string \<Rightarrow> nv_block \<Rightarrow> nv_block" where
  "setContentLength body b = (if length body = 0 then b else makeNVPair ''content-length'' (to_string (length body)) b)"

definition FHttp2Response_of :: "http_response \<Rightarrow> h2_response" where
  "FHttp2Response_of response =
     (let b1 = makeNVPair '':status'' (statusCodeToStr2 (mStatus response)) nv_empty;
          b2 = addCookies (mCookies response) b1;
          b3 = rs_traversalHeader response (\<lambda>h b. (True, makeNVPairToLower (fst h) (snd h) b)) b2
      in \<lparr>h2_body = mBody response, mDataSendSize = 0, h2_block = setContentLength (mBody response) b3\<rparr>)"

definition nv_ok :: "nv_block \<Rightarrow> bool" where
  "nv_ok b \<longleftrightarrow> length (mOutDataString b) = sum_list (map (\<lambda>(n, v). n + v + 2) (mNghttp2NVA b))"

lemma collect_append:
  "collectAndReasignNva off (xs @ ys) =
     collectAndReasignNva off xs @ collectAndReasignNva (off + sum_list (map (\<lambda>(n, v). n + v + 2) xs)) ys"
  by (induction off xs rule: collectAndReasignNva.induct) (auto simp: add_ac)

lemma collect_inside:
  "((no, nl), (vo, vl)) \<in> set (collectAndReasignNva off xs) \<Longrightarrow>
     vo + vl \<le> off + sum_list (map (\<lambda>(n, v). n + v + 2) xs) \<and> no + nl \<le> vo"
  by (induction off xs rule: collectAndReasignNva.induct) force+

lemma nv_read_snoc:
  assumes "nv_ok b"
  shows "nv_ok \<lparr>mOutDataString = mOutDataString b @ name @ NUL # value @ [NUL], mNghttp2NVA = mNghttp2NVA b @ [(length name, length value)]\<rparr>
    \<and> nv_read \<lparr>mOutDataString = mOutDataString b @ name @ NUL # value @ [NUL], mNghttp2NVA = mNghttp2NVA b @ [(length name, length value)]\<rparr>
      = nv_read b @ [(name, value)]"
proof -
  let ?n = "sum_list (map (\<lambda>(n, v). n + v + 2) (mNghttp2NVA b))"
  have n: "length (mOutDataString b) = ?n" using assms by (simp add: nv_ok_def)
  have same: "substr (mOutDataString b @ x) o' l = substr (mOutDataString b) o' l" if "o' + l \<le> ?n" for x o' l
    using that n by (simp add: substr_def)
  have at: "nv_at (mOutDataString b @ x) p = nv_at (mOutDataString b) p"
    if "p \<in> set (collectAndReasignNva 0 (mNghttp2NVA b))" for p x
  proof -
    obtain no nl vo vl where p: "p = ((no, nl), (vo, vl))" by (metis surj_pair)
    with that have "vo + vl \<le> ?n \<and> no + nl \<le> vo" using collect_inside [of no nl vo vl 0] by simp
    then show ?thesis by (simp add: p nv_at_def same)
  qed
  have "nv_at (mOutDataString b @ name @ NUL # value @ [NUL]) ((?n, length name), (Suc (?n + length name), length value)) = (name, value)"
    using n by (simp add: nv_at_def substr_def)
  moreover have "map (nv_at (mOutDataString b @ name @ NUL # value @ [NUL])) (collectAndReasignNva 0 (mNghttp2NVA b)) = nv_read b"
    unfolding nv_read_def using at by (rule map_cong [OF refl])
  ultimately show ?thesis using n by (simp add: nv_ok_def nv_read_def collect_append)
qed

lemma nv_read_pair [simp]:
  "nv_ok b \<Longrightarrow> nv_ok (makeNVPair name value b)"
  "nv_ok b \<Longrightarrow> nv_read (makeNVPair name value b) = nv_read b @ [(name, value)]"
  "nv_ok b \<Longrightarrow> nv_ok (makeNVPairToLower name value b)"
  "nv_ok b \<Longrightarrow> nv_read (makeNVPairToLower name value b) = nv_read b @ [(map tolower name, value)]"
  using nv_read_snoc [of b name "value"] nv_read_snoc [of b "map tolower name" "value"]
  by (cases b; simp add: makeNVPair_def makeNVPairToLower_def)+

lemma nv_empty_read [simp]: "nv_ok nv_empty" "nv_read nv_empty = []"
  by (simp_all add: nv_ok_def nv_read_def nv_empty_def)

lemma nv_traverse:
  "nv_ok b \<Longrightarrow> nv_ok (traverse (\<lambda>h b. (True, makeNVPairToLower (fst h) (snd h) b)) hs b)
     \<and> nv_read (traverse (\<lambda>h b. (True, makeNVPairToLower (fst h) (snd h) b)) hs b)
       = nv_read b @ map (apfst (map tolower)) hs"
  by (induction hs arbitrary: b) (auto simp: apfst_def map_prod_def split: prod.split)

lemma nv_cookies:
  "nv_ok b \<Longrightarrow> nv_ok (addCookies cs b) \<and> nv_read (addCookies cs b) = nv_read b @ map (\<lambda>c. (''set-cookie'', outSetCookieNoHeader c)) cs"
  unfolding addCookies_def by (induction cs arbitrary: b) auto

text \<open>
  The header block of a response: through the pointers into the one byte vector the library reads the
  status, then a set-cookie pair for each cookie, then the headers with their names in lower case, and
  the content length when there is a body. The block of a promise holds the four pseudo headers of its
  request and its headers.
\<close>
theorem h2_header_block:
  "nv_read (h2_block (FHttp2Response_of response)) =
     ('':status'', statusCodeToStr2 (mStatus response))
     # map (\<lambda>c. (''set-cookie'', outSetCookieNoHeader c)) (mCookies response)
     @ map (apfst (map tolower)) (rsHeaders response)
     @ (if mBody response = [] then [] else [(''content-length'', to_string (length (mBody response)))])
   \<and> nv_read (push_promise_block request host) =
     [('':method'', methodToStr (rq_getMethod request)), ('':scheme'', ''https''), ('':authority'', host),
      ('':path'', rq_getPath request)] @ map (apfst (map tolower)) (mHeaders (mHttpCtx request))"
proof
  show "nv_read (push_promise_block request host) =
     [('':method'', methodToStr (rq_getMethod request)), ('':scheme'', ''https''), ('':authority'', host),
      ('':path'', rq_getPath request)] @ map (apfst (map tolower)) (mHeaders (mHttpCtx request))"
    by (simp add: push_promise_block_def rq_traverseHeaders_def Let_def nv_traverse)
  show "nv_read (h2_block (FHttp2Response_of response)) =
     ('':status'', statusCodeToStr2 (mStatus response))
     # map (\<lambda>c. (''set-cookie'', outSetCookieNoHeader c)) (mCookies response)
     @ map (apfst (map tolower)) (rsHeaders response)
     @ (if mBody response = [] then [] else [(''content-length'', to_string (length (mBody response)))])"
    by (simp add: FHttp2Response_of_def rs_traversalHeader_def setContentLength_def Let_def nv_traverse nv_cookies)
qed

section \<open>The data of a response\<close>

text \<open>\<open>submit_data_read_callback\<close>: at most \<open>len\<close> bytes; EOF only when less than that is left.\<close>

definition submit_data_read :: "h2_response \<Rightarrow> nat \<Rightarrow> string \<times> bool \<times> h2_response" where
  "submit_data_read r len =
     (let dataHasSend = unat (mDataSendSize r);
          dataNeedToSend = length (h2_body r) - dataHasSend;
          toSend = (if dataNeedToSend < len then dataNeedToSend else len)
      in (take toSend (drop dataHasSend (h2_body r)), dataNeedToSend < len,
          r\<lparr>mDataSendSize := mDataSendSize r + word_of_nat toSend\<rparr>))"

text \<open>The calls the library makes, with the room it has each time, until it sees EOF.\<close>

fun data_reads :: "h2_response \<Rightarrow> nat list \<Rightarrow> string \<times> bool" where
  "data_reads r [] = ([], False)"
| "data_reads r (len # lens) =
     (let (d, eof, r') = submit_data_read r len
      in if eof then (d, True) else (let (ds, fin) = data_reads r' lens in (d @ ds, fin)))"

lemma data_reads_from:
  assumes "length (h2_body r) < 2 ^ 32" "unat (mDataSendSize r) \<le> length (h2_body r)"
  shows "data_reads r lens =
    (take (sum_list lens) (drop (unat (mDataSendSize r)) (h2_body r)), length (h2_body r) < unat (mDataSendSize r) + sum_list lens)"
  using assms
proof (induction lens arbitrary: r)
  case (Cons len lens)
  let ?sent = "unat (mDataSendSize r)" and ?n = "length (h2_body r)"
  show ?case
  proof (cases "?n - ?sent < len")
    case True
    with Cons.prems show ?thesis by (simp add: submit_data_read_def Let_def)
  next
    case False
    let ?r = "r\<lparr>mDataSendSize := mDataSendSize r + word_of_nat len\<rparr>"
    have "unat (mDataSendSize ?r) = ?sent + len"
      using False Cons.prems by (simp add: unat_add_small unat_of_nat_small)
    with Cons.IH [of ?r] Cons.prems False show ?thesis
      by (simp add: submit_data_read_def Let_def take_add add.commute add.left_commute)
  qed
qed simp

text \<open>
  The body of a response leaves in order and complete, however the library portions it: the bytes handed
  over are the body as far as the room went, and the end is reported exactly when there was room for
  more than the body.
\<close>
theorem h2_body_delivered:
  assumes "length (mBody response) < 2 ^ 32"
  shows "data_reads (FHttp2Response_of response) lens = (take (sum_list lens) (mBody response), length (mBody response) < sum_list lens)"
  using data_reads_from [of "FHttp2Response_of response" lens] assms by (simp add: FHttp2Response_of_def Let_def)

theorem h2_body_delivered_witness:
  "data_reads (FHttp2Response_of (rs_setBody FHttpResponse_new ''hello'')) [3, 4] = (''hello'', True)"
  using h2_body_delivered [of "rs_setBody FHttpResponse_new ''hello''" "[3, 4]"] by (simp add: rs_setBody_def)

section \<open>The session\<close>

datatype h2_err = NGHTTP2_NO_ERROR | NGHTTP2_INTERNAL_ERROR | NGHTTP2_REFUSED_STREAM | NGHTTP2_CANCEL

datatype H2StreamErr = H2_internal_error | H2_refused_stream | H2_cancel | H2_no_error

fun toNgH2Err :: "H2StreamErr \<Rightarrow> h2_err" where
  "toNgH2Err H2_internal_error = NGHTTP2_INTERNAL_ERROR"
| "toNgH2Err H2_refused_stream = NGHTTP2_REFUSED_STREAM"
| "toNgH2Err H2_cancel = NGHTTP2_CANCEL"
| "toNgH2Err H2_no_error = NGHTTP2_NO_ERROR"

record h2_stream =
  st_parser :: h2_parser
  returnResponse :: "h2_response option"
  pushPromise :: "nv_block option"
  isStreamRecvFinish :: bool
  isServerOpen :: bool
  processed :: bool
  parentStreamId :: u32
  st_streamId :: u32

definition Http2StreamData_new :: "u32 \<Rightarrow> h2_stream" where
  "Http2StreamData_new i = \<lparr>st_parser = FHttp2Parser_new, returnResponse = None, pushPromise = None, isStreamRecvFinish = False,
     isServerOpen = False, processed = False, parentStreamId = 0, st_streamId = i\<rparr>"

record h2_config =
  s_enablePush :: bool
  s_maxConcurrentStream :: u32

text \<open>The session data, and \<open>user_data\<close>: the streams for which the library holds a pointer to an entry.\<close>

record h2_session =
  mFirstFrame :: bool
  mHasGoawaySent :: bool
  openedStreams :: u32
  serverOpenedStreams :: u32
  mStreamDataMap :: "(u32, h2_stream) omap"
  set_enablePush :: bool
  set_maxConcurrentStreams :: u32
  user_data :: "u32 set"

definition h2_session_new :: "h2_config \<Rightarrow> h2_session" where
  "h2_session_new C = \<lparr>mFirstFrame = True, mHasGoawaySent = False, openedStreams = 0, serverOpenedStreams = 0,
     mStreamDataMap = [], set_enablePush = s_enablePush C, set_maxConcurrentStreams = s_maxConcurrentStream C, user_data = {}\<rparr>"

text \<open>What the code submits to the library.\<close>

datatype h2_action =
  Submit_settings "(string \<times> u32) list"
| Submit_goaway u32
| Submit_rst_stream u32 h2_err
| Submit_response u32 "(string \<times> string) list" string
| Submit_push_promise u32 "(string \<times> string) list"

definition getStreamUserData :: "h2_session \<Rightarrow> u32 \<Rightarrow> h2_stream option" where
  "getStreamUserData s i = (if i \<in> user_data s then omap_find (mStreamDataMap s) i else None)"

definition put_stream :: "h2_session \<Rightarrow> u32 \<Rightarrow> h2_stream \<Rightarrow> h2_session" where
  "put_stream s i st = s\<lparr>mStreamDataMap := omap_assign (mStreamDataMap s) i st\<rparr>"

text \<open>\<open>on_begin_headers_callback\<close> for the HEADERS frame of a request; \<open>lastId\<close> is the last stream the library
  processed.\<close>

definition on_begin_headers :: "h2_config \<Rightarrow> u32 \<Rightarrow> u32 \<Rightarrow> h2_session \<Rightarrow> h2_session \<times> h2_action list" where
  "on_begin_headers C lastId stream_id s =
     (if s_maxConcurrentStream C < openedStreams s
      then (s\<lparr>mHasGoawaySent := True\<rparr>,
            (if \<not> mHasGoawaySent s then [Submit_goaway lastId] else []) @ [Submit_rst_stream stream_id NGHTTP2_REFUSED_STREAM])
      else (let st = (case omap_find (mStreamDataMap s) stream_id of Some st \<Rightarrow> st | None \<Rightarrow> Http2StreamData_new stream_id);
                s1 = put_stream s stream_id (st\<lparr>st_streamId := stream_id\<rparr>)
            in (s1\<lparr>openedStreams := openedStreams s1 + 1, user_data := insert stream_id (user_data s1)\<rparr>, [])))"

definition on_data_chunk_recv :: "bool \<Rightarrow> u32 \<Rightarrow> string \<Rightarrow> h2_session \<Rightarrow> h2_session" where
  "on_data_chunk_recv endStream stream_id d s =
     (case getStreamUserData s stream_id of
        None \<Rightarrow> s
      | Some st \<Rightarrow> put_stream s stream_id
          (st\<lparr>st_parser := appendData (st_parser st) d, isStreamRecvFinish := isStreamRecvFinish st \<or> endStream\<rparr>))"

definition on_stream_close :: "u32 \<Rightarrow> h2_session \<Rightarrow> h2_session" where
  "on_stream_close stream_id s =
     (case getStreamUserData s stream_id of
        None \<Rightarrow> s
      | Some st \<Rightarrow>
          (let s1 = (if isServerOpen st then s\<lparr>serverOpenedStreams := serverOpenedStreams s - 1\<rparr>
                     else s\<lparr>openedStreams := openedStreams s - 1\<rparr>)
           in s1\<lparr>mStreamDataMap := omap_erase (mStreamDataMap s1) stream_id, user_data := user_data s1 - {stream_id}\<rparr>))"

definition on_header :: "u32 \<Rightarrow> string \<Rightarrow> string \<Rightarrow> h2_session \<Rightarrow> h2_session" where
  "on_header stream_id name value s =
     (case getStreamUserData s stream_id of
        None \<Rightarrow> s
      | Some st \<Rightarrow> put_stream s stream_id (st\<lparr>st_parser := hp_addHeader (st_parser st) name value\<rparr>))"

datatype setting = ENABLE_PUSH u32 | MAX_CONCURRENT_STREAMS u32 | OTHER_SETTING u32

fun on_setting :: "setting \<Rightarrow> h2_session \<Rightarrow> h2_session" where
  "on_setting (ENABLE_PUSH v) s = s\<lparr>set_enablePush := v \<noteq> 0\<rparr>"
| "on_setting (MAX_CONCURRENT_STREAMS v) s = s\<lparr>set_maxConcurrentStreams := v\<rparr>"
| "on_setting (OTHER_SETTING v) s = s"

definition on_settings :: "setting list \<Rightarrow> h2_session \<Rightarrow> h2_session" where
  "on_settings iv s = fold on_setting iv s"

definition submit_settings :: "h2_config \<Rightarrow> h2_session \<Rightarrow> h2_action" where
  "submit_settings C s = Submit_settings
     [(''MAX_CONCURRENT_STREAMS'', s_maxConcurrentStream C), (''ENABLE_PUSH'', if set_enablePush s then 1 else 0)]"

text \<open>\<open>on_frame_recv_callback\<close>: settings that are no acknowledgement, the end of a header block, DATA
  (which only writes to the log) and the rest. Inl: the exception of the content length.\<close>

datatype h2_frame = F_settings bool "setting list" | F_headers | F_data | F_other

definition on_frame_recv :: "h2_frame \<Rightarrow> u32 \<Rightarrow> h2_session \<Rightarrow> std_error + h2_session" where
  "on_frame_recv f stream_id s =
     (case f of
        F_settings False iv \<Rightarrow> Inr (on_settings iv s)
      | F_headers \<Rightarrow>
          (case getStreamUserData s stream_id of
             None \<Rightarrow> Inr s
           | Some st \<Rightarrow>
               (case end_headers (st_parser st) of
                  Inl e \<Rightarrow> Inl e
                | Inr p \<Rightarrow> Inr (put_stream s stream_id (st\<lparr>st_parser := p\<rparr>))))
      | _ \<Rightarrow> Inr s)"

text \<open>\<open>http2SubmitResponseStream\<close>; None is the access through the null pointer of a stream without entry.\<close>

definition http2SubmitResponseStream :: "u32 \<Rightarrow> http_response \<Rightarrow> h2_session \<Rightarrow> (h2_session \<times> h2_action) option" where
  "http2SubmitResponseStream streamId response s =
     (case getStreamUserData s streamId of
        None \<Rightarrow> None
      | Some st \<Rightarrow>
          (let r = FHttp2Response_of response
           in Some (put_stream s streamId (st\<lparr>returnResponse := Some r\<rparr>),
                    Submit_response streamId (nv_read (h2_block r)) (h2_body r))))"

text \<open>\<open>http2SubmitPushPromise\<close>. \<open>newStreamId\<close> is the answer of \<open>nghttp2_submit_push_promise\<close>, None for an error.\<close>

definition push_host :: "bool \<Rightarrow> h2_stream \<Rightarrow> http_request \<Rightarrow> string \<times> http_request" where
  "push_host autoHostSet par pushRequest =
     (if autoHostSet
      then (case mm_find (hp_headers (st_parser par)) '':authority'' of None \<Rightarrow> [] | Some v \<Rightarrow> v, pushRequest)
      else (case rq_getHeader pushRequest '':authority'' of None \<Rightarrow> [] | Some v \<Rightarrow> v, rq_eraseHeader pushRequest '':authority''))"

definition http2SubmitPushPromise :: "h2_config \<Rightarrow> u32 option \<Rightarrow> u32 \<Rightarrow> http_request \<Rightarrow> http_response \<Rightarrow> bool \<Rightarrow>
    h2_session \<Rightarrow> (h2_session \<times> h2_action list) option" where
  "http2SubmitPushPromise C newStreamId streamId pushRequest pushResponse autoHostSet s =
     (if \<not> set_enablePush s \<or> \<not> s_enablePush C then Some (s, [])
      else (case getStreamUserData s streamId of
              None \<Rightarrow> Some (s, [])
            | Some par \<Rightarrow>
                (let (hostVal, pushRequestNew) = push_host autoHostSet par pushRequest;
                     block = push_promise_block pushRequestNew hostVal;
                     promise = Submit_push_promise (st_streamId par) (nv_read block)
                 in case newStreamId of
                      None \<Rightarrow> Some (s, [promise])
                    | Some new \<Rightarrow>
                        (let (st, s1) = (case getStreamUserData s new of
                                Some st \<Rightarrow> (st, s)
                              | None \<Rightarrow>
                                  (case omap_find (mStreamDataMap s) new of
                                     Some st \<Rightarrow> (st, s)
                                   | None \<Rightarrow> (Http2StreamData_new 0,
                                       s\<lparr>serverOpenedStreams := serverOpenedStreams s + 1, user_data := insert new (user_data s)\<rparr>)));
                             s2 = put_stream s1 new (st\<lparr>pushPromise := Some block, isServerOpen := True, parentStreamId := streamId\<rparr>)
                         in map_option (\<lambda>(s3, a). (s3, [promise, a])) (http2SubmitResponseStream new pushResponse s2)))))"

definition http2SubmitGoaway :: "u32 \<Rightarrow> h2_session \<Rightarrow> h2_session \<times> h2_action list" where
  "http2SubmitGoaway lastId s = (if mHasGoawaySent s then (s, []) else (s\<lparr>mHasGoawaySent := True\<rparr>, [Submit_goaway lastId]))"

definition isConnEnd :: "h2_session \<Rightarrow> bool" where
  "isConnEnd s \<longleftrightarrow> openedStreams s = 0"

definition enablePush :: "h2_config \<Rightarrow> h2_session \<Rightarrow> bool" where
  "enablePush C s \<longleftrightarrow> s_enablePush C \<and> set_enablePush s"

definition endStream :: "u32 \<Rightarrow> H2StreamErr \<Rightarrow> h2_session \<Rightarrow> h2_action list" where
  "endStream streamID err s =
     (if omap_find (mStreamDataMap s) streamID \<noteq> None then [Submit_rst_stream streamID (toNgH2Err err)] else [])"

text \<open>\<open>loadConfig\<close>.\<close>

definition h2_loadConfig :: "cfg_reader \<Rightarrow> h2_config \<Rightarrow> h2_config" where
  "h2_loadConfig r C =
     (let push = (case fst (getCfg r ''H2EnablePush'') of None \<Rightarrow> s_enablePush C | Some v \<Rightarrow> v \<noteq> ''0'');
          n = (case fst (getCfg r ''H2MaxStreamNum'') of
                 None \<Rightarrow> s_maxConcurrentStream C
               | Some v \<Rightarrow> (case std_stoul v of
                               Inl e \<Rightarrow> s_maxConcurrentStream C
                             | Inr num \<Rightarrow> if 1 \<le> num then word_of_nat num else s_maxConcurrentStream C))
      in \<lparr>s_enablePush = push, s_maxConcurrentStream = n\<rparr>)"

section \<open>The streams are counted\<close>

text \<open>The calls that change a session. What the library promises: it opens each stream once, so a request
  begins on, and a promise gets, a stream without entry.\<close>

definition mark_processed :: "u32 \<Rightarrow> h2_stream \<Rightarrow> h2_session \<Rightarrow> h2_session" where
  "mark_processed i st s = put_stream s i (st\<lparr>st_parser := hp_moved (st_parser st), processed := True\<rparr>)"

inductive h2_step :: "h2_config \<Rightarrow> h2_session \<Rightarrow> h2_session \<Rightarrow> bool" for C where
  begin_request: "omap_find (mStreamDataMap s) i = None \<Longrightarrow> h2_step C s (fst (on_begin_headers C lastId i s))"
| header: "h2_step C s (on_header i name val s)"
| data_chunk: "h2_step C s (on_data_chunk_recv fin i d s)"
| frame: "on_frame_recv f i s = Inr s' \<Longrightarrow> h2_step C s s'"
| close_stream: "h2_step C s (on_stream_close i s)"
| respond: "http2SubmitResponseStream i resp s = Some (s', a) \<Longrightarrow> h2_step C s s'"
| promise: "\<forall>n. new = Some n \<longrightarrow> omap_find (mStreamDataMap s) n = None \<Longrightarrow>
    http2SubmitPushPromise C new i req resp autoHost s = Some (s', acts) \<Longrightarrow> h2_step C s s'"
| go_away: "h2_step C s (fst (http2SubmitGoaway lastId s))"
| taken: "getStreamUserData s i = Some st \<Longrightarrow> h2_step C s (mark_processed i st s)"

inductive h2_reach :: "h2_config \<Rightarrow> h2_session \<Rightarrow> bool" for C where
  h2_start: "h2_reach C (h2_session_new C)"
| h2_more: "h2_reach C s \<Longrightarrow> h2_step C s s' \<Longrightarrow> h2_reach C s'"

definition streams :: "bool \<Rightarrow> h2_session \<Rightarrow> nat" where
  "streams server s = length (filter (\<lambda>e. isServerOpen (snd e) = server) (mStreamDataMap s))"

definition h2_inv :: "h2_session \<Rightarrow> bool" where
  "h2_inv s \<longleftrightarrow> omap_wf (mStreamDataMap s) \<and> user_data s = fst ` set (mStreamDataMap s)
     \<and> openedStreams s = word_of_nat (streams False s) \<and> serverOpenedStreams s = word_of_nat (streams True s)"

lemma count_assign_new:
  "omap_find m k = None \<Longrightarrow> length (filter P (omap_assign m k v)) = length (filter P m) + (if P (k, v) then 1 else 0)"
  by (induction m k v rule: omap_assign.induct) auto

lemma count_assign_old:
  "omap_find m k = Some w \<Longrightarrow> omap_wf m \<Longrightarrow> P (k, v) = P (k, w) \<Longrightarrow> length (filter P (omap_assign m k v)) = length (filter P m)"
proof (induction m k v rule: omap_assign.induct)
  case (2 x u m k v)
  then have "k < x \<Longrightarrow> False"
    by (metis omap_wf_Cons find_None_iff option.distinct(1) order_less_trans order_less_irrefl omap_find.simps(2))
  with 2 show ?case by (auto simp: omap_wf_Cons split: if_splits)
qed simp

lemma count_erase:
  "omap_find m k = Some w \<Longrightarrow> length (filter P m) = length (filter P (omap_erase m k)) + (if P (k, w) then 1 else 0)"
  by (induction m k rule: omap_erase.induct) (auto split: if_splits)

lemma keys_erase:
  assumes "omap_wf m"
  shows "fst ` set (omap_erase m k) = fst ` set m - {k}"
proof (rule set_eqI)
  fix j
  show "j \<in> fst ` set (omap_erase m k) \<longleftrightarrow> j \<in> fst ` set m - {k}"
    using find_erase [OF assms, of k j] find_None_iff [of "omap_erase m k" j] find_None_iff [of m j] by (auto split: if_splits)
qed

lemma put_stream_fields [simp]:
  "user_data (put_stream s i st) = user_data s" "openedStreams (put_stream s i st) = openedStreams s"
  "serverOpenedStreams (put_stream s i st) = serverOpenedStreams s"
  "mStreamDataMap (put_stream s i st) = omap_assign (mStreamDataMap s) i st"
  "set_enablePush (put_stream s i st) = set_enablePush s"
  by (simp_all add: put_stream_def)

lemma put_stream_inv:
  assumes "h2_inv s" "omap_find (mStreamDataMap s) i = Some old" "isServerOpen st = isServerOpen old"
  shows "h2_inv (put_stream s i st)"
proof -
  have "i \<in> fst ` set (mStreamDataMap s)" using assms(2) find_None_iff [of "mStreamDataMap s" i] by auto
  then show ?thesis
    using assms count_assign_old [OF assms(2)] by (auto simp: h2_inv_def streams_def omap_wf_assign keys_assign)
qed

lemma getStreamUserData_find: "getStreamUserData s i = Some st \<Longrightarrow> omap_find (mStreamDataMap s) i = Some st"
  by (simp add: getStreamUserData_def split: if_splits)

lemma on_settings_fields [simp]:
  "user_data (on_settings iv s) = user_data s" "openedStreams (on_settings iv s) = openedStreams s"
  "serverOpenedStreams (on_settings iv s) = serverOpenedStreams s" "mStreamDataMap (on_settings iv s) = mStreamDataMap s"
proof -
  have f: "user_data (on_setting x s) = user_data s \<and> openedStreams (on_setting x s) = openedStreams s
      \<and> serverOpenedStreams (on_setting x s) = serverOpenedStreams s \<and> mStreamDataMap (on_setting x s) = mStreamDataMap s" for x s
    by (cases x) simp_all
  show "user_data (on_settings iv s) = user_data s" "openedStreams (on_settings iv s) = openedStreams s"
    "serverOpenedStreams (on_settings iv s) = serverOpenedStreams s" "mStreamDataMap (on_settings iv s) = mStreamDataMap s"
    unfolding on_settings_def by (induction iv arbitrary: s) (simp_all add: f)
qed

lemma on_settings_inv [simp]: "h2_inv (on_settings iv s) = h2_inv s"
  by (simp add: h2_inv_def streams_def)

lemma new_stream_inv:
  assumes "h2_inv s" "omap_find (mStreamDataMap s) i = None"
  shows "isServerOpen st \<Longrightarrow> h2_inv (put_stream (s\<lparr>serverOpenedStreams := serverOpenedStreams s + 1, user_data := insert i (user_data s)\<rparr>) i st)"
    and "\<not> isServerOpen st \<Longrightarrow> h2_inv (put_stream (s\<lparr>openedStreams := openedStreams s + 1, user_data := insert i (user_data s)\<rparr>) i st)"
  using assms by (auto simp: h2_inv_def streams_def omap_wf_assign keys_assign count_assign_new)

lemma on_begin_inv:
  assumes "h2_inv s" "omap_find (mStreamDataMap s) i = None"
  shows "h2_inv (fst (on_begin_headers C lastId i s))"
proof (cases "s_maxConcurrentStream C < openedStreams s")
  case True
  with assms show ?thesis by (simp add: on_begin_headers_def h2_inv_def streams_def)
next
  case False
  let ?st = "(Http2StreamData_new i)\<lparr>st_streamId := i\<rparr>"
  have "fst (on_begin_headers C lastId i s)
      = put_stream (s\<lparr>openedStreams := openedStreams s + 1, user_data := insert i (user_data s)\<rparr>) i ?st"
    using False assms(2) by (simp add: on_begin_headers_def put_stream_def)
  then show ?thesis using new_stream_inv(2) [OF assms, of ?st] by (simp add: Http2StreamData_new_def)
qed

lemma on_stream_close_inv: "h2_inv s \<Longrightarrow> h2_inv (on_stream_close i s)"
proof (cases "getStreamUserData s i")
  case (Some st)
  assume inv: "h2_inv s"
  note f = getStreamUserData_find [OF Some]
  from count_erase [OF f, of "\<lambda>e. isServerOpen (snd e)"] count_erase [OF f, of "\<lambda>e. \<not> isServerOpen (snd e)"]
  show ?thesis
    using Some inv by (auto simp: on_stream_close_def h2_inv_def omap_wf_erase keys_erase streams_def Let_def)
qed (simp add: on_stream_close_def)

lemma respond_inv: "http2SubmitResponseStream i resp s = Some (s', a) \<Longrightarrow> h2_inv s \<Longrightarrow> h2_inv s'"
  by (auto simp: http2SubmitResponseStream_def Let_def split: option.splits intro!: put_stream_inv dest: getStreamUserData_find)

lemma respond_frame:
  "http2SubmitResponseStream i resp s = Some (s', a) \<Longrightarrow> omap_wf (mStreamDataMap s) \<Longrightarrow> streams b s' = streams b s"
  by (auto simp: http2SubmitResponseStream_def Let_def streams_def count_assign_old split: option.splits dest!: getStreamUserData_find)

lemma promise_cases:
  assumes "http2SubmitPushPromise C new i req resp autoHost s = Some (s', acts)"
    "\<forall>n. new = Some n \<longrightarrow> omap_find (mStreamDataMap s) n = None"
  obtains "s' = s"
  | n st a where "omap_find (mStreamDataMap s) n = None" "isServerOpen st"
      "http2SubmitResponseStream n resp
         (put_stream (s\<lparr>serverOpenedStreams := serverOpenedStreams s + 1, user_data := insert n (user_data s)\<rparr>) n st) = Some (s', a)"
proof (cases "(\<not> set_enablePush s \<or> \<not> s_enablePush C) \<or> getStreamUserData s i = None \<or> new = None")
  case True
  with assms(1) have "s' = s"
    by (auto simp: http2SubmitPushPromise_def split: if_splits option.splits prod.splits)
  then show ?thesis by (rule that(1))
next
  case False
  then obtain par n where p: "set_enablePush s" "s_enablePush C" "getStreamUserData s i = Some par" "new = Some n" by auto
  obtain h q where h: "push_host autoHost par req = (h, q)" by fastforce
  have n: "omap_find (mStreamDataMap s) n = None" using assms(2) p(4) by simp
  then have "getStreamUserData s n = None" by (simp add: getStreamUserData_def)
  let ?st = "(Http2StreamData_new 0)\<lparr>pushPromise := Some (push_promise_block q h), isServerOpen := True, parentStreamId := i\<rparr>"
  let ?s = "put_stream (s\<lparr>serverOpenedStreams := serverOpenedStreams s + 1, user_data := insert n (user_data s)\<rparr>) n ?st"
  obtain a where "http2SubmitResponseStream n resp ?s = Some (s', a)"
    using assms(1) p h n \<open>getStreamUserData s n = None\<close> by (auto simp: http2SubmitPushPromise_def Let_def)
  then show ?thesis using n by (intro that(2) [of n ?st a]) simp_all
qed

lemma promise_inv:
  assumes "http2SubmitPushPromise C new i req resp autoHost s = Some (s', acts)"
    "\<forall>n. new = Some n \<longrightarrow> omap_find (mStreamDataMap s) n = None" "h2_inv s"
  shows "h2_inv s'"
  using assms(1,2)
proof (cases rule: promise_cases)
  case (2 n st a)
  then show ?thesis using respond_inv [OF 2(3)] new_stream_inv(1) [OF assms(3) 2(1,2)] by simp
qed (use assms(3) in simp)

lemma h2_step_inv: "h2_step C s s' \<Longrightarrow> h2_inv s \<Longrightarrow> h2_inv s'"
proof (induction rule: h2_step.induct)
  case (begin_request s i lastId)
  then show ?case by (rule on_begin_inv [rotated])
next
  case (header s i name val)
  then show ?case by (auto simp: on_header_def split: option.split intro!: put_stream_inv dest: getStreamUserData_find)
next
  case (data_chunk s fin i d)
  then show ?case by (auto simp: on_data_chunk_recv_def split: option.split intro!: put_stream_inv dest: getStreamUserData_find)
next
  case (frame f i s s')
  then show ?case
    by (auto simp: on_frame_recv_def split: h2_frame.splits bool.splits option.splits sum.splits
        intro!: put_stream_inv dest: getStreamUserData_find)
next
  case (close_stream s i)
  then show ?case by (rule on_stream_close_inv)
next
  case (respond i resp s s' a)
  then show ?case by (rule respond_inv)
next
  case (promise new s i req resp autoHost s' acts)
  then show ?case by (intro promise_inv [OF promise(2,1)])
next
  case (go_away s lastId)
  then show ?case by (simp add: http2SubmitGoaway_def h2_inv_def streams_def)
next
  case (taken s i st)
  then show ?case by (auto simp: mark_processed_def intro!: put_stream_inv dest: getStreamUserData_find)
qed

lemma h2_reach_inv: "h2_reach C s \<Longrightarrow> h2_inv s"
proof (induction rule: h2_reach.induct)
  case h2_start
  show ?case by (simp add: h2_inv_def h2_session_new_def streams_def)
next
  case (h2_more s s')
  then show ?case by (blast intro: h2_step_inv)
qed

text \<open>Only the begin of a request adds a client stream.\<close>

lemma streams_put_old:
  "omap_wf (mStreamDataMap s) \<Longrightarrow> omap_find (mStreamDataMap s) i = Some old \<Longrightarrow> isServerOpen st = isServerOpen old \<Longrightarrow>
     streams b (put_stream s i st) = streams b s"
  by (simp add: streams_def count_assign_old)

lemma h2_step_clients:
  assumes "h2_step C s s'" "h2_inv s" "unat (s_maxConcurrentStream C) < 2 ^ 32 - 1"
    "streams False s \<le> unat (s_maxConcurrentStream C) + 1"
  shows "streams False s' \<le> unat (s_maxConcurrentStream C) + 1"
  using assms(1)
proof cases
  case (begin_request i lastId)
  have "unat (openedStreams s) = streams False s"
    using assms(2,3,4) by (simp add: h2_inv_def unat_of_nat_small)
  then have "streams False s \<le> unat (s_maxConcurrentStream C)" if "\<not> s_maxConcurrentStream C < openedStreams s"
    using that by (simp add: word_less_nat_alt)
  then show ?thesis
    using begin_request assms(4) by (auto simp: on_begin_headers_def streams_def count_assign_new)
next
  case (close_stream i)
  then show ?thesis
    using assms(4) count_erase [of "mStreamDataMap s" i _ "\<lambda>e. \<not> isServerOpen (snd e)"]
    by (auto simp: on_stream_close_def streams_def Let_def split: option.splits if_splits dest: getStreamUserData_find)
next
  case (promise new i req resp autoHost acts)
  have wf: "omap_wf (mStreamDataMap s)" using assms(2) by (simp add: h2_inv_def)
  show ?thesis
    using promise(2,1)
  proof (cases rule: promise_cases)
    case (2 n st a)
    have "streams False s' = streams False s"
      using respond_frame [OF 2(3), of False] wf 2(1,2) by (simp add: omap_wf_assign streams_def count_assign_new)
    then show ?thesis using assms(4) by simp
  qed (use assms(4) in simp)
qed (use assms(2,4) in \<open>auto simp: h2_inv_def on_header_def on_data_chunk_recv_def on_frame_recv_def http2SubmitResponseStream_def
    http2SubmitGoaway_def mark_processed_def streams_def Let_def count_assign_old
    split: option.splits h2_frame.splits bool.splits sum.splits dest!: getStreamUserData_find\<close>)

lemma h2_reach_clients:
  "h2_reach C s \<Longrightarrow> unat (s_maxConcurrentStream C) < 2 ^ 32 - 1 \<Longrightarrow> streams False s \<le> unat (s_maxConcurrentStream C) + 1"
proof (induction rule: h2_reach.induct)
  case h2_start
  show ?case by (simp add: h2_session_new_def streams_def)
next
  case (h2_more s s')
  then show ?case using h2_step_clients h2_reach_inv by blast
qed

text \<open>
  C28. In every state a connection reaches, whatever frames arrive and whatever is answered and promised, the
  library's pointers are the entries of the stream map, \<open>openedStreams\<close> counts the client's streams among
  them and \<open>serverOpenedStreams\<close> the promised ones, so \<open>isConnEnd\<close> says that no client stream is left. The
  number of client streams is at most one more than the configured maximum: the test in
  \<open>on_begin_headers_callback\<close> admits one stream too many.
\<close>
theorem h2_streams_counted:
  assumes "h2_reach C s" "unat (s_maxConcurrentStream C) < 2 ^ 32 - 1"
  shows "user_data s = fst ` set (mStreamDataMap s)
    \<and> unat (openedStreams s) = streams False s \<and> serverOpenedStreams s = word_of_nat (streams True s)
    \<and> (isConnEnd s \<longleftrightarrow> (\<forall>st \<in> snd ` set (mStreamDataMap s). isServerOpen st))
    \<and> streams False s \<le> unat (s_maxConcurrentStream C) + 1"
proof -
  note inv = h2_reach_inv [OF assms(1), unfolded h2_inv_def]
  note n = h2_reach_clients [OF assms]
  have u: "unat (openedStreams s) = streams False s" using inv n assms(2) by (simp add: unat_of_nat_small)
  then have "isConnEnd s \<longleftrightarrow> streams False s = 0" by (simp add: isConnEnd_def unat_eq_0 [symmetric])
  also have "\<dots> \<longleftrightarrow> (\<forall>st \<in> snd ` set (mStreamDataMap s). isServerOpen st)"
    by (auto simp: streams_def filter_empty_conv)
  finally show ?thesis using inv u n by simp
qed

theorem h2_streams_counted_witness:
  "\<exists>s. h2_reach \<lparr>s_enablePush = True, s_maxConcurrentStream = 1\<rparr> s \<and> unat (openedStreams s) = 2"
proof -
  let ?C = "\<lparr>s_enablePush = True, s_maxConcurrentStream = 1\<rparr>"
  let ?s1 = "fst (on_begin_headers ?C 0 1 (h2_session_new ?C))"
  let ?s2 = "fst (on_begin_headers ?C 1 3 ?s1)"
  have 1: "h2_reach ?C ?s1"
    by (intro h2_more [OF h2_start] begin_request) (simp add: h2_session_new_def)
  have 2: "h2_reach ?C ?s2"
    by (intro h2_more [OF 1] begin_request) (simp add: h2_session_new_def on_begin_headers_def put_stream_def)
  have "streams False ?s2 = 2"
    by (simp add: h2_session_new_def on_begin_headers_def put_stream_def streams_def Http2StreamData_new_def)
  with h2_streams_counted [OF 2] 2 show ?thesis by auto
qed

section \<open>The streams that can be answered\<close>

text \<open>\<open>traversalFinishedStreams\<close>: the entries in the order of their streams. The callback gets the request
  made of the moved-out parser; its answers and promises touch no entry of the traversal but its own
  (a promise adds a stream of the server's, which the traversal skips). The callback's exception (Inl)
  leaves the stream unprocessed.\<close>

fun traverse_streams :: "(http_request \<Rightarrow> u32 \<Rightarrow> h2_session \<times> 'x \<Rightarrow> ('e + bool) \<times> h2_session \<times> 'x) \<Rightarrow> u32 list \<Rightarrow>
    h2_session \<times> 'x \<Rightarrow> ('e + unit) \<times> h2_session \<times> 'x" where
  "traverse_streams func [] (s, x) = (Inr (), s, x)"
| "traverse_streams func (i # ids) (s, x) =
     (case omap_find (mStreamDataMap s) i of
        None \<Rightarrow> traverse_streams func ids (s, x)
      | Some st \<Rightarrow>
          (if \<not> isServerOpen st \<and> hp_isFinish (st_parser st) \<and> \<not> processed st
           then (let request = request_of_stream (st_parser st);
                     s1 = put_stream s i (st\<lparr>st_parser := hp_moved (st_parser st)\<rparr>)
                 in case func request i (s1, x) of
                      (Inl e, s2, x2) \<Rightarrow> (Inl e, s2, x2)
                    | (Inr shouldCon, s2, x2) \<Rightarrow>
                        (let s3 = (case omap_find (mStreamDataMap s2) i of
                                     None \<Rightarrow> s2 | Some st2 \<Rightarrow> put_stream s2 i (st2\<lparr>processed := True\<rparr>))
                         in if \<not> shouldCon then (Inr (), s3, x2) else traverse_streams func ids (s3, x2)))
           else traverse_streams func ids (s, x)))"

definition traversalFinishedStreams :: "(http_request \<Rightarrow> u32 \<Rightarrow> h2_session \<times> 'x \<Rightarrow> ('e + bool) \<times> h2_session \<times> 'x) \<Rightarrow>
    h2_session \<times> 'x \<Rightarrow> ('e + unit) \<times> h2_session \<times> 'x" where
  "traversalFinishedStreams func sx = traverse_streams func (map fst (mStreamDataMap (fst sx))) sx"

text \<open>The answer to one stream (\<open>perStream\<close> of \<open>FHttpServer::http2Process\<close>). \<open>newId\<close> is what
  \<open>nghttp2_submit_push_promise\<close> answers when the library has these streams, \<open>promises\<close> the requests of the push map for a path.
  The response to a promise is made by routing \<open>request\<close>, the request of the stream. \<open>H2_null\<close> is the access
  through a null pointer.\<close>

datatype h2_exc = H2_controller controller_exn | H2_null

definition promise_response :: "('cm, 'rc, 'oq, 'f) router_libs \<Rightarrow> 'f http_server \<Rightarrow> u64 \<Rightarrow> http_request \<Rightarrow> bool \<Rightarrow>
    ('cm, 'rc, 'oq) router \<Rightarrow> controller_answer \<times> bool \<times> ('cm, 'rc, 'oq) router" where
  "promise_response L S clock request notMatchError0 r =
     (let (routeResult, r1) = route L clock r (rq_getMethod request) (rq_getPath request);
          notMatchError = (notMatchError0 \<or> \<not> rr_isvalid routeResult)
      in if notMatchError
         then (let (errResult, r2) = route L clock r1 M_GET ERROR_ROUTE_PATH
               in (if \<not> rr_isvalid errResult
                   then Inr (case mRouteNotMatchCallback S of
                               Some cb \<Rightarrow> cb request FHttpResponse_new
                             | None \<Rightarrow> defaultHandleRouterMismatchFunc FHttpResponse_new)
                   else the_func S errResult request, notMatchError, r2))
         else (the_func S routeResult request, notMatchError, r1))"

type_synonym ('cm, 'rc, 'oq) h2_world = "('cm, 'rc, 'oq) router \<times> conn_data \<times> h2_action list"

fun push_loop :: "('cm, 'rc, 'oq, 'f) router_libs \<Rightarrow> 'f http_server \<Rightarrow> u64 \<Rightarrow> h2_config \<Rightarrow> (u32 set \<Rightarrow> u32 option) \<Rightarrow>
    http_request \<Rightarrow> u32 \<Rightarrow> bool \<Rightarrow> http_request list \<Rightarrow> h2_session \<times> ('cm, 'rc, 'oq) h2_world \<Rightarrow>
    (h2_exc + bool) \<times> h2_session \<times> ('cm, 'rc, 'oq) h2_world" where
  "push_loop L S clock C newId request i notMatch [] w = (Inr True, w)"
| "push_loop L S clock C newId request i notMatch (pushRequest # ps) (s, r, d, acts) =
     (let (answer, notMatch', r1) = promise_response L S clock request notMatch r
      in case answer of
           Inl e \<Rightarrow> (Inl (H2_controller e), s, r1, d, acts)
         | Inr promiseResponse \<Rightarrow>
             (case http2SubmitPushPromise C (newId (user_data s)) i pushRequest promiseResponse True s of
                None \<Rightarrow> (Inl H2_null, s, r1, d, acts)
              | Some (s1, as) \<Rightarrow> push_loop L S clock C newId request i notMatch' ps (s1, r1, d, acts @ as)))"

definition perStream :: "('cm, 'rc, 'oq, 'f) router_libs \<Rightarrow> 'f http_server \<Rightarrow> u64 \<Rightarrow> h2_config \<Rightarrow> (u32 set \<Rightarrow> u32 option) \<Rightarrow>
    (string \<Rightarrow> http_request list) \<Rightarrow> http_request \<Rightarrow> u32 \<Rightarrow> h2_session \<times> ('cm, 'rc, 'oq) h2_world \<Rightarrow>
    (h2_exc + bool) \<times> h2_session \<times> ('cm, 'rc, 'oq) h2_world" where
  "perStream L S clock C newId promises request i w =
     (let (s, r, d, acts) = w; (answer, r1, d1) = httpHandle L S clock r d True request
      in case answer of
           Inl e \<Rightarrow> (Inl (H2_controller e), s, r1, d1, acts)
         | Inr response \<Rightarrow>
             (case http2SubmitResponseStream i response s of
                None \<Rightarrow> (Inl H2_null, s, r1, d1, acts)
              | Some (s1, a) \<Rightarrow>
                  (if enablePush C s1
                   then push_loop L S clock C newId request i False (promises (rq_getPath request)) (s1, r1, d1, acts @ [a])
                   else (Inr True, s1, r1, d1, acts @ [a]))))"

text \<open>What follows the receiving of bytes in \<open>http2Process\<close>.\<close>

definition answer_streams :: "('cm, 'rc, 'oq, 'f) router_libs \<Rightarrow> 'f http_server \<Rightarrow> u64 \<Rightarrow> h2_config \<Rightarrow> (u32 set \<Rightarrow> u32 option) \<Rightarrow>
    (string \<Rightarrow> http_request list) \<Rightarrow> h2_session \<times> ('cm, 'rc, 'oq) h2_world \<Rightarrow> (h2_exc + unit) \<times> h2_session \<times> ('cm, 'rc, 'oq) h2_world" where
  "answer_streams L S clock C newId promises w = traversalFinishedStreams (perStream L S clock C newId promises) w"

section \<open>Every finished request is answered once\<close>

text \<open>What the traversal looks at: for a client's stream whether its request is complete and processed.\<close>

definition client_state :: "h2_session \<Rightarrow> u32 \<Rightarrow> (bool \<times> bool) option" where
  "client_state s i =
     (case omap_find (mStreamDataMap s) i of
        None \<Rightarrow> None
      | Some st \<Rightarrow> if isServerOpen st then None else Some (hp_isFinish (st_parser st), processed st))"

definition waiting :: "h2_session \<Rightarrow> u32 \<Rightarrow> bool" where
  "waiting s i \<longleftrightarrow> client_state s i = Some (True, False)"

text \<open>The streams a list of actions responds to.\<close>

fun answered :: "h2_action list \<Rightarrow> u32 list" where
  "answered [] = []"
| "answered (Submit_response i h b # as) = i # answered as"
| "answered (_ # as) = answered as"

lemma answered_append [simp]: "answered (as @ bs) = answered as @ answered bs"
  by (induction as rule: answered.induct) simp_all

lemma client_state_put:
  "client_state (put_stream s i st) j =
     (if j = i then (if isServerOpen st then None else Some (hp_isFinish (st_parser st), processed st)) else client_state s j)"
  by (simp add: client_state_def find_assign)

lemma client_state_ids [simp]:
  "client_state (s\<lparr>serverOpenedStreams := n, user_data := u\<rparr>) = client_state s"
  by (rule ext) (simp add: client_state_def)

lemma respond_client_state:
  assumes "http2SubmitResponseStream i resp s = Some (s', a)"
  shows "client_state s' = client_state s" "answered [a] = [i]"
proof -
  obtain st where st: "getStreamUserData s i = Some st"
    using assms by (auto simp: http2SubmitResponseStream_def split: option.splits)
  with assms have s': "s' = put_stream s i (st\<lparr>returnResponse := Some (FHttp2Response_of resp)\<rparr>)"
      and a: "a = Submit_response i (nv_read (h2_block (FHttp2Response_of resp))) (h2_body (FHttp2Response_of resp))"
    by (simp_all add: http2SubmitResponseStream_def Let_def)
  show "answered [a] = [i]" by (simp add: a)
  show "client_state s' = client_state s"
    unfolding s' using getStreamUserData_find [OF st] by (intro ext) (auto simp: client_state_def find_assign)
qed

lemma promise_client_state:
  assumes "http2SubmitPushPromise C new i req resp autoHost s = Some (s', acts)"
    "\<forall>n. new = Some n \<longrightarrow> omap_find (mStreamDataMap s) n = None"
  shows "client_state s' = client_state s \<and> (\<forall>j \<in> set (answered acts). client_state s j = None)"
proof (cases "(\<not> set_enablePush s \<or> \<not> s_enablePush C) \<or> getStreamUserData s i = None \<or> new = None")
  case True
  with assms(1) show ?thesis
    by (auto simp: http2SubmitPushPromise_def split: if_splits option.splits prod.splits)
next
  case False
  then obtain par n where p: "set_enablePush s" "s_enablePush C" "getStreamUserData s i = Some par" "new = Some n" by auto
  obtain h q where h: "push_host autoHost par req = (h, q)" by fastforce
  have n: "omap_find (mStreamDataMap s) n = None" using assms(2) p(4) by simp
  then have g: "getStreamUserData s n = None" by (simp add: getStreamUserData_def)
  let ?st = "(Http2StreamData_new 0)\<lparr>pushPromise := Some (push_promise_block q h), isServerOpen := True, parentStreamId := i\<rparr>"
  let ?s = "put_stream (s\<lparr>serverOpenedStreams := serverOpenedStreams s + 1, user_data := insert n (user_data s)\<rparr>) n ?st"
  obtain a where a: "http2SubmitResponseStream n resp ?s = Some (s', a)"
      "acts = [Submit_push_promise (st_streamId par) (nv_read (push_promise_block q h)), a]"
    using assms(1) p h n g by (auto simp: http2SubmitPushPromise_def Let_def)
  have none: "client_state s n = None" using n by (simp add: client_state_def)
  have "client_state ?s = client_state s" using none by (auto simp: client_state_put)
  then show ?thesis using respond_client_state [OF a(1)] none by (simp add: a(2) split: h2_action.splits)
qed

lemma push_loop_client_state:
  assumes "\<And>u n. newId u = Some n \<Longrightarrow> n \<notin> u"
  shows "push_loop L S clock C newId request i nm ps (s, r, d, acts) = (res, s', r', d', acts') \<Longrightarrow> h2_inv s \<Longrightarrow>
    h2_inv s' \<and> client_state s' = client_state s \<and> (res = Inr False \<longrightarrow> False)
    \<and> (\<exists>new. acts' = acts @ new \<and> (\<forall>j \<in> set (answered new). client_state s j = None))"
proof (induction ps arbitrary: nm s r d acts)
  case Nil
  then show ?case by auto
next
  case (Cons p ps)
  obtain answer nm' r1 where pr: "promise_response L S clock request nm r = (answer, nm', r1)" by (metis prod_cases3)
  show ?case
  proof (cases answer)
    case (Inl e)
    with Cons.prems pr show ?thesis by auto
  next
    case (Inr resp)
    show ?thesis
    proof (cases "http2SubmitPushPromise C (newId (user_data s)) i p resp True s")
      case None
      with Cons.prems pr Inr show ?thesis by auto
    next
      case (Some sa)
      obtain s1 as where sa: "sa = (s1, as)" by fastforce
      have fresh: "\<forall>n. newId (user_data s) = Some n \<longrightarrow> omap_find (mStreamDataMap s) n = None"
        using assms Cons.prems(2) by (auto simp: h2_inv_def find_None_iff)
      note step = promise_client_state [OF Some [unfolded sa] fresh]
      have "push_loop L S clock C newId request i nm' ps (s1, r1, d, acts @ as) = (res, s', r', d', acts')"
        using Cons.prems(1) pr Inr Some sa by simp
      from Cons.IH [OF this promise_inv [OF Some [unfolded sa] fresh Cons.prems(2)]] step
      show ?thesis by auto
    qed
  qed
qed

lemma perStream_client_state:
  assumes "\<And>u n. newId u = Some n \<Longrightarrow> n \<notin> u" "h2_inv s" "client_state s i \<noteq> None"
    "perStream L S clock C newId promises request i (s, r, d, acts) = (Inr b, s', r', d', acts')"
  shows "b \<and> h2_inv s' \<and> client_state s' = client_state s
    \<and> (\<exists>new. acts' = acts @ new \<and> filter (\<lambda>j. client_state s j \<noteq> None) (answered new) = [i])"
proof -
  obtain answer r1 d1 where h: "httpHandle L S clock r d True request = (answer, r1, d1)" by (metis prod_cases3)
  from assms(4) h obtain resp where resp: "answer = Inr resp" by (cases answer) (simp_all add: perStream_def)
  from assms(4) h resp obtain s1 a where a: "http2SubmitResponseStream i resp s = Some (s1, a)"
    by (cases "http2SubmitResponseStream i resp s") (auto simp: perStream_def)
  note ra = respond_client_state [OF a] and inv1 = respond_inv [OF a assms(2)]
  have push: "(if enablePush C s1
        then push_loop L S clock C newId request i False (promises (rq_getPath request)) (s1, r1, d1, acts @ [a])
        else (Inr True, s1, r1, d1, acts @ [a])) = (Inr b, s', r', d', acts')"
    using assms(4) h resp a by (simp add: perStream_def)
  show ?thesis
  proof (cases "enablePush C s1")
    case True
    then have "push_loop L S clock C newId request i False (promises (rq_getPath request)) (s1, r1, d1, acts @ [a]) = (Inr b, s', r', d', acts')"
      using push by simp
    from push_loop_client_state [OF assms(1) this inv1]
    obtain new where new: "b" "h2_inv s'" "client_state s' = client_state s1" "acts' = (acts @ [a]) @ new"
        "\<forall>j \<in> set (answered new). client_state s1 j = None"
      by (cases b) auto
    have "answered (a # new) = i # answered new" using ra(2) answered_append [of "[a]" new] by simp
    moreover have "filter (\<lambda>j. client_state s j \<noteq> None) (answered new) = []"
      using new(5) ra(1) by (simp add: filter_empty_conv)
    ultimately have "filter (\<lambda>j. client_state s j \<noteq> None) (answered (a # new)) = [i]" using assms(3) by simp
    moreover have "acts' = acts @ (a # new)" using new(4) by simp
    ultimately show ?thesis using new(1-3) ra(1) by metis
  next
    case False
    then have e: "b" "s' = s1" "acts' = acts @ [a]" using push by auto
    have "filter (\<lambda>j. client_state s j \<noteq> None) (answered [a]) = [i]" using ra(2) assms(3) by simp
    with e ra(1) inv1 show ?thesis by metis
  qed
qed

lemma traverse_answers:
  assumes "\<And>u n. newId u = Some n \<Longrightarrow> n \<notin> u"
  shows "traverse_streams (perStream L S clock C newId promises) ids (s, r, d, acts) = (Inr (), s', r', d', acts') \<Longrightarrow>
    h2_inv s \<Longrightarrow> distinct ids \<Longrightarrow>
    (\<forall>j. client_state s' j = (if j \<in> set ids \<and> waiting s j then Some (True, True) else client_state s j))
    \<and> (\<exists>new. acts' = acts @ new \<and> filter (\<lambda>j. client_state s j \<noteq> None) (answered new) = filter (waiting s) ids)"
proof (induction ids arbitrary: s r d acts)
  case (Cons i ids)
  show ?case
  proof (cases "waiting s i")
    case False
    then have "traverse_streams (perStream L S clock C newId promises) ids (s, r, d, acts) = (Inr (), s', r', d', acts')"
      using Cons.prems(1) by (auto simp: waiting_def client_state_def split: option.splits if_splits)
    from Cons.IH [OF this Cons.prems(2)] Cons.prems(3) False show ?thesis by auto
  next
    case True
    then obtain st where st: "omap_find (mStreamDataMap s) i = Some st" "\<not> isServerOpen st"
        "hp_isFinish (st_parser st)" "\<not> processed st"
      by (auto simp: waiting_def client_state_def split: option.splits if_splits)
    let ?s1 = "put_stream s i (st\<lparr>st_parser := hp_moved (st_parser st)\<rparr>)"
    let ?rq = "request_of_stream (st_parser st)"
    have same: "client_state ?s1 = client_state s"
      using st by (intro ext) (auto simp: client_state_def find_assign hp_isFinish_def hp_moved_def)
    have inv1: "h2_inv ?s1" using put_stream_inv [OF Cons.prems(2) st(1)] by simp
    obtain b s2 r2 d2 a2 where ps: "perStream L S clock C newId promises ?rq i (?s1, r, d, acts) = (b, s2, r2, d2, a2)"
      by (metis prod_cases5)
    have "b \<noteq> Inl e" for e using Cons.prems(1) st ps by auto
    then obtain b' where b': "b = Inr b'" by (cases b) auto
    have ne: "client_state ?s1 i \<noteq> None" using True by (simp add: same waiting_def)
    from perStream_client_state [OF assms inv1 ne ps [unfolded b']] obtain new where new: "b'" "h2_inv s2"
        "client_state s2 = client_state s" "a2 = acts @ new" "filter (\<lambda>j. client_state s j \<noteq> None) (answered new) = [i]"
      by (auto simp: same)
    have "client_state s2 i = Some (True, False)" using new(3) True by (simp add: waiting_def)
    then obtain st2 where st2: "omap_find (mStreamDataMap s2) i = Some st2" "\<not> isServerOpen st2" "hp_isFinish (st_parser st2)"
      by (auto simp: client_state_def split: option.splits if_splits)
    let ?s3 = "put_stream s2 i (st2\<lparr>processed := True\<rparr>)"
    have cs3: "client_state ?s3 = (client_state s)(i := Some (True, True))"
      using st2 new(3) by (intro ext) (simp add: client_state_put)
    have inv3: "h2_inv ?s3" using put_stream_inv [OF new(2) st2(1)] by simp
    have "traverse_streams (perStream L S clock C newId promises) ids (?s3, r2, d2, a2) = (Inr (), s', r', d', acts')"
      using Cons.prems(1) st ps b' new(1) st2(1) by (simp add: Let_def)
    from Cons.IH [OF this inv3] Cons.prems(3) obtain more where more: "acts' = a2 @ more"
        "filter (\<lambda>j. client_state ?s3 j \<noteq> None) (answered more) = filter (waiting ?s3) ids"
        "\<forall>j. client_state s' j = (if j \<in> set ids \<and> waiting ?s3 j then Some (True, True) else client_state ?s3 j)"
      by auto
    have w3: "waiting ?s3 j = waiting s j" if "j \<noteq> i" for j using that by (simp add: waiting_def cs3)
    have dom: "(client_state ?s3 j \<noteq> None) = (client_state s j \<noteq> None)" for j
      using True by (auto simp: cs3 waiting_def)
    have "filter (waiting ?s3) ids = filter (waiting s) ids"
    proof (rule filter_cong [OF refl])
      fix x assume "x \<in> set ids"
      then have "x \<noteq> i" using Cons.prems(3) by auto
      then show "waiting ?s3 x = waiting s x" by (rule w3)
    qed
    then have "filter (\<lambda>j. client_state s j \<noteq> None) (answered (new @ more)) = filter (waiting s) (i # ids)"
      using more(2) dom new(5) True by simp
    moreover have "acts' = acts @ (new @ more)" using more(1) new(4) by simp
    moreover have "client_state s' j = (if j \<in> set (i # ids) \<and> waiting s j then Some (True, True) else client_state s j)" for j
      using more(3) w3 [of j] Cons.prems(3) True by (auto simp: cs3)
    ultimately show ?thesis by blast
  qed
qed simp


definition demo_h2_config :: h2_config where
  "demo_h2_config = \<lparr>s_enablePush = False, s_maxConcurrentStream = 5\<rparr>"

definition demo_h2_headers :: h2_session where
  "demo_h2_headers = on_header 1 '':path'' ''/file/a.png'' (on_header 1 '':method'' ''GET''
     (fst (on_begin_headers demo_h2_config 0 1 (h2_session_new demo_h2_config))))"

definition demo_h2_session :: h2_session where
  "demo_h2_session = (case on_frame_recv F_headers 1 demo_h2_headers of Inr s \<Rightarrow> s | Inl e \<Rightarrow> demo_h2_headers)"

lemma demo_h2_reach: "h2_reach demo_h2_config demo_h2_session"
proof -
  have "h2_reach demo_h2_config (fst (on_begin_headers demo_h2_config 0 1 (h2_session_new demo_h2_config)))"
    by (rule h2_more [OF h2_start begin_request]) (simp add: h2_session_new_def)
  then have "h2_reach demo_h2_config demo_h2_headers"
    unfolding demo_h2_headers_def by (intro h2_more [OF h2_more [OF _ header] header])
  moreover have "on_frame_recv F_headers 1 demo_h2_headers = Inr demo_h2_session \<or> demo_h2_session = demo_h2_headers"
    by (auto simp: demo_h2_session_def split: sum.split)
  ultimately show ?thesis using h2_more [OF _ frame] by auto
qed


section \<open>Promises\<close>

fun is_response :: "h2_action \<Rightarrow> bool" where
  "is_response (Submit_response i h b) = True"
| "is_response _ = False"

text \<open>A session without what it promised.\<close>

definition unpromised :: "h2_session \<Rightarrow> h2_session" where
  "unpromised s = s\<lparr>mStreamDataMap := map (apsnd (\<lambda>st. st\<lparr>pushPromise := None\<rparr>)) (mStreamDataMap s)\<rparr>"

lemma find_apsnd: "omap_find (map (apsnd f) m) k = map_option f (omap_find m k)"
  by (induction m k rule: omap_find.induct) auto

lemma assign_apsnd: "map (apsnd f) (omap_assign m k v) = omap_assign (map (apsnd f) m) k (f v)"
  by (induction m k v rule: omap_assign.induct) auto

lemma unpromised_fields [simp]:
  "user_data (unpromised s) = user_data s" "set_enablePush (unpromised s) = set_enablePush s"
  "serverOpenedStreams (unpromised s) = serverOpenedStreams s"
  "omap_find (mStreamDataMap (unpromised s)) k = map_option (\<lambda>st. st\<lparr>pushPromise := None\<rparr>) (omap_find (mStreamDataMap s) k)"
  "getStreamUserData (unpromised s) k = map_option (\<lambda>st. st\<lparr>pushPromise := None\<rparr>) (getStreamUserData s k)"
  by (simp_all add: unpromised_def getStreamUserData_def find_apsnd)

lemma unpromised_put: "unpromised (put_stream s i st) = put_stream (unpromised s) i (st\<lparr>pushPromise := None\<rparr>)"
  by (simp add: unpromised_def put_stream_def assign_apsnd)

lemma unpromised_idem [simp]: "unpromised (unpromised s) = unpromised s"
  by (simp add: unpromised_def comp_def apsnd_def map_prod_def split_def)

lemma promise_commute:
  "st\<lparr>returnResponse := r, pushPromise := p\<rparr> = st\<lparr>pushPromise := p, returnResponse := r\<rparr>"
  "st\<lparr>isServerOpen := b, parentStreamId := i, pushPromise := p\<rparr> = st\<lparr>pushPromise := p, isServerOpen := b, parentStreamId := i\<rparr>"
  by simp_all

lemma respond_unpromised:
  "map_option (apfst unpromised) (http2SubmitResponseStream i resp s) = http2SubmitResponseStream i resp (unpromised s)"
  by (simp add: http2SubmitResponseStream_def unpromised_put promise_commute Let_def split: option.split)

lemma promise_unpromised:
  "map_option (map_prod unpromised (filter is_response)) (http2SubmitPushPromise C new i p resp True s)
   = map_option (map_prod unpromised (filter is_response)) (http2SubmitPushPromise C new i q resp True (unpromised s))"
proof (cases "(\<not> set_enablePush s \<or> \<not> s_enablePush C) \<or> getStreamUserData s i = None \<or> new = None")
  case True
  then show ?thesis by (auto simp: http2SubmitPushPromise_def Let_def split: prod.split option.split)
next
  case False
  then obtain par n where a: "set_enablePush s" "s_enablePush C" "getStreamUserData s i = Some par" "new = Some n" by auto
  obtain h where h: "push_host True par p' = (h, p')" "push_host True (par\<lparr>pushPromise := None\<rparr>) p' = (h, p')" for p'
    by (simp add: push_host_def)
  have ext: "map_option (map_prod unpromised (filter is_response)) (map_option (\<lambda>(s3, a). (s3, [Submit_push_promise j x, a])) o1)
      = map_option (map_prod unpromised (filter is_response)) (map_option (\<lambda>(s3, a). (s3, [Submit_push_promise j y, a])) o2)"
    if "map_option (apfst unpromised) o1 = map_option (apfst unpromised) o2" for o1 o2 j x y
    using that by (cases o1; cases o2) auto
  have R: "map_option (apfst unpromised) (http2SubmitResponseStream n resp s1) = map_option (apfst unpromised) (http2SubmitResponseStream n resp s2)"
    if "unpromised s1 = unpromised s2" for s1 s2
    using that by (simp add: respond_unpromised)
  define t where "t = (\<lambda>u st x. put_stream u n (st\<lparr>pushPromise := x, isServerOpen := True, parentStreamId := i\<rparr>))"
  have T: "unpromised (t u st x) = unpromised (t u' st' y)"
    if "unpromised u = unpromised u'" "st\<lparr>pushPromise := None\<rparr> = st'\<lparr>pushPromise := None\<rparr>" for u u' st st' x y
  proof -
    have "(st\<lparr>pushPromise := None\<rparr>)\<lparr>isServerOpen := True, parentStreamId := i\<rparr> = (st'\<lparr>pushPromise := None\<rparr>)\<lparr>isServerOpen := True, parentStreamId := i\<rparr>"
      using that(2) by simp
    then show ?thesis using that(1) by (simp add: t_def unpromised_put promise_commute)
  qed
  let ?new = "\<lambda>u. u\<lparr>serverOpenedStreams := serverOpenedStreams u + 1, user_data := insert n (user_data u)\<rparr>"
  obtain u u' st st' where choose:
      "\<And>q x. http2SubmitPushPromise C new i q resp True s =
         map_option (\<lambda>(s3, a). (s3, [Submit_push_promise (st_streamId par) (nv_read (push_promise_block q h)), a]))
           (http2SubmitResponseStream n resp (t u st (Some (push_promise_block q h))))"
      "\<And>q x. http2SubmitPushPromise C new i q resp True (unpromised s) =
         map_option (\<lambda>(s3, a). (s3, [Submit_push_promise (st_streamId par) (nv_read (push_promise_block q h)), a]))
           (http2SubmitResponseStream n resp (t u' st' (Some (push_promise_block q h))))"
      "unpromised u = unpromised u'" "st\<lparr>pushPromise := None\<rparr> = st'\<lparr>pushPromise := None\<rparr>"
  proof (cases "getStreamUserData s n")
    case (Some w)
    then show ?thesis
      using a by (intro that [of s w "unpromised s" "w\<lparr>pushPromise := None\<rparr>"]) (simp_all add: http2SubmitPushPromise_def h t_def Let_def)
  next
    case none: None
    show ?thesis
    proof (cases "omap_find (mStreamDataMap s) n")
      case (Some w)
      then show ?thesis
        using a none by (intro that [of s w "unpromised s" "w\<lparr>pushPromise := None\<rparr>"]) (simp_all add: http2SubmitPushPromise_def h t_def Let_def)
    next
      case None
      have "unpromised (?new s) = unpromised (?new (unpromised s))"
        by (simp add: unpromised_def comp_def apsnd_def map_prod_def split_def)
      then show ?thesis
        using a none None
        by (intro that [of "?new s" "Http2StreamData_new 0" "?new (unpromised s)" "Http2StreamData_new 0"])
          (simp_all add: http2SubmitPushPromise_def h t_def Let_def)
    qed
  qed
  show ?thesis unfolding choose(1,2) by (intro ext R T choose(3,4))
qed

lemma push_loop_unpromised:
  assumes "length ps = length qs" "unpromised s = unpromised t" "filter is_response acts = filter is_response acts'"
  shows "fst (push_loop L S clock C newId request i nm ps (s, r, d, acts)) = fst (push_loop L S clock C newId request i nm qs (t, r, d, acts'))
    \<and> filter is_response (snd (snd (snd (snd (push_loop L S clock C newId request i nm ps (s, r, d, acts))))))
      = filter is_response (snd (snd (snd (snd (push_loop L S clock C newId request i nm qs (t, r, d, acts'))))))"
  using assms
proof (induction ps qs arbitrary: nm s t r acts acts' rule: list_induct2)
  case (Cons p ps q qs)
  obtain answer nm' r1 where pr: "promise_response L S clock request nm r = (answer, nm', r1)" by (metis prod_cases3)
  have u: "user_data s = user_data t" using Cons.prems(1) by (metis unpromised_fields(1))
  show ?case
  proof (cases answer)
    case (Inl e)
    with pr Cons.prems show ?thesis by simp
  next
    case (Inr resp)
    have eq: "map_option (map_prod unpromised (filter is_response)) (http2SubmitPushPromise C (newId (user_data s)) i p resp True s)
        = map_option (map_prod unpromised (filter is_response)) (http2SubmitPushPromise C (newId (user_data t)) i q resp True t)"
      using promise_unpromised [of C "newId (user_data s)" i p resp s p] promise_unpromised [of C "newId (user_data t)" i q resp t p]
        Cons.prems(1) u by simp
    show ?thesis
    proof (cases "http2SubmitPushPromise C (newId (user_data s)) i p resp True s")
      case None
      with eq have "http2SubmitPushPromise C (newId (user_data t)) i q resp True t = None" by simp
      with None pr Inr Cons.prems show ?thesis by simp
    next
      case (Some w)
      with eq obtain w' where w': "http2SubmitPushPromise C (newId (user_data t)) i q resp True t = Some w'"
          "unpromised (fst w) = unpromised (fst w')" "filter is_response (snd w) = filter is_response (snd w')"
        by (cases w; cases "http2SubmitPushPromise C (newId (user_data t)) i q resp True t") auto
      obtain s1 as t1 bs where w: "w = (s1, as)" "w' = (t1, bs)" by (metis surj_pair)
      have "filter is_response (acts @ as) = filter is_response (acts' @ bs)" using w'(3) Cons.prems(2) w by simp
      from Cons.IH [OF _ this, of s1 t1] w'(2) w have "fst (push_loop L S clock C newId request i nm' ps (s1, r1, d, acts @ as))
            = fst (push_loop L S clock C newId request i nm' qs (t1, r1, d, acts' @ bs))
          \<and> filter is_response (snd (snd (snd (snd (push_loop L S clock C newId request i nm' ps (s1, r1, d, acts @ as))))))
            = filter is_response (snd (snd (snd (snd (push_loop L S clock C newId request i nm' qs (t1, r1, d, acts' @ bs))))))" by simp
      with Some w w'(1) pr Inr show ?thesis by simp
    qed
  qed
qed simp

text \<open>
  What is sent for a promised resource does not depend on which resource was promised: for any two lists
  of promises of the same length, whatever paths, headers and methods they hold, the responses that are
  submitted are the same, because each is made by routing the request of the stream instead of the
  promised one.
\<close>
theorem push_ignores_promised_path:
  assumes "length (promises (rq_getPath request)) = length (promises' (rq_getPath request))"
  shows "filter is_response (snd (snd (snd (snd (perStream L S clock C newId promises request i (s, r, d, acts))))))
    = filter is_response (snd (snd (snd (snd (perStream L S clock C newId promises' request i (s, r, d, acts))))))"
proof -
  obtain answer r1 d1 where h: "httpHandle L S clock r d True request = (answer, r1, d1)" by (metis prod_cases3)
  show ?thesis
  proof (cases "(\<exists>e. answer = Inl e) \<or> (\<exists>resp. answer = Inr resp \<and> http2SubmitResponseStream i resp s = None)")
    case True
    with h show ?thesis by (auto simp: perStream_def)
  next
    case False
    then obtain resp s1 a where "answer = Inr resp" "http2SubmitResponseStream i resp s = Some (s1, a)"
      by (cases answer) (auto simp: not_None_eq)
    with h push_loop_unpromised [OF assms refl refl, of L S clock C newId request i False s1 r1 d1 "acts @ [a]"]
    show ?thesis by (simp add: perStream_def)
  qed
qed

theorem push_ignores_promised_path_witness:
  "filter is_response (snd (snd (snd (snd (perStream demo_libs demo_server 0 (demo_h2_config\<lparr>s_enablePush := True\<rparr>) (\<lambda>_. Some 2)
       (\<lambda>_. [FHttpRequest_of_builder (rb_setUrl (RequestBuilder_new M_GET) ''/a.css'')])
       (demo_request ''/file/a.png'') 1 (demo_h2_session\<lparr>set_enablePush := True\<rparr>, demo_router, demo_data, []))))))
   = filter is_response (snd (snd (snd (snd (perStream demo_libs demo_server 0 (demo_h2_config\<lparr>s_enablePush := True\<rparr>) (\<lambda>_. Some 2)
       (\<lambda>_. [FHttpRequest_of_builder (rb_setUrl (RequestBuilder_new M_GET) ''/b.js'')])
       (demo_request ''/file/a.png'') 1 (demo_h2_session\<lparr>set_enablePush := True\<rparr>, demo_router, demo_data, []))))))"
  by (rule push_ignores_promised_path) simp

lemma push_example:
  "answered (snd (snd (snd (snd (perStream demo_libs demo_server 0 (demo_h2_config\<lparr>s_enablePush := True\<rparr>) (\<lambda>_. Some 2)
       (\<lambda>_. [FHttpRequest_of_builder (rb_setUrl (RequestBuilder_new M_GET) ''/a.css'')])
       (demo_request ''/file/a.png'') 1 (demo_h2_session\<lparr>set_enablePush := True\<rparr>, demo_router, demo_data, [])))))) = [1, 2]"
  by code_simp

text \<open>The parser's headers have been moved into the request when the promises are made, and \<open>:authority\<close>
  was renamed before that: a promise always names the empty host.\<close>

lemma push_host_empty: "hp_headers (st_parser par) = [] \<Longrightarrow> push_host True par q = ([], q)"
  by (simp add: push_host_def mm_find_def)

section \<open>Receiving and sending\<close>

text \<open>The loops around the library's session \<open>ses\<close>: whether it wants to read or write, what it makes of input
  bytes (how many it took, or an error below zero), and the bytes it wants to send. They may not end.\<close>

record 's nghttp2_io =
  want_read :: "'s \<Rightarrow> bool"
  want_write :: "'s \<Rightarrow> bool"
  mem_recv :: "'s \<Rightarrow> string \<Rightarrow> int \<times> 's"
  mem_send :: "'s \<Rightarrow> int \<times> string \<times> 's"

partial_function (option) recv_loop :: "'s nghttp2_io \<Rightarrow> 's \<Rightarrow> string \<Rightarrow> nat \<Rightarrow> ('s \<times> string \<times> nat) option" where
  "recv_loop N ses input recvLen =
     (if \<not> want_read N ses \<or> input = [] then Some (ses, input, recvLen)
      else (let (n, ses') = mem_recv N ses input
            in if n < 0 then Some (ses', input, recvLen)
               else recv_loop N ses' (drop (nat n) input) (recvLen + nat n)))"

partial_function (option) send_loop :: "'s nghttp2_io \<Rightarrow> 's \<Rightarrow> string \<Rightarrow> ('s \<times> string) option" where
  "send_loop N ses sent =
     (if \<not> want_write N ses then Some (ses, sent)
      else (let (n, d, ses') = mem_send N ses
            in send_loop N ses' (if 0 < n then sent @ take (nat n) d else sent)))"

text \<open>If the library always takes some of the input, receiving ends.\<close>

lemma recv_loop_ends:
  assumes "\<And>ses input n ses'. input \<noteq> [] \<Longrightarrow> mem_recv N ses input = (n, ses') \<Longrightarrow> n \<noteq> 0"
  shows "\<exists>r. recv_loop N ses input k = Some r"
proof (induction "length input" arbitrary: ses input k rule: less_induct)
  case less
  show ?case
  proof (cases "\<not> want_read N ses \<or> input = []")
    case False
    obtain n ses' where r: "mem_recv N ses input = (n, ses')" by fastforce
    have "n \<noteq> 0" using assms [OF _ r] False by blast
    then have "\<exists>r. recv_loop N ses' (drop (nat n) input) k' = Some r" if "0 \<le> n" for k'
      using that False by (intro less) auto
    then show ?thesis using r by (subst recv_loop.simps) (auto simp: Let_def)
  qed (subst recv_loop.simps, simp)
qed

text \<open>
  The send loop has no way out on an error: in a session that wants to write but whose
  \<open>nghttp2_session_mem_send2\<close> fails and leaves the session as it is, \<open>http2SendProcess\<close> never returns.
\<close>

lemma send_loop_hangs:
  assumes "want_write N ses" "mem_send N ses = (n, d, ses)" "n \<le> 0"
  shows "send_loop N ses sent = None"
proof -
  have "N' = N \<longrightarrow> s' = ses \<longrightarrow> False" if "send_loop N' s' sent' = Some r" for N' s' sent' r
    by (rule send_loop.raw_induct [where P = "\<lambda>N' s' sent' r. N' = N \<longrightarrow> s' = ses \<longrightarrow> False", OF _ that])
      (use assms in \<open>fastforce simp: Let_def split: if_splits\<close>)
  then show ?thesis by (metis not_None_eq)
qed

text \<open>The settings frame goes out before the first bytes are taken.\<close>

definition recv_preface :: "h2_config \<Rightarrow> h2_session \<Rightarrow> h2_session \<times> h2_action list" where
  "recv_preface C s = (if mFirstFrame s then (s\<lparr>mFirstFrame := False\<rparr>, [submit_settings C s]) else (s, []))"

section \<open>The file of promises\<close>

definition h2_trim :: "string \<Rightarrow> string" where
  "h2_trim s = rev (dropWhile isspace (rev (dropWhile isspace s)))"

definition strip_quotes :: "string \<Rightarrow> string" where
  "strip_quotes s =
     (if 2 \<le> length s \<and> (hd s = CHR 0x22 \<and> last s = CHR 0x22 \<or> hd s = CHR 0x27 \<and> last s = CHR 0x27)
      then substr s 1 (length s - 2) else s)"

definition push_token :: "string \<Rightarrow> string list \<Rightarrow> string list" where
  "push_token cur out = (let t = h2_trim cur in if t \<noteq> [] then out @ [strip_quotes t] else out)"

fun split_loop :: "string \<Rightarrow> string \<Rightarrow> string list \<Rightarrow> string list" where
  "split_loop [] cur out = push_token cur out"
| "split_loop (c # s) cur out = (if c = CHR '','' then split_loop s [] (push_token cur out) else split_loop s (cur @ [c]) out)"

definition split_comma_separated :: "string \<Rightarrow> string list" where
  "split_comma_separated line = split_loop line [] []"

record push_parse =
  pp_map :: "(string, string list) omap"
  currentRequest :: string
  inBlock :: bool

definition add_tokens :: "string \<Rightarrow> push_parse \<Rightarrow> push_parse" where
  "add_tokens part p = fold (\<lambda>t p. if t \<noteq> [] then
       p\<lparr>pp_map := omap_assign (pp_map p) (currentRequest p)
          ((case omap_find (pp_map p) (currentRequest p) of None \<Rightarrow> [] | Some ts \<Rightarrow> ts) @ [t])\<rparr> else p) (split_comma_separated part) p"

definition close_block :: "push_parse \<Rightarrow> push_parse" where
  "close_block p = p\<lparr>inBlock := False, currentRequest := []\<rparr>"

definition push_line :: "string \<Rightarrow> push_parse \<Rightarrow> push_parse" where
  "push_line line p =
     (let s = h2_trim line
      in if s = [] \<or> s ! 0 = CHR ''#'' then p
         else if \<not> inBlock p
         then (case str_find s (CHR ''{'') 0 of
                 None \<Rightarrow> p
               | Some posBrace \<Rightarrow>
                   (let p1 = p\<lparr>currentRequest := strip_quotes (h2_trim (substr s 0 posBrace)), inBlock := True\<rparr>;
                        after = drop (posBrace + 1) s
                    in case str_find after (CHR ''}'') 0 of
                         Some posClose \<Rightarrow> close_block (add_tokens (substr after 0 posClose) p1)
                       | None \<Rightarrow> add_tokens after p1))
         else (case str_find s (CHR ''}'') 0 of
                 Some posClose \<Rightarrow> close_block (add_tokens (substr s 0 posClose) p)
               | None \<Rightarrow> add_tokens s p))"

text \<open>None: the file is not there. A request per path, as \<open>FHttpRequestBuilder\<close> makes it.\<close>

definition parse_push_map_file :: "string option \<Rightarrow> (string, http_request list) omap" where
  "parse_push_map_file file =
     (case file of
        None \<Rightarrow> []
      | Some text' \<Rightarrow>
          map (apsnd (map (\<lambda>path. FHttpRequest_of_builder (rb_setUrl (rb_setMethod (RequestBuilder_new M_GET) M_GET) path))))
            (pp_map (fold push_line (getlines LF text') \<lparr>pp_map = [], currentRequest = [], inBlock = False\<rparr>)))"

definition getPushPromise :: "(string, http_request list) omap \<Rightarrow> string \<Rightarrow> http_request list" where
  "getPushPromise m path = (case omap_find m path of Some rs \<Rightarrow> rs | None \<Rightarrow> [])"

text \<open>A file as it is meant to be written: each page with a block of one path a line.\<close>

definition plain_path :: "string \<Rightarrow> bool" where
  "plain_path s \<longleftrightarrow> s \<noteq> [] \<and> set s \<inter> set '',{}#'' = {} \<and> CHR 0x22 \<notin> set s \<and> CHR 0x27 \<notin> set s \<and> (\<forall>c \<in> set s. \<not> isspace c)"

definition path_line :: "string \<Rightarrow> string" where
  "path_line p = ''    '' @ p @ '',''"

definition block_lines :: "string \<times> string list \<Rightarrow> string list" where
  "block_lines b = (fst b @ '' {'') # map path_line (snd b) @ [''}'']"

lemma trim_both:
  assumes "\<forall>c \<in> set a. isspace c" "\<forall>c \<in> set b. isspace c" "s \<noteq> []" "\<not> isspace (hd s)" "\<not> isspace (last s)"
  shows "h2_trim (a @ s @ b) = s"
proof -
  have "dropWhile isspace (a @ s @ b) = s @ b" using assms by (cases s) (simp_all add: dropWhile_append2)
  moreover have "dropWhile isspace (rev b @ rev s) = rev s"
    using assms dropWhile_append2 [of "rev b" isspace "rev s"] by (cases s rule: rev_cases) auto
  ultimately show ?thesis by (simp add: h2_trim_def)
qed

lemma trim_lead: "\<forall>c \<in> set a. isspace c \<Longrightarrow> s \<noteq> [] \<Longrightarrow> \<not> isspace (hd s) \<Longrightarrow> \<not> isspace (last s) \<Longrightarrow> h2_trim (a @ s) = s"
  using trim_both [of a "[]" s] by simp

lemma plain_pathD:
  "plain_path s \<Longrightarrow> s \<noteq> [] \<and> \<not> isspace (hd s) \<and> \<not> isspace (last s) \<and> hd s \<noteq> CHR ''#'' \<and> CHR '','' \<notin> set s
     \<and> CHR ''{'' \<notin> set s \<and> CHR ''}'' \<notin> set s \<and> strip_quotes s = s"
proof -
  assume p: "plain_path s"
  then have d: "hd s \<in> set s" "last s \<in> set s" by (simp_all add: plain_path_def)
  moreover have "\<forall>c \<in> set s. c \<noteq> CHR ''#'' \<and> c \<noteq> CHR 0x22 \<and> c \<noteq> CHR 0x27 \<and> \<not> isspace c"
    using p by (auto simp: plain_path_def)
  ultimately have "hd s \<noteq> CHR ''#''" "hd s \<noteq> CHR 0x22" "hd s \<noteq> CHR 0x27" "\<not> isspace (hd s)" "\<not> isspace (last s)"
    by blast+
  with p show ?thesis by (simp add: plain_path_def strip_quotes_def)
qed

lemma split_loop_plain: "CHR '','' \<notin> set s \<Longrightarrow> split_loop (s @ r) cur out = split_loop r (cur @ s) out"
  by (induction s arbitrary: cur) auto

lemma push_token_plain: "plain_path s \<Longrightarrow> push_token s out = out @ [s]"
  using plain_pathD [of s] trim_lead [of "[]" s] by (simp add: push_token_def)

lemma push_token_empty [simp]: "push_token [] out = out"
  by (simp add: push_token_def h2_trim_def)

lemma split_path_comma: "plain_path s \<Longrightarrow> split_comma_separated (s @ '','') = [s]"
  using split_loop_plain [of s "'',''" "[]" "[]"] plain_pathD [of s] by (simp add: split_comma_separated_def push_token_plain)

lemma fold_tokens: "CHR '','' \<notin> set s \<Longrightarrow> plain_path s \<Longrightarrow> inBlock p \<Longrightarrow>
    push_line (path_line s) p =
      p\<lparr>pp_map := omap_assign (pp_map p) (currentRequest p)
          ((case omap_find (pp_map p) (currentRequest p) of None \<Rightarrow> [] | Some ts \<Rightarrow> ts) @ [s])\<rparr>"
proof -
  assume a: "CHR '','' \<notin> set s" "plain_path s" "inBlock p"
  note d = plain_pathD [OF a(2)]
  have "h2_trim (path_line s) = s @ '',''" unfolding path_line_def
    using d by (intro trim_lead) (auto simp: isspace_def char_le_iff)
  moreover have "str_find (s @ '','') (CHR ''}'') 0 = None" using d by (simp add: str_find_None)
  moreover have "(s @ '','') ! 0 \<noteq> CHR ''#''" using d by (cases s) auto
  ultimately show ?thesis using a(3) d split_path_comma [OF a(2)] by (simp add: push_line_def add_tokens_def)
qed

lemma fold_block_paths:
  "\<forall>s \<in> set ps. plain_path s \<Longrightarrow> inBlock p \<Longrightarrow> ps \<noteq> [] \<Longrightarrow>
     fold push_line (map path_line ps) p =
       p\<lparr>pp_map := omap_assign (pp_map p) (currentRequest p)
          ((case omap_find (pp_map p) (currentRequest p) of None \<Rightarrow> [] | Some ts \<Rightarrow> ts) @ ps)\<rparr>"
proof (induction ps arbitrary: p)
  case (Cons s ps)
  have same: "omap_assign (omap_assign m k v) k w = omap_assign m k w" for m :: "(string, string list) omap" and k v w
    by (induction m k v rule: omap_assign.induct) auto
  have first: "push_line (path_line s) p =
      p\<lparr>pp_map := omap_assign (pp_map p) (currentRequest p)
          ((case omap_find (pp_map p) (currentRequest p) of None \<Rightarrow> [] | Some ts \<Rightarrow> ts) @ [s])\<rparr>"
    using Cons.prems plain_pathD [of s] by (intro fold_tokens) auto
  show ?case
  proof (cases "ps = []")
    case True
    then show ?thesis using first by simp
  next
    case False
    let ?q = "push_line (path_line s) p"
    have "fold push_line (map path_line ps) ?q =
       ?q\<lparr>pp_map := omap_assign (pp_map ?q) (currentRequest ?q)
          ((case omap_find (pp_map ?q) (currentRequest ?q) of None \<Rightarrow> [] | Some ts \<Rightarrow> ts) @ ps)\<rparr>"
      using Cons.prems False by (intro Cons.IH) (simp_all add: first)
    then show ?thesis unfolding list.map fold_Cons comp_def by (simp add: first find_assign same)
  qed
qed simp

lemma fold_block:
  assumes "plain_path req" "\<forall>s \<in> set ps. plain_path s" "\<not> inBlock p" "ps \<noteq> []"
  shows "fold push_line (block_lines (req, ps)) p =
    \<lparr>pp_map = omap_assign (pp_map p) req ((case omap_find (pp_map p) req of None \<Rightarrow> [] | Some ts \<Rightarrow> ts) @ ps),
     currentRequest = [], inBlock = False\<rparr>"
proof -
  note d = plain_pathD [OF assms(1)]
  have t: "h2_trim (req @ '' {'') = req @ '' {''"
    using d trim_lead [of "[]" "req @ '' {''"] by (simp add: isspace_def char_le_iff)
  have b: "str_find (req @ '' {'') (CHR ''{'') 0 = Some (length req + 1)"
    using str_find_append [of "CHR ''{''" "req @ '' ''" "[]"] d by simp
  have r: "h2_trim (req @ '' '') = req"
    using trim_both [of "[]" "'' ''" req] d by (simp add: isspace_def)
  have "(req @ '' {'') ! 0 \<noteq> CHR ''#''" using d by (cases req) auto
  then have head: "push_line (req @ '' {'') p = p\<lparr>currentRequest := req, inBlock := True\<rparr>"
    using assms(3) d t b r by (simp add: push_line_def substr_def add_tokens_def split_comma_separated_def str_find_0)
  have tail: "push_line ''}'' q = q\<lparr>currentRequest := [], inBlock := False\<rparr>" if "inBlock q" for q
  proof -
    have "h2_trim ''}'' = ''}''" using trim_lead [of "[]" "''}''"] by (simp add: isspace_def char_le_iff)
    then show ?thesis using that
      by (simp add: push_line_def str_find_0 close_block_def add_tokens_def split_comma_separated_def substr_def)
  qed
  show ?thesis
    using fold_block_paths [of ps "p\<lparr>currentRequest := req, inBlock := True\<rparr>"] assms(2,4) head
    by (simp add: block_lines_def tail)
qed

lemma fold_blocks:
  "\<forall>b \<in> set bs. plain_path (fst b) \<and> snd b \<noteq> [] \<and> (\<forall>s \<in> set (snd b). plain_path s) \<Longrightarrow> distinct (map fst bs) \<Longrightarrow>
    \<not> inBlock p \<Longrightarrow> \<forall>b \<in> set bs. omap_find (pp_map p) (fst b) = None \<Longrightarrow>
    omap_find (pp_map (fold push_line (concat (map block_lines bs)) p)) k =
      (case map_of bs k of Some ps \<Rightarrow> Some ps | None \<Rightarrow> omap_find (pp_map p) k)"
proof (induction bs arbitrary: p)
  case (Cons b bs)
  obtain req ps where b: "b = (req, ps)" by fastforce
  let ?q = "\<lparr>pp_map = omap_assign (pp_map p) req ps, currentRequest = [], inBlock = False\<rparr>"
  have q: "fold push_line (block_lines b) p = ?q"
    using Cons.prems fold_block [of req ps p] by (simp add: b)
  have "omap_find (pp_map (fold push_line (concat (map block_lines bs)) ?q)) k =
      (case map_of bs k of Some ps \<Rightarrow> Some ps | None \<Rightarrow> omap_find (pp_map ?q) k)"
    using Cons.prems by (intro Cons.IH) (auto simp: b find_assign)
  moreover have "map_of bs req = None" using Cons.prems(2) by (simp add: b map_of_eq_None_iff)
  ultimately show ?case
    by (cases "k = req") (simp_all add: b q [unfolded b] find_assign split: option.split)
qed simp

text \<open>
  The file of promises is read back as it is written: for a file of blocks, one for each page with one
  path a line, the promises of a page are requests for the paths of its block.
\<close>
theorem push_map_round_trip:
  assumes "\<forall>b \<in> set bs. plain_path (fst b) \<and> snd b \<noteq> [] \<and> (\<forall>s \<in> set (snd b). plain_path s)" "distinct (map fst bs)"
    "(page, ps) \<in> set bs" "\<forall>b \<in> set bs. LF \<notin> set (fst b) \<and> (\<forall>s \<in> set (snd b). LF \<notin> set s)"
  shows "map rq_getPath (getPushPromise (parse_push_map_file (Some (join_with LF (concat (map block_lines bs))))) page) = ps"
proof -
  let ?ls = "concat (map block_lines bs)"
  have "bs \<noteq> []" using assms(3) by auto
  then obtain bs' b where "bs = bs' @ [b]" by (cases bs rule: rev_cases) auto
  then have l: "?ls \<noteq> []" "last ?ls \<noteq> []" by (simp_all add: block_lines_def)
  have "\<forall>l \<in> set ?ls. LF \<notin> set l" using assms(4) by (auto simp: block_lines_def path_line_def)
  then have "getlines LF (join_with LF ?ls) = ?ls" using l by (intro getlines_join)
  moreover have "omap_find (pp_map (fold push_line ?ls \<lparr>pp_map = [], currentRequest = [], inBlock = False\<rparr>)) page = Some ps"
    using fold_blocks [OF assms(1,2), of "\<lparr>pp_map = [], currentRequest = [], inBlock = False\<rparr>" page] assms(2,3) by simp
  ultimately show ?thesis
    by (simp add: parse_push_map_file_def getPushPromise_def find_apsnd comp_def FHttpRequest_of_builder_def
        rb_setUrl_def new_context_def)
qed

theorem push_map_round_trip_witness:
  "map rq_getPath (getPushPromise (parse_push_map_file (Some (join_with LF (concat (map block_lines [(''/index'', [''/a.css'', ''/b.js''])]))))) ''/index'')
     = [''/a.css'', ''/b.js'']"
  by (rule push_map_round_trip) (auto simp: plain_path_def isspace_def char_le_iff)

end
