(* ===== verification/FHttpConn.thy ===== *)
theory FHttpConn
  imports FTcp FHttpServer "HOL-Library.Sublist"
begin

text \<open>
  A plain HTTP/1 connection as a whole: the handlers of \<open>FTcpConnection\<close> (\<open>FTcp\<close>) with the callbacks
  that \<open>FHttpServer\<close> registers (\<open>FHttpServer\<close>), as the loop's thread runs them one after the other. What
  the HTTP layer asks of its connection is performed on it at once; the write-complete callback is a
  task of the loop, so a count of posted tasks is part of the state.
  The connection's user data carries, besides the HTTP data, the router: it is one object for all
  connections, and here it is handed from callback to callback.
\<close>

section \<open>The callbacks of the server on a connection\<close>

type_synonym 'r web_conn = "(conn_data option \<times> 'r) tcp_conn"

text \<open>What a callback finds: the clocks (the route cache's, and the seconds since the epoch), the answer
  of the kernel to \<open>send\<close>, and the indeterminate fields of a newly built parser.\<close>

record moment =
  at_tick :: u64
  at_second :: int
  krnl_send :: "string \<Rightarrow> send_result"
  new_parser :: http_parser

text \<open>An accepted connection, with the callbacks that the HTTP server has registered for it
  (\<open>FTcpServer::onNewConnIn\<close>).\<close>

definition accepted_conn :: "epoll_listener \<Rightarrow> nat \<Rightarrow> u64 \<Rightarrow> bool \<Rightarrow> int \<Rightarrow> 'r \<Rightarrow> 'r web_conn" where
  "accepted_conn l fd i ssl idleTime r = (makeConn l fd i ssl (None, r))
     \<lparr>m_onMessage := True, m_onWriteComplete := True, m_onIdleCallback := True, mIdleTime := idleTime\<rparr>"

text \<open>\<open>handleTcpConnEstablish\<close> and \<open>handleTcpConnClosed\<close>; the latter runs at the end of \<open>handleClose\<close>.\<close>

definition handleTcpConnEstablish :: "'r web_conn \<Rightarrow> 'r web_conn" where
  "handleTcpConnEstablish c = setReading c True"

definition handleTcpConnClosed :: "'r web_conn \<Rightarrow> 'r web_conn" where
  "handleTcpConnClosed c =
     c\<lparr>m_userData := (DestroyDataFromTcpConn (fst (m_userData c)), snd (m_userData c))\<rparr>"

definition run_close_callback :: "'r web_conn \<times> tcp_action list \<Rightarrow> 'r web_conn \<times> tcp_action list" where
  "run_close_callback res =
     (if TA_CloseCallback \<in> set (snd res) then (handleTcpConnClosed (fst res), snd res) else res)"

text \<open>Calls on the connection; a plain connection has no HTTP/2 context to send with.\<close>

fun perform :: "moment \<Rightarrow> 'r web_conn \<Rightarrow> conn_action \<Rightarrow> 'r web_conn \<times> tcp_action list" where
  "perform m c (Send s) = run_close_callback (sendInLoop False (\<lambda>_. None) (krnl_send m) c s)"
| "perform m c ForceClose = run_close_callback (forceCloseInLoop c)"
| "perform m c _ = (c, [])"

fun perform_all :: "moment \<Rightarrow> 'r web_conn \<Rightarrow> conn_action list \<Rightarrow> 'r web_conn \<times> tcp_action list" where
  "perform_all m c [] = (c, [])"
| "perform_all m c (a # as) =
     (let (c1, out1) = perform m c a; (c2, out2) = perform_all m c1 as in (c2, out1 @ out2))"

definition conn_data_of :: "moment \<Rightarrow> 'r web_conn \<Rightarrow> conn_data" where
  "conn_data_of m c = getDataFromTcpConn (fst (m_userData c)) (at_second m) False (new_parser m)"

definition set_conn_data :: "'r web_conn \<Rightarrow> conn_data \<Rightarrow> 'r \<Rightarrow> 'r web_conn" where
  "set_conn_data c d r = c\<lparr>m_userData := (Some d, r)\<rparr>"

text \<open>The exceptions of \<open>http1Process\<close> by their class.\<close>

fun thrown :: "process_error \<Rightarrow> callback_exn" where
  "thrown (Controller_threw (Threw_FException _)) = Cb_FException"
| "thrown _ = Cb_std"

definition handleTcpIn :: "('cm, 'rc, 'oq, 'f) router_libs \<Rightarrow> 'f http_server \<Rightarrow> moment \<Rightarrow>
    ('cm, 'rc, 'oq) router web_conn \<Rightarrow> fbuffer \<Rightarrow>
    callback_exn option \<times> ('cm, 'rc, 'oq) router web_conn \<times> fbuffer \<times> tcp_action list" where
  "handleTcpIn L S m c reader =
     (let (err, acts, r, d, b) =
            http1Process L S (at_tick m) (new_parser m) (snd (m_userData c)) (conn_data_of m c) reader;
          (c', out) = perform_all m (set_conn_data c d r) acts
      in (map_option thrown err, c', b, out))"

definition on_write_complete :: "moment \<Rightarrow> 'r web_conn \<Rightarrow> 'r web_conn \<times> tcp_action list" where
  "on_write_complete m c =
     (let d = conn_data_of m c
      in perform_all m (set_conn_data c d (snd (m_userData c))) (handleTcpWriteComplete d))"

definition on_idle :: "'f http_server \<Rightarrow> moment \<Rightarrow> 'r web_conn \<Rightarrow> 'r web_conn \<times> tcp_action list" where
  "on_idle S m c =
     (let d = conn_data_of m c
      in perform_all m (set_conn_data c d (snd (m_userData c))) (handleTcpIdle S (at_second m) False d))"

section \<open>Callbacks of the loop\<close>

text \<open>The socket is readable (with what \<open>readv\<close> answers), writable (with how much \<open>send\<close> takes); a posted
  write-complete task runs; the idle timer runs.\<close>

datatype conn_event =
  Readable "string option" bool
| Writable "nat option"
| Posted
| Idle_timer u64

fun run_event :: "('cm, 'rc, 'oq, 'f) router_libs \<Rightarrow> 'f http_server \<Rightarrow> moment \<Rightarrow>
    ('cm, 'rc, 'oq) router web_conn \<Rightarrow> conn_event \<Rightarrow>
    bool \<times> ('cm, 'rc, 'oq) router web_conn \<times> tcp_action list" where
  "run_event L S m c (Readable delivered transient) =
     (let (threw, c1, acts) = handleRead (\<lambda>_. None) (handleTcpIn L S m) c delivered transient
      in (threw \<noteq> None, run_close_callback (c1, acts)))"
| "run_event L S m c (Writable accepted) = (False, run_close_callback (handleWrite c accepted))"
| "run_event L S m c Posted = (False, on_write_complete m c)"
| "run_event L S m c (Idle_timer newTimer) =
     (let (c1, acts) = handleOnIdle c newTimer
      in if TA_IdleCallback \<in> set acts
         then (let (c2, more) = on_idle S m c1 in (False, c2, acts @ more))
         else (False, c1, acts))"

declare run_event.simps [simp del]

definition posted_tasks :: "tcp_action list \<Rightarrow> nat" where
  "posted_tasks acts = length (filter (\<lambda>a. a = TA_PostWriteComplete) acts)"

text \<open>A run of the connection: \<open>n\<close> write-complete tasks are posted; an exception ends the run.\<close>

fun run_conn :: "('cm, 'rc, 'oq, 'f) router_libs \<Rightarrow> 'f http_server \<Rightarrow> nat \<Rightarrow>
    ('cm, 'rc, 'oq) router web_conn \<Rightarrow> (moment \<times> conn_event) list \<Rightarrow>
    bool \<times> nat \<times> ('cm, 'rc, 'oq) router web_conn \<times> tcp_action list" where
  "run_conn L S n c [] = (False, n, c, [])"
| "run_conn L S n c ((m, e) # es) =
     (if e = Posted \<and> n = 0 then run_conn L S n c es
      else (let (threw, c1, acts) = run_event L S m c e;
                n1 = (if e = Posted then n - 1 else n) + posted_tasks acts
            in if threw then (True, n1, c1, acts)
               else (let (threw2, n2, c2, more) = run_conn L S n1 c1 es
                     in (threw2, n2, c2, acts @ more))))"

section \<open>Open connections\<close>

definition plain_open :: "'r web_conn \<Rightarrow> bool" where
  "plain_open c \<longleftrightarrow> mstate c \<noteq> DisConnected \<and> \<not> isSSLConnection c \<and> m_onMessage c
     \<and> fb_wf (inBuffer c)"

definition nothing_queued :: "'r web_conn \<Rightarrow> bool" where
  "nothing_queued c \<longleftrightarrow> \<not> isWriting (c_event c) \<and> fb_wf (outBuffer c) \<and> readable (outBuffer c) = []"

text \<open>A connection between two requests: all input is parsed, all output is sent.\<close>

definition idle_conn :: "'r web_conn \<Rightarrow> bool" where
  "idle_conn c \<longleftrightarrow> plain_open c \<and> nothing_queued c \<and> readable (inBuffer c) = []
     \<and> (case fst (m_userData c) of None \<Rightarrow> True | Some d \<Rightarrow> shouldKeepAlive d \<and> fresh (cd_parser d))"

text \<open>A connection starts idle, and reads once it is established.\<close>

lemma accepted_is_idle:
  "idle_conn (handleTcpConnEstablish (accepted_conn l fd i False t r))
   \<and> isReading (c_event (handleTcpConnEstablish (accepted_conn l fd i False t r)))
   \<and> m_userData (handleTcpConnEstablish (accepted_conn l fd i False t r)) = (None, r)
   \<and> m_onWriteComplete (handleTcpConnEstablish (accepted_conn l fd i False t r))
   \<and> m_onIdleCallback (handleTcpConnEstablish (accepted_conn l fd i False t r))
   \<and> m_buffer (inBuffer (handleTcpConnEstablish (accepted_conn l fd i False t r))) = replicate 1024 NUL
   \<and> m_buffer (outBuffer (handleTcpConnEstablish (accepted_conn l fd i False t r))) = replicate 1024 NUL"
proof -
  let ?e = "(FEvent_new fd i)\<lparr>mAddedToLoop := True\<rparr>"
  have new: "accepted_conn l fd i False t r = (FTcpConnection_new (addEvent l (FEvent_new fd i)) fd i False (None, r))
      \<lparr>c_event := ?e, m_onMessage := True, m_onWriteComplete := True, m_onIdleCallback := True, mIdleTime := t\<rparr>"
    by (simp add: accepted_conn_def makeConn_def on_event_def FTcpConnection_new_def ev_init_def FEvent_new_def)
  have read: "isReading (snd (enableReading l' ?e))" "\<not> isWriting (snd (enableReading l' ?e))" for l'
    by (simp_all add: enableReading_def ev_update_def isReading_def isWriting_def FEvent_new_def ReadEvent_def WriteEvent_def flag_def)
  obtain l1 e1 where e1: "enableReading (addEvent l (FEvent_new fd i)) ?e = (l1, e1)" by fastforce
  have "isReading e1" "\<not> isWriting e1" using read [of "addEvent l (FEvent_new fd i)"] by (simp_all add: e1)
  moreover have "\<not> isReading ?e" by (simp add: isReading_def FEvent_new_def)
  ultimately show ?thesis
    using new_wf [of 1024]
    by (auto simp: handleTcpConnEstablish_def setReading_def new on_event_def e1 FTcpConnection_new_def idle_conn_def plain_open_def
        nothing_queued_def FBuffer_new_def)
qed

text \<open>A connection that has read the part \<open>t\<close> of a request.\<close>

definition midway :: "string \<Rightarrow> 'r web_conn \<Rightarrow> bool" where
  "midway t c \<longleftrightarrow> plain_open c \<and> nothing_queued c \<and> readable (inBuffer c) = []
     \<and> (case fst (m_userData c) of
          None \<Rightarrow> t = []
        | Some d \<Rightarrow> shouldKeepAlive d
            \<and> (\<exists>p0. fresh p0 \<and> resumes (cd_parser d) p0 t \<and> (t = [] \<longrightarrow> cd_parser d = p0)))"

definition error_page_free :: "('cm, 'rc, 'oq, 'f) router_libs \<Rightarrow> ('cm, 'rc, 'oq) router web_conn \<Rightarrow> bool" where
  "error_page_free L c \<longleftrightarrow> no_error_page L (snd (m_userData c))"

definition accepts_all :: "moment \<Rightarrow> bool" where
  "accepts_all m \<longleftrightarrow> (\<forall>s. krnl_send m s = Accepted (length s)) \<and> fresh (new_parser m)"

lemma midway_idle: "midway [] c \<longleftrightarrow> idle_conn c"
  by (auto simp: midway_def idle_conn_def split: option.splits)

lemma conn_data_midway:
  assumes "midway t c" "fresh (new_parser m)"
  shows "shouldKeepAlive (conn_data_of m c)
    \<and> (\<exists>p0. fresh p0 \<and> resumes (cd_parser (conn_data_of m c)) p0 t
            \<and> (t = [] \<longrightarrow> cd_parser (conn_data_of m c) = p0))"
  using assms by (auto simp: midway_def conn_data_of_def getDataFromTcpConn_def Let_def split: option.splits)

lemma set_conn_data_frame [simp]:
  "mstate (set_conn_data c d r) = mstate c" "c_event (set_conn_data c d r) = c_event c"
  "inBuffer (set_conn_data c d r) = inBuffer c" "outBuffer (set_conn_data c d r) = outBuffer c"
  "isSSLConnection (set_conn_data c d r) = isSSLConnection c" "m_onMessage (set_conn_data c d r) = m_onMessage c"
  "m_onWriteComplete (set_conn_data c d r) = m_onWriteComplete c" "m_userData (set_conn_data c d r) = (Some d, r)"
  by (simp_all add: set_conn_data_def)

lemma send_direct:
  assumes "nothing_queued c" "plain_open c" "krnl_send m s = Accepted (length s)"
  shows "perform m c (Send s) = (c, TA_Sent s # (if m_onWriteComplete c then [TA_PostWriteComplete] else []))"
proof -
  have "getReadableSize (outBuffer c) = 0"
    using assms readable_size [of "outBuffer c"] by (simp add: nothing_queued_def plain_open_def)
  then show ?thesis
    using assms by (simp add: sendInLoop_def nothing_queued_def plain_open_def run_close_callback_def Let_def)
qed

lemma read_event:
  assumes "plain_open c" "fb_room (inBuffer c) (length p)" "p \<noteq> []"
  obtains b where "fb_wf b" "readable b = readable (inBuffer c) @ p" "length (m_buffer b) \<le> length (m_buffer (inBuffer c)) + length p"
    "run_event L S m c (Readable (Some p) tr) =
       (case handleTcpIn L S m (c\<lparr>inBuffer := b, mstate := Connected\<rparr>) b of
          (threw, c2, b', acts) \<Rightarrow> (threw \<noteq> None, run_close_callback (c2\<lparr>inBuffer := b'\<rparr>, acts)))"
proof -
  have wf: "fb_wf (inBuffer c)" using assms by (simp add: plain_open_def)
  define b where "b = snd (fb_Read (inBuffer c) (Some p))"
  have len: "fb_Read (inBuffer c) (Some p) = (int (length p), b)"
    using Read_correct [OF wf assms(2)] by (simp add: b_def prod_eq_iff)
  have "run_event L S m c (Readable (Some p) tr) =
       (case handleTcpIn L S m (c\<lparr>inBuffer := b, mstate := Connected\<rparr>) b of
          (threw, c2, b', acts) \<Rightarrow> (threw \<noteq> None, run_close_callback (c2\<lparr>inBuffer := b'\<rparr>, acts)))"
    using assms by (simp add: run_event.simps handleRead_def len Let_def plain_open_def call_onMessage_def split: prod.split)
  from that [OF _ _ _ this] show thesis
    using Read_correct [OF wf assms(2)] Read_room [OF wf assms(2)] by (simp add: b_def)
qed

lemma part_arrives:
  assumes "midway t c" "builder_ok rb" "strict_prefix (t @ p) (rb_build rb)" "p \<noteq> []"
    "fb_room (inBuffer c) (length p)" "fresh (new_parser m)"
  shows "\<exists>c'. run_event L S m c (Readable (Some p) tr) = (False, c', []) \<and> midway (t @ p) c'
    \<and> snd (m_userData c') = snd (m_userData c)
    \<and> length (m_buffer (inBuffer c')) \<le> length (m_buffer (inBuffer c)) + length p"
proof -
  have c: "plain_open c" "nothing_queued c" "readable (inBuffer c) = []" using assms(1) by (simp_all add: midway_def)
  obtain b where b: "fb_wf b" "readable b = p" "length (m_buffer b) \<le> length (m_buffer (inBuffer c)) + length p"
    and ev: "run_event L S m c (Readable (Some p) tr) =
       (case handleTcpIn L S m (c\<lparr>inBuffer := b, mstate := Connected\<rparr>) b of
          (threw, c2, b', acts) \<Rightarrow> (threw \<noteq> None, run_close_callback (c2\<lparr>inBuffer := b'\<rparr>, acts)))"
    using read_event [OF c(1) assms(5,4), of L S m tr] c(3) by auto
  let ?c1 = "c\<lparr>inBuffer := b, mstate := Connected\<rparr>"
  obtain p0 where d: "shouldKeepAlive (conn_data_of m c)" "fresh p0" "resumes (cd_parser (conn_data_of m c)) p0 t"
    using conn_data_midway [OF assms(1,6)] by blast
  have same: "conn_data_of m ?c1 = conn_data_of m c" by (simp add: conn_data_of_def)
  obtain u where u: "t @ p @ u = rb_build rb" "u \<noteq> []" using assms(3) by (auto elim: strict_prefixE')
  obtain p' where p': "parse_chars (cd_parser (conn_data_of m c)) p = (Inr False, p', [])" "resumes p' p0 (t @ p)" "\<not> finished p'"
    using built_prefix_waits [OF d(2) assms(2) u d(3)] by blast
  then obtain b' where b': "http_parse (cd_parser (conn_data_of m c)) b = (Inr False, p', b')" "readable b' = []"
      "fb_wf b'" "m_buffer b' = m_buffer b"
    using parse_refines [OF b(1)] b(2) by metis
  let ?c' = "(set_conn_data ?c1 ((conn_data_of m c)\<lparr>cd_parser := p'\<rparr>) (snd (m_userData c)))\<lparr>inBuffer := b'\<rparr>"
  have "handleTcpIn L S m ?c1 b = (None, set_conn_data ?c1 ((conn_data_of m c)\<lparr>cd_parser := p'\<rparr>) (snd (m_userData c)), b', [])"
    using b' p'(3) by (simp add: handleTcpIn_def same http1Process_def finished_def)
  then have "run_event L S m c (Readable (Some p) tr) = (False, ?c', [])"
    by (simp add: ev run_close_callback_def)
  moreover have "midway (t @ p) ?c'"
    using c d(1,2) p'(2) b'(2,3) assms(4) by (auto simp: midway_def plain_open_def nothing_queued_def)
  ultimately show ?thesis using b(3) b'(4) by auto
qed

text \<open>The last part of a request: the answer goes out, and the connection is idle if it is kept.\<close>

lemma request_completes:
  assumes "midway t c" "builder_ok rb" "t @ p = rb_build rb" "p \<noteq> []"
    "fb_room (inBuffer c) (length p)" "fresh (new_parser m)" "libs_ok L" "error_page_free L c"
  shows "\<exists>c1 resp d r b'. answers_request L S rb resp
    \<and> run_event L S m c (Readable (Some p) tr) =
        (let (c2, acts) = perform m (set_conn_data c1 d r) (Send (rs_toString resp))
         in (False, run_close_callback (c2\<lparr>inBuffer := b'\<rparr>, acts)))
    \<and> c1 = c\<lparr>inBuffer := inBuffer c1, mstate := Connected\<rparr>
    \<and> fb_wf (inBuffer c1) \<and> fb_wf b' \<and> readable b' = [] \<and> length (m_buffer b') \<le> length (m_buffer (inBuffer c)) + length p
    \<and> (shouldKeepAlive d \<longleftrightarrow> keeps_alive rb) \<and> hasSurvivedTime d = hasSurvivedTime (conn_data_of m c)
    \<and> (if shouldKeepAlive d then fresh (cd_parser d) else spent (cd_parser d)) \<and> no_error_page L r"
proof -
  have c: "plain_open c" "nothing_queued c" "readable (inBuffer c) = []" using assms(1) by (simp_all add: midway_def)
  obtain b where b: "fb_wf b" "readable b = p" "length (m_buffer b) \<le> length (m_buffer (inBuffer c)) + length p"
    and ev: "run_event L S m c (Readable (Some p) tr) =
       (case handleTcpIn L S m (c\<lparr>inBuffer := b, mstate := Connected\<rparr>) b of
          (threw, c2, b', acts) \<Rightarrow> (threw \<noteq> None, run_close_callback (c2\<lparr>inBuffer := b'\<rparr>, acts)))"
    using read_event [OF c(1) assms(5,4), of L S m tr] c(3) by auto
  let ?c1 = "c\<lparr>inBuffer := b, mstate := Connected\<rparr>" and ?d = "conn_data_of m c"
  obtain p0 where d: "fresh p0" "resumes (cd_parser ?d) p0 t"
    using conn_data_midway [OF assms(1,6)] by blast
  have same: "conn_data_of m ?c1 = ?d" by (simp add: conn_data_of_def)
  obtain err acts r d' b' where h: "http1Process L S (at_tick m) (new_parser m) (snd (m_userData c)) ?d b = (err, acts, r, d', b')"
    by (metis prod_cases5)
  have "t @ readable b = rb_build rb @ []" using assms(3) b(2) by simp
  from http1_resumed [OF d b(1) assms(2) this _ h]
  obtain d0 q ans d1 where k0: "readable b' = []" "fb_wf b'" "m_buffer b' = m_buffer b" "shouldKeepAlive d' \<longleftrightarrow> keeps_alive rb"
      "hasSurvivedTime d' = hasSurvivedTime ?d"
    and h1: "httpHandle L S (at_tick m) (snd (m_userData c)) d0 False q = (ans, r, d1)"
    and a: "case ans of
        Inr resp \<Rightarrow> err = None \<and> acts = [Send (rs_toString resp)] \<and> answers_request L S rb resp
          \<and> (if shouldKeepAlive d' then cd_parser d' = new_parser m else spent (cd_parser d'))
      | Inl e \<Rightarrow> err = Some (Controller_threw e) \<and> acts = []"
    by auto
  have r: "(\<exists>resp. ans = Inr resp) \<and> no_error_page L r"
    using handler_answers [OF assms(7) _ h1] assms(8) by (simp add: error_page_free_def)
  with a obtain resp where k: "err = None" "acts = [Send (rs_toString resp)]" "answers_request L S rb resp"
      "if shouldKeepAlive d' then cd_parser d' = new_parser m else spent (cd_parser d')"
    by auto
  have "run_event L S m c (Readable (Some p) tr) =
        (let (c2, acts) = perform m (set_conn_data ?c1 d' r) (Send (rs_toString resp))
         in (False, run_close_callback (c2\<lparr>inBuffer := b'\<rparr>, acts)))"
    using h k(1,2) by (simp add: ev handleTcpIn_def same del: perform.simps split: prod.split)
  then show ?thesis
    using k k0 r b assms(6) by (intro exI [of _ ?c1] exI [of _ resp] exI [of _ d'] exI [of _ r] exI [of _ b']) simp
qed

lemma answer_is_sent:
  assumes "midway t c" "builder_ok rb" "t @ p = rb_build rb" "p \<noteq> []"
    "fb_room (inBuffer c) (length p)" "accepts_all m" "libs_ok L" "error_page_free L c"
  shows "\<exists>c' resp d r. answers_request L S rb resp
    \<and> run_event L S m c (Readable (Some p) tr) =
        (False, c', TA_Sent (rs_toString resp) # (if m_onWriteComplete c then [TA_PostWriteComplete] else []))
    \<and> plain_open c' \<and> nothing_queued c' \<and> readable (inBuffer c') = [] \<and> m_onWriteComplete c' = m_onWriteComplete c
    \<and> length (m_buffer (inBuffer c')) \<le> length (m_buffer (inBuffer c)) + length p \<and> m_userData c' = (Some d, r)
    \<and> (shouldKeepAlive d \<longleftrightarrow> keeps_alive rb) \<and> (shouldKeepAlive d \<longrightarrow> fresh (cd_parser d)) \<and> error_page_free L c'
    \<and> hasSurvivedTime d = hasSurvivedTime (conn_data_of m c) \<and> m_onIdleCallback c' = m_onIdleCallback c"
proof -
  have c: "plain_open c" "nothing_queued c" using assms(1) by (simp_all add: midway_def)
  have fp: "fresh (new_parser m)" and acc: "krnl_send m s = Accepted (length s)" for s
    using assms(6) by (simp_all add: accepts_all_def)
  from request_completes [OF assms(1-5) fp assms(7,8), of S tr]
  obtain c1 resp d r b' where k: "answers_request L S rb resp"
    "run_event L S m c (Readable (Some p) tr) =
        (let (c2, acts) = perform m (set_conn_data c1 d r) (Send (rs_toString resp))
         in (False, run_close_callback (c2\<lparr>inBuffer := b'\<rparr>, acts)))"
    "c1 = c\<lparr>inBuffer := inBuffer c1, mstate := Connected\<rparr>" "fb_wf (inBuffer c1)" "fb_wf b'" "readable b' = []"
    "length (m_buffer b') \<le> length (m_buffer (inBuffer c)) + length p" "shouldKeepAlive d \<longleftrightarrow> keeps_alive rb"
    "if shouldKeepAlive d then fresh (cd_parser d) else spent (cd_parser d)" "no_error_page L r"
    "hasSurvivedTime d = hasSurvivedTime (conn_data_of m c)"
    by blast
  obtain b1 where b1: "c1 = c\<lparr>inBuffer := b1, mstate := Connected\<rparr>" using k(3) by blast
  let ?c2 = "set_conn_data c1 d r"
  have "nothing_queued ?c2" "plain_open ?c2"
    using c k(4) by (simp_all add: b1 nothing_queued_def plain_open_def)
  from send_direct [OF this acc] k(2)
  have ev: "run_event L S m c (Readable (Some p) tr) =
      (False, ?c2\<lparr>inBuffer := b'\<rparr>, TA_Sent (rs_toString resp) # (if m_onWriteComplete c then [TA_PostWriteComplete] else []))"
    by (simp add: run_close_callback_def b1)
  show ?thesis
    using k ev c
    by (intro exI [of _ "?c2\<lparr>inBuffer := b'\<rparr>"] exI [of _ resp] exI [of _ d] exI [of _ r])
      (simp add: b1 nothing_queued_def plain_open_def error_page_free_def set_conn_data_def split: if_splits)
qed

lemma write_complete_keeps:
  assumes "midway t c" "fresh (new_parser m)"
  shows "\<exists>c'. run_event L S m c Posted = (False, c', []) \<and> midway t c' \<and> inBuffer c' = inBuffer c
    \<and> m_onWriteComplete c' = m_onWriteComplete c \<and> snd (m_userData c') = snd (m_userData c)"
  using conn_data_midway [OF assms] assms(1)
  by (auto simp: run_event.simps on_write_complete_def handleTcpWriteComplete_def Let_def midway_def plain_open_def nothing_queued_def)

section \<open>Conversations\<close>

text \<open>The portions in which the texts of the requests arrive, cut anywhere, but no portion with bytes of
  two requests; \<open>t\<close> has arrived of the first.\<close>

fun cuts :: "string \<Rightarrow> request_builder list \<Rightarrow> string list \<Rightarrow> bool" where
  "cuts t [] ps \<longleftrightarrow> t = [] \<and> ps = []"
| "cuts t (rb # rbs) [] \<longleftrightarrow> False"
| "cuts t (rb # rbs) (p # ps) \<longleftrightarrow> p \<noteq> []
     \<and> (if t @ p = rb_build rb then cuts [] rbs ps
        else strict_prefix (t @ p) (rb_build rb) \<and> cuts (t @ p) (rb # rbs) ps)"

fun arrivals :: "(moment \<times> conn_event) list \<Rightarrow> string list" where
  "arrivals [] = []"
| "arrivals ((m, Readable (Some p) tr) # es) = p # arrivals es"
| "arrivals (_ # es) = arrivals es"

definition reads_and_tasks :: "(moment \<times> conn_event) list \<Rightarrow> bool" where
  "reads_and_tasks es \<longleftrightarrow> (\<forall>(m, e) \<in> set es. accepts_all m \<and> (e = Posted \<or> (\<exists>p tr. e = Readable (Some p) tr)))"

lemma conversation_step:
  assumes "libs_ok L" "error_page_free L c" "midway t c" "reads_and_tasks [(m, e)]"
    "cuts t rbs (arrivals ((m, e) # es))" "\<forall>rb \<in> set rbs. builder_ok rb \<and> keeps_alive rb"
    "fb_room (inBuffer c) (length (concat (arrivals ((m, e) # es))))"
  shows "\<exists>c1 acts answered rest resps t1. run_event L S m c e = (False, c1, acts)
    \<and> sent_bytes acts = concat (map rs_toString resps) \<and> rbs = answered @ rest
    \<and> list_all2 (answers_request L S) answered resps \<and> midway t1 c1 \<and> error_page_free L c1
    \<and> cuts t1 rest (arrivals es) \<and> fb_room (inBuffer c1) (length (concat (arrivals es)))"
proof -
  have m: "accepts_all m" "fresh (new_parser m)" using assms(4) by (simp_all add: reads_and_tasks_def accepts_all_def)
  from assms(4) consider "e = Posted" | p tr where "e = Readable (Some p) tr" by (auto simp: reads_and_tasks_def)
  then show ?thesis
  proof cases
    case 1
    then show ?thesis
      using write_complete_keeps [OF assms(3) m(2), of L S] assms(2,5,7)
      by (intro exI [of _ "fst (snd (run_event L S m c e))"] exI [of _ "[]"] exI [of _ rbs] exI [of _ t])
        (auto simp: error_page_free_def sent_bytes_def)
  next
    case (2 p tr)
    then obtain rb rs where rbs: "rbs = rb # rs" "p \<noteq> []" "builder_ok rb" "keeps_alive rb"
      using assms(5,6) by (cases rbs) auto
    have room: "fb_room (inBuffer c) (length p)" using assms(7) by (simp add: 2 fb_room_def)
    show ?thesis
    proof (cases "t @ p = rb_build rb")
      case True
      obtain c1 resp acts where c1: "answers_request L S rb resp" "run_event L S m c (Readable (Some p) tr) = (False, c1, acts)"
          "sent_bytes acts = rs_toString resp" "midway [] c1" "length (m_buffer (inBuffer c1)) \<le> length (m_buffer (inBuffer c)) + length p"
          "error_page_free L c1"
        using answer_is_sent [OF assms(3) rbs(3) True rbs(2) room m(1) assms(1,2), of S tr] rbs(4)
        by (fastforce simp: midway_idle idle_conn_def sent_bytes_def)
      then show ?thesis
        using assms(5,7) True rbs
        by (intro exI [of _ c1] exI [of _ acts] exI [of _ "[rb]"] exI [of _ rs] exI [of _ "[resp]"] exI [of _ "[]"])
          (simp add: 2 fb_room_def)
    next
      case False
      then have part: "strict_prefix (t @ p) (rb_build rb)" "cuts (t @ p) rbs (arrivals es)"
        using assms(5) by (simp_all add: 2 rbs)
      from part_arrives [OF assms(3) rbs(3) part(1) rbs(2) room m(2), of L S tr]
      obtain c1 where "run_event L S m c (Readable (Some p) tr) = (False, c1, [])" "midway (t @ p) c1"
          "length (m_buffer (inBuffer c1)) \<le> length (m_buffer (inBuffer c)) + length p" "snd (m_userData c1) = snd (m_userData c)"
        by blast
      then show ?thesis
        using part(2) assms(2,7)
        by (intro exI [of _ c1] exI [of _ "[]"] exI [of _ rbs] exI [of _ "t @ p"])
          (simp add: 2 fb_room_def sent_bytes_def error_page_free_def)
    qed
  qed
qed

lemma conversation_from:
  assumes "libs_ok L" "error_page_free L c" "midway t c" "reads_and_tasks es" "cuts t rbs (arrivals es)"
    "\<forall>rb \<in> set rbs. builder_ok rb \<and> keeps_alive rb" "fb_room (inBuffer c) (length (concat (arrivals es)))"
  shows "\<exists>n' c' acts resps. run_conn L S n c es = (False, n', c', acts)
    \<and> sent_bytes acts = concat (map rs_toString resps) \<and> list_all2 (answers_request L S) rbs resps
    \<and> idle_conn c' \<and> error_page_free L c'"
  using assms(2-7)
proof (induction es arbitrary: t c rbs n)
  case Nil
  then have "rbs = []" "t = []" by (cases rbs; simp)+
  with Nil.prems(1,2) show ?case by (auto simp: sent_bytes_def midway_idle)
next
  case (Cons me es)
  obtain m e where me: "me = (m, e)" by fastforce
  have rt: "reads_and_tasks [(m, e)]" "reads_and_tasks es" using Cons.prems(3) by (simp_all add: reads_and_tasks_def me)
  show ?case
  proof (cases "e = Posted \<and> n = 0")
    case True
    then show ?thesis using Cons.IH [OF Cons.prems(1,2) rt(2) _ Cons.prems(5), of n] Cons.prems(4,6) by (simp add: me)
  next
    case False
    obtain c1 acts answered rest resps t1 where s: "run_event L S m c e = (False, c1, acts)"
        "sent_bytes acts = concat (map rs_toString resps)" "rbs = answered @ rest" "list_all2 (answers_request L S) answered resps"
        "midway t1 c1" "error_page_free L c1" "cuts t1 rest (arrivals es)" "fb_room (inBuffer c1) (length (concat (arrivals es)))"
      using conversation_step [OF assms(1) Cons.prems(1,2) rt(1) Cons.prems(4,5,6) [unfolded me]] by blast
    obtain n' c' more resps2 where
      "run_conn L S ((if e = Posted then n - 1 else n) + posted_tasks acts) c1 es = (False, n', c', more)"
      "sent_bytes more = concat (map rs_toString resps2)" "list_all2 (answers_request L S) rest resps2"
      "idle_conn c'" "error_page_free L c'"
      using Cons.IH [OF s(6,5) rt(2) s(7) _ s(8), of "(if e = Posted then n - 1 else n) + posted_tasks acts"]
        Cons.prems(5) s(3) by auto
    with s False show ?thesis
      by (intro exI [of _ n'] exI [of _ c'] exI [of _ "acts @ more"] exI [of _ "resps @ resps2"])
        (auto simp: me sent_bytes_def list_all2_appendI)
  qed
qed

text \<open>
  C3. A conversation: on an idle plain HTTP/1 connection the texts of any number of keep-alive requests
  arrive, as \<open>FHttpRequestBuilder\<close> writes them (HTTP/1.1 with a Content-Length), each cut into portions
  anywhere but no portion with bytes of two requests; the write-complete tasks run whenever they run, the
  kernel takes every answer whole, and the application has no error-page route. Then the bytes on the wire are exactly one finished response per request,
  in the order of the requests, each of them what the handler answers to that request; no exception leaves
  the handler and the connection is idle again. (Without these conditions it is not so: the byte behind a
  request is lost when it comes with it, and an answer the kernel takes in parts arrives with a gap.)
\<close>
theorem conversation:
  assumes "libs_ok L" "error_page_free L c" "idle_conn c" "reads_and_tasks es" "cuts [] rbs (arrivals es)"
    "\<forall>rb \<in> set rbs. builder_ok rb \<and> keeps_alive rb" "fb_room (inBuffer c) (length (concat (arrivals es)))"
  shows "\<exists>n' c' acts resps. run_conn L S n c es = (False, n', c', acts)
    \<and> sent_bytes acts = concat (map rs_toString resps) \<and> list_all2 (answers_request L S) rbs resps
    \<and> idle_conn c' \<and> error_page_free L c'"
  using conversation_from [OF assms(1,2) assms(3) [folded midway_idle] assms(4-7)] by blast

section \<open>What holds in every run\<close>

lemma run_conn_invariant:
  assumes step: "\<And>c m e c' acts. P c \<Longrightarrow> Q m e \<Longrightarrow> run_event L S m c e = (False, c', acts) \<Longrightarrow> P c' \<and> R acts"
    and "R []" "\<And>x y. R x \<Longrightarrow> R y \<Longrightarrow> R (x @ y)"
    and "P c" "\<forall>(m, e) \<in> set es. Q m e" "run_conn L S n c es = (False, n', c', acts)"
  shows "P c' \<and> R acts"
  using assms(4-6)
proof (induction es arbitrary: n c acts)
  case Nil
  then show ?case using assms(2) by simp
next
  case (Cons me es)
  obtain m e where me: "me = (m, e)" by fastforce
  show ?case
  proof (cases "e = Posted \<and> n = 0")
    case True
    then show ?thesis using Cons by (simp add: me)
  next
    case False
    obtain threw c1 acts1 where ev: "run_event L S m c e = (threw, c1, acts1)" by (metis prod_cases3)
    with False Cons.prems(3) obtain more where more: "\<not> threw" "acts = acts1 @ more"
      "run_conn L S ((if e = Posted then n - 1 else n) + posted_tasks acts1) c1 es = (False, n', c', more)"
      by (auto simp: me Let_def split: prod.splits if_splits)
    from more(1) have "P c1 \<and> R acts1" using step [OF Cons.prems(1), of m e c1 acts1] Cons.prems(2) ev by (simp add: me)
    moreover from this have "P c' \<and> R more" using Cons.IH [OF _ _ more(3)] Cons.prems(2) by (simp add: me)
    ultimately show ?thesis using assms(3) more(2) by simp
  qed
qed

lemma sendInLoop_frame:
  "m_userData (fst (sendInLoop hs enc k c s)) = m_userData c"
  by (simp add: sendInLoop_def handleClose_def on_event_def Let_def split: prod.split option.split send_result.split)

lemma close_callback_user:
  "fst (m_userData (fst (run_close_callback res))) = (if TA_CloseCallback \<in> set (snd res) then None else fst (m_userData (fst res)))"
  by (simp add: run_close_callback_def handleTcpConnClosed_def DestroyDataFromTcpConn_def)

lemma perform_user:
  "fst (m_userData (fst (perform m c a))) = fst (m_userData c) \<or> fst (m_userData (fst (perform m c a))) = None"
  by (cases a) (simp_all add: close_callback_user sendInLoop_frame forceCloseInLoop_def handleClose_def)

lemma perform_all_user:
  "fst (m_userData (fst (perform_all m c as))) = fst (m_userData c) \<or> fst (m_userData (fst (perform_all m c as))) = None"
proof (induction as arbitrary: c)
  case (Cons a as)
  obtain c1 out1 where p: "perform m c a = (c1, out1)" by fastforce
  obtain c2 out2 where q: "perform_all m c1 as = (c2, out2)" by fastforce
  show ?case using perform_user [of m c a] Cons.IH [of c1] p q by auto
qed simp

lemma force_close_user: "fst (m_userData (fst (perform m c ForceClose))) = None"
  by (simp add: close_callback_user forceCloseInLoop_def handleClose_def)

text \<open>The data of a connection never holds a parser that has failed, and one that is done only if the
  connection is to be closed.\<close>

definition data_ok :: "conn_data option \<Rightarrow> bool" where
  "data_ok u \<longleftrightarrow> (case u of None \<Rightarrow> True
     | Some d \<Rightarrow> pstate (cd_parser d) \<noteq> Parse_Error \<and> (pstate (cd_parser d) = Done \<longrightarrow> \<not> shouldKeepAlive d))"

lemma data_ok_None [simp]: "data_ok None"
  by (simp add: data_ok_def)

lemma fresh_state: "fresh p \<Longrightarrow> pstate p = RequestLine"
  by (auto simp: fresh_iff FHttpParser_new_def)

lemma data_ok_of:
  "data_ok (fst (m_userData c)) \<Longrightarrow> fresh (new_parser m) \<Longrightarrow> data_ok (Some (conn_data_of m c))"
  by (auto simp: data_ok_def conn_data_of_def getDataFromTcpConn_def fresh_state Let_def split: option.splits)

lemma perform_all_data_ok:
  "data_ok (fst (m_userData c)) \<Longrightarrow> data_ok (fst (m_userData (fst (perform_all m c as))))"
  using perform_all_user [of m c as] by auto

lemma parse_loop_verdict: "parse_loop p b = (Inr v, p', b') \<Longrightarrow> v \<longleftrightarrow> pstate p' = Done"
proof (induction p b rule: parse_loop.induct)
  case (1 p b)
  obtain c b1 where rd: "rd_readNext b = (c, b1)" by fastforce
  obtain st q where st: "parse_byte p c = (st, q)" by fastforce
  show ?case
  proof (cases "c = NUL \<or> finished p")
    case True
    then show ?thesis using "1.prems" rd by (auto simp: parse_loop.simps [of p b])
  next
    case False
    then show ?thesis
      using "1.prems" "1.IH" [OF rd [symmetric] refl False st [symmetric]] parse_byte_return [of p c v q]
      by (cases st) (auto simp: parse_loop.simps [of p b] rd st)
  qed
qed

lemma http1Process_data_ok:
  assumes "http1Process L S clock fp r d b = (None, acts, r', d', b')" "fresh fp"
  shows "data_ok (Some d') \<or> acts = [ForceClose]"
proof -
  obtain v p b1 where pr: "http_parse (cd_parser d) b = (v, p, b1)" by (metis prod_cases3)
  consider "v = Inr False" | "v = Inr True" | e where "v = Inl e" by (cases v) auto
  then show ?thesis
  proof cases
    case 1
    then have "pstate p \<noteq> Done" using parse_loop_verdict [of "cd_parser d" b False p b1] pr by (simp add: http_parse_def)
    with 1 assms pr show ?thesis by (auto simp: http1Process_def data_ok_def split: if_splits)
  next
    case 2
    then have "pstate p = Done" using parse_loop_verdict [of "cd_parser d" b True p b1] pr by (simp add: http_parse_def)
    then have "pstate (moved_from p) = Done" by (simp add: moved_from_def)
    moreover obtain ans r1 d1 where h: "httpHandle L S clock r (d\<lparr>cd_parser := moved_from p\<rparr>) False (FHttpRequest_of_parser p) = (ans, r1, d1)"
      by (metis prod_cases3)
    moreover have "cd_parser d1 = moved_from p"
      using httpHandle_data [of L S clock r "d\<lparr>cd_parser := moved_from p\<rparr>" False "FHttpRequest_of_parser p"] h
      by (simp add: preProcess_frame)
    ultimately show ?thesis
      using assms pr 2 fresh_state [OF assms(2)]
      by (cases ans; cases "shouldKeepAlive d1") (auto simp: http1Process_def data_ok_def)
  next
    case 3
    with assms(1) pr show ?thesis by (simp add: http1Process_def)
  qed
qed

lemma handleTcpIn_data_ok:
  assumes "data_ok (fst (m_userData c))" "fresh (new_parser m)" "handleTcpIn L S m c rd = (None, c', b, acts)"
  shows "data_ok (fst (m_userData c'))"
proof -
  obtain err as r d b1 where h: "http1Process L S (at_tick m) (new_parser m) (snd (m_userData c)) (conn_data_of m c) rd
      = (err, as, r, d, b1)" by (metis prod_cases5)
  then have c': "err = None" "c' = fst (perform_all m (set_conn_data c d r) as)"
    using assms(3) by (auto simp: handleTcpIn_def split: prod.splits)
  from http1Process_data_ok [OF _ assms(2)] h c'(1) have "data_ok (Some d) \<or> as = [ForceClose]" by blast
  then show ?thesis
  proof
    assume "data_ok (Some d)"
    then show ?thesis using perform_all_data_ok [of "set_conn_data c d r" m as] c'(2) by simp
  next
    assume "as = [ForceClose]"
    then show ?thesis using force_close_user [of m "set_conn_data c d r"]
      by (simp add: c'(2) split: prod.split)
  qed
qed

lemma handleRead_data_ok:
  assumes "data_ok (fst (m_userData c))" "fresh (new_parser m)" "run_event L S m c (Readable del tr) = (False, c', acts)"
  shows "data_ok (fst (m_userData c'))"
proof -
  obtain threw c1 acts1 where h: "handleRead (\<lambda>_. None) (handleTcpIn L S m) c del tr = (threw, c1, acts1)" by (metis prod_cases3)
  have "data_ok (fst (m_userData c2))"
    if "handleTcpIn L S m (c\<lparr>inBuffer := rd, mstate := Connected\<rparr>) rd = (None, c2, b, as)" for rd c2 b as
    using handleTcpIn_data_ok [OF _ assms(2) that] assms(1) by simp
  then have "data_ok (fst (m_userData c1)) \<or> TA_CloseCallback \<in> set acts1" if "threw = None"
    using h assms(1) that
    by (auto simp: handleRead_def call_onMessage_def handleClose_def handleError_def forceCloseInLoop_def Let_def
        split: prod.splits if_splits)
  then show ?thesis
    using assms(3) close_callback_user [of "(c1, acts1)"] by (auto simp: run_event.simps h)
qed

lemma handleWrite_user: "m_userData (fst (handleWrite c acc)) = m_userData c"
  by (simp add: handleWrite_def shutdownInLoop_def on_event_def Let_def split: prod.split option.split)

lemma handleOnIdle_user: "m_userData (fst (handleOnIdle c t)) = m_userData c"
  by (simp add: handleOnIdle_def resetIdle_def Let_def split: prod.split)

lemma perform_close_action: "TA_CloseCallback \<in> set (snd (forceCloseInLoop c))"
  by (simp add: forceCloseInLoop_def handleClose_def)

lemma run_event_data_ok:
  assumes "data_ok (fst (m_userData c))" "fresh (new_parser m)" "run_event L S m c e = (False, c', acts)"
  shows "data_ok (fst (m_userData c'))"
proof (cases e)
  case (Readable del tr)
  then show ?thesis using handleRead_data_ok [OF assms(1,2)] assms(3) by simp
next
  case (Writable accepted)
  then have "fst (m_userData c') = fst (m_userData c) \<or> fst (m_userData c') = None"
    using assms(3) close_callback_user [of "handleWrite c accepted"] handleWrite_user [of c accepted]
    by (auto simp: run_event.simps)
  then show ?thesis using assms(1) by auto
next
  case Posted
  then show ?thesis
    using assms(3) perform_all_data_ok [of "set_conn_data c (conn_data_of m c) (snd (m_userData c))" m] data_ok_of [OF assms(1,2)]
    by (auto simp: run_event.simps on_write_complete_def Let_def prod_eq_iff)
next
  case (Idle_timer t)
  obtain c1 acts1 where h: "handleOnIdle c t = (c1, acts1)" by fastforce
  then have "fst (m_userData c1) = fst (m_userData c)" using handleOnIdle_user [of c t] by simp
  then show ?thesis
    using Idle_timer assms perform_all_data_ok [of "set_conn_data c1 (conn_data_of m c1) (snd (m_userData c1))" m] data_ok_of [of c1 m]
    by (auto simp: run_event.simps h on_idle_def Let_def prod_eq_iff split: if_splits prod.splits)
qed

text \<open>
  C26. Whatever arrives, whatever the kernel answers and whenever timers and tasks run: as long as no exception
  has left a callback, the data of a connection never holds a failed parser (the connection was closed and its
  data freed), and a parser that is done only when the connection is marked to be closed.
\<close>
theorem no_stale_parser:
  assumes "data_ok (fst (m_userData c))" "\<forall>(m, e) \<in> set es. fresh (new_parser m)"
    "run_conn L S n c es = (False, n', c', acts)"
  shows "data_ok (fst (m_userData c'))"
  using run_conn_invariant [where P = "\<lambda>c. data_ok (fst (m_userData c))" and Q = "\<lambda>m e. fresh (new_parser m)" and R = "\<lambda>_. True"]
    run_event_data_ok assms by blast

text \<open>Closed connections.\<close>

lemma perform_closed:
  assumes "mstate c = DisConnected"
  shows "mstate (fst (perform m c a)) = DisConnected \<and> sent_bytes (snd (perform m c a)) = []"
proof -
  have run: "mstate (fst (run_close_callback res)) = mstate (fst res) \<and> snd (run_close_callback res) = snd res" for res :: "'a web_conn \<times> tcp_action list"
    by (simp add: run_close_callback_def handleTcpConnClosed_def)
  show ?thesis
    using assms by (cases a) (simp_all add: run sendInLoop_def forceCloseInLoop_def handleClose_def sent_bytes_def)
qed

lemma perform_all_closed:
  "mstate c = DisConnected \<Longrightarrow> mstate (fst (perform_all m c as)) = DisConnected \<and> sent_bytes (snd (perform_all m c as)) = []"
proof (induction as arbitrary: c)
  case (Cons a as)
  obtain c1 out1 where p: "perform m c a = (c1, out1)" by fastforce
  obtain c2 out2 where q: "perform_all m c1 as = (c2, out2)" by fastforce
  show ?case using perform_closed [OF Cons.prems, of m a] Cons.IH [of c1] p q by (simp add: sent_bytes_def)
qed (simp add: sent_bytes_def)

lemma run_event_closed:
  assumes "mstate c = DisConnected" "run_event L S m c e = (threw, c', acts)"
  shows "\<not> threw \<and> mstate c' = DisConnected \<and> sent_bytes acts = []"
proof (cases e)
  case (Idle_timer t)
  have idle: "mstate (fst (handleOnIdle c t)) = DisConnected \<and> sent_bytes (snd (handleOnIdle c t)) = []"
    using assms(1) by (simp add: handleOnIdle_def resetIdle_def cancelIdleFunc_def sent_bytes_def)
  obtain c1 acts1 where h: "handleOnIdle c t = (c1, acts1)" by fastforce
  show ?thesis
    using assms(2) idle perform_all_closed [of "set_conn_data c1 (conn_data_of m c1) (snd (m_userData c1))" m]
    by (auto simp: Idle_timer run_event.simps h on_idle_def Let_def sent_bytes_def prod_eq_iff split: if_splits prod.splits)
next
  case Posted
  then show ?thesis
    using assms perform_all_closed [of "set_conn_data c (conn_data_of m c) (snd (m_userData c))" m]
    by (auto simp: run_event.simps on_write_complete_def Let_def prod_eq_iff)
qed (use assms closed_is_silent [OF assms(1)] in \<open>auto simp: run_event.simps run_close_callback_def sent_bytes_def\<close>)

text \<open>
  A closed connection stays closed: after a close, whatever readiness events, write-complete tasks and idle
  timers are still delivered, nothing is sent any more, no exception leaves a callback, and it is not opened again.
\<close>
theorem closed_stays_closed:
  assumes "mstate c = DisConnected" "run_conn L S n c es = (threw, n', c', acts)"
  shows "\<not> threw \<and> mstate c' = DisConnected \<and> sent_bytes acts = []"
  using assms
proof (induction es arbitrary: n c acts)
  case (Cons me es)
  obtain m e where me: "me = (m, e)" by fastforce
  obtain t1 c1 acts1 where ev: "run_event L S m c e = (t1, c1, acts1)" by (metis prod_cases3)
  have cl: "\<not> t1" "mstate c1 = DisConnected" "sent_bytes acts1 = []" using run_event_closed [OF Cons.prems(1) ev] by simp_all
  show ?case
  proof (cases "e = Posted \<and> n = 0")
    case True
    then have "run_conn L S 0 c es = (threw, n', c', acts)" using Cons.prems(2) by (simp add: me)
    then show ?thesis by (rule Cons.IH [OF Cons.prems(1)])
  next
    case False
    with Cons.prems(2) cl(1) obtain more where more: "acts = acts1 @ more"
      "run_conn L S ((if e = Posted then n - 1 else n) + posted_tasks acts1) c1 es = (threw, n', c', more)"
      by (auto simp: me ev Let_def split: prod.splits)
    from Cons.IH [OF cl(2) more(2)] cl(3) show ?thesis by (simp add: more(1) sent_bytes_def)
  qed
qed (simp add: sent_bytes_def)

section \<open>Connection: close\<close>

lemma force_close: "run_close_callback (forceCloseInLoop c) = (handleTcpConnClosed (fst (handleClose c)), [TA_CloseCallback])"
  by (simp add: run_close_callback_def forceCloseInLoop_def handleClose_def)

lemma closed_conn:
  "mstate (handleTcpConnClosed (fst (handleClose c))) = DisConnected"
  "fst (m_userData (handleTcpConnClosed (fst (handleClose c)))) = None"
  by (simp_all add: handleTcpConnClosed_def handleClose_def DestroyDataFromTcpConn_def)

lemma conn_data_present: "m_userData c = (Some d, r) \<Longrightarrow> conn_data_of m c = d"
  by (simp add: conn_data_of_def getDataFromTcpConn_def Let_def)

lemma single_read: "builder_ok rb \<Longrightarrow> rb_build rb \<noteq> []"
  by (simp add: build_text request_text_def)

text \<open>
  C24. A request of \<open>FHttpRequestBuilder\<close> that asks to close, arriving in one portion on an idle connection, is
  answered and then the connection is closed, if the kernel takes the whole answer at once and the application
  has no error-page route: the response is on
  the wire before the close, the close is done by the write-complete task, and the data of the connection is freed.
\<close>
theorem close_after_answer:
  assumes "libs_ok L" "error_page_free L c" "idle_conn c" "m_onWriteComplete c" "builder_ok rb" "\<not> keeps_alive rb"
    "fb_room (inBuffer c) (length (rb_build rb))" "accepts_all m"
  shows "\<exists>n' c' resp. run_conn L S n c [(m, Readable (Some (rb_build rb)) tr), (m2, Posted)] =
      (False, n', c', [TA_Sent (rs_toString resp), TA_PostWriteComplete, TA_CloseCallback])
    \<and> answers_request L S rb resp \<and> mstate c' = DisConnected \<and> fst (m_userData c') = None"
proof -
  have "midway [] c" using assms(3) by (simp add: midway_idle)
  from answer_is_sent [OF this assms(5) _ single_read [OF assms(5)] assms(7,8,1,2), of S tr] assms(4,6)
  obtain c1 resp d r where k: "answers_request L S rb resp"
    "run_event L S m c (Readable (Some (rb_build rb)) tr) = (False, c1, [TA_Sent (rs_toString resp), TA_PostWriteComplete])"
    "m_userData c1 = (Some d, r)" "\<not> shouldKeepAlive d"
    by auto
  have "run_event L S m2 c1 Posted =
      (False, handleTcpConnClosed (fst (handleClose (set_conn_data c1 d r))), [TA_CloseCallback])"
    using k(3,4) by (simp add: run_event.simps on_write_complete_def conn_data_present handleTcpWriteComplete_def force_close)
  then show ?thesis using k closed_conn by (auto simp: posted_tasks_def)
qed

text \<open>A kernel whose socket buffer cannot take a whole response.\<close>

definition takes_part :: "moment \<Rightarrow> bool" where
  "takes_part m \<longleftrightarrow> (\<forall>s. s \<noteq> [] \<longrightarrow> (\<exists>k < length s. krnl_send m s = Accepted k)) \<and> fresh (new_parser m)"

lemma send_partial:
  assumes "nothing_queued c" "plain_open c" "takes_part m" "s \<noteq> []"
  shows "\<exists>c' k. perform m c (Send s) = (c', [TA_Sent (take k s)]) \<and> krnl_send m s = Accepted k \<and> k < length s
    \<and> isWriting (c_event c') \<and> outBuffer c' = fb_Append (outBuffer c) (drop k s) \<and> mstate c' = mstate c \<and> inBuffer c' = inBuffer c \<and> m_userData c' = m_userData c
    \<and> m_onMessage c' = m_onMessage c \<and> isSSLConnection c' = isSSLConnection c"
proof -
  obtain k where k: "k < length s" "krnl_send m s = Accepted k" using assms(3,4) by (auto simp: takes_part_def)
  let ?c = "on_event enableWriting (c\<lparr>outBuffer := fb_Append (outBuffer c) (drop k s)\<rparr>)"
  have "getReadableSize (outBuffer c) = 0"
    using assms readable_size [of "outBuffer c"] by (simp add: nothing_queued_def)
  then have "perform m c (Send s) = (?c, [TA_Sent (take k s)])"
    using assms k by (simp add: sendInLoop_def nothing_queued_def plain_open_def run_close_callback_def Let_def)
  moreover have "m_userData ?c = m_userData c" "isSSLConnection ?c = isSSLConnection c"
    by (simp_all add: on_event_def split: prod.split)
  ultimately show ?thesis using k by (intro exI [of _ ?c] exI [of _ k]) simp
qed

lemma send_queued:
  assumes "isWriting (c_event c)" "plain_open c" "s \<noteq> []"
  shows "perform m c (Send s) = (c\<lparr>outBuffer := fb_Append (outBuffer c) s\<rparr>, [])"
  using assms by (simp add: sendInLoop_def plain_open_def run_close_callback_def Let_def)

lemma response_text: "rs_toString rs \<noteq> []"
  by (cases "mVersion rs") (simp_all add: rs_toString_def)

text \<open>A parser that is done takes a byte and says so again; with the context moved out, that is a request
  for the empty path that asks for nothing.\<close>

lemma ghost_request:
  assumes "spent (cd_parser d)" "libs_ok L" "no_error_page L r"
  shows "\<exists>resp d' r' b' d0 q. http1Process L S clock fp r d b = (None, [Send (rs_toString resp)], r', d', b')
    \<and> rq_getPath q = [] \<and> fst (httpHandle L S clock r d0 False q) = Inr resp \<and> shouldKeepAlive d' \<and> no_error_page L r'"
proof -
  let ?p = "cd_parser d"
  obtain c b1 where rd: "rd_readNext b = (c, b1)" by fastforce
  obtain mt where st: "pstate ?p = Done" "mCtx ?p = new_context mt Http11" using assms(1) unfolding spent_def by blast
  then have parse: "http_parse ?p b = (Inr True, ?p, b1)"
    by (simp add: http_parse_def parse_loop.simps [of ?p b] rd finished_def)
  let ?d = "d\<lparr>cd_parser := moved_from ?p\<rparr>" and ?q = "FHttpRequest_of_parser ?p"
  obtain ans r1 d1 where h: "httpHandle L S clock r ?d False ?q = (ans, r1, d1)" by (metis prod_cases3)
  obtain resp where a: "ans = Inr resp" "no_error_page L r1" using handler_answers [OF assms(2,3) h] by blast
  have "d1 = preProcessTcpConn ?d False ?q" using httpHandle_data [of L S clock r ?d False ?q] h by simp
  moreover have "rq_getHeader ?q ''Connection'' = None" "mHttpVersion (mHttpCtx ?q) = Http11" "rq_getPath ?q = []"
    using st(2) by (simp_all add: rq_getHeader_def ctx_getHeader_def FHttpRequest_of_parser_def new_context_def mm_find_def)
  ultimately have "shouldKeepAlive d1" "rq_getPath ?q = []" by (simp_all add: keep_alive_rule)
  with h a parse show ?thesis
    by (intro exI [of _ resp] exI [of _ "d1\<lparr>cd_parser := fp\<rparr>"] exI [of _ r1] exI [of _ b1] exI [of _ ?d] exI [of _ ?q])
      (simp add: http1Process_def)
qed

lemma ghost_event:
  assumes "plain_open c" "isWriting (c_event c)" "m_userData c = (Some d, r)" "spent (cd_parser d)" "no_error_page L r"
    "libs_ok L" "fb_room (inBuffer c) (length x)" "x \<noteq> []"
  shows "\<exists>c' resp d' r' r0 d0 q. run_event L S m c (Readable (Some x) tr) = (False, c', [])
    \<and> outBuffer c' = fb_Append (outBuffer c) (rs_toString resp) \<and> mstate c' = Connected
    \<and> m_userData c' = (Some d', r') \<and> shouldKeepAlive d'
    \<and> rq_getPath q = [] \<and> fst (httpHandle L S (at_tick m) r0 d0 False q) = Inr resp"
proof -
  obtain b where b: "fb_wf b"
    and ev: "run_event L S m c (Readable (Some x) tr) =
       (case handleTcpIn L S m (c\<lparr>inBuffer := b, mstate := Connected\<rparr>) b of
          (threw, c2, b', acts) \<Rightarrow> (threw \<noteq> None, run_close_callback (c2\<lparr>inBuffer := b'\<rparr>, acts)))"
    using read_event [OF assms(1,7,8), of L S m tr] by blast
  let ?c1 = "c\<lparr>inBuffer := b, mstate := Connected\<rparr>"
  obtain resp d' r' b' d0 q where h: "http1Process L S (at_tick m) (new_parser m) r d b = (None, [Send (rs_toString resp)], r', d', b')"
      "rq_getPath q = []" "fst (httpHandle L S (at_tick m) r d0 False q) = Inr resp" "shouldKeepAlive d'"
    using ghost_request [OF assms(4,6,5)] by metis
  let ?c2 = "set_conn_data ?c1 d' r'"
  have d: "conn_data_of m ?c1 = d" using assms(3) by (simp add: conn_data_present)
  have "isWriting (c_event ?c2)" "plain_open ?c2" using assms(1,2) b by (simp_all add: plain_open_def)
  from send_queued [OF this response_text]
  have "run_event L S m c (Readable (Some x) tr) =
      (False, ?c2\<lparr>outBuffer := fb_Append (outBuffer c) (rs_toString resp), inBuffer := b'\<rparr>, [])"
    using h(1) assms(3) by (simp add: ev handleTcpIn_def d run_close_callback_def del: perform.simps)
  then show ?thesis using h(2-4)
    by (intro exI [of _ "?c2\<lparr>outBuffer := fb_Append (outBuffer c) (rs_toString resp), inBuffer := b'\<rparr>"] exI) auto
qed

lemma partly_answered:
  assumes "libs_ok L" "error_page_free L c" "idle_conn c" "builder_ok rb" "takes_part m"
    "fb_room (inBuffer c) (length (rb_build rb) + k)"
  shows "\<exists>c1 d r resp n. run_event L S m c (Readable (Some (rb_build rb)) tr) = (False, c1, [TA_Sent (take n (rs_toString resp))])
    \<and> answers_request L S rb resp \<and> krnl_send m (rs_toString resp) = Accepted n \<and> n < length (rs_toString resp)
    \<and> outBuffer c1 = fb_Append (outBuffer c) (drop n (rs_toString resp))
    \<and> plain_open c1 \<and> isWriting (c_event c1) \<and> m_userData c1 = (Some d, r) \<and> fb_room (inBuffer c1) k
    \<and> (shouldKeepAlive d \<longleftrightarrow> keeps_alive rb) \<and> (\<not> keeps_alive rb \<longrightarrow> spent (cd_parser d)) \<and> no_error_page L r"
proof -
  have mid: "midway [] c" and c: "plain_open c" "nothing_queued c" using assms(3) by (simp_all add: midway_idle idle_conn_def)
  have room: "fb_room (inBuffer c) (length (rb_build rb))" and fp: "fresh (new_parser m)"
    using assms(5,6) by (simp_all add: fb_room_def takes_part_def)
  from request_completes [OF mid assms(4) _ single_read [OF assms(4)] room fp assms(1,2), of S tr]
  obtain c0 resp d r b' where k: "answers_request L S rb resp"
    "run_event L S m c (Readable (Some (rb_build rb)) tr) =
        (let (c2, acts) = perform m (set_conn_data c0 d r) (Send (rs_toString resp))
         in (False, run_close_callback (c2\<lparr>inBuffer := b'\<rparr>, acts)))"
    "c0 = c\<lparr>inBuffer := inBuffer c0, mstate := Connected\<rparr>" "fb_wf (inBuffer c0)" "fb_wf b'"
    "length (m_buffer b') \<le> length (m_buffer (inBuffer c)) + length (rb_build rb)" "shouldKeepAlive d \<longleftrightarrow> keeps_alive rb"
    "\<not> keeps_alive rb \<longrightarrow> spent (cd_parser d)" "no_error_page L r"
    by (auto split: if_splits)
  obtain b0 where b0: "c0 = c\<lparr>inBuffer := b0, mstate := Connected\<rparr>" using k(3) by blast
  have "nothing_queued (set_conn_data c0 d r)" "plain_open (set_conn_data c0 d r)"
    using c k(4) by (simp_all add: b0 nothing_queued_def plain_open_def)
  from send_partial [OF this assms(5) response_text [of resp]]
  obtain cs i where cs: "perform m (set_conn_data c0 d r) (Send (rs_toString resp)) = (cs, [TA_Sent (take i (rs_toString resp))])"
      "i < length (rs_toString resp)" "isWriting (c_event cs)" "krnl_send m (rs_toString resp) = Accepted i"
      "outBuffer cs = fb_Append (outBuffer c) (drop i (rs_toString resp))" "mstate cs = Connected" "m_userData cs = (Some d, r)"
      "m_onMessage cs = m_onMessage c" "isSSLConnection cs = isSSLConnection c"
    by (simp add: b0 del: perform.simps) blast
  let ?c1 = "cs\<lparr>inBuffer := b'\<rparr>"
  have "run_event L S m c (Readable (Some (rb_build rb)) tr) = (False, ?c1, [TA_Sent (take i (rs_toString resp))])"
    using k(2) cs(1) by (simp add: run_close_callback_def del: perform.simps)
  moreover have "plain_open ?c1" "isWriting (c_event ?c1)" "m_userData ?c1 = (Some d, r)" "fb_room (inBuffer ?c1) k"
    using c cs k(5,6) assms(6) by (simp_all add: plain_open_def fb_room_def)
  moreover have "outBuffer ?c1 = fb_Append (outBuffer c) (drop i (rs_toString resp))" using cs by simp
  ultimately show ?thesis using k(1,7-9) cs(2,4) by blast
qed

text \<open>
  C12. The close is forgotten when more bytes arrive before the answer has left: the parser of a connection that is to
  be closed stays in its final state with its context moved out, so any further bytes make \<open>http1Process\<close>
  handle a request for the empty path that nobody sent. Its answer is queued behind the first one, and since
  it carries no Connection header the connection is marked to be kept: the write-complete task leaves it open.
\<close>
theorem close_forgotten:
  assumes "libs_ok L" "error_page_free L c" "idle_conn c" "builder_ok rb" "\<not> keeps_alive rb" "takes_part m" "x \<noteq> []"
    "fb_room (inBuffer c) (length (rb_build rb) + length x)"
  shows "\<exists>c1 c2 c3 d1 r1 resp sent resp2 clock r d q.
      run_event L S m c (Readable (Some (rb_build rb)) tr) = (False, c1, [TA_Sent sent])
    \<and> answers_request L S rb resp \<and> strict_prefix sent (rs_toString resp)
    \<and> m_userData c1 = (Some d1, r1) \<and> \<not> shouldKeepAlive d1
    \<and> run_event L S m2 c1 (Readable (Some x) tr2) = (False, c2, [])
    \<and> outBuffer c2 = fb_Append (outBuffer c1) (rs_toString resp2)
    \<and> rq_getPath q = [] \<and> fst (httpHandle L S clock r d False q) = Inr resp2
    \<and> run_event L S m3 c2 Posted = (False, c3, []) \<and> mstate c3 = Connected"
proof -
  obtain c1 d1 r1 resp n where c1: "run_event L S m c (Readable (Some (rb_build rb)) tr) = (False, c1, [TA_Sent (take n (rs_toString resp))])"
      "answers_request L S rb resp" "n < length (rs_toString resp)" "plain_open c1" "isWriting (c_event c1)"
      "m_userData c1 = (Some d1, r1)" "fb_room (inBuffer c1) (length x)" "\<not> shouldKeepAlive d1" "spent (cd_parser d1)" "no_error_page L r1"
    using partly_answered [OF assms(1-4,6,8), of S tr] assms(5) by metis
  have part: "strict_prefix (take n (rs_toString resp)) (rs_toString resp)"
    using c1(3) by (metis take_is_prefix strict_prefix_def nat_neq_iff length_take min.absorb4)
  obtain c2 resp2 d2 r2 r0 d0 q where g: "run_event L S m2 c1 (Readable (Some x) tr2) = (False, c2, [])"
      "outBuffer c2 = fb_Append (outBuffer c1) (rs_toString resp2)" "mstate c2 = Connected" "m_userData c2 = (Some d2, r2)"
      "shouldKeepAlive d2" "rq_getPath q = []" "fst (httpHandle L S (at_tick m2) r0 d0 False q) = Inr resp2"
    using ghost_event [OF c1(4-6,9,10) assms(1) c1(7) assms(7), of S m2 tr2] by blast
  have "run_event L S m3 c2 Posted = (False, set_conn_data c2 d2 r2, [])" "mstate (set_conn_data c2 d2 r2) = Connected"
    using g(3-5) by (simp_all add: run_event.simps on_write_complete_def conn_data_present handleTcpWriteComplete_def)
  then show ?thesis using c1(1,2,6,8) part g(1,2,6,7) by blast
qed

text \<open>
  C13. A large answer arrives damaged: when the kernel has taken the first \<open>k\<close> bytes of a response and the socket
  becomes writable for \<open>n\<close> more (with at least \<open>2 * n\<close> bytes left), these \<open>n\<close> bytes are sent and the \<open>n\<close> bytes behind
  them are dropped from the queue, so the client gets a response with a gap.
\<close>
theorem large_answer_loses_bytes:
  assumes "libs_ok L" "error_page_free L c" "idle_conn c" "builder_ok rb" "takes_part m"
    "fb_room (inBuffer c) (length (rb_build rb))"
  shows "\<exists>c1 resp k. run_event L S m c (Readable (Some (rb_build rb)) tr) = (False, c1, [TA_Sent (take k (rs_toString resp))])
    \<and> answers_request L S rb resp \<and> krnl_send m (rs_toString resp) = Accepted k
    \<and> (\<forall>n. 0 < n \<longrightarrow> k + 2 * n \<le> length (rs_toString resp) \<longrightarrow> fb_room (outBuffer c) (length (rs_toString resp)) \<longrightarrow>
        (\<exists>c2 acts. run_event L S m2 c1 (Writable (Some n)) = (False, c2, acts)
           \<and> sent_bytes acts = take n (drop k (rs_toString resp))
           \<and> readable (outBuffer c2) = drop (k + 2 * n) (rs_toString resp)))"
proof -
  have room: "fb_room (inBuffer c) (length (rb_build rb) + 0)" using assms(6) by simp
  obtain c1 d r resp k where c1: "run_event L S m c (Readable (Some (rb_build rb)) tr) = (False, c1, [TA_Sent (take k (rs_toString resp))])"
      "answers_request L S rb resp" "krnl_send m (rs_toString resp) = Accepted k" "k < length (rs_toString resp)"
      "outBuffer c1 = fb_Append (outBuffer c) (drop k (rs_toString resp))" "plain_open c1" "isWriting (c_event c1)"
    using partly_answered [OF assms(1-5) room, of S tr] by metis
  have flush: "\<exists>c2 acts. run_event L S m2 c1 (Writable (Some n)) = (False, c2, acts)
      \<and> sent_bytes acts = take n (drop k (rs_toString resp)) \<and> readable (outBuffer c2) = drop (k + 2 * n) (rs_toString resp)"
    if n: "0 < n" "k + 2 * n \<le> length (rs_toString resp)" "fb_room (outBuffer c) (length (rs_toString resp))" for n
  proof -
    have b: "fb_wf (outBuffer c)" "readable (outBuffer c) = []" using assms(3) by (simp_all add: idle_conn_def nothing_queued_def)
    have q: "fb_wf (outBuffer c1)" "readable (outBuffer c1) = drop k (rs_toString resp)"
      using Append_correct [OF b(1), of "drop k (rs_toString resp)"] b(2) n(3) by (simp_all add: c1(5) fb_room_def)
    obtain c2 acts where w: "handleWrite c1 (Some n) = (c2, acts)" by fastforce
    have "TA_CloseCallback \<notin> set acts"
      using w by (auto simp: handleWrite_def shutdownInLoop_def Let_def split: if_splits prod.splits)
    then have "run_event L S m2 c1 (Writable (Some n)) = (False, c2, acts)"
      by (simp add: run_event.simps w run_close_callback_def)
    then show ?thesis
      using handleWrite_effect [OF c1(7) _ q(1) n(1) w] c1(6) q(2) n(2) by (simp add: plain_open_def add.commute)
  qed
  show ?thesis using c1(1-3) flush by blast
qed

text \<open>
  A write-complete task can outlive its connection's data: when the idle timer closes the connection between
  the answer and the task, the close callback frees the data, and the task then creates new data for the closed
  connection, which nothing frees any more.
\<close>
theorem late_write_complete_leaks:
  assumes "libs_ok L" "error_page_free L c" "idle_conn c" "m_onWriteComplete c" "m_onIdleCallback c" "builder_ok rb"
    "fb_room (inBuffer c) (length (rb_build rb))" "accepts_all m"
    "0 \<le> mHttpConnectionTimeout S" "mHttpConnectionTimeout S < at_second m2 - uint (hasSurvivedTime (conn_data_of m c))"
  shows "\<exists>n' c' acts. run_conn L S n c [(m, Readable (Some (rb_build rb)) tr), (m2, Idle_timer t), (m3, Posted)] = (False, n', c', acts)
    \<and> TA_CloseCallback \<in> set acts \<and> mstate c' = DisConnected \<and> fst (m_userData c') \<noteq> None"
proof -
  have "midway [] c" using assms(3) by (simp add: midway_idle)
  from answer_is_sent [OF this assms(6) _ single_read [OF assms(6)] assms(7,8,1,2), of S tr] assms(4,5)
  obtain c1 resp d r where k:
    "run_event L S m c (Readable (Some (rb_build rb)) tr) = (False, c1, [TA_Sent (rs_toString resp), TA_PostWriteComplete])"
    "m_userData c1 = (Some d, r)" "m_onIdleCallback c1" "hasSurvivedTime d = hasSurvivedTime (conn_data_of m c)"
    by auto
  obtain c2 acts2 where h: "handleOnIdle c1 t = (c2, acts2 @ [TA_IdleCallback])" "m_userData c2 = (Some d, r)"
    using handleOnIdle_user [of c1 t] k(2,3) by (auto simp: handleOnIdle_def split: prod.splits)
  have "handleTcpIdle S (at_second m2) False d = [ForceClose]"
    using assms(9,10) k(4) by (simp add: handleTcpIdle_def Let_def)
  then have idle: "run_event L S m2 c1 (Idle_timer t) =
      (False, handleTcpConnClosed (fst (handleClose (set_conn_data c2 d r))), acts2 @ [TA_IdleCallback, TA_CloseCallback])"
    using h by (simp add: run_event.simps on_idle_def conn_data_present force_close)
  let ?c3 = "handleTcpConnClosed (fst (handleClose (set_conn_data c2 d r)))"
  have "shouldKeepAlive (conn_data_of m3 ?c3)"
    by (simp add: conn_data_of_def closed_conn getDataFromTcpConn_def)
  then have late: "run_event L S m3 ?c3 Posted = (False, set_conn_data ?c3 (conn_data_of m3 ?c3) (snd (m_userData ?c3)), [])"
    by (simp add: run_event.simps on_write_complete_def handleTcpWriteComplete_def Let_def)
  show ?thesis using k(1) idle late closed_conn by (simp add: posted_tasks_def)
qed

section \<open>Instances\<close>

definition demo_web :: "((string, nat) rbt, (string, nat route_cache) rbt, (u64, nat pattern_entry) rbt) router web_conn" where
  "demo_web = handleTcpConnEstablish (accepted_conn \<lparr>m_pollEvents = [], ctl_log = []\<rparr> 4 9 False 60000 demo_router)"

definition moment_at :: "int \<Rightarrow> (nat \<Rightarrow> nat) \<Rightarrow> moment" where
  "moment_at sec f = \<lparr>at_tick = 0, at_second = sec, krnl_send = (\<lambda>s. Accepted (f (length s))), new_parser = FHttpParser_new M_GET Http11\<rparr>"

definition get_request :: "string \<Rightarrow> (string, string) omap \<Rightarrow> request_builder" where
  "get_request path hs = (rb_setUrl (RequestBuilder_new M_GET) path)\<lparr>headers_of := hs\<rparr>"

lemma get_request_ok:
  "CHR '' '' \<notin> set path \<Longrightarrow> line_text path \<Longrightarrow> builder_ok (get_request path [])"
  "CHR '' '' \<notin> set path \<Longrightarrow> line_text path \<Longrightarrow> builder_ok (get_request path [(''Connection'', ''close'')])"
  by (simp_all add: builder_ok_def get_request_def rb_setUrl_def RequestBuilder_new_def header_ok_def line_text_def trimmed_def omap_wf_def)

lemma demo_web_facts:
  "error_page_free demo_libs demo_web" "idle_conn demo_web" "m_onWriteComplete demo_web" "m_onIdleCallback demo_web"
  "m_buffer (inBuffer demo_web) = replicate 1024 NUL" "fst (m_userData demo_web) = None"
  "m_buffer (outBuffer demo_web) = replicate 1024 NUL"
proof -
  note new = accepted_is_idle [of "\<lparr>m_pollEvents = [], ctl_log = []\<rparr>" 4 9 60000 demo_router, folded demo_web_def]
  have "cached demo_libs demo_router M_GET ERROR_ROUTE_PATH = None" by code_simp
  moreover have "Option.is_none (find (\<lambda>e. entry_matches demo_libs ERROR_ROUTE_PATH (snd e))
         (tentries (oqT demo_libs) (mControllerOrderQueue demo_router ! method_index M_GET)))" by code_simp
  ultimately show "error_page_free demo_libs demo_web"
    using demo_wf new by (simp add: error_page_free_def no_error_page_def Option.is_none_def)
qed (simp_all add: accepted_is_idle demo_web_def)

lemma moments:
  "accepts_all (moment_at sec (\<lambda>k. k))" "takes_part (moment_at sec (\<lambda>k. k - 1))" "takes_part (moment_at sec (\<lambda>k. k - 4))"
  by (simp_all add: accepts_all_def takes_part_def moment_at_def)

lemma get_text:
  "rb_build (get_request ''/file/a.png'' []) = ''GET /file/a.png HTTP/1.1'' @ CRLF @ ''Content-Length: 0'' @ CRLF @ CRLF"
  "rb_build (get_request ''/nope'' []) = ''GET /nope HTTP/1.1'' @ CRLF @ ''Content-Length: 0'' @ CRLF @ CRLF"
  "rb_build (get_request ''/file/a.png'' [(''Connection'', ''close'')]) =
     ''GET /file/a.png HTTP/1.1'' @ CRLF @ ''Connection: close'' @ CRLF @ ''Content-Length: 0'' @ CRLF @ CRLF"
  by code_simp+

text \<open>Two requests, the first in two portions; the write-complete task of the first runs before the second.\<close>

theorem conversation_witness:
  "\<exists>n' c' acts r1 r2. run_conn demo_libs demo_server 0 demo_web
      [(moment_at 1 (\<lambda>k. k), Readable (Some ''GET /file/a.pn'') False),
       (moment_at 1 (\<lambda>k. k), Readable (Some (drop 14 (rb_build (get_request ''/file/a.png'' [])))) False),
       (moment_at 1 (\<lambda>k. k), Posted),
       (moment_at 2 (\<lambda>k. k), Readable (Some (rb_build (get_request ''/nope'' []))) False)] = (False, n', c', acts)
    \<and> sent_bytes acts = rs_toString r1 @ rs_toString r2 \<and> idle_conn c'"
proof -
  let ?m = "\<lambda>sec. moment_at sec (\<lambda>k. k)" and ?rbs = "[get_request ''/file/a.png'' [], get_request ''/nope'' []]"
  let ?es = "[(?m 1, Readable (Some ''GET /file/a.pn'') False),
       (?m 1, Readable (Some (drop 14 (rb_build (get_request ''/file/a.png'' [])))) False),
       (?m 1, Posted), (?m 2, Readable (Some (rb_build (get_request ''/nope'' []))) False)]"
  have "reads_and_tasks ?es" by (auto simp: reads_and_tasks_def moments)
  moreover have "cuts [] ?rbs (arrivals ?es)" by (simp add: get_text)
  moreover have "\<forall>rb \<in> set ?rbs. builder_ok rb \<and> keeps_alive rb"
    using get_request_ok by (simp add: line_text_def keeps_alive_def) (simp add: get_request_def)
  moreover have "fb_room (inBuffer demo_web) (length (concat (arrivals ?es)))"
    by (simp add: fb_room_def demo_web_facts get_text)
  ultimately obtain n' c' acts resps where
    "run_conn demo_libs demo_server 0 demo_web ?es = (False, n', c', acts)" "sent_bytes acts = concat (map rs_toString resps)"
    "list_all2 (answers_request demo_libs demo_server) ?rbs resps" "idle_conn c'"
    using conversation [OF demo_libs_ok demo_web_facts(1,2)] by blast
  moreover from this(3) obtain r1 r2 where "resps = [r1, r2]" by (auto simp: list_all2_Cons1)
  ultimately have "sent_bytes acts = rs_toString r1 @ rs_toString r2" by simp
  with \<open>run_conn demo_libs demo_server 0 demo_web ?es = (False, n', c', acts)\<close> \<open>idle_conn c'\<close> show ?thesis by blast
qed

theorem close_after_answer_witness:
  "\<exists>n' c' resp. run_conn demo_libs demo_server 0 demo_web
      [(moment_at 1 (\<lambda>k. k), Readable (Some (rb_build (get_request ''/file/a.png'' [(''Connection'', ''close'')]))) False),
       (moment_at 1 (\<lambda>k. k), Posted)] =
      (False, n', c', [TA_Sent (rs_toString resp), TA_PostWriteComplete, TA_CloseCallback]) \<and> mstate c' = DisConnected"
proof -
  let ?rb = "get_request ''/file/a.png'' [(''Connection'', ''close'')]"
  have "builder_ok ?rb" using get_request_ok(2) [of "''/file/a.png''"] by (simp add: line_text_def)
  moreover have "\<not> keeps_alive ?rb" by (simp add: keeps_alive_def get_request_def)
  moreover have "fb_room (inBuffer demo_web) (length (rb_build ?rb))"
    by (simp add: fb_room_def demo_web_facts get_text)
  ultimately show ?thesis
    using close_after_answer [OF demo_libs_ok demo_web_facts(1-3) _ _ _ moments(1)] by blast
qed

theorem closed_stays_closed_witness:
  "mstate (fst (snd (snd (run_conn demo_libs demo_server 1 (fst (handleClose demo_web))
     [(moment_at 1 (\<lambda>k. k), Posted), (moment_at 1 (\<lambda>k. k), Readable (Some ''GET'') False)])))) = DisConnected"
  using closed_stays_closed [OF handleClose_closed] by (metis prod.collapse)

theorem no_stale_parser_witness:
  "data_ok (fst (m_userData (fst (snd (snd (run_conn demo_libs demo_server 0 demo_web [(moment_at 1 (\<lambda>k. k), Posted)]))))))"
proof -
  obtain threw n' c' acts where r: "run_conn demo_libs demo_server 0 demo_web [(moment_at 1 (\<lambda>k. k), Posted)] = (threw, n', c', acts)"
    by (metis prod_cases4)
  then have "\<not> threw" by simp
  with no_stale_parser [of demo_web "[(moment_at 1 (\<lambda>k. k), Posted)]"] r show ?thesis
    by (simp add: demo_web_facts moment_at_def)
qed

theorem close_forgotten_witness:
  "\<exists>c1 sent resp. run_event demo_libs demo_server (moment_at 1 (\<lambda>k. k - 1)) demo_web
      (Readable (Some (rb_build (get_request ''/file/a.png'' [(''Connection'', ''close'')]))) False) = (False, c1, [TA_Sent sent])
    \<and> strict_prefix sent (rs_toString resp)
    \<and> (\<exists>c2 c3. run_event demo_libs demo_server (moment_at 1 (\<lambda>k. k)) c1 (Readable (Some ''G'') False) = (False, c2, [])
         \<and> run_event demo_libs demo_server (moment_at 1 (\<lambda>k. k)) c2 Posted = (False, c3, []) \<and> mstate c3 = Connected)"
proof -
  let ?rb = "get_request ''/file/a.png'' [(''Connection'', ''close'')]"
  have "builder_ok ?rb" using get_request_ok(2) [of "''/file/a.png''"] by (simp add: line_text_def)
  moreover have "\<not> keeps_alive ?rb" by (simp add: keeps_alive_def get_request_def)
  moreover have "fb_room (inBuffer demo_web) (length (rb_build ?rb) + length ''G'')"
    by (simp add: fb_room_def demo_web_facts get_text)
  ultimately show ?thesis
    using close_forgotten [OF demo_libs_ok demo_web_facts(1,2) _ _ moments(2), where x = "''G''"] by blast
qed

theorem late_write_complete_leaks_witness:
  "\<exists>n' c' acts. run_conn demo_libs demo_server 0 demo_web
      [(moment_at 1 (\<lambda>k. k), Readable (Some (rb_build (get_request ''/nope'' []))) False),
       (moment_at 99 (\<lambda>k. k), Idle_timer 7), (moment_at 99 (\<lambda>k. k), Posted)] = (False, n', c', acts)
    \<and> mstate c' = DisConnected \<and> fst (m_userData c') \<noteq> None"
proof -
  have "builder_ok (get_request ''/nope'' [])" using get_request_ok(1) [of "''/nope''"] by (simp add: line_text_def)
  moreover have "fb_room (inBuffer demo_web) (length (rb_build (get_request ''/nope'' [])))"
    by (simp add: fb_room_def demo_web_facts get_text)
  moreover have "mHttpConnectionTimeout demo_server
      < at_second (moment_at 99 (\<lambda>k. k)) - uint (hasSurvivedTime (conn_data_of (moment_at 1 (\<lambda>k. k)) demo_web))"
    "0 \<le> mHttpConnectionTimeout demo_server"
    by (simp_all add: demo_server_def conn_data_of_def demo_web_facts getDataFromTcpConn_def moment_at_def)
  ultimately show ?thesis
    using late_write_complete_leaks [OF demo_libs_ok demo_web_facts(1-4) _ _ moments(1)] by blast
qed

text \<open>A server whose callback makes every response the same, so that its length is known.\<close>

definition plain_server :: "nat http_server" where
  "plain_server = FHttpServer.demo_server\<lparr>mPreSendCallback := Some (\<lambda>_ _. FHttpResponse_new)\<rparr>"

lemma plain_server_answer:
  assumes "answers_request L plain_server rb resp"
  shows "length (rs_toString resp) = 59"
proof -
  obtain q rs where "resp = preProcessHttpRequestSend plain_server q rs"
    using assms handle_result unfolding answers_request_def by metis
  moreover have "preProcessHttpRequestSend plain_server q rs = preProcessHttpRequestSend plain_server (demo_request []) FHttpResponse_new"
    by (simp add: preProcessHttpRequestSend_def plain_server_def Let_def FHttpResponse_new_def rs_setHttpVersion_def rs_addHeader_def)
  moreover have "length (rs_toString (preProcessHttpRequestSend plain_server (demo_request []) FHttpResponse_new)) = 59"
    by code_simp
  ultimately show ?thesis by simp
qed

theorem large_answer_loses_bytes_witness:
  "\<exists>c1 c2 resp acts. run_event demo_libs plain_server (moment_at 1 (\<lambda>k. k - 4)) demo_web
      (Readable (Some (rb_build (get_request ''/nope'' []))) False) = (False, c1, [TA_Sent (take 55 (rs_toString resp))])
    \<and> run_event demo_libs plain_server (moment_at 1 (\<lambda>k. k)) c1 (Writable (Some 1)) = (False, c2, acts)
    \<and> sent_bytes acts = take 1 (drop 55 (rs_toString resp)) \<and> readable (outBuffer c2) = drop 57 (rs_toString resp)"
proof -
  have "builder_ok (get_request ''/nope'' [])" using get_request_ok(1) [of "''/nope''"] by (simp add: line_text_def)
  moreover have "fb_room (inBuffer demo_web) (length (rb_build (get_request ''/nope'' [])))"
    by (simp add: fb_room_def demo_web_facts get_text)
  ultimately obtain c1 resp k where k: "run_event demo_libs plain_server (moment_at 1 (\<lambda>k. k - 4)) demo_web
        (Readable (Some (rb_build (get_request ''/nope'' []))) False) = (False, c1, [TA_Sent (take k (rs_toString resp))])"
      "answers_request demo_libs plain_server (get_request ''/nope'' []) resp"
      "krnl_send (moment_at 1 (\<lambda>k. k - 4)) (rs_toString resp) = Accepted k"
    and flush: "\<And>n. 0 < n \<Longrightarrow> k + 2 * n \<le> length (rs_toString resp) \<Longrightarrow> fb_room (outBuffer demo_web) (length (rs_toString resp)) \<Longrightarrow>
        \<exists>c2 acts. run_event demo_libs plain_server (moment_at 1 (\<lambda>k. k)) c1 (Writable (Some n)) = (False, c2, acts)
           \<and> sent_bytes acts = take n (drop k (rs_toString resp))
           \<and> readable (outBuffer c2) = drop (k + 2 * n) (rs_toString resp)"
    using large_answer_loses_bytes [OF demo_libs_ok demo_web_facts(1,2) _ moments(3)] by blast
  have len: "length (rs_toString resp) = 59" by (rule plain_server_answer [OF k(2)])
  then have "k = 55" using k(3) by (simp add: moment_at_def)
  moreover have "fb_room (outBuffer demo_web) (length (rs_toString resp))"
    by (simp add: len fb_room_def demo_web_facts)
  ultimately show ?thesis using k(1) flush [of 1] len by fastforce
qed

end
