(* ===== verification/FLogin.thy ===== *)
theory FLogin
  imports FSession
begin

text \<open>
  The login as the event loops run it (\<open>Server/src/Service/AdminLogin.cpp\<close>): several attempts at the same
  time, on one object whose members are two atomics and a time point without a mutex. Every access to a
  member is a step of its own, in the order of \<open>isOnLock\<close> and \<open>Login\<close> as \<open>AdminController::Login\<close> calls
  them; the reading of a clock is a step too. The session manager's \<open>addSession\<close> is one step. The theory
  shows what an attempt does when it is alone (\<open>FSession\<close>'s \<open>try_login\<close>), and what overlapping attempts
  can do to the lock.
\<close>

section \<open>The single accesses\<close>

text \<open>Where an attempt stands: before the step that is named, and at the end \<open>Turned_away\<close> where the
  credentials were not compared, or the answer. The session identifier is empty before \<open>Login\<close> makes one,
  so its test for an existing session does nothing.\<close>

datatype login_pc =
    Test_lock | Read_clock | Read_lock_time int | Clear_lock | Clear_failures
  | Test_locked | Compare | Reset_failures | Add_session | Count_failure
  | Test_limit bool string | Set_lock bool string | Read_lock_clock bool string
  | Set_lock_time bool string int | Clear_count bool string
  | Turned_away | Answered bool string

record login_attempt =
  at_pc :: login_pc
  at_user :: string
  at_password :: string
  at_draws :: "u8 list list"

text \<open>A step: \<open>None\<close> where there is none, the attempt being over or the random source dry. \<open>now\<close> is what the
  clock says if it is read.\<close>

definition isOnLock_step :: "int \<Rightarrow> login_pc \<Rightarrow> admin_login \<Rightarrow> (login_pc \<times> admin_login) option" where
  "isOnLock_step now pc a =
     (case pc of
        Test_lock \<Rightarrow> Some (if mIsLocked a then Read_clock else Test_locked, a)
      | Read_clock \<Rightarrow> Some (Read_lock_time now, a)
      | Read_lock_time time \<Rightarrow> Some (if 60 < minutes_between time (mLockTime a) then Clear_lock else Turned_away, a)
      | Clear_lock \<Rightarrow> Some (Clear_failures, a\<lparr>mIsLocked := False\<rparr>)
      | Clear_failures \<Rightarrow> Some (Test_locked, a\<lparr>mFailedCount := 0\<rparr>)
      | _ \<Rightarrow> None)"

definition Login_step :: "('c, string, session_data) tbb_ops \<Rightarrow> int \<Rightarrow> login_attempt \<Rightarrow> 'c session_manager \<Rightarrow> admin_login \<Rightarrow>
    (login_pc \<times> 'c session_manager \<times> admin_login) option" where
  "Login_step T now t m a =
     (case at_pc t of
        Test_locked \<Rightarrow> Some (if mIsLocked a then Turned_away else Compare, m, a)
      | Compare \<Rightarrow> Some (if at_user t = mUserName a \<and> at_password t = mPassword a then Reset_failures else Count_failure, m, a)
      | Reset_failures \<Rightarrow> Some (Add_session, m, a\<lparr>mFailedCount := 0\<rparr>)
      | Add_session \<Rightarrow>
          (case addSession T m now (at_draws t) of
             None \<Rightarrow> None
           | Some (i, m') \<Rightarrow> Some (Test_limit True i, m', a))
      | Count_failure \<Rightarrow> Some (Test_limit False [], m, a\<lparr>mFailedCount := mFailedCount a + 1\<rparr>)
      | Test_limit ok i \<Rightarrow> Some (if sMaxErrorTime \<le> mFailedCount a then Set_lock ok i else Answered ok i, m, a)
      | Set_lock ok i \<Rightarrow> Some (Read_lock_clock ok i, m, a\<lparr>mIsLocked := True\<rparr>)
      | Read_lock_clock ok i \<Rightarrow> Some (Set_lock_time ok i now, m, a)
      | Set_lock_time ok i time \<Rightarrow> Some (Clear_count ok i, m, a\<lparr>mLockTime := time\<rparr>)
      | Clear_count ok i \<Rightarrow> Some (Answered ok i, m, a\<lparr>mFailedCount := 0\<rparr>)
      | _ \<Rightarrow> None)"

text \<open>\<open>AdminController::Login\<close> calls one after the other.\<close>

definition attempt_step :: "('c, string, session_data) tbb_ops \<Rightarrow> int \<Rightarrow> login_attempt \<Rightarrow> 'c session_manager \<times> admin_login \<Rightarrow>
    (login_pc \<times> 'c session_manager \<times> admin_login) option" where
  "attempt_step T now t s =
     (let (m, a) = s
      in case isOnLock_step now (at_pc t) a of
           Some (pc, a') \<Rightarrow> Some (pc, m, a')
         | None \<Rightarrow> Login_step T now t m a)"

lemmas attempt_steps = attempt_step_def isOnLock_step_def Login_step_def

text \<open>The attempts under way; any of them makes the next step.\<close>

record 'c login_world =
  lw_sessions :: "'c session_manager"
  lw_admin :: admin_login
  lw_attempts :: "login_attempt list"

inductive login_step :: "('c, string, session_data) tbb_ops \<Rightarrow> int \<Rightarrow> 'c login_world \<Rightarrow> 'c login_world \<Rightarrow> bool" for T now where
  one_steps: "i < length ts \<Longrightarrow> attempt_step T now (ts ! i) (m, a) = Some (pc, m', a') \<Longrightarrow>
    login_step T now \<lparr>lw_sessions = m, lw_admin = a, lw_attempts = ts\<rparr>
      \<lparr>lw_sessions = m', lw_admin = a', lw_attempts = ts[i := (ts ! i)\<lparr>at_pc := pc\<rparr>]\<rparr>"

section \<open>An attempt that is alone\<close>

text \<open>Up to \<open>n\<close> steps of one attempt, until it is over.\<close>

fun steps_alone :: "('c, string, session_data) tbb_ops \<Rightarrow> int \<Rightarrow> nat \<Rightarrow> login_attempt \<Rightarrow> 'c session_manager \<Rightarrow> admin_login \<Rightarrow>
    (login_attempt \<times> 'c session_manager \<times> admin_login) option" where
  "steps_alone T now 0 t m a = Some (t, m, a)"
| "steps_alone T now (Suc n) t m a =
     (case at_pc t of
        Turned_away \<Rightarrow> Some (t, m, a)
      | Answered _ _ \<Rightarrow> Some (t, m, a)
      | _ \<Rightarrow> (case attempt_step T now t (m, a) of
                None \<Rightarrow> None
              | Some (pc, m', a') \<Rightarrow> steps_alone T now n (t\<lparr>at_pc := pc\<rparr>) m' a'))"

lemma alone_run:
  assumes "steps_alone T now n (ts ! i) m a = Some (t', m', a')" "i < length ts"
  shows "(login_step T now)\<^sup>*\<^sup>* \<lparr>lw_sessions = m, lw_admin = a, lw_attempts = ts\<rparr>
    \<lparr>lw_sessions = m', lw_admin = a', lw_attempts = ts[i := t']\<rparr>"
  using assms
proof (induction n arbitrary: ts m a)
  case 0
  then show ?case by auto
next
  case (Suc n)
  show ?case
  proof (cases "attempt_step T now (ts ! i) (m, a)")
    case None
    then have "t' = ts ! i \<and> m' = m \<and> a' = a" using Suc.prems(1) by (auto split: login_pc.splits)
    then show ?thesis by simp
  next
    case (Some r)
    obtain pc m1 a1 where r: "r = (pc, m1, a1)" by (cases r)
    let ?ts = "ts[i := (ts ! i)\<lparr>at_pc := pc\<rparr>]"
    have "steps_alone T now n (?ts ! i) m1 a1 = Some (t', m', a')"
      using Suc.prems Some r by (auto simp: attempt_steps split: login_pc.splits)
    from Suc.IH [OF this] Suc.prems(2)
    have "(login_step T now)\<^sup>*\<^sup>* \<lparr>lw_sessions = m1, lw_admin = a1, lw_attempts = ?ts\<rparr>
        \<lparr>lw_sessions = m', lw_admin = a', lw_attempts = ts[i := t']\<rparr>" by simp
    with one_steps [OF Suc.prems(2) Some [unfolded r]] show ?thesis by (rule converse_rtranclp_into_rtranclp)
  qed
qed

lemma steps_numeral [simp]:
  "steps_alone T now (numeral k) t m a =
     (case at_pc t of
        Turned_away \<Rightarrow> Some (t, m, a)
      | Answered _ _ \<Rightarrow> Some (t, m, a)
      | _ \<Rightarrow> (case attempt_step T now t (m, a) of
                None \<Rightarrow> None
              | Some (pc, m', a') \<Rightarrow> steps_alone T now (pred_numeral k) (t\<lparr>at_pc := pc\<rparr>) m' a'))"
  by (simp only: numeral_eq_Suc steps_alone.simps)

text \<open>The answer and the session identifier of an attempt that is over.\<close>

fun answer_of :: "login_pc \<Rightarrow> (bool \<times> string) option" where
  "answer_of (Answered ok i) = Some (ok, i)"
| "answer_of Turned_away = Some (False, [])"
| "answer_of _ = None"

lemma limit_after_one [simp]: "sMaxErrorTime \<noteq> 0" "\<not> sMaxErrorTime \<le> 1"
  by (simp_all add: sMaxErrorTime_def word_le_nat_alt)

text \<open>
  An attempt during which no other makes a step is \<open>try_login\<close>: it is over after at most ten steps, with
  the same answer, the same sessions and the same state of the lock, unless the random source runs dry.
\<close>
theorem attempt_alone:
  assumes "at_pc t = Test_lock"
  shows "map_option (\<lambda>(t', m', a'). (answer_of (at_pc t'), m', a')) (steps_alone T now 10 t m a)
    = map_option (\<lambda>(ok, i, m', a'). (Some (ok, i), m', a')) (try_login T m a now (at_draws t) (at_user t) (at_password t))"
  using assms by (auto simp: attempt_steps try_login_def isOnLock_def Login_def split: option.splits)

section \<open>Attempts that overlap\<close>

definition wrong_for :: "admin_login \<Rightarrow> login_attempt \<Rightarrow> bool" where
  "wrong_for a t \<longleftrightarrow> \<not> (at_user t = mUserName a \<and> at_password t = mPassword a)"

lemma compared_meanwhile:
  assumes "\<not> mIsLocked a" "\<forall>t \<in> set ts. at_pc t = Test_lock \<and> wrong_for a t"
  shows "(login_step T now)\<^sup>*\<^sup>* \<lparr>lw_sessions = m, lw_admin = a, lw_attempts = us @ ts\<rparr>
    \<lparr>lw_sessions = m, lw_admin = a, lw_attempts = us @ map (at_pc_update (\<lambda>_. Count_failure)) ts\<rparr>"
  using assms(2)
proof (induction ts arbitrary: us)
  case (Cons t ts)
  have "steps_alone T now 3 ((us @ t # ts) ! length us) m a = Some (t\<lparr>at_pc := Count_failure\<rparr>, m, a)"
    using Cons.prems assms(1) by (auto simp: attempt_steps wrong_for_def)
  from alone_run [OF this]
  have "(login_step T now)\<^sup>*\<^sup>* \<lparr>lw_sessions = m, lw_admin = a, lw_attempts = us @ t # ts\<rparr>
      \<lparr>lw_sessions = m, lw_admin = a, lw_attempts = (us @ [t\<lparr>at_pc := Count_failure\<rparr>]) @ ts\<rparr>" by simp
  with Cons.IH [of "us @ [t\<lparr>at_pc := Count_failure\<rparr>]"] Cons.prems show ?case
    by (simp add: rtranclp_trans)
qed simp

lemma lock_undone:
  assumes "mIsLocked a" "60 < minutes_between now (mLockTime a)" "i < length ts" "j < length ts" "i \<noteq> j"
    "at_pc (ts ! i) = Read_lock_clock ok s" "at_pc (ts ! j) = Test_lock" "wrong_for a (ts ! j)"
  shows "(login_step T now)\<^sup>*\<^sup>* \<lparr>lw_sessions = m, lw_admin = a, lw_attempts = ts\<rparr>
    \<lparr>lw_sessions = m, lw_admin = a\<lparr>mIsLocked := False, mLockTime := now, mFailedCount := 0\<rparr>,
     lw_attempts = ts[j := (ts ! j)\<lparr>at_pc := Answered False []\<rparr>, i := (ts ! i)\<lparr>at_pc := Answered ok s\<rparr>]\<rparr>"
proof -
  let ?ts = "ts[j := (ts ! j)\<lparr>at_pc := Answered False []\<rparr>]" and ?a = "a\<lparr>mIsLocked := False, mFailedCount := 1\<rparr>"
  have "steps_alone T now 10 (ts ! j) m a = Some ((ts ! j)\<lparr>at_pc := Answered False []\<rparr>, m, ?a)"
    using assms(1,2,7,8) by (auto simp: attempt_steps wrong_for_def)
  from alone_run [OF this assms(4)]
  have "(login_step T now)\<^sup>*\<^sup>* \<lparr>lw_sessions = m, lw_admin = a, lw_attempts = ts\<rparr>
      \<lparr>lw_sessions = m, lw_admin = ?a, lw_attempts = ?ts\<rparr>" .
  moreover have "steps_alone T now 3 (?ts ! i) m ?a = Some ((ts ! i)\<lparr>at_pc := Answered ok s\<rparr>, m,
      a\<lparr>mIsLocked := False, mLockTime := now, mFailedCount := 0\<rparr>)"
    using assms(5,6) by (simp add: attempt_steps)
  from alone_run [OF this] assms(3)
  have "(login_step T now)\<^sup>*\<^sup>* \<lparr>lw_sessions = m, lw_admin = ?a, lw_attempts = ?ts\<rparr>
      \<lparr>lw_sessions = m, lw_admin = a\<lparr>mIsLocked := False, mLockTime := now, mFailedCount := 0\<rparr>,
       lw_attempts = ?ts[i := (ts ! i)\<lparr>at_pc := Answered ok s\<rparr>]\<rparr>" by simp
  ultimately show ?thesis by (rule rtranclp_trans)
qed


definition guess :: "nat \<Rightarrow> login_attempt" where
  "guess n = \<lparr>at_pc = Test_lock, at_user = ''admin'', at_password = to_string n, at_draws = []\<rparr>"

definition fresh_admin :: admin_login where
  "fresh_admin = \<lparr>mUserName = ''admin'', mPassword = ''admin'', mIsLocked = False, mFailedCount = 0, mLockTime = 0\<rparr>"

lemma guesses_wrong: "\<forall>t \<in> set (map guess ns). at_pc t = Test_lock \<and> wrong_for fresh_admin t"
proof -
  have "to_string n \<noteq> ''admin''" for n using to_string_digits [of n] by (auto simp: isdigit_code)
  then show ?thesis by (auto simp: guess_def wrong_for_def fresh_admin_def)
qed


end
