(* ===== verification/FServerLife.thy ===== *)
theory FServerLife
  imports FLogger FTcp
begin

text \<open>
  The life of the program's single objects (\<open>FeiLib/include/FSingleton.h\<close>, \<open>Server/src/Utils/Singleton.h\<close>):
  which of them the constructor of the server and the library make, in which order, what their constructors need of
  one another, and what the destructors give back (\<open>Server/src/Server/server.cpp\<close>,
  \<open>FeiLib/src/FeiLibIniter.cpp\<close>, \<open>FTcpServer.cpp\<close>, \<open>FHttpServer.cpp\<close>, \<open>FRouter.cpp\<close>), and \<open>LoadDB\<close> of
  \<open>DataBaseOperation.cpp\<close>, the step of the start that may end the process; then the ports and tick events that
  the blog's server gives to \<open>FHttpServer\<close>, and this to \<open>FTcpServer\<close>.
\<close>

section \<open>Single objects\<close>

datatype single =
  Sg_FConfigReader | Sg_Logger | Sg_FSSLEnv | Sg_FRouter
| Sg_DatabaseOperation | Sg_BlogData | Sg_FileCache | Sg_SessionManager | Sg_AdminLogin | Sg_TemplateRender | Sg_RssBuilder

text \<open>The pointers \<open>sInstance\<close>, one per class, and the objects that exist, with numbers for addresses.\<close>

record singles =
  sInstance :: "single \<Rightarrow> nat option"
  sg_objects :: "(nat \<times> single) list"
  sg_next :: nat

definition no_singles :: singles where
  "no_singles = \<lparr>sInstance = (\<lambda>_. None), sg_objects = [], sg_next = 0\<rparr>"

datatype life_fault =
  Double_new single
| No_instance single
| Double_ssl_init
| Process_aborted

text \<open>The constructor and the destructor; \<open>ndebug\<close> takes out the assertions.\<close>

definition FSingleton_new :: "bool \<Rightarrow> single \<Rightarrow> singles \<Rightarrow> life_fault + singles" where
  "FSingleton_new ndebug T s =
     (if \<not> ndebug \<and> sInstance s T \<noteq> None then Inl (Double_new T)
      else Inr (s\<lparr>sInstance := (sInstance s)(T := Some (sg_next s)), sg_objects := (sg_next s, T) # sg_objects s,
                  sg_next := sg_next s + 1\<rparr>))"

definition FSingleton_valid :: "single \<Rightarrow> singles \<Rightarrow> bool" where
  "FSingleton_valid T s \<longleftrightarrow> sInstance s T \<noteq> None"

text \<open>A member call on \<open>instance()\<close>: without an object the assertion fails, or the pointer is null.\<close>

definition FSingleton_use :: "single \<Rightarrow> singles \<Rightarrow> life_fault + singles" where
  "FSingleton_use T s = (if sInstance s T = None then Inl (No_instance T) else Inr s)"

text \<open>\<open>delete T::instance()\<close>; deleting a null pointer does nothing.\<close>

definition FSingleton_delete :: "bool \<Rightarrow> single \<Rightarrow> singles \<Rightarrow> life_fault + singles" where
  "FSingleton_delete ndebug T s =
     (case sInstance s T of
        None \<Rightarrow> if ndebug then Inr s else Inl (No_instance T)
      | Some k \<Rightarrow> Inr (s\<lparr>sInstance := (sInstance s)(T := None),
                        sg_objects := filter (\<lambda>ob. fst ob \<noteq> k) (sg_objects s)\<rparr>))"

section \<open>Start and end\<close>

datatype life_op =
  New single
| New_unless_valid single
| Use single
| Delete single
| Delete_if_valid single
| Throw_if_valid single
| Critical_unless bool

fun run_life_op :: "bool \<Rightarrow> logger \<Rightarrow> life_op \<Rightarrow> singles \<Rightarrow> life_fault + singles" where
  "run_life_op ndebug lg (New T) s = FSingleton_new ndebug T s"
| "run_life_op ndebug lg (New_unless_valid T) s = (if FSingleton_valid T s then Inr s else FSingleton_new ndebug T s)"
| "run_life_op ndebug lg (Use T) s = FSingleton_use T s"
| "run_life_op ndebug lg (Delete T) s = FSingleton_delete ndebug T s"
| "run_life_op ndebug lg (Delete_if_valid T) s = (if FSingleton_valid T s then FSingleton_delete ndebug T s else Inr s)"
| "run_life_op ndebug lg (Throw_if_valid T) s = (if FSingleton_valid T s then Inl Double_ssl_init else Inr s)"
| "run_life_op ndebug lg (Critical_unless ok) s = (if \<not> ok \<and> critical_aborts lg then Inl Process_aborted else Inr s)"

fun run_life :: "bool \<Rightarrow> logger \<Rightarrow> life_op list \<Rightarrow> singles \<Rightarrow> life_fault + singles" where
  "run_life ndebug lg [] s = Inr s"
| "run_life ndebug lg (a # as) s =
     (case run_life_op ndebug lg a s of Inl e \<Rightarrow> Inl e | Inr s1 \<Rightarrow> run_life ndebug lg as s1)"

text \<open>The parts, each in the order of its code. A constructor's base, the single object, comes first; a
  destructor's comes last. A \<open>Use\<close> is listed when some path of the code calls on the object, so that a sequence
  without a fault has none on the shorter paths either.\<close>

definition FeiLibInit_life :: "life_op list" where
  "FeiLibInit_life = [New Sg_FConfigReader, Use Sg_FConfigReader, New Sg_Logger, Use Sg_Logger]"

definition FeiLibUnInit_life :: "life_op list" where
  "FeiLibUnInit_life = [Use Sg_Logger, Delete Sg_Logger, Delete Sg_FConfigReader]"

text \<open>\<open>tls_ok\<close>: there is a context after the constructor of the environment.\<close>

definition initSSLenv_life :: "bool \<Rightarrow> life_op list" where
  "initSSLenv_life tls_ok =
     [Throw_if_valid Sg_FSSLEnv, New Sg_FSSLEnv, Use Sg_FConfigReader, Use Sg_Logger, Use Sg_FSSLEnv]
     @ (if \<not> tls_ok then [Delete Sg_FSSLEnv] else [])"

definition deinitSSLenv_life :: "life_op list" where
  "deinitSSLenv_life = [Delete_if_valid Sg_FSSLEnv]"

text \<open>\<open>LoadDB\<close> opens the database for reading and writing, not to create it; a failure is a critical
  message. Closing it may fail too, which is only logged.\<close>

definition LoadDB_life :: "bool \<Rightarrow> bool \<Rightarrow> life_op list" where
  "LoadDB_life opened closed =
     [Use Sg_DatabaseOperation] @ (if \<not> opened then [Use Sg_Logger, Critical_unless False] else [])
     @ (if \<not> closed then [Use Sg_Logger] else [])"

definition FHttpServer_life :: "life_op list" where
  "FHttpServer_life = [New_unless_valid Sg_FRouter, Use Sg_FRouter, Use Sg_FConfigReader, Use Sg_Logger]"

definition FHttpServer_destroy_life :: "life_op list" where
  "FHttpServer_destroy_life = [Delete_if_valid Sg_FRouter]"

definition Server_new_life :: "bool \<Rightarrow> bool \<Rightarrow> bool \<Rightarrow> life_op list" where
  "Server_new_life tls_ok opened closed =
     FeiLibInit_life @ initSSLenv_life tls_ok
     @ [Use Sg_FConfigReader, New Sg_DatabaseOperation] @ LoadDB_life opened closed
     @ [Use Sg_FConfigReader,
        New Sg_BlogData, Use Sg_DatabaseOperation,
        New Sg_FileCache,
        New Sg_SessionManager, Use Sg_FConfigReader,
        New Sg_AdminLogin, Use Sg_FConfigReader, Use Sg_Logger,
        New Sg_TemplateRender,
        New Sg_RssBuilder, Use Sg_DatabaseOperation]
     @ FHttpServer_life
     @ [Use Sg_DatabaseOperation, Use Sg_Logger]"

definition Server_destroy_life :: "life_op list" where
  "Server_destroy_life =
     FHttpServer_destroy_life
     @ [Delete Sg_TemplateRender, Delete Sg_DatabaseOperation, Delete Sg_AdminLogin, Delete Sg_SessionManager,
        Delete Sg_BlogData, Use Sg_Logger]
     @ deinitSSLenv_life @ FeiLibUnInit_life"

text \<open>A task of the image pool: after reading the picture it writes the dimensions.\<close>

definition image_task_life :: "life_op list" where
  "image_task_life = [Use Sg_DatabaseOperation]"

section \<open>Properties\<close>

lemmas life_defs =
  Server_new_life_def Server_destroy_life_def FeiLibInit_life_def FeiLibUnInit_life_def initSSLenv_life_def
  deinitSSLenv_life_def LoadDB_life_def FHttpServer_life_def FHttpServer_destroy_life_def
  FSingleton_new_def FSingleton_valid_def FSingleton_use_def FSingleton_delete_def

text \<open>The state of a program in which static objects may already have made the router.\<close>

definition before_main :: "bool \<Rightarrow> singles" where
  "before_main router = (if router then \<lparr>sInstance = (\<lambda>_. None)(Sg_FRouter := Some 0), sg_objects = [(0, Sg_FRouter)], sg_next = 1\<rparr>
                         else no_singles)"

lemma run_life_append:
  "run_life ndebug lg (as @ bs) s =
     (case run_life ndebug lg as s of Inl e \<Rightarrow> Inl e | Inr s1 \<Rightarrow> run_life ndebug lg bs s1)"
  by (induction as arbitrary: s) (auto split: sum.split)

lemma destroy_life_list:
  "Server_destroy_life =
     [Delete_if_valid Sg_FRouter, Delete Sg_TemplateRender, Delete Sg_DatabaseOperation, Delete Sg_AdminLogin,
      Delete Sg_SessionManager, Delete Sg_BlogData, Use Sg_Logger, Delete_if_valid Sg_FSSLEnv,
      Use Sg_Logger, Delete Sg_Logger, Delete Sg_FConfigReader]"
  by (simp add: Server_destroy_life_def FHttpServer_destroy_life_def deinitSSLenv_life_def FeiLibUnInit_life_def)

text \<open>Only a construction makes an object live again.\<close>

lemma no_revival:
  "run_life ndebug lg as s = Inr s' \<Longrightarrow> sInstance s T = None \<Longrightarrow> New T \<notin> set as \<Longrightarrow> New_unless_valid T \<notin> set as
   \<Longrightarrow> sInstance s' T = None"
proof (induction as arbitrary: s)
  case (Cons a as)
  then obtain s1 where s1: "run_life_op ndebug lg a s = Inr s1" "run_life ndebug lg as s1 = Inr s'"
    by (auto split: sum.splits)
  have "sInstance s1 T = None"
    using s1(1) Cons.prems
    by (cases a) (auto simp: life_defs split: if_splits option.splits)
  then show ?case using Cons s1(2) by simp
qed simp

lemma one_server:
  "\<exists>s1 s2. run_life ndebug lg (Server_new_life tls_ok True closed) (before_main router) = Inr s1
    \<and> run_life ndebug lg Server_destroy_life s1 = Inr s2
    \<and> map snd (sg_objects s2) = [Sg_RssBuilder, Sg_FileCache]"
  by (cases tls_ok; cases closed; cases router) (auto simp: life_defs before_main_def no_singles_def)

lemma one_server_database:
  assumes "run_life ndebug lg (Server_new_life tls_ok True closed) (before_main router) = Inr s1"
    "run_life ndebug lg (take p Server_destroy_life) s1 = Inr s3" "p \<le> 2"
  shows "sInstance s3 Sg_DatabaseOperation \<noteq> None"
proof -
  have "sInstance s1 Sg_DatabaseOperation \<noteq> None"
    using assms(1) by (cases tls_ok; cases closed; cases router) (auto simp: life_defs before_main_def no_singles_def)
  moreover have "p = 0 \<or> p = 1 \<or> p = 2" using assms(3) by auto
  ultimately show ?thesis
    using assms(2) by (auto simp: destroy_life_list FSingleton_delete_def FSingleton_valid_def split: if_splits option.splits sum.splits)
qed

text \<open>
  One server in a process: whatever the build, with or without TLS and whether or not static objects made the
  router, the constructor finds every object it needs and makes none twice, the destructor finds
  what it deletes; the file cache and the feed builder are never deleted, and nothing else is left.
\<close>
theorem server_life:
  "\<exists>s1 s2. run_life ndebug lg (Server_new_life tls_ok True closed) (before_main router) = Inr s1
    \<and> run_life ndebug lg Server_destroy_life s1 = Inr s2
    \<and> map snd (sg_objects s2) = [Sg_RssBuilder, Sg_FileCache]
    \<and> (\<forall>T. sInstance s2 T \<noteq> None \<longleftrightarrow> T = Sg_RssBuilder \<or> T = Sg_FileCache)"
  by (cases tls_ok; cases closed; cases router) (auto simp: life_defs before_main_def no_singles_def)

text \<open>
  A database that cannot be opened at the start is a critical message: it ends the process when the
  logger writes such messages, and otherwise the start goes on as if the database were there.
\<close>
theorem missing_database_at_start:
  "run_life ndebug lg (Server_new_life tls_ok False closed) (before_main router) =
     (if critical_aborts lg then Inl Process_aborted
      else run_life ndebug lg (Server_new_life tls_ok True closed) (before_main router))"
  by (cases tls_ok; cases closed; cases router) (auto simp: life_defs before_main_def no_singles_def)

text \<open>
  A second server after the first was destroyed: its constructor fails the assertion of the file cache, or, without
  assertions, makes a second cache and a second feed builder, so each server leaves two objects behind.
\<close>
theorem second_server:
  "run_life False lg (Server_new_life t1 True c1 @ Server_destroy_life @ Server_new_life t2 True c2) (before_main router)
     = Inl (Double_new Sg_FileCache)
   \<and> (\<exists>s. run_life True lg (Server_new_life t1 True c1 @ Server_destroy_life
                               @ Server_new_life t2 True c2 @ Server_destroy_life) (before_main router) = Inr s
        \<and> map snd (sg_objects s) = [Sg_RssBuilder, Sg_FileCache, Sg_RssBuilder, Sg_FileCache])"
  by (cases t1; cases c1; cases t2; cases c2; cases router) (auto simp: life_defs before_main_def no_singles_def)

text \<open>
  A task of the image pool may still run while the server is destroyed, and after it: the pool is a static
  object, whose destructor runs the tasks that are left. The task that runs after the first \<open>p\<close> steps of the
  destructor finds the database exactly if none of these steps deleted it.
\<close>
theorem image_task_window:
  "case run_life ndebug lg (Server_new_life tls_ok True closed @ take p Server_destroy_life @ image_task_life
                                  @ drop p Server_destroy_life) (before_main router) of
           Inl e \<Rightarrow> e = No_instance Sg_DatabaseOperation \<and> 3 \<le> p
         | Inr s \<Rightarrow> map snd (sg_objects s) = [Sg_RssBuilder, Sg_FileCache] \<and> p \<le> 2"
proof -
  let ?D = Server_destroy_life
  obtain s1 s2 where new: "run_life ndebug lg (Server_new_life tls_ok True closed) (before_main router) = Inr s1"
      and D: "run_life ndebug lg ?D s1 = Inr s2" "map snd (sg_objects s2) = [Sg_RssBuilder, Sg_FileCache]"
    using one_server [of ndebug lg tls_ok closed router] by auto
  obtain s3 where s3: "run_life ndebug lg (take p ?D) s1 = Inr s3" "run_life ndebug lg (drop p ?D) s3 = Inr s2"
    using D(1) run_life_append [of ndebug lg "take p ?D" "drop p ?D" s1] by (auto split: sum.splits)
  have "sInstance s3 Sg_DatabaseOperation = None" if "3 \<le> p"
  proof -
    have split: "take p ?D = take 3 ?D @ take (p - 3) (drop 3 ?D)"
      using that by (metis le_add_diff_inverse take_add)
    then obtain s where s: "run_life ndebug lg (take 3 ?D) s1 = Inr s" "run_life ndebug lg (take (p - 3) (drop 3 ?D)) s = Inr s3"
      using s3(1) by (auto simp: run_life_append split: sum.splits)
    have "sInstance s Sg_DatabaseOperation = None"
      using s(1) by (auto simp: destroy_life_list FSingleton_delete_def split: sum.splits if_splits option.splits)
    then show ?thesis
      by (rule no_revival [OF s(2)]) (auto simp: destroy_life_list dest: in_set_takeD)
  qed
  moreover have "sInstance s3 Sg_DatabaseOperation \<noteq> None" if "p \<le> 2"
    by (rule one_server_database [OF new s3(1) that])
  moreover have "3 \<le> p \<or> p \<le> 2" by arith
  ultimately show ?thesis
    using new s3 D(2) by (auto simp: run_life_append image_task_life_def FSingleton_use_def)
qed

section \<open>The wiring of the servers\<close>

text \<open>The functions that the blog has ticked: the sweep of the route cache, which \<open>FHttpServer\<close> registers, and
  those of \<open>Server::init\<close>; their numbers stand for the function objects.\<close>

datatype tick_event = Tick_routes | Tick_files | Tick_sessions | Tick_counters | Tick_templates

fun tick_number :: "tick_event \<Rightarrow> nat" where
  "tick_number Tick_routes = 0" | "tick_number Tick_files = 1" | "tick_number Tick_sessions = 2"
| "tick_number Tick_counters = 3" | "tick_number Tick_templates = 4"

text \<open>\<open>FHttpServer\<close> over its TCP server: the constructor keeps the identifier of its tick event, the operations pass
  on, the destructor removes that event.\<close>

record http_wiring =
  mTcpServer :: tcp_server
  mRouteCacheCleanEventId :: nat

definition tcp_server_new :: tcp_server where
  "tcp_server_new = \<lparr>m_subLoops = 0, m_acceptors = [], m_sslPort = [], m_tcpConns = [], m_tickEvents = [],
     m_tickEventId = 0, IOThread_Chooser = 0\<rparr>"

definition FHttpServer_wire :: "tcp_server \<Rightarrow> http_wiring" where
  "FHttpServer_wire tcp =
     (let (i, tcp1) = addTickEvent tcp (tick_number Tick_routes)
      in \<lparr>mTcpServer = tcp1, mRouteCacheCleanEventId = i\<rparr>)"

definition FHttpServer_unwire :: "http_wiring \<Rightarrow> http_wiring" where
  "FHttpServer_unwire w = w\<lparr>mTcpServer := srv_removeEvent (mTcpServer w) (mRouteCacheCleanEventId w)\<rparr>"

definition http_addListenPort :: "http_wiring \<Rightarrow> u32 \<Rightarrow> http_wiring" where
  "http_addListenPort w port = w\<lparr>mTcpServer := addListenPort (mTcpServer w) port\<rparr>"

definition http_addSSLPort :: "bool \<Rightarrow> http_wiring \<Rightarrow> u32 \<Rightarrow> http_wiring" where
  "http_addSSLPort envSetup w port = w\<lparr>mTcpServer := addSslListenPort envSetup (mTcpServer w) port\<rparr>"

definition http_removeListenPort :: "http_wiring \<Rightarrow> u32 \<Rightarrow> std_error option \<times> http_wiring" where
  "http_removeListenPort w port =
     (let (e, tcp) = removeListenPort (mTcpServer w) port in (e, w\<lparr>mTcpServer := tcp\<rparr>))"

definition addAppTickEvent :: "http_wiring \<Rightarrow> tick_event \<Rightarrow> nat \<times> http_wiring" where
  "addAppTickEvent w event =
     (let (i, tcp) = addTickEvent (mTcpServer w) (tick_number event) in (i, w\<lparr>mTcpServer := tcp\<rparr>))"

definition removeAppTickEvent :: "http_wiring \<Rightarrow> nat \<Rightarrow> http_wiring" where
  "removeAppTickEvent w i = w\<lparr>mTcpServer := srv_removeEvent (mTcpServer w) i\<rparr>"

definition tickAppEvents :: "http_wiring \<Rightarrow> nat list" where
  "tickAppEvents w = tickUserEvent (mTcpServer w)"

text \<open>The ports of the constructor of the blog's server, and \<open>Server::init\<close>.\<close>

definition Server_ports :: "bool \<Rightarrow> http_wiring \<Rightarrow> http_wiring" where
  "Server_ports envSetup w = http_addSSLPort envSetup (http_addListenPort w 80) 443"

definition Server_init :: "http_wiring \<Rightarrow> http_wiring" where
  "Server_init w = foldl (\<lambda>w e. snd (addAppTickEvent w e)) w [Tick_files, Tick_sessions, Tick_counters, Tick_templates]"

lemmas wiring_defs = FHttpServer_wire_def FHttpServer_unwire_def http_addListenPort_def http_addSSLPort_def
  addAppTickEvent_def removeAppTickEvent_def tickAppEvents_def Server_ports_def Server_init_def tcp_server_new_def
  addTickEvent_def srv_removeEvent_def tickUserEvent_def addListenPort_def addSslListenPort_def

text \<open>
  The blog's server listens on port 80, and on 443 exactly if there is a TLS environment; every tick runs the sweep of
  the routes, the files, the sessions, the counters and the templates, each once and in this order. The identifier
  that \<open>init\<close> is given for its \<open>n\<close>-th event is \<open>n\<close>; removing it, or the destructor's removal of the sweep, leaves
  the other events in their order.
\<close>
theorem server_wiring:
  "let w = Server_init (Server_ports tls_ok (FHttpServer_wire tcp_server_new))
   in m_acceptors (mTcpServer w) = (if tls_ok then [80, 443] else [80])
      \<and> m_sslPort (mTcpServer w) = (if tls_ok then [443] else [])
      \<and> tickAppEvents w = map tick_number [Tick_routes, Tick_files, Tick_sessions, Tick_counters, Tick_templates]
      \<and> (\<forall>i. tickAppEvents (removeAppTickEvent w i) = filter (\<lambda>n. n \<noteq> i) [0, 1, 2, 3, 4])
      \<and> tickAppEvents (FHttpServer_unwire w) = map tick_number [Tick_files, Tick_sessions, Tick_counters, Tick_templates]"
  by (cases tls_ok) (auto simp: wiring_defs omap_insert_def Let_def)

end
