(* ===== verification/FRoutes.thy ===== *)
theory FRoutes
  imports FRouter "HOL-Library.Multiset"
begin

text \<open>
  The routes of the blog: the controllers of \<open>Server/src/Controller\<close> with their path prefixes and mappings,
  their registration by static objects before \<open>main\<close> (\<open>ControllerRegisterHelper\<close> of \<open>FController.h\<close>, in an
  order the language leaves open), and what the router then makes of a path. RE2 is a parameter; what
  is relied on is that a full match of literal text and path variables finds the longest texts for
  the variables from left to right (\<open>re2_paths\<close>), for paths of ASCII characters.
\<close>

section \<open>The controllers\<close>

text \<open>The controller functions, and for each controller its name, a number for its address, its path prefixes and
  its \<open>REGISTER_MAPPING_FUNC\<close> lines.\<close>

datatype handler =
  H_Login | H_Post | H_DeletePost | H_Category | H_DeleteCategroy | H_LoginPage
| H_ArticleListPage | H_CategoryPage | H_AlbumPage | H_PhotoPage | H_GetBlog | H_GetCategory
| H_GetAllCategories | H_DoCert | H_PostMessage | H_GetMessageByPage | H_GetMessagePage | H_Err404
| H_getFile | H_Articles | H_ArticleDetail | H_CategoriesDetail | H_Categories | H_About
| H_Links | H_Archive | H_PhotosPage | H_ArchivePage | H_RssXml | H_RobotsTxt
| H_SitemapXml | H_WebManifest | H_FaviconIco | H_toIndex | H_GetAllAlbums | H_GetAlbum
| H_GetPhotosByAlbum | H_GetAllPhotos | H_GetPhoto | H_ViewPhoto | H_PostAlbum | H_DeleteAlbum
| H_PostPhoto | H_DeletePhoto | H_Shutdown

record controller_class =
  cc_name :: string
  cc_ptr :: nat
  cc_prefixes :: "string list"
  cc_mappings :: "(http_method \<times> string \<times> handler) list"

definition AdminController :: controller_class where
  "AdminController = \<lparr>cc_name = ''AdminLogin'', cc_ptr = 1, cc_prefixes = [''/api''],
     cc_mappings =
       [(M_POST, ''/login'', H_Login),
        (M_POST, ''/blog'', H_Post),
        (M_DELET, ''/blog/{id}'', H_DeletePost),
        (M_POST, ''/category'', H_Category),
        (M_DELET, ''/category/{id}'', H_DeleteCategroy)]\<rparr>"

definition BackGroundController :: controller_class where
  "BackGroundController = \<lparr>cc_name = ''BackGroundController'', cc_ptr = 2, cc_prefixes = [''/background''],
     cc_mappings =
       [(M_GET, [], H_LoginPage),
        (M_GET, ''/articles'', H_ArticleListPage),
        (M_GET, ''/categories'', H_CategoryPage),
        (M_GET, ''/albums'', H_AlbumPage),
        (M_GET, ''/photos'', H_PhotoPage)]\<rparr>"

definition BlogController :: controller_class where
  "BlogController = \<lparr>cc_name = ''BlogController'', cc_ptr = 3, cc_prefixes = [''/api''],
     cc_mappings =
       [(M_GET, ''/blog/{id}'', H_GetBlog)]\<rparr>"

definition CategoryController :: controller_class where
  "CategoryController = \<lparr>cc_name = ''CategoryController'', cc_ptr = 4, cc_prefixes = [''/api''],
     cc_mappings =
       [(M_GET, ''/category/{id}'', H_GetCategory),
        (M_GET, ''/categories'', H_GetAllCategories)]\<rparr>"

definition CertBotVerifyController :: controller_class where
  "CertBotVerifyController = \<lparr>cc_name = ''CertBotVerifyController'', cc_ptr = 5, cc_prefixes = [[]],
     cc_mappings =
       [(M_GET, ''/.well-known/acme-challenge/{filename}'', H_DoCert)]\<rparr>"

definition DatabaseTestPageController :: controller_class where
  "DatabaseTestPageController = \<lparr>cc_name = ''DatabaseTestPageController'', cc_ptr = 6, cc_prefixes = [''/test''],
     cc_mappings =
       [(M_POST, ''/message'', H_PostMessage),
        (M_GET, ''/message/page={page}'', H_GetMessageByPage),
        (M_GET, ''/message'', H_GetMessagePage)]\<rparr>"

definition Err404Controller :: controller_class where
  "Err404Controller = \<lparr>cc_name = ''404'', cc_ptr = 7, cc_prefixes = [[]],
     cc_mappings =
       [(M_GET, ''/404'', H_Err404)]\<rparr>"

definition FileController :: controller_class where
  "FileController = \<lparr>cc_name = ''File'', cc_ptr = 8, cc_prefixes = [''/file'', ''/assets''],
     cc_mappings =
       [(M_GET, ''/{name}'', H_getFile)]\<rparr>"

definition FrontGroundController :: controller_class where
  "FrontGroundController = \<lparr>cc_name = ''FrontGroundController'', cc_ptr = 9, cc_prefixes = [[]],
     cc_mappings =
       [(M_GET, ''/realIndex={page}'', H_Articles),
        (M_GET, ''/post/{id}'', H_ArticleDetail),
        (M_GET, ''/category/id={id}&page={page}'', H_CategoriesDetail),
        (M_GET, ''/category/id={id}'', H_CategoriesDetail),
        (M_GET, ''/categories'', H_Categories),
        (M_GET, ''/about'', H_About),
        (M_GET, ''/links'', H_Links),
        (M_GET, ''/api/archive'', H_Archive),
        (M_GET, ''/photos'', H_PhotosPage),
        (M_GET, ''/archives'', H_ArchivePage),
        (M_GET, ''/rss.xml'', H_RssXml),
        (M_GET, ''/robots.txt'', H_RobotsTxt),
        (M_GET, ''/sitemap.xml'', H_SitemapXml),
        (M_GET, ''/site.webmanifest'', H_WebManifest),
        (M_GET, ''/favicon.ico'', H_FaviconIco)]\<rparr>"

definition IndexController :: controller_class where
  "IndexController = \<lparr>cc_name = ''IndexController'', cc_ptr = 10, cc_prefixes = [''/''],
     cc_mappings =
       [(M_GET, [], H_toIndex),
        (M_GET, ''page={page}'', H_toIndex)]\<rparr>"

definition PhotoWallController :: controller_class where
  "PhotoWallController = \<lparr>cc_name = ''PhotoWallController'', cc_ptr = 11, cc_prefixes = [''/api''],
     cc_mappings =
       [(M_GET, ''/albums'', H_GetAllAlbums),
        (M_GET, ''/album/{id}'', H_GetAlbum),
        (M_GET, ''/albums/{id}/photos'', H_GetPhotosByAlbum),
        (M_GET, ''/albums/{id}/photos/page={page}'', H_GetPhotosByAlbum),
        (M_GET, ''/photos'', H_GetAllPhotos),
        (M_GET, ''/photos/page={page}'', H_GetAllPhotos),
        (M_GET, ''/photo/{id}'', H_GetPhoto),
        (M_GET, ''/photo/{id}/view'', H_ViewPhoto),
        (M_POST, ''/album'', H_PostAlbum),
        (M_DELET, ''/album/{id}'', H_DeleteAlbum),
        (M_POST, ''/photo'', H_PostPhoto),
        (M_DELET, ''/photo/{id}'', H_DeletePhoto)]\<rparr>"

definition ServerShutdownController :: controller_class where
  "ServerShutdownController = \<lparr>cc_name = ''ServerShutdownController'', cc_ptr = 12, cc_prefixes = [[]],
     cc_mappings =
       [(M_GET, ''/shutdown'', H_Shutdown)]\<rparr>"

definition blog_controllers :: "controller_class list" where
  "blog_controllers =
     [AdminController, BackGroundController, BlogController, CategoryController,
      CertBotVerifyController, DatabaseTestPageController, Err404Controller, FileController,
      FrontGroundController, IndexController, PhotoWallController, ServerShutdownController]"

section \<open>Registration\<close>

text \<open>\<open>registerMapping\<close> of a controller runs its \<open>REGISTER_MAPPING_FUNC\<close> lines in order.\<close>

fun registerMapping :: "('cm, 'rc, 'oq, handler) router_libs \<Rightarrow> controller_class \<Rightarrow>
    (http_method \<times> string \<times> handler) list \<Rightarrow> ('cm, 'rc, 'oq) router \<Rightarrow> router_error + ('cm, 'rc, 'oq) router" where
  "registerMapping L C [] r = Inr r"
| "registerMapping L C ((m, pattern, func) # ms) r =
     (case registerMappingFunction L r (cc_prefixes C) (cc_name C) pattern m func of
        Inl e \<Rightarrow> Inl e
      | Inr r' \<Rightarrow> registerMapping L C ms r')"

definition ControllerRegisterHelper :: "('cm, 'rc, 'oq, handler) router_libs \<Rightarrow> controller_class \<Rightarrow>
    ('cm, 'rc, 'oq) router \<Rightarrow> router_error + ('cm, 'rc, 'oq) router" where
  "ControllerRegisterHelper L C r =
     (case regController L r (cc_name C) (cc_ptr C) of
        Inl e \<Rightarrow> Inl e
      | Inr (r', _) \<Rightarrow> registerMapping L C (cc_mappings C) r')"

text \<open>The static objects of the translation units, in some order; an exception ends the program.\<close>

fun static_registration :: "('cm, 'rc, 'oq, handler) router_libs \<Rightarrow> controller_class list \<Rightarrow>
    ('cm, 'rc, 'oq) router \<Rightarrow> router_error + ('cm, 'rc, 'oq) router" where
  "static_registration L [] r = Inr r"
| "static_registration L (C # Cs) r =
     (case ControllerRegisterHelper L C r of Inl e \<Rightarrow> Inl e | Inr r' \<Rightarrow> static_registration L Cs r')"

text \<open>What the started server does with its router: it routes, and sweeps the cache.\<close>

datatype router_use = Routed u64 http_method string | Swept u64 u64

fun use_router :: "('cm, 'rc, 'oq, handler) router_libs \<Rightarrow> ('cm, 'rc, 'oq) router \<Rightarrow> router_use \<Rightarrow>
    ('cm, 'rc, 'oq) router" where
  "use_router L r (Routed now method path) = snd (route L now r method path)"
| "use_router L r (Swept clock timeNow) = checkRouteCache L clock r timeNow"

section \<open>Path patterns as RE2 reads them\<close>

text \<open>A pattern of literal text and variables, character by character: as a regular expression a dot stands for
  any character, the other characters of a pattern that is \<open>regex_plain\<close> for themselves, and a variable
  for the longest text without a slash.\<close>

datatype atom = A_chr char | A_var

fun token_atoms :: "ant_token \<Rightarrow> atom list" where
  "token_atoms (T_lit s) = map A_chr s"
| "token_atoms (T_var n) = [A_var]"
| "token_atoms _ = []"

definition regex_plain :: "char \<Rightarrow> bool" where
  "regex_plain c \<longleftrightarrow> c \<notin> set ''^$|?*+()[]{}'' \<and> c \<noteq> CHR 0x5C"

fun plain_token :: "ant_token \<Rightarrow> bool" where
  "plain_token (T_lit s) = list_all regex_plain s"
| "plain_token (T_var n) = True"
| "plain_token _ = False"

fun longest_var :: "(string \<Rightarrow> string list option) \<Rightarrow> string \<Rightarrow> string list option" where
  "longest_var f [] = map_option (Cons []) (f [])"
| "longest_var f (d # p) =
     (if d = CHR ''/'' then map_option (Cons []) (f (d # p))
      else (case longest_var f p of
              Some (v # vs) \<Rightarrow> Some ((d # v) # vs)
            | _ \<Rightarrow> map_option (Cons []) (f (d # p))))"

fun path_match :: "atom list \<Rightarrow> string \<Rightarrow> string list option" where
  "path_match [] p = (if p = [] then Some [] else None)"
| "path_match (A_chr c # as) p =
     (case p of [] \<Rightarrow> None | d # p' \<Rightarrow> if c = CHR ''.'' \<or> c = d then path_match as p' else None)"
| "path_match (A_var # as) p = longest_var (path_match as) p"

definition plain_path :: "string \<Rightarrow> bool" where
  "plain_path p \<longleftrightarrow> list_all (\<lambda>c. (of_char c :: nat) < 128 \<and> c \<noteq> CHR 0x0A) p"

definition re2_paths :: "re2_ops \<Rightarrow> bool" where
  "re2_paths R \<longleftrightarrow> (\<forall>ts p. list_all plain_token ts \<longrightarrow> plain_path p \<longrightarrow>
     re_full_match R (concat (map token_regex ts)) (length (concat (map token_var ts))) p
       = path_match (concat (map token_atoms ts)) p)"

text \<open>A function that behaves so.\<close>

function regex_atoms :: "string \<Rightarrow> atom list" where
  "regex_atoms [] = []"
| "regex_atoms (c # s) = (if c = CHR ''('' then A_var # regex_atoms (drop 6 s) else A_chr c # regex_atoms s)"
  by pat_completeness auto

termination
  by (relation "measure length") auto

definition path_re2 :: re2_ops where
  "path_re2 = scanning_re2 (\<lambda>regex n p. path_match (regex_atoms regex) p)"

lemma regex_atoms_lit: "list_all regex_plain s \<Longrightarrow> regex_atoms (s @ t) = map A_chr s @ regex_atoms t"
  by (induction s) (auto simp: regex_plain_def)

lemma regex_atoms_tokens: "list_all plain_token ts \<Longrightarrow> regex_atoms (concat (map token_regex ts)) = concat (map token_atoms ts)"
proof (induction ts)
  case (Cons t ts)
  then show ?case by (cases t) (auto simp: regex_atoms_lit)
qed simp

lemma path_re2_ok: "re2_ok path_re2" "re2_paths path_re2"
  by (auto simp: path_re2_def scanning_re2_ok re2_paths_def regex_atoms_tokens) (simp add: scanning_re2_def regex_atoms_tokens)

section \<open>The dispatch of the blog\<close>

text \<open>The parts of a pattern, and the table of all routes: method, pattern, function and controller.\<close>

function pattern_tokens :: "string \<Rightarrow> ant_token list" where
  "pattern_tokens [] = []"
| "pattern_tokens (c # s) =
     (if c = CHR ''{''
      then T_var (takeWhile (\<lambda>d. d \<noteq> CHR ''}'') s) # pattern_tokens (drop 1 (dropWhile (\<lambda>d. d \<noteq> CHR ''}'') s))
      else T_lit [c] # pattern_tokens s)"
  by pat_completeness auto

termination
  by (relation "measure length") (auto simp: less_Suc_eq_le intro: order_trans [OF diff_le_self length_dropWhile_le])

definition pattern_atoms :: "string \<Rightarrow> atom list" where
  "pattern_atoms pattern = concat (map token_atoms (pattern_tokens pattern))"

definition pattern_vars :: "string \<Rightarrow> string list" where
  "pattern_vars pattern = concat (map token_var (pattern_tokens pattern))"

record blog_route =
  rt_method :: http_method
  rt_pattern :: string
  rt_func :: handler
  rt_controller :: nat

definition class_routes :: "controller_class \<Rightarrow> blog_route list" where
  "class_routes C = concat (map (\<lambda>(m, pattern, func). map (\<lambda>i.
       \<lparr>rt_method = m, rt_pattern = i @ pattern, rt_func = func, rt_controller = cc_ptr C\<rparr>) (cc_prefixes C)) (cc_mappings C))"

definition blog_routes :: "blog_route list" where
  "blog_routes = concat (map class_routes blog_controllers)"

definition rt_matches :: "blog_route \<Rightarrow> string \<Rightarrow> bool" where
  "rt_matches rt path \<longleftrightarrow> path_match (pattern_atoms (rt_pattern rt)) path \<noteq> None"

definition route_answer :: "blog_route \<Rightarrow> string \<Rightarrow> handler route_result" where
  "route_answer rt path =
     \<lparr>pathVariable = foldl (\<lambda>vs nv. if snd nv \<noteq> [] then pv_setVar vs (fst nv) (snd nv) else vs) []
        (zip (pattern_vars (rt_pattern rt)) (case path_match (pattern_atoms (rt_pattern rt)) path of None \<Rightarrow> [] | Some gs \<Rightarrow> gs)),
      controllerFunc = Some (rt_func rt), controllerSave = Some (rt_controller rt)\<rparr>"

text \<open>What the blog means by its routes, without queues, priorities and caches: of the routes of the method that
  match, the one with the most variables.\<close>

definition blog_dispatch :: "http_method \<Rightarrow> string \<Rightarrow> handler route_result" where
  "blog_dispatch method path =
     (let rts = filter (\<lambda>rt. rt_method rt = method) blog_routes;
          with_vars = (\<lambda>n. filter (\<lambda>rt. length (pattern_vars (rt_pattern rt)) = n) rts)
      in case find (\<lambda>rt. rt_matches rt path) (with_vars 2 @ with_vars 1 @ with_vars 0) of
           None \<Rightarrow> RouteResult_new
         | Some rt \<Rightarrow> route_answer rt path)"

section \<open>No two routes with equally many variables match the same path\<close>

text \<open>A check on two patterns that they have no path in common.\<close>

definition slash_free :: "atom list \<Rightarrow> bool" where
  "slash_free as \<longleftrightarrow> A_chr (CHR ''/'') \<notin> set as \<and> A_chr (CHR ''.'') \<notin> set as"

fun clash :: "atom list \<Rightarrow> atom list \<Rightarrow> bool" where
  "clash [] (A_chr d # bs) = True"
| "clash (A_chr c # as) [] = True"
| "clash (A_chr c # as) (A_chr d # bs) =
     (if c = d \<or> c = CHR ''.'' \<or> d = CHR ''.'' then clash as bs else True)"
| "clash (A_var # as) (A_var # bs) =
     (slash_free as \<and> A_chr (CHR ''/'') \<in> set bs \<or> slash_free bs \<and> A_chr (CHR ''/'') \<in> set as)"
| "clash _ _ = False"

lemma longest_var_split:
  "longest_var f p = Some gs \<Longrightarrow> \<exists>v q hs. p = v @ q \<and> CHR ''/'' \<notin> set v \<and> f q = Some hs \<and> gs = v # hs"
proof (induction p arbitrary: gs)
  case (Cons d p)
  show ?case
  proof (cases "d = CHR ''/'' \<or> longest_var f p = None \<or> longest_var f p = Some []")
    case True
    then have "map_option (Cons []) (f (d # p)) = Some gs" using Cons.prems by (auto split: if_splits)
    then obtain hs where "f (d # p) = Some hs" "gs = [] # hs" by auto
    then have "d # p = [] @ d # p \<and> CHR ''/'' \<notin> set [] \<and> f (d # p) = Some hs \<and> gs = [] # hs" by simp
    then show ?thesis by blast
  next
    case False
    then obtain v vs where v: "longest_var f p = Some (v # vs)" by (metis list.exhaust option.exhaust)
    from Cons.IH [OF v] obtain q where "p = v @ q" "CHR ''/'' \<notin> set v" "f q = Some vs" by auto
    then have "d # p = (d # v) @ q \<and> CHR ''/'' \<notin> set (d # v) \<and> f q = Some vs \<and> gs = (d # v) # vs"
      using False v Cons.prems by auto
    then show ?thesis by blast
  qed
qed auto

lemma slash_free_path: "path_match as p = Some gs \<Longrightarrow> slash_free as \<Longrightarrow> CHR ''/'' \<notin> set p"
proof (induction as p arbitrary: gs rule: path_match.induct)
  case (3 as p)
  from 3(2) obtain v q hs where v: "p = v @ q" "CHR ''/'' \<notin> set v" "path_match as q = Some hs"
    using longest_var_split [of "path_match as" p gs] by auto
  then show ?case using 3(1) [of q hs] 3(3) by (simp add: slash_free_def)
qed (auto simp: slash_free_def split: if_splits list.splits)

lemma slash_path: "path_match as p = Some gs \<Longrightarrow> A_chr (CHR ''/'') \<in> set as \<Longrightarrow> CHR ''/'' \<in> set p"
proof (induction as p arbitrary: gs rule: path_match.induct)
  case (3 as p)
  from 3(2) obtain v q hs where v: "p = v @ q" "path_match as q = Some hs"
    using longest_var_split [of "path_match as" p gs] by auto
  then show ?case using 3(1) [of q hs] 3(3) by simp
qed (auto split: if_splits list.splits)

lemma clash_disjoint: "clash as bs \<Longrightarrow> path_match as p = Some gs \<Longrightarrow> path_match bs p = Some hs \<Longrightarrow> False"
proof (induction as bs arbitrary: p gs hs rule: clash.induct)
  case (3 c as d bs)
  then show ?case by (auto split: if_splits list.splits)
next
  case (4 as bs)
  have "A_chr (CHR ''/'') \<notin> set (A_var # cs) \<or> CHR ''/'' \<in> set p" "slash_free cs \<longrightarrow> CHR ''/'' \<notin> set p"
    if "path_match (A_var # cs) p = Some ks" for cs ks
    using slash_path [OF that] slash_free_path [OF that] by (auto simp: slash_free_def)
  from this [OF 4(2)] this [OF 4(3)] show ?case using 4(1) by auto
qed (auto split: list.splits)

text \<open>All pairs of the table.\<close>

fun unambiguous :: "(nat \<times> atom list) list \<Rightarrow> bool" where
  "unambiguous [] = True"
| "unambiguous (x # xs) = (list_all (\<lambda>y. fst x \<noteq> fst y \<or> clash (snd x) (snd y)) xs \<and> unambiguous xs)"

definition route_key :: "blog_route \<Rightarrow> nat \<times> atom list" where
  "route_key rt = (length (pattern_vars (rt_pattern rt)), pattern_atoms (rt_pattern rt))"

lemma blog_routes_unambiguous:
  "list_all (\<lambda>m. unambiguous (map route_key (filter (\<lambda>rt. rt_method rt = m) blog_routes))) [M_GET, M_POST, M_DELET]"
  by code_simp

section \<open>The table that registration makes\<close>

definition pattern_fine :: "string \<Rightarrow> bool" where
  "pattern_fine pattern \<longleftrightarrow>
     (let ts = pattern_tokens pattern
      in pattern_text ts = pattern \<and> list_all token_ok ts \<and> list_all plain_token ts \<and> \<not> double_star pattern
         \<and> length pattern \<le> MaxPathLengthMatcherSupport \<and> length (pattern_vars pattern) \<le> 2)"

definition route_fine :: "blog_route \<Rightarrow> bool" where
  "route_fine rt \<longleftrightarrow> pattern_fine (rt_pattern rt) \<and> method_index (rt_method rt) < MAX_SIZE"

definition route_matcher :: "string \<Rightarrow> path_matcher" where
  "route_matcher pattern =
     \<lparr>mWildCardsNums = 0, mUndecidedChars = 0, varNames = pattern_vars pattern,
      mPattern = concat (map token_regex (pattern_tokens pattern)), mOriginPattern = pattern\<rparr>"

definition route_entry :: "u64 \<Rightarrow> blog_route \<Rightarrow> handler pattern_entry" where
  "route_entry k rt = \<lparr>pe_priority = k, requestMethod = rt_method rt, PathMatcher = route_matcher (rt_pattern rt),
     ControllerFunc = rt_func rt, ControllerBase = rt_controller rt\<rparr>"

lemma plain_tokens_counts:
  "list_all plain_token ts \<Longrightarrow> wildcards ts = 0 \<and> filter (\<lambda>t. t = T_char) ts = []"
proof (induction ts)
  case (Cons t ts)
  then show ?case by (cases t) (auto simp: wildcards_def)
qed (simp add: wildcards_def)

lemma route_compiles:
  "re2_ok R \<Longrightarrow> pattern_fine pattern \<Longrightarrow> FPathMatcher_new R pattern = Inr (route_matcher pattern)"
  using FPathMatcher_compiles [of R "pattern_tokens pattern"] plain_tokens_counts [of "pattern_tokens pattern"]
  by (simp add: pattern_fine_def route_matcher_def pattern_vars_def Let_def)

lemma entry_of_route:
  assumes "re2_paths (reR L)" "route_fine rt" "plain_path path"
  shows "entry_matches L path (route_entry k rt) \<longleftrightarrow> rt_matches rt path"
    "rt_matches rt path \<Longrightarrow> entry_result L path (route_entry k rt) = route_answer rt path"
proof -
  have "re_full_match (reR L) (mPattern (route_matcher (rt_pattern rt))) (length (varNames (route_matcher (rt_pattern rt)))) path
      = path_match (pattern_atoms (rt_pattern rt)) path"
    using assms by (simp add: re2_paths_def route_fine_def pattern_fine_def route_matcher_def pattern_atoms_def pattern_vars_def Let_def)
  then show "entry_matches L path (route_entry k rt) \<longleftrightarrow> rt_matches rt path"
    "rt_matches rt path \<Longrightarrow> entry_result L path (route_entry k rt) = route_answer rt path"
    by (auto simp: entry_matches_def entry_result_def isMatch_def route_entry_def rt_matches_def route_answer_def
        route_matcher_def split: option.split)
qed

text \<open>The priority of a pattern: ten thousand for each variable, and less than ten thousand besides.\<close>

definition base_priority :: "string \<Rightarrow> nat" where
  "base_priority pattern = MaxPathLengthMatcherSupport - length pattern + 10000 * length (pattern_vars pattern)"

lemma priority_value:
  assumes "pattern_fine pattern"
  shows "calcPathPatternPriority (route_matcher pattern) = word_of_nat (base_priority pattern)"
proof -
  have "length pattern \<le> MaxPathLengthMatcherSupport" using assms by (simp add: pattern_fine_def Let_def)
  then show ?thesis by (simp add: calcPathPatternPriority_def route_matcher_def base_priority_def of_nat_diff)
qed

lemma free_priority_offset:
  "free_priority n T q p = Some p' \<Longrightarrow> \<exists>j < n. p' = p + word_of_nat j"
proof (induction n arbitrary: p)
  case (Suc n)
  show ?case
  proof (cases "cm_contains T q p")
    case True
    with Suc obtain j where "j < n" "p' = p + 1 + word_of_nat j" by auto
    then show ?thesis by (intro exI [of _ "Suc j"]) (simp add: algebra_simps)
  next
    case False
    with Suc show ?thesis by (intro exI [of _ 0]) simp
  qed
qed simp

text \<open>A router whose queues are exactly the routes \<open>rts\<close>, and whose caches are empty.\<close>

definition registered :: "('cm, 'rc, 'oq, handler) router_libs \<Rightarrow> ('cm, 'rc, 'oq) router \<Rightarrow> blog_route list \<Rightarrow> bool" where
  "registered L r rts \<longleftrightarrow> router_wf r
     \<and> (\<forall>m k e. m \<noteq> M_Invalid \<longrightarrow> queued L r m k = Some e \<longrightarrow>
          (\<exists>rt j. rt \<in> set rts \<and> rt_method rt = m \<and> e = route_entry k rt \<and> j < length rts
             \<and> k = word_of_nat (base_priority (rt_pattern rt) + j)))
     \<and> (\<forall>rt \<in> set rts. \<exists>k. queued L r (rt_method rt) k = Some (route_entry k rt))
     \<and> (\<forall>m. m \<noteq> M_Invalid \<longrightarrow> length (tentries (oqT L) (mControllerOrderQueue r ! method_index m)) \<le> length rts)
     \<and> mRouteCaches r = replicate MAX_SIZE (tempty (rcT L))"

lemma tbb_insert_length:
  assumes "tbb_ok T"
  shows "length (tentries T (tinsert T c k v)) \<le> Suc (length (tentries T c))"
proof -
  have card: "length (tentries T d) = card (dom (tfind T d))" for d
    using tbb_distinct [OF assms, of d] tbb_entries [OF assms, of d]
    by (metis distinct_card dom_map_of_conv_image_fst length_map set_map)
  have "finite (dom (tfind T c))" by (metis assms finite_dom_map_of tbb_entries)
  moreover have "dom (tfind T (tinsert T c k v)) \<subseteq> insert k (dom (tfind T c))"
    using assms by (auto simp: tbb_simps split: if_splits)
  ultimately have "card (dom (tfind T (tinsert T c k v))) \<le> card (insert k (dom (tfind T c)))"
    by (intro card_mono) auto
  also have "\<dots> \<le> Suc (card (dom (tfind T c)))"
    using \<open>finite (dom (tfind T c))\<close> by (simp add: card_insert_if)
  finally show ?thesis by (simp add: card)
qed

lemma registered_empty: "libs_ok L \<Longrightarrow> registered L (FRouter_new L) []"
proof -
  assume L: "libs_ok L"
  then have T: "tbb_ok (oqT L)" by (simp add: libs_ok_def)
  have "x \<notin> set (tentries (oqT L) (tempty (oqT L)))" for x
    using tbb_in_entries [OF T, of "fst x" "snd x" "tempty (oqT L)"] T by (simp add: tbb_simps)
  then have "tentries (oqT L) (tempty (oqT L)) = []" by (metis last_in_set)
  then show ?thesis
    using T by (auto simp: registered_def router_wf_def queued_def FRouter_new_def method_index_valid tbb_simps)
qed

lemma registered_one:
  assumes L: "libs_ok L" "re2_ok (reR L)" and reg: "registered L r rts" and rt: "route_fine rt"
    and name: "ch_find (cmT L) (mControllerMap r) name = Some (rt_controller rt)" and few: "length rts < 2 ^ 32"
  shows "\<exists>r'. regControllerFunc L r (rt_pattern rt) (rt_method rt) name (rt_func rt) = Inr r'
    \<and> registered L r' (rts @ [rt]) \<and> mControllerMap r' = mControllerMap r"
proof -
  let ?m = "rt_method rt" and ?T = "oqT L"
  let ?q = "mControllerOrderQueue r ! method_index ?m" and ?p = "calcPathPatternPriority (route_matcher (rt_pattern rt))"
  have T: "tbb_ok ?T" and i: "method_index ?m < MAX_SIZE" "?m \<noteq> M_Invalid"
    using L(1) rt by (simp_all add: libs_ok_def route_fine_def method_index_valid)
  have wf: "router_wf r" and len: "length (tentries ?T ?q) \<le> length rts"
    using reg i(2) by (simp_all add: registered_def)
  obtain k where k: "free_priority (Suc (length (tentries ?T ?q))) ?T ?q ?p = Some k" "cm_find ?T ?q k = None"
    using free_priority_found [OF T, of ?q ?p] len few by auto
  from free_priority_offset [OF k(1)] obtain j where j: "j < Suc (length (tentries ?T ?q))" "k = ?p + word_of_nat j" by auto
  have kj: "j < length (rts @ [rt])" "k = word_of_nat (base_priority (rt_pattern rt) + j)"
    using j len rt by (simp_all add: priority_value route_fine_def)
  let ?r = "r\<lparr>mControllerOrderQueue := (mControllerOrderQueue r)[method_index ?m := cm_insert ?T ?q k (route_entry k rt)]\<rparr>"
  have ok: "regControllerFunc L r (rt_pattern rt) ?m name (rt_func rt) = Inr ?r"
    using i(1) rt by (simp add: regControllerFunc_def route_compiles [OF L(2)] route_fine_def name k(1) Let_def route_entry_def
        del: free_priority.simps)
  have q: "queued L ?r m k' = (if m = ?m \<and> k' = k then Some (route_entry k rt) else queued L r m k')" if "m \<noteq> M_Invalid" for m k'
    using that i wf T k(2) method_index_inj [of m ?m]
    by (cases "m = ?m")
      (auto simp: queued_def router_wf_def cm_insert_def tbb_simps nth_list_update method_index_valid cm_find_def)
  have none: "queued L r ?m k = None" using k(2) by (simp add: queued_def cm_find_def)
  have "registered L ?r (rts @ [rt])"
    unfolding registered_def
  proof (intro conjI allI impI ballI)
    show "router_wf ?r" using wf by (simp add: router_wf_def)
    show "mRouteCaches ?r = replicate MAX_SIZE (tempty (rcT L))" using reg by (simp add: registered_def)
    show "length (tentries ?T (mControllerOrderQueue ?r ! method_index m)) \<le> length (rts @ [rt])" if "m \<noteq> M_Invalid" for m
    proof (cases "m = ?m")
      case True
      then show ?thesis
        using wf i(1) len tbb_insert_length [OF T, of ?q k "route_entry k rt"] by (simp add: router_wf_def cm_insert_def)
    next
      case False
      then have "method_index ?m \<noteq> method_index m" using method_index_inj [of ?m m] by auto
      then show ?thesis using that reg by (simp add: registered_def le_SucI)
    qed
    show "\<exists>ka. queued L ?r (rt_method rt') ka = Some (route_entry ka rt')" if rt': "rt' \<in> set (rts @ [rt])" for rt'
    proof (cases "rt' = rt")
      case True
      then show ?thesis using q [OF i(2), of k] by auto
    next
      case False
      then obtain k' where k': "queued L r (rt_method rt') k' = Some (route_entry k' rt')"
        using rt' reg by (auto simp: registered_def)
      have "queued L ?r (rt_method rt') k' = Some (route_entry k' rt')"
      proof (cases "rt_method rt' = M_Invalid")
        case True
        then show ?thesis using k' i(2) by (cases ?m) (simp_all add: queued_def nth_list_update)
      next
        case False
        then show ?thesis using q [OF False, of k'] k' none by auto
      qed
      then show ?thesis by blast
    qed
    show "\<exists>rt' j'. rt' \<in> set (rts @ [rt]) \<and> rt_method rt' = m \<and> e = route_entry k' rt' \<and> j' < length (rts @ [rt])
        \<and> k' = word_of_nat (base_priority (rt_pattern rt') + j')"
      if m: "m \<noteq> M_Invalid" and e: "queued L ?r m k' = Some e" for m k' e
    proof (cases "m = ?m \<and> k' = k")
      case True
      then show ?thesis using e q [OF m, of k'] kj by (intro exI [of _ rt] exI [of _ j]) auto
    next
      case False
      then have "queued L r m k' = Some e" using e q [OF m, of k'] by (simp split: if_splits)
      then obtain rt' j' where "rt' \<in> set rts" "rt_method rt' = m" "e = route_entry k' rt'" "j' < length rts"
          "k' = word_of_nat (base_priority (rt_pattern rt') + j')"
        using reg m unfolding registered_def by blast
      then show ?thesis by (intro exI [of _ rt'] exI [of _ j']) auto
    qed
  qed
  then show ?thesis using ok by (intro exI [of _ ?r]) simp
qed

text \<open>Registration of one mapping, of one controller, and of all.\<close>

definition mapping_routes :: "controller_class \<Rightarrow> http_method \<times> string \<times> handler \<Rightarrow> blog_route list" where
  "mapping_routes C = (\<lambda>(m, pattern, func). map (\<lambda>i.
     \<lparr>rt_method = m, rt_pattern = i @ pattern, rt_func = func, rt_controller = cc_ptr C\<rparr>) (cc_prefixes C))"

lemma class_routes_mappings: "class_routes C = concat (map (mapping_routes C) (cc_mappings C))"
  by (simp add: class_routes_def mapping_routes_def)

lemma registerMappingFunction_registers:
  assumes "libs_ok L" "re2_ok (reR L)"
  shows "registered L r rts \<Longrightarrow> ch_find (cmT L) (mControllerMap r) name = Some c \<Longrightarrow>
    list_all route_fine (map (\<lambda>i. \<lparr>rt_method = m, rt_pattern = i @ pattern, rt_func = func, rt_controller = c\<rparr>) is) \<Longrightarrow>
    length rts + length is < 2 ^ 32 \<Longrightarrow>
    \<exists>r'. registerMappingFunction L r is name pattern m func = Inr r' \<and> mControllerMap r' = mControllerMap r
      \<and> registered L r' (rts @ map (\<lambda>i. \<lparr>rt_method = m, rt_pattern = i @ pattern, rt_func = func, rt_controller = c\<rparr>) is)"
proof (induction "is" arbitrary: r rts)
  case (Cons i "is")
  let ?rt = "\<lparr>rt_method = m, rt_pattern = i @ pattern, rt_func = func, rt_controller = c\<rparr>"
  obtain r1 where r1: "regControllerFunc L r (i @ pattern) m name func = Inr r1" "registered L r1 (rts @ [?rt])"
      "mControllerMap r1 = mControllerMap r"
    using registered_one [OF assms Cons.prems(1), of ?rt name] Cons.prems(2-4) by auto
  from Cons.IH [OF r1(2)] Cons.prems(2-4) r1(1,3) show ?case by simp
qed simp

lemma registerMapping_registers:
  assumes "libs_ok L" "re2_ok (reR L)"
  shows "registered L r rts \<Longrightarrow> ch_find (cmT L) (mControllerMap r) (cc_name C) = Some (cc_ptr C) \<Longrightarrow>
    list_all route_fine (concat (map (mapping_routes C) ms)) \<Longrightarrow>
    length rts + length (concat (map (mapping_routes C) ms)) < 2 ^ 32 \<Longrightarrow>
    \<exists>r'. registerMapping L C ms r = Inr r' \<and> mControllerMap r' = mControllerMap r
      \<and> registered L r' (rts @ concat (map (mapping_routes C) ms))"
proof (induction ms arbitrary: r rts)
  case (Cons a ms)
  obtain m pattern func where a: "a = (m, pattern, func)" by (cases a)
  obtain r1 where r1: "registerMappingFunction L r (cc_prefixes C) (cc_name C) pattern m func = Inr r1"
      "mControllerMap r1 = mControllerMap r" "registered L r1 (rts @ mapping_routes C a)"
    using registerMappingFunction_registers [OF assms Cons.prems(1,2), of m pattern func "cc_prefixes C"] Cons.prems(3,4)
    by (auto simp: a mapping_routes_def)
  from Cons.IH [OF r1(3)] Cons.prems(2-4) r1(1,2) show ?case by (simp add: a)
qed simp

lemma static_registration_registers:
  assumes L: "libs_ok L" "re2_ok (reR L)"
  shows "registered L r rts \<Longrightarrow> distinct (map cc_name Cs) \<Longrightarrow>
    (\<forall>C \<in> set Cs. ch_find (cmT L) (mControllerMap r) (cc_name C) = None) \<Longrightarrow>
    list_all route_fine (concat (map class_routes Cs)) \<Longrightarrow> length rts + length (concat (map class_routes Cs)) < 2 ^ 32 \<Longrightarrow>
    \<exists>r'. static_registration L Cs r = Inr r' \<and> registered L r' (rts @ concat (map class_routes Cs))"
proof (induction Cs arbitrary: r rts)
  case (Cons C Cs)
  have T: "tbb_ok (cmT L)" using L(1) by (simp add: libs_ok_def)
  let ?r = "r\<lparr>mControllerMap := ch_insert (cmT L) (mControllerMap r) (cc_name C) (cc_ptr C)\<rparr>"
  have none: "ch_find (cmT L) (mControllerMap r) (cc_name C) = None" using Cons.prems(3) by simp
  obtain calls where reg: "regController L r (cc_name C) (cc_ptr C) = Inr (?r, calls)"
    using none by (auto simp: regController_def ch_contains_def ch_find_def)
  have "registered L ?r rts" using Cons.prems(1) by (simp add: registered_def router_wf_def queued_def)
  moreover have find: "ch_find (cmT L) (mControllerMap ?r) name
      = (if name = cc_name C then Some (cc_ptr C) else ch_find (cmT L) (mControllerMap r) name)" for name
    using T none by (simp add: ch_find_def ch_insert_def tbb_simps)
  ultimately obtain r1 where r1: "registerMapping L C (cc_mappings C) ?r = Inr r1" "mControllerMap r1 = mControllerMap ?r"
      "registered L r1 (rts @ class_routes C)"
    using registerMapping_registers [OF L, of ?r rts C "cc_mappings C"] Cons.prems(4,5) by (auto simp: class_routes_mappings)
  have "\<forall>D \<in> set Cs. ch_find (cmT L) (mControllerMap r1) (cc_name D) = None"
    using Cons.prems(2,3) unfolding r1(2) find by (auto simp: image_iff)
  from Cons.IH [OF r1(3) _ this] Cons.prems(2,4,5) show ?case
    by (simp add: ControllerRegisterHelper_def reg r1(1))
qed simp

section \<open>The router of the blog\<close>

lemma blog_table:
  "list_all route_fine blog_routes" "distinct (map cc_name blog_controllers)" "length blog_routes < 100"
  "list_all (\<lambda>rt. rt_method rt \<in> {M_GET, M_POST, M_DELET}) blog_routes"
  by code_simp+

definition rt_vars :: "blog_route \<Rightarrow> nat" where
  "rt_vars rt = length (pattern_vars (rt_pattern rt))"

lemma unambiguous_clash:
  "unambiguous (map route_key rts) \<Longrightarrow> rt \<in> set rts \<Longrightarrow> rt' \<in> set rts \<Longrightarrow> rt \<noteq> rt' \<Longrightarrow> rt_vars rt = rt_vars rt' \<Longrightarrow>
     clash (pattern_atoms (rt_pattern rt)) (pattern_atoms (rt_pattern rt'))
   \<or> clash (pattern_atoms (rt_pattern rt')) (pattern_atoms (rt_pattern rt))"
  by (induction rts) (auto simp: route_key_def rt_vars_def list_all_iff)

lemma equal_vars_equal_route:
  assumes "rt \<in> set blog_routes" "rt' \<in> set blog_routes" "rt_method rt = rt_method rt'" "rt_vars rt = rt_vars rt'"
    "rt_matches rt path" "rt_matches rt' path"
  shows "rt = rt'"
proof (rule ccontr)
  assume ne: "rt \<noteq> rt'"
  have "rt_method rt \<in> {M_GET, M_POST, M_DELET}" using assms(1) blog_table(4) by (simp add: list_all_iff)
  then have "unambiguous (map route_key (filter (\<lambda>r. rt_method r = rt_method rt) blog_routes))"
    using blog_routes_unambiguous by auto
  then have "clash (pattern_atoms (rt_pattern rt)) (pattern_atoms (rt_pattern rt'))
     \<or> clash (pattern_atoms (rt_pattern rt')) (pattern_atoms (rt_pattern rt))"
    by (rule unambiguous_clash) (use assms(1-4) ne in auto)
  moreover obtain gs hs where "path_match (pattern_atoms (rt_pattern rt)) path = Some gs"
      "path_match (pattern_atoms (rt_pattern rt')) path = Some hs"
    using assms(5,6) by (auto simp: rt_matches_def)
  ultimately show False by (meson clash_disjoint)
qed

lemma find_appended: "find P (xs @ ys) = (case find P xs of None \<Rightarrow> find P ys | Some x \<Rightarrow> Some x)"
  by (induction xs) auto

lemma find_only:
  assumes "x \<in> set xs" "P x" "\<And>y. y \<in> set xs \<Longrightarrow> P y \<Longrightarrow> y = x"
  shows "find P xs = Some x"
proof -
  obtain y where y: "find P xs = Some y" using assms(1,2) by (metis List.find_None_iff option.exhaust)
  then have "y \<in> set xs" "P y" by (auto simp: find_Some_iff)
  then show ?thesis using y assms(3) by simp
qed

lemma blog_dispatch_greatest:
  assumes "rt \<in> set blog_routes" "rt_method rt = m" "rt_matches rt path"
    "\<And>rt'. rt' \<in> set blog_routes \<Longrightarrow> rt_method rt' = m \<Longrightarrow> rt_matches rt' path \<Longrightarrow> rt_vars rt' \<le> rt_vars rt"
  shows "blog_dispatch m path = route_answer rt path"
proof -
  define P where "P rt' = rt_matches rt' path" for rt'
  define W where "W n = filter (\<lambda>rt. length (pattern_vars (rt_pattern rt)) = n) (filter (\<lambda>rt. rt_method rt = m) blog_routes)" for n
  have here: "find P (W (rt_vars rt)) = Some rt"
    using assms(1-3) equal_vars_equal_route by (intro find_only) (auto simp: W_def P_def rt_vars_def)
  have above: "find P (W n) = None" if "rt_vars rt < n" for n
    using assms(4) that by (fastforce simp: List.find_None_iff W_def P_def rt_vars_def)
  have "rt_vars rt \<le> 2"
    using assms(1) blog_table(1) by (simp add: list_all_iff route_fine_def pattern_fine_def Let_def rt_vars_def)
  then consider "rt_vars rt = 2" | "rt_vars rt = 1" | "rt_vars rt = 0" by linarith
  then have "find P (W 2 @ W 1 @ W 0) = Some rt"
    using here above [of 1] above [of 2] by cases (simp_all add: find_appended)
  then show ?thesis unfolding blog_dispatch_def Let_def W_def P_def by simp
qed

lemma blog_dispatch_none:
  assumes "\<And>rt. rt \<in> set blog_routes \<Longrightarrow> rt_method rt = m \<Longrightarrow> \<not> rt_matches rt path"
  shows "blog_dispatch m path = RouteResult_new"
proof -
  let ?w = "\<lambda>n. filter (\<lambda>rt. length (pattern_vars (rt_pattern rt)) = n) (filter (\<lambda>rt. rt_method rt = m) blog_routes)"
  have "find (\<lambda>rt. rt_matches rt path) (?w 2 @ ?w 1 @ ?w 0) = None"
    using assms by (auto simp: List.find_None_iff)
  then show ?thesis unfolding blog_dispatch_def Let_def by simp
qed

lemma route_key_value:
  assumes "route_fine rt" "j < 100"
  shows "unat (word_of_nat (base_priority (rt_pattern rt) + j) :: u64) = base_priority (rt_pattern rt) + j"
    "10000 * rt_vars rt \<le> base_priority (rt_pattern rt) + j" "base_priority (rt_pattern rt) + j < 10000 * (rt_vars rt + 1)"
proof -
  have "rt_vars rt \<le> 2" using assms(1) by (simp add: route_fine_def pattern_fine_def Let_def rt_vars_def)
  then show "10000 * rt_vars rt \<le> base_priority (rt_pattern rt) + j"
    "base_priority (rt_pattern rt) + j < 10000 * (rt_vars rt + 1)"
    "unat (word_of_nat (base_priority (rt_pattern rt) + j) :: u64) = base_priority (rt_pattern rt) + j"
    using assms(2) by (simp_all add: base_priority_def rt_vars_def unsigned_of_nat take_bit_nat_eq_self del: of_nat_add)
qed

text \<open>A router that answers as the blog means it: what its queues give, and what its caches hold.\<close>

definition queue_answer :: "('cm, 'rc, 'oq, handler) router_libs \<Rightarrow> ('cm, 'rc, 'oq) router \<Rightarrow> http_method \<Rightarrow> string \<Rightarrow>
    handler route_result" where
  "queue_answer L r m path =
     (case find (\<lambda>e. entry_matches L path (snd e)) (tentries (oqT L) (mControllerOrderQueue r ! method_index m)) of
        None \<Rightarrow> RouteResult_new | Some e \<Rightarrow> entry_result L path (snd e))"

definition serves_blog :: "('cm, 'rc, 'oq, handler) router_libs \<Rightarrow> ('cm, 'rc, 'oq) router \<Rightarrow> bool" where
  "serves_blog L r \<longleftrightarrow> router_wf r
     \<and> (\<forall>m path. m \<noteq> M_Invalid \<longrightarrow> plain_path path \<longrightarrow>
          queue_answer L r m path = blog_dispatch m path
          \<and> (\<forall>c. cached L r m path = Some c \<longrightarrow> rc_result c = blog_dispatch m path))"

lemma queue_answer_blog:
  assumes L: "libs_ok L" "re2_paths (reR L)" and reg: "registered L r rts" and rts: "set rts = set blog_routes" "length rts < 100"
    and m: "m \<noteq> M_Invalid" and path: "plain_path path"
  shows "queue_answer L r m path = blog_dispatch m path"
proof -
  let ?es = "tentries (oqT L) (mControllerOrderQueue r ! method_index m)"
  have fine: "route_fine rt" if "rt \<in> set rts" for rt
    using that blog_table(1) rts(1) by (simp add: list_all_iff)
  have inq: "(k, e) \<in> set ?es \<longleftrightarrow> queued L r m k = Some e" for k e
    using L(1) by (simp add: queued_def libs_ok_def tbb_in_entries)
  have route_of: "\<exists>rt j. rt \<in> set rts \<and> rt_method rt = m \<and> e = route_entry k rt \<and> j < length rts
      \<and> k = word_of_nat (base_priority (rt_pattern rt) + j)" if "queued L r m k = Some e" for k e
    using that reg m unfolding registered_def by blast
  have entry_of: "\<exists>k. queued L r m k = Some (route_entry k rt)" if "rt \<in> set rts" "rt_method rt = m" for rt
    using that reg unfolding registered_def by blast
  note match = entry_of_route [OF L(2) fine path]
  show ?thesis
  proof (cases "find (\<lambda>e. entry_matches L path (snd e)) ?es")
    case None
    have "\<not> rt_matches rt path" if rt0: "rt \<in> set blog_routes" "rt_method rt = m" for rt
    proof -
      have rt: "rt \<in> set rts" using rt0(1) rts(1) by simp
      obtain k where "(k, route_entry k rt) \<in> set ?es" using entry_of [OF rt rt0(2)] inq by blast
      then show ?thesis using None match(1) [OF rt] by (auto simp: List.find_None_iff)
    qed
    then have "blog_dispatch m path = RouteResult_new" by (rule blog_dispatch_none)
    then show ?thesis using None by (simp add: queue_answer_def)
  next
    case (Some ke)
    obtain k e where ke: "ke = (k, e)" by fastforce
    have "sorted_wrt (>) (map fst ?es)" using L(1) by (simp add: libs_ok_def tbb_sorted_def)
    note F = find_first [OF Some this]
    obtain rt j where rt: "rt \<in> set rts" "rt_method rt = m" "e = route_entry k rt" "j < length rts"
        "k = word_of_nat (base_priority (rt_pattern rt) + j)"
      using route_of [of k e] inq [of k e] F by (auto simp: ke)
    have hit: "rt_matches rt path" using F match(1) [OF rt(1)] by (simp add: ke rt(3))
    have "rt_vars rt' \<le> rt_vars rt" if rt': "rt' \<in> set blog_routes" "rt_method rt' = m" "rt_matches rt' path" for rt'
    proof (rule ccontr)
      assume less: "\<not> rt_vars rt' \<le> rt_vars rt"
      have in': "rt' \<in> set rts" using rt'(1) rts(1) by simp
      obtain k' where k': "queued L r m k' = Some (route_entry k' rt')" using entry_of [OF in' rt'(2)] by blast
      obtain rt2 j' where j': "rt2 \<in> set rts" "route_entry k' rt' = route_entry k' rt2" "j' < length rts"
          "k' = word_of_nat (base_priority (rt_pattern rt2) + j')"
        using route_of [OF k'] by blast
      have "rt_pattern rt2 = rt_pattern rt'" using j'(2) by (simp add: route_entry_def route_matcher_def)
      then have "unat k < unat k'"
        using route_key_value [OF fine [OF rt(1)], of j] route_key_value [OF fine [OF in'], of j'] rt(4,5) j'(3,4) rts(2) less
        by simp
      moreover have "(k', route_entry k' rt') \<in> set ?es" "entry_matches L path (route_entry k' rt')"
        using inq k' match(1) [OF in'] rt'(3) by auto
      then have "k' \<le> k" using F by (auto simp: ke)
      ultimately show False by (simp add: word_le_nat_alt)
    qed
    then have "blog_dispatch m path = route_answer rt path"
      using blog_dispatch_greatest [OF _ rt(2) hit] rt(1) rts(1) by auto
    then show ?thesis using Some match(2) [OF rt(1) hit] by (simp add: queue_answer_def ke rt(3))
  qed
qed

lemma route_serves:
  assumes "libs_ok L" "serves_blog L r" "m \<noteq> M_Invalid" "plain_path path"
  shows "fst (route L now r m path) = blog_dispatch m path"
proof -
  have i: "method_index m < MAX_SIZE" using assms(3) by (simp add: method_index_valid)
  show ?thesis
  proof (cases "cached L r m path")
    case None
    have "fst (route L now r m path) = queue_answer L r m path"
      using route_uncached [OF i None, of now] by (simp add: queue_answer_def split: option.split)
    then show ?thesis using assms(2-4) by (simp add: serves_blog_def)
  next
    case (Some c)
    then show ?thesis using assms(2-4) route_cached [OF i Some, of now] by (simp add: serves_blog_def)
  qed
qed

lemma route_keeps_serving:
  assumes L: "libs_ok L" and r: "serves_blog L r"
  shows "serves_blog L (snd (route L now r m path))"
proof -
  let ?r = "snd (route L now r m path)"
  have wf: "router_wf r" using r by (simp add: serves_blog_def)
  note frame = route_frame [OF L wf, of now m path]
  have queues: "queue_answer L ?r n k = queue_answer L r n k" for n k
    using frame by (simp add: queue_answer_def)
  have "rc_result c = blog_dispatch n k"
    if n: "n \<noteq> M_Invalid" "plain_path k" and c: "cached L ?r n k = Some c" for n k c
  proof (cases "(n, k) = (m, path)")
    case False
    then show ?thesis using frame n c r by (simp add: serves_blog_def)
  next
    case True
    then have i: "method_index m < MAX_SIZE" using n by (simp add: method_index_valid)
    have "fst (route L now ?r m path) = rc_result c" using route_cached [OF i] c True by simp
    moreover have "fst (route L now r m path) = blog_dispatch m path" using route_serves [OF L r] n True by simp
    moreover have "fst (route L now ?r m path) = fst (route L now r m path)"
    proof (cases "cached L r m path")
      case None
      show ?thesis
        using c True route_uncached [OF i None, of now] route_cached [OF i putCache_cached [OF L wf i None], of _ now]
        by (auto split: option.splits)
    next
      case (Some c0)
      then show ?thesis
        using c True L wf i route_cached_state [OF i Some, of now] route_cached [OF i Some, of now]
          route_cached [OF i, of L ?r path c now]
        by (auto simp: cached_def router_wf_def libs_ok_def tbb_simps)
    qed
    ultimately show ?thesis using True by simp
  qed
  then show ?thesis using frame queues r by (simp add: serves_blog_def)
qed

lemma sweep_keeps_serving:
  assumes "libs_ok L" "serves_blog L r"
  shows "serves_blog L (checkRouteCache L clock r timeNow)"
proof -
  let ?r = "r\<lparr>lastCheckTime := timeNow\<rparr>"
  have r: "serves_blog L ?r" using assms(2) by (simp add: serves_blog_def router_wf_def queue_answer_def cached_def)
  then have "cached L (checkCacheOverdue L clock ?r due) m path = Some c \<Longrightarrow> m \<noteq> M_Invalid \<Longrightarrow> cached L ?r m path = Some c"
    for due m path c
    using cached_swept [OF assms(1), of ?r m clock due path] by (auto simp: serves_blog_def split: option.splits if_splits)
  then have "serves_blog L (checkCacheOverdue L clock ?r due)" for due
    using r by (simp add: serves_blog_def router_wf_def queue_answer_def checkCacheOverdue_def)
  then show ?thesis using assms(2) by (simp add: checkRouteCache_def)
qed

lemma uses_keep_serving: "libs_ok L \<Longrightarrow> serves_blog L r \<Longrightarrow> serves_blog L (foldl (use_router L) r us)"
proof (induction us arbitrary: r)
  case (Cons u us)
  then have "serves_blog L (use_router L r u)"
    by (cases u) (auto intro: route_keeps_serving sweep_keeps_serving)
  then show ?case using Cons by simp
qed simp

lemma started_blog_serves:
  assumes "libs_ok L" "re2_ok (reR L)" "re2_paths (reR L)" "mset Cs = mset blog_controllers"
  shows "\<exists>r. static_registration L Cs (FRouter_new L) = Inr r \<and> serves_blog L (fst (router_lateInit L r))
    \<and> (\<forall>m path. m \<noteq> M_Invalid \<longrightarrow> cached L (fst (router_lateInit L r)) m path = None)"
proof -
  let ?rts = "concat (map class_routes Cs)"
  have set: "set ?rts = set blog_routes" using mset_eq_setD [OF assms(4)] by (simp add: blog_routes_def)
  have "mset (map cc_name Cs) = mset (map cc_name blog_controllers)" using assms(4) by simp
  then have distinct: "distinct (map cc_name Cs)" using blog_table(2) by (metis mset_eq_imp_distinct_iff)
  have "mset (map (length \<circ> class_routes) Cs) = mset (map (length \<circ> class_routes) blog_controllers)" using assms(4) by simp
  then have "sum_list (map (length \<circ> class_routes) Cs) = sum_list (map (length \<circ> class_routes) blog_controllers)"
    by (metis sum_mset_sum_list)
  then have len: "length ?rts < 100" using blog_table(3) by (simp add: blog_routes_def length_concat comp_def)
  have T: "tbb_ok (cmT L)" using assms(1) by (simp add: libs_ok_def)
  obtain r where r: "static_registration L Cs (FRouter_new L) = Inr r" "registered L r ?rts"
    using static_registration_registers [OF assms(1,2) registered_empty [OF assms(1)] distinct] set blog_table(1) len T
    by (auto simp: list_all_iff FRouter_new_def ch_find_def tbb_simps)
  let ?r = "fst (router_lateInit L r)"
  have reg: "registered L ?r ?rts" using r(2) by (simp add: router_lateInit_def registered_def router_wf_def queued_def)
  have none: "cached L ?r m path = None" if "m \<noteq> M_Invalid" for m path
    using that reg assms(1) by (simp add: registered_def cached_def libs_ok_def tbb_simps method_index_valid)
  then have "serves_blog L ?r"
    using queue_answer_blog [OF assms(1,3) reg set len] reg by (simp add: serves_blog_def registered_def)
  then show ?thesis using r(1) none by blast
qed

text \<open>
  C10. The blog serves its routes: in whatever order the static objects register the controllers, registration succeeds,
  and after the start, whatever has been routed and swept before, every path is answered as the table of
  routes says: the matching route of the method with the most variables, with the longest texts
  for its variables; there is never a second candidate.
\<close>
theorem blog_serves_its_routes:
  assumes "libs_ok L" "re2_ok (reR L)" "re2_paths (reR L)" "mset Cs = mset blog_controllers"
  shows "\<exists>r. static_registration L Cs (FRouter_new L) = Inr r
    \<and> (\<forall>us now m path. m \<noteq> M_Invalid \<longrightarrow> plain_path path \<longrightarrow>
         fst (route L now (foldl (use_router L) (fst (router_lateInit L r)) us) m path) = blog_dispatch m path)"
  using started_blog_serves [OF assms] uses_keep_serving [OF assms(1)] route_serves [OF assms(1)] by blast

lemma started_blog_used:
  assumes "libs_ok L" "re2_ok (reR L)" "re2_paths (reR L)" "mset Cs = mset blog_controllers"
  shows "\<exists>r. static_registration L Cs (FRouter_new L) = Inr r
    \<and> (\<forall>us. serves_blog L (foldl (use_router L) (fst (router_lateInit L r)) us))"
  using started_blog_serves [OF assms] uses_keep_serving [OF assms(1)] by blast

lemma no_route_no_page:
  assumes "router_wf r" "queue_answer L r M_GET ERROR_ROUTE_PATH = RouteResult_new" "cached L r M_GET ERROR_ROUTE_PATH = None"
  shows "no_error_page L r"
  using assms by (auto simp: no_error_page_def queue_answer_def RouteResult_new_def entry_result_def split: option.splits)

lemma uses_keep_no_error_page:
  "libs_ok L \<Longrightarrow> no_error_page L r \<Longrightarrow> no_error_page L (foldl (use_router L) r us)"
proof (induction us arbitrary: r)
  case (Cons u us)
  have "no_error_page L (use_router L r u)"
  proof (cases u)
    case (Routed now m path)
    then show ?thesis using no_error_page_route [OF Cons.prems] by simp
  next
    case (Swept clock timeNow)
    let ?r = "r\<lparr>lastCheckTime := timeNow\<rparr>"
    have r: "no_error_page L ?r" using Cons.prems(2) by (simp add: no_error_page_def router_wf_def cached_def)
    then have "cached L (checkCacheOverdue L clock ?r due) M_GET ERROR_ROUTE_PATH = None" for due
      using cached_swept [OF Cons.prems(1), of ?r M_GET clock due ERROR_ROUTE_PATH] by (simp add: no_error_page_def)
    then have "no_error_page L (checkCacheOverdue L clock ?r due)" for due
      using r by (simp add: no_error_page_def router_wf_def checkCacheOverdue_def)
    then show ?thesis using Swept Cons.prems(2) by (simp add: checkRouteCache_def)
  qed
  then show ?case using Cons by simp
qed simp

lemma served_without_error_page:
  assumes "serves_blog L r" "cached L r M_GET ERROR_ROUTE_PATH = None"
  shows "no_error_page L r"
proof -
  have "blog_dispatch M_GET ERROR_ROUTE_PATH = RouteResult_new" "plain_path ERROR_ROUTE_PATH" by code_simp+
  then show ?thesis using assms by (intro no_route_no_page) (simp_all add: serves_blog_def)
qed

text \<open>
  The blog has no error page: the server asks its router for \<open>/error\<close> when a path has no route, and
  that path has none either, at any time; the blog's page is at \<open>/404\<close>.
\<close>
theorem blog_has_no_error_page:
  assumes "libs_ok L" "re2_ok (reR L)" "re2_paths (reR L)" "mset Cs = mset blog_controllers"
  shows "\<exists>r. static_registration L Cs (FRouter_new L) = Inr r
    \<and> (\<forall>us now. let r' = foldl (use_router L) (fst (router_lateInit L r)) us
         in no_error_page L r' \<and> \<not> rr_isvalid (fst (route L now r' M_GET ERROR_ROUTE_PATH))
            \<and> controllerFunc (fst (route L now r' M_GET ''/404'')) = Some H_Err404)"
proof -
  have d: "blog_dispatch M_GET ERROR_ROUTE_PATH = RouteResult_new" "plain_path ERROR_ROUTE_PATH" "plain_path ''/404''"
      "controllerFunc (blog_dispatch M_GET ''/404'') = Some H_Err404"
    by code_simp+
  obtain r where r: "static_registration L Cs (FRouter_new L) = Inr r" "serves_blog L (fst (router_lateInit L r))"
      "cached L (fst (router_lateInit L r)) M_GET ERROR_ROUTE_PATH = None"
    using started_blog_serves [OF assms] by blast
  have "no_error_page L (fst (router_lateInit L r))"
    by (rule served_without_error_page [OF r(2,3)])
  then have "no_error_page L (foldl (use_router L) (fst (router_lateInit L r)) us)" for us
    by (rule uses_keep_no_error_page [OF assms(1)])
  moreover note answers = route_serves [OF assms(1) uses_keep_serving [OF assms(1) r(2)], of M_GET]
  ultimately show ?thesis
    by (intro exI [of _ r] conjI r(1)) (simp add: Let_def answers d new_result_invalid)
qed

text \<open>
  The dots of a pattern are not taken literally: the feed is served under any path that has some other
  character in the place of the dot.
\<close>
theorem dot_matches_any_character:
  assumes "libs_ok L" "re2_ok (reR L)" "re2_paths (reR L)" "mset Cs = mset blog_controllers"
    "(of_char c :: nat) < 128" "c \<noteq> CHR 0x0A"
  shows "\<exists>r. static_registration L Cs (FRouter_new L) = Inr r
    \<and> (\<forall>us now. controllerFunc (fst (route L now (foldl (use_router L) (fst (router_lateInit L r)) us) M_GET
         (''/rss'' @ c # ''xml''))) = Some H_RssXml)"
proof -
  have "plain_path (''/rss'' @ c # ''xml'')" using assms(5,6) by (simp add: plain_path_def)
  moreover have "controllerFunc (blog_dispatch M_GET (''/rss'' @ c # ''xml'')) = Some H_RssXml" by code_simp
  moreover obtain r where r: "static_registration L Cs (FRouter_new L) = Inr r"
      "\<And>us. serves_blog L (foldl (use_router L) (fst (router_lateInit L r)) us)"
    using started_blog_used [OF assms(1-4)] by blast
  note answers = route_serves [OF assms(1) r(2), of M_GET]
  ultimately show ?thesis
    by (intro exI [of _ r] conjI r(1)) (simp add: answers)
qed

lemma blog_dispatch_func:
  assumes "controllerFunc (blog_dispatch m path) = Some h"
  shows "\<exists>rt \<in> set blog_routes. rt_method rt = m \<and> rt_func rt = h"
proof -
  let ?w = "\<lambda>n. filter (\<lambda>rt. length (pattern_vars (rt_pattern rt)) = n) (filter (\<lambda>rt. rt_method rt = m) blog_routes)"
  obtain rt where rt: "find (\<lambda>rt. rt_matches rt path) (?w 2 @ ?w 1 @ ?w 0) = Some rt" "rt_func rt = h"
    using assms unfolding blog_dispatch_def Let_def
    by (cases "find (\<lambda>rt. rt_matches rt path) (?w 2 @ ?w 1 @ ?w 0)")
      (simp_all only: option.case, simp_all add: RouteResult_new_def route_answer_def)
  have "rt \<in> set (?w 2 @ ?w 1 @ ?w 0)"
    using rt(1) unfolding find_Some_iff by (metis nth_mem)
  then show ?thesis using rt(2) by auto
qed

definition writers :: "handler list" where
  "writers = [H_Login, H_Post, H_DeletePost, H_Category, H_DeleteCategroy, H_PostAlbum, H_DeleteAlbum, H_PostPhoto,
     H_DeletePhoto, H_PostMessage]"

text \<open>
  C31. Requests other than GET, for ASCII paths and at any time, reach ten controller functions and no other: the
  login, the eight that change articles, categories, albums and photos, and the test page's \<open>PostMessage\<close>,
  which \<open>POST /test/message\<close> always reaches. (Whether a function asks for a session is a matter of its own:
  seven of the eight do, \<open>DeleteCategroy\<close> and \<open>PostMessage\<close> do not.)
\<close>
theorem write_requests_reach:
  assumes "libs_ok L" "re2_ok (reR L)" "re2_paths (reR L)" "mset Cs = mset blog_controllers"
  shows "\<exists>r. static_registration L Cs (FRouter_new L) = Inr r
    \<and> (\<forall>us now m path h. m \<noteq> M_Invalid \<longrightarrow> m \<noteq> M_GET \<longrightarrow> plain_path path \<longrightarrow>
         controllerFunc (fst (route L now (foldl (use_router L) (fst (router_lateInit L r)) us) m path)) = Some h \<longrightarrow>
         h \<in> set writers)
    \<and> (\<forall>us now. controllerFunc (fst (route L now (foldl (use_router L) (fst (router_lateInit L r)) us) M_POST ''/test/message''))
         = Some H_PostMessage)"
proof -
  have "list_all (\<lambda>rt. rt_method rt = M_GET \<or> rt_func rt \<in> set writers) blog_routes" by code_simp
  then have w: "h \<in> set writers" if "controllerFunc (blog_dispatch m path) = Some h" "m \<noteq> M_GET" for m path h
    using blog_dispatch_func [OF that(1)] that(2) by (auto simp: list_all_iff)
  have t: "plain_path ''/test/message''" "controllerFunc (blog_dispatch M_POST ''/test/message'') = Some H_PostMessage"
    by code_simp+
  obtain r where r: "static_registration L Cs (FRouter_new L) = Inr r"
      "\<And>us. serves_blog L (foldl (use_router L) (fst (router_lateInit L r)) us)"
    using started_blog_used [OF assms(1-4)] by blast
  show ?thesis
    using w t by (intro exI [of _ r] conjI r(1)) (auto simp: route_serves [OF assms(1) r(2)])
qed

section \<open>Examples\<close>

definition path_libs :: "((string, nat) rbt, (string, handler route_cache) rbt, (u64, handler pattern_entry) rbt, handler) router_libs" where
  "path_libs = \<lparr>cmT = rbt_ops, rcT = rbt_ops, oqT = rbt_ops, reR = path_re2\<rparr>"

lemma path_libs_ok: "libs_ok path_libs" "re2_ok (reR path_libs)" "re2_paths (reR path_libs)"
  by (simp_all add: path_libs_def libs_ok_def rbt_ops_ok rbt_ops_sorted path_re2_ok)

theorem blog_serves_its_routes_witness:
  "\<exists>r. static_registration path_libs (rev blog_controllers) (FRouter_new path_libs) = Inr r
     \<and> fst (route path_libs 9 (use_router path_libs (fst (router_lateInit path_libs r)) (Routed 0 M_GET ''/category/id=3&page=2''))
          M_GET ''/category/id=3&page=2'')
       = \<lparr>pathVariable = [(''id'', ''3''), (''page'', ''2'')], controllerFunc = Some H_CategoriesDetail, controllerSave = Some 9\<rparr>"
proof -
  have "plain_path ''/category/id=3&page=2''"
    "blog_dispatch M_GET ''/category/id=3&page=2''
       = \<lparr>pathVariable = [(''id'', ''3''), (''page'', ''2'')], controllerFunc = Some H_CategoriesDetail, controllerSave = Some 9\<rparr>"
    by code_simp+
  moreover obtain r where r: "static_registration path_libs (rev blog_controllers) (FRouter_new path_libs) = Inr r"
      "\<And>us now m path. m \<noteq> M_Invalid \<Longrightarrow> plain_path path \<Longrightarrow>
         fst (route path_libs now (foldl (use_router path_libs) (fst (router_lateInit path_libs r)) us) m path) = blog_dispatch m path"
    using blog_serves_its_routes [OF path_libs_ok, of "rev blog_controllers"] by auto
  ultimately show ?thesis using r(2) [of M_GET _ 9 "[Routed 0 M_GET ''/category/id=3&page=2'']"] by auto
qed

theorem blog_has_no_error_page_witness:
  "\<exists>r. static_registration path_libs blog_controllers (FRouter_new path_libs) = Inr r
     \<and> \<not> rr_isvalid (fst (route path_libs 0 (fst (router_lateInit path_libs r)) M_GET ''/error''))"
proof -
  obtain r where "static_registration path_libs blog_controllers (FRouter_new path_libs) = Inr r"
      "\<And>us now. \<not> rr_isvalid (fst (route path_libs now (foldl (use_router path_libs) (fst (router_lateInit path_libs r)) us)
         M_GET ERROR_ROUTE_PATH))"
    using blog_has_no_error_page [OF path_libs_ok refl] by (auto simp: Let_def)
  from this(1) this(2) [of 0 "[]"] show ?thesis by auto
qed

theorem dot_matches_any_character_witness:
  "\<exists>r. static_registration path_libs blog_controllers (FRouter_new path_libs) = Inr r
     \<and> controllerFunc (fst (route path_libs 0 (fst (router_lateInit path_libs r)) M_GET ''/rssXxml'')) = Some H_RssXml"
proof -
  have "(of_char CHR ''X'' :: nat) < 128" "CHR ''X'' \<noteq> CHR 0x0A" by simp_all
  then obtain r where "static_registration path_libs blog_controllers (FRouter_new path_libs) = Inr r"
      "\<And>us now. controllerFunc (fst (route path_libs now (foldl (use_router path_libs) (fst (router_lateInit path_libs r)) us) M_GET
         (''/rss'' @ CHR ''X'' # ''xml''))) = Some H_RssXml"
    using dot_matches_any_character [OF path_libs_ok refl] by blast
  from this(1) this(2) [of 0 "[]"] show ?thesis by auto
qed

theorem write_requests_reach_witness:
  "\<exists>r. static_registration path_libs blog_controllers (FRouter_new path_libs) = Inr r
     \<and> controllerFunc (fst (route path_libs 0 (fst (router_lateInit path_libs r)) M_POST ''/test/message'')) = Some H_PostMessage"
proof -
  obtain r where "static_registration path_libs blog_controllers (FRouter_new path_libs) = Inr r"
      "\<And>us now. controllerFunc (fst (route path_libs now (foldl (use_router path_libs) (fst (router_lateInit path_libs r)) us)
         M_POST ''/test/message'')) = Some H_PostMessage"
    using write_requests_reach [OF path_libs_ok refl] by blast
  from this(1) this(2) [of 0 "[]"] show ?thesis by auto
qed

end
