(* ===== verification/FBlog.thy ===== *)
theory FBlog
  imports FRoutes FHttpServer
begin

text \<open>
  The blog as a whole: \<open>FHttpServer\<close> with the router that the blog's controllers have registered with
  (\<open>FRoutes\<close>). The blog's server installs no callbacks (\<open>setConnFilterCB\<close> is commented out in
  \<open>server.cpp\<close>). What a request is answered with is a function of the request and of the controller
  functions; the router's state does not show.
\<close>

section \<open>What a request is answered with\<close>

definition blog_response :: "handler http_server \<Rightarrow> http_request \<Rightarrow> http_response" where
  "blog_response S request =
     (let res = blog_dispatch (rq_getMethod request) (rq_getPath request)
      in case controllerFunc res of
           None \<Rightarrow> defaultHandleRouterMismatchFunc FHttpResponse_new
         | Some func \<Rightarrow>
             (case run_controller S func request (pathVariable res) of
                Inr resp \<Rightarrow> resp
              | Inl (Threw_FException st) \<Rightarrow> defaultExceptionFunc FHttpResponse_new st
              | Inl Threw_std \<Rightarrow> defaultExceptionFunc FHttpResponse_new []))"

definition no_callbacks :: "handler http_server \<Rightarrow> bool" where
  "no_callbacks S \<longleftrightarrow> mConnFilterFunc S = None \<and> mRouteNotMatchCallback S = None \<and> mInternalErrCallback S = None"

section \<open>Lemmas\<close>

lemma blog_dispatch_valid: "rr_isvalid (blog_dispatch m path) \<longleftrightarrow> controllerFunc (blog_dispatch m path) \<noteq> None"
  by (simp add: blog_dispatch_def Let_def RouteResult_new_def rr_isvalid_def route_answer_def split: option.split)

lemma used_once: "snd (route L now (foldl (use_router L) r us) m path) = foldl (use_router L) r (us @ [Routed now m path])"
  by simp

lemma blog_handles:
  assumes "libs_ok L" "serves_blog L r" "no_error_page L r" "no_callbacks S"
    "mIsValid q" "rq_getMethod q \<noteq> M_Invalid" "plain_path (rq_getPath q)"
  shows "\<exists>us d'. httpHandle L S clock r d h2 q = (Inr (preProcessHttpRequestSend S q (blog_response S q)), foldl (use_router L) r us, d')"
proof -
  let ?m = "rq_getMethod q" and ?p = "rq_getPath q"
  obtain res r1 where R: "route L clock r ?m ?p = (res, r1)" by fastforce
  have res: "res = blog_dispatch ?m ?p" using route_serves [OF assms(1,2,6,7), of clock] R by simp
  have r1: "r1 = foldl (use_router L) r [Routed clock ?m ?p]" using R by simp
  have "no_error_page L r1" using no_error_page_route [OF assms(1,3), of clock ?m ?p] R by simp
  then have e: "route L clock r1 M_GET ERROR_ROUTE_PATH = (RouteResult_new, r1)" using no_error_page_invalid by blast
  have "httpHandle L S clock r d h2 q = (Inr (preProcessHttpRequestSend S q (blog_response S q)), r1, preProcessTcpConn d h2 q)"
  proof (cases "controllerFunc res")
    case None
    then have "\<not> rr_isvalid res" by (simp add: res blog_dispatch_valid)
    then show ?thesis
      using None assms(4,5)
      by (simp add: httpHandle_def no_callbacks_def blog_response_def Let_def R e new_result_invalid flip: res)
  next
    case (Some f)
    then have "rr_isvalid res" by (simp add: res blog_dispatch_valid)
    then show ?thesis
      using Some assms(4,5)
      by (simp add: httpHandle_def no_callbacks_def blog_response_def Let_def R the_func_def split: sum.split controller_exn.split
          flip: res)
  qed
  then show ?thesis using r1 by blast
qed

text \<open>The answers to a sequence of requests, on any connections, HTTP/1 or HTTP/2.\<close>

fun handle_all :: "('cm, 'rc, 'oq, handler) router_libs \<Rightarrow> handler http_server \<Rightarrow> ('cm, 'rc, 'oq) router \<Rightarrow>
    (u64 \<times> conn_data \<times> bool \<times> http_request) list \<Rightarrow> controller_answer list \<times> ('cm, 'rc, 'oq) router" where
  "handle_all L S r [] = ([], r)"
| "handle_all L S r ((clock, d, h2, q) # qs) =
     (let (ans, r1, _) = httpHandle L S clock r d h2 q; (answers, r2) = handle_all L S r1 qs
      in (ans # answers, r2))"

definition good_request :: "http_request \<Rightarrow> bool" where
  "good_request q \<longleftrightarrow> mIsValid q \<and> rq_getMethod q \<noteq> M_Invalid \<and> plain_path (rq_getPath q)"

lemma blog_handles_all:
  assumes "libs_ok L" "no_callbacks S"
  shows "serves_blog L r \<Longrightarrow> no_error_page L r \<Longrightarrow> list_all (\<lambda>(clock, d, h2, q). good_request q) qs \<Longrightarrow>
    fst (handle_all L S r qs) = map (\<lambda>(clock, d, h2, q). Inr (preProcessHttpRequestSend S q (blog_response S q))) qs"
proof (induction qs arbitrary: r)
  case (Cons a qs)
  obtain clock d h2 q where a: "a = (clock, d, h2, q)" by (metis prod_cases4)
  obtain us d' where h: "httpHandle L S clock r d h2 q = (Inr (preProcessHttpRequestSend S q (blog_response S q)), foldl (use_router L) r us, d')"
    using blog_handles [OF assms(1) Cons.prems(1,2) assms(2), of q clock d h2] Cons.prems(3) by (auto simp: a good_request_def)
  have "serves_blog L (foldl (use_router L) r us)" "no_error_page L (foldl (use_router L) r us)"
    using Cons.prems uses_keep_serving [OF assms(1)] uses_keep_no_error_page [OF assms(1)] by blast+
  from Cons.IH [OF this] Cons.prems(3) h show ?case
    by (cases "handle_all L S (foldl (use_router L) r us) qs") (simp add: a)
qed simp

text \<open>
  C2. Every request to the blog has the one answer that its table of routes and its controller functions give: after
  the registration of the controllers in any order, whatever has been routed and swept and for any sequence of
  requests, each is answered by the function of its route with the variables of its path, by the
  404 response if it has no route, and by the 501 response if the function throws.
\<close>
theorem blog_answers:
  assumes "libs_ok L" "re2_ok (reR L)" "re2_paths (reR L)" "mset Cs = mset blog_controllers" "no_callbacks S"
    "list_all (\<lambda>(clock, d, h2, q). good_request q) qs"
  shows "\<exists>r. static_registration L Cs (FRouter_new L) = Inr r
    \<and> (\<forall>us. fst (handle_all L S (foldl (use_router L) (fst (router_lateInit L r)) us) qs)
         = map (\<lambda>(clock, d, h2, q). Inr (preProcessHttpRequestSend S q (blog_response S q))) qs)"
proof -
  obtain r where r: "static_registration L Cs (FRouter_new L) = Inr r" "serves_blog L (fst (router_lateInit L r))"
      "no_error_page L (fst (router_lateInit L r))"
    using started_blog_serves [OF assms(1-4)] by (metis served_without_error_page http_method.distinct(17))
  then show ?thesis
    using blog_handles_all [OF assms(1,5) _ _ assms(6)] uses_keep_serving [OF assms(1)] uses_keep_no_error_page [OF assms(1)]
    by blast
qed

section \<open>An example\<close>

text \<open>A blog whose controllers answer with the text of their path variable \<open>id\<close>, and whose function for articles throws.\<close>

definition demo_blog :: "handler http_server" where
  "demo_blog = \<lparr>mPreSendCallback = None, mInternalErrCallback = None, mRouteNotMatchCallback = None, mConnFilterFunc = None,
     run_controller = (\<lambda>f q vars. if f = H_ArticleDetail then Inl (Threw_FException []) else Inr (rs_setBody FHttpResponse_new (pv_get vars ''id''))),
     mHttpRequestWaitTime = -1, mHttpConnectionTimeout = -1, mHttp2DrainTimeOut = 15, mHttp2CloseImm = False\<rparr>"

definition demo_calls :: "(u64 \<times> conn_data \<times> bool \<times> http_request) list" where
  "demo_calls = [(1, demo_data, False, demo_request ''/category/id=3&page=2''), (2, demo_data, True, demo_request ''/post/7''),
     (3, demo_data, False, demo_request ''/nope'')]"

lemma map_answers:
  "map (map_sum id G) (map (\<lambda>(clock, d, h2, q). Inr (A q)) qs) = map Inr (map (\<lambda>(clock, d, h2, q). G (A q)) qs)"
  by (induction qs) auto

theorem blog_answers_witness:
  "\<exists>r. static_registration path_libs (rev blog_controllers) (FRouter_new path_libs) = Inr r
    \<and> map (map_sum id (\<lambda>resp. (mStatus resp, mBody resp))) (fst (handle_all path_libs demo_blog (fst (router_lateInit path_libs r)) demo_calls))
       = [Inr (S200, ''3''), Inr (S501, ''500: Server Internal Error''), Inr (S404, ''404: Page not found'')]"
proof -
  have good: "list_all (\<lambda>(clock, d, h2, q). good_request q) demo_calls" by code_simp
  have "map (\<lambda>(clock, d, h2, q). (mStatus (blog_response demo_blog q), mBody (blog_response demo_blog q))) demo_calls
      = [(S200, ''3''), (S501, ''500: Server Internal Error''), (S404, ''404: Page not found'')]" by code_simp
  moreover have "mStatus (preProcessHttpRequestSend demo_blog q rs) = mStatus rs"
      "mBody (preProcessHttpRequestSend demo_blog q rs) = mBody rs" for q rs
    using preProcess_status_body [of demo_blog] by (simp_all add: demo_blog_def)
  ultimately have out: "map (\<lambda>(clock, d, h2, q). (mStatus (preProcessHttpRequestSend demo_blog q (blog_response demo_blog q)),
        mBody (preProcessHttpRequestSend demo_blog q (blog_response demo_blog q)))) demo_calls
      = [(S200, ''3''), (S501, ''500: Server Internal Error''), (S404, ''404: Page not found'')]"
    by (simp only:)
  have "no_callbacks demo_blog" by (simp add: no_callbacks_def demo_blog_def)
  then obtain r where r: "static_registration path_libs (rev blog_controllers) (FRouter_new path_libs) = Inr r"
      "\<And>us. fst (handle_all path_libs demo_blog (foldl (use_router path_libs) (fst (router_lateInit path_libs r)) us) demo_calls)
        = map (\<lambda>(clock, d, h2, q). Inr (preProcessHttpRequestSend demo_blog q (blog_response demo_blog q))) demo_calls"
    using blog_answers [OF path_libs_ok, of "rev blog_controllers" demo_blog demo_calls] good by auto
  from r(2) [of "[]"] have "fst (handle_all path_libs demo_blog (fst (router_lateInit path_libs r)) demo_calls)
      = map (\<lambda>(clock, d, h2, q). Inr (preProcessHttpRequestSend demo_blog q (blog_response demo_blog q))) demo_calls"
    by (simp only: foldl.simps)
  with r(1) show ?thesis by (intro exI [of _ r]) (simp only: map_answers out list.map simp_thms)
qed

end
